(* ===== verification/Prelude.thy ===== *)
theory Prelude
  imports Main "HOL-Library.Word" "HOL-Library.List_Lexorder" "HOL-Library.Char_ord"
begin

text \<open>
  What every component shares: the machine types of the Go code, the result of a Go call
  (a value, an error, a panic, or a call that never returns), computations over a state,
  the rules to reason about them, and generic lemmas on lists and 64-bit integers.
\<close>

section \<open>Machine types\<close>

type_synonym byte = "8 word"
type_synonym bytes = "byte list"
type_synonym int64 = "64 word"

named_theorems run_rules \<open>rules that run a computation to a known result\<close>
named_theorems keep_rules \<open>rules that carry a state invariant through a computation\<close>

section \<open>Results and computations\<close>

text \<open>
  A Go function of result \<open>(T, error)\<close> ends in one of four ways.  \<open>Ok x\<close> is
  \<open>return x, nil\<close>; \<open>Err e\<close> is a return with a non-nil error (the value beside it is
  never read by a caller, and gRPC does not transmit it); \<open>Panic\<close> is a run-time
  panic (index out of range, nil dereference, write to a nil map); \<open>Hang\<close> is a loop
  that never ends.
\<close>

datatype ('e, 'a) outcome = Ok 'a | Err 'e | Panic | Hang

type_synonym ('w, 'e, 'a) comp = "'w \<Rightarrow> ('e, 'a) outcome \<times> 'w"

definition ret :: "'a \<Rightarrow> ('w, 'e, 'a) comp" where
  "ret x w = (Ok x, w)"

definition throw :: "'e \<Rightarrow> ('w, 'e, 'a) comp" where
  "throw e w = (Err e, w)"

definition panic :: "('w, 'e, 'a) comp" where
  "panic w = (Panic, w)"

text \<open>\<open>x, err := m(); if err != nil { return err }; f(x)\<close>\<close>

definition and_then :: "('w, 'e, 'a) comp \<Rightarrow> ('a \<Rightarrow> ('w, 'e, 'b) comp) \<Rightarrow> ('w, 'e, 'b) comp" where
  "and_then m f w = (case m w of
     (Ok x, w') \<Rightarrow> f x w'
   | (Err e, w') \<Rightarrow> (Err e, w')
   | (Panic, w') \<Rightarrow> (Panic, w')
   | (Hang, w') \<Rightarrow> (Hang, w'))"

text \<open>\<open>x, err := m()\<close> where the code inspects the error itself.\<close>

definition attempt :: "('w, 'e, 'a) comp \<Rightarrow> ('w, 'e, 'e + 'a) comp" where
  "attempt m w = (case m w of
     (Ok x, w') \<Rightarrow> (Ok (Inr x), w')
   | (Err e, w') \<Rightarrow> (Ok (Inl e), w')
   | (Panic, w') \<Rightarrow> (Panic, w')
   | (Hang, w') \<Rightarrow> (Hang, w'))"

text \<open>A call whose results the code throws away.\<close>

definition discard :: "('w, 'e, 'a) comp \<Rightarrow> ('w, 'e, unit) comp" where
  "discard m = and_then (attempt m) (\<lambda>_. ret ())"

text \<open>A loop, given as a partial function: \<open>None\<close> is a loop that does not end.\<close>

definition looping :: "('w \<Rightarrow> (('e, 'a) outcome \<times> 'w) option) \<Rightarrow> ('w, 'e, 'a) comp" where
  "looping l w = (case l w of None \<Rightarrow> (Hang, w) | Some r \<Rightarrow> r)"

section \<open>Reasoning about computations\<close>

text \<open>
  \<open>triple P m Q\<close>: from every state with \<open>P\<close>, the result and the final state of
  \<open>m\<close> are in \<open>Q\<close>.  Computations are total functions, so this is total correctness:
  a loop that never returns is the result \<open>Hang\<close>.  \<open>runs P m r Q\<close> names the result.
\<close>

definition triple :: "('w \<Rightarrow> bool) \<Rightarrow> ('w, 'e, 'a) comp \<Rightarrow> (('e, 'a) outcome \<Rightarrow> 'w \<Rightarrow> bool) \<Rightarrow> bool" where
  "triple P m Q \<longleftrightarrow> (\<forall>w. P w \<longrightarrow> (case m w of (r, w') \<Rightarrow> Q r w'))"

definition runs :: "('w \<Rightarrow> bool) \<Rightarrow> ('w, 'e, 'a) comp \<Rightarrow> ('e, 'a) outcome \<Rightarrow> ('w \<Rightarrow> bool) \<Rightarrow> bool" where
  "runs P m r Q \<longleftrightarrow> triple P m (\<lambda>r' w'. r' = r \<and> Q w')"

definition keeps :: "('w \<Rightarrow> bool) \<Rightarrow> ('w, 'e, 'a) comp \<Rightarrow> bool" where
  "keeps I m \<longleftrightarrow> triple I m (\<lambda>_. I)"

lemma tripleI: "(\<And>w. P w \<Longrightarrow> Q (fst (m w)) (snd (m w))) \<Longrightarrow> triple P m Q"
  by (simp add: triple_def split_beta)

lemma tripleD: "triple P m Q \<Longrightarrow> P w \<Longrightarrow> Q (fst (m w)) (snd (m w))"
  by (simp add: triple_def split_beta)

lemma runsI: "(\<And>w. P w \<Longrightarrow> \<exists>w'. m w = (r, w') \<and> Q w') \<Longrightarrow> runs P m r Q"
  by (fastforce simp: runs_def triple_def)

lemma runsD: "runs P m r Q \<Longrightarrow> P w \<Longrightarrow> \<exists>w'. m w = (r, w') \<and> Q w'"
  by (cases "m w") (fastforce simp: runs_def triple_def)

lemma keepsI: "(\<And>w. I w \<Longrightarrow> I (snd (m w))) \<Longrightarrow> keeps I m"
  by (simp add: keeps_def tripleI)

lemma keepsD: "keeps I m \<Longrightarrow> I w \<Longrightarrow> I (snd (m w))"
  by (simp add: keeps_def triple_def split_beta)

lemma runs_weaken: "runs P m r Q \<Longrightarrow> (\<And>w. P' w \<Longrightarrow> P w) \<Longrightarrow> (\<And>w. Q w \<Longrightarrow> Q' w) \<Longrightarrow> runs P' m r Q'"
  by (rule runsI) (blast dest: runsD)

lemma triple_weaken:
  "triple P m Q \<Longrightarrow> (\<And>w. P' w \<Longrightarrow> P w) \<Longrightarrow> (\<And>r w. Q r w \<Longrightarrow> Q' r w) \<Longrightarrow> triple P' m Q'"
  by (rule tripleI) (blast dest: tripleD)

lemma runs_imp_triple: "runs P m r Q \<Longrightarrow> triple P m (\<lambda>r' w. r' = r \<and> Q w)"
  by (simp add: runs_def)

lemma runs_ret [run_rules]: "runs P (ret x) (Ok x) P"
  by (rule runsI) (simp add: ret_def)

lemma runs_throw [run_rules]: "runs P (throw e) (Err e) P"
  by (rule runsI) (simp add: throw_def)

lemma runs_panic [run_rules]: "runs P panic Panic P"
  by (rule runsI) (simp add: panic_def)

lemma runs_and_then: "runs P m (Ok x) Q \<Longrightarrow> runs Q (f x) r R \<Longrightarrow> runs P (and_then m f) r R"
  by (rule runsI) (fastforce dest: runsD simp: and_then_def)

lemma runs_and_then_Err [run_rules]: "runs P m (Err e) Q \<Longrightarrow> runs P (and_then m f) (Err e) Q"
  by (rule runsI) (fastforce dest: runsD simp: and_then_def)

lemma runs_and_then_Panic [run_rules]: "runs P m Panic Q \<Longrightarrow> runs P (and_then m f) Panic Q"
  by (rule runsI) (fastforce dest: runsD simp: and_then_def)

lemma runs_and_then_Hang [run_rules]: "runs P m Hang Q \<Longrightarrow> runs P (and_then m f) Hang Q"
  by (rule runsI) (fastforce dest: runsD simp: and_then_def)

lemma runs_attempt [run_rules]: "runs P m (Ok x) Q \<Longrightarrow> runs P (attempt m) (Ok (Inr x)) Q"
  by (rule runsI) (fastforce dest: runsD simp: attempt_def)

lemma runs_attempt_Err [run_rules]: "runs P m (Err e) Q \<Longrightarrow> runs P (attempt m) (Ok (Inl e)) Q"
  by (rule runsI) (fastforce dest: runsD simp: attempt_def)

lemma runs_attempt_Panic [run_rules]: "runs P m Panic Q \<Longrightarrow> runs P (attempt m) Panic Q"
  by (rule runsI) (fastforce dest: runsD simp: attempt_def)

lemma runs_discard: "runs P m (Ok x) Q \<Longrightarrow> runs P (discard m) (Ok ()) Q"
  unfolding discard_def by (rule runs_and_then [OF runs_attempt runs_ret])

lemma triple_and_then:
  assumes "triple P m Q"
    and "\<And>x. triple (Q (Ok x)) (f x) R"
    and "\<And>e w. Q (Err e) w \<Longrightarrow> R (Err e) w"
    and "\<And>w. Q Panic w \<Longrightarrow> R Panic w" and "\<And>w. Q Hang w \<Longrightarrow> R Hang w"
  shows "triple P (and_then m f) R"
proof (rule tripleI)
  fix w assume "P w"
  with assms(1) have "Q (fst (m w)) (snd (m w))" by (rule tripleD)
  then show "R (fst (and_then m f w)) (snd (and_then m f w))"
    using assms(2-5) by (fastforce simp: and_then_def triple_def split: outcome.splits prod.splits)
qed

lemma triple_runs_and_then: "runs P m (Ok x) Q \<Longrightarrow> triple Q (f x) R \<Longrightarrow> triple P (and_then m f) R"
  by (rule tripleI) (fastforce dest: runsD tripleD simp: and_then_def)

lemma keeps_ret [keep_rules]: "keeps I (ret x)"
  by (rule keepsI) (simp add: ret_def)

lemma keeps_throw [keep_rules]: "keeps I (throw e)"
  by (rule keepsI) (simp add: throw_def)

lemma keeps_panic [keep_rules]: "keeps I panic"
  by (rule keepsI) (simp add: panic_def)

lemma keeps_and_then [keep_rules]: "keeps I m \<Longrightarrow> (\<And>x. keeps I (f x)) \<Longrightarrow> keeps I (and_then m f)"
  by (rule keepsI) (fastforce dest: keepsD simp: and_then_def split: prod.splits outcome.splits)

lemma keeps_attempt [keep_rules]: "keeps I m \<Longrightarrow> keeps I (attempt m)"
  by (rule keepsI) (fastforce dest: keepsD simp: attempt_def split: prod.splits outcome.splits)

lemma keeps_discard [keep_rules]: "keeps I m \<Longrightarrow> keeps I (discard m)"
  unfolding discard_def by (intro keep_rules)

lemma keeps_if [keep_rules]: "(c \<Longrightarrow> keeps I m) \<Longrightarrow> (\<not> c \<Longrightarrow> keeps I n) \<Longrightarrow> keeps I (if c then m else n)"
  by simp

lemma keeps_sum [keep_rules]:
  "(\<And>e. s = Inl e \<Longrightarrow> keeps I (f e)) \<Longrightarrow> (\<And>x. s = Inr x \<Longrightarrow> keeps I (g x)) \<Longrightarrow> keeps I (case_sum f g s)"
  by (cases s) simp_all

lemma keeps_option [keep_rules]:
  "(s = None \<Longrightarrow> keeps I m) \<Longrightarrow> (\<And>x. s = Some x \<Longrightarrow> keeps I (g x)) \<Longrightarrow> keeps I (case_option m g s)"
  by (cases s) simp_all

lemma keeps_list [keep_rules]:
  "(s = [] \<Longrightarrow> keeps I m) \<Longrightarrow> (\<And>x xs. s = x # xs \<Longrightarrow> keeps I (g x xs)) \<Longrightarrow> keeps I (case_list m g s)"
  by (cases s) simp_all

lemma keeps_prod [keep_rules]:
  "(\<And>x y. s = (x, y) \<Longrightarrow> keeps I (g x y)) \<Longrightarrow> keeps I (case_prod g s)"
  by (cases s) simp

lemma keeps_looping: "(\<And>w r w'. I w \<Longrightarrow> l w = Some (r, w') \<Longrightarrow> I w') \<Longrightarrow> keeps I (looping l)"
  by (rule keepsI) (fastforce simp: looping_def split: option.splits)

section \<open>64-bit integers\<close>

lemma sint64_range: "- (2 ^ 63) \<le> sint (a :: int64)" "sint (a :: int64) < 2 ^ 63"
  using sint_greater_eq [of a] sint_less [of a] by simp_all

lemma signed_take_bit_63_eq:
  "- (2 ^ 63) \<le> i \<Longrightarrow> i < 2 ^ 63 \<Longrightarrow> signed_take_bit 63 (i :: int) = i"
  by (rule signed_take_bit_int_eq_self) simp_all

lemma signed_take_bit_63_high:
  assumes "2 ^ 63 \<le> i" and "i < 3 * 2 ^ 63"
  shows "signed_take_bit 63 (i :: int) = i - 2 ^ 64"
proof -
  have "(i + 2 ^ 63) mod 2 ^ 64 = (i + 2 ^ 63 - 2 ^ 64) mod 2 ^ 64"
    by (simp only: minus_mod_self2)
  also have "\<dots> = i + 2 ^ 63 - 2 ^ 64"
    using assms by (intro mod_pos_pos_trivial) simp_all
  finally show ?thesis
    by (simp add: signed_take_bit_eq_take_bit_shift take_bit_eq_mod)
qed

lemma sint64_add: "- (2 ^ 63) \<le> sint a + sint b \<Longrightarrow> sint a + sint b < 2 ^ 63 \<Longrightarrow>
    sint (a + b :: int64) = sint a + sint b"
  by (simp add: sint_word_add signed_take_bit_63_eq)

lemma sint64_diff: "- (2 ^ 63) \<le> sint a - sint b \<Longrightarrow> sint a - sint b < 2 ^ 63 \<Longrightarrow>
    sint (a - b :: int64) = sint a - sint b"
  by (simp add: sint_word_diff signed_take_bit_63_eq)

lemma sint64_of_nat: "int n < 2 ^ 63 \<Longrightarrow> sint (of_nat n :: int64) = int n"
  by (simp add: signed_of_nat signed_take_bit_63_eq)

end
