(* ===== verification/Go_Util.thy ===== *)
theory Go_Util
  imports Prelude "HOL-Library.AList"
begin

text \<open>
  Package \<open>util\<close> (\<open>util/util.go\<close>, \<open>util/errors.go\<close>): conversions between strings and
  byte slices, the reserved byte and name suffixes, the error values; and the Go maps the
  messages carry.
\<close>

section \<open>Strings and byte slices\<close>

text \<open>
  A Go string is a sequence of bytes, so is Isabelle's \<open>string\<close>.  Both conversions
  reinterpret the header of the same memory (\<open>unsafe.Pointer\<close>); on contents they are the
  identity on bytes.
\<close>

definition StringToBytes :: "string \<Rightarrow> bytes" where
  "StringToBytes s = map (\<lambda>c. of_nat (of_char c)) s"

definition BytesToString :: "bytes \<Rightarrow> string" where
  "BytesToString b = map (\<lambda>x. char_of (unat x)) b"

definition ZeroByte :: bytes where
  "ZeroByte = [0]"

definition suffixForKeysUsingPrefix :: string where
  "suffixForKeysUsingPrefix = ''*_MYDIS_WITHPREFIX''"

definition suffixForLocks :: string where
  "suffixForLocks = ''*_MYDIS_LOCK''"

lemma unat_byte_less: "unat (x :: byte) < 256"
  using unsigned_less [of x] by simp

lemma BytesToString_StringToBytes [simp]: "BytesToString (StringToBytes s) = s"
  by (simp add: BytesToString_def StringToBytes_def comp_def unat_of_nat)

lemma StringToBytes_BytesToString [simp]: "StringToBytes (BytesToString b) = b"
  by (simp add: BytesToString_def StringToBytes_def comp_def unat_byte_less map_idI)

lemma StringToBytes_inject [simp]: "StringToBytes s = StringToBytes t \<longleftrightarrow> s = t"
  by (metis BytesToString_StringToBytes)

lemma BytesToString_inject [simp]: "BytesToString s = BytesToString t \<longleftrightarrow> s = t"
  by (metis StringToBytes_BytesToString)

lemma StringToBytes_Nil [simp]: "StringToBytes s = [] \<longleftrightarrow> s = []"
  by (simp add: StringToBytes_def)

lemma length_StringToBytes [simp]: "length (StringToBytes s) = length s"
  by (simp add: StringToBytes_def)

lemma StringToBytes_append: "StringToBytes (s @ t) = StringToBytes s @ StringToBytes t"
  by (simp add: StringToBytes_def)

section \<open>Errors\<close>

text \<open>
  The package's error values are compared by identity (\<open>err == util.ErrKeyNotFound\<close>);
  \<open>Other msg\<close> is any other error value with that text, in particular one whose text
  happens to be that of a package error.
\<close>

datatype go_error =
    ErrKeyNotFound
  | ErrKeyLocked
  | ErrInvalidKey
  | ErrTypeMismatch
  | ErrListEmpty
  | ErrListIndexOutOfRange
  | ErrHashFieldNotFound
  | Other string

fun Error :: "go_error \<Rightarrow> string" where
  "Error ErrKeyNotFound = ''Key not found''"
| "Error ErrKeyLocked = ''Key is locked''"
| "Error ErrInvalidKey = ''Invalid key name''"
| "Error ErrTypeMismatch = ''Type mismatch''"
| "Error ErrListEmpty = ''List is empty''"
| "Error ErrListIndexOutOfRange = ''Index out of range''"
| "Error ErrHashFieldNotFound = ''Hash field does not exist''"
| "Error (Other msg) = msg"

section \<open>Go maps\<close>

text \<open>
  A Go map is \<open>None\<close> when nil, otherwise its entries in the order a \<open>range\<close> loop
  visits them.  That order is not specified by Go, so it is whatever order the list has;
  what the map holds is \<open>map_of\<close> of it.
\<close>

type_synonym 'v gomap = "(string \<times> 'v) list option"

definition map_entries :: "'v gomap \<Rightarrow> (string \<times> 'v) list" where
  "map_entries m = (case m of None \<Rightarrow> [] | Some es \<Rightarrow> es)"

definition map_get :: "'v gomap \<Rightarrow> string \<Rightarrow> 'v option" where
  "map_get m k = map_of (map_entries m) k"

text \<open>\<open>m[k] = v\<close>: a write to a nil map panics (here \<open>None\<close>).\<close>

definition map_put :: "string \<Rightarrow> 'v \<Rightarrow> 'v gomap \<Rightarrow> 'v gomap option" where
  "map_put k v m = (case m of None \<Rightarrow> None | Some es \<Rightarrow> Some (Some (AList.update k v es)))"

definition map_delete :: "string \<Rightarrow> 'v gomap \<Rightarrow> 'v gomap" where
  "map_delete k m = map_option (AList.delete k) m"

definition map_wf :: "'v gomap \<Rightarrow> bool" where
  "map_wf m \<longleftrightarrow> distinct (map fst (map_entries m))"

text \<open>\<open>for k, v := range es { m[k] = v }\<close>, with the write operation as an argument.\<close>

primrec put_all :: "('k \<Rightarrow> 'v \<Rightarrow> 'm \<Rightarrow> 'm option) \<Rightarrow> ('k \<times> 'v) list \<Rightarrow> 'm \<Rightarrow> 'm option" where
  "put_all put [] m = Some m"
| "put_all put (x # xs) m =
     (case put (fst x) (snd x) m of None \<Rightarrow> None | Some m' \<Rightarrow> put_all put xs m')"

text \<open>
  The contract of a map the loops over fields rely on: what is read after a write and
  after a deletion, with writes that may fail.
\<close>

locale field_map =
  fixes get :: "'m \<Rightarrow> 'k \<Rightarrow> 'v option"
    and put :: "'k \<Rightarrow> 'v \<Rightarrow> 'm \<Rightarrow> 'm option"
    and del :: "'k \<Rightarrow> 'm \<Rightarrow> 'm"
    and writable :: "'m \<Rightarrow> bool"
    and wf :: "'m \<Rightarrow> bool"
  assumes put_writable: "writable m \<Longrightarrow> \<exists>m'. put k v m = Some m'"
    and put_nil: "\<not> writable m \<Longrightarrow> put k v m = None"
    and put_get: "put k v m = Some m' \<Longrightarrow> get m' = (get m)(k \<mapsto> v)"
    and put_wf: "wf m \<Longrightarrow> put k v m = Some m' \<Longrightarrow> wf m' \<and> writable m'"
    and del_get: "get (del k m) = (get m)(k := None)"
    and del_wf: "wf m \<Longrightarrow> wf (del k m)"
    and del_writable: "writable (del k m) = writable m"
begin

lemma put_all_writable:
  assumes "writable m" and "wf m"
  shows "\<exists>m'. put_all put xs m = Some m' \<and> get m' = get m ++ map_of (rev xs) \<and> wf m' \<and> writable m'"
  using assms
proof (induction xs arbitrary: m)
  case Nil
  then show ?case by simp
next
  case (Cons x xs)
  obtain m1 where m1: "put (fst x) (snd x) m = Some m1"
    using put_writable [OF Cons.prems(1)] by blast
  with Cons.prems have "wf m1" "writable m1" by (auto dest: put_wf)
  with Cons.IH obtain m' where m': "put_all put xs m1 = Some m'"
      "get m' = get m1 ++ map_of (rev xs)" "wf m'" "writable m'"
    by blast
  have "get m1 ++ map_of (rev xs) = get m ++ map_of (rev (x # xs))"
    by (simp add: put_get [OF m1] map_add_assoc [symmetric] map_add_upd_left)
  with m1 m' show ?case by simp
qed

lemma put_all_nil: "\<not> writable m \<Longrightarrow> xs \<noteq> [] \<Longrightarrow> put_all put xs m = None"
  by (cases xs) (simp_all add: put_nil)

end

interpretation fields: field_map map_get map_put map_delete "\<lambda>m. m \<noteq> None" map_wf
  by unfold_locales
    (auto simp: map_get_def map_put_def map_delete_def map_wf_def map_entries_def
       update_conv' delete_conv' distinct_update distinct_delete split: option.splits)

end
