(* ===== verification/Messages.thy ===== *)
theory Messages
  imports Go_Util
begin

text \<open>
  The protocol's messages (\<open>pb/mydis.proto\<close> and the structs generated from it in
  \<open>pb/mydis.pb.go\<close>).  A message with one field is that field.  \<open>int64\<close> and
  \<open>sint64\<close> fields are 64-bit words; a \<open>double\<close> is its 64-bit pattern, on which only
  the arithmetic parameter of the float operations acts.
\<close>

type_synonym float64 = "64 word"

type_synonym pb_Null = unit
type_synonym pb_Bool = bool
type_synonym pb_KeysList = "string list"
type_synonym pb_ErrorHash = "string gomap"

record pb_Key =
  Key_Key :: string
  Key_Limit :: int64
  Key_Revision :: int64
  Key_MinModRevision :: int64
  Key_MaxModRevision :: int64
  Key_MinCreateRevision :: int64
  Key_MaxCreateRevision :: int64
  Key_Block :: bool
  Key_BlockTimeout :: int64

record pb_Expiration =
  Expiration_Key :: string
  Expiration_Exp :: int64

record pb_ByteValue =
  ByteValue_Key :: string
  ByteValue_Value :: bytes

record pb_IntValue =
  IntValue_Key :: string
  IntValue_Value :: int64

record pb_FloatValue =
  FloatValue_Key :: string
  FloatValue_Value :: float64

record pb_List =
  List_Key :: string
  List_Value :: "bytes list"
  List_Limit :: int64

record pb_ListItem =
  ListItem_Key :: string
  ListItem_Index :: int64
  ListItem_Value :: bytes

record pb_Hash =
  Hash_Key :: string
  Hash_Value :: "bytes gomap"

record pb_HashField =
  HashField_Key :: string
  HashField_Field :: string
  HashField_Value :: bytes

record pb_HashFieldSet =
  HashFieldSet_Key :: string
  HashFieldSet_Field :: "string list"
  HashFieldSet_Value :: "bytes list"

record pb_WatchRequest =
  WatchRequest_Key :: string
  WatchRequest_Prefix :: bool
  WatchRequest_Rev :: int64
  WatchRequest_Id :: int64
  WatchRequest_Cancel :: bool

datatype pb_EventType = Event_PUT | Event_DELETE

record pb_Event =
  Event_Type :: pb_EventType
  Event_Current :: pb_ByteValue
  Event_Previous :: pb_ByteValue

datatype pb_PermissionType = Permission_READ | Permission_WRITE | Permission_READWRITE

record pb_Permission =
  Permission_PermType :: pb_PermissionType
  Permission_Key :: bytes
  Permission_RangeEnd :: bytes

text \<open>Composite literals that name some fields and leave the others zero.\<close>

definition newKey :: "string \<Rightarrow> pb_Key" where
  "newKey k = \<lparr>Key_Key = k, Key_Limit = 0, Key_Revision = 0, Key_MinModRevision = 0,
     Key_MaxModRevision = 0, Key_MinCreateRevision = 0, Key_MaxCreateRevision = 0,
     Key_Block = False, Key_BlockTimeout = 0\<rparr>"

definition newByteValue :: "bytes \<Rightarrow> pb_ByteValue" where
  "newByteValue v = \<lparr>ByteValue_Key = [], ByteValue_Value = v\<rparr>"

definition newList :: "bytes list \<Rightarrow> pb_List" where
  "newList vs = \<lparr>List_Key = [], List_Value = vs, List_Limit = 0\<rparr>"

definition newHash :: "bytes gomap \<Rightarrow> pb_Hash" where
  "newHash m = \<lparr>Hash_Key = [], Hash_Value = m\<rparr>"

text \<open>\<open>Permission_Type_value\<close> and \<open>Permission_Type_name\<close>.\<close>

definition Permission_Type_value :: "string \<Rightarrow> pb_PermissionType option" where
  "Permission_Type_value = map_of
     [(''READ'', Permission_READ), (''WRITE'', Permission_WRITE), (''READWRITE'', Permission_READWRITE)]"

fun Permission_Type_name :: "pb_PermissionType \<Rightarrow> string" where
  "Permission_Type_name Permission_READ = ''READ''"
| "Permission_Type_name Permission_WRITE = ''WRITE''"
| "Permission_Type_name Permission_READWRITE = ''READWRITE''"

lemma newKey_simps [simp]:
  "Key_Key (newKey k) = k" "Key_Limit (newKey k) = 0" "Key_Revision (newKey k) = 0"
  "Key_Block (newKey k) = False" "Key_BlockTimeout (newKey k) = 0"
  by (simp_all add: newKey_def)

lemma newList_simps [simp]:
  "List_Key (newList vs) = []" "List_Value (newList vs) = vs" "List_Limit (newList vs) = 0"
  by (simp_all add: newList_def)

lemma newHash_simps [simp]: "Hash_Key (newHash m) = []" "Hash_Value (newHash m) = m"
  by (simp_all add: newHash_def)

lemma newByteValue_simps [simp]:
  "ByteValue_Key (newByteValue v) = []" "ByteValue_Value (newByteValue v) = v"
  by (simp_all add: newByteValue_def)

section \<open>Marshalling\<close>

text \<open>
  \<open>proto.Marshal\<close> and \<open>proto.Unmarshal\<close> belong to the protobuf runtime, which is not
  part of the repository: they are the parameter \<open>C\<close> of every operation that uses them.
  An error is its text.
\<close>

record codec =
  MarshalInt :: "pb_IntValue \<Rightarrow> string + bytes"
  UnmarshalInt :: "bytes \<Rightarrow> string + pb_IntValue"
  MarshalFloat :: "pb_FloatValue \<Rightarrow> string + bytes"
  UnmarshalFloat :: "bytes \<Rightarrow> string + pb_FloatValue"
  MarshalList :: "pb_List \<Rightarrow> string + bytes"
  UnmarshalList :: "bytes \<Rightarrow> string + pb_List"
  MarshalHash :: "pb_Hash \<Rightarrow> string + bytes"
  UnmarshalHash :: "bytes \<Rightarrow> string + pb_Hash"

text \<open>
  What the code relies on, as the protobuf documentation states it: a message survives
  encoding and decoding, and the empty encoding is the message with every field at its
  default.  A map field comes back with the same entries in some order, and as the nil map
  when it has none, since an empty map has no encoding.
\<close>

definition hash_decodes :: "pb_Hash \<Rightarrow> pb_Hash \<Rightarrow> bool" where
  "hash_decodes h h' \<longleftrightarrow> Hash_Key h' = Hash_Key h \<and> map_wf (Hash_Value h') \<and>
     map_get (Hash_Value h') = map_get (Hash_Value h) \<and>
     (Hash_Value h' = None \<longleftrightarrow> map_entries (Hash_Value h) = [])"

definition proto_ok :: "codec \<Rightarrow> bool" where
  "proto_ok C \<longleftrightarrow>
     (\<forall>iv. \<exists>b. MarshalInt C iv = Inr b \<and> UnmarshalInt C b = Inr iv) \<and>
     (\<forall>fv. \<exists>b. MarshalFloat C fv = Inr b \<and> UnmarshalFloat C b = Inr fv) \<and>
     (\<forall>l. \<exists>b. MarshalList C l = Inr b \<and> UnmarshalList C b = Inr l) \<and>
     (\<forall>h. map_wf (Hash_Value h) \<longrightarrow>
        (\<exists>b h'. MarshalHash C h = Inr b \<and> UnmarshalHash C b = Inr h' \<and> hash_decodes h h')) \<and>
     UnmarshalInt C [] = Inr \<lparr>IntValue_Key = [], IntValue_Value = 0\<rparr> \<and>
     UnmarshalList C [] = Inr (newList []) \<and>
     UnmarshalHash C [] = Inr (newHash None)"

end
