(* ===== verification/Etcd.thy ===== *)
theory Etcd
  imports Messages
begin

text \<open>
  The embedded etcd server (\<open>s.cache.Server\<close>), which is not part of the repository: its
  request and response types, the record of functions that every handler takes as its
  parameter \<open>E\<close>, the documented behaviour the handlers rely on (\<open>etcd_kv\<close>), the world
  of a handler (store, clock, scheduling points), and an in-memory store that has that
  behaviour, used only to show the hypotheses can hold.
\<close>

section \<open>Requests and responses\<close>

record RangeRequest =
  Range_Key :: bytes
  Range_RangeEnd :: bytes
  Range_Limit :: int64
  Range_Revision :: int64
  Range_KeysOnly :: bool

record KeyValue =
  KV_Key :: bytes
  KV_Value :: bytes

text \<open>\<open>Kvs\<close> is \<open>None\<close> when the slice is nil.\<close>

record RangeResponse =
  Range_Kvs :: "KeyValue list option"
  Range_Count :: int64

record PutRequest =
  Put_Key :: bytes
  Put_Value :: bytes
  Put_Lease :: int64

record DeleteRangeRequest =
  Delete_Key :: bytes
  Delete_RangeEnd :: bytes

datatype CompareTarget = Compare_VALUE
datatype CompareResult = Compare_EQUAL

record Compare =
  Compare_Key :: bytes
  Compare_Target :: CompareTarget
  Compare_Result :: CompareResult
  Compare_Value :: bytes

datatype RequestOp =
    RequestRange RangeRequest
  | RequestPut PutRequest
  | RequestDeleteRange DeleteRangeRequest

datatype ResponseOp = ResponseRange RangeResponse | ResponsePut | ResponseDeleteRange

record TxnRequest =
  Txn_Compare :: "Compare list"
  Txn_Success :: "RequestOp list"
  Txn_Failure :: "RequestOp list"

record TxnResponse =
  Txn_Succeeded :: bool
  Txn_Responses :: "ResponseOp list"

text \<open>
  The parameter: etcd's operations on its own state \<open>'s\<close> (an error is its text), and the
  scheduler.  Between any two calls of one handler other goroutines run: \<open>others n s\<close> is
  the store after what they did before the handler's \<open>n\<close>-th scheduling point, \<open>lag n\<close>
  the nanoseconds that passed there.
\<close>

record 's etcd =
  etcd_Range :: "'s \<Rightarrow> RangeRequest \<Rightarrow> (string + RangeResponse) \<times> 's"
  etcd_Txn :: "'s \<Rightarrow> TxnRequest \<Rightarrow> (string + TxnResponse) \<times> 's"
  etcd_Put :: "'s \<Rightarrow> PutRequest \<Rightarrow> (string + unit) \<times> 's"
  etcd_DeleteRange :: "'s \<Rightarrow> DeleteRangeRequest \<Rightarrow> (string + unit) \<times> 's"
  etcd_LeaseGrant :: "'s \<Rightarrow> int64 \<Rightarrow> (string + int64) \<times> 's"
  others :: "nat \<Rightarrow> 's \<Rightarrow> 's"
  lag :: "nat \<Rightarrow> nat"

text \<open>The world of one handler: the store, the clock in nanoseconds, the scheduling points passed.\<close>

record 's world =
  cache :: 's
  clock :: int
  ticks :: nat

type_synonym ('s, 'a) handler = "('s world, go_error, 'a) comp"

definition schedule :: "'s etcd \<Rightarrow> 's world \<Rightarrow> 's world" where
  "schedule E w = \<lparr>cache = others E (ticks w) (cache w),
     clock = clock w + int (lag E (ticks w)), ticks = Suc (ticks w)\<rparr>"

text \<open>A call of an etcd operation, after other goroutines had their turn.\<close>

definition call :: "'s etcd \<Rightarrow> ('s \<Rightarrow> (string + 'a) \<times> 's) \<Rightarrow> ('s, 'a) handler" where
  "call E op w = (let w1 = schedule E w; (r, s) = op (cache w1); w2 = w1\<lparr>cache := s\<rparr>
     in case r of Inl msg \<Rightarrow> (Err (Other msg), w2) | Inr x \<Rightarrow> (Ok x, w2))"

text \<open>\<open>time.Sleep(d)\<close>: at least \<open>d\<close> nanoseconds pass.\<close>

definition Sleep :: "'s etcd \<Rightarrow> int \<Rightarrow> 's world \<Rightarrow> 's world" where
  "Sleep E d w = (let w1 = schedule E w in w1\<lparr>clock := clock w1 + d\<rparr>)"

section \<open>Documented behaviour\<close>

text \<open>
  \<open>kv s\<close> is the key space of the store \<open>s\<close>.  A range is the key alone when the end is
  empty, every key from it on when the end is the zero byte, and the half-open interval in
  byte order otherwise.
\<close>

definition in_range :: "bytes \<Rightarrow> bytes \<Rightarrow> bytes \<Rightarrow> bool" where
  "in_range k e x \<longleftrightarrow> (if e = [] then x = k else if e = ZeroByte then k \<le> x else k \<le> x \<and> x < e)"

definition range_answer :: "(bytes \<rightharpoonup> bytes) \<Rightarrow> RangeRequest \<Rightarrow> RangeResponse \<Rightarrow> bool" where
  "range_answer m q r \<longleftrightarrow>
     (let kvs = case_option [] (\<lambda>x. x) (Range_Kvs r);
          hit = in_range (Range_Key q) (Range_RangeEnd q) in
      distinct (map KV_Key kvs) \<and>
      (\<forall>e\<in>set kvs. hit (KV_Key e) \<and>
         (\<exists>v. m (KV_Key e) = Some v \<and> KV_Value e = (if Range_KeysOnly q then [] else v))) \<and>
      (Range_Limit q = 0 \<or> Range_RangeEnd q = [] \<longrightarrow>
         (\<forall>k v. hit k \<and> m k = Some v \<longrightarrow> k \<in> KV_Key ` set kvs)) \<and>
      (Range_Kvs r = None \<longleftrightarrow> kvs = []) \<and>
      (0 < sint (Range_Count r) \<longleftrightarrow> (\<exists>k v. hit k \<and> m k = Some v)))"

definition delete_range :: "DeleteRangeRequest \<Rightarrow> (bytes \<rightharpoonup> bytes) \<Rightarrow> (bytes \<rightharpoonup> bytes)" where
  "delete_range d m = (\<lambda>x. if in_range (Delete_Key d) (Delete_RangeEnd d) x then None else m x)"

fun run_op :: "RequestOp \<Rightarrow> (bytes \<rightharpoonup> bytes) \<Rightarrow> (bytes \<rightharpoonup> bytes)" where
  "run_op (RequestRange q) m = m"
| "run_op (RequestPut p) m = m(Put_Key p \<mapsto> Put_Value p)"
| "run_op (RequestDeleteRange d) m = delete_range d m"

fun run_ops :: "RequestOp list \<Rightarrow> (bytes \<rightharpoonup> bytes) \<Rightarrow> (bytes \<rightharpoonup> bytes)" where
  "run_ops [] m = m"
| "run_ops (op # ops) m = run_ops ops (run_op op m)"

fun op_answer :: "(bytes \<rightharpoonup> bytes) \<Rightarrow> RequestOp \<Rightarrow> ResponseOp \<Rightarrow> bool" where
  "op_answer m (RequestRange q) r =
     (\<exists>a. r = ResponseRange a \<and> (Range_Revision q = 0 \<longrightarrow> range_answer m q a))"
| "op_answer m (RequestPut p) r = (r = ResponsePut)"
| "op_answer m (RequestDeleteRange d) r = (r = ResponseDeleteRange)"

fun ops_answer :: "(bytes \<rightharpoonup> bytes) \<Rightarrow> RequestOp list \<Rightarrow> ResponseOp list \<Rightarrow> bool" where
  "ops_answer m [] rs = (rs = [])"
| "ops_answer m (op # ops) rs =
     (\<exists>r rs'. rs = r # rs' \<and> op_answer m op r \<and> ops_answer (run_op op m) ops rs')"

text \<open>
  A transaction compares, then runs one of its two operation lists atomically; comparing
  the value of a key that does not exist fails.
\<close>

definition compares :: "(bytes \<rightharpoonup> bytes) \<Rightarrow> TxnRequest \<Rightarrow> bool" where
  "compares m t \<longleftrightarrow> (\<forall>c\<in>set (Txn_Compare t). m (Compare_Key c) = Some (Compare_Value c))"

definition txn_branch :: "(bytes \<rightharpoonup> bytes) \<Rightarrow> TxnRequest \<Rightarrow> RequestOp list" where
  "txn_branch m t = (if compares m t then Txn_Success t else Txn_Failure t)"

text \<open>
  An operation that answers has taken effect; one that fails may or may not have (a request
  can time out after it was proposed).
\<close>

definition range_law :: "'s etcd \<Rightarrow> ('s \<Rightarrow> (bytes \<rightharpoonup> bytes)) \<Rightarrow> bool" where
  "range_law E kv \<longleftrightarrow> (\<forall>s q. kv (snd (etcd_Range E s q)) = kv s \<and>
     (\<forall>r. fst (etcd_Range E s q) = Inr r \<longrightarrow> Range_Revision q = 0 \<longrightarrow> range_answer (kv s) q r))"

definition txn_law :: "'s etcd \<Rightarrow> ('s \<Rightarrow> (bytes \<rightharpoonup> bytes)) \<Rightarrow> bool" where
  "txn_law E kv \<longleftrightarrow> (\<forall>s t.
     kv (snd (etcd_Txn E s t)) \<in> {kv s, run_ops (txn_branch (kv s) t) (kv s)} \<and>
     (\<forall>r. fst (etcd_Txn E s t) = Inr r \<longrightarrow>
        (Txn_Succeeded r \<longleftrightarrow> compares (kv s) t) \<and>
        kv (snd (etcd_Txn E s t)) = run_ops (txn_branch (kv s) t) (kv s) \<and>
        ops_answer (kv s) (txn_branch (kv s) t) (Txn_Responses r)))"

definition put_law :: "'s etcd \<Rightarrow> ('s \<Rightarrow> (bytes \<rightharpoonup> bytes)) \<Rightarrow> bool" where
  "put_law E kv \<longleftrightarrow> (\<forall>s p.
     kv (snd (etcd_Put E s p)) \<in> {kv s, run_op (RequestPut p) (kv s)} \<and>
     (\<forall>r. fst (etcd_Put E s p) = Inr r \<longrightarrow> kv (snd (etcd_Put E s p)) = run_op (RequestPut p) (kv s)))"

definition delete_law :: "'s etcd \<Rightarrow> ('s \<Rightarrow> (bytes \<rightharpoonup> bytes)) \<Rightarrow> bool" where
  "delete_law E kv \<longleftrightarrow> (\<forall>s d.
     kv (snd (etcd_DeleteRange E s d)) \<in> {kv s, delete_range d (kv s)} \<and>
     (\<forall>r. fst (etcd_DeleteRange E s d) = Inr r \<longrightarrow>
        kv (snd (etcd_DeleteRange E s d)) = delete_range d (kv s)))"

definition lease_law :: "'s etcd \<Rightarrow> ('s \<Rightarrow> (bytes \<rightharpoonup> bytes)) \<Rightarrow> bool" where
  "lease_law E kv \<longleftrightarrow> (\<forall>s ttl. kv (snd (etcd_LeaseGrant E s ttl)) = kv s)"

definition etcd_kv :: "'s etcd \<Rightarrow> ('s \<Rightarrow> (bytes \<rightharpoonup> bytes)) \<Rightarrow> bool" where
  "etcd_kv E kv \<longleftrightarrow> range_law E kv \<and> txn_law E kv \<and> put_law E kv \<and> delete_law E kv \<and> lease_law E kv"

text \<open>The cluster is available: no operation fails.\<close>

definition etcd_up :: "'s etcd \<Rightarrow> bool" where
  "etcd_up E \<longleftrightarrow> (\<forall>s q. \<exists>r. fst (etcd_Range E s q) = Inr r) \<and>
     (\<forall>s t. \<exists>r. fst (etcd_Txn E s t) = Inr r) \<and> (\<forall>s p. \<exists>r. fst (etcd_Put E s p) = Inr r) \<and>
     (\<forall>s d. \<exists>r. fst (etcd_DeleteRange E s d) = Inr r) \<and>
     (\<forall>s l. \<exists>r. fst (etcd_LeaseGrant E s l) = Inr r)"

text \<open>Other goroutines leave the keys \<open>K\<close> alone while the handler runs.\<close>

definition undisturbed :: "'s etcd \<Rightarrow> ('s \<Rightarrow> (bytes \<rightharpoonup> bytes)) \<Rightarrow> bytes set \<Rightarrow> bool" where
  "undisturbed E kv K \<longleftrightarrow> (\<forall>n s k. k \<in> K \<longrightarrow> kv (others E n s) k = kv s k)"

text \<open>
  \<open>stores E kv K m\<close>: the handler runs on an available etcd, others leave the keys in
  \<open>K\<close> alone, and on those keys the store is \<open>m\<close>.  With \<open>K = UNIV\<close> this is a handler
  running alone.
\<close>

definition stores :: "'s etcd \<Rightarrow> ('s \<Rightarrow> (bytes \<rightharpoonup> bytes)) \<Rightarrow> bytes set \<Rightarrow> (bytes \<rightharpoonup> bytes) \<Rightarrow> 's world \<Rightarrow> bool" where
  "stores E kv K m w \<longleftrightarrow> etcd_kv E kv \<and> etcd_up E \<and> undisturbed E kv K \<and>
     (\<forall>k\<in>K. kv (cache w) k = m k)"

end
