(* ===== verification/Etcd_Rules.thy ===== *)
theory Etcd_Rules
  imports Etcd
begin

text \<open>
  How the predicate \<open>stores\<close> passes through etcd calls and sleeps, and which state
  invariants they keep.
\<close>

section \<open>Key spaces that agree on some keys\<close>

lemma run_op_local: "m1 k = m2 k \<Longrightarrow> run_op op m1 k = run_op op m2 k"
  by (cases op) (simp_all add: delete_range_def)

lemma run_ops_local: "m1 k = m2 k \<Longrightarrow> run_ops ops m1 k = run_ops ops m2 k"
proof (induction ops arbitrary: m1 m2)
  case (Cons op ops)
  from Cons.prems have "run_op op m1 k = run_op op m2 k" by (rule run_op_local)
  then show ?case unfolding run_ops.simps by (rule Cons.IH)
qed simp

lemma in_range_single [simp]: "in_range k [] x \<longleftrightarrow> x = k"
  by (simp add: in_range_def)

lemma delete_range_single [simp]: "delete_range \<lparr>Delete_Key = k, Delete_RangeEnd = []\<rparr> m = m(k := None)"
  by (auto simp: delete_range_def)

text \<open>The answer to a single-key range is determined by what the key holds.\<close>

lemma range_answer_single:
  assumes "range_answer m q r" and "Range_RangeEnd q = []"
  shows "(case m (Range_Key q) of
      None \<Rightarrow> Range_Kvs r = None \<and> \<not> 0 < sint (Range_Count r)
    | Some v \<Rightarrow> Range_Kvs r = Some [\<lparr>KV_Key = Range_Key q,
          KV_Value = (if Range_KeysOnly q then [] else v)\<rparr>] \<and> 0 < sint (Range_Count r))"
proof (cases "m (Range_Key q)")
  case None
  obtain kvs where kvs: "kvs = case_option [] (\<lambda>x. x) (Range_Kvs r)" by simp
  from assms None kvs have none: "\<forall>e\<in>set kvs. False"
    unfolding range_answer_def Let_def by auto
  then have "kvs = []" by (cases kvs) auto
  with assms kvs have "Range_Kvs r = None" unfolding range_answer_def Let_def by simp
  moreover have "\<not> 0 < sint (Range_Count r)"
    using assms None unfolding range_answer_def Let_def by simp
  ultimately show ?thesis using None by simp
next
  case (Some v)
  let ?kvs = "case_option [] (\<lambda>x. x) (Range_Kvs r)"
  let ?val = "if Range_KeysOnly q then [] else v"
  have d: "distinct (map KV_Key ?kvs)"
    and sound: "\<forall>e\<in>set ?kvs. in_range (Range_Key q) [] (KV_Key e) \<and>
         (\<exists>v. m (KV_Key e) = Some v \<and> KV_Value e = (if Range_KeysOnly q then [] else v))"
    and complete: "\<forall>k v. in_range (Range_Key q) [] k \<and> m k = Some v \<longrightarrow> k \<in> KV_Key ` set ?kvs"
    and nil: "(Range_Kvs r = None) = (?kvs = [])"
    and cnt: "(0 < sint (Range_Count r)) = (\<exists>k v. in_range (Range_Key q) [] k \<and> m k = Some v)"
    using assms(1) unfolding range_answer_def Let_def assms(2) by blast+
  have all: "\<forall>e\<in>set ?kvs. KV_Key e = Range_Key q \<and> KV_Value e = ?val"
    using sound Some by fastforce
  have mem: "Range_Key q \<in> KV_Key ` set ?kvs" using complete Some by simp
  then have "?kvs \<noteq> []" by (metis empty_iff image_empty list.set(1))
  then obtain kvs where kvs: "Range_Kvs r = Some kvs" and ne: "kvs \<noteq> []"
    by (cases "Range_Kvs r") simp_all
  have d: "distinct (map KV_Key kvs)" using d kvs by simp
  have all: "\<forall>e\<in>set kvs. KV_Key e = Range_Key q \<and> KV_Value e = ?val" using all kvs by simp
  have cnt: "0 < sint (Range_Count r)" using cnt Some by simp
  have "kvs = [hd kvs]"
  proof (cases kvs)
    case (Cons e es)
    have "es = []"
    proof (rule ccontr)
      assume "es \<noteq> []"
      then obtain e' es' where es: "es = e' # es'" by (cases es) auto
      have "KV_Key e = Range_Key q" "KV_Key e' = Range_Key q"
        using all unfolding Cons es by (simp_all only: list.set insert_iff ball_simps)
      then show False using d unfolding Cons es by simp
    qed
    with Cons show ?thesis by simp
  qed (use ne in simp)
  moreover have "hd kvs = \<lparr>KV_Key = Range_Key q, KV_Value = ?val\<rparr>"
    using all hd_in_set [OF ne] by (cases "hd kvs") auto
  ultimately show ?thesis using kvs cnt Some by simp
qed

lemma range_answer_local:
  assumes "range_answer m1 q r" and "\<And>x. in_range (Range_Key q) (Range_RangeEnd q) x \<Longrightarrow> m1 x = m2 x"
  shows "range_answer m2 q r"
proof -
  let ?hit = "in_range (Range_Key q) (Range_RangeEnd q)"
  have eq: "(?hit x \<and> m1 x = Some v) = (?hit x \<and> m2 x = Some v)" for x v
    using assms(2) [of x] by auto
  have eq': "(?hit x \<and> (\<exists>v. m1 x = Some v \<and> P v)) = (?hit x \<and> (\<exists>v. m2 x = Some v \<and> P v))" for x P
    using assms(2) [of x] by metis
  from assms(1) show ?thesis
    unfolding range_answer_def Let_def eq eq' .
qed

section \<open>Scheduling\<close>

lemma schedule_simps [simp]:
  "cache (schedule E w) = others E (ticks w) (cache w)"
  "clock (schedule E w) = clock w + int (lag E (ticks w))"
  "ticks (schedule E w) = Suc (ticks w)"
  by (simp_all add: schedule_def)

lemma Sleep_simps [simp]:
  "cache (Sleep E d w) = others E (ticks w) (cache w)"
  "clock (Sleep E d w) = clock w + int (lag E (ticks w)) + d"
  "ticks (Sleep E d w) = Suc (ticks w)"
  by (simp_all add: Sleep_def Let_def)

lemma stores_schedule: "stores E kv K m w \<Longrightarrow> stores E kv K m (schedule E w)"
  by (simp add: stores_def undisturbed_def)

lemma stores_Sleep: "stores E kv K m w \<Longrightarrow> stores E kv K m (Sleep E d w)"
  by (simp add: stores_def undisturbed_def)

lemma stores_cong: "(\<And>k. k \<in> K \<Longrightarrow> m k = m' k) \<Longrightarrow> stores E kv K m w = stores E kv K m' w"
  by (auto simp: stores_def)

lemma stores_at: "stores E kv K m w \<Longrightarrow> k \<in> K \<Longrightarrow> kv (cache w) k = m k"
  by (simp add: stores_def)

lemma stores_law:
  assumes "stores E kv K m w"
  shows "range_law E kv" "txn_law E kv" "put_law E kv" "delete_law E kv" "lease_law E kv" "etcd_up E"
  using assms by (simp_all add: stores_def etcd_kv_def)

lemma etcd_rangeD:
  assumes "etcd_kv E kv"
  shows "kv (snd (etcd_Range E s q)) = kv s"
    and "fst (etcd_Range E s q) = Inr r \<Longrightarrow> Range_Revision q = 0 \<Longrightarrow> range_answer (kv s) q r"
  using assms unfolding etcd_kv_def range_law_def by blast+

lemma etcd_txnD:
  assumes "etcd_kv E kv"
  shows "kv (snd (etcd_Txn E s t)) = kv s \<or> kv (snd (etcd_Txn E s t)) = run_ops (txn_branch (kv s) t) (kv s)"
    and "fst (etcd_Txn E s t) = Inr r \<Longrightarrow> Txn_Succeeded r \<longleftrightarrow> compares (kv s) t"
    and "fst (etcd_Txn E s t) = Inr r \<Longrightarrow> kv (snd (etcd_Txn E s t)) = run_ops (txn_branch (kv s) t) (kv s)"
    and "fst (etcd_Txn E s t) = Inr r \<Longrightarrow> ops_answer (kv s) (txn_branch (kv s) t) (Txn_Responses r)"
  using assms unfolding etcd_kv_def txn_law_def by blast+

lemma etcd_putD:
  assumes "etcd_kv E kv"
  shows "kv (snd (etcd_Put E s p)) = kv s \<or> kv (snd (etcd_Put E s p)) = (kv s)(Put_Key p \<mapsto> Put_Value p)"
    and "fst (etcd_Put E s p) = Inr r \<Longrightarrow> kv (snd (etcd_Put E s p)) = (kv s)(Put_Key p \<mapsto> Put_Value p)"
  using assms unfolding etcd_kv_def put_law_def by auto

lemma etcd_deleteD:
  assumes "etcd_kv E kv"
  shows "kv (snd (etcd_DeleteRange E s d)) = kv s \<or> kv (snd (etcd_DeleteRange E s d)) = delete_range d (kv s)"
    and "fst (etcd_DeleteRange E s d) = Inr r \<Longrightarrow> kv (snd (etcd_DeleteRange E s d)) = delete_range d (kv s)"
  using assms unfolding etcd_kv_def delete_law_def by auto

lemma etcd_leaseD: "etcd_kv E kv \<Longrightarrow> kv (snd (etcd_LeaseGrant E s ttl)) = kv s"
  unfolding etcd_kv_def lease_law_def by blast

lemma call_simps:
  "op (others E (ticks w) (cache w)) = (Inr x, s) \<Longrightarrow>
     call E op w = (Ok x, \<lparr>cache = s, clock = clock w + int (lag E (ticks w)), ticks = Suc (ticks w)\<rparr>)"
  "op (others E (ticks w) (cache w)) = (Inl msg, s) \<Longrightarrow>
     call E op w = (Err (Other msg), \<lparr>cache = s, clock = clock w + int (lag E (ticks w)), ticks = Suc (ticks w)\<rparr>)"
  by (simp_all add: call_def Let_def schedule_def)

text \<open>
  The general rule for a call that answers: from the law of the operation on the key
  spaces \<open>kv s\<close> to what \<open>stores\<close> says on \<open>K\<close>.
\<close>

lemma call_triple:
  assumes up: "\<And>s. etcd_up E \<Longrightarrow> \<exists>x. fst (op s) = Inr x"
    and step: "\<And>s x. etcd_kv E kv \<Longrightarrow> \<forall>k\<in>K. kv s k = m k \<Longrightarrow> fst (op s) = Inr x \<Longrightarrow>
       R x \<and> (\<forall>k\<in>K. kv (snd (op s)) k = m' k)"
  shows "triple (stores E kv K m) (call E op) (\<lambda>r w. \<exists>x. r = Ok x \<and> R x \<and> stores E kv K m' w)"
proof (rule tripleI)
  fix w assume w: "stores E kv K m w"
  let ?s = "others E (ticks w) (cache w)"
  obtain x where x: "fst (op ?s) = Inr x" using up w by (auto simp: stores_def)
  then have op: "op ?s = (Inr x, snd (op ?s))" by (cases "op ?s") simp
  have "\<forall>k\<in>K. kv ?s k = m k" using w by (simp add: stores_def undisturbed_def)
  with step x w have "R x" "\<forall>k\<in>K. kv (snd (op ?s)) k = m' k" by (auto simp: stores_def)
  with w op show "\<exists>x. fst (call E op w) = Ok x \<and> R x \<and> stores E kv K m' (snd (call E op w))"
    by (simp add: call_simps(1) [of op, OF op] stores_def)
qed

section \<open>The operations\<close>

lemma range_single_triple:
  assumes "Range_RangeEnd q = []" and "Range_Key q \<in> K" and "Range_Revision q = 0"
  shows "triple (stores E kv K m) (call E (\<lambda>s. etcd_Range E s q))
    (\<lambda>r w. \<exists>x. r = Ok x \<and> range_answer m q x \<and> stores E kv K m w)"
proof (rule call_triple)
  show "\<exists>x. fst (etcd_Range E s q) = Inr x" if "etcd_up E" for s
    using that by (simp add: etcd_up_def)
  fix s x
  assume "etcd_kv E kv" and "\<forall>k\<in>K. kv s k = m k" and "fst (etcd_Range E s q) = Inr x"
  then show "range_answer m q x \<and> (\<forall>k\<in>K. kv (snd (etcd_Range E s q)) k = m k)"
    using assms etcd_rangeD(1) [of E kv s q] etcd_rangeD(2) [of E kv s q x] range_answer_local [of "kv s" q x m] by simp
qed

lemma range_all_triple:
  assumes "Range_Revision q = 0"
  shows "triple (stores E kv UNIV m) (call E (\<lambda>s. etcd_Range E s q))
    (\<lambda>r w. \<exists>x. r = Ok x \<and> range_answer m q x \<and> stores E kv UNIV m w)"
proof (rule call_triple)
  show "\<exists>x. fst (etcd_Range E s q) = Inr x" if "etcd_up E" for s
    using that by (simp add: etcd_up_def)
  fix s x
  assume "etcd_kv E kv" and "\<forall>k\<in>UNIV. kv s k = m k" and "fst (etcd_Range E s q) = Inr x"
  moreover from this have "kv s = m" by auto
  ultimately show "range_answer m q x \<and> (\<forall>k\<in>UNIV. kv (snd (etcd_Range E s q)) k = m k)"
    using assms etcd_rangeD(1) [of E kv s q] etcd_rangeD(2) [of E kv s q x] by simp
qed

lemma txn_triple:
  assumes "\<And>c. c \<in> set (Txn_Compare t) \<Longrightarrow> Compare_Key c \<in> K"
  shows "triple (stores E kv K m) (call E (\<lambda>s. etcd_Txn E s t))
    (\<lambda>r w. \<exists>x. r = Ok x \<and> (Txn_Succeeded x \<longleftrightarrow> compares m t) \<and>
       (\<exists>m0. (\<forall>k\<in>K. m0 k = m k) \<and> ops_answer m0 (txn_branch m t) (Txn_Responses x)) \<and>
       stores E kv K (run_ops (txn_branch m t) m) w)"
proof -
  have "triple (stores E kv K m) (call E (\<lambda>s. etcd_Txn E s t))
    (\<lambda>r w. \<exists>x. r = Ok x \<and> ((Txn_Succeeded x \<longleftrightarrow> compares m t) \<and>
       (\<exists>m0. (\<forall>k\<in>K. m0 k = m k) \<and> ops_answer m0 (txn_branch m t) (Txn_Responses x))) \<and>
       stores E kv K (run_ops (txn_branch m t) m) w)"
  proof (rule call_triple)
    show "\<exists>x. fst (etcd_Txn E s t) = Inr x" if "etcd_up E" for s
      using that by (simp add: etcd_up_def)
    fix s x
    assume law: "etcd_kv E kv" and on: "\<forall>k\<in>K. kv s k = m k" and ok: "fst (etcd_Txn E s t) = Inr x"
    have cmp: "compares (kv s) t = compares m t"
      using assms on by (auto simp: compares_def)
    then have br: "txn_branch (kv s) t = txn_branch m t" by (simp add: txn_branch_def)
    show "((Txn_Succeeded x \<longleftrightarrow> compares m t) \<and>
        (\<exists>m0. (\<forall>k\<in>K. m0 k = m k) \<and> ops_answer m0 (txn_branch m t) (Txn_Responses x))) \<and>
       (\<forall>k\<in>K. kv (snd (etcd_Txn E s t)) k = run_ops (txn_branch m t) m k)"
      using etcd_txnD(2-4) [OF law ok] on
      unfolding cmp br by (metis run_ops_local)
  qed
  then show ?thesis by (rule triple_weaken) auto
qed

lemma put_runs:
  "runs (stores E kv K m) (call E (\<lambda>s. etcd_Put E s p)) (Ok ()) (stores E kv K (m(Put_Key p \<mapsto> Put_Value p)))"
  unfolding runs_def
proof (rule triple_weaken [OF call_triple [where R = "\<lambda>_. True" and m' = "m(Put_Key p \<mapsto> Put_Value p)"]])
  show "\<exists>x. fst (etcd_Put E s p) = Inr x" if "etcd_up E" for s
    using that by (simp add: etcd_up_def)
  show "True \<and> (\<forall>k\<in>K. kv (snd (etcd_Put E s p)) k = (m(Put_Key p \<mapsto> Put_Value p)) k)"
    if "etcd_kv E kv" "\<forall>k\<in>K. kv s k = m k" "fst (etcd_Put E s p) = Inr x" for s x
    using that etcd_putD(2) [of E kv s p x] by simp
qed auto

lemma delete_range_runs:
  "runs (stores E kv K m) (call E (\<lambda>s. etcd_DeleteRange E s d)) (Ok ()) (stores E kv K (delete_range d m))"
  unfolding runs_def
proof (rule triple_weaken [OF call_triple [where R = "\<lambda>_. True" and m' = "delete_range d m"]])
  show "\<exists>x. fst (etcd_DeleteRange E s d) = Inr x" if "etcd_up E" for s
    using that by (simp add: etcd_up_def)
  show "True \<and> (\<forall>k\<in>K. kv (snd (etcd_DeleteRange E s d)) k = delete_range d m k)"
    if "etcd_kv E kv" "\<forall>k\<in>K. kv s k = m k" "fst (etcd_DeleteRange E s d) = Inr x" for s x
    using that etcd_deleteD(2) [of E kv s d x] by (simp add: delete_range_def)
qed auto

lemma lease_triple:
  "triple (stores E kv K m) (call E (\<lambda>s. etcd_LeaseGrant E s ttl))
     (\<lambda>r w. \<exists>x. r = Ok x \<and> stores E kv K m w)"
proof (rule triple_weaken [OF call_triple [where R = "\<lambda>_. True" and m' = m]])
  show "\<exists>x. fst (etcd_LeaseGrant E s ttl) = Inr x" if "etcd_up E" for s
    using that by (simp add: etcd_up_def)
  show "True \<and> (\<forall>k\<in>K. kv (snd (etcd_LeaseGrant E s ttl)) k = m k)"
    if "etcd_kv E kv" "\<forall>k\<in>K. kv s k = m k" "fst (etcd_LeaseGrant E s ttl) = Inr x" for s x
    using that by (simp add: etcd_leaseD)
qed auto

section \<open>Invariants of the store\<close>

text \<open>
  \<open>always E kv J\<close>: etcd behaves as documented (failures included), other goroutines keep
  the invariant \<open>J\<close> of the key space, and it holds now.
\<close>

definition always :: "'s etcd \<Rightarrow> ('s \<Rightarrow> (bytes \<rightharpoonup> bytes)) \<Rightarrow> ((bytes \<rightharpoonup> bytes) \<Rightarrow> bool) \<Rightarrow> 's world \<Rightarrow> bool" where
  "always E kv J w \<longleftrightarrow> etcd_kv E kv \<and> (\<forall>n s. J (kv s) \<longrightarrow> J (kv (others E n s))) \<and> J (kv (cache w))"

lemma always_schedule: "always E kv J w \<Longrightarrow> always E kv J (schedule E w)"
  by (simp add: always_def)

lemma always_Sleep: "always E kv J w \<Longrightarrow> always E kv J (Sleep E d w)"
  by (simp add: always_def)

lemma keeps_call:
  assumes "\<And>s. etcd_kv E kv \<Longrightarrow> J (kv s) \<Longrightarrow> J (kv (snd (op s)))"
  shows "keeps (always E kv J) (call E op)"
proof (rule keepsI)
  fix w assume w: "always E kv J w"
  obtain r s where op: "op (others E (ticks w) (cache w)) = (r, s)" by fastforce
  have "J (kv (snd (op (others E (ticks w) (cache w)))))"
    by (rule assms) (use w in \<open>auto simp: always_def\<close>)
  with op w show "always E kv J (snd (call E op w))"
    by (cases r) (auto simp: call_simps always_def)
qed

lemma keeps_range [keep_rules]: "keeps (always E kv J) (call E (\<lambda>s. etcd_Range E s q))"
  by (rule keeps_call) (simp add: etcd_rangeD)

lemma keeps_lease [keep_rules]: "keeps (always E kv J) (call E (\<lambda>s. etcd_LeaseGrant E s q))"
  by (rule keeps_call) (simp add: etcd_leaseD)

lemma keeps_put:
  assumes "\<And>m. J m \<Longrightarrow> J (m(Put_Key p \<mapsto> Put_Value p))"
  shows "keeps (always E kv J) (call E (\<lambda>s. etcd_Put E s p))"
  by (rule keeps_call) (metis assms etcd_putD(1))

lemma keeps_delete_range:
  assumes "\<And>m. J m \<Longrightarrow> J (delete_range d m)"
  shows "keeps (always E kv J) (call E (\<lambda>s. etcd_DeleteRange E s d))"
  by (rule keeps_call) (metis assms etcd_deleteD(1))

lemma keeps_txn:
  assumes "\<And>m. J m \<Longrightarrow> J (run_ops (txn_branch m t) m)"
  shows "keeps (always E kv J) (call E (\<lambda>s. etcd_Txn E s t))"
  by (rule keeps_call) (metis assms etcd_txnD(1))

end
