(* ===== verification/Naming.thy ===== *)
theory Naming
  imports Etcd_Rules "HOL-Library.Sublist"
begin

text \<open>
  The helpers of \<open>mydis/util.go\<close>: the name of a
  key's lock, the end of a prefix range, permissions, the range request of a key, and the
  limit of a list.  No other file of the server builds keys or ranges.
\<close>

section \<open>Strings of the standard library\<close>

definition HasSuffix :: "string \<Rightarrow> string \<Rightarrow> bool" where
  "HasSuffix s t \<longleftrightarrow> length t \<le> length s \<and> drop (length s - length t) s = t"

definition TrimSuffix :: "string \<Rightarrow> string \<Rightarrow> string" where
  "TrimSuffix s t = (if HasSuffix s t then take (length s - length t) s else s)"

definition HasPrefix :: "string \<Rightarrow> string \<Rightarrow> bool" where
  "HasPrefix s t \<longleftrightarrow> take (length t) s = t"

definition is_space :: "char \<Rightarrow> bool" where
  "is_space c \<longleftrightarrow> c \<in> {CHR '' '', CHR 0x09, CHR 0x0A, CHR 0x0B, CHR 0x0C, CHR 0x0D}"

text \<open>
  \<open>strings.TrimSpace\<close>.  Strings are UTF-8: besides the white space of ASCII it removes the
  encodings of U+0085 and U+00A0 (two bytes) and of U+1680, U+2000 to U+200A, U+2028, U+2029,
  U+202F, U+205F and U+3000 (three bytes), from either end.
\<close>

definition space2 :: "char \<Rightarrow> char \<Rightarrow> bool" where
  "space2 x y \<longleftrightarrow> x = CHR 0xC2 \<and> y \<in> {CHR 0x85, CHR 0xA0}"

definition space3 :: "char \<Rightarrow> char \<Rightarrow> char \<Rightarrow> bool" where
  "space3 x y z \<longleftrightarrow>
     x = CHR 0xE1 \<and> y = CHR 0x9A \<and> z = CHR 0x80 \<or>
     x = CHR 0xE2 \<and> y = CHR 0x80 \<and> (CHR 0x80 \<le> z \<and> z \<le> CHR 0x8A \<or> z \<in> {CHR 0xA8, CHR 0xA9, CHR 0xAF}) \<or>
     x = CHR 0xE2 \<and> y = CHR 0x81 \<and> z = CHR 0x9F \<or>
     x = CHR 0xE3 \<and> y = CHR 0x80 \<and> z = CHR 0x80"

fun trim :: "(char \<Rightarrow> char \<Rightarrow> bool) \<Rightarrow> (char \<Rightarrow> char \<Rightarrow> char \<Rightarrow> bool) \<Rightarrow> string \<Rightarrow> string" where
  "trim sp2 sp3 [] = []"
| "trim sp2 sp3 [x] = (if is_space x then [] else [x])"
| "trim sp2 sp3 [x, y] = (if is_space x then trim sp2 sp3 [y] else if sp2 x y then [] else [x, y])"
| "trim sp2 sp3 (x # y # z # s) = (if is_space x then trim sp2 sp3 (y # z # s)
     else if sp2 x y then trim sp2 sp3 (z # s)
     else if sp3 x y z then trim sp2 sp3 s else x # y # z # s)"

definition TrimSpace :: "string \<Rightarrow> string" where
  "TrimSpace s = rev (trim (\<lambda>y x. space2 x y) (\<lambda>z y x. space3 x y z) (rev (trim space2 space3 s)))"

text \<open>
  \<open>strings.ToUpper\<close>.  On ASCII text it is exact; of the letters outside ASCII only the two
  with a capital in ASCII are mapped (U+0131 to I and U+017F to S), and the bytes of the
  others are kept: the result is the same ASCII text as Go's, or neither is ASCII.
\<close>

definition upper_char :: "char \<Rightarrow> char" where
  "upper_char c = (if CHR ''a'' \<le> c \<and> c \<le> CHR ''z'' then char_of (of_char c - 32 :: nat) else c)"

fun ToUpper :: "string \<Rightarrow> string" where
  "ToUpper [] = []"
| "ToUpper [x] = [upper_char x]"
| "ToUpper (x # y # s) =
     (if x = CHR 0xC4 \<and> y = CHR 0xB1 then CHR ''I'' # ToUpper s
      else if x = CHR 0xC5 \<and> y = CHR 0xBF then CHR ''S'' # ToUpper s
      else upper_char x # ToUpper (y # s))"

definition ascii :: "string \<Rightarrow> bool" where
  "ascii s \<longleftrightarrow> (\<forall>x\<in>set s. x < CHR 0x80)"

lemma ToUpper_ascii: "ascii s \<Longrightarrow> ToUpper s = map upper_char s"
  by (induction s rule: ToUpper.induct) (auto simp: ascii_def)

lemma length_trim: "length (trim sp2 sp3 s) \<le> length s"
  by (induction sp2 sp3 s rule: trim.induct) auto

lemma trim_fixed: "TrimSpace s = s \<Longrightarrow> trim space2 space3 s = s \<and> trim (\<lambda>y x. space2 x y) (\<lambda>z y x. space3 x y z) (rev s) = rev s"
proof -
  let ?r = "trim (\<lambda>y x. space2 x y) (\<lambda>z y x. space3 x y z)" and ?l = "trim space2 space3"
  have id: "trim sp2 sp3 s = s" if "length s \<le> length (trim sp2 sp3 s)" for sp2 sp3 and s :: string
    using that
  proof (induction sp2 sp3 s rule: trim.induct)
    case (4 sp2 sp3 x y z s)
    then show ?case
      using length_trim [of sp2 sp3 "y # z # s"] length_trim [of sp2 sp3 "z # s"] length_trim [of sp2 sp3 s]
      by (auto split: if_splits)
  next
    case (3 sp2 sp3 x y)
    then show ?case using length_trim [of sp2 sp3 "[y]"] by (auto split: if_splits)
  qed (auto split: if_splits)
  assume "TrimSpace s = s"
  then have r: "?r (rev (?l s)) = rev s" by (metis TrimSpace_def rev_rev_ident)
  then have len: "length s \<le> length (?l s)" using length_trim [of "\<lambda>y x. space2 x y" "\<lambda>z y x. space3 x y z" "rev (?l s)"] by simp
  from id [OF len] r show ?thesis by simp
qed

lemma HasSuffix_iff: "HasSuffix s t \<longleftrightarrow> suffix t s"
proof
  assume "HasSuffix s t"
  then have "s = take (length s - length t) s @ t"
    by (metis HasSuffix_def append_take_drop_id)
  then show "suffix t s" by (metis suffixI)
next
  assume "suffix t s"
  then obtain u where "s = u @ t" by (auto simp: suffix_def)
  then show "HasSuffix s t" by (simp add: HasSuffix_def)
qed

lemma TrimSuffix_append [simp]: "TrimSuffix (s @ t) t = s"
  by (simp add: TrimSuffix_def HasSuffix_def)

lemma HasPrefix_iff: "HasPrefix s t \<longleftrightarrow> prefix t s"
  unfolding HasPrefix_def by (metis append_eq_conv_conj append_take_drop_id prefix_def)

section \<open>Lock names\<close>

definition getLockName :: "string \<Rightarrow> bytes" where
  "getLockName key = StringToBytes (key @ suffixForLocks)"

lemma getLockName_inject [simp]: "getLockName k = getLockName k' \<longleftrightarrow> k = k'"
  by (simp add: getLockName_def)

lemma length_suffixForLocks [simp]: "length suffixForLocks = 12"
  by (simp add: suffixForLocks_def)

lemma getLockName_length: "length (getLockName k) = length k + 12"
  by (simp add: getLockName_def)

lemma getLockName_neq_ZeroByte [simp]: "getLockName k \<noteq> ZeroByte" "ZeroByte \<noteq> getLockName k"
proof -
  have "length (getLockName k) \<noteq> length ZeroByte"
    by (simp add: getLockName_length ZeroByte_def)
  then show "getLockName k \<noteq> ZeroByte" and "ZeroByte \<noteq> getLockName k" by metis+
qed

lemma getLockName_neq_self [simp]:
  "getLockName k \<noteq> StringToBytes k" "StringToBytes k \<noteq> getLockName k"
  using getLockName_length [of k] by (metis length_StringToBytes le_add1 add.right_neutral
      add_left_cancel zero_neq_numeral)+

lemma getLockName_of_lock_neq [simp]:
  "getLockName (BytesToString (getLockName k)) \<noteq> getLockName k"
  "getLockName (BytesToString (getLockName k)) \<noteq> StringToBytes k"
proof -
  have "length (BytesToString (getLockName k)) = length k + 12"
    using getLockName_length [of k] by (simp add: BytesToString_def)
  then have "length (getLockName (BytesToString (getLockName k))) = length k + 24"
    by (simp add: getLockName_length)
  then show "getLockName (BytesToString (getLockName k)) \<noteq> getLockName k"
    and "getLockName (BytesToString (getLockName k)) \<noteq> StringToBytes k"
    using getLockName_length [of k] by (auto dest: arg_cong [where f = length])
qed

section \<open>Prefix ranges\<close>

text \<open>
  The loop \<open>for i := len(end) - 1; i >= 0; i--\<close>, whose second argument is \<open>i + 1\<close>:
  increment the last byte that is not \<open>0xff\<close> and cut there; the zero byte when every
  byte is.
\<close>

fun getPrefix_loop :: "bytes \<Rightarrow> nat \<Rightarrow> bytes" where
  "getPrefix_loop end 0 = ZeroByte"
| "getPrefix_loop end (Suc i) =
     (if end ! i < 0xff then take (Suc i) (end[i := end ! i + 1]) else getPrefix_loop end i)"

definition getPrefix :: "string \<Rightarrow> bytes" where
  "getPrefix key = (let bkey = StringToBytes key in getPrefix_loop bkey (length bkey))"

text \<open>The same end read from the left: none when every byte is \<open>0xff\<close>.\<close>

fun prefix_end :: "bytes \<Rightarrow> bytes option" where
  "prefix_end [] = None"
| "prefix_end (c # p) = (case prefix_end p of
     Some e \<Rightarrow> Some (c # e)
   | None \<Rightarrow> if c < 0xff then Some [c + 1] else None)"

lemma getPrefix_loop_append: "i \<le> length p \<Longrightarrow> getPrefix_loop (p @ q) i = getPrefix_loop p i"
  by (induction i) (auto simp: nth_append list_update_append)

lemma prefix_end_snoc: "prefix_end (p @ [c]) =
    (if c < 0xff then Some (p @ [c + 1]) else prefix_end p)"
  by (induction p) (auto split: option.splits)

lemma getPrefix_loop_eq: "getPrefix_loop p (length p) = (case prefix_end p of None \<Rightarrow> ZeroByte | Some e \<Rightarrow> e)"
proof (induction p rule: rev_induct)
  case (snoc c p)
  then show ?case
    by (simp add: prefix_end_snoc getPrefix_loop_append)
qed simp

lemma unat_byte_succ: "c < (0xff :: byte) \<Longrightarrow> unat (c + 1) = Suc (unat c)"
  by (simp add: unat_word_ariths word_less_nat_alt)

lemma byte_ff: "\<not> c < (0xff :: byte) \<Longrightarrow> c = 0xff"
  using unat_byte_less [of c] by (simp add: word_less_nat_alt word_unat_eq_iff)

lemma byte_less_succ: "c < (0xff :: byte) \<Longrightarrow> d < c + 1 \<longleftrightarrow> d \<le> c"
  by (simp add: word_less_nat_alt [of d] word_le_nat_alt unat_byte_succ less_Suc_eq_le)

lemma byte_le_ff: "\<not> (0xff :: byte) < d"
  using unat_byte_less [of d] by (simp add: word_less_nat_alt)

lemma prefix_end_not_zero: "prefix_end p = Some e \<Longrightarrow> e \<noteq> [] \<and> e \<noteq> ZeroByte"
proof (induction p arbitrary: e)
  case (Cons c p)
  have "c < 0xff \<Longrightarrow> c + 1 \<noteq> 0" using unat_byte_succ [of c] by auto
  with Cons show ?case
    by (auto simp: ZeroByte_def split: option.splits if_splits)
qed simp

lemma prefix_iff_between:
  "prefix p x \<longleftrightarrow> p \<le> x \<and> (case prefix_end p of None \<Rightarrow> True | Some e \<Rightarrow> x < e)"
proof (induction p arbitrary: x)
  case (Cons c p)
  show ?case
  proof (cases x)
    case (Cons d y)
    show ?thesis
      using Cons Cons.IH [of y] byte_less_succ [of c d] byte_ff [of c] byte_le_ff [of d]
      by (auto split: option.splits if_splits)
  qed simp
qed simp

theorem in_prefix_range: "in_range (StringToBytes k) (getPrefix k) x \<longleftrightarrow> prefix (StringToBytes k) x"
proof (cases "prefix_end (StringToBytes k)")
  case None
  then show ?thesis
    using prefix_iff_between [of "StringToBytes k" x]
    by (simp add: in_range_def getPrefix_def getPrefix_loop_eq [unfolded] ZeroByte_def Let_def)
next
  case (Some e)
  then show ?thesis
    using prefix_iff_between [of "StringToBytes k" x] prefix_end_not_zero [OF Some]
    by (simp add: in_range_def getPrefix_def getPrefix_loop_eq Let_def)
qed

text \<open>
  \<open>GetKeyPrefix\<close>: a trailing \<open>*\<close> asks for the range of the prefix before it.  A key
  without it gets the zero byte as its end.
\<close>

definition GetKeyPrefix :: "string \<Rightarrow> bytes \<times> bytes" where
  "GetKeyPrefix key =
     (if HasSuffix key ''*'' then
        let newKey = TrimSuffix key ''*'' in (StringToBytes newKey, getPrefix newKey)
      else (StringToBytes key, ZeroByte))"

definition GetPermission :: "string \<Rightarrow> string \<Rightarrow> pb_Permission option" where
  "GetPermission key permName =
     (let (bkey, rangeEnd) = GetKeyPrefix key in
      case Permission_Type_value (ToUpper (TrimSpace permName)) of
        None \<Rightarrow> None
      | Some permType \<Rightarrow> Some \<lparr>Permission_PermType = permType, Permission_Key = bkey,
                              Permission_RangeEnd = rangeEnd\<rparr>)"

lemma GetKeyPrefix_star: "GetKeyPrefix (k @ ''*'') = (StringToBytes k, getPrefix k)"
  by (simp add: GetKeyPrefix_def HasSuffix_iff)

lemma GetKeyPrefix_plain: "\<not> HasSuffix k ''*'' \<Longrightarrow> GetKeyPrefix k = (StringToBytes k, ZeroByte)"
  by (simp add: GetKeyPrefix_def)

section \<open>Range requests and answers\<close>

definition getRangeRequestFromKey :: "pb_Key \<Rightarrow> RangeRequest" where
  "getRangeRequestFromKey key =
     (let req = \<lparr>Range_Key = StringToBytes (Key_Key key), Range_RangeEnd = [], Range_Limit = 0,
                 Range_Revision = 0, Range_KeysOnly = False\<rparr>;
          req = (if 0 < sint (Key_Limit key) then req\<lparr>Range_Limit := Key_Limit key\<rparr> else req)
      in if 0 < sint (Key_Revision key) then req\<lparr>Range_Revision := Key_Revision key\<rparr> else req)"

definition kvsToList :: "KeyValue list option \<Rightarrow> pb_KeysList" where
  "kvsToList kvs = map (\<lambda>kv. BytesToString (KV_Key kv)) (case_option [] (\<lambda>x. x) kvs)"

lemma getRangeRequest_simps [simp]:
  "Range_Key (getRangeRequestFromKey key) = StringToBytes (Key_Key key)"
  "Range_RangeEnd (getRangeRequestFromKey key) = []"
  "Range_KeysOnly (getRangeRequestFromKey key) = False"
  by (simp_all add: getRangeRequestFromKey_def Let_def)

lemma getRangeRequest_revision:
  "sint (Key_Revision key) \<le> 0 \<Longrightarrow> Range_Revision (getRangeRequestFromKey key) = 0"
  by (simp add: getRangeRequestFromKey_def Let_def)

lemma getRangeRequest_limit:
  "sint (Key_Limit key) \<le> 0 \<Longrightarrow> Range_Limit (getRangeRequestFromKey key) = 0"
  by (simp add: getRangeRequestFromKey_def Let_def)

section \<open>The limit of a list\<close>

text \<open>\<open>int64(len(xs))\<close>, and \<open>xs[low:]\<close>, which panics (\<open>None\<close>) outside \<open>0 .. len(xs)\<close>.\<close>

definition len64 :: "'a list \<Rightarrow> int64" where
  "len64 xs = of_nat (length xs)"

definition slice_from :: "'a list \<Rightarrow> int64 \<Rightarrow> 'a list option" where
  "slice_from xs low = (if 0 \<le> sint low \<and> sint low \<le> int (length xs) then Some (drop (nat (sint low)) xs) else None)"

definition enforceListLimit :: "pb_List \<Rightarrow> pb_List option" where
  "enforceListLimit lst =
     (if List_Limit lst = 0 then Some lst
      else let size = len64 (List_Value lst) in
        if sint size \<le> sint (List_Limit lst) then Some lst
        else case slice_from (List_Value lst) (size - List_Limit lst) of
            None \<Rightarrow> None
          | Some v \<Rightarrow> Some (lst\<lparr>List_Value := v\<rparr>))"

text \<open>Every Go slice has a length that fits an \<open>int\<close>.\<close>

definition go_slice :: "'a list \<Rightarrow> bool" where
  "go_slice xs \<longleftrightarrow> int (length xs) < 2 ^ 63"

lemma sint_len64: "go_slice xs \<Longrightarrow> sint (len64 xs) = int (length xs)"
  by (simp add: go_slice_def len64_def sint64_of_nat)

text \<open>What the limit means: nothing when zero, the last \<open>n\<close> items when \<open>n\<close> is positive.\<close>

definition keep_last :: "int64 \<Rightarrow> 'a list \<Rightarrow> 'a list" where
  "keep_last n xs = (if n = 0 then xs else drop (length xs - nat (sint n)) xs)"

lemma enforceListLimit_nonneg:
  assumes "go_slice (List_Value lst)" and "0 \<le> sint (List_Limit lst)"
  shows "enforceListLimit lst = Some (lst\<lparr>List_Value := keep_last (List_Limit lst) (List_Value lst)\<rparr>)"
proof -
  have s: "sint (len64 (List_Value lst)) = int (length (List_Value lst))"
    using assms(1) by (rule sint_len64)
  have d: "sint (len64 (List_Value lst) - List_Limit lst) =
      int (length (List_Value lst)) - sint (List_Limit lst)"
    if "sint (List_Limit lst) < int (length (List_Value lst))"
    using that assms by (subst sint64_diff) (auto simp: s go_slice_def)
  have n: "nat (int (length (List_Value lst)) - sint (List_Limit lst)) =
      length (List_Value lst) - nat (sint (List_Limit lst))"
    using assms(2) by (simp add: nat_diff_distrib)
  show ?thesis
    using assms(2) d by (auto simp: enforceListLimit_def Let_def s slice_from_def keep_last_def n)
qed

lemma enforceListLimit_negative:
  assumes "go_slice (List_Value lst)" and "sint (List_Limit lst) < 0"
  shows "enforceListLimit lst = None"
proof -
  let ?n = "int (length (List_Value lst))" and ?l = "sint (List_Limit lst)"
  have s: "sint (len64 (List_Value lst)) = ?n"
    using assms(1) by (rule sint_len64)
  have "slice_from (List_Value lst) (len64 (List_Value lst) - List_Limit lst) = None"
  proof (cases "?n - ?l < 2 ^ 63")
    case True
    have "sint (len64 (List_Value lst) - List_Limit lst) = ?n - ?l"
      using True assms by (subst sint64_diff) (auto simp: s go_slice_def)
    then show ?thesis using assms by (simp add: slice_from_def)
  next
    case False
    have "sint (len64 (List_Value lst) - List_Limit lst) = signed_take_bit 63 (?n - ?l)"
      by (simp add: sint_word_diff s)
    also have "\<dots> = ?n - ?l - 2 ^ 64"
      using False assms sint64_range [of "List_Limit lst"]
      by (intro signed_take_bit_63_high) (simp_all add: go_slice_def)
    finally show ?thesis
      using assms sint64_range [of "List_Limit lst"] by (simp add: slice_from_def go_slice_def)
  qed
  then show ?thesis using assms(2) by (auto simp: enforceListLimit_def Let_def s)
qed

end
