(* ===== verification/Server_Lock.thy ===== *)
theory Server_Lock
  imports Naming
begin

text \<open>
  Locks (\<open>mydis/type_lock.go\<close>) and the deletion of a key (\<open>Delete\<close> of
  \<open>mydis/type_keys.go\<close>, of which \<open>Unlock\<close> is a call).  The lock of a key is another key
  of the store that holds the zero byte; every operation is one etcd transaction that
  compares that key, repeated with a sleep while the lock is held.
\<close>

section \<open>The wait a request asks for\<close>

text \<open>\<open>strconv.ParseInt(s, 10, 64)\<close>: \<open>None\<close> is a syntax or range error.\<close>

fun parse_digits :: "nat \<Rightarrow> string \<Rightarrow> nat option" where
  "parse_digits n [] = Some n"
| "parse_digits n (c # cs) =
     (if CHR ''0'' \<le> c \<and> c \<le> CHR ''9'' then parse_digits (10 * n + (of_char c - 48)) cs else None)"

definition ParseInt :: "string \<Rightarrow> int64 option" where
  "ParseInt s =
     (let neg = (s \<noteq> [] \<and> hd s = CHR ''-'');
          ds = (if s \<noteq> [] \<and> (hd s = CHR ''-'' \<or> hd s = CHR ''+'') then tl s else s)
      in if ds = [] then None
         else case parse_digits 0 ds of
            None \<Rightarrow> None
          | Some n \<Rightarrow>
              if neg then (if n \<le> 2 ^ 63 then Some (- of_nat n) else None)
              else if n < 2 ^ 63 then Some (of_nat n) else None)"

text \<open>The request's metadata, as far as the server reads it; \<open>None\<close> when there is none.\<close>

type_synonym MD = "string \<rightharpoonup> string list"

record go_context =
  ctx_MD :: "MD option"

definition getMaxWait :: "go_context \<Rightarrow> int64" where
  "getMaxWait ctx =
     (let defaultMaxWait = 5 in
      case ctx_MD ctx of
        None \<Rightarrow> defaultMaxWait
      | Some md \<Rightarrow>
          (case md ''maxlockwait'' of
             None \<Rightarrow> defaultMaxWait
           | Some maxWait \<Rightarrow>
               (case maxWait of
                  [] \<Rightarrow> defaultMaxWait
                | v # _ \<Rightarrow> (case ParseInt v of None \<Rightarrow> defaultMaxWait | Some i \<Rightarrow> i))))"

text \<open>\<open>time.Duration(s) * time.Second\<close>: 64-bit nanoseconds, the product wraps.\<close>

definition seconds :: "int64 \<Rightarrow> int" where
  "seconds s = sint (s * 1000000000)"

definition delay :: int where
  "delay = 1000000"

text \<open>A computation that first reads the clock, \<open>time.Now()\<close>.\<close>

definition with_now :: "(int \<Rightarrow> ('s, 'a) handler) \<Rightarrow> ('s, 'a) handler" where
  "with_now f w = f (clock w) w"

section \<open>The transaction loop\<close>

text \<open>The comparison of every guarded transaction: the key's lock holds the zero byte.\<close>

definition lock_held :: "string \<Rightarrow> Compare" where
  "lock_held key = \<lparr>Compare_Key = getLockName key, Compare_Target = Compare_VALUE,
     Compare_Result = Compare_EQUAL, Compare_Value = ZeroByte\<rparr>"

definition if_unlocked :: "string \<Rightarrow> RequestOp list \<Rightarrow> TxnRequest" where
  "if_unlocked key ops = \<lparr>Txn_Compare = [lock_held key], Txn_Success = [], Txn_Failure = ops\<rparr>"

text \<open>
  The loop shared by \<open>LockWithTimeout\<close>, \<open>Set\<close> and \<open>Delete\<close>: run the transaction; if its
  comparison failed the lock was free and the operations are done, otherwise sleep and try
  again.  \<open>once\<close>: give up before the first sleep; \<open>late t\<close>: give up when the clock reads
  \<open>t\<close> after a sleep.
\<close>

partial_function (option) txn_poll ::
  "'s etcd \<Rightarrow> TxnRequest \<Rightarrow> bool \<Rightarrow> (int \<Rightarrow> bool) \<Rightarrow> 's world \<Rightarrow> ((go_error, unit) outcome \<times> 's world) option"
where
  "txn_poll E t once late w =
     (case call E (\<lambda>s. etcd_Txn E s t) w of (r, w1) \<Rightarrow>
        (case r of
           Ok res \<Rightarrow>
             (if \<not> Txn_Succeeded res then Some (Ok (), w1)
              else if once then Some (Err ErrKeyLocked, w1)
              else let w2 = Sleep E delay w1 in
                if late (clock w2) then Some (Err ErrKeyLocked, w2)
                else txn_poll E t once late w2)
         | Err e \<Rightarrow> Some (Err e, w1)
         | Panic \<Rightarrow> Some (Panic, w1)
         | Hang \<Rightarrow> Some (Hang, w1)))"

section \<open>The operations\<close>

definition LockWithTimeout :: "'s etcd \<Rightarrow> pb_Expiration \<Rightarrow> ('s, pb_Null) handler" where
  "LockWithTimeout E ex = with_now (\<lambda>now.
     let maxWait = now + seconds (Expiration_Exp ex);
         keyLock = getLockName (Expiration_Key ex)
     in looping (txn_poll E
          (if_unlocked (Expiration_Key ex)
             [RequestPut \<lparr>Put_Key = keyLock, Put_Value = ZeroByte, Put_Lease = 0\<rparr>])
          (Expiration_Exp ex = 0)
          (\<lambda>t. maxWait < t \<and> 0 \<le> sint (Expiration_Exp ex))))"

definition Lock :: "'s etcd \<Rightarrow> go_context \<Rightarrow> pb_Key \<Rightarrow> ('s, pb_Null) handler" where
  "Lock E ctx key = LockWithTimeout E \<lparr>Expiration_Key = Key_Key key, Expiration_Exp = getMaxWait ctx\<rparr>"

definition Delete :: "'s etcd \<Rightarrow> go_context \<Rightarrow> pb_Key \<Rightarrow> ('s, pb_Null) handler" where
  "Delete E ctx key = with_now (\<lambda>now.
     let maxWait = now + seconds (getMaxWait ctx)
     in looping (txn_poll E
          (if_unlocked (Key_Key key)
             [RequestDeleteRange \<lparr>Delete_Key = StringToBytes (Key_Key key), Delete_RangeEnd = []\<rparr>])
          False (\<lambda>t. maxWait < t)))"

definition Unlock :: "'s etcd \<Rightarrow> go_context \<Rightarrow> pb_Key \<Rightarrow> ('s, pb_Null) handler" where
  "Unlock E ctx key = Delete E ctx (newKey (BytesToString (getLockName (Key_Key key))))"

text \<open>
  The comparison that is meant never to hold: the zero byte is not a key of the store.  Its
  failure branch is the way to run several operations in one transaction.
\<close>

definition always_fails :: Compare where
  "always_fails = \<lparr>Compare_Key = ZeroByte, Compare_Target = Compare_VALUE,
     Compare_Result = Compare_EQUAL, Compare_Value = ZeroByte\<rparr>"

definition invalid_key :: "string \<Rightarrow> bool" where
  "invalid_key key \<longleftrightarrow> length (StringToBytes key) = 0 \<or> StringToBytes key = ZeroByte"

definition UnlockThenSet :: "'s etcd \<Rightarrow> pb_ByteValue \<Rightarrow> ('s, pb_Null) handler" where
  "UnlockThenSet E val =
     (if invalid_key (ByteValue_Key val) then throw ErrInvalidKey
      else and_then (call E (\<lambda>s. etcd_Txn E s
          \<lparr>Txn_Compare = [always_fails], Txn_Success = [],
           Txn_Failure =
             [RequestDeleteRange \<lparr>Delete_Key = getLockName (ByteValue_Key val), Delete_RangeEnd = []\<rparr>,
              RequestPut \<lparr>Put_Key = StringToBytes (ByteValue_Key val), Put_Value = ByteValue_Value val,
                          Put_Lease = 0\<rparr>]\<rparr>))
        (\<lambda>_. ret ()))"

section \<open>The loop, step by step\<close>

lemma if_unlocked_simps [simp]:
  "Txn_Compare (if_unlocked k ops) = [lock_held k]" "Txn_Success (if_unlocked k ops) = []"
  "Txn_Failure (if_unlocked k ops) = ops"
  by (simp_all add: if_unlocked_def)

lemma lock_held_simps [simp]:
  "Compare_Key (lock_held k) = getLockName k" "Compare_Value (lock_held k) = ZeroByte"
  by (simp_all add: lock_held_def)

lemma always_fails_simps [simp]:
  "Compare_Key always_fails = ZeroByte" "Compare_Value always_fails = ZeroByte"
  by (simp_all add: always_fails_def)

lemma compares_if_unlocked [simp]: "compares m (if_unlocked k ops) \<longleftrightarrow> m (getLockName k) = Some ZeroByte"
  by (simp add: compares_def)

lemma call_not_panic: "fst (call E op w) \<noteq> Panic" "fst (call E op w) \<noteq> Hang"
  by (auto simp: call_def Let_def split: prod.splits sum.splits)

lemma call_ok_cases:
  obtains (Ok) x w1 where "call E op w = (Ok x, w1)" | (Err) e w1 where "call E op w = (Err e, w1)"
  by (cases "call E op w"; cases "fst (call E op w)") (use call_not_panic [of E op w] in auto)

lemma call_clock: "clock (snd (call E op w)) = clock w + int (lag E (ticks w))"
  by (auto simp: call_def Let_def split: prod.splits sum.splits)

lemma call_ticks: "ticks (snd (call E op w)) = Suc (ticks w)"
  by (auto simp: call_def Let_def split: prod.splits sum.splits)

lemma txn_poll_done:
  "call E (\<lambda>s. etcd_Txn E s t) w = (Ok res, w1) \<Longrightarrow> \<not> Txn_Succeeded res \<Longrightarrow>
     txn_poll E t once late w = Some (Ok (), w1)"
  by (subst txn_poll.simps) simp

lemma txn_poll_error:
  "call E (\<lambda>s. etcd_Txn E s t) w = (Err e, w1) \<Longrightarrow> txn_poll E t once late w = Some (Err e, w1)"
  by (subst txn_poll.simps) simp

lemma txn_poll_once:
  "call E (\<lambda>s. etcd_Txn E s t) w = (Ok res, w1) \<Longrightarrow> Txn_Succeeded res \<Longrightarrow>
     txn_poll E t True late w = Some (Err ErrKeyLocked, w1)"
  by (subst txn_poll.simps) simp

lemma txn_poll_wait:
  "call E (\<lambda>s. etcd_Txn E s t) w = (Ok res, w1) \<Longrightarrow> Txn_Succeeded res \<Longrightarrow>
     txn_poll E t False late w =
       (if late (clock (Sleep E delay w1)) then Some (Err ErrKeyLocked, Sleep E delay w1)
        else txn_poll E t False late (Sleep E delay w1))"
  by (subst txn_poll.simps) (simp add: Let_def)

text \<open>Every round takes at least \<open>delay\<close>, so a deadline ends the loop.\<close>

lemma txn_poll_terminates:
  assumes "\<And>t. T < t \<Longrightarrow> late t"
  shows "txn_poll E t once late w \<noteq> None"
proof (induction "nat (T + 1 - clock w)" arbitrary: w rule: less_induct)
  case less
  show ?case
  proof (cases rule: call_ok_cases [of E "\<lambda>s. etcd_Txn E s t" w])
    case (Ok res w1)
    let ?w2 = "Sleep E delay w1"
    have c1: "clock w \<le> clock w1" using call_clock [of E "\<lambda>s. etcd_Txn E s t" w] Ok by simp
    have IH: "txn_poll E t once late ?w2 \<noteq> None" if "\<not> late (clock ?w2)"
    proof (rule less)
      have "clock ?w2 \<le> T" using that assms by force
      then show "nat (T + 1 - clock ?w2) < nat (T + 1 - clock w)"
        using c1 by (simp add: delay_def)
    qed
    show ?thesis
    proof (cases "Txn_Succeeded res")
      case True
      then show ?thesis
        using Ok IH by (cases once) (simp_all add: txn_poll_once txn_poll_wait)
    qed (use Ok in \<open>simp add: txn_poll_done\<close>)
  qed (simp add: txn_poll_error)
qed

text \<open>What a finished loop can have returned.\<close>

lemma txn_poll_result:
  assumes "txn_poll E t once late w = Some (r, w')"
  shows "r = Ok () \<or> (r = Err ErrKeyLocked \<and> (once \<or> late (clock w'))) \<or> (\<exists>msg. r = Err (Other msg))"
proof -
  have "case p of (r, w') \<Rightarrow>
      r = Ok () \<or> (r = Err ErrKeyLocked \<and> (once \<or> late (clock w'))) \<or> (\<exists>msg. r = Err (Other msg))"
    if "txn_poll E t once late w = Some p" for p
  proof (rule txn_poll.raw_induct [where P = "\<lambda>E t once late w p. case p of (r, w') \<Rightarrow>
      r = Ok () \<or> (r = Err ErrKeyLocked \<and> (once \<or> late (clock w'))) \<or> (\<exists>msg. r = Err (Other msg))", OF _ that])
    fix f E t once late w p
    assume IH: "\<And>E t once late w p. f E t once late w = Some p \<Longrightarrow> case p of (r, w') \<Rightarrow>
        r = Ok () \<or> (r = Err ErrKeyLocked \<and> (once \<or> late (clock w'))) \<or> (\<exists>msg. r = Err (Other msg))"
      and eq: "(case call E (\<lambda>s. etcd_Txn E s t) w of (r, w1) \<Rightarrow>
        (case r of
           Ok res \<Rightarrow>
             (if \<not> Txn_Succeeded res then Some (Ok (), w1)
              else if once then Some (Err ErrKeyLocked, w1)
              else let w2 = Sleep E delay w1 in
                if late (clock w2) then Some (Err ErrKeyLocked, w2)
                else f E t once late w2)
         | Err e \<Rightarrow> Some (Err e, w1)
         | Panic \<Rightarrow> Some (Panic, w1)
         | Hang \<Rightarrow> Some (Hang, w1))) = Some p"
    show "case p of (r, w') \<Rightarrow>
        r = Ok () \<or> (r = Err ErrKeyLocked \<and> (once \<or> late (clock w'))) \<or> (\<exists>msg. r = Err (Other msg))"
    proof (cases rule: call_ok_cases [of E "\<lambda>s. etcd_Txn E s t" w])
      case (Ok res w1)
      then show ?thesis using eq IH [of E t once late "Sleep E delay w1" p]
        by (auto simp: Let_def split: if_splits)
    next
      case (Err e w1)
      then have "\<exists>msg. e = Other msg"
        by (auto simp: call_def Let_def split: prod.splits sum.splits)
      with Err eq show ?thesis by auto
    qed
  qed
  with assms show ?thesis by fastforce
qed

end
