(* ===== verification/Lock_Rules.thy ===== *)
theory Lock_Rules
  imports Server_Lock
begin

text \<open>
  What the transaction loop and the operations on locks do to the store: a free lock, a
  held lock, a lock that another client releases, and the time a wait takes.
\<close>

section \<open>A free and a held lock\<close>

lemma txn_failed:
  assumes "stores E kv K m w" and "\<not> compares m t" and "\<And>c. c \<in> set (Txn_Compare t) \<Longrightarrow> Compare_Key c \<in> K"
  shows "\<exists>res w1. call E (\<lambda>s. etcd_Txn E s t) w = (Ok res, w1) \<and> \<not> Txn_Succeeded res \<and>
    (\<exists>m0. (\<forall>k\<in>K. m0 k = m k) \<and> ops_answer m0 (Txn_Failure t) (Txn_Responses res)) \<and>
    stores E kv K (run_ops (Txn_Failure t) m) w1"
proof -
  have br: "txn_branch m t = Txn_Failure t" using assms(2) by (simp add: txn_branch_def)
  obtain r w1 where call: "call E (\<lambda>s. etcd_Txn E s t) w = (r, w1)" by fastforce
  have "triple (stores E kv K m) (call E (\<lambda>s. etcd_Txn E s t))
    (\<lambda>r w. \<exists>x. r = Ok x \<and> (Txn_Succeeded x \<longleftrightarrow> compares m t) \<and>
       (\<exists>m0. (\<forall>k\<in>K. m0 k = m k) \<and> ops_answer m0 (txn_branch m t) (Txn_Responses x)) \<and>
       stores E kv K (run_ops (txn_branch m t) m) w)"
    by (rule txn_triple) (rule assms(3))
  from tripleD [OF this assms(1)] show ?thesis
    using assms(2) unfolding br call by auto
qed

lemma txn_succeeded:
  assumes "stores E kv K m w" and "compares m t" and "\<And>c. c \<in> set (Txn_Compare t) \<Longrightarrow> Compare_Key c \<in> K"
    and "Txn_Success t = []"
  shows "\<exists>res w1. call E (\<lambda>s. etcd_Txn E s t) w = (Ok res, w1) \<and> Txn_Succeeded res \<and> stores E kv K m w1"
proof -
  have br: "txn_branch m t = []" using assms(2,4) by (simp add: txn_branch_def)
  obtain r w1 where call: "call E (\<lambda>s. etcd_Txn E s t) w = (r, w1)" by fastforce
  have "triple (stores E kv K m) (call E (\<lambda>s. etcd_Txn E s t))
    (\<lambda>r w. \<exists>x. r = Ok x \<and> (Txn_Succeeded x \<longleftrightarrow> compares m t) \<and>
       (\<exists>m0. (\<forall>k\<in>K. m0 k = m k) \<and> ops_answer m0 (txn_branch m t) (Txn_Responses x)) \<and>
       stores E kv K (run_ops (txn_branch m t) m) w)"
    by (rule txn_triple) (rule assms(3))
  from tripleD [OF this assms(1)] show ?thesis
    using assms(2) unfolding br call by auto
qed

lemma poll_free:
  assumes "getLockName k \<in> K" and "m (getLockName k) \<noteq> Some ZeroByte"
  shows "runs (stores E kv K m) (looping (txn_poll E (if_unlocked k ops) once late)) (Ok ())
    (stores E kv K (run_ops ops m))"
proof (rule runsI)
  fix w assume "stores E kv K m w"
  then obtain res w1 where "call E (\<lambda>s. etcd_Txn E s (if_unlocked k ops)) w = (Ok res, w1)"
      and "\<not> Txn_Succeeded res" and "stores E kv K (run_ops ops m) w1"
    using txn_failed [of E kv K m w "if_unlocked k ops"] assms by auto
  then show "\<exists>w'. looping (txn_poll E (if_unlocked k ops) once late) w = (Ok (), w') \<and>
      stores E kv K (run_ops ops m) w'"
    by (simp add: looping_def txn_poll_done)
qed

lemma poll_held_result:
  assumes "stores E kv K m w" and "getLockName k \<in> K" and "m (getLockName k) = Some ZeroByte"
    and "txn_poll E (if_unlocked k ops) once late w = Some (r, w')"
  shows "r = Err ErrKeyLocked \<and> stores E kv K m w'"
proof -
  have "stores E kv K m w \<longrightarrow> t = if_unlocked k ops \<longrightarrow> (case p of (r, w') \<Rightarrow> r = Err ErrKeyLocked \<and> stores E kv K m w')"
    if "txn_poll E t once late w = Some p" for t p
  proof (rule txn_poll.raw_induct [where P = "\<lambda>F t once late w p. F = E \<longrightarrow> stores E kv K m w \<longrightarrow>
      t = if_unlocked k ops \<longrightarrow> (case p of (r, w') \<Rightarrow> r = Err ErrKeyLocked \<and> stores E kv K m w')",
      OF _ that, THEN mp, OF _ refl])
    fix f F t once late w p
    assume IH: "\<And>F t once late w p. f F t once late w = Some p \<Longrightarrow> F = E \<longrightarrow> stores E kv K m w \<longrightarrow>
        t = if_unlocked k ops \<longrightarrow> (case p of (r, w') \<Rightarrow> r = Err ErrKeyLocked \<and> stores E kv K m w')"
      and eq: "(case call F (\<lambda>s. etcd_Txn F s t) w of (r, w1) \<Rightarrow>
        (case r of
           Ok res \<Rightarrow>
             (if \<not> Txn_Succeeded res then Some (Ok (), w1)
              else if once then Some (Err ErrKeyLocked, w1)
              else let w2 = Sleep F delay w1 in
                if late (clock w2) then Some (Err ErrKeyLocked, w2)
                else f F t once late w2)
         | Err e \<Rightarrow> Some (Err e, w1)
         | Panic \<Rightarrow> Some (Panic, w1)
         | Hang \<Rightarrow> Some (Hang, w1))) = Some p"
    show "F = E \<longrightarrow> stores E kv K m w \<longrightarrow> t = if_unlocked k ops \<longrightarrow>
        (case p of (r, w') \<Rightarrow> r = Err ErrKeyLocked \<and> stores E kv K m w')"
    proof (intro impI)
      assume F: "F = E" and w: "stores E kv K m w" and t: "t = if_unlocked k ops"
      obtain res w1 where c: "call E (\<lambda>s. etcd_Txn E s (if_unlocked k ops)) w = (Ok res, w1)"
          "Txn_Succeeded res" "stores E kv K m w1"
        using txn_succeeded [OF w, of "if_unlocked k ops"] assms(2,3) by auto
      from c(3) have w2: "stores E kv K m (Sleep E delay w1)" by (rule stores_Sleep)
      show "case p of (r, w') \<Rightarrow> r = Err ErrKeyLocked \<and> stores E kv K m w'"
        using eq IH [of E t once late "Sleep E delay w1" p] c w2
        unfolding F t by (auto simp: Let_def split: if_splits)
    qed
  qed
  with assms show ?thesis by fastforce
qed

lemma poll_held:
  assumes "getLockName k \<in> K" and "m (getLockName k) = Some ZeroByte"
    and "\<And>t. T < t \<Longrightarrow> late t"
  shows "runs (stores E kv K m) (looping (txn_poll E (if_unlocked k ops) once late)) (Err ErrKeyLocked)
    (stores E kv K m)"
proof (rule runsI)
  fix w assume w: "stores E kv K m w"
  obtain r w' where p: "txn_poll E (if_unlocked k ops) once late w = Some (r, w')"
    using txn_poll_terminates [OF assms(3), where w = w] by fastforce
  then show "\<exists>w'. looping (txn_poll E (if_unlocked k ops) once late) w = (Err ErrKeyLocked, w') \<and> stores E kv K m w'"
    using poll_held_result [OF w assms(1,2) p] by (simp add: looping_def)
qed

lemma runs_with_now: "(\<And>now. runs P (f now) r Q) \<Longrightarrow> runs P (with_now f) r Q"
  by (rule runsI) (auto simp: with_now_def dest: runsD)

section \<open>The operations on a free lock\<close>

lemma LockWithTimeout_free:
  assumes "getLockName (Expiration_Key ex) \<in> K" and "m (getLockName (Expiration_Key ex)) \<noteq> Some ZeroByte"
  shows "runs (stores E kv K m) (LockWithTimeout E ex) (Ok ())
    (stores E kv K (m(getLockName (Expiration_Key ex) \<mapsto> ZeroByte)))"
  unfolding LockWithTimeout_def Let_def
  by (rule runs_with_now, rule runs_weaken, rule poll_free) (use assms in auto)

lemma Lock_free:
  assumes "getLockName (Key_Key key) \<in> K" and "m (getLockName (Key_Key key)) \<noteq> Some ZeroByte"
  shows "runs (stores E kv K m) (Lock E ctx key) (Ok ())
    (stores E kv K (m(getLockName (Key_Key key) \<mapsto> ZeroByte)))"
  unfolding Lock_def
  by (rule runs_weaken, rule LockWithTimeout_free) (use assms in auto)

lemma Delete_free:
  assumes "getLockName (Key_Key key) \<in> K" and "m (getLockName (Key_Key key)) \<noteq> Some ZeroByte"
  shows "runs (stores E kv K m) (Delete E ctx key) (Ok ())
    (stores E kv K (m(StringToBytes (Key_Key key) := None)))"
  unfolding Delete_def Let_def
  by (rule runs_with_now, rule runs_weaken, rule poll_free) (use assms in auto)

lemma Unlock_free:
  assumes "getLockName (BytesToString (getLockName (Key_Key key))) \<in> K"
    and "m (getLockName (BytesToString (getLockName (Key_Key key)))) \<noteq> Some ZeroByte"
  shows "runs (stores E kv K m) (Unlock E ctx key) (Ok ())
    (stores E kv K (m(getLockName (Key_Key key) := None)))"
  unfolding Unlock_def
  by (rule runs_weaken, rule Delete_free) (use assms in auto)

lemma UnlockThenSet_ok:
  assumes "\<not> invalid_key (ByteValue_Key val)" and "ZeroByte \<in> K" and "m ZeroByte \<noteq> Some ZeroByte"
  shows "runs (stores E kv K m) (UnlockThenSet E val) (Ok ())
    (stores E kv K (m(getLockName (ByteValue_Key val) := None,
       StringToBytes (ByteValue_Key val) \<mapsto> ByteValue_Value val)))"
proof (rule runsI)
  let ?t = "\<lparr>Txn_Compare = [always_fails], Txn_Success = [],
     Txn_Failure =
       [RequestDeleteRange \<lparr>Delete_Key = getLockName (ByteValue_Key val), Delete_RangeEnd = []\<rparr>,
        RequestPut \<lparr>Put_Key = StringToBytes (ByteValue_Key val), Put_Value = ByteValue_Value val,
                    Put_Lease = 0\<rparr>]\<rparr>"
  fix w assume w: "stores E kv K m w"
  have "\<not> compares m ?t" using assms(3) by (simp add: compares_def)
  from txn_failed [OF w this] assms(2)
  show "\<exists>w'. UnlockThenSet E val w = (Ok (), w') \<and>
      stores E kv K (m(getLockName (ByteValue_Key val) := None,
        StringToBytes (ByteValue_Key val) \<mapsto> ByteValue_Value val)) w'"
    using assms(1) by (auto simp: UnlockThenSet_def and_then_def ret_def)
qed

section \<open>Waiting for a held lock\<close>

lemma LockWithTimeout_held:
  assumes "getLockName (Expiration_Key ex) \<in> K" and "m (getLockName (Expiration_Key ex)) = Some ZeroByte"
    and "0 \<le> sint (Expiration_Exp ex)"
  shows "runs (stores E kv K m) (LockWithTimeout E ex) (Err ErrKeyLocked) (stores E kv K m)"
  unfolding LockWithTimeout_def Let_def
  by (rule runs_with_now, rule poll_held) (use assms in auto)

lemma Lock_held:
  assumes "getLockName (Key_Key key) \<in> K" and "m (getLockName (Key_Key key)) = Some ZeroByte"
    and "0 \<le> sint (getMaxWait ctx)"
  shows "runs (stores E kv K m) (Lock E ctx key) (Err ErrKeyLocked) (stores E kv K m)"
  unfolding Lock_def by (rule LockWithTimeout_held) (use assms in auto)

lemma Delete_held:
  assumes "getLockName (Key_Key key) \<in> K" and "m (getLockName (Key_Key key)) = Some ZeroByte"
  shows "runs (stores E kv K m) (Delete E ctx key) (Err ErrKeyLocked) (stores E kv K m)"
  unfolding Delete_def Let_def
  by (rule runs_with_now, rule poll_held) (use assms in auto)

text \<open>A negative timeout never expires: on a lock nobody releases the call does not return.\<close>

lemma LockWithTimeout_forever:
  assumes "stores E kv K m w" and "getLockName (Expiration_Key ex) \<in> K"
    and "m (getLockName (Expiration_Key ex)) = Some ZeroByte" and "sint (Expiration_Exp ex) < 0"
  shows "fst (LockWithTimeout E ex w) = Hang"
proof -
  let ?late = "\<lambda>t. clock w + seconds (Expiration_Exp ex) < t \<and> 0 \<le> sint (Expiration_Exp ex)"
  let ?t = "if_unlocked (Expiration_Key ex)
     [RequestPut \<lparr>Put_Key = getLockName (Expiration_Key ex), Put_Value = ZeroByte, Put_Lease = 0\<rparr>]"
  have once: "(Expiration_Exp ex = 0) = False" using assms(4) by auto
  have "txn_poll E ?t False ?late w = None"
  proof (rule ccontr)
    assume "txn_poll E ?t False ?late w \<noteq> None"
    then obtain r w' where p: "txn_poll E ?t False ?late w = Some (r, w')" by fastforce
    with poll_held_result [OF assms(1-3) p] txn_poll_result [OF p] assms(4) show False by auto
  qed
  then show ?thesis
    by (simp add: LockWithTimeout_def with_now_def Let_def looping_def once)
qed

text \<open>
  Another client releases the lock: from some scheduling point on, the others leave it
  unlocked.  A wait without deadline then gets the lock.
\<close>

lemma poll_released:
  assumes law: "etcd_kv E kv" "etcd_up E"
    and free: "\<And>n s. N \<le> n \<Longrightarrow> kv (others E n s) (getLockName k) \<noteq> Some ZeroByte"
    and never: "\<And>t. \<not> late t"
  shows "\<exists>w'. txn_poll E (if_unlocked k ops) False late w = Some (Ok (), w') \<and>
    (\<exists>m. m (getLockName k) \<noteq> Some ZeroByte \<and> kv (cache w') = run_ops ops m)"
proof (induction "N - ticks w" arbitrary: w rule: less_induct)
  case less
  let ?t = "if_unlocked k ops" and ?s = "others E (ticks w) (cache w)"
  obtain res where r: "fst (etcd_Txn E ?s ?t) = Inr res"
    using law(2) unfolding etcd_up_def by blast
  then have op: "etcd_Txn E ?s ?t = (Inr res, snd (etcd_Txn E ?s ?t))" by (cases "etcd_Txn E ?s ?t") simp
  note call = call_simps(1) [of "\<lambda>s. etcd_Txn E s ?t", OF op]
  show ?case
  proof (cases "compares (kv ?s) ?t")
    case False
    with etcd_txnD(2,3) [OF law(1) r] have "\<not> Txn_Succeeded res"
        and "kv (snd (etcd_Txn E ?s ?t)) = run_ops ops (kv ?s)"
      by (simp_all add: txn_branch_def)
    with False show ?thesis by (auto simp: txn_poll_done [OF call] intro!: exI [where x = "kv ?s"])
  next
    case True
    then have "Txn_Succeeded res" using etcd_txnD(2) [OF law(1) r] by simp
    note step = txn_poll_wait [OF call this, of late]
    have "ticks w < N" using True free [of "ticks w"] by (metis compares_if_unlocked not_le)
    then show ?thesis unfolding step using never by (auto intro!: less)
  qed
qed

text \<open>
  The wait is as long as asked: a timeout is reported only after more than \<open>Exp\<close> seconds,
  when that many seconds fit a duration.
\<close>

lemma seconds_exact: "\<bar>sint s\<bar> \<le> 9223372036 \<Longrightarrow> seconds s = sint s * 1000000000"
  unfolding seconds_def by (simp add: sint_word_mult) (rule signed_take_bit_63_eq, auto)

lemma LockWithTimeout_result:
  assumes "LockWithTimeout E ex w = (r, w')" and "r \<noteq> Hang"
  shows "r = Ok () \<or> (\<exists>msg. r = Err (Other msg)) \<or>
    (r = Err ErrKeyLocked \<and> (Expiration_Exp ex = 0 \<or>
       (clock w + seconds (Expiration_Exp ex) < clock w' \<and> 0 < sint (Expiration_Exp ex))))"
proof -
  have "sint (Expiration_Exp ex) = 0 \<longleftrightarrow> Expiration_Exp ex = 0" by (simp add: signed_eq_0_iff)
  then show ?thesis
    using assms
    by (auto simp: LockWithTimeout_def with_now_def Let_def looping_def split: option.splits
        dest!: txn_poll_result)
qed

end
