(* ===== verification/Server_Keys.thy ===== *)
theory Server_Keys
  imports Lock_Rules
begin

text \<open>Operations on keys (\<open>mydis/type_keys.go\<close>); \<open>Delete\<close> is in \<open>Server_Lock\<close>.\<close>

definition Keys :: "'s etcd \<Rightarrow> ('s, pb_KeysList) handler" where
  "Keys E = and_then (call E (\<lambda>s. etcd_Range E s
      \<lparr>Range_Key = ZeroByte, Range_RangeEnd = ZeroByte, Range_Limit = 0, Range_Revision = 0,
       Range_KeysOnly = True\<rparr>))
    (\<lambda>res. ret (kvsToList (Range_Kvs res)))"

definition KeysWithPrefix :: "'s etcd \<Rightarrow> pb_Key \<Rightarrow> ('s, pb_KeysList) handler" where
  "KeysWithPrefix E key = and_then (call E (\<lambda>s. etcd_Range E s
      \<lparr>Range_Key = StringToBytes (Key_Key key), Range_RangeEnd = getPrefix (Key_Key key),
       Range_Limit = 0, Range_Revision = 0, Range_KeysOnly = True\<rparr>))
    (\<lambda>res. ret (kvsToList (Range_Kvs res)))"

definition Has :: "'s etcd \<Rightarrow> pb_Key \<Rightarrow> ('s, pb_Bool) handler" where
  "Has E key = and_then (attempt (call E (\<lambda>s. etcd_Range E s
      \<lparr>Range_Key = StringToBytes (Key_Key key), Range_RangeEnd = [], Range_Limit = 0,
       Range_Revision = 0, Range_KeysOnly = True\<rparr>)))
    (\<lambda>r. case r of
       Inl e \<Rightarrow> if Error e = Error ErrKeyNotFound then ret False else throw e
     | Inr res \<Rightarrow> ret (list_ex (\<lambda>kv. Key_Key key = BytesToString (KV_Key kv))
                      (case_option [] (\<lambda>x. x) (Range_Kvs res))))"

definition SetExpire :: "'s etcd \<Rightarrow> pb_Expiration \<Rightarrow> ('s, pb_Null) handler" where
  "SetExpire E ex = and_then (attempt (call E (\<lambda>s. etcd_LeaseGrant E s (Expiration_Exp ex))))
    (\<lambda>r. case r of
       Inl e \<Rightarrow> if Error e = Error ErrKeyNotFound then throw ErrKeyNotFound else throw e
     | Inr res_ID \<Rightarrow> call E (\<lambda>s. etcd_Put E s
           \<lparr>Put_Key = StringToBytes (Expiration_Key ex), Put_Value = [], Put_Lease = res_ID\<rparr>))"

definition Clear :: "'s etcd \<Rightarrow> ('s, pb_Null) handler" where
  "Clear E = call E (\<lambda>s. etcd_DeleteRange E s \<lparr>Delete_Key = ZeroByte, Delete_RangeEnd = ZeroByte\<rparr>)"

section \<open>What they answer\<close>

lemma kvsToList_answer:
  assumes "range_answer m q r" and "Range_Limit q = 0"
  shows "distinct (kvsToList (Range_Kvs r))"
    and "set (kvsToList (Range_Kvs r)) =
      {k. m (StringToBytes k) \<noteq> None \<and> in_range (Range_Key q) (Range_RangeEnd q) (StringToBytes k)}"
proof -
  let ?kvs = "case_option [] (\<lambda>x. x) (Range_Kvs r)" and ?hit = "in_range (Range_Key q) (Range_RangeEnd q)"
  from assms have d: "distinct (map KV_Key ?kvs)"
    and sound: "\<forall>e\<in>set ?kvs. ?hit (KV_Key e) \<and> (\<exists>v. m (KV_Key e) = Some v \<and> KV_Value e = (if Range_KeysOnly q then [] else v))"
    and complete: "\<forall>k v. ?hit k \<and> m k = Some v \<longrightarrow> k \<in> KV_Key ` set ?kvs"
    unfolding range_answer_def Let_def by blast+
  have "kvsToList (Range_Kvs r) = map BytesToString (map KV_Key ?kvs)"
    by (simp add: kvsToList_def)
  then show "distinct (kvsToList (Range_Kvs r))"
    using d by (simp only: distinct_map) (simp add: inj_on_def)
  show "set (kvsToList (Range_Kvs r)) = {k. m (StringToBytes k) \<noteq> None \<and> ?hit (StringToBytes k)}"
  proof (intro set_eqI iffI)
    fix k assume "k \<in> set (kvsToList (Range_Kvs r))"
    then obtain e where "e \<in> set ?kvs" and "k = BytesToString (KV_Key e)"
      unfolding kvsToList_def by (metis (no_types, lifting) imageE list.set_map)
    with sound show "k \<in> {k. m (StringToBytes k) \<noteq> None \<and> ?hit (StringToBytes k)}" by fastforce
  next
    fix k assume "k \<in> {k. m (StringToBytes k) \<noteq> None \<and> ?hit (StringToBytes k)}"
    then have "StringToBytes k \<in> KV_Key ` set ?kvs" using complete by auto
    then obtain e where e: "e \<in> set ?kvs" and "StringToBytes k = KV_Key e" by (rule imageE)
    then have "k = BytesToString (KV_Key e)" by (metis BytesToString_StringToBytes)
    with e show "k \<in> set (kvsToList (Range_Kvs r))"
      unfolding kvsToList_def by (metis (no_types, lifting) image_eqI list.set_map)
  qed
qed

lemma keys_range_triple:
  assumes "Range_Revision q = 0" and "Range_Limit q = 0"
  shows "triple (stores E kv UNIV m)
    (and_then (call E (\<lambda>s. etcd_Range E s q)) (\<lambda>res. ret (kvsToList (Range_Kvs res))))
    (\<lambda>r w. \<exists>ks. r = Ok ks \<and> distinct ks \<and>
       set ks = {k. m (StringToBytes k) \<noteq> None \<and> in_range (Range_Key q) (Range_RangeEnd q) (StringToBytes k)} \<and>
       stores E kv UNIV m w)"
proof (rule tripleI)
  fix w assume w: "stores E kv UNIV m w"
  obtain x w1 where c: "call E (\<lambda>s. etcd_Range E s q) w = (Ok x, w1)"
      and a: "range_answer m q x" and s: "stores E kv UNIV m w1"
    using tripleD [OF range_all_triple [OF assms(1)] w] by (metis prod.collapse)
  show "\<exists>ks. fst (and_then (call E (\<lambda>s. etcd_Range E s q)) (\<lambda>res. ret (kvsToList (Range_Kvs res))) w) = Ok ks \<and>
      distinct ks \<and>
      set ks = {k. m (StringToBytes k) \<noteq> None \<and> in_range (Range_Key q) (Range_RangeEnd q) (StringToBytes k)} \<and>
      stores E kv UNIV m (snd (and_then (call E (\<lambda>s. etcd_Range E s q)) (\<lambda>res. ret (kvsToList (Range_Kvs res))) w))"
    using kvsToList_answer [OF a assms(2)] s by (simp add: and_then_def ret_def c)
qed

lemma Nil_or_ge_ZeroByte: "ZeroByte \<le> x \<longleftrightarrow> x \<noteq> []"
  by (cases x) (auto simp: ZeroByte_def word_less_nat_alt word_neq_0_conv)

lemma in_range_all: "in_range ZeroByte ZeroByte x \<longleftrightarrow> x \<noteq> []"
proof -
  have "ZeroByte \<noteq> []" by (simp add: ZeroByte_def)
  then show ?thesis by (simp add: in_range_def Nil_or_ge_ZeroByte)
qed

lemma KeysWithPrefix_triple:
  "triple (stores E kv UNIV m) (KeysWithPrefix E key)
    (\<lambda>r w. \<exists>ks. r = Ok ks \<and> distinct ks \<and> set ks = {k. m (StringToBytes k) \<noteq> None \<and> prefix (Key_Key key) k} \<and>
       stores E kv UNIV m w)"
proof -
  have "prefix (StringToBytes p) (StringToBytes k) \<longleftrightarrow> prefix p k" for p k
    by (metis BytesToString_StringToBytes StringToBytes_append StringToBytes_BytesToString prefix_def)
  then show ?thesis
    unfolding KeysWithPrefix_def
    by (rule_tac triple_weaken, rule_tac keys_range_triple) (simp_all add: in_prefix_range)
qed

lemma Keys_triple:
  "triple (stores E kv UNIV m) (Keys E)
    (\<lambda>r w. \<exists>ks. r = Ok ks \<and> distinct ks \<and> set ks = {k. k \<noteq> [] \<and> m (StringToBytes k) \<noteq> None} \<and>
       stores E kv UNIV m w)"
  unfolding Keys_def
  by (rule triple_weaken, rule keys_range_triple)
    (auto simp: in_range_all)

lemma range_single_call:
  assumes "stores E kv K m w" and "Range_RangeEnd q = []" and "Range_Key q \<in> K" and "Range_Revision q = 0"
  shows "\<exists>x w1. call E (\<lambda>s. etcd_Range E s q) w = (Ok x, w1) \<and> stores E kv K m w1 \<and>
    (case m (Range_Key q) of
      None \<Rightarrow> Range_Kvs x = None \<and> \<not> 0 < sint (Range_Count x)
    | Some v \<Rightarrow> Range_Kvs x = Some [\<lparr>KV_Key = Range_Key q,
          KV_Value = (if Range_KeysOnly q then [] else v)\<rparr>] \<and> 0 < sint (Range_Count x))"
proof -
  obtain x w1 where "call E (\<lambda>s. etcd_Range E s q) w = (Ok x, w1)"
      and a: "range_answer m q x" and "stores E kv K m w1"
    using tripleD [OF range_single_triple [OF assms(2-4)] assms(1)] by (metis prod.collapse)
  with range_answer_single [OF a assms(2)] show ?thesis by blast
qed

lemma Has_runs:
  assumes "StringToBytes (Key_Key key) \<in> K"
  shows "runs (stores E kv K m) (Has E key) (Ok (m (StringToBytes (Key_Key key)) \<noteq> None)) (stores E kv K m)"
proof (rule runsI)
  fix w assume w: "stores E kv K m w"
  let ?q = "\<lparr>Range_Key = StringToBytes (Key_Key key), Range_RangeEnd = [], Range_Limit = 0,
       Range_Revision = 0, Range_KeysOnly = True\<rparr>"
  let ?k = "StringToBytes (Key_Key key)"
  obtain x w1 where c: "call E (\<lambda>s. etcd_Range E s ?q) w = (Ok x, w1)" and w1: "stores E kv K m w1"
      and v: "case m ?k of None \<Rightarrow> Range_Kvs x = None \<and> \<not> 0 < sint (Range_Count x)
      | Some v \<Rightarrow> Range_Kvs x = Some [\<lparr>KV_Key = ?k, KV_Value = []\<rparr>] \<and> 0 < sint (Range_Count x)"
    using range_single_call [OF w, of ?q] assms by (simp only: RangeRequest.simps simp_thms if_True) blast
  have "Has E key w = (Ok (m ?k \<noteq> None), w1)"
    using v by (cases "m ?k") (simp_all add: Has_def and_then_def attempt_def ret_def c)
  with w1 show "\<exists>w'. Has E key w = (Ok (m ?k \<noteq> None), w') \<and> stores E kv K m w'" by blast
qed

lemma SetExpire_runs:
  "runs (stores E kv K m) (SetExpire E ex) (Ok ()) (stores E kv K (m(StringToBytes (Expiration_Key ex) \<mapsto> [])))"
proof (rule runsI)
  fix w assume w: "stores E kv K m w"
  obtain x w1 where c: "call E (\<lambda>s. etcd_LeaseGrant E s (Expiration_Exp ex)) w = (Ok x, w1)"
      and w1: "stores E kv K m w1"
    using tripleD [OF lease_triple w] by (metis prod.collapse)
  let ?p = "\<lparr>Put_Key = StringToBytes (Expiration_Key ex), Put_Value = [], Put_Lease = x\<rparr>"
  have "\<exists>w'. call E (\<lambda>s. etcd_Put E s ?p) w1 = (Ok (), w') \<and>
      stores E kv K (m(StringToBytes (Expiration_Key ex) \<mapsto> [])) w'"
    using runsD [OF put_runs w1, of ?p] by simp
  then show "\<exists>w'. SetExpire E ex w = (Ok (), w') \<and>
      stores E kv K (m(StringToBytes (Expiration_Key ex) \<mapsto> [])) w'"
    by (simp add: SetExpire_def and_then_def attempt_def c)
qed

lemma Clear_runs:
  "runs (stores E kv UNIV m) (Clear E) (Ok ()) (stores E kv UNIV (\<lambda>k. if k = [] then m k else None))"
  unfolding Clear_def
  by (rule runs_weaken, rule delete_range_runs)
    (auto simp: delete_range_def in_range_all stores_def)

end
