(* ===== verification/Store_Interface.thy ===== *)
theory Store_Interface
  imports Prelude
begin

text \<open>
  The contract between the lock service and the typed operations that lock a key, read it,
  and write it back while releasing the lock.  The client side is proved here once; the
  server's own operations are shown to meet the contract in \<open>Server_Bytes\<close>.
\<close>

text \<open>
  \<open>holds m\<close> says the store is \<open>m\<close>; \<open>good k m\<close> that the key may be used; \<open>held\<close>, \<open>locked\<close>,
  \<open>unlocked\<close>, \<open>stored\<close> and \<open>lookup\<close> describe a store; the last fields are the operations and
  the errors they report.
\<close>

locale locked_store =
  fixes holds :: "'m \<Rightarrow> 'w \<Rightarrow> bool"
    and good :: "'k \<Rightarrow> 'm \<Rightarrow> bool"
    and held :: "'k \<Rightarrow> 'm \<Rightarrow> bool"
    and lookup :: "'k \<Rightarrow> 'm \<Rightarrow> 'g option"
    and locked :: "'k \<Rightarrow> 'm \<Rightarrow> 'm"
    and unlocked :: "'k \<Rightarrow> 'm \<Rightarrow> 'm"
    and stored :: "'k \<Rightarrow> 'v \<Rightarrow> 'm \<Rightarrow> 'm"
    and loaded :: "'v \<Rightarrow> 'g"
    and lock :: "'k \<Rightarrow> ('w, 'e, unit) comp"
    and unlock :: "'k \<Rightarrow> ('w, 'e, unit) comp"
    and get :: "'k \<Rightarrow> ('w, 'e, 'g) comp"
    and commit :: "'k \<Rightarrow> 'v \<Rightarrow> ('w, 'e, unit) comp"
    and busy :: 'e
    and missing :: 'e
  assumes lock_free: "good k m \<Longrightarrow> \<not> held k m \<Longrightarrow> runs (holds m) (lock k) (Ok ()) (holds (locked k m))"
    and lock_held: "good k m \<Longrightarrow> held k m \<Longrightarrow> runs (holds m) (lock k) (Err busy) (holds m)"
    and unlock_ok: "good k m \<Longrightarrow> runs (holds m) (unlock k) (Ok ()) (holds (unlocked k m))"
    and get_hit: "good k m \<Longrightarrow> lookup k m = Some x \<Longrightarrow> runs (holds m) (get k) (Ok x) (holds m)"
    and get_miss: "good k m \<Longrightarrow> lookup k m = None \<Longrightarrow> runs (holds m) (get k) (Err missing) (holds m)"
    and commit_ok: "good k m \<Longrightarrow> runs (holds m) (commit k v) (Ok ()) (holds (stored k v (unlocked k m)))"
    and good_locked: "good k (locked k m) = good k m"
    and good_stored: "good k (stored k v (unlocked k m)) = good k m"
    and lookup_locked: "lookup k (locked k m) = lookup k m"
    and lookup_stored: "lookup k (stored k v m) = Some (loaded v)"
    and unlocked_locked: "unlocked k (locked k m) = unlocked k m"
begin

lemma with_lock:
  "good k m \<Longrightarrow> \<not> held k m \<Longrightarrow> runs (holds (locked k m)) body r Q \<Longrightarrow>
     runs (holds m) (and_then (lock k) (\<lambda>_. body)) r Q"
  by (rule runs_and_then) (rule lock_free)

lemma with_lock_busy:
  "good k m \<Longrightarrow> held k m \<Longrightarrow> runs (holds m) (and_then (lock k) f) (Err busy) (holds m)"
  by (rule runs_and_then_Err) (rule lock_held)

text \<open>\<open>s.Unlock(ctx, key); return err\<close> under the lock.\<close>

lemma unlock_then:
  assumes "good k m" and "runs (holds (unlocked k m)) m1 r Q"
  shows "runs (holds (locked k m)) (and_then (discard (unlock k)) (\<lambda>_. m1)) r Q"
proof (rule runs_and_then [OF runs_discard assms(2)])
  show "runs (holds (locked k m)) (unlock k) (Ok ()) (holds (unlocked k m))"
    using unlock_ok [of k "locked k m"] assms(1) by (simp add: good_locked unlocked_locked)
qed

text \<open>The write that releases the lock.\<close>

lemma commit_then:
  assumes "good k m" and "runs (holds (stored k v (unlocked k m))) m1 r Q"
  shows "runs (holds (locked k m)) (and_then (commit k v) (\<lambda>_. m1)) r Q"
proof (rule runs_and_then [OF _ assms(2)])
  show "runs (holds (locked k m)) (commit k v) (Ok ()) (holds (stored k v (unlocked k m)))"
    using commit_ok [of k "locked k m"] assms(1) by (simp add: good_locked unlocked_locked)
qed

lemma commit_last:
  "good k m \<Longrightarrow> runs (holds (locked k m)) (commit k v) (Ok ()) (holds (stored k v (unlocked k m)))"
  using commit_ok [of k "locked k m"] by (simp add: good_locked unlocked_locked)

text \<open>What was committed is what is read next.\<close>

lemma get_committed:
  "good k m \<Longrightarrow> runs (holds (stored k v (unlocked k m))) (get k) (Ok (loaded v)) (holds (stored k v (unlocked k m)))"
  by (rule get_hit) (simp_all add: good_stored lookup_stored)

end

text \<open>
  The result of reading a key and decoding what it holds.
\<close>

definition fetched :: "'e \<Rightarrow> ('g \<Rightarrow> 'e + 'x) \<Rightarrow> 'g option \<Rightarrow> 'e + 'x" where
  "fetched missing decode v = (case v of None \<Rightarrow> Inl missing | Some x \<Rightarrow> decode x)"

text \<open>A typed view of the store: a read that decodes.\<close>

locale typed_store = locked_store +
  fixes decode :: "'g \<Rightarrow> 'e + 'x"
    and tget :: "'k \<Rightarrow> ('w, 'e, 'x) comp"
  assumes tget_eq: "tget k = and_then (get k) (\<lambda>x. case decode x of Inl e \<Rightarrow> throw e | Inr y \<Rightarrow> ret y)"
begin

lemma tget_runs:
  assumes "good k m"
  shows "runs (holds m) (tget k)
     (case fetched missing decode (lookup k m) of Inl e \<Rightarrow> Err e | Inr x \<Rightarrow> Ok x) (holds m)"
proof (cases "lookup k m")
  case None
  then show ?thesis
    using runs_and_then_Err [OF get_miss [OF assms None]] by (simp add: fetched_def tget_eq)
next
  case (Some v)
  have "runs (holds m) (case decode v of Inl e \<Rightarrow> throw e | Inr y \<Rightarrow> ret y)
      (case decode v of Inl e \<Rightarrow> Err e | Inr x \<Rightarrow> Ok x) (holds m)"
    by (cases "decode v") (simp_all add: runs_ret runs_throw)
  then show ?thesis
    using runs_and_then [OF get_hit [OF assms Some]] Some by (simp add: fetched_def tget_eq)
qed

lemma tget_ok:
  "good k m \<Longrightarrow> fetched missing decode (lookup k m) = Inr x \<Longrightarrow> runs (holds m) (tget k) (Ok x) (holds m)"
  using tget_runs [of k m] by simp

lemma tget_err:
  "good k m \<Longrightarrow> fetched missing decode (lookup k m) = Inl e \<Longrightarrow> runs (holds m) (tget k) (Err e) (holds m)"
  using tget_runs [of k m] by simp

lemma attempt_tget:
  assumes "good k m"
  shows "runs (holds m) (attempt (tget k)) (Ok (fetched missing decode (lookup k m))) (holds m)"
  using tget_runs [OF assms]
  by (cases "fetched missing decode (lookup k m)") (auto intro: runs_attempt runs_attempt_Err)

text \<open>
  The shape of every read-modify-write operation: lock, read, and go on with what was read.
\<close>

lemma read_modify:
  assumes "good k m" and "\<not> held k m"
    and "runs (holds (locked k m)) (body (fetched missing decode (lookup k m))) r Q"
  shows "runs (holds m) (and_then (lock k) (\<lambda>_. and_then (attempt (tget k)) body)) r Q"
proof (rule with_lock [OF assms(1,2)])
  show "runs (holds (locked k m)) (and_then (attempt (tget k)) body) r Q"
    using attempt_tget [of k "locked k m"] assms(1,3)
    by (intro runs_and_then [where x = "fetched missing decode (lookup k m)"])
      (simp_all add: good_locked lookup_locked)
qed

text \<open>
  The three ends of such an operation: it releases the lock and reports an error, it writes
  the value back, or it panics with the lock held.
\<close>

lemma update_abort:
  assumes "good k m" and "\<not> held k m"
    and "body (fetched missing decode (lookup k m)) = and_then (discard (unlock k)) (\<lambda>_. throw e)"
  shows "runs (holds m) (and_then (lock k) (\<lambda>_. and_then (attempt (tget k)) body)) (Err e) (holds (unlocked k m))"
  by (rule read_modify [OF assms(1,2)]) (unfold assms(3), rule unlock_then [OF assms(1) runs_throw])

lemma update_release:
  assumes "good k m" and "\<not> held k m"
    and "body (fetched missing decode (lookup k m)) = and_then (discard (unlock k)) (\<lambda>_. ret x)"
  shows "runs (holds m) (and_then (lock k) (\<lambda>_. and_then (attempt (tget k)) body)) (Ok x) (holds (unlocked k m))"
  by (rule read_modify [OF assms(1,2)]) (unfold assms(3), rule unlock_then [OF assms(1) runs_ret])

lemma update_commit:
  assumes "good k m" and "\<not> held k m"
    and "body (fetched missing decode (lookup k m)) = and_then (commit k v) (\<lambda>_. ret x)"
  shows "runs (holds m) (and_then (lock k) (\<lambda>_. and_then (attempt (tget k)) body)) (Ok x)
    (holds (stored k v (unlocked k m)))"
  by (rule read_modify [OF assms(1,2)]) (unfold assms(3), rule commit_then [OF assms(1) runs_ret])

lemma update_commit_last:
  assumes "good k m" and "\<not> held k m" and "body (fetched missing decode (lookup k m)) = commit k v"
  shows "runs (holds m) (and_then (lock k) (\<lambda>_. and_then (attempt (tget k)) body)) (Ok ())
    (holds (stored k v (unlocked k m)))"
  by (rule read_modify [OF assms(1,2)]) (unfold assms(3), rule commit_last [OF assms(1)])

lemma update_panic:
  assumes "good k m" and "\<not> held k m" and "body (fetched missing decode (lookup k m)) = panic"
  shows "runs (holds m) (and_then (lock k) (\<lambda>_. and_then (attempt (tget k)) body)) Panic (holds (locked k m))"
  by (rule read_modify [OF assms(1,2)]) (unfold assms(3), rule runs_panic)

lemma update_leak:
  assumes "good k m" and "\<not> held k m" and "body (fetched missing decode (lookup k m)) = ret x"
  shows "runs (holds m) (and_then (lock k) (\<lambda>_. and_then (attempt (tget k)) body)) (Ok x) (holds (locked k m))"
  by (rule read_modify [OF assms(1,2)]) (unfold assms(3), rule runs_ret)

text \<open>A value committed in its encoding is decoded by the next read.\<close>

lemma tget_committed:
  assumes "good k m" and "decode (loaded v) = Inr x"
  shows "runs (holds (stored k v (unlocked k m))) (tget k) (Ok x) (holds (stored k v (unlocked k m)))"
  by (rule tget_ok) (use assms in \<open>simp_all add: good_stored lookup_stored fetched_def\<close>)

end

end
