(* ===== verification/Blocking.thy ===== *)
theory Blocking
  imports Lock_Rules
begin

text \<open>
  The waiting loop of \<open>Get\<close>, \<open>ListPopLeft\<close> and \<open>ListPopRight\<close> with \<open>key.Block\<close>: try
  without blocking, sleep 10 ms while the outcome is one of the errors to wait on, and give
  up when the seconds waited reach a positive timeout.
\<close>

text \<open>\<open>10 * time.Millisecond\<close>\<close>

definition block_sleep :: int64 where
  "block_sleep = 10000000"

text \<open>
  \<open>waited.Seconds() >= float64(key.BlockTimeout)\<close>.  \<open>waited\<close> is a multiple of 10 ms
  below \<open>2^63\<close> ns, so its quotient is at most \<open>9.3e9\<close> and the floating-point sum does
  not round up to the next second: the comparison is the one of the integers.
\<close>

definition seconds_reached :: "int64 \<Rightarrow> int64 \<Rightarrow> bool" where
  "seconds_reached waited timeout \<longleftrightarrow> sint timeout * 1000000000 \<le> sint waited"

partial_function (option) block_poll ::
  "'s etcd \<Rightarrow> go_error list \<Rightarrow> ('s, 'a) handler \<Rightarrow> int64 \<Rightarrow> int64 \<Rightarrow> 's world \<Rightarrow>
     ((go_error, 'a) outcome \<times> 's world) option"
where
  "block_poll E again op timeout waited w =
     (case op w of (r, w1) \<Rightarrow>
        if list_ex (\<lambda>e. r = Err e) again then
          let w2 = Sleep E (sint block_sleep) w1; waited' = waited + block_sleep in
            if seconds_reached waited' timeout \<and> 0 < sint timeout then Some (r, w2)
            else block_poll E again op timeout waited' w2
        else Some (r, w1))"

lemma block_poll_step:
  "op w = (r, w1) \<Longrightarrow> \<forall>e\<in>set again. r \<noteq> Err e \<Longrightarrow> block_poll E again op timeout waited w = Some (r, w1)"
  "op w = (Err e, w1) \<Longrightarrow> e \<in> set again \<Longrightarrow>
     block_poll E again op timeout waited w =
       (if seconds_reached (waited + block_sleep) timeout \<and> 0 < sint timeout
        then Some (Err e, Sleep E (sint block_sleep) w1)
        else block_poll E again op timeout (waited + block_sleep) (Sleep E (sint block_sleep) w1))"
  by (subst block_poll.simps, simp add: Let_def list_ex_iff)+

lemma sint_block_sleep [simp]: "sint block_sleep = 10000000"
  by (simp add: block_sleep_def)

text \<open>Below the timeout, and with a timeout in the range of a duration, the time waited adds up.\<close>

lemma waited_step:
  assumes "sint timeout \<le> 9223372036" and "0 \<le> sint waited" and "sint waited < sint timeout * 1000000000"
  shows "sint (waited + block_sleep) = sint waited + 10000000"
  using assms by (subst sint64_add) auto

text \<open>
  With a positive timeout below the range of a duration the loop ends, whatever etcd and
  the other clients do.
\<close>

lemma block_poll_terminates:
  assumes "0 < sint timeout" and "sint timeout \<le> 9223372036"
    and "0 \<le> sint waited" and "sint waited < sint timeout * 1000000000"
  shows "block_poll E again op timeout waited w \<noteq> None"
  using assms(3,4)
proof (induction "nat (sint timeout * 1000000000 - sint waited)" arbitrary: w waited rule: less_induct)
  case less
  obtain r w1 where g: "op w = (r, w1)" by fastforce
  note s = waited_step [OF assms(2) less.prems]
  show ?case
  proof (cases "\<exists>e\<in>set again. r = Err e")
    case True
    then obtain e where e: "e \<in> set again" "op w = (Err e, w1)" using g by auto
    show ?thesis
    proof (cases "seconds_reached (waited + block_sleep) timeout")
      case False
      then have "block_poll E again op timeout (waited + block_sleep) (Sleep E (sint block_sleep) w1) \<noteq> None"
        using less.prems by (intro less.hyps) (auto simp: seconds_reached_def s)
      with False show ?thesis using block_poll_step(2) [of op w, OF e(2,1), of E timeout waited] by simp
    qed (use block_poll_step(2) [of op w, OF e(2,1), of E timeout waited] assms(1) in simp)
  qed (use block_poll_step(1) [of op w, OF g] in auto)
qed

text \<open>
  If every attempt ends in an error to wait on, the wait ends with that error, after the
  timeout.
\<close>

lemma block_poll_absent:
  assumes "0 < sint timeout" and "sint timeout \<le> 9223372036" and "e \<in> set again"
    and op: "runs P op (Err e) P" and clk: "\<And>T. keeps (\<lambda>w. T \<le> clock w) op"
    and sleep: "\<And>w. P w \<Longrightarrow> P (Sleep E (sint block_sleep) w)"
    and "P w" and "0 \<le> sint waited" and "sint waited < sint timeout * 1000000000"
  shows "\<exists>w'. block_poll E again op timeout waited w = Some (Err e, w') \<and> P w' \<and>
    clock w + sint timeout * 1000000000 - sint waited \<le> clock w'"
  using assms(7-9)
proof (induction "nat (sint timeout * 1000000000 - sint waited)" arbitrary: w waited rule: less_induct)
  case less
  let ?T = "sint timeout * 1000000000"
  obtain w1 where g: "op w = (Err e, w1)" and w1: "P w1"
    using runsD [OF op less.prems(1)] by auto
  have c: "clock w \<le> clock w1" using keepsD [OF clk [of "clock w"], of w] g by simp
  note s = waited_step [OF assms(2) less.prems(2,3)]
  note w2 = sleep [OF w1]
  note step = block_poll_step(2) [of op w, OF g assms(3), of E timeout waited]
  show ?case
  proof (cases "seconds_reached (waited + block_sleep) timeout")
    case True
    then show ?thesis using step assms(1) w2 c by (auto simp: seconds_reached_def s)
  next
    case False
    then have "\<exists>w'. block_poll E again op timeout (waited + block_sleep) (Sleep E (sint block_sleep) w1) =
        Some (Err e, w') \<and> P w' \<and>
        clock (Sleep E (sint block_sleep) w1) + ?T - sint (waited + block_sleep) \<le> clock w'"
      using less.prems w2 by (intro less.hyps) (auto simp: seconds_reached_def s)
    with False show ?thesis using step c by (auto simp: s)
  qed
qed

section \<open>State invariants through the loops\<close>

lemma keeps_with_now [keep_rules]: "(\<And>now. keeps I (f now)) \<Longrightarrow> keeps I (with_now f)"
  by (rule keepsI) (simp add: with_now_def keepsD)

lemma keeps_txn_poll:
  assumes "keeps I (call E (\<lambda>s. etcd_Txn E s t))" and "\<And>w. I w \<Longrightarrow> I (Sleep E delay w)"
  shows "keeps I (looping (txn_poll E t once late))"
proof (rule keeps_looping)
  fix w r w' assume w: "I w" and p: "txn_poll E t once late w = Some (r, w')"
  have "I w \<longrightarrow> (case p of (r, w') \<Rightarrow> I w')" if "txn_poll E t once late w = Some p" for p
  proof (rule txn_poll.raw_induct [where P = "\<lambda>F T once late w p. F = E \<longrightarrow> T = t \<longrightarrow> I w \<longrightarrow>
      (case p of (r, w') \<Rightarrow> I w')", OF _ that, THEN mp, THEN mp, OF _ refl refl])
    fix f F T once late w p
    assume IH: "\<And>F T once late w p. f F T once late w = Some p \<Longrightarrow> F = E \<longrightarrow> T = t \<longrightarrow> I w \<longrightarrow>
        (case p of (r, w') \<Rightarrow> I w')"
      and eq: "(case call F (\<lambda>s. etcd_Txn F s T) w of (r, w1) \<Rightarrow>
        (case r of
           Ok res \<Rightarrow>
             (if \<not> Txn_Succeeded res then Some (Ok (), w1)
              else if once then Some (Err ErrKeyLocked, w1)
              else let w2 = Sleep F delay w1 in
                if late (clock w2) then Some (Err ErrKeyLocked, w2)
                else f F T once late w2)
         | Err e \<Rightarrow> Some (Err e, w1)
         | Panic \<Rightarrow> Some (Panic, w1)
         | Hang \<Rightarrow> Some (Hang, w1))) = Some p"
    show "F = E \<longrightarrow> T = t \<longrightarrow> I w \<longrightarrow> (case p of (r, w') \<Rightarrow> I w')"
    proof (intro impI)
      assume F: "F = E" and T: "T = t" and w: "I w"
      obtain r1 w1 where c: "call E (\<lambda>s. etcd_Txn E s t) w = (r1, w1)" by fastforce
      then have w1: "I w1" using keepsD [OF assms(1) w] by simp
      then have w2: "I (Sleep E delay w1)" by (rule assms(2))
      show "case p of (r, w') \<Rightarrow> I w'"
        using eq IH [of E t once late "Sleep E delay w1" p] w1 w2 unfolding F T c
        by (cases r1) (auto simp: Let_def split: if_splits)
    qed
  qed
  from this [OF p] w show "I w'" by simp
qed

lemma keeps_block_poll:
  assumes "keeps I op" and "\<And>w. I w \<Longrightarrow> I (Sleep E (sint block_sleep) w)"
  shows "keeps I (looping (block_poll E again op timeout waited))"
proof (rule keeps_looping)
  fix w r w' assume w: "I w" and p: "block_poll E again op timeout waited w = Some (r, w')"
  have "I w \<longrightarrow> (case p of (r, w') \<Rightarrow> I w')" if "block_poll E again op timeout waited w = Some p" for p
  proof (rule block_poll.raw_induct [where P = "\<lambda>F ag f timeout waited w p. F = E \<longrightarrow> f = op \<longrightarrow> I w \<longrightarrow>
      (case p of (r, w') \<Rightarrow> I w')", OF _ that, THEN mp, THEN mp, OF _ refl refl])
    fix bp F ag f timeout waited w p
    assume IH: "\<And>F ag f timeout waited w p. bp F ag f timeout waited w = Some p \<Longrightarrow>
        F = E \<longrightarrow> f = op \<longrightarrow> I w \<longrightarrow> (case p of (r, w') \<Rightarrow> I w')"
      and eq: "(case f w of (r, w1) \<Rightarrow>
        if list_ex (\<lambda>e. r = Err e) ag then
          let w2 = Sleep F (sint block_sleep) w1; waited' = waited + block_sleep in
            if seconds_reached waited' timeout \<and> 0 < sint timeout then Some (r, w2)
            else bp F ag f timeout waited' w2
        else Some (r, w1)) = Some p"
    show "F = E \<longrightarrow> f = op \<longrightarrow> I w \<longrightarrow> (case p of (r, w') \<Rightarrow> I w')"
    proof (intro impI)
      assume F: "F = E" and f: "f = op" and w: "I w"
      obtain r1 w1 where c: "op w = (r1, w1)" by fastforce
      then have w1: "I w1" using keepsD [OF assms(1) w] by simp
      then have w2: "I (Sleep E (sint block_sleep) w1)" by (rule assms(2))
      show "case p of (r, w') \<Rightarrow> I w'"
        using eq IH [of E ag op timeout "waited + block_sleep" "Sleep E (sint block_sleep) w1" p] w1 w2
        unfolding F f c by (auto simp: Let_def split: if_splits)
    qed
  qed
  from this [OF p] w show "I w'" by simp
qed

lemma keeps_clock_call [keep_rules]: "keeps (\<lambda>w. T \<le> clock w) (call E op)"
  by (rule keepsI) (simp add: call_clock)

lemma keeps_clock_poll [keep_rules]: "keeps (\<lambda>w. T \<le> clock w) (looping (txn_poll E t once late))"
  by (rule keeps_txn_poll) (auto intro: keep_rules simp: delay_def)

end
