(* ===== verification/Server_Bytes.thy ===== *)
theory Server_Bytes
  imports Server_Keys Store_Interface Blocking
begin

text \<open>
  Byte values (\<open>mydis/type_bytes.go\<close>), and the interpretation of the lock-and-store
  contract on the server's own operations.
\<close>

section \<open>Reading a key\<close>

text \<open>
  The body of \<open>Get\<close>, with the waiting branch as an argument.  A key that was counted but
  not returned would be an index out of range.
\<close>

definition Get_with :: "'s etcd \<Rightarrow> ('s, pb_ByteValue) handler \<Rightarrow> pb_Key \<Rightarrow> ('s, pb_ByteValue) handler" where
  "Get_with E blocked key =
     and_then (attempt (call E (\<lambda>s. etcd_Range E s (getRangeRequestFromKey key))))
       (\<lambda>r. case r of
          Inl err \<Rightarrow> if Error err = Error ErrKeyNotFound then throw ErrKeyNotFound else throw err
        | Inr res \<Rightarrow>
            if Range_Kvs res = None \<and> Key_Block key then blocked
            else if 0 < sint (Range_Count res) then
              (case Range_Kvs res of
                 Some (kv # _) \<Rightarrow> ret (newByteValue (KV_Value kv))
               | _ \<Rightarrow> panic)
            else throw ErrKeyNotFound)"

text \<open>The recursive call of the waiting loop is with \<open>key.Block = false\<close>: it never waits itself.\<close>

definition Get_once :: "'s etcd \<Rightarrow> pb_Key \<Rightarrow> ('s, pb_ByteValue) handler" where
  "Get_once E key = Get_with E panic (key\<lparr>Key_Block := False\<rparr>)"

definition Get :: "'s etcd \<Rightarrow> pb_Key \<Rightarrow> ('s, pb_ByteValue) handler" where
  "Get E key = Get_with E 
     (looping (block_poll E [ErrKeyNotFound] (Get_once E key) (Key_BlockTimeout key) 0)) key"

definition Length :: "'s etcd \<Rightarrow> pb_Key \<Rightarrow> ('s, pb_IntValue) handler" where
  "Length E key = and_then (Get E key)
     (\<lambda>bv. ret \<lparr>IntValue_Key = [], IntValue_Value = len64 (ByteValue_Value bv)\<rparr>)"

section \<open>Reading many keys\<close>

text \<open>\<open>for i, op := range res.Responses\<close>; \<open>None\<close> is a panic.\<close>

fun getMany_loop :: "string list \<Rightarrow> ResponseOp list \<Rightarrow> bytes gomap \<Rightarrow> bytes gomap option" where
  "getMany_loop keys [] h = Some h"
| "getMany_loop (key # keys) (ResponseRange res # ops) h =
     (case Range_Kvs res of
        Some (kv # _) \<Rightarrow>
          (case map_put key (KV_Value kv) h of None \<Rightarrow> None | Some h' \<Rightarrow> getMany_loop keys ops h')
      | _ \<Rightarrow> getMany_loop keys ops h)"
| "getMany_loop _ _ h = None"

definition GetMany :: "'s etcd \<Rightarrow> pb_KeysList \<Rightarrow> ('s, pb_Hash) handler" where
  "GetMany E keys =
     (if keys = [] then ret (newHash None)
      else and_then (call E (\<lambda>s. etcd_Txn E s
          \<lparr>Txn_Compare = [always_fails], Txn_Success = [],
           Txn_Failure = map (\<lambda>key. RequestRange \<lparr>Range_Key = StringToBytes key, Range_RangeEnd = [],
             Range_Limit = 0, Range_Revision = 0, Range_KeysOnly = False\<rparr>) keys\<rparr>))
        (\<lambda>res. case getMany_loop keys (Txn_Responses res) (Some []) of
           None \<Rightarrow> panic
         | Some h \<Rightarrow> ret (newHash h)))"

definition GetWithPrefix :: "'s etcd \<Rightarrow> pb_Key \<Rightarrow> ('s, pb_Hash) handler" where
  "GetWithPrefix E key =
     and_then (call E (\<lambda>s. etcd_Range E s ((getRangeRequestFromKey key)\<lparr>Range_RangeEnd := getPrefix (Key_Key key)\<rparr>)))
       (\<lambda>res. case put_all map_put
            (map (\<lambda>kv. (BytesToString (KV_Key kv), KV_Value kv)) (case_option [] (\<lambda>x. x) (Range_Kvs res))) (Some []) of
          None \<Rightarrow> panic
        | Some h \<Rightarrow> ret (newHash h))"

section \<open>Writing\<close>

definition Set :: "'s etcd \<Rightarrow> go_context \<Rightarrow> pb_ByteValue \<Rightarrow> ('s, pb_Null) handler" where
  "Set E ctx val =
     (if invalid_key (ByteValue_Key val) then throw ErrInvalidKey
      else with_now (\<lambda>now.
        let maxWait = now + seconds (getMaxWait ctx)
        in looping (txn_poll E
             (if_unlocked (ByteValue_Key val)
                [RequestPut \<lparr>Put_Key = StringToBytes (ByteValue_Key val), Put_Value = ByteValue_Value val,
                             Put_Lease = 0\<rparr>])
             False (\<lambda>t. maxWait < t))))"

definition SetNX :: "'s etcd \<Rightarrow> go_context \<Rightarrow> pb_ByteValue \<Rightarrow> ('s, pb_Bool) handler" where
  "SetNX E ctx val =
     (let key = newKey (ByteValue_Key val) in
      and_then (Lock E ctx key) (\<lambda>_.
      and_then (Has E key) (\<lambda>b.
      if b then ret False
      else and_then (UnlockThenSet E val) (\<lambda>_. ret True))))"

primrec setMany_loop :: "'s etcd \<Rightarrow> go_context \<Rightarrow> (string \<times> bytes) list \<Rightarrow> pb_ErrorHash \<Rightarrow> ('s, pb_ErrorHash) handler" where
  "setMany_loop E ctx [] errors = ret errors"
| "setMany_loop E ctx (x # xs) errors =
     and_then (attempt (Set E ctx \<lparr>ByteValue_Key = fst x, ByteValue_Value = snd x\<rparr>))
       (\<lambda>r. case r of
          Inl err \<Rightarrow> (case map_put (fst x) (Error err) errors of
              None \<Rightarrow> panic | Some errors' \<Rightarrow> setMany_loop E ctx xs errors')
        | Inr _ \<Rightarrow> setMany_loop E ctx xs errors)"

definition SetMany :: "'s etcd \<Rightarrow> go_context \<Rightarrow> pb_Hash \<Rightarrow> ('s, pb_ErrorHash) handler" where
  "SetMany E ctx h = setMany_loop E ctx (map_entries (Hash_Value h)) (Some [])"

section \<open>What they do on an undisturbed store\<close>

lemma Get_with_runs:
  assumes "StringToBytes (Key_Key key) \<in> K" and "sint (Key_Revision key) \<le> 0"
    and "Key_Block key \<Longrightarrow> m (StringToBytes (Key_Key key)) \<noteq> None"
  shows "runs (stores E kv K m) (Get_with E blocked key)
    (case m (StringToBytes (Key_Key key)) of None \<Rightarrow> Err ErrKeyNotFound | Some v \<Rightarrow> Ok (newByteValue v))
    (stores E kv K m)"
proof (rule runsI)
  fix w assume w: "stores E kv K m w"
  let ?q = "getRangeRequestFromKey key" and ?k = "StringToBytes (Key_Key key)"
  obtain x w1 where c: "call E (\<lambda>s. etcd_Range E s ?q) w = (Ok x, w1)" and w1: "stores E kv K m w1"
      and v: "case m ?k of None \<Rightarrow> Range_Kvs x = None \<and> \<not> 0 < sint (Range_Count x)
      | Some v \<Rightarrow> Range_Kvs x = Some [\<lparr>KV_Key = ?k, KV_Value = v\<rparr>] \<and> 0 < sint (Range_Count x)"
    using range_single_call [OF w, of ?q] assms(1) getRangeRequest_revision [OF assms(2)]
    by (simp only: getRangeRequest_simps simp_thms if_False) blast
  have "Get_with E blocked key w =
      (case m ?k of None \<Rightarrow> Err ErrKeyNotFound | Some v \<Rightarrow> Ok (newByteValue v), w1)"
    using v assms(3)
    by (cases "m ?k") (auto simp: Get_with_def and_then_def attempt_def ret_def throw_def c)
  with w1 show "\<exists>w'. Get_with E blocked key w =
      (case m ?k of None \<Rightarrow> Err ErrKeyNotFound | Some v \<Rightarrow> Ok (newByteValue v), w') \<and> stores E kv K m w'"
    by blast
qed

lemma Get_runs:
  assumes "StringToBytes (Key_Key key) \<in> K" and "sint (Key_Revision key) \<le> 0"
    and "Key_Block key \<Longrightarrow> m (StringToBytes (Key_Key key)) \<noteq> None"
  shows "runs (stores E kv K m) (Get E key)
    (case m (StringToBytes (Key_Key key)) of None \<Rightarrow> Err ErrKeyNotFound | Some v \<Rightarrow> Ok (newByteValue v))
    (stores E kv K m)"
  unfolding Get_def using assms by (rule Get_with_runs)

lemma Set_free:
  assumes "\<not> invalid_key (ByteValue_Key val)" and "getLockName (ByteValue_Key val) \<in> K"
    and "m (getLockName (ByteValue_Key val)) \<noteq> Some ZeroByte"
  shows "runs (stores E kv K m) (Set E ctx val) (Ok ())
    (stores E kv K (m(StringToBytes (ByteValue_Key val) \<mapsto> ByteValue_Value val)))"
  unfolding Set_def Let_def if_not_P [OF assms(1)]
  by (rule runs_with_now, rule runs_weaken, rule poll_free) (use assms in auto)

lemma Set_held:
  assumes "\<not> invalid_key (ByteValue_Key val)" and "getLockName (ByteValue_Key val) \<in> K"
    and "m (getLockName (ByteValue_Key val)) = Some ZeroByte"
  shows "runs (stores E kv K m) (Set E ctx val) (Err ErrKeyLocked) (stores E kv K m)"
  unfolding Set_def Let_def if_not_P [OF assms(1)]
  by (rule runs_with_now, rule poll_held) (use assms in auto)

lemma Set_invalid: "invalid_key (ByteValue_Key val) \<Longrightarrow> runs P (Set E ctx val) (Err ErrInvalidKey) P"
  by (simp add: Set_def runs_throw)

text \<open>
  \<open>SetMany\<close> sets every field of its map, and reports the keys that are locked or invalid.
\<close>

definition set_error :: "(bytes \<rightharpoonup> bytes) \<Rightarrow> string \<Rightarrow> string option" where
  "set_error m key =
     (if invalid_key key then Some (Error ErrInvalidKey)
      else if m (getLockName key) = Some ZeroByte then Some (Error ErrKeyLocked) else None)"

definition set_field :: "(string \<times> bytes) \<Rightarrow> (bytes \<rightharpoonup> bytes) \<Rightarrow> (bytes \<rightharpoonup> bytes)" where
  "set_field x m = (case set_error m (fst x) of None \<Rightarrow> m(StringToBytes (fst x) \<mapsto> snd x) | Some _ \<Rightarrow> m)"

lemma setMany_loop_runs:
  assumes "map_wf es" and "es \<noteq> None"
    and "\<And>x. x \<in> set xs \<Longrightarrow> getLockName (fst x) \<in> K"
    and "\<And>x y. x \<in> set xs \<Longrightarrow> y \<in> set xs \<Longrightarrow> StringToBytes (fst x) \<noteq> getLockName (fst y)"
  shows "\<exists>es'. runs (stores E kv K m) (setMany_loop E ctx xs es) (Ok es') (stores E kv K (fold set_field xs m)) \<and>
    map_wf es' \<and> (\<forall>k. map_get es' k =
      (if k \<in> fst ` set xs \<and> set_error m k \<noteq> None then set_error m k else map_get es k))"
  using assms
proof (induction xs arbitrary: m es)
  case Nil
  then show ?case by (auto intro: runs_ret)
next
  case (Cons x xs)
  let ?val = "\<lparr>ByteValue_Key = fst x, ByteValue_Value = snd x\<rparr>"
  have err: "set_error (set_field x m) k = set_error m k" if "k \<in> fst ` set (x # xs)" for k
  proof -
    obtain y where "y \<in> set (x # xs)" and "k = fst y" using \<open>k \<in> fst ` set (x # xs)\<close> by (rule imageE) simp
    then show ?thesis
      using Cons.prems(4) [OF list.set_intros(1), of y] by (auto simp: set_error_def set_field_def split: option.splits)
  qed
  have K: "getLockName (fst x) \<in> K" using Cons.prems(3) by simp
  have set_ok: "runs (stores E kv K m) (attempt (Set E ctx ?val))
      (Ok (case set_error m (fst x) of None \<Rightarrow> Inr () | Some _ \<Rightarrow> Inl (if invalid_key (fst x) then ErrInvalidKey else ErrKeyLocked)))
      (stores E kv K (set_field x m))"
    using runs_attempt [OF Set_free [of ?val K m E kv ctx]] runs_attempt_Err [OF Set_held [of ?val K m E kv ctx]]
      runs_attempt_Err [OF Set_invalid [of ?val "stores E kv K m" E ctx]] K
    by (auto simp: set_error_def set_field_def)
  show ?case
  proof (cases "set_error m (fst x)")
    case None
    obtain es' where es': "runs (stores E kv K (set_field x m)) (setMany_loop E ctx xs es) (Ok es')
          (stores E kv K (fold set_field xs (set_field x m)))" "map_wf es'"
        "\<forall>k. map_get es' k = (if k \<in> fst ` set xs \<and> set_error (set_field x m) k \<noteq> None
          then set_error (set_field x m) k else map_get es k)"
      using Cons.IH [of es "set_field x m"] Cons.prems by auto
    have "runs (stores E kv K m) (setMany_loop E ctx (x # xs) es) (Ok es') (stores E kv K (fold set_field (x # xs) m))"
      using runs_and_then [OF set_ok, of _ "Ok es'"] es'(1) None by simp
    moreover have "map_get es' k = (if k \<in> fst ` set (x # xs) \<and> set_error m k \<noteq> None then set_error m k else map_get es k)" for k
      using es'(3) err [of k] None by (cases "k \<in> fst ` set xs"; cases "k = fst x") simp_all
    ultimately show ?thesis using es'(2) by blast
  next
    case (Some e)
    then have e: "Error (if invalid_key (fst x) then ErrInvalidKey else ErrKeyLocked) = e"
      by (auto simp: set_error_def split: if_splits)
    obtain es1 where es1: "map_put (fst x) e es = Some es1"
      using fields.put_writable [OF Cons.prems(2)] by blast
    have wf1: "map_wf es1" "es1 \<noteq> None" using fields.put_wf [OF Cons.prems(1) es1] by auto
    obtain es' where es': "runs (stores E kv K (set_field x m)) (setMany_loop E ctx xs es1) (Ok es')
          (stores E kv K (fold set_field xs (set_field x m)))" "map_wf es'"
        "\<forall>k. map_get es' k = (if k \<in> fst ` set xs \<and> set_error (set_field x m) k \<noteq> None
          then set_error (set_field x m) k else map_get es1 k)"
      using Cons.IH [of es1 "set_field x m"] Cons.prems wf1 by auto
    have "runs (stores E kv K m) (setMany_loop E ctx (x # xs) es) (Ok es') (stores E kv K (fold set_field (x # xs) m))"
      using runs_and_then [OF set_ok, of _ "Ok es'"] es'(1) Some es1 e by (simp add: option.case_eq_if)
    moreover have "map_get es' k = (if k \<in> fst ` set (x # xs) \<and> set_error m k \<noteq> None then set_error m k else map_get es k)" for k
      using es'(3) err [of k] Some fields.put_get [OF es1] by (cases "k \<in> fst ` set xs"; cases "k = fst x") simp_all
    ultimately show ?thesis using es'(2) by blast
  qed
qed

lemma set_field_at:
  "set_field x m b = (if StringToBytes (fst x) = b \<and> set_error m (fst x) = None then Some (snd x) else m b)"
  by (simp add: set_field_def split: option.splits)

lemma fold_set_field:
  assumes "distinct (map fst xs)"
    and "\<And>k k'. k \<in> fst ` set xs \<Longrightarrow> k' \<in> fst ` set xs \<Longrightarrow> StringToBytes k \<noteq> getLockName k'"
  shows "fold set_field xs m b =
    (case map_of xs (BytesToString b) of
       Some v \<Rightarrow> if set_error m (BytesToString b) = None then Some v else m b
     | None \<Rightarrow> m b)"
  using assms
proof (induction xs arbitrary: m)
  case (Cons x xs)
  have b: "StringToBytes (fst x) = b \<longleftrightarrow> BytesToString b = fst x"
    by (metis BytesToString_StringToBytes StringToBytes_BytesToString)
  have err: "set_error (set_field x m) k = set_error m k" if "k \<in> fst ` set xs" for k
    using Cons.prems(2) [of "fst x" k] that by (auto simp: set_error_def set_field_def split: option.splits)
  have IH: "fold set_field xs (set_field x m) b =
    (case map_of xs (BytesToString b) of
       Some v \<Rightarrow> if set_error (set_field x m) (BytesToString b) = None then Some v else set_field x m b
     | None \<Rightarrow> set_field x m b)"
    using Cons by simp
  show ?case
  proof (cases "map_of xs (BytesToString b)")
    case None
    have "set_field x m b = (if BytesToString b = fst x \<and> set_error m (fst x) = None then Some (snd x) else m b)"
      by (simp only: set_field_at b)
    then show ?thesis using IH None by (cases "BytesToString b = fst x") simp_all
  next
    case (Some v)
    then have "BytesToString b \<in> fst ` set xs" by (metis map_of_eq_None_iff option.distinct(1))
    moreover from this have "BytesToString b \<noteq> fst x"
      using Cons.prems(1) by (metis distinct.simps(2) list.set_map list.simps(9))
    moreover from this b have "set_field x m b = m b" by (simp add: set_field_at)
    ultimately show ?thesis using IH Some err [of "BytesToString b"] by simp
  qed
qed simp

section \<open>Reading many keys and prefixes\<close>

lemma getMany_loop_answer:
  assumes "\<forall>k\<in>set keys. m0 (StringToBytes k) = m (StringToBytes k)"
    and "ops_answer m0 (map (\<lambda>key. RequestRange \<lparr>Range_Key = StringToBytes key, Range_RangeEnd = [],
             Range_Limit = 0, Range_Revision = 0, Range_KeysOnly = False\<rparr>) keys) ops"
    and "map_wf h" and "h \<noteq> None"
  shows "\<exists>h'. getMany_loop keys ops h = Some h' \<and> map_wf h' \<and> h' \<noteq> None \<and>
    map_get h' = (\<lambda>k. if k \<in> set keys \<and> m (StringToBytes k) \<noteq> None then m (StringToBytes k) else map_get h k)"
  using assms
proof (induction keys arbitrary: ops h)
  case Nil
  then show ?case by simp
next
  case (Cons key keys)
  let ?q = "\<lparr>Range_Key = StringToBytes key, Range_RangeEnd = [], Range_Limit = 0,
      Range_Revision = 0, Range_KeysOnly = False\<rparr>"
  from Cons.prems(2) obtain a rs where ops: "ops = ResponseRange a # rs"
      and a: "range_answer m0 ?q a"
      and rs: "ops_answer m0 (map (\<lambda>key. RequestRange \<lparr>Range_Key = StringToBytes key, Range_RangeEnd = [],
             Range_Limit = 0, Range_Revision = 0, Range_KeysOnly = False\<rparr>) keys) rs"
    by auto
  have IH: "\<exists>h'. getMany_loop keys rs h = Some h' \<and> map_wf h' \<and> h' \<noteq> None \<and>
      map_get h' = (\<lambda>k. if k \<in> set keys \<and> m (StringToBytes k) \<noteq> None then m (StringToBytes k) else map_get h k)"
    if "map_wf h" "h \<noteq> None" for h
    using Cons.IH [OF _ rs that] Cons.prems(1) by simp
  have v: "case m (StringToBytes key) of None \<Rightarrow> Range_Kvs a = None
    | Some v \<Rightarrow> Range_Kvs a = Some [\<lparr>KV_Key = StringToBytes key, KV_Value = v\<rparr>]"
    using range_answer_single [OF a] Cons.prems(1) by (simp split: option.splits)
  show ?case
  proof (cases "m (StringToBytes key)")
    case None
    with v IH [OF Cons.prems(3,4)] show ?thesis by (auto simp: ops fun_eq_iff)
  next
    case (Some x)
    obtain h1 where h1: "map_put key x h = Some h1"
      using fields.put_writable [OF Cons.prems(4)] by blast
    have "map_wf h1" "h1 \<noteq> None" using fields.put_wf [OF Cons.prems(3) h1] by auto
    from IH [OF this] v Some show ?thesis
      by (auto simp: ops h1 fields.put_get [OF h1] fun_eq_iff)
  qed
qed

lemma GetMany_triple:
  assumes "StringToBytes ` set keys \<subseteq> K" and "ZeroByte \<in> K" and "m ZeroByte \<noteq> Some ZeroByte"
  shows "triple (stores E kv K m) (GetMany E keys)
    (\<lambda>r w. \<exists>h. r = Ok (newHash h) \<and> map_wf h \<and>
       map_get h = (\<lambda>k. if k \<in> set keys then m (StringToBytes k) else None) \<and> stores E kv K m w)"
proof (rule tripleI)
  fix w assume w: "stores E kv K m w"
  let ?ops = "map (\<lambda>key. RequestRange \<lparr>Range_Key = StringToBytes key, Range_RangeEnd = [],
             Range_Limit = 0, Range_Revision = 0, Range_KeysOnly = False\<rparr>) keys"
  let ?t = "\<lparr>Txn_Compare = [always_fails], Txn_Success = [], Txn_Failure = ?ops\<rparr>"
  have same: "run_ops ?ops m' = m'" for m'
    by (induction keys arbitrary: m') simp_all
  have cmp: "\<not> compares m ?t" using assms(3) by (simp add: compares_def)
  obtain res w1 m0 where c: "call E (\<lambda>s. etcd_Txn E s ?t) w = (Ok res, w1)"
      and m0: "\<forall>k\<in>K. m0 k = m k" "ops_answer m0 ?ops (Txn_Responses res)" and w1: "stores E kv K m w1"
    using txn_failed [OF w cmp] assms(2) same by auto
  obtain h where h: "getMany_loop keys (Txn_Responses res) (Some []) = Some h" "map_wf h"
      "map_get h = (\<lambda>k. if k \<in> set keys \<and> m (StringToBytes k) \<noteq> None then m (StringToBytes k) else map_get (Some []) k)"
    using getMany_loop_answer [of keys m0 m "Txn_Responses res" "Some []"] m0 assms(1)
    by (auto simp: map_wf_def map_entries_def)
  have get: "map_get h = (\<lambda>k. if k \<in> set keys then m (StringToBytes k) else None)"
    using h(3) by (auto simp: map_get_def map_entries_def)
  show "\<exists>h. fst (GetMany E keys w) = Ok (newHash h) \<and> map_wf h \<and>
       map_get h = (\<lambda>k. if k \<in> set keys then m (StringToBytes k) else None) \<and>
       stores E kv K m (snd (GetMany E keys w))"
  proof (cases "keys = []")
    case True
    then show ?thesis using w
      by (auto simp: GetMany_def ret_def map_wf_def map_entries_def map_get_def intro!: exI [where x = None])
  next
    case False
    then show ?thesis using h(1,2) get w1 by (auto simp: GetMany_def and_then_def ret_def c)
  qed
qed

lemma range_answer_map:
  assumes "range_answer m q r" and "Range_Limit q = 0" and "\<not> Range_KeysOnly q"
  shows "map_of (rev (map (\<lambda>kv. (BytesToString (KV_Key kv), KV_Value kv)) (case_option [] (\<lambda>x. x) (Range_Kvs r)))) k =
    (if in_range (Range_Key q) (Range_RangeEnd q) (StringToBytes k) then m (StringToBytes k) else None)"
proof -
  let ?kvs = "case_option [] (\<lambda>x. x) (Range_Kvs r)" and ?hit = "in_range (Range_Key q) (Range_RangeEnd q)"
  let ?es = "map (\<lambda>kv. (BytesToString (KV_Key kv), KV_Value kv)) ?kvs"
  have d: "distinct (map KV_Key ?kvs)"
    and sound: "\<forall>e\<in>set ?kvs. ?hit (KV_Key e) \<and> (\<exists>v. m (KV_Key e) = Some v \<and> KV_Value e = (if Range_KeysOnly q then [] else v))"
    and complete: "\<forall>k v. ?hit k \<and> m k = Some v \<longrightarrow> k \<in> KV_Key ` set ?kvs"
    using assms unfolding range_answer_def Let_def by blast+
  have "map fst ?es = map BytesToString (map KV_Key ?kvs)" by simp
  moreover have "distinct (map BytesToString (map KV_Key ?kvs))"
    by (intro distinct_map [THEN iffD2] conjI d inj_onI) simp
  ultimately have "distinct (map fst ?es)" by (simp only:)
  then have "distinct (map fst (rev ?es))" unfolding rev_map [symmetric] distinct_rev .
  then have iff: "map_of (rev ?es) k = Some v \<longleftrightarrow> (k, v) \<in> set ?es" for v
    by (rule map_of_eq_Some_iff [of "rev ?es" k v, unfolded set_rev])
  show ?thesis
  proof (cases "map_of (rev ?es) k")
    case (Some v)
    then have "(k, v) \<in> (\<lambda>kv. (BytesToString (KV_Key kv), KV_Value kv)) ` set ?kvs"
      unfolding iff set_map .
    then obtain e where e: "e \<in> set ?kvs" and "(k, v) = (BytesToString (KV_Key e), KV_Value e)"
      by (rule imageE)
    then have kv: "StringToBytes k = KV_Key e" "v = KV_Value e" by simp_all
    from bspec [OF sound e] assms(3) show ?thesis unfolding Some kv by auto
  next
    case None
    have "\<not> (?hit (StringToBytes k) \<and> m (StringToBytes k) = Some v)" for v
    proof
      assume "?hit (StringToBytes k) \<and> m (StringToBytes k) = Some v"
      then obtain e where "e \<in> set ?kvs" "StringToBytes k = KV_Key e" using complete by blast
      then have "(BytesToString (KV_Key e), KV_Value e) \<in> set ?es" and "k = BytesToString (KV_Key e)"
        unfolding set_map by (blast, metis BytesToString_StringToBytes)
      then show False using iff [of "KV_Value e"] None by (simp only: option.distinct simp_thms)
    qed
    then show ?thesis using None by (cases "m (StringToBytes k)") auto
  qed
qed

lemma GetWithPrefix_triple:
  assumes "sint (Key_Revision key) \<le> 0" and "sint (Key_Limit key) \<le> 0"
  shows "triple (stores E kv UNIV m) (GetWithPrefix E key)
    (\<lambda>r w. \<exists>h. r = Ok (newHash h) \<and> map_wf h \<and>
       map_get h = (\<lambda>k. if prefix (Key_Key key) k then m (StringToBytes k) else None) \<and> stores E kv UNIV m w)"
proof (rule tripleI)
  fix w assume w: "stores E kv UNIV m w"
  let ?q = "(getRangeRequestFromKey key)\<lparr>Range_RangeEnd := getPrefix (Key_Key key)\<rparr>"
  have rev0: "Range_Revision ?q = 0" "Range_Limit ?q = 0" "\<not> Range_KeysOnly ?q"
    using getRangeRequest_revision [OF assms(1)] getRangeRequest_limit [OF assms(2)] by simp_all
  obtain x w1 where c: "call E (\<lambda>s. etcd_Range E s ?q) w = (Ok x, w1)"
      and a: "range_answer m ?q x" and w1: "stores E kv UNIV m w1"
    using tripleD [OF range_all_triple [OF rev0(1)] w] by (metis prod.collapse)
  let ?es = "map (\<lambda>kv. (BytesToString (KV_Key kv), KV_Value kv)) (case_option [] (\<lambda>x. x) (Range_Kvs x))"
  have pre: "prefix (StringToBytes p) (StringToBytes k) \<longleftrightarrow> prefix p k" for p k
    by (metis BytesToString_StringToBytes StringToBytes_append StringToBytes_BytesToString prefix_def)
  obtain h where h: "put_all map_put ?es (Some []) = Some h" "map_wf h"
      and get: "map_get h = map_get (Some []) ++ map_of (rev ?es)"
    using fields.put_all_writable [of "Some []" ?es] by (auto simp: map_wf_def map_entries_def)
  have "map_get h = (\<lambda>k. if prefix (Key_Key key) k then m (StringToBytes k) else None)"
    using range_answer_map [OF a rev0(2,3)] unfolding get
    by (auto simp: fun_eq_iff map_add_def map_get_def map_entries_def in_prefix_range pre split: option.splits)
  then show "\<exists>h. fst (GetWithPrefix E key w) = Ok (newHash h) \<and> map_wf h \<and>
       map_get h = (\<lambda>k. if prefix (Key_Key key) k then m (StringToBytes k) else None) \<and>
       stores E kv UNIV m (snd (GetWithPrefix E key w))"
    using h w1 by (intro exI [where x = h]) (simp add: GetWithPrefix_def and_then_def ret_def c)
qed

section \<open>A read that waits\<close>

lemma Get_once_runs:
  assumes "StringToBytes (Key_Key key) \<in> K" and "sint (Key_Revision key) \<le> 0"
  shows "runs (stores E kv K m) (Get_once E key)
    (case m (StringToBytes (Key_Key key)) of None \<Rightarrow> Err ErrKeyNotFound | Some v \<Rightarrow> Ok (newByteValue v))
    (stores E kv K m)"
  using Get_with_runs [of "key\<lparr>Key_Block := False\<rparr>" K m E kv panic] assms by (simp add: Get_once_def)

lemma keeps_Get_with:
  "keeps I (call E (\<lambda>s. etcd_Range E s (getRangeRequestFromKey key))) \<Longrightarrow> keeps I blocked \<Longrightarrow> keeps I (Get_with E blocked key)"
  unfolding Get_with_def by (intro keep_rules)

lemma keeps_clock_Get_once: "keeps (\<lambda>w. T \<le> clock w) (Get_once E key)"
  unfolding Get_once_def by (intro keeps_Get_with keep_rules)

text \<open>If the value never comes, the read reports that the key does not exist.\<close>

lemma Get_blocks:
  assumes "Key_Block key" and "0 < sint (Key_BlockTimeout key)" and "sint (Key_BlockTimeout key) \<le> 9223372036"
    and "StringToBytes (Key_Key key) \<in> K" and "sint (Key_Revision key) \<le> 0"
    and "m (StringToBytes (Key_Key key)) = None" and "stores E kv K m w"
  shows "\<exists>w'. Get E key w = (Err ErrKeyNotFound, w') \<and> stores E kv K m w' \<and>
    clock w + sint (Key_BlockTimeout key) * 1000000000 \<le> clock w'"
proof -
  let ?q = "getRangeRequestFromKey key"
  obtain x w1 where c: "call E (\<lambda>s. etcd_Range E s ?q) w = (Ok x, w1)" and w1: "stores E kv K m w1"
      and v: "case m (StringToBytes (Key_Key key)) of None \<Rightarrow> Range_Kvs x = None \<and> \<not> 0 < sint (Range_Count x)
      | Some v \<Rightarrow> Range_Kvs x = Some [\<lparr>KV_Key = StringToBytes (Key_Key key), KV_Value = v\<rparr>] \<and> 0 < sint (Range_Count x)"
    using range_single_call [OF assms(7), of ?q] assms(4) getRangeRequest_revision [OF assms(5)]
    by (simp only: getRangeRequest_simps simp_thms if_False) blast
  have g: "Get_with E b key w = b w1" for b
    using v assms(1,6) by (simp add: Get_with_def and_then_def attempt_def c)
  have "clock w \<le> clock w1" using call_clock [of E "\<lambda>s. etcd_Range E s ?q" w] c by simp
  moreover obtain w' where "block_poll E [ErrKeyNotFound] (Get_once E key) (Key_BlockTimeout key) 0 w1 =
        Some (Err ErrKeyNotFound, w')" "stores E kv K m w'"
      "clock w1 + sint (Key_BlockTimeout key) * 1000000000 - sint (0::int64) \<le> clock w'"
    using block_poll_absent [OF assms(2,3) _ _ keeps_clock_Get_once stores_Sleep w1,
          where e = ErrKeyNotFound and again = "[ErrKeyNotFound]" and waited = 0]
      Get_once_runs [of key K E kv m] assms by auto
  ultimately show ?thesis by (simp add: Get_def g looping_def)
qed

text \<open>
  Another client writes the key: from some scheduling point on it is there.  A wait without
  timeout returns what the key then holds.
\<close>

lemma Get_once_any:
  assumes "etcd_kv E kv" and "etcd_up E" and "sint (Key_Revision key) \<le> 0"
  shows "fst (Get_once E key w) =
      (case kv (others E (ticks w) (cache w)) (StringToBytes (Key_Key key)) of
         None \<Rightarrow> Err ErrKeyNotFound | Some v \<Rightarrow> Ok (newByteValue v))"
    and "ticks (snd (Get_once E key w)) = Suc (ticks w)"
proof -
  let ?s = "others E (ticks w) (cache w)" and ?k = "key\<lparr>Key_Block := False\<rparr>"
  let ?q = "getRangeRequestFromKey ?k"
  have r0: "Range_Revision ?q = 0" using assms(3) by (intro getRangeRequest_revision) simp
  obtain x where x: "fst (etcd_Range E ?s ?q) = Inr x" using assms(2) unfolding etcd_up_def by blast
  then have op: "etcd_Range E ?s ?q = (Inr x, snd (etcd_Range E ?s ?q))"
    by (cases "etcd_Range E ?s ?q") simp
  note c = call_simps(1) [of "\<lambda>s. etcd_Range E s ?q", OF op]
  note v = range_answer_single [OF etcd_rangeD(2) [OF assms(1) x r0]]
  show "fst (Get_once E key w) = (case kv ?s (StringToBytes (Key_Key key)) of
         None \<Rightarrow> Err ErrKeyNotFound | Some v \<Rightarrow> Ok (newByteValue v))"
    using v by (cases "kv ?s (StringToBytes (Key_Key key))")
      (simp_all add: Get_once_def Get_with_def and_then_def attempt_def ret_def throw_def c)
  show "ticks (snd (Get_once E key w)) = Suc (ticks w)"
    using v by (cases "kv ?s (StringToBytes (Key_Key key))")
      (simp_all add: Get_once_def Get_with_def and_then_def attempt_def ret_def throw_def c)
qed

lemma block_poll_arrives:
  assumes law: "etcd_kv E kv" "etcd_up E" "sint (Key_Revision key) \<le> 0"
    and there: "\<And>n s. N \<le> n \<Longrightarrow> kv (others E n s) (StringToBytes (Key_Key key)) \<noteq> None"
    and never: "sint (Key_BlockTimeout key) \<le> 0"
  shows "\<exists>v w'. block_poll E [ErrKeyNotFound] (Get_once E key) (Key_BlockTimeout key) waited w = Some (Ok (newByteValue v), w')"
proof (induction "N - ticks w" arbitrary: w waited rule: less_induct)
  case less
  let ?v = "kv (others E (ticks w) (cache w)) (StringToBytes (Key_Key key))"
  note g = Get_once_any [OF law, of w]
  obtain w1 where w1: "snd (Get_once E key w) = w1" by simp
  show ?case
  proof (cases ?v)
    case (Some v)
    with g(1) w1 have "Get_once E key w = (Ok (newByteValue v), w1)"
      by (simp add: prod_eq_iff)
    from block_poll_step(1) [of "Get_once E key" w, OF this] show ?thesis by auto
  next
    case None
    with g(1) w1 have "Get_once E key w = (Err ErrKeyNotFound, w1)"
      by (simp add: prod_eq_iff)
    note step = block_poll_step(2) [of "Get_once E key" w, OF this, of "[ErrKeyNotFound]" E "Key_BlockTimeout key" waited]
    have "ticks w < N" using there [of "ticks w" "cache w"] None by (metis not_le)
    moreover have "ticks w1 = Suc (ticks w)" using g(2) w1 by simp
    ultimately have "N - ticks (Sleep E (sint block_sleep) w1) < N - ticks w" by simp
    from less.hyps [OF this] show ?thesis using step never by simp
  qed
qed

section \<open>The contract\<close>

text \<open>
  A key that can be used: a valid name, not a waiting read nor one of a past revision; the
  key, its lock, the lock of that lock and the reserved byte belong to the keys the others
  leave alone; the lock's own lock is free; and the request does not ask to wait forever.
\<close>

definition usable :: "bytes set \<Rightarrow> go_context \<Rightarrow> pb_Key \<Rightarrow> (bytes \<rightharpoonup> bytes) \<Rightarrow> bool" where
  "usable K ctx k m \<longleftrightarrow>
     {StringToBytes (Key_Key k), getLockName (Key_Key k),
      getLockName (BytesToString (getLockName (Key_Key k))), ZeroByte} \<subseteq> K \<and>
     m (getLockName (BytesToString (getLockName (Key_Key k)))) \<noteq> Some ZeroByte \<and>
     m ZeroByte \<noteq> Some ZeroByte \<and> \<not> invalid_key (Key_Key k) \<and> \<not> Key_Block k \<and>
     sint (Key_Revision k) \<le> 0 \<and> 0 \<le> sint (getMaxWait ctx)"

definition key_held :: "pb_Key \<Rightarrow> (bytes \<rightharpoonup> bytes) \<Rightarrow> bool" where
  "key_held k m \<longleftrightarrow> m (getLockName (Key_Key k)) = Some ZeroByte"

definition key_value :: "pb_Key \<Rightarrow> (bytes \<rightharpoonup> bytes) \<Rightarrow> pb_ByteValue option" where
  "key_value k m = map_option newByteValue (m (StringToBytes (Key_Key k)))"

definition key_locked :: "pb_Key \<Rightarrow> (bytes \<rightharpoonup> bytes) \<Rightarrow> (bytes \<rightharpoonup> bytes)" where
  "key_locked k m = m(getLockName (Key_Key k) \<mapsto> ZeroByte)"

definition key_unlocked :: "pb_Key \<Rightarrow> (bytes \<rightharpoonup> bytes) \<Rightarrow> (bytes \<rightharpoonup> bytes)" where
  "key_unlocked k m = m(getLockName (Key_Key k) := None)"

definition key_stored :: "pb_Key \<Rightarrow> bytes \<Rightarrow> (bytes \<rightharpoonup> bytes) \<Rightarrow> (bytes \<rightharpoonup> bytes)" where
  "key_stored k v m = m(StringToBytes (Key_Key k) \<mapsto> v)"

text \<open>\<open>s.UnlockThenSet(ctx, &pb.ByteValue{Key: key.Key, Value: v})\<close>\<close>

definition commit_value :: "'s etcd \<Rightarrow> pb_Key \<Rightarrow> bytes \<Rightarrow> ('s, pb_Null) handler" where
  "commit_value E k v = UnlockThenSet E \<lparr>ByteValue_Key = Key_Key k, ByteValue_Value = v\<rparr>"

lemma usable_neq:
  assumes "usable K ctx k m"
  shows "StringToBytes (Key_Key k) \<noteq> ZeroByte" "Key_Key k \<noteq> []"
  using assms by (auto simp: usable_def invalid_key_def)

lemma lock_of_name [simp]: "BytesToString (getLockName k) \<noteq> k"
  by (metis StringToBytes_BytesToString getLockName_neq_self(2))

lemmas key_defs = key_held_def key_value_def key_locked_def key_unlocked_def key_stored_def

interpretation byte_store: locked_store "stores E kv K" "usable K ctx" key_held key_value key_locked key_unlocked
  key_stored newByteValue "Lock E ctx" "Unlock E ctx" "Get E" "commit_value E" ErrKeyLocked ErrKeyNotFound
  for E :: "'s etcd" and kv K ctx
proof unfold_locales
  fix k m
  assume good: "usable K ctx k m"
  show "\<not> key_held k m \<Longrightarrow> runs (stores E kv K m) (Lock E ctx k) (Ok ()) (stores E kv K (key_locked k m))"
    unfolding key_defs by (rule Lock_free) (use good in \<open>auto simp: usable_def\<close>)
  show "key_held k m \<Longrightarrow> runs (stores E kv K m) (Lock E ctx k) (Err ErrKeyLocked) (stores E kv K m)"
    unfolding key_defs by (rule Lock_held) (use good in \<open>auto simp: usable_def\<close>)
  show "runs (stores E kv K m) (Unlock E ctx k) (Ok ()) (stores E kv K (key_unlocked k m))"
    unfolding key_defs by (rule Unlock_free) (use good in \<open>auto simp: usable_def\<close>)
  note get = Get_runs [of k K m E kv]
  show "runs (stores E kv K m) (Get E k) (Ok x) (stores E kv K m)" if "key_value k m = Some x" for x
    using get good that by (auto simp: usable_def key_value_def)
  show "runs (stores E kv K m) (Get E k) (Err ErrKeyNotFound) (stores E kv K m)" if "key_value k m = None"
    using get good that by (auto simp: usable_def key_value_def)
  show "runs (stores E kv K m) (commit_value E k v) (Ok ()) (stores E kv K (key_stored k v (key_unlocked k m)))" for v
    unfolding key_defs commit_value_def
    by (rule runs_weaken, rule UnlockThenSet_ok) (use good in \<open>auto simp: usable_def\<close>)
next
  fix k m v
  show "usable K ctx k (key_locked k m) = usable K ctx k m"
    by (simp add: usable_def key_locked_def)
  show "usable K ctx k (key_stored k v (key_unlocked k m)) = usable K ctx k m"
    by (auto simp: usable_def key_stored_def key_unlocked_def invalid_key_def)
  show "key_value k (key_locked k m) = key_value k m" by (simp add: key_defs)
  show "key_value k (key_stored k v m) = Some (newByteValue v)" by (simp add: key_defs)
  show "key_unlocked k (key_locked k m) = key_unlocked k m" by (simp add: key_defs)
qed

section \<open>SetNX\<close>

lemma SetNX_absent:
  assumes "usable K ctx (newKey (ByteValue_Key val)) m" and "m (getLockName (ByteValue_Key val)) \<noteq> Some ZeroByte"
    and "m (StringToBytes (ByteValue_Key val)) = None"
  shows "runs (stores E kv K m) (SetNX E ctx val) (Ok True)
    (stores E kv K (m(getLockName (ByteValue_Key val) := None, StringToBytes (ByteValue_Key val) \<mapsto> ByteValue_Value val)))"
proof -
  let ?k = "newKey (ByteValue_Key val)" and ?l = "key_locked (newKey (ByteValue_Key val)) m"
  have has: "runs (stores E kv K ?l) (Has E ?k) (Ok False) (stores E kv K ?l)"
    using Has_runs [of ?k K E kv ?l] assms by (simp add: usable_def key_locked_def)
  have set: "runs (stores E kv K ?l) (UnlockThenSet E val) (Ok ()) (stores E kv K (key_stored ?k (ByteValue_Value val) (key_unlocked ?k m)))"
    using byte_store.commit_last [of K ctx ?k m E kv "ByteValue_Value val"] assms(1)
    by (cases val) (simp add: commit_value_def)
  have "runs (stores E kv K m) (SetNX E ctx val) (Ok True)
    (stores E kv K (key_stored ?k (ByteValue_Value val) (key_unlocked ?k m)))"
    unfolding SetNX_def Let_def
    by (rule byte_store.with_lock [OF assms(1)], use assms(2) in \<open>simp add: key_held_def\<close>,
        rule runs_and_then [OF has], simp, rule runs_and_then [OF set runs_ret])
  then show ?thesis by (simp add: key_defs)
qed

lemma SetNX_present:
  assumes "usable K ctx (newKey (ByteValue_Key val)) m" and "m (getLockName (ByteValue_Key val)) \<noteq> Some ZeroByte"
    and "m (StringToBytes (ByteValue_Key val)) \<noteq> None"
  shows "runs (stores E kv K m) (SetNX E ctx val) (Ok False)
    (stores E kv K (m(getLockName (ByteValue_Key val) \<mapsto> ZeroByte)))"
proof -
  let ?k = "newKey (ByteValue_Key val)" and ?l = "key_locked (newKey (ByteValue_Key val)) m"
  have has: "runs (stores E kv K ?l) (Has E ?k) (Ok True) (stores E kv K ?l)"
    using Has_runs [of ?k K E kv ?l] assms by (simp add: usable_def key_locked_def)
  have "runs (stores E kv K m) (SetNX E ctx val) (Ok False) (stores E kv K ?l)"
    unfolding SetNX_def Let_def
    by (rule byte_store.with_lock [OF assms(1)], use assms(2) in \<open>simp add: key_held_def\<close>,
        rule runs_and_then [OF has]) (simp add: runs_ret)
  then show ?thesis by (simp add: key_defs)
qed

lemma SetNX_held:
  assumes "usable K ctx (newKey (ByteValue_Key val)) m" and "m (getLockName (ByteValue_Key val)) = Some ZeroByte"
  shows "runs (stores E kv K m) (SetNX E ctx val) (Err ErrKeyLocked) (stores E kv K m)"
  unfolding SetNX_def Let_def
  by (rule byte_store.with_lock_busy [OF assms(1)]) (use assms(2) in \<open>simp add: key_held_def\<close>)

section \<open>Typed values\<close>

text \<open>
  What a typed getter makes of the result of \<open>proto.Unmarshal\<close>: one kind of error, told
  by its text, is a type mismatch.
\<close>

definition unmarshalled :: "string + 'a \<Rightarrow> go_error + 'a" where
  "unmarshalled r = (case r of
     Inl msg \<Rightarrow> Inl (if HasPrefix msg ''proto: can't skip unknown wire type'' then ErrTypeMismatch else Other msg)
   | Inr x \<Rightarrow> Inr x)"

text \<open>\<open>if err == util.ErrKeyNotFound { x = dflt }\<close>\<close>

definition if_missing :: "'a \<Rightarrow> go_error + 'a \<Rightarrow> go_error + 'a" where
  "if_missing dflt r = (case r of Inl e \<Rightarrow> if e = ErrKeyNotFound then Inr dflt else Inl e | Inr x \<Rightarrow> Inr x)"

text \<open>\<open>s.Unlock(ctx, key); return nil, err\<close>\<close>

definition unlock_fail :: "'s etcd \<Rightarrow> go_context \<Rightarrow> pb_Key \<Rightarrow> go_error \<Rightarrow> ('s, 'a) handler" where
  "unlock_fail E ctx key err = and_then (discard (Unlock E ctx key)) (\<lambda>_. throw err)"

text \<open>Writing a message back: \<open>b, err := proto.Marshal(v)\<close> and the value, the lock kept on error.\<close>

lemma commit_newKey: "UnlockThenSet E \<lparr>ByteValue_Key = k, ByteValue_Value = v\<rparr> = commit_value E (newKey k) v"
  by (simp add: commit_value_def)

lemma if_missing_simps [simp]:
  "if_missing d (Inl ErrKeyNotFound) = Inr d" "if_missing d (Inr x) = Inr x"
  "e \<noteq> ErrKeyNotFound \<Longrightarrow> if_missing d (Inl e) = Inl e"
  by (simp_all add: if_missing_def)

lemma unmarshalled_Inr [simp]: "unmarshalled (Inr x) = Inr x"
  by (simp add: unmarshalled_def)

text \<open>
  What an update of a key leaves behind: a store in which the key is usable again and not
  locked, and that differs from the old one in the key and its lock only.
\<close>

definition updated :: "bytes set \<Rightarrow> go_context \<Rightarrow> pb_Key \<Rightarrow> (bytes \<rightharpoonup> bytes) \<Rightarrow> (bytes \<rightharpoonup> bytes) \<Rightarrow> bool" where
  "updated K ctx k m m' \<longleftrightarrow> usable K ctx k m' \<and> \<not> key_held k m' \<and>
     (\<forall>x. x \<noteq> StringToBytes (Key_Key k) \<longrightarrow> x \<noteq> getLockName (Key_Key k) \<longrightarrow> m' x = m x)"

lemma updated_stored [intro]:
  assumes "usable K ctx k m"
  shows "updated K ctx k m (key_stored k v (key_unlocked k m))"
  unfolding updated_def
proof (intro conjI allI impI)
  show "usable K ctx k (key_stored k v (key_unlocked k m))"
    using assms byte_store.good_stored by blast
qed (simp_all add: key_defs)

lemma updated_unlocked [intro]: "usable K ctx k m \<Longrightarrow> updated K ctx k m (key_unlocked k m)"
  unfolding updated_def usable_def by (auto simp: key_defs)

end
