(* ===== verification/Server_Lists.thy ===== *)
theory Server_Lists
  imports Server_Bytes
begin

text \<open>
  Lists (\<open>mydis/type_list.go\<close>, and \<open>UnlockThenSetList\<close> of \<open>mydis/type_lock.go\<close>): a list
  is one value of the store, every change of it locks the key, reads, and writes back.
\<close>

section \<open>Slices\<close>

text \<open>\<open>xs[i]\<close>, \<open>xs[i] = v\<close>, \<open>xs[:n]\<close> (with \<open>n\<close> at most the length) and
  \<open>copy(xs[d:], xs[s:])\<close>; \<open>None\<close> is a panic.\<close>

definition slice_at :: "'a list \<Rightarrow> int64 \<Rightarrow> 'a option" where
  "slice_at xs i = (if 0 \<le> sint i \<and> sint i < int (length xs) then Some (xs ! nat (sint i)) else None)"

definition slice_set :: "'a list \<Rightarrow> int64 \<Rightarrow> 'a \<Rightarrow> 'a list option" where
  "slice_set xs i v = (if 0 \<le> sint i \<and> sint i < int (length xs) then Some (xs[nat (sint i) := v]) else None)"

definition slice_to :: "'a list \<Rightarrow> int64 \<Rightarrow> 'a list option" where
  "slice_to xs n = (if 0 \<le> sint n \<and> sint n \<le> int (length xs) then Some (take (nat (sint n)) xs) else None)"

definition slice_copy :: "'a list \<Rightarrow> int64 \<Rightarrow> int64 \<Rightarrow> 'a list option" where
  "slice_copy xs d s = (case slice_from xs d of
     None \<Rightarrow> None
   | Some dst \<Rightarrow> (case slice_from xs s of
        None \<Rightarrow> None
      | Some src \<Rightarrow> let n = min (length dst) (length src) in
          Some (take (length xs - length dst) xs @ take n src @ drop n dst)))"

text \<open>A step that may panic.\<close>

definition or_panic :: "'a option \<Rightarrow> ('a \<Rightarrow> ('s, 'b) handler) \<Rightarrow> ('s, 'b) handler" where
  "or_panic x f = (case x of None \<Rightarrow> panic | Some y \<Rightarrow> f y)"

lemma or_panic_simps [simp]: "or_panic None f = panic" "or_panic (Some x) f = f x"
  by (simp_all add: or_panic_def)

section \<open>Reading\<close>

definition GetList :: "'s etcd \<Rightarrow> codec \<Rightarrow> pb_Key \<Rightarrow> ('s, pb_List) handler" where
  "GetList E C key = and_then (Get E key)
     (\<lambda>res. case unmarshalled (UnmarshalList C (ByteValue_Value res)) of Inl e \<Rightarrow> throw e | Inr lst \<Rightarrow> ret lst)"

text \<open>The two corrections of an index by \<open>GetListItem\<close>.\<close>

definition clamp_index :: "int64 \<Rightarrow> int64 \<Rightarrow> int64" where
  "clamp_index len index =
     (let index = (if sint len < sint (index - 1) then len - 1 else index)
      in if sint index < 0 \<and> sint len < sint (index * - 1 - 1) then 0 else index)"

text \<open>\<open>lst.Value[li.Index]\<close>, or \<open>lst.Value[length+li.Index]\<close> for a negative index.\<close>

definition index_item :: "bytes list \<Rightarrow> int64 \<Rightarrow> bytes option" where
  "index_item xs index = (if 0 \<le> sint index then slice_at xs index else slice_at xs (len64 xs + index))"

definition GetListItem :: "'s etcd \<Rightarrow> codec \<Rightarrow> pb_ListItem \<Rightarrow> ('s, pb_ByteValue) handler" where
  "GetListItem E C li =
     and_then (GetList E C (newKey (ListItem_Key li))) (\<lambda>lst.
       let len = len64 (List_Value lst) in
       if len = 0 then throw ErrListEmpty
       else or_panic (index_item (List_Value lst) (clamp_index len (ListItem_Index li)))
         (\<lambda>b. ret (newByteValue b)))"

definition ListLength :: "'s etcd \<Rightarrow> codec \<Rightarrow> pb_Key \<Rightarrow> ('s, pb_IntValue) handler" where
  "ListLength E C key = and_then (GetList E C key)
     (\<lambda>lst. ret \<lparr>IntValue_Key = [], IntValue_Value = len64 (List_Value lst)\<rparr>)"

text \<open>\<open>for i, b := range xs { if bytes.Equal(b, v) { ... } }\<close>, from position \<open>i\<close>.\<close>

fun find_index :: "bytes \<Rightarrow> nat \<Rightarrow> bytes list \<Rightarrow> int64" where
  "find_index v i [] = - 1"
| "find_index v i (b # bs) = (if b = v then of_nat i else find_index v (Suc i) bs)"

definition ListHas :: "'s etcd \<Rightarrow> codec \<Rightarrow> pb_ListItem \<Rightarrow> ('s, pb_IntValue) handler" where
  "ListHas E C li =
     and_then (attempt (GetList E C (newKey (ListItem_Key li)))) (\<lambda>r. case r of
       Inl err \<Rightarrow> if err = ErrKeyNotFound then ret \<lparr>IntValue_Key = [], IntValue_Value = - 1\<rparr> else throw err
     | Inr lst \<Rightarrow> ret \<lparr>IntValue_Key = [], IntValue_Value = find_index (ListItem_Value li) 0 (List_Value lst)\<rparr>)"

section \<open>Writing\<close>

definition UnlockThenSetList :: "'s etcd \<Rightarrow> codec \<Rightarrow> pb_List \<Rightarrow> ('s, pb_Null) handler" where
  "UnlockThenSetList E C val =
     (let key = List_Key val in
      case MarshalList C (val\<lparr>List_Key := []\<rparr>) of
        Inl msg \<Rightarrow> throw (Other msg)
      | Inr b \<Rightarrow> UnlockThenSet E \<lparr>ByteValue_Key = key, ByteValue_Value = b\<rparr>)"

definition SetList :: "'s etcd \<Rightarrow> codec \<Rightarrow> go_context \<Rightarrow> pb_List \<Rightarrow> ('s, pb_Null) handler" where
  "SetList E C ctx lst =
     (let key = List_Key lst in
      case MarshalList C (lst\<lparr>List_Key := []\<rparr>) of
        Inl msg \<Rightarrow> throw (Other msg)
      | Inr b \<Rightarrow> Set E ctx \<lparr>ByteValue_Key = key, ByteValue_Value = b\<rparr>)"

definition SetListItem :: "'s etcd \<Rightarrow> codec \<Rightarrow> go_context \<Rightarrow> pb_ListItem \<Rightarrow> ('s, pb_Null) handler" where
  "SetListItem E C ctx li =
     (let key = newKey (ListItem_Key li); index = ListItem_Index li in
      and_then (Lock E ctx key) (\<lambda>_.
      and_then (attempt (GetList E C key)) (\<lambda>r.
      case r of
        Inl err \<Rightarrow> unlock_fail E ctx key err
      | Inr lst \<Rightarrow>
          let len = len64 (List_Value lst) in
          if len = 0 then unlock_fail E ctx key ErrListEmpty
          else if sint len < sint (index - 1) then unlock_fail E ctx key ErrListIndexOutOfRange
          else if sint index < 0 \<and> sint len < sint (index * - 1 - 1)
            then unlock_fail E ctx key ErrListIndexOutOfRange
          else or_panic
            (if 0 \<le> sint index then slice_set (List_Value lst) index (ListItem_Value li)
             else slice_set (List_Value lst) (len + index) (ListItem_Value li))
            (\<lambda>v. UnlockThenSetList E C (lst\<lparr>List_Key := ListItem_Key li, List_Value := v\<rparr>)))))"

definition ListLimit :: "'s etcd \<Rightarrow> codec \<Rightarrow> go_context \<Rightarrow> pb_ListItem \<Rightarrow> ('s, pb_Null) handler" where
  "ListLimit E C ctx li =
     (let key = newKey (ListItem_Key li) in
      and_then (Lock E ctx key) (\<lambda>_.
      and_then (attempt (GetList E C key)) (\<lambda>r.
      case r of
        Inl err \<Rightarrow> unlock_fail E ctx key err
      | Inr lst \<Rightarrow>
          let index = (if sint (ListItem_Index li) < 0 then 0 else ListItem_Index li) in
          UnlockThenSetList E C (lst\<lparr>List_Limit := index, List_Key := ListItem_Key li\<rparr>))))"

text \<open>The new items of \<open>ListInsert\<close>; \<open>None\<close> is a panic.\<close>

definition insert_item :: "int64 \<Rightarrow> bytes \<Rightarrow> bytes list \<Rightarrow> bytes list option" where
  "insert_item index v xs =
     (if sint (len64 xs) \<le> sint index then Some (xs @ [v])
      else case slice_copy (xs @ [ZeroByte]) (index + 1) index of
          None \<Rightarrow> None
        | Some ys \<Rightarrow> slice_set ys index v)"

definition ListInsert :: "'s etcd \<Rightarrow> codec \<Rightarrow> go_context \<Rightarrow> pb_ListItem \<Rightarrow> ('s, pb_Null) handler" where
  "ListInsert E C ctx li =
     (let key = newKey (ListItem_Key li) in
      and_then (Lock E ctx key) (\<lambda>_.
      and_then (attempt (GetList E C key)) (\<lambda>r.
      case if_missing (newList []) r of
        Inl err \<Rightarrow> unlock_fail E ctx key err
      | Inr lst \<Rightarrow>
          let index = (if sint (ListItem_Index li) < 0 then 0 else ListItem_Index li) in
          or_panic (insert_item index (ListItem_Value li) (List_Value lst)) (\<lambda>v.
          or_panic (enforceListLimit (lst\<lparr>List_Value := v, List_Key := ListItem_Key li\<rparr>)) (\<lambda>lst.
          UnlockThenSetList E C lst)))))"

definition ListAppend :: "'s etcd \<Rightarrow> codec \<Rightarrow> go_context \<Rightarrow> pb_ListItem \<Rightarrow> ('s, pb_Null) handler" where
  "ListAppend E C ctx li =
     (let key = newKey (ListItem_Key li) in
      and_then (Lock E ctx key) (\<lambda>_.
      and_then (attempt (GetList E C key)) (\<lambda>r.
      case if_missing (newList []) r of
        Inl err \<Rightarrow> unlock_fail E ctx key err
      | Inr lst \<Rightarrow>
          or_panic (enforceListLimit (lst\<lparr>List_Key := ListItem_Key li,
              List_Value := List_Value lst @ [ListItem_Value li]\<rparr>)) (\<lambda>lst.
          UnlockThenSetList E C lst))))"

section \<open>Popping\<close>

text \<open>
  The body of both operations.  \<open>pop\<close> takes the item off the list; \<open>blocked\<close> is what a
  waiting call does once it has released the lock.
\<close>

definition pop_with :: "'s etcd \<Rightarrow> codec \<Rightarrow> go_context \<Rightarrow> (bytes list \<Rightarrow> (bytes \<times> bytes list) option) \<Rightarrow>
    ('s, pb_ByteValue) handler \<Rightarrow> pb_Key \<Rightarrow> ('s, pb_ByteValue) handler" where
  "pop_with E C ctx pop blocked key =
     and_then (Lock E ctx key) (\<lambda>_.
     let block = Key_Block key; key = key\<lparr>Key_Block := False\<rparr> in
     and_then (attempt (GetList E C key)) (\<lambda>r.
     case (if block then if_missing (newList []) r else r) of
       Inl err \<Rightarrow> unlock_fail E ctx key (if err = ErrKeyNotFound then ErrListEmpty else err)
     | Inr lst \<Rightarrow>
         let lst = lst\<lparr>List_Key := Key_Key key\<rparr> in
         if List_Value lst = [] \<and> block then and_then (discard (Unlock E ctx key)) (\<lambda>_. blocked)
         else if List_Value lst = [] then unlock_fail E ctx key ErrListEmpty
         else or_panic (pop (List_Value lst)) (\<lambda>(b, rest).
           and_then (UnlockThenSetList E C (lst\<lparr>List_Value := rest\<rparr>)) (\<lambda>_. ret (newByteValue b)))))"

definition pop_left :: "bytes list \<Rightarrow> (bytes \<times> bytes list) option" where
  "pop_left xs = (case slice_at xs 0 of
     None \<Rightarrow> None
   | Some b \<Rightarrow> (case slice_from xs 1 of None \<Rightarrow> None | Some rest \<Rightarrow> Some (b, rest)))"

definition pop_right :: "bytes list \<Rightarrow> (bytes \<times> bytes list) option" where
  "pop_right xs = (let len = len64 xs in case slice_at xs (len - 1) of
     None \<Rightarrow> None
   | Some b \<Rightarrow> (case slice_to xs (len - 1) of None \<Rightarrow> None | Some rest \<Rightarrow> Some (b, rest)))"

text \<open>The waiting loop calls the operation again with \<open>key.Block\<close> off.\<close>

definition pop_blocking :: "'s etcd \<Rightarrow> codec \<Rightarrow> go_context \<Rightarrow> (bytes list \<Rightarrow> (bytes \<times> bytes list) option) \<Rightarrow>
    pb_Key \<Rightarrow> ('s, pb_ByteValue) handler" where
  "pop_blocking E C ctx pop key = pop_with E C ctx pop
     (looping (block_poll E [ErrKeyNotFound, ErrListEmpty]
        (pop_with E C ctx pop panic (key\<lparr>Key_Block := False\<rparr>)) (Key_BlockTimeout key) 0)) key"

definition ListPopLeft :: "'s etcd \<Rightarrow> codec \<Rightarrow> go_context \<Rightarrow> pb_Key \<Rightarrow> ('s, pb_ByteValue) handler" where
  "ListPopLeft E C ctx key = pop_blocking E C ctx pop_left key"

definition ListPopRight :: "'s etcd \<Rightarrow> codec \<Rightarrow> go_context \<Rightarrow> pb_Key \<Rightarrow> ('s, pb_ByteValue) handler" where
  "ListPopRight E C ctx key = pop_blocking E C ctx pop_right key"

section \<open>Deleting\<close>

text \<open>
  \<open>copy(xs[i:], xs[i+1:]); xs[len(xs)-1] = ZeroByte; xs = xs[:len(xs)-1]\<close>
\<close>

definition delete_item :: "int64 \<Rightarrow> bytes list \<Rightarrow> bytes list option" where
  "delete_item index xs = (case slice_copy xs index (index + 1) of
     None \<Rightarrow> None
   | Some ys \<Rightarrow> (case slice_set ys (len64 ys - 1) ZeroByte of
       None \<Rightarrow> None
     | Some zs \<Rightarrow> slice_to zs (len64 zs - 1)))"

definition ListDelete :: "'s etcd \<Rightarrow> codec \<Rightarrow> go_context \<Rightarrow> pb_ListItem \<Rightarrow> ('s, pb_Null) handler" where
  "ListDelete E C ctx li =
     (let key = newKey (ListItem_Key li); index = ListItem_Index li in
      and_then (Lock E ctx key) (\<lambda>_.
      and_then (attempt (GetList E C key)) (\<lambda>r.
      case r of
        Inl err \<Rightarrow> unlock_fail E ctx key err
      | Inr lst \<Rightarrow>
          let len = len64 (List_Value lst) in
          if len = 0 then unlock_fail E ctx key ErrListEmpty
          else if sint index < 0 then unlock_fail E ctx key ErrListIndexOutOfRange
          else if sint len < sint (index - 1) then unlock_fail E ctx key ErrListIndexOutOfRange
          else or_panic (delete_item index (List_Value lst)) (\<lambda>v.
            UnlockThenSetList E C (lst\<lparr>List_Value := v, List_Key := ListItem_Key li\<rparr>)))))"

definition ListDeleteItem :: "'s etcd \<Rightarrow> codec \<Rightarrow> go_context \<Rightarrow> pb_ListItem \<Rightarrow> ('s, pb_IntValue) handler" where
  "ListDeleteItem E C ctx li =
     (let key = newKey (ListItem_Key li) in
      and_then (Lock E ctx key) (\<lambda>_.
      and_then (attempt (GetList E C key)) (\<lambda>r.
      case r of
        Inl err \<Rightarrow> and_then (discard (Unlock E ctx key)) (\<lambda>_.
            if err = ErrKeyNotFound then ret \<lparr>IntValue_Key = [], IntValue_Value = - 1\<rparr> else throw err)
      | Inr lst \<Rightarrow>
          let found = find_index (ListItem_Value li) 0 (List_Value lst) in
          if found = - 1 then ret \<lparr>IntValue_Key = [], IntValue_Value = - 1\<rparr>
          else or_panic (delete_item found (List_Value lst)) (\<lambda>v.
            and_then (UnlockThenSetList E C (lst\<lparr>List_Value := v, List_Key := ListItem_Key li\<rparr>))
              (\<lambda>_. ret \<lparr>IntValue_Key = [], IntValue_Value = found\<rparr>)))))"

section \<open>What the slice operations compute\<close>

lemma slice_at_nth: "0 \<le> sint i \<Longrightarrow> sint i < int (length xs) \<Longrightarrow> slice_at xs i = Some (xs ! nat (sint i))"
  by (simp add: slice_at_def)

lemma insert_item_eq:
  assumes "go_slice (xs @ [v])" and "0 \<le> sint index"
  shows "insert_item index v xs = Some (take (nat (sint index)) xs @ v # drop (nat (sint index)) xs)"
proof (cases "int (length xs) \<le> sint index")
  case True
  then show ?thesis
    using assms by (simp add: insert_item_def sint_len64 go_slice_def)
next
  case False
  let ?i = "nat (sint index)"
  have s: "sint (index + 1) = sint index + 1"
    using False assms by (subst sint64_add) (auto simp: go_slice_def)
  have i: "?i < length xs" and suc: "nat (sint index + 1) = Suc ?i" using False assms(2) by auto
  obtain a b c where xs: "xs = a @ b # c" and a: "length a = ?i"
    using i by (metis id_take_nth_drop length_take min.absorb4)
  have "slice_copy (xs @ [ZeroByte]) (index + 1) index = Some (a @ b # b # c)"
    using assms(2) False by (simp add: slice_copy_def slice_from_def s suc xs Let_def flip: a)
  then show ?thesis
    using False assms by (simp add: insert_item_def slice_set_def sint_len64 go_slice_def xs flip: a)
qed

lemma delete_item_eq:
  assumes "go_slice xs" and "0 \<le> sint index" and "sint index < int (length xs)"
  shows "delete_item index xs = Some (take (nat (sint index)) xs @ drop (Suc (nat (sint index))) xs)"
proof -
  let ?i = "nat (sint index)"
  have s: "sint (index + 1) = sint index + 1"
    using assms by (subst sint64_add) (auto simp: go_slice_def)
  have i: "?i < length xs" and suc: "nat (sint index + 1) = Suc ?i" using assms by auto
  obtain a b c where xs: "xs = a @ b # c" and a: "length a = ?i"
    using i by (metis id_take_nth_drop length_take min.absorb4)
  have copy: "slice_copy xs index (index + 1) = Some (a @ c @ [last (b # c)])"
    using assms by (cases c rule: rev_cases) (simp_all add: slice_copy_def slice_from_def s suc xs Let_def flip: a)
  have l: "sint (len64 (a @ c @ [d]) - 1) = int (length a + length c)" for d :: bytes
    using assms(1) by (subst sint64_diff) (auto simp: sint_len64 go_slice_def xs)
  have "delete_item index xs = Some (a @ c)"
    unfolding delete_item_def copy
    by (simp add: slice_set_def l slice_to_def list_update_append nat_int_add)
  then show ?thesis by (simp add: xs flip: a)
qed

lemma delete_item_end:
  assumes "go_slice xs" and "sint index = int (length xs)"
  shows "delete_item index xs = None"
proof -
  have "sint (index + 1) = sint index + 1 \<or> sint (index + 1) < 0"
  proof (cases "sint index + 1 < 2 ^ 63")
    case True
    then show ?thesis using assms by (auto simp: sint64_add)
  next
    case False
    then have "sint (index + 1) = sint index + 1 - 2 ^ 64"
      using signed_take_bit_63_high [of "sint index + 1"] sint64_range [of index]
      by (simp add: sint_word_add)
    then show ?thesis using sint64_range(2) [of index] by simp
  qed
  then show ?thesis
    using assms by (auto simp: delete_item_def slice_copy_def slice_from_def split: option.splits)
qed

lemma find_index_range:
  "i + length xs < 2 ^ 63 \<Longrightarrow> find_index v i xs = - 1 \<longleftrightarrow> v \<notin> set xs"
proof (induction xs arbitrary: i)
  case (Cons b bs)
  have "(of_nat i :: int64) \<noteq> - 1"
    using sint64_of_nat [of i] Cons.prems by auto
  with Cons show ?case by auto
qed simp

lemma find_index_first:
  assumes "go_slice xs" and "v \<in> set xs"
  shows "\<exists>n. find_index v 0 xs = of_nat n \<and> n < length xs \<and> xs ! n = v \<and> v \<notin> set (take n xs)"
proof -
  have "\<exists>n. find_index v i xs = of_nat (i + n) \<and> n < length xs \<and> xs ! n = v \<and> v \<notin> set (take n xs)" for i
    using assms(2)
  proof (induction xs arbitrary: i)
    case (Cons b bs)
    show ?case
    proof (cases "b = v")
      case False
      then obtain n where "find_index v (Suc i) bs = of_nat (Suc i + n)" "n < length bs" "bs ! n = v"
          "v \<notin> set (take n bs)"
        using Cons.IH [of "Suc i"] Cons.prems by auto
      with False show ?thesis by (intro exI [where x = "Suc n"]) auto
    qed (auto intro: exI [where x = 0])
  qed simp
  from this [of 0] show ?thesis by simp
qed

lemma pop_left_Cons: "go_slice (b # xs) \<Longrightarrow> pop_left (b # xs) = Some (b, xs)"
  by (simp add: pop_left_def slice_at_def slice_from_def)

lemma pop_right_snoc:
  assumes "go_slice (xs @ [b])"
  shows "pop_right (xs @ [b]) = Some (b, xs)"
proof -
  have "sint (len64 (xs @ [b]) - 1) = int (length xs)"
    using assms by (subst sint64_diff) (auto simp: sint_len64 go_slice_def)
  then show ?thesis by (simp add: pop_right_def slice_at_def slice_to_def)
qed

text \<open>
  Which item an index names: inside \<open>- n .. n - 1\<close> the item counted from the front or
  from the back, far outside the nearest end; but an index just outside, which the bounds
  checks of the code let through, panics.
\<close>

lemma sint_minus_one: "- (2 ^ 63) < sint i \<Longrightarrow> sint (i - 1 :: int64) = sint i - 1"
  using sint64_range [of i] by (subst sint64_diff) auto

lemma sint_neg_minus_one: "sint (i * - 1 - 1 :: int64) = - sint i - 1"
proof -
  have "i * - 1 - 1 = word_of_int (- sint i - 1)" by simp
  then have "sint (i * - 1 - 1) = signed_take_bit 63 (- sint i - 1)"
    by (simp only: sint_sbintrunc') simp
  also have "\<dots> = - sint i - 1"
    using sint64_range [of i] by (intro signed_take_bit_63_eq) auto
  finally show ?thesis .
qed

lemma sint_minus_minus_one: "sint (- i - 1 :: int64) = - sint i - 1"
  using sint_neg_minus_one [of i] by simp

lemma sint_len_plus:
  "go_slice xs \<Longrightarrow> sint i < 0 \<Longrightarrow> sint (len64 xs + i) = int (length xs) + sint i"
  using sint64_range [of i] by (subst sint64_add) (auto simp: sint_len64 go_slice_def)

lemma index_item_clamp:
  assumes "go_slice xs" and "xs \<noteq> []" and "- (2 ^ 63) < sint i"
  shows "index_item xs (clamp_index (len64 xs) i) =
    (let n = int (length xs) in
     if 0 \<le> sint i \<and> sint i < n then Some (xs ! nat (sint i))
     else if - n \<le> sint i \<and> sint i < 0 then Some (xs ! nat (n + sint i))
     else if n + 1 < sint i then Some (last xs)
     else if sint i < - n - 1 then Some (hd xs)
     else None)"
proof -
  let ?n = "int (length xs)"
  have n: "sint (len64 xs) = ?n" "sint (len64 xs - 1) = ?n - 1"
    using assms(1) by (simp_all add: sint_len64 sint_minus_one)
  have pos: "1 \<le> ?n" using assms(2) by (cases xs) auto
  note i = sint_minus_one [OF assms(3)]
  have last: "xs ! nat (?n - 1) = last xs" using assms(2) by (simp add: last_conv_nth nat_diff_distrib')
  have hd: "xs ! 0 = hd xs" using assms(2) by (simp add: hd_conv_nth)
  consider "?n + 1 < sint i" | "0 \<le> sint i" "sint i \<le> ?n + 1" | "- ?n - 1 \<le> sint i" "sint i < 0" | "sint i < - ?n - 1"
    by linarith
  then show ?thesis
  proof cases
    case 1
    then have "clamp_index (len64 xs) i = len64 xs - 1"
      using pos assms(2) by (simp add: clamp_index_def n i Let_def)
    then show ?thesis using 1 pos assms(2) by (simp add: index_item_def slice_at_def n last Let_def)
  next
    case 2
    then have "clamp_index (len64 xs) i = i" by (simp add: clamp_index_def n i)
    then show ?thesis using 2 by (simp add: index_item_def slice_at_def)
  next
    case 3
    then have "clamp_index (len64 xs) i = i" by (simp add: clamp_index_def n i sint_minus_minus_one)
    then show ?thesis using 3 pos sint_len_plus [OF assms(1), of i] by (simp add: index_item_def slice_at_def)
  next
    case 4
    then have "clamp_index (len64 xs) i = 0" by (simp add: clamp_index_def n i sint_minus_minus_one)
    then show ?thesis using 4 pos assms(2) by (simp add: index_item_def slice_at_def hd)
  qed
qed

section \<open>The typed view\<close>

definition decode_list :: "codec \<Rightarrow> pb_ByteValue \<Rightarrow> go_error + pb_List" where
  "decode_list C bv = unmarshalled (UnmarshalList C (ByteValue_Value bv))"

interpretation lists: typed_store "stores E kv K" "usable K ctx" key_held key_value key_locked key_unlocked
  key_stored newByteValue "Lock E ctx" "Unlock E ctx" "Get E" "commit_value E" ErrKeyLocked ErrKeyNotFound
  "decode_list C" "GetList E C"
  for E :: "'s etcd" and kv K ctx C
  by unfold_locales (simp add: GetList_def decode_list_def)

definition list_read :: "codec \<Rightarrow> pb_Key \<Rightarrow> (bytes \<rightharpoonup> bytes) \<Rightarrow> go_error + pb_List" where
  "list_read C k m = fetched ErrKeyNotFound (decode_list C) (key_value k m)"

text \<open>The stored encoding of a list, and what it is read back as.\<close>

lemma MarshalList_ok:
  assumes "proto_ok C"
  obtains b where "MarshalList C lst = Inr b" "UnmarshalList C b = Inr lst"
  using assms unfolding proto_ok_def by blast

lemma list_read_stored: "UnmarshalList C b = Inr lst \<Longrightarrow> list_read C k (key_stored k b m) = Inr lst"
  by (simp add: list_read_def fetched_def decode_list_def byte_store.lookup_stored)

lemma UnlockThenSetList_commit:
  "MarshalList C (lst\<lparr>List_Key := []\<rparr>) = Inr b \<Longrightarrow>
     UnlockThenSetList E C lst = commit_value E (newKey (List_Key lst)) b"
  by (simp add: UnlockThenSetList_def commit_newKey)

text \<open>
  \<open>list_stores K ctx C k m lst m'\<close>: the key was updated to hold the list \<open>lst\<close>, and
  nothing else changed.
\<close>

definition list_stores :: "bytes set \<Rightarrow> go_context \<Rightarrow> codec \<Rightarrow> string \<Rightarrow> (bytes \<rightharpoonup> bytes) \<Rightarrow> pb_List \<Rightarrow> (bytes \<rightharpoonup> bytes) \<Rightarrow> bool" where
  "list_stores K ctx C k m lst m' \<longleftrightarrow>
     list_read C (newKey k) m' = Inr (lst\<lparr>List_Key := []\<rparr>) \<and> updated K ctx (newKey k) m m'"

text \<open>The general rule: an operation that writes the list \<open>lst\<close> back.\<close>

lemma list_write:
  assumes "usable K ctx (newKey k) m" and "\<not> key_held (newKey k) m" and "proto_ok C" and "List_Key lst = k"
    and "body (list_read C (newKey k) m) = UnlockThenSetList E C lst"
  shows "\<exists>m'. runs (stores E kv K m)
      (and_then (Lock E ctx (newKey k)) (\<lambda>_. and_then (attempt (GetList E C (newKey k))) body)) (Ok ())
      (stores E kv K m') \<and> list_stores K ctx C k m lst m'"
proof -
  obtain b where b: "MarshalList C (lst\<lparr>List_Key := []\<rparr>) = Inr b" "UnmarshalList C b = Inr (lst\<lparr>List_Key := []\<rparr>)"
    using assms(3) by (rule MarshalList_ok)
  have "runs (stores E kv K m)
      (and_then (Lock E ctx (newKey k)) (\<lambda>_. and_then (attempt (GetList E C (newKey k))) body)) (Ok ())
      (stores E kv K (key_stored (newKey k) b (key_unlocked (newKey k) m)))"
    by (rule lists.update_commit_last [OF assms(1,2)])
      (use assms(4,5) in \<open>simp add: list_read_def UnlockThenSetList_commit [OF b(1)]\<close>)
  then show ?thesis
    using list_read_stored [OF b(2)] updated_stored [OF assms(1)] unfolding list_stores_def by blast
qed

lemma list_write_ret:
  assumes "usable K ctx (newKey k) m" and "\<not> key_held (newKey k) m" and "proto_ok C" and "List_Key lst = k"
    and "body (list_read C (newKey k) m) = and_then (UnlockThenSetList E C lst) (\<lambda>_. ret x)"
  shows "\<exists>m'. runs (stores E kv K m)
      (and_then (Lock E ctx (newKey k)) (\<lambda>_. and_then (attempt (GetList E C (newKey k))) body)) (Ok x)
      (stores E kv K m') \<and> list_stores K ctx C k m lst m'"
proof -
  obtain b where b: "MarshalList C (lst\<lparr>List_Key := []\<rparr>) = Inr b" "UnmarshalList C b = Inr (lst\<lparr>List_Key := []\<rparr>)"
    using assms(3) by (rule MarshalList_ok)
  have "runs (stores E kv K m)
      (and_then (Lock E ctx (newKey k)) (\<lambda>_. and_then (attempt (GetList E C (newKey k))) body)) (Ok x)
      (stores E kv K (key_stored (newKey k) b (key_unlocked (newKey k) m)))"
    by (rule lists.update_commit [OF assms(1,2)])
      (use assms(4,5) in \<open>simp add: list_read_def UnlockThenSetList_commit [OF b(1)]\<close>)
  then show ?thesis
    using list_read_stored [OF b(2)] updated_stored [OF assms(1)] unfolding list_stores_def by blast
qed

section \<open>What the operations do\<close>

lemma ListInsert_ok:
  assumes "usable K ctx (newKey (ListItem_Key li)) m" and "\<not> key_held (newKey (ListItem_Key li)) m" and "proto_ok C"
    and "if_missing (newList []) (list_read C (newKey (ListItem_Key li)) m) = Inr lst"
    and "go_slice (List_Value lst @ [v])" and "0 \<le> sint (List_Limit lst)"
    and "v = ListItem_Value li" and "n = nat (sint (ListItem_Index li))"
  shows "\<exists>m'. runs (stores E kv K m) (ListInsert E C ctx li) (Ok ()) (stores E kv K m') \<and>
    list_stores K ctx C (ListItem_Key li) m
      (lst\<lparr>List_Value := keep_last (List_Limit lst) (take n (List_Value lst) @ v # drop n (List_Value lst))\<rparr>) m'"
proof -
  let ?index = "if sint (ListItem_Index li) < 0 then 0 else ListItem_Index li"
  let ?vs = "take n (List_Value lst) @ v # drop n (List_Value lst)"
  have ins: "insert_item ?index v (List_Value lst) = Some ?vs"
    using insert_item_eq [OF assms(5), of ?index] assms(8) by (cases "sint (ListItem_Index li) < 0") simp_all
  have go: "go_slice ?vs" using assms(5) by (simp add: go_slice_def min_def)
  have "\<exists>m'. runs (stores E kv K m) (ListInsert E C ctx li) (Ok ()) (stores E kv K m') \<and>
    list_stores K ctx C (ListItem_Key li) m
      (lst\<lparr>List_Key := ListItem_Key li, List_Value := keep_last (List_Limit lst) ?vs\<rparr>) m'"
    unfolding ListInsert_def Let_def
    by (rule list_write [OF assms(1-3)])
      (use assms(4,6,7) go ins enforceListLimit_nonneg [of "lst\<lparr>List_Value := ?vs, List_Key := ListItem_Key li\<rparr>"] in simp_all)
  then show ?thesis by (simp add: list_stores_def)
qed

lemma ListAppend_ok:
  assumes "usable K ctx (newKey (ListItem_Key li)) m" and "\<not> key_held (newKey (ListItem_Key li)) m" and "proto_ok C"
    and "if_missing (newList []) (list_read C (newKey (ListItem_Key li)) m) = Inr lst"
    and "go_slice (List_Value lst @ [ListItem_Value li])" and "0 \<le> sint (List_Limit lst)"
  shows "\<exists>m'. runs (stores E kv K m) (ListAppend E C ctx li) (Ok ()) (stores E kv K m') \<and>
    list_stores K ctx C (ListItem_Key li) m
      (lst\<lparr>List_Value := keep_last (List_Limit lst) (List_Value lst @ [ListItem_Value li])\<rparr>) m'"
proof -
  let ?vs = "List_Value lst @ [ListItem_Value li]"
  have "\<exists>m'. runs (stores E kv K m) (ListAppend E C ctx li) (Ok ()) (stores E kv K m') \<and>
    list_stores K ctx C (ListItem_Key li) m
      (lst\<lparr>List_Key := ListItem_Key li, List_Value := keep_last (List_Limit lst) ?vs\<rparr>) m'"
    unfolding ListAppend_def Let_def
    by (rule list_write [OF assms(1-3)])
      (use assms(4-6) enforceListLimit_nonneg [of "lst\<lparr>List_Key := ListItem_Key li, List_Value := ?vs\<rparr>"] in simp_all)
  then show ?thesis by (simp add: list_stores_def)
qed

lemma pop_with_item:
  assumes "usable K ctx key m" and "\<not> key_held key m" and "proto_ok C"
    and "list_read C key m = Inr lst" and "pop (List_Value lst) = Some (b, rest)" and "List_Value lst \<noteq> []"
  shows "\<exists>m'. runs (stores E kv K m) (pop_with E C ctx pop blocked key) (Ok (newByteValue b)) (stores E kv K m') \<and>
    list_read C key m' = Inr (lst\<lparr>List_Key := [], List_Value := rest\<rparr>) \<and> updated K ctx key m m'"
proof -
  let ?lst = "lst\<lparr>List_Key := Key_Key key, List_Value := rest\<rparr>"
  obtain c where c: "MarshalList C (?lst\<lparr>List_Key := []\<rparr>) = Inr c" "UnmarshalList C c = Inr (?lst\<lparr>List_Key := []\<rparr>)"
    using assms(3) by (rule MarshalList_ok)
  have nb: "\<not> Key_Block key" using assms(1) by (simp add: usable_def)
  then have key: "key\<lparr>Key_Block := False\<rparr> = key" by (cases key) simp
  have "commit_value E (newKey (Key_Key key)) c = commit_value E key c" by (simp add: commit_value_def)
  then have "runs (stores E kv K m) (pop_with E C ctx pop blocked key) (Ok (newByteValue b))
      (stores E kv K (key_stored key c (key_unlocked key m)))"
    unfolding pop_with_def Let_def key
    by (intro lists.update_commit [OF assms(1,2), where C = C])
      (use assms(4-6) nb UnlockThenSetList_commit [of C ?lst c E] c(1) in \<open>simp add: list_read_def\<close>)
  then show ?thesis
    using list_read_stored [OF c(2), of key "key_unlocked key m"] updated_stored [OF assms(1), of c]
    by (intro exI [where x = "key_stored key c (key_unlocked key m)"]) simp
qed

lemma pop_with_empty:
  assumes "usable K ctx key m" and "\<not> key_held key m"
    and "list_read C key m = Inl ErrKeyNotFound \<or> (\<exists>lst. list_read C key m = Inr lst \<and> List_Value lst = [])"
  shows "runs (stores E kv K m) (pop_with E C ctx pop blocked key) (Err ErrListEmpty) (stores E kv K (key_unlocked key m))"
proof -
  have nb: "\<not> Key_Block key" using assms(1) by (simp add: usable_def)
  then have key: "key\<lparr>Key_Block := False\<rparr> = key" by (cases key) simp
  show ?thesis
    unfolding pop_with_def Let_def key
    by (intro lists.update_abort [OF assms(1,2), where C = C])
      (use assms(3) nb in \<open>auto simp: list_read_def unlock_fail_def\<close>)
qed

lemma ListPopLeft_item:
  assumes "usable K ctx key m" and "\<not> key_held key m" and "proto_ok C"
    and "list_read C key m = Inr lst" and "List_Value lst = b # rest" and "go_slice (b # rest)"
  shows "\<exists>m'. runs (stores E kv K m) (ListPopLeft E C ctx key) (Ok (newByteValue b)) (stores E kv K m') \<and>
    list_read C key m' = Inr (lst\<lparr>List_Key := [], List_Value := rest\<rparr>) \<and> updated K ctx key m m'"
  unfolding ListPopLeft_def pop_blocking_def
  by (rule pop_with_item [OF assms(1-4)]) (use assms(5,6) in \<open>simp_all add: pop_left_Cons\<close>)

lemma ListPopRight_item:
  assumes "usable K ctx key m" and "\<not> key_held key m" and "proto_ok C"
    and "list_read C key m = Inr lst" and "List_Value lst = rest @ [b]" and "go_slice (rest @ [b])"
  shows "\<exists>m'. runs (stores E kv K m) (ListPopRight E C ctx key) (Ok (newByteValue b)) (stores E kv K m') \<and>
    list_read C key m' = Inr (lst\<lparr>List_Key := [], List_Value := rest\<rparr>) \<and> updated K ctx key m m'"
  unfolding ListPopRight_def pop_blocking_def
  by (rule pop_with_item [OF assms(1-4)]) (use assms(5,6) in \<open>simp_all add: pop_right_snoc\<close>)

lemma ListDelete_ok:
  assumes "usable K ctx (newKey (ListItem_Key li)) m" and "\<not> key_held (newKey (ListItem_Key li)) m" and "proto_ok C"
    and "list_read C (newKey (ListItem_Key li)) m = Inr lst" and "go_slice (List_Value lst)"
    and "0 \<le> sint (ListItem_Index li)" and "sint (ListItem_Index li) < int (length (List_Value lst))"
    and "n = nat (sint (ListItem_Index li))"
  shows "\<exists>m'. runs (stores E kv K m) (ListDelete E C ctx li) (Ok ()) (stores E kv K m') \<and>
    list_stores K ctx C (ListItem_Key li) m
      (lst\<lparr>List_Value := take n (List_Value lst) @ drop (Suc n) (List_Value lst)\<rparr>) m'"
proof -
  let ?vs = "take n (List_Value lst) @ drop (Suc n) (List_Value lst)"
  have l: "sint (len64 (List_Value lst)) = int (length (List_Value lst))" using assms(5) by (rule sint_len64)
  have i: "sint (ListItem_Index li - 1) = sint (ListItem_Index li) - 1"
    using assms(6) by (intro sint_minus_one) simp
  have ne: "len64 (List_Value lst) \<noteq> 0" using l assms(6,7) by auto
  have "\<exists>m'. runs (stores E kv K m) (ListDelete E C ctx li) (Ok ()) (stores E kv K m') \<and>
    list_stores K ctx C (ListItem_Key li) m (lst\<lparr>List_Value := ?vs, List_Key := ListItem_Key li\<rparr>) m'"
    unfolding ListDelete_def Let_def
    by (rule list_write [OF assms(1-3)])
      (use assms(4,6,7) ne l i delete_item_eq [OF assms(5-7)] assms(8) in simp_all)
  then show ?thesis by (simp add: list_stores_def)
qed

lemma ListDeleteItem_found:
  assumes "usable K ctx (newKey (ListItem_Key li)) m" and "\<not> key_held (newKey (ListItem_Key li)) m" and "proto_ok C"
    and "list_read C (newKey (ListItem_Key li)) m = Inr lst" and "go_slice (List_Value lst)"
    and "ListItem_Value li \<in> set (List_Value lst)"
  shows "\<exists>m' n. runs (stores E kv K m) (ListDeleteItem E C ctx li)
        (Ok \<lparr>IntValue_Key = [], IntValue_Value = of_nat n\<rparr>) (stores E kv K m') \<and>
    n < length (List_Value lst) \<and> List_Value lst ! n = ListItem_Value li \<and>
    list_stores K ctx C (ListItem_Key li) m (lst\<lparr>List_Value := remove1 (ListItem_Value li) (List_Value lst)\<rparr>) m'"
proof -
  let ?v = "ListItem_Value li" and ?xs = "List_Value lst"
  obtain n where n: "find_index ?v 0 ?xs = of_nat n" "n < length ?xs" "?xs ! n = ?v" "?v \<notin> set (take n ?xs)"
    using find_index_first [OF assms(5,6)] by blast
  have s: "sint (of_nat n :: int64) = int n"
    using n(2) assms(5) by (intro sint64_of_nat) (simp add: go_slice_def)
  have nz: "find_index ?v 0 ?xs \<noteq> - 1"
    using find_index_range [of 0 ?xs ?v] assms(5,6) by (simp add: go_slice_def)
  have "?xs = take n ?xs @ ?v # drop (Suc n) ?xs" using n(2,3) id_take_nth_drop by metis
  then have "remove1 ?v ?xs = take n ?xs @ drop (Suc n) ?xs"
    using n(4) by (metis remove1.simps(2) remove1_append)
  then have d: "delete_item (of_nat n) ?xs = Some (remove1 ?v ?xs)"
    using delete_item_eq [OF assms(5), of "of_nat n"] n(2) by (simp add: s)
  have "\<exists>m'. runs (stores E kv K m) (ListDeleteItem E C ctx li)
        (Ok \<lparr>IntValue_Key = [], IntValue_Value = of_nat n\<rparr>) (stores E kv K m') \<and>
    list_stores K ctx C (ListItem_Key li) m (lst\<lparr>List_Value := remove1 ?v ?xs, List_Key := ListItem_Key li\<rparr>) m'"
    unfolding ListDeleteItem_def Let_def
    by (rule list_write_ret [OF assms(1-3)]) (use assms(4) n(1) nz d in simp_all)
  with n show ?thesis by (auto simp: list_stores_def)
qed

text \<open>A value that is not there: the answer is \<open>-1\<close>, and the lock stays.\<close>

lemma ListDeleteItem_absent:
  assumes "usable K ctx (newKey (ListItem_Key li)) m" and "\<not> key_held (newKey (ListItem_Key li)) m"
    and "list_read C (newKey (ListItem_Key li)) m = Inr lst" and "go_slice (List_Value lst)"
    and "ListItem_Value li \<notin> set (List_Value lst)"
  shows "runs (stores E kv K m) (ListDeleteItem E C ctx li) (Ok \<lparr>IntValue_Key = [], IntValue_Value = - 1\<rparr>)
    (stores E kv K (key_locked (newKey (ListItem_Key li)) m))"
proof -
  have "find_index (ListItem_Value li) 0 (List_Value lst) = - 1"
    using find_index_range [of 0 "List_Value lst" "ListItem_Value li"] assms(4,5) by (simp add: go_slice_def)
  then show ?thesis
    unfolding ListDeleteItem_def Let_def
    by (intro lists.update_leak [OF assms(1,2), where C = C]) (use assms(3) in \<open>simp add: list_read_def\<close>)
qed

text \<open>
  Setting an item: inside the list it is replaced; far outside the call fails and releases
  the lock; on the index just past an end, which the checks let through, it panics with the
  lock held.
\<close>

definition item_position :: "int64 \<Rightarrow> 'a list \<Rightarrow> nat" where
  "item_position i xs = nat (if 0 \<le> sint i then sint i else int (length xs) + sint i)"

lemma replace_item_eq:
  assumes "go_slice xs" and "- int (length xs) \<le> sint i" and "sint i < int (length xs)"
  shows "(if 0 \<le> sint i then slice_set xs i v else slice_set xs (len64 xs + i) v) = Some (xs[item_position i xs := v])"
  using assms(2,3) sint_len_plus [OF assms(1), of i] by (auto simp: slice_set_def item_position_def)

lemma replace_item_panics:
  assumes "go_slice xs" and "sint i < - int (length xs) \<or> int (length xs) \<le> sint i"
  shows "(if 0 \<le> sint i then slice_set xs i v else slice_set xs (len64 xs + i) v) = None"
  using assms(2) sint_len_plus [OF assms(1), of i] by (auto simp: slice_set_def)

lemma SetListItem_ok:
  assumes "usable K ctx (newKey (ListItem_Key li)) m" and "\<not> key_held (newKey (ListItem_Key li)) m" and "proto_ok C"
    and "list_read C (newKey (ListItem_Key li)) m = Inr lst" and "go_slice (List_Value lst)"
    and "- int (length (List_Value lst)) \<le> sint (ListItem_Index li)"
    and "sint (ListItem_Index li) < int (length (List_Value lst))"
  shows "\<exists>m'. runs (stores E kv K m) (SetListItem E C ctx li) (Ok ()) (stores E kv K m') \<and>
    list_stores K ctx C (ListItem_Key li) m
      (lst\<lparr>List_Value := (List_Value lst)[item_position (ListItem_Index li) (List_Value lst) := ListItem_Value li]\<rparr>) m'"
proof -
  let ?xs = "List_Value lst" and ?i = "ListItem_Index li"
  let ?vs = "?xs[item_position ?i ?xs := ListItem_Value li]"
  have l: "sint (len64 ?xs) = int (length ?xs)" using assms(5) by (rule sint_len64)
  have i: "sint (?i - 1) = sint ?i - 1"
    using assms(5,6) by (intro sint_minus_one) (simp add: go_slice_def)
  have ne: "len64 ?xs \<noteq> 0" using l assms(6,7) by auto
  have "\<exists>m'. runs (stores E kv K m) (SetListItem E C ctx li) (Ok ()) (stores E kv K m') \<and>
    list_stores K ctx C (ListItem_Key li) m (lst\<lparr>List_Key := ListItem_Key li, List_Value := ?vs\<rparr>) m'"
    unfolding SetListItem_def Let_def
    by (rule list_write [OF assms(1-3)])
      (use assms(4,6,7) ne l i replace_item_eq [OF assms(5-7)] in \<open>simp_all add: sint_minus_minus_one\<close>)
  then show ?thesis by (simp add: list_stores_def)
qed

lemma SetListItem_far:
  assumes "usable K ctx (newKey (ListItem_Key li)) m" and "\<not> key_held (newKey (ListItem_Key li)) m"
    and "list_read C (newKey (ListItem_Key li)) m = Inr lst" and "go_slice (List_Value lst)" and "List_Value lst \<noteq> []"
    and "int (length (List_Value lst)) + 1 < sint (ListItem_Index li) \<or>
      sint (ListItem_Index li) < - int (length (List_Value lst)) - 1" and "- (2 ^ 63) < sint (ListItem_Index li)"
  shows "runs (stores E kv K m) (SetListItem E C ctx li) (Err ErrListIndexOutOfRange)
    (stores E kv K (key_unlocked (newKey (ListItem_Key li)) m))"
proof -
  let ?xs = "List_Value lst" and ?i = "ListItem_Index li"
  have l: "sint (len64 ?xs) = int (length ?xs)" using assms(4) by (rule sint_len64)
  note i = sint_minus_one [OF assms(7)]
  have ne: "len64 ?xs \<noteq> 0" using l assms(5) by auto
  show ?thesis
    unfolding SetListItem_def Let_def
    by (rule lists.update_abort [OF assms(1,2), where C = C])
      (use assms(3,6) ne l i in \<open>auto simp: list_read_def unlock_fail_def sint_minus_minus_one\<close>)
qed

lemma SetListItem_edge:
  assumes "usable K ctx (newKey (ListItem_Key li)) m" and "\<not> key_held (newKey (ListItem_Key li)) m"
    and "list_read C (newKey (ListItem_Key li)) m = Inr lst" and "go_slice (List_Value lst)" and "List_Value lst \<noteq> []"
    and "sint (ListItem_Index li) \<in> {int (length (List_Value lst)), int (length (List_Value lst)) + 1,
      - int (length (List_Value lst)) - 1}"
  shows "runs (stores E kv K m) (SetListItem E C ctx li) Panic
    (stores E kv K (key_locked (newKey (ListItem_Key li)) m))"
proof -
  let ?xs = "List_Value lst" and ?i = "ListItem_Index li"
  have l: "sint (len64 ?xs) = int (length ?xs)" using assms(4) by (rule sint_len64)
  have ne: "len64 ?xs \<noteq> 0" using l assms(5) by auto
  have out: "sint ?i < - int (length ?xs) \<or> int (length ?xs) \<le> sint ?i" using assms(6) by auto
  have lo: "\<not> int (length ?xs) < sint (?i - 1)"
  proof (cases "sint ?i = - (2 ^ 63)")
    case True
    then have "int (length ?xs) = 2 ^ 63 - 1" using assms(4,6) by (auto simp: go_slice_def)
    then show ?thesis using sint64_range(2) [of "?i - 1"] by simp
  next
    case False
    then have "- (2 ^ 63) < sint ?i" using sint64_range(1) [of ?i] by linarith
    then show ?thesis using sint_minus_one [of ?i] assms(6) by auto
  qed
  show ?thesis
    unfolding SetListItem_def Let_def
    by (rule lists.update_panic [OF assms(1,2), where C = C])
      (use assms(3,6) ne l lo replace_item_panics [OF assms(4) out] in \<open>auto simp: list_read_def sint_minus_minus_one\<close>)
qed

lemma ListDelete_edge:
  assumes "usable K ctx (newKey (ListItem_Key li)) m" and "\<not> key_held (newKey (ListItem_Key li)) m"
    and "list_read C (newKey (ListItem_Key li)) m = Inr lst" and "go_slice (List_Value lst)" and "List_Value lst \<noteq> []"
    and "sint (ListItem_Index li) = int (length (List_Value lst))"
  shows "runs (stores E kv K m) (ListDelete E C ctx li) Panic
    (stores E kv K (key_locked (newKey (ListItem_Key li)) m))"
proof -
  let ?xs = "List_Value lst" and ?i = "ListItem_Index li"
  have l: "sint (len64 ?xs) = int (length ?xs)" using assms(4) by (rule sint_len64)
  have ne: "len64 ?xs \<noteq> 0" using l assms(5) by auto
  have i: "sint (?i - 1) = sint ?i - 1" using assms(6) by (intro sint_minus_one) simp
  show ?thesis
    unfolding ListDelete_def Let_def
    by (rule lists.update_panic [OF assms(1,2), where C = C])
      (use assms(3,6) ne l i delete_item_end [OF assms(4,6)] in \<open>auto simp: list_read_def\<close>)
qed

lemma ListLimit_ok:
  assumes "usable K ctx (newKey (ListItem_Key li)) m" and "\<not> key_held (newKey (ListItem_Key li)) m" and "proto_ok C"
    and "list_read C (newKey (ListItem_Key li)) m = Inr lst"
  shows "\<exists>m'. runs (stores E kv K m) (ListLimit E C ctx li) (Ok ()) (stores E kv K m') \<and>
    list_stores K ctx C (ListItem_Key li) m
      (lst\<lparr>List_Limit := (if sint (ListItem_Index li) < 0 then 0 else ListItem_Index li)\<rparr>) m'"
proof -
  let ?n = "if sint (ListItem_Index li) < 0 then 0 else ListItem_Index li"
  have "\<exists>m'. runs (stores E kv K m) (ListLimit E C ctx li) (Ok ()) (stores E kv K m') \<and>
    list_stores K ctx C (ListItem_Key li) m (lst\<lparr>List_Limit := ?n, List_Key := ListItem_Key li\<rparr>) m'"
    unfolding ListLimit_def Let_def by (rule list_write [OF assms(1-3)]) (use assms(4) in simp_all)
  then show ?thesis by (simp add: list_stores_def)
qed

text \<open>A negative limit, which \<open>SetList\<close> stores unchecked, makes the next insertion panic.\<close>

lemma ListAppend_negative_limit:
  assumes "usable K ctx (newKey (ListItem_Key li)) m" and "\<not> key_held (newKey (ListItem_Key li)) m"
    and "list_read C (newKey (ListItem_Key li)) m = Inr lst"
    and "go_slice (List_Value lst @ [ListItem_Value li])" and "sint (List_Limit lst) < 0"
  shows "runs (stores E kv K m) (ListAppend E C ctx li) Panic
    (stores E kv K (key_locked (newKey (ListItem_Key li)) m))"
  unfolding ListAppend_def Let_def
  by (rule lists.update_panic [OF assms(1,2), where C = C])
    (use assms(3-5) enforceListLimit_negative [of "lst\<lparr>List_Key := ListItem_Key li,
       List_Value := List_Value lst @ [ListItem_Value li]\<rparr>"] in \<open>simp add: list_read_def\<close>)

lemma GetList_read:
  assumes "usable K ctx k m"
  shows "runs (stores E kv K m) (GetList E C k) (case list_read C k m of Inl e \<Rightarrow> Err e | Inr lst \<Rightarrow> Ok lst) (stores E kv K m)"
  unfolding list_read_def by (rule lists.tget_runs [OF assms])

lemma GetListItem_read:
  assumes "usable K ctx (newKey (ListItem_Key li)) m" and "list_read C (newKey (ListItem_Key li)) m = Inr lst"
    and "go_slice (List_Value lst)" and "List_Value lst \<noteq> []"
  shows "runs (stores E kv K m) (GetListItem E C li)
    (case index_item (List_Value lst) (clamp_index (len64 (List_Value lst)) (ListItem_Index li)) of
       None \<Rightarrow> Panic | Some b \<Rightarrow> Ok (newByteValue b)) (stores E kv K m)"
proof -
  let ?xs = "List_Value lst"
  have "sint (len64 ?xs) = int (length ?xs)" using assms(3) by (rule sint_len64)
  then have ne: "len64 ?xs \<noteq> 0" using assms(4) by auto
  have get: "runs (stores E kv K m) (GetList E C (newKey (ListItem_Key li))) (Ok lst) (stores E kv K m)"
    using GetList_read [OF assms(1), of E kv C] assms(2) by simp
  show ?thesis
    unfolding GetListItem_def Let_def
    by (rule runs_and_then [OF get])
      (use ne in \<open>simp add: runs_ret runs_panic or_panic_def split: option.splits\<close>)
qed

lemma ListHas_read:
  assumes "usable K ctx (newKey (ListItem_Key li)) m" and "list_read C (newKey (ListItem_Key li)) m = Inr lst"
  shows "runs (stores E kv K m) (ListHas E C li)
    (Ok \<lparr>IntValue_Key = [], IntValue_Value = find_index (ListItem_Value li) 0 (List_Value lst)\<rparr>) (stores E kv K m)"
proof -
  have get: "runs (stores E kv K m) (attempt (GetList E C (newKey (ListItem_Key li)))) (Ok (Inr lst)) (stores E kv K m)"
    using lists.attempt_tget [OF assms(1), of E kv C] assms(2) by (simp add: list_read_def)
  show ?thesis unfolding ListHas_def by (rule runs_and_then [OF get]) (simp add: runs_ret)
qed

end
