(* ===== verification/Server_Hashes.thy ===== *)
theory Server_Hashes
  imports Server_Lists
begin

text \<open>
  Hashes (\<open>mydis/type_hash.go\<close>, and \<open>UnlockThenSetHash\<close> of \<open>mydis/type_lock.go\<close>): a
  map of fields stored as one value.
\<close>

definition GetHash :: "'s etcd \<Rightarrow> codec \<Rightarrow> pb_Key \<Rightarrow> ('s, pb_Hash) handler" where
  "GetHash E C key = and_then (Get E key)
     (\<lambda>res. case unmarshalled (UnmarshalHash C (ByteValue_Value res)) of Inl e \<Rightarrow> throw e | Inr h \<Rightarrow> ret h)"

definition GetHashField :: "'s etcd \<Rightarrow> codec \<Rightarrow> pb_HashField \<Rightarrow> ('s, pb_ByteValue) handler" where
  "GetHashField E C hf = and_then (GetHash E C (newKey (HashField_Key hf)))
     (\<lambda>h. case map_get (Hash_Value h) (HashField_Field hf) of
        Some b \<Rightarrow> ret (newByteValue b)
      | None \<Rightarrow> throw ErrHashFieldNotFound)"

text \<open>\<open>for _, field := range hs.Field { if b, ok := h.Value[field]; ok { nh.Value[field] = b } }\<close>\<close>

definition present_fields :: "bytes gomap \<Rightarrow> string list \<Rightarrow> (string \<times> bytes) list" where
  "present_fields h fs =
     concat (map (\<lambda>field. case map_get h field of Some b \<Rightarrow> [(field, b)] | None \<Rightarrow> []) fs)"

definition GetHashFields :: "'s etcd \<Rightarrow> codec \<Rightarrow> pb_HashFieldSet \<Rightarrow> ('s, pb_Hash) handler" where
  "GetHashFields E C hs = and_then (GetHash E C (newKey (HashFieldSet_Key hs)))
     (\<lambda>h. or_panic (put_all map_put (present_fields (Hash_Value h) (HashFieldSet_Field hs)) (Some []))
        (\<lambda>nh. ret (newHash nh)))"

definition HashHas :: "'s etcd \<Rightarrow> codec \<Rightarrow> pb_HashField \<Rightarrow> ('s, pb_Bool) handler" where
  "HashHas E C hf = and_then (GetHash E C (newKey (HashField_Key hf)))
     (\<lambda>h. case map_get (Hash_Value h) (HashField_Field hf) of Some _ \<Rightarrow> ret True | None \<Rightarrow> ret False)"

definition HashLength :: "'s etcd \<Rightarrow> codec \<Rightarrow> pb_Key \<Rightarrow> ('s, pb_IntValue) handler" where
  "HashLength E C key = and_then (GetHash E C key)
     (\<lambda>h. ret \<lparr>IntValue_Key = [], IntValue_Value = len64 (map_entries (Hash_Value h))\<rparr>)"

text \<open>The fields in the order the loop visits them, then \<open>sort.Strings\<close>.\<close>

definition HashFields :: "'s etcd \<Rightarrow> codec \<Rightarrow> pb_Key \<Rightarrow> ('s, pb_KeysList) handler" where
  "HashFields E C key = and_then (GetHash E C key)
     (\<lambda>h. ret (sort (map fst (map_entries (Hash_Value h)))))"

text \<open>\<open>h.Value[key]\<close> is the zero value, an empty slice, when there is no entry.\<close>

definition HashValues :: "'s etcd \<Rightarrow> codec \<Rightarrow> pb_Key \<Rightarrow> ('s, pb_List) handler" where
  "HashValues E C key = and_then (GetHash E C key)
     (\<lambda>h. let keys = sort (map fst (map_entries (Hash_Value h))) in
        ret (newList (map (\<lambda>key. case map_get (Hash_Value h) key of Some b \<Rightarrow> b | None \<Rightarrow> []) keys)))"

definition SetHash :: "'s etcd \<Rightarrow> codec \<Rightarrow> go_context \<Rightarrow> pb_Hash \<Rightarrow> ('s, pb_Null) handler" where
  "SetHash E C ctx h =
     (let key = Hash_Key h in
      case MarshalHash C (h\<lparr>Hash_Key := []\<rparr>) of
        Inl msg \<Rightarrow> throw (Other msg)
      | Inr b \<Rightarrow> Set E ctx \<lparr>ByteValue_Key = key, ByteValue_Value = b\<rparr>)"

definition UnlockThenSetHash :: "'s etcd \<Rightarrow> codec \<Rightarrow> pb_Hash \<Rightarrow> ('s, pb_Null) handler" where
  "UnlockThenSetHash E C val =
     (let key = Hash_Key val in
      case MarshalHash C (val\<lparr>Hash_Key := []\<rparr>) of
        Inl msg \<Rightarrow> throw (Other msg)
      | Inr b \<Rightarrow> UnlockThenSet E \<lparr>ByteValue_Key = key, ByteValue_Value = b\<rparr>)"

definition SetHashField :: "'s etcd \<Rightarrow> codec \<Rightarrow> go_context \<Rightarrow> pb_HashField \<Rightarrow> ('s, pb_Null) handler" where
  "SetHashField E C ctx hf =
     (let key = newKey (HashField_Key hf) in
      and_then (Lock E ctx key) (\<lambda>_.
      and_then (attempt (GetHash E C key)) (\<lambda>r.
      case if_missing (newHash (Some [])) r of
        Inl err \<Rightarrow> unlock_fail E ctx key err
      | Inr h \<Rightarrow> or_panic (map_put (HashField_Field hf) (HashField_Value hf) (Hash_Value h)) (\<lambda>v.
          UnlockThenSetHash E C (h\<lparr>Hash_Key := HashField_Key hf, Hash_Value := v\<rparr>)))))"

definition SetHashFields :: "'s etcd \<Rightarrow> codec \<Rightarrow> go_context \<Rightarrow> pb_Hash \<Rightarrow> ('s, pb_Null) handler" where
  "SetHashFields E C ctx ah =
     (let key = newKey (Hash_Key ah) in
      and_then (Lock E ctx key) (\<lambda>_.
      and_then (attempt (GetHash E C key)) (\<lambda>r.
      case if_missing (newHash (Some [])) r of
        Inl err \<Rightarrow> unlock_fail E ctx key err
      | Inr h \<Rightarrow> or_panic (put_all map_put (map_entries (Hash_Value ah)) (Hash_Value h)) (\<lambda>v.
          UnlockThenSetHash E C (h\<lparr>Hash_Key := Hash_Key ah, Hash_Value := v\<rparr>)))))"

definition DelHashField :: "'s etcd \<Rightarrow> codec \<Rightarrow> go_context \<Rightarrow> pb_HashField \<Rightarrow> ('s, pb_Null) handler" where
  "DelHashField E C ctx hf =
     (let key = newKey (HashField_Key hf) in
      and_then (Lock E ctx key) (\<lambda>_.
      and_then (attempt (GetHash E C key)) (\<lambda>r.
      case r of
        Inl err \<Rightarrow> unlock_fail E ctx key err
      | Inr h \<Rightarrow> UnlockThenSetHash E C (h\<lparr>Hash_Key := HashField_Key hf,
            Hash_Value := map_delete (HashField_Field hf) (Hash_Value h)\<rparr>))))"

section \<open>The typed view\<close>

definition decode_hash :: "codec \<Rightarrow> pb_ByteValue \<Rightarrow> go_error + pb_Hash" where
  "decode_hash C bv = unmarshalled (UnmarshalHash C (ByteValue_Value bv))"

interpretation hashes: typed_store "stores E kv K" "usable K ctx" key_held key_value key_locked key_unlocked
  key_stored newByteValue "Lock E ctx" "Unlock E ctx" "Get E" "commit_value E" ErrKeyLocked ErrKeyNotFound
  "decode_hash C" "GetHash E C"
  for E :: "'s etcd" and kv K ctx C
  by unfold_locales (simp add: GetHash_def decode_hash_def)

definition hash_read :: "codec \<Rightarrow> pb_Key \<Rightarrow> (bytes \<rightharpoonup> bytes) \<Rightarrow> go_error + pb_Hash" where
  "hash_read C k m = fetched ErrKeyNotFound (decode_hash C) (key_value k m)"

text \<open>
  The fields a key holds: what a client of the hash operations sees, whatever order the
  entries come in.
\<close>

definition fields_of :: "codec \<Rightarrow> string \<Rightarrow> (bytes \<rightharpoonup> bytes) \<Rightarrow> (string \<rightharpoonup> bytes)" where
  "fields_of C k m = (case hash_read C (newKey k) m of Inl _ \<Rightarrow> Map.empty | Inr h \<Rightarrow> map_get (Hash_Value h))"

lemma MarshalHash_ok:
  assumes "proto_ok C" and "map_wf (Hash_Value h)"
  obtains b h' where "MarshalHash C h = Inr b" "UnmarshalHash C b = Inr h'" "hash_decodes h h'"
  using assms unfolding proto_ok_def by blast

lemma hash_read_stored: "UnmarshalHash C b = Inr h \<Longrightarrow> hash_read C k (key_stored k b m) = Inr h"
  by (simp add: hash_read_def fetched_def decode_hash_def byte_store.lookup_stored)

text \<open>
  \<open>hash_stores K ctx C k m f m'\<close>: the key was updated to hold exactly the fields \<open>f\<close>, as
  the nil map if there are none, and nothing else changed.
\<close>

definition hash_stores :: "bytes set \<Rightarrow> go_context \<Rightarrow> codec \<Rightarrow> string \<Rightarrow> (bytes \<rightharpoonup> bytes) \<Rightarrow> (string \<rightharpoonup> bytes) \<Rightarrow> (bytes \<rightharpoonup> bytes) \<Rightarrow> bool" where
  "hash_stores K ctx C k m f m' \<longleftrightarrow>
     (\<exists>h. hash_read C (newKey k) m' = Inr h \<and> map_wf (Hash_Value h) \<and> map_get (Hash_Value h) = f \<and>
        (Hash_Value h = None \<longleftrightarrow> f = Map.empty)) \<and>
     updated K ctx (newKey k) m m'"

lemma hash_stores_fields: "hash_stores K ctx C k m f m' \<Longrightarrow> fields_of C k m' = f"
  by (auto simp: hash_stores_def fields_of_def)

lemma map_get_empty: "map_get v = Map.empty \<longleftrightarrow> map_entries v = []"
  by (simp add: map_get_def [abs_def])

lemma hash_write:
  assumes "usable K ctx (newKey k) m" and "\<not> key_held (newKey k) m" and "proto_ok C"
    and "map_wf (Hash_Value h)" and "Hash_Key h = k"
    and "body (hash_read C (newKey k) m) = UnlockThenSetHash E C h"
  shows "\<exists>m'. runs (stores E kv K m)
      (and_then (Lock E ctx (newKey k)) (\<lambda>_. and_then (attempt (GetHash E C (newKey k))) body)) (Ok ())
      (stores E kv K m') \<and> hash_stores K ctx C k m (map_get (Hash_Value h)) m'"
proof -
  have wf: "map_wf (Hash_Value (h\<lparr>Hash_Key := []\<rparr>))" using assms(4) by simp
  obtain b h' where b: "MarshalHash C (h\<lparr>Hash_Key := []\<rparr>) = Inr b" "UnmarshalHash C b = Inr h'"
      and h': "hash_decodes (h\<lparr>Hash_Key := []\<rparr>) h'"
    using MarshalHash_ok [OF assms(3) wf] by blast
  have "UnlockThenSetHash E C h = commit_value E (newKey k) b"
    using b(1) assms(5) by (simp add: UnlockThenSetHash_def commit_newKey)
  then have "runs (stores E kv K m)
      (and_then (Lock E ctx (newKey k)) (\<lambda>_. and_then (attempt (GetHash E C (newKey k))) body)) (Ok ())
      (stores E kv K (key_stored (newKey k) b (key_unlocked (newKey k) m)))"
    by (intro hashes.update_commit_last [OF assms(1,2)]) (use assms(6) in \<open>simp add: hash_read_def\<close>)
  moreover have "hash_stores K ctx C k m (map_get (Hash_Value h)) (key_stored (newKey k) b (key_unlocked (newKey k) m))"
    using hash_read_stored [OF b(2), of "newKey k" "key_unlocked (newKey k) m"] updated_stored [OF assms(1), of b] h'
    by (auto simp: hash_stores_def hash_decodes_def map_get_empty)
  ultimately show ?thesis by blast
qed

section \<open>What the operations do\<close>

lemma SetHashField_ok:
  assumes "usable K ctx (newKey (HashField_Key hf)) m" and "\<not> key_held (newKey (HashField_Key hf)) m" and "proto_ok C"
    and "if_missing (newHash (Some [])) (hash_read C (newKey (HashField_Key hf)) m) = Inr h"
    and "map_wf (Hash_Value h)" and "Hash_Value h \<noteq> None"
  shows "\<exists>m'. runs (stores E kv K m) (SetHashField E C ctx hf) (Ok ()) (stores E kv K m') \<and>
    hash_stores K ctx C (HashField_Key hf) m
      ((map_get (Hash_Value h))(HashField_Field hf \<mapsto> HashField_Value hf)) m'"
proof -
  obtain v where v: "map_put (HashField_Field hf) (HashField_Value hf) (Hash_Value h) = Some v"
    using fields.put_writable [OF assms(6)] by blast
  have wf: "map_wf v" and get: "map_get v = (map_get (Hash_Value h))(HashField_Field hf \<mapsto> HashField_Value hf)"
    using fields.put_wf [OF assms(5) v] fields.put_get [OF v] by auto
  have "\<exists>m'. runs (stores E kv K m) (SetHashField E C ctx hf) (Ok ()) (stores E kv K m') \<and>
    hash_stores K ctx C (HashField_Key hf) m
      (map_get (Hash_Value (h\<lparr>Hash_Key := HashField_Key hf, Hash_Value := v\<rparr>))) m'"
    unfolding SetHashField_def Let_def by (rule hash_write [OF assms(1-3)]) (use assms(4) v wf in simp_all)
  then show ?thesis by (simp add: get)
qed

text \<open>A stored hash without fields is decoded to a nil map, and the write to it panics.\<close>

lemma SetHashField_nil:
  assumes "usable K ctx (newKey (HashField_Key hf)) m" and "\<not> key_held (newKey (HashField_Key hf)) m"
    and "hash_read C (newKey (HashField_Key hf)) m = Inr h" and "Hash_Value h = None"
  shows "runs (stores E kv K m) (SetHashField E C ctx hf) Panic (stores E kv K (key_locked (newKey (HashField_Key hf)) m))"
  unfolding SetHashField_def Let_def
  by (rule hashes.update_panic [OF assms(1,2), where C = C])
    (use assms(3,4) in \<open>simp add: hash_read_def fields.put_nil\<close>)

lemma SetHashFields_ok:
  assumes "usable K ctx (newKey (Hash_Key ah)) m" and "\<not> key_held (newKey (Hash_Key ah)) m" and "proto_ok C"
    and "if_missing (newHash (Some [])) (hash_read C (newKey (Hash_Key ah)) m) = Inr h"
    and "map_wf (Hash_Value h)" and "Hash_Value h \<noteq> None" and "map_wf (Hash_Value ah)"
  shows "\<exists>m'. runs (stores E kv K m) (SetHashFields E C ctx ah) (Ok ()) (stores E kv K m') \<and>
    hash_stores K ctx C (Hash_Key ah) m (map_get (Hash_Value h) ++ map_get (Hash_Value ah)) m'"
proof -
  let ?es = "map_entries (Hash_Value ah)"
  obtain v where v: "put_all map_put ?es (Hash_Value h) = Some v" "map_wf v"
      and get: "map_get v = map_get (Hash_Value h) ++ map_of (rev ?es)"
    using fields.put_all_writable [OF assms(6,5), of ?es] by auto
  have "distinct (map fst ?es)" using assms(7) by (simp add: map_wf_def)
  then have "map_of (rev ?es) = map_get (Hash_Value ah)"
    using map_of_inject_set [of "rev ?es" ?es] by (simp add: map_get_def [abs_def] rev_map [symmetric])
  then have get: "map_get v = map_get (Hash_Value h) ++ map_get (Hash_Value ah)" by (simp add: get)
  have "\<exists>m'. runs (stores E kv K m) (SetHashFields E C ctx ah) (Ok ()) (stores E kv K m') \<and>
    hash_stores K ctx C (Hash_Key ah) m
      (map_get (Hash_Value (h\<lparr>Hash_Key := Hash_Key ah, Hash_Value := v\<rparr>))) m'"
    unfolding SetHashFields_def Let_def by (rule hash_write [OF assms(1-3)]) (use assms(4) v in simp_all)
  then show ?thesis by (simp add: get)
qed

lemma DelHashField_ok:
  assumes "usable K ctx (newKey (HashField_Key hf)) m" and "\<not> key_held (newKey (HashField_Key hf)) m" and "proto_ok C"
    and "hash_read C (newKey (HashField_Key hf)) m = Inr h" and "map_wf (Hash_Value h)"
  shows "\<exists>m'. runs (stores E kv K m) (DelHashField E C ctx hf) (Ok ()) (stores E kv K m') \<and>
    hash_stores K ctx C (HashField_Key hf) m ((map_get (Hash_Value h))(HashField_Field hf := None)) m'"
proof -
  let ?h = "h\<lparr>Hash_Key := HashField_Key hf, Hash_Value := map_delete (HashField_Field hf) (Hash_Value h)\<rparr>"
  have "\<exists>m'. runs (stores E kv K m) (DelHashField E C ctx hf) (Ok ()) (stores E kv K m') \<and>
    hash_stores K ctx C (HashField_Key hf) m (map_get (Hash_Value ?h)) m'"
    unfolding DelHashField_def Let_def
    by (rule hash_write [OF assms(1-3)]) (use assms(4,5) fields.del_wf in simp_all)
  then show ?thesis by (simp add: fields.del_get)
qed

section \<open>Reading\<close>

lemma GetHash_read:
  assumes "usable K ctx k m"
  shows "runs (stores E kv K m) (GetHash E C k) (case hash_read C k m of Inl e \<Rightarrow> Err e | Inr h \<Rightarrow> Ok h) (stores E kv K m)"
  unfolding hash_read_def by (rule hashes.tget_runs [OF assms])

lemma GetHashField_read:
  assumes "usable K ctx (newKey (HashField_Key hf)) m" and "hash_read C (newKey (HashField_Key hf)) m = Inr h"
  shows "runs (stores E kv K m) (GetHashField E C hf)
    (case map_get (Hash_Value h) (HashField_Field hf) of None \<Rightarrow> Err ErrHashFieldNotFound | Some b \<Rightarrow> Ok (newByteValue b))
    (stores E kv K m)"
proof -
  have get: "runs (stores E kv K m) (GetHash E C (newKey (HashField_Key hf))) (Ok h) (stores E kv K m)"
    using GetHash_read [OF assms(1), of E kv C] assms(2) by simp
  show ?thesis
    unfolding GetHashField_def
    by (rule runs_and_then [OF get]) (simp add: runs_ret runs_throw split: option.splits)
qed

lemma map_of_present_fields:
  "map_of (rev (present_fields h fs)) = (\<lambda>f. if f \<in> set fs then map_get h f else None)"
proof (induction fs)
  case (Cons f fs)
  have "rev (present_fields h (f # fs)) =
      rev (present_fields h fs) @ (case map_get h f of Some b \<Rightarrow> [(f, b)] | None \<Rightarrow> [])"
    by (simp add: present_fields_def split: option.splits)
  then show ?case
    by (auto simp: Cons.IH fun_eq_iff map_add_def split: option.splits)
qed (simp add: present_fields_def)

lemma GetHashFields_read:
  assumes "usable K ctx (newKey (HashFieldSet_Key hs)) m" and "hash_read C (newKey (HashFieldSet_Key hs)) m = Inr h"
  shows "\<exists>nh. runs (stores E kv K m) (GetHashFields E C hs) (Ok (newHash nh)) (stores E kv K m) \<and> map_wf nh \<and>
    map_get nh = (\<lambda>f. if f \<in> set (HashFieldSet_Field hs) then map_get (Hash_Value h) f else None)"
proof -
  have get: "runs (stores E kv K m) (GetHash E C (newKey (HashFieldSet_Key hs))) (Ok h) (stores E kv K m)"
    using GetHash_read [OF assms(1), of E kv C] assms(2) by simp
  obtain nh where nh: "put_all map_put (present_fields (Hash_Value h) (HashFieldSet_Field hs)) (Some []) = Some nh"
      "map_wf nh" "map_get nh = map_get (Some []) ++ map_of (rev (present_fields (Hash_Value h) (HashFieldSet_Field hs)))"
    using fields.put_all_writable [of "Some []" "present_fields (Hash_Value h) (HashFieldSet_Field hs)"]
    by (auto simp: map_wf_def map_entries_def)
  have "runs (stores E kv K m) (GetHashFields E C hs) (Ok (newHash nh)) (stores E kv K m)"
    unfolding GetHashFields_def by (rule runs_and_then [OF get]) (simp add: nh(1) runs_ret)
  moreover have "map_get nh = (\<lambda>f. if f \<in> set (HashFieldSet_Field hs) then map_get (Hash_Value h) f else None)"
    unfolding nh(3) map_of_present_fields
    by (auto simp: map_add_def map_get_def [of "Some []"] map_entries_def fun_eq_iff split: option.splits)
  ultimately show ?thesis using nh(2) by blast
qed

text \<open>
  The fields are sorted, so the answers depend on what the hash holds and not on the order
  the map was walked in.
\<close>

definition sorted_fields :: "(string \<rightharpoonup> bytes) \<Rightarrow> string list" where
  "sorted_fields f = sorted_list_of_set (dom f)"

lemma sort_entries:
  assumes "map_wf v"
  shows "sort (map fst (map_entries v)) = sorted_fields (map_get v)"
proof -
  have "dom (map_get v) = set (map fst (map_entries v))"
    by (simp add: map_get_def [abs_def] dom_map_of_conv_image_fst)
  then show ?thesis
    using assms unfolding sorted_fields_def map_wf_def
    by (simp only: sorted_list_of_set_sort_remdups distinct_remdups_id)
qed

lemma HashFields_read:
  assumes "usable K ctx k m" and "hash_read C k m = Inr h" and "map_wf (Hash_Value h)"
  shows "runs (stores E kv K m) (HashFields E C k) (Ok (sorted_fields (map_get (Hash_Value h)))) (stores E kv K m)"
proof -
  have get: "runs (stores E kv K m) (GetHash E C k) (Ok h) (stores E kv K m)"
    using GetHash_read [OF assms(1), of E kv C] assms(2) by simp
  show ?thesis
    unfolding HashFields_def by (rule runs_and_then [OF get]) (simp add: sort_entries [OF assms(3)] runs_ret)
qed

lemma HashValues_read:
  assumes "usable K ctx k m" and "hash_read C k m = Inr h" and "map_wf (Hash_Value h)"
  shows "runs (stores E kv K m) (HashValues E C k)
    (Ok (newList (map (\<lambda>f. the (map_get (Hash_Value h) f)) (sorted_fields (map_get (Hash_Value h)))))) (stores E kv K m)"
proof -
  let ?f = "map_get (Hash_Value h)"
  have get: "runs (stores E kv K m) (GetHash E C k) (Ok h) (stores E kv K m)"
    using GetHash_read [OF assms(1), of E kv C] assms(2) by simp
  have "finite (dom ?f)" by (simp add: map_get_def [abs_def] finite_dom_map_of)
  then have "set (sorted_fields ?f) = dom ?f" by (simp add: sorted_fields_def)
  then have eq: "map (\<lambda>key. case ?f key of Some b \<Rightarrow> b | None \<Rightarrow> []) (sorted_fields ?f) =
      map (\<lambda>f. the (?f f)) (sorted_fields ?f)"
    by (auto split: option.splits)
  show ?thesis
    unfolding HashValues_def Let_def
    by (rule runs_and_then [OF get]) (simp only: sort_entries [OF assms(3)] eq runs_ret)
qed

end
