(* ===== verification/Server_Ints.thy ===== *)
theory Server_Ints
  imports Server_Bytes
begin

text \<open>Integers (\<open>mydis/type_int.go\<close>): 64-bit values, stored in their protobuf encoding.\<close>

definition GetInt :: "'s etcd \<Rightarrow> codec \<Rightarrow> pb_Key \<Rightarrow> ('s, pb_IntValue) handler" where
  "GetInt E C key = and_then (Get E key)
     (\<lambda>bv. case unmarshalled (UnmarshalInt C (ByteValue_Value bv)) of Inl e \<Rightarrow> throw e | Inr iv \<Rightarrow> ret iv)"

definition SetInt :: "'s etcd \<Rightarrow> codec \<Rightarrow> go_context \<Rightarrow> pb_IntValue \<Rightarrow> ('s, pb_Null) handler" where
  "SetInt E C ctx iv = (case MarshalInt C iv of
     Inl msg \<Rightarrow> throw (Other msg)
   | Inr b \<Rightarrow> Set E ctx \<lparr>ByteValue_Key = IntValue_Key iv, ByteValue_Value = b\<rparr>)"

definition IncrementInt :: "'s etcd \<Rightarrow> codec \<Rightarrow> go_context \<Rightarrow> pb_IntValue \<Rightarrow> ('s, pb_IntValue) handler" where
  "IncrementInt E C ctx iv =
     (let key = newKey (IntValue_Key iv) in
      and_then (Lock E ctx key) (\<lambda>_.
      and_then (attempt (GetInt E C key)) (\<lambda>r.
      case if_missing \<lparr>IntValue_Key = [], IntValue_Value = 0\<rparr> r of
        Inl err \<Rightarrow> unlock_fail E ctx key err
      | Inr oldiv \<Rightarrow>
          let newval = \<lparr>IntValue_Key = [], IntValue_Value = IntValue_Value oldiv + IntValue_Value iv\<rparr> in
          (case MarshalInt C newval of
             Inl msg \<Rightarrow> unlock_fail E ctx key (Other msg)
           | Inr b \<Rightarrow> and_then (UnlockThenSet E \<lparr>ByteValue_Key = IntValue_Key iv, ByteValue_Value = b\<rparr>)
               (\<lambda>_. ret newval)))))"

definition DecrementInt :: "'s etcd \<Rightarrow> codec \<Rightarrow> go_context \<Rightarrow> pb_IntValue \<Rightarrow> ('s, pb_IntValue) handler" where
  "DecrementInt E C ctx iv = IncrementInt E C ctx (iv\<lparr>IntValue_Value := IntValue_Value iv * - 1\<rparr>)"

section \<open>The typed view\<close>

definition decode_int :: "codec \<Rightarrow> pb_ByteValue \<Rightarrow> go_error + pb_IntValue" where
  "decode_int C bv = unmarshalled (UnmarshalInt C (ByteValue_Value bv))"

interpretation ints: typed_store "stores E kv K" "usable K ctx" key_held key_value key_locked key_unlocked
  key_stored newByteValue "Lock E ctx" "Unlock E ctx" "Get E" "commit_value E" ErrKeyLocked ErrKeyNotFound
  "decode_int C" "GetInt E C"
  for E :: "'s etcd" and kv K ctx C
  by unfold_locales (simp add: GetInt_def decode_int_def)

definition int_read :: "codec \<Rightarrow> pb_Key \<Rightarrow> (bytes \<rightharpoonup> bytes) \<Rightarrow> go_error + pb_IntValue" where
  "int_read C k m = fetched ErrKeyNotFound (decode_int C) (key_value k m)"

lemma IncrementInt_error:
  assumes "usable K ctx (newKey (IntValue_Key iv)) m" and "\<not> key_held (newKey (IntValue_Key iv)) m"
    and "int_read C (newKey (IntValue_Key iv)) m = Inl e" and "e \<noteq> ErrKeyNotFound"
  shows "runs (stores E kv K m) (IncrementInt E C ctx iv) (Err e)
    (stores E kv K (key_unlocked (newKey (IntValue_Key iv)) m))"
  unfolding IncrementInt_def Let_def
  by (rule ints.update_abort [OF assms(1,2), where C = C])
    (use assms(3,4) in \<open>simp add: int_read_def unlock_fail_def\<close>)

lemma IncrementInt_value:
  assumes "usable K ctx (newKey (IntValue_Key iv)) m" and "\<not> key_held (newKey (IntValue_Key iv)) m"
    and "if_missing \<lparr>IntValue_Key = [], IntValue_Value = 0\<rparr> (int_read C (newKey (IntValue_Key iv)) m) = Inr old"
    and "MarshalInt C \<lparr>IntValue_Key = [], IntValue_Value = IntValue_Value old + IntValue_Value iv\<rparr> = Inr b"
  shows "runs (stores E kv K m) (IncrementInt E C ctx iv)
    (Ok \<lparr>IntValue_Key = [], IntValue_Value = IntValue_Value old + IntValue_Value iv\<rparr>)
    (stores E kv K (key_stored (newKey (IntValue_Key iv)) b (key_unlocked (newKey (IntValue_Key iv)) m)))"
  unfolding IncrementInt_def Let_def
  by (rule ints.update_commit [OF assms(1,2), where C = C])
    (use assms(3,4) in \<open>simp add: int_read_def commit_newKey\<close>)

lemma IncrementInt_busy:
  assumes "usable K ctx (newKey (IntValue_Key iv)) m" and "key_held (newKey (IntValue_Key iv)) m"
  shows "runs (stores E kv K m) (IncrementInt E C ctx iv) (Err ErrKeyLocked) (stores E kv K m)"
  unfolding IncrementInt_def Let_def by (rule byte_store.with_lock_busy [OF assms])

text \<open>A decoded integer is read back.\<close>

lemma MarshalInt_ok: "proto_ok C \<Longrightarrow> \<exists>b. MarshalInt C iv = Inr b \<and> UnmarshalInt C b = Inr iv"
  by (simp add: proto_ok_def)

lemma int_read_stored:
  "UnmarshalInt C b = Inr iv \<Longrightarrow> int_read C k (key_stored k b m) = Inr iv"
  by (simp add: int_read_def fetched_def decode_int_def byte_store.lookup_stored)

text \<open>With a codec that round trips, the increment of what the key holds is stored and returned.\<close>

lemma IncrementInt_ok:
  assumes "usable K ctx (newKey (IntValue_Key iv)) m" and "\<not> key_held (newKey (IntValue_Key iv)) m"
    and "if_missing \<lparr>IntValue_Key = [], IntValue_Value = 0\<rparr> (int_read C (newKey (IntValue_Key iv)) m) = Inr old"
    and "proto_ok C"
  shows "\<exists>m'. runs (stores E kv K m) (IncrementInt E C ctx iv)
      (Ok \<lparr>IntValue_Key = [], IntValue_Value = IntValue_Value old + IntValue_Value iv\<rparr>) (stores E kv K m') \<and>
    int_read C (newKey (IntValue_Key iv)) m' =
      Inr \<lparr>IntValue_Key = [], IntValue_Value = IntValue_Value old + IntValue_Value iv\<rparr> \<and>
    updated K ctx (newKey (IntValue_Key iv)) m m'"
proof -
  let ?new = "\<lparr>IntValue_Key = [], IntValue_Value = IntValue_Value old + IntValue_Value iv\<rparr>"
  obtain b where b: "MarshalInt C ?new = Inr b" "UnmarshalInt C b = Inr ?new"
    using MarshalInt_ok [OF assms(4), of ?new] by blast
  from IncrementInt_value [OF assms(1-3) b(1)] int_read_stored [OF b(2)] updated_stored [OF assms(1)]
  show ?thesis by blast
qed

lemma SetInt_free:
  assumes "\<not> invalid_key (IntValue_Key iv)" and "getLockName (IntValue_Key iv) \<in> K"
    and "m (getLockName (IntValue_Key iv)) \<noteq> Some ZeroByte" and "MarshalInt C iv = Inr b"
  shows "runs (stores E kv K m) (SetInt E C ctx iv) (Ok ())
    (stores E kv K (m(StringToBytes (IntValue_Key iv) \<mapsto> b)))"
  using Set_free [of "\<lparr>ByteValue_Key = IntValue_Key iv, ByteValue_Value = b\<rparr>" K m E kv ctx] assms
  by (simp add: SetInt_def)

lemma GetInt_read:
  assumes "usable K ctx k m"
  shows "runs (stores E kv K m) (GetInt E C k) (case int_read C k m of Inl e \<Rightarrow> Err e | Inr iv \<Rightarrow> Ok iv) (stores E kv K m)"
  unfolding int_read_def by (rule ints.tget_runs [OF assms])

end
