(* ===== verification/Float64.thy ===== *)
theory Float64
  imports Messages "HOL-Library.Log_Nat"
begin

text \<open>
  The arithmetic of Go's \<open>float64\<close> that the float operations use: addition and the product
  with \<open>-1\<close>, IEEE 754 double precision with rounding to nearest, ties to even, on the bit
  pattern of the number.  Where the standard leaves the payload of a NaN open, the result
  is the one of the amd64 instructions.

  Every finite double is an integer multiple of \<open>2^-1074\<close>, so a sum is exact in these
  units; \<open>encode\<close> rounds a number of units to the nearest double.
\<close>

unbundle bit_operations_syntax

section \<open>The parts of a number\<close>

definition float_sign :: "float64 \<Rightarrow> bool" where
  "float_sign x \<longleftrightarrow> bit x 63"

definition float_exp :: "float64 \<Rightarrow> nat" where
  "float_exp x = unat x div 2 ^ 52 mod 2 ^ 11"

definition float_frac :: "float64 \<Rightarrow> nat" where
  "float_frac x = unat x mod 2 ^ 52"

definition is_NaN :: "float64 \<Rightarrow> bool" where
  "is_NaN x \<longleftrightarrow> float_exp x = 2047 \<and> float_frac x \<noteq> 0"

definition is_Inf :: "float64 \<Rightarrow> bool" where
  "is_Inf x \<longleftrightarrow> float_exp x = 2047 \<and> float_frac x = 0"

text \<open>The magnitude of a finite number, and the number itself, in units.\<close>

definition magnitude :: "nat \<Rightarrow> nat" where
  "magnitude bits = (let e = bits div 2 ^ 52; f = bits mod 2 ^ 52 in
     if e = 0 then f else (2 ^ 52 + f) * 2 ^ (e - 1))"

definition units :: "float64 \<Rightarrow> int" where
  "units x = (let n = int (magnitude (unat x mod 2 ^ 63)) in if float_sign x then - n else n)"

section \<open>Rounding\<close>

text \<open>
  A number of units is cut to 53 significant bits, dropping \<open>q\<close>; the bits of the
  magnitude are then \<open>q * 2^52\<close> plus the rounded significand, a carry out of the
  significand moving into the exponent, and from \<open>2047 * 2^52\<close> on it is infinity.
\<close>

definition round_even :: "nat \<Rightarrow> nat \<Rightarrow> nat" where
  "round_even n q = (let m = n div 2 ^ q; r = n mod 2 ^ q in
     if 2 ^ q < 2 * r \<or> (2 * r = 2 ^ q \<and> odd m) then m + 1 else m)"

definition dropped :: "nat \<Rightarrow> nat" where
  "dropped n = floorlog 2 n - 53"

definition encode :: "nat \<Rightarrow> nat" where
  "encode n = min (dropped n * 2 ^ 52 + round_even n (dropped n)) (2047 * 2 ^ 52)"

definition with_sign :: "bool \<Rightarrow> nat \<Rightarrow> float64" where
  "with_sign s bits = of_nat (bits + (if s then 2 ^ 63 else 0))"

definition float_of_units :: "int \<Rightarrow> float64" where
  "float_of_units i = with_sign (i < 0) (encode (nat \<bar>i\<bar>))"

section \<open>Arithmetic\<close>

definition quiet :: "float64 \<Rightarrow> float64" where
  "quiet x = x OR 0x8000000000000"

definition float_add :: "float64 \<Rightarrow> float64 \<Rightarrow> float64" where
  "float_add x y =
     (if is_NaN x then quiet x
      else if is_NaN y then quiet y
      else if is_Inf x \<and> is_Inf y \<and> float_sign x \<noteq> float_sign y then 0xFFF8000000000000
      else if is_Inf x then x
      else if is_Inf y then y
      else let s = units x + units y in
        if s = 0 then with_sign (float_sign x \<and> float_sign y) 0 else float_of_units s)"

text \<open>\<open>x * -1\<close>: the product is exact, only the sign changes.\<close>

definition float_times_minus_one :: "float64 \<Rightarrow> float64" where
  "float_times_minus_one x = (if is_NaN x then quiet x else x XOR 0x8000000000000000)"

section \<open>Facts\<close>

lemma encode_small: "n < 2 ^ 53 \<Longrightarrow> encode n = n"
proof -
  assume n: "n < 2 ^ 53"
  have "floorlog 2 n \<le> 53"
  proof (cases "n = 0")
    case False
    then have "2 ^ (floorlog 2 n - 1) \<le> n" using floorlog_bounds [of n 2] by simp
    with n have "(2::nat) ^ (floorlog 2 n - 1) < 2 ^ 53" by linarith
    then have "floorlog 2 n - 1 < 53" by (simp only: power_strict_increasing_iff)
    then show ?thesis by simp
  qed (simp add: floorlog_def)
  then show ?thesis using n by (simp add: encode_def dropped_def round_even_def)
qed

lemma magnitude_small: "n < 2 ^ 53 \<Longrightarrow> magnitude n = n"
proof -
  assume n: "n < 2 ^ 53"
  show ?thesis
  proof (cases "n < 2 ^ 52")
    case False
    then have "n div 2 ^ 52 = 1" "n mod 2 ^ 52 = n - 2 ^ 52"
      using n by (simp_all add: div_if mod_if)
    then show ?thesis using False by (simp add: magnitude_def)
  qed (simp add: magnitude_def)
qed

text \<open>The significand of a number of units has at most 53 bits, at least when any are dropped.\<close>

lemma dropped_bounds:
  assumes "0 < dropped n"
  shows "2 ^ (52 + dropped n) \<le> n" and "n < 2 ^ (dropped n + 53)"
proof -
  have "0 < n" using assms by (cases n) (simp_all add: dropped_def floorlog_def)
  then have "2 ^ (floorlog 2 n - 1) \<le> n \<and> n < 2 ^ floorlog 2 n" using floorlog_bounds [of n 2] by simp
  moreover have "floorlog 2 n = dropped n + 53" using assms by (simp add: dropped_def)
  ultimately show "2 ^ (52 + dropped n) \<le> n" and "n < 2 ^ (dropped n + 53)" by simp_all
qed

lemma dropped_zero: "dropped n = 0 \<Longrightarrow> n < 2 ^ 53"
proof -
  assume "dropped n = 0"
  then have "floorlog 2 n \<le> 53" by (simp add: dropped_def)
  then have "(2::nat) ^ floorlog 2 n \<le> 2 ^ 53" by (rule power_increasing) simp
  moreover have "n < 2 ^ floorlog 2 n"
    using floorlog_bounds [of n 2] by (cases "n = 0") simp_all
  ultimately show ?thesis by linarith
qed

lemma round_even_bounds:
  assumes "2 ^ 52 * 2 ^ q \<le> n" and "n < 2 ^ 53 * 2 ^ q"
  shows "2 ^ 52 \<le> round_even n q" and "round_even n q \<le> 2 ^ 53"
proof -
  have "2 ^ 52 \<le> n div 2 ^ q" using assms(1) by (simp add: less_eq_div_iff_mult_less_eq)
  moreover have "n div 2 ^ q < 2 ^ 53" using assms(2) by (simp add: div_less_iff_less_mult)
  ultimately show "2 ^ 52 \<le> round_even n q" and "round_even n q \<le> 2 ^ 53"
    by (simp_all add: round_even_def Let_def)
qed

lemma round_even_error: "2 * \<bar>int (round_even n q * 2 ^ q) - int n\<bar> \<le> 2 ^ q"
proof -
  have "int (n div 2 ^ q * 2 ^ q + n mod 2 ^ q) = int n" by (simp only: div_mult_mod_eq)
  then have n: "int n = int (n div 2 ^ q) * 2 ^ q + int (n mod 2 ^ q)"
    by (simp only: of_nat_add of_nat_mult of_nat_power of_nat_numeral)
  have "n mod 2 ^ q < 2 ^ q" by simp
  then have "int (n mod 2 ^ q) < int (2 ^ q)" by (simp only: of_nat_less_iff)
  then have r: "int (n mod 2 ^ q) < 2 ^ q" by (simp only: of_nat_power of_nat_numeral)
  show ?thesis
  proof (cases "2 ^ q < 2 * (n mod 2 ^ q) \<or> (2 * (n mod 2 ^ q) = 2 ^ q \<and> odd (n div 2 ^ q))")
    case True
    then have "round_even n q = n div 2 ^ q + 1" by (simp add: round_even_def)
    moreover have "2 ^ q \<le> 2 * (n mod 2 ^ q)" using True by linarith
    then have "int (2 ^ q) \<le> int (2 * (n mod 2 ^ q))" by (simp only: of_nat_le_iff)
    then have "2 ^ q \<le> 2 * int (n mod 2 ^ q)" by (simp only: of_nat_power of_nat_mult of_nat_numeral)
    ultimately show ?thesis using n r by (simp add: abs_le_iff distrib_right)
  next
    case False
    then have "round_even n q = n div 2 ^ q" by (auto simp: round_even_def Let_def)
    moreover have "2 * (n mod 2 ^ q) \<le> 2 ^ q" using False by linarith
    then have "int (2 * (n mod 2 ^ q)) \<le> int (2 ^ q)" by (simp only: of_nat_le_iff)
    then have "2 * int (n mod 2 ^ q) \<le> 2 ^ q" by (simp only: of_nat_power of_nat_mult of_nat_numeral)
    ultimately show ?thesis using n r by (simp add: abs_le_iff distrib_right)
  qed
qed

text \<open>A significand with its exponent is read back as that significand shifted.\<close>

lemma magnitude_encode:
  assumes "2 ^ 52 \<le> m" and "m \<le> 2 ^ 53"
  shows "magnitude (q * 2 ^ 52 + m) = m * 2 ^ q"
proof (cases "m = 2 ^ 53")
  case True
  then have "q * 2 ^ 52 + m = (q + 2) * 2 ^ 52" by simp
  then have "(q * 2 ^ 52 + m) div 2 ^ 52 = q + 2" "(q * 2 ^ 52 + m) mod 2 ^ 52 = 0"
    by (simp_all only: nonzero_mult_div_cancel_right mod_mult_self2_is_0) simp
  then show ?thesis using True by (simp add: magnitude_def)
next
  case False
  then have "m - 2 ^ 52 < 2 ^ 52" using assms by simp
  moreover have "q * 2 ^ 52 + m = (q + 1) * 2 ^ 52 + (m - 2 ^ 52)" using assms by simp
  ultimately have "(q * 2 ^ 52 + m) div 2 ^ 52 = q + 1" "(q * 2 ^ 52 + m) mod 2 ^ 52 = m - 2 ^ 52"
    by (simp_all only: div_mult_self3 mod_mult_self3) simp_all
  then show ?thesis using assms by (simp add: magnitude_def)
qed

text \<open>The nearest double is within half a unit of the last place.\<close>

lemma encode_error:
  assumes "dropped n * 2 ^ 52 + round_even n (dropped n) < 2047 * 2 ^ 52"
  shows "2 * \<bar>int (magnitude (encode n)) - int n\<bar> \<le> 2 ^ dropped n"
proof (cases "dropped n = 0")
  case True
  then show ?thesis
    using dropped_zero [OF True] by (simp add: encode_small magnitude_small)
next
  case False
  let ?q = "dropped n"
  have b: "2 ^ 52 * 2 ^ ?q \<le> n" "n < 2 ^ 53 * 2 ^ ?q"
    using dropped_bounds [of n] False by (simp_all add: power_add mult.commute)
  have "magnitude (encode n) = round_even n ?q * 2 ^ ?q"
    using magnitude_encode [OF round_even_bounds [OF b]] assms by (simp add: encode_def)
  then show ?thesis using round_even_error [of n ?q] by simp
qed

section \<open>The sum\<close>

lemma with_sign_parts:
  assumes "bits < 2 ^ 63"
  shows "unat (with_sign s bits) mod 2 ^ 63 = bits" and "float_sign (with_sign s bits) = s"
proof -
  have u: "unat (with_sign s bits) = bits + (if s then 2 ^ 63 else 0)"
    using assms by (simp add: with_sign_def unat_of_nat del: of_nat_add)
  with assms show "unat (with_sign s bits) mod 2 ^ 63 = bits" by (cases s) simp_all
  have "bit (with_sign s bits) 63 = odd (unat (with_sign s bits) div 2 ^ 63)"
  proof -
    have "bit (unat (with_sign s bits)) 63 = bit (with_sign s bits) 63" by (simp add: bit_unsigned_iff)
    then show ?thesis by (simp only: bit_iff_odd [of "unat (with_sign s bits)"])
  qed
  then show "float_sign (with_sign s bits) = s" using assms u by (cases s) (simp_all add: float_sign_def)
qed

lemma encode_le: "encode n \<le> 2047 * 2 ^ 52"
  by (simp add: encode_def)

lemma units_float_of_units:
  "units (float_of_units i) = (if i < 0 then - int (magnitude (encode (nat \<bar>i\<bar>))) else int (magnitude (encode (nat \<bar>i\<bar>))))"
proof -
  have "encode (nat \<bar>i\<bar>) < 2 ^ 63" using encode_le [of "nat \<bar>i\<bar>"] by simp
  from with_sign_parts [OF this] show ?thesis by (simp add: float_of_units_def units_def)
qed

definition finite_float :: "float64 \<Rightarrow> bool" where
  "finite_float x \<longleftrightarrow> float_exp x < 2047"

lemma finite_float_iff: "finite_float x \<longleftrightarrow> \<not> is_NaN x \<and> \<not> is_Inf x"
proof -
  have "float_exp x < 2048" by (simp add: float_exp_def)
  then show ?thesis by (auto simp: finite_float_def is_NaN_def is_Inf_def)
qed

text \<open>
  The sum of two finite numbers is within half a unit of the last place of the exact sum,
  unless it overflows.
\<close>

lemma float_add_error:
  assumes "finite_float x" and "finite_float y"
    and "s = units x + units y" and "encode (nat \<bar>s\<bar>) < 2047 * 2 ^ 52"
  shows "2 * \<bar>units (float_add x y) - s\<bar> \<le> 2 ^ dropped (nat \<bar>s\<bar>)"
proof (cases "s = 0")
  case True
  have "units (with_sign c 0) = 0" for c
    using with_sign_parts [of 0 c] by (simp add: units_def magnitude_def)
  then show ?thesis using assms True by (simp add: float_add_def finite_float_iff)
next
  case False
  let ?n = "nat \<bar>s\<bar>"
  have "dropped ?n * 2 ^ 52 + round_even ?n (dropped ?n) < 2047 * 2 ^ 52"
    using assms(4) unfolding encode_def by linarith
  from encode_error [OF this] have e: "2 * \<bar>int (magnitude (encode ?n)) - \<bar>s\<bar>\<bar> \<le> 2 ^ dropped ?n" by simp
  have "float_add x y = float_of_units s"
    using assms(1-3) False by (simp add: float_add_def finite_float_iff Let_def)
  then show ?thesis using e by (cases "s < 0") (auto simp: units_float_of_units abs_le_iff abs_if split: if_splits)
qed

lemma float_add_commute:
  assumes "finite_float x" and "finite_float y"
  shows "float_add x y = float_add y x"
  using assms by (simp add: float_add_def finite_float_iff Let_def add.commute conj_commute)

end
