(* ===== verification/Server_Floats.thy ===== *)
theory Server_Floats
  imports Server_Bytes Float64
begin

text \<open>Floating-point numbers (\<open>mydis/type_float.go\<close>), stored in their protobuf encoding.\<close>

definition GetFloat :: "'s etcd \<Rightarrow> codec \<Rightarrow> pb_Key \<Rightarrow> ('s, pb_FloatValue) handler" where
  "GetFloat E C key = and_then (Get E key)
     (\<lambda>bv. case unmarshalled (UnmarshalFloat C (ByteValue_Value bv)) of Inl e \<Rightarrow> throw e | Inr fv \<Rightarrow> ret fv)"

definition SetFloat :: "'s etcd \<Rightarrow> codec \<Rightarrow> go_context \<Rightarrow> pb_FloatValue \<Rightarrow> ('s, pb_Null) handler" where
  "SetFloat E C ctx fv = (case MarshalFloat C fv of
     Inl msg \<Rightarrow> throw (Other msg)
   | Inr b \<Rightarrow> Set E ctx \<lparr>ByteValue_Key = FloatValue_Key fv, ByteValue_Value = b\<rparr>)"

definition IncrementFloat :: "'s etcd \<Rightarrow> codec \<Rightarrow> go_context \<Rightarrow> pb_FloatValue \<Rightarrow> ('s, pb_FloatValue) handler" where
  "IncrementFloat E C ctx fv =
     (let key = newKey (FloatValue_Key fv) in
      and_then (Lock E ctx key) (\<lambda>_.
      and_then (attempt (GetFloat E C key)) (\<lambda>r.
      case if_missing \<lparr>FloatValue_Key = [], FloatValue_Value = 0\<rparr> r of
        Inl err \<Rightarrow> unlock_fail E ctx key err
      | Inr oldfv \<Rightarrow>
          let newval = \<lparr>FloatValue_Key = [], FloatValue_Value = float_add (FloatValue_Value oldfv) (FloatValue_Value fv)\<rparr> in
          (case MarshalFloat C newval of
             Inl msg \<Rightarrow> unlock_fail E ctx key (Other msg)
           | Inr b \<Rightarrow> and_then (UnlockThenSet E \<lparr>ByteValue_Key = FloatValue_Key fv, ByteValue_Value = b\<rparr>)
               (\<lambda>_. ret newval)))))"

definition DecrementFloat :: "'s etcd \<Rightarrow> codec \<Rightarrow> go_context \<Rightarrow> pb_FloatValue \<Rightarrow> ('s, pb_FloatValue) handler" where
  "DecrementFloat E C ctx fv = IncrementFloat E C ctx (fv\<lparr>FloatValue_Value := float_times_minus_one (FloatValue_Value fv)\<rparr>)"

section \<open>The typed view\<close>

definition decode_float :: "codec \<Rightarrow> pb_ByteValue \<Rightarrow> go_error + pb_FloatValue" where
  "decode_float C bv = unmarshalled (UnmarshalFloat C (ByteValue_Value bv))"

interpretation floats: typed_store "stores E kv K" "usable K ctx" key_held key_value key_locked key_unlocked
  key_stored newByteValue "Lock E ctx" "Unlock E ctx" "Get E" "commit_value E" ErrKeyLocked ErrKeyNotFound
  "decode_float C" "GetFloat E C"
  for E :: "'s etcd" and kv K ctx C
  by unfold_locales (simp add: GetFloat_def decode_float_def)

definition float_read :: "codec \<Rightarrow> pb_Key \<Rightarrow> (bytes \<rightharpoonup> bytes) \<Rightarrow> go_error + pb_FloatValue" where
  "float_read C k m = fetched ErrKeyNotFound (decode_float C) (key_value k m)"

lemma IncrementFloat_error:
  assumes "usable K ctx (newKey (FloatValue_Key fv)) m" and "\<not> key_held (newKey (FloatValue_Key fv)) m"
    and "float_read C (newKey (FloatValue_Key fv)) m = Inl e" and "e \<noteq> ErrKeyNotFound"
  shows "runs (stores E kv K m) (IncrementFloat E C ctx fv) (Err e)
    (stores E kv K (key_unlocked (newKey (FloatValue_Key fv)) m))"
  unfolding IncrementFloat_def Let_def
  by (rule floats.update_abort [OF assms(1,2), where C = C])
    (use assms(3,4) in \<open>simp add: float_read_def unlock_fail_def\<close>)

lemma IncrementFloat_value:
  assumes "usable K ctx (newKey (FloatValue_Key fv)) m" and "\<not> key_held (newKey (FloatValue_Key fv)) m"
    and "if_missing \<lparr>FloatValue_Key = [], FloatValue_Value = 0\<rparr> (float_read C (newKey (FloatValue_Key fv)) m) = Inr old"
    and "MarshalFloat C \<lparr>FloatValue_Key = [], FloatValue_Value = float_add (FloatValue_Value old) (FloatValue_Value fv)\<rparr> = Inr b"
  shows "runs (stores E kv K m) (IncrementFloat E C ctx fv)
    (Ok \<lparr>FloatValue_Key = [], FloatValue_Value = float_add (FloatValue_Value old) (FloatValue_Value fv)\<rparr>)
    (stores E kv K (key_stored (newKey (FloatValue_Key fv)) b (key_unlocked (newKey (FloatValue_Key fv)) m)))"
  unfolding IncrementFloat_def Let_def
  by (rule floats.update_commit [OF assms(1,2), where C = C])
    (use assms(3,4) in \<open>simp add: float_read_def commit_newKey\<close>)

lemma IncrementFloat_busy:
  assumes "usable K ctx (newKey (FloatValue_Key fv)) m" and "key_held (newKey (FloatValue_Key fv)) m"
  shows "runs (stores E kv K m) (IncrementFloat E C ctx fv) (Err ErrKeyLocked) (stores E kv K m)"
  unfolding IncrementFloat_def Let_def by (rule byte_store.with_lock_busy [OF assms])

text \<open>A decoded number is read back.\<close>

lemma MarshalFloat_ok: "proto_ok C \<Longrightarrow> \<exists>b. MarshalFloat C fv = Inr b \<and> UnmarshalFloat C b = Inr fv"
  by (simp add: proto_ok_def)

lemma float_read_stored:
  "UnmarshalFloat C b = Inr fv \<Longrightarrow> float_read C k (key_stored k b m) = Inr fv"
  by (simp add: float_read_def fetched_def decode_float_def byte_store.lookup_stored)

text \<open>With a codec that round trips, the increment of what the key holds is stored and returned.\<close>

lemma IncrementFloat_ok:
  assumes "usable K ctx (newKey (FloatValue_Key fv)) m" and "\<not> key_held (newKey (FloatValue_Key fv)) m"
    and "if_missing \<lparr>FloatValue_Key = [], FloatValue_Value = 0\<rparr> (float_read C (newKey (FloatValue_Key fv)) m) = Inr old"
    and "proto_ok C"
  shows "\<exists>m'. runs (stores E kv K m) (IncrementFloat E C ctx fv)
      (Ok \<lparr>FloatValue_Key = [], FloatValue_Value = float_add (FloatValue_Value old) (FloatValue_Value fv)\<rparr>) (stores E kv K m') \<and>
    float_read C (newKey (FloatValue_Key fv)) m' =
      Inr \<lparr>FloatValue_Key = [], FloatValue_Value = float_add (FloatValue_Value old) (FloatValue_Value fv)\<rparr> \<and>
    updated K ctx (newKey (FloatValue_Key fv)) m m'"
proof -
  let ?new = "\<lparr>FloatValue_Key = [], FloatValue_Value = float_add (FloatValue_Value old) (FloatValue_Value fv)\<rparr>"
  obtain b where b: "MarshalFloat C ?new = Inr b" "UnmarshalFloat C b = Inr ?new"
    using MarshalFloat_ok [OF assms(4), of ?new] by blast
  from IncrementFloat_value [OF assms(1-3) b(1)] float_read_stored [OF b(2)] updated_stored [OF assms(1)]
  show ?thesis by blast
qed

lemma SetFloat_free:
  assumes "\<not> invalid_key (FloatValue_Key fv)" and "getLockName (FloatValue_Key fv) \<in> K"
    and "m (getLockName (FloatValue_Key fv)) \<noteq> Some ZeroByte" and "MarshalFloat C fv = Inr b"
  shows "runs (stores E kv K m) (SetFloat E C ctx fv) (Ok ())
    (stores E kv K (m(StringToBytes (FloatValue_Key fv) \<mapsto> b)))"
  using Set_free [of "\<lparr>ByteValue_Key = FloatValue_Key fv, ByteValue_Value = b\<rparr>" K m E kv ctx] assms
  by (simp add: SetFloat_def)

lemma GetFloat_read:
  assumes "usable K ctx k m"
  shows "runs (stores E kv K m) (GetFloat E C k) (case float_read C k m of Inl e \<Rightarrow> Err e | Inr fv \<Rightarrow> Ok fv) (stores E kv K m)"
  unfolding float_read_def by (rule floats.tget_runs [OF assms])

end
