(* ===== verification/Etcd_Memory.thy ===== *)
theory Etcd_Memory
  imports Etcd_Rules
begin

text \<open>
  An in-memory key space with the documented behaviour of etcd, for the witnesses: it shows
  that \<open>etcd_kv\<close>, \<open>etcd_up\<close> and \<open>undisturbed\<close> hold together.  Its scheduler is an
  argument.  \<open>Memory_Codec\<close> does the same for \<open>proto_ok\<close>.
\<close>

section \<open>A key space in memory\<close>

type_synonym mem = "(bytes \<times> bytes) list"

definition mem_hits :: "mem \<Rightarrow> bytes \<Rightarrow> bytes \<Rightarrow> mem" where
  "mem_hits s k e = filter (\<lambda>p. in_range k e (fst p)) (AList.clearjunk s)"

definition mem_count :: "nat \<Rightarrow> int64" where
  "mem_count n = (if n = 0 then 0 else 1)"

definition mem_answer :: "mem \<Rightarrow> RangeRequest \<Rightarrow> RangeResponse" where
  "mem_answer s q =
     (let hits = mem_hits s (Range_Key q) (Range_RangeEnd q);
          cut = (if Range_Limit q = 0 \<or> Range_RangeEnd q = [] then hits else take (unat (Range_Limit q)) hits);
          kvs = map (\<lambda>p. \<lparr>KV_Key = fst p, KV_Value = (if Range_KeysOnly q then [] else snd p)\<rparr>) cut
      in \<lparr>Range_Kvs = (if kvs = [] then None else Some kvs), Range_Count = mem_count (length hits)\<rparr>)"

fun mem_op :: "RequestOp \<Rightarrow> mem \<Rightarrow> mem" where
  "mem_op (RequestRange q) s = s"
| "mem_op (RequestPut p) s = AList.update (Put_Key p) (Put_Value p) s"
| "mem_op (RequestDeleteRange d) s = filter (\<lambda>p. \<not> in_range (Delete_Key d) (Delete_RangeEnd d) (fst p)) s"

fun mem_op_answer :: "RequestOp \<Rightarrow> mem \<Rightarrow> ResponseOp" where
  "mem_op_answer (RequestRange q) s = ResponseRange (mem_answer s q)"
| "mem_op_answer (RequestPut p) s = ResponsePut"
| "mem_op_answer (RequestDeleteRange d) s = ResponseDeleteRange"

fun mem_ops :: "RequestOp list \<Rightarrow> mem \<Rightarrow> ResponseOp list \<times> mem" where
  "mem_ops [] s = ([], s)"
| "mem_ops (op # ops) s = (let (rs, s') = mem_ops ops (mem_op op s) in (mem_op_answer op s # rs, s'))"

definition mem_txn :: "mem \<Rightarrow> TxnRequest \<Rightarrow> (string + TxnResponse) \<times> mem" where
  "mem_txn s t =
     (let ok = list_all (\<lambda>c. map_of s (Compare_Key c) = Some (Compare_Value c)) (Txn_Compare t);
          (rs, s') = mem_ops (if ok then Txn_Success t else Txn_Failure t) s
      in (Inr \<lparr>Txn_Succeeded = ok, Txn_Responses = rs\<rparr>, s'))"

definition mem_etcd :: "(nat \<Rightarrow> mem \<Rightarrow> mem) \<Rightarrow> (nat \<Rightarrow> nat) \<Rightarrow> mem etcd" where
  "mem_etcd ot lg = \<lparr>
     etcd_Range = (\<lambda>s q. (Inr (mem_answer s q), s)),
     etcd_Txn = mem_txn,
     etcd_Put = (\<lambda>s p. (Inr (), mem_op (RequestPut p) s)),
     etcd_DeleteRange = (\<lambda>s d. (Inr (), mem_op (RequestDeleteRange d) s)),
     etcd_LeaseGrant = (\<lambda>s ttl. (Inr 7, s)),
     others = ot, lag = lg\<rparr>"

text \<open>Nobody else is active.\<close>

definition quiet_etcd :: "mem etcd" where
  "quiet_etcd = mem_etcd (\<lambda>_ s. s) (\<lambda>_. 0)"

definition mem_world :: "mem \<Rightarrow> mem world" where
  "mem_world s = \<lparr>cache = s, clock = 0, ticks = 0\<rparr>"

lemma map_of_filter_fst: "map_of (filter (\<lambda>p. P (fst p)) s) = (\<lambda>k. if P k then map_of s k else None)"
  by (induction s) auto

lemma mem_op_kv: "map_of (mem_op op s) = run_op op (map_of s)"
proof (cases op)
  case (RequestDeleteRange d)
  then show ?thesis
    using map_of_filter_fst [of "\<lambda>x. \<not> in_range (Delete_Key d) (Delete_RangeEnd d) x" s]
    by (auto simp: delete_range_def)
qed (simp_all add: update_conv')

lemma mem_hits_set: "p \<in> set (mem_hits s k e) \<longleftrightarrow> in_range k e (fst p) \<and> map_of s (fst p) = Some (snd p)"
proof -
  have "(fst p, snd p) \<in> set (AList.clearjunk s) \<longleftrightarrow> map_of (AList.clearjunk s) (fst p) = Some (snd p)"
    by (rule map_of_eq_Some_iff [symmetric]) (rule distinct_clearjunk)
  then show ?thesis by (auto simp: mem_hits_def map_of_clearjunk)
qed

lemma mem_hits_distinct: "distinct (map fst (mem_hits s k e))"
  by (simp add: mem_hits_def distinct_map_filter)

lemma mem_count_pos: "0 < sint (mem_count n) \<longleftrightarrow> n \<noteq> 0"
  by (simp add: mem_count_def)

lemma mem_answer_ok: "range_answer (map_of s) q (mem_answer s q)"
proof -
  let ?hits = "mem_hits s (Range_Key q) (Range_RangeEnd q)"
  let ?cut = "if Range_Limit q = 0 \<or> Range_RangeEnd q = [] then ?hits else take (unat (Range_Limit q)) ?hits"
  let ?f = "\<lambda>p :: bytes \<times> bytes. \<lparr>KV_Key = fst p, KV_Value = (if Range_KeysOnly q then [] else snd p)\<rparr>"
  have kvs: "case_option [] (\<lambda>x. x) (Range_Kvs (mem_answer s q)) = map ?f ?cut"
    by (simp add: mem_answer_def Let_def)
  have sub: "set ?cut \<subseteq> set ?hits" by (auto dest: in_set_takeD)
  have "distinct (map fst ?cut)"
    using mem_hits_distinct by (auto simp: take_map [symmetric])
  then have d: "distinct (map KV_Key (map ?f ?cut))" by (simp add: comp_def)
  have sound: "\<forall>e\<in>set (map ?f ?cut). in_range (Range_Key q) (Range_RangeEnd q) (KV_Key e) \<and>
      (\<exists>v. map_of s (KV_Key e) = Some v \<and> KV_Value e = (if Range_KeysOnly q then [] else v))"
    using sub by (auto simp: mem_hits_set)
  have complete: "k \<in> KV_Key ` set (map ?f ?cut)"
    if "Range_Limit q = 0 \<or> Range_RangeEnd q = []"
      and "in_range (Range_Key q) (Range_RangeEnd q) k" and "map_of s k = Some v" for k v
  proof -
    have "(k, v) \<in> set ?cut" using that by (simp add: mem_hits_set)
    then have "?f (k, v) \<in> set (map ?f ?cut)" by (simp only: set_map image_eqI)
    then show ?thesis by force
  qed
  have nil: "Range_Kvs (mem_answer s q) = None \<longleftrightarrow> map ?f ?cut = []"
    by (simp add: mem_answer_def Let_def)
  have "?hits \<noteq> [] \<longleftrightarrow> (\<exists>p. p \<in> set ?hits)" by (cases ?hits) auto
  then have cnt: "0 < sint (Range_Count (mem_answer s q)) \<longleftrightarrow>
      (\<exists>k v. in_range (Range_Key q) (Range_RangeEnd q) k \<and> map_of s k = Some v)"
    by (simp add: mem_answer_def Let_def mem_count_pos mem_hits_set)
  show ?thesis
    unfolding range_answer_def Let_def kvs nil cnt
    using d sound complete by blast
qed

lemma mem_ops_ok: "mem_ops ops s = (rs, s') \<Longrightarrow>
    ops_answer (map_of s) ops rs \<and> map_of s' = run_ops ops (map_of s)"
proof (induction ops arbitrary: s rs s')
  case (Cons op ops)
  obtain rs1 where rs: "rs = mem_op_answer op s # rs1" and rest: "mem_ops ops (mem_op op s) = (rs1, s')"
    using Cons.prems by (auto simp: Let_def split: prod.splits)
  have "op_answer (map_of s) op (mem_op_answer op s)"
    by (cases op) (simp_all add: mem_answer_ok)
  with Cons.IH [OF rest] rs show ?case by (simp add: mem_op_kv)
qed simp

lemma mem_etcd_fields [simp]:
  "etcd_Range (mem_etcd ot lg) s q = (Inr (mem_answer s q), s)"
  "etcd_Txn (mem_etcd ot lg) = mem_txn"
  "etcd_Put (mem_etcd ot lg) s p = (Inr (), mem_op (RequestPut p) s)"
  "etcd_DeleteRange (mem_etcd ot lg) s d = (Inr (), mem_op (RequestDeleteRange d) s)"
  "etcd_LeaseGrant (mem_etcd ot lg) s ttl = (Inr 7, s)"
  "others (mem_etcd ot lg) = ot" "lag (mem_etcd ot lg) = lg"
  by (simp_all add: mem_etcd_def)

lemma mem_txn_law: "txn_law (mem_etcd ot lg) map_of"
proof -
  have "\<exists>rs s'. mem_txn s t = (Inr \<lparr>Txn_Succeeded = compares (map_of s) t, Txn_Responses = rs\<rparr>, s') \<and>
      ops_answer (map_of s) (txn_branch (map_of s) t) rs \<and>
      map_of s' = run_ops (txn_branch (map_of s) t) (map_of s)" for s t
  proof -
    have ok: "list_all (\<lambda>c. map_of s (Compare_Key c) = Some (Compare_Value c)) (Txn_Compare t) =
        compares (map_of s) t"
      by (simp add: compares_def list_all_iff)
    obtain rs s' where r: "mem_ops (txn_branch (map_of s) t) s = (rs, s')" by fastforce
    then show ?thesis
      using mem_ops_ok [OF r] by (auto simp: mem_txn_def Let_def ok txn_branch_def)
  qed
  then show ?thesis unfolding txn_law_def by (metis (no_types, lifting) Inr_inject TxnResponse.select_convs
      fst_conv insertCI mem_etcd_fields(2) snd_conv)
qed

lemma mem_etcd_kv: "etcd_kv (mem_etcd ot lg) map_of"
proof -
  have "map_of (filter (\<lambda>p. \<not> in_range (Delete_Key d) (Delete_RangeEnd d) (fst p)) s) =
      delete_range d (map_of s)" for d and s :: mem
    using mem_op_kv [of "RequestDeleteRange d" s] by simp
  then show ?thesis
    by (auto simp: etcd_kv_def range_law_def put_law_def delete_law_def lease_law_def mem_txn_law
        mem_answer_ok update_conv')
qed

lemma mem_etcd_up: "etcd_up (mem_etcd ot lg)"
  by (simp add: etcd_up_def mem_txn_def Let_def split_beta)

lemma quiet_stores: "map_of s = m \<Longrightarrow> stores quiet_etcd map_of K m (mem_world s)"
  by (simp add: stores_def quiet_etcd_def mem_etcd_kv mem_etcd_up undisturbed_def mem_world_def)

end
