(* ===== verification/Memory_Codec.thy ===== *)
theory Memory_Codec
  imports Messages
begin

text \<open>
  A simple codec that has the documented behaviour of the protobuf runtime the handlers
  rely on; it is only used to show, in the witnesses, that \<open>proto_ok\<close> can hold.  A message
  is the list of its fields, each a byte string; \<open>1 x\<close> is a byte \<open>x\<close> of a field, \<open>2\<close> ends a
  field and \<open>0\<close> the message.
\<close>

definition enc_items :: "bytes list \<Rightarrow> bytes" where
  "enc_items items = concat (map (\<lambda>b. concat (map (\<lambda>x. [1, x]) b) @ [2]) items) @ [0]"

fun dec_items :: "bytes \<Rightarrow> bytes \<Rightarrow> bytes list" where
  "dec_items cur [] = []"
| "dec_items cur [c] = []"
| "dec_items cur (c # x # r) =
     (if c = 1 then dec_items (cur @ [x]) r
      else if c = 2 then cur # dec_items [] (x # r)
      else [])"

definition enc_word :: "int64 \<Rightarrow> bytes" where
  "enc_word w = map (\<lambda>i. if bit w i then 1 else 0) [0..<64]"

definition dec_word :: "bytes \<Rightarrow> int64" where
  "dec_word b = horner_sum of_bool 2 (map (\<lambda>x. x = 1) b)"

definition wire_error :: string where
  "wire_error = ''proto: can't skip unknown wire type 7''"

fun pairs :: "bytes list \<Rightarrow> (string \<times> bytes) list" where
  "pairs (k # v # r) = (BytesToString k, v) # pairs r"
| "pairs _ = []"

definition memory_codec :: codec where
  "memory_codec = \<lparr>
     MarshalInt = (\<lambda>m. Inr (enc_items [StringToBytes (IntValue_Key m), enc_word (IntValue_Value m)])),
     UnmarshalInt = (\<lambda>b. if b = [] then Inr \<lparr>IntValue_Key = [], IntValue_Value = 0\<rparr>
       else case dec_items [] b of
         [k, v] \<Rightarrow> Inr \<lparr>IntValue_Key = BytesToString k, IntValue_Value = dec_word v\<rparr> | _ \<Rightarrow> Inl wire_error),
     MarshalFloat = (\<lambda>m. Inr (enc_items [StringToBytes (FloatValue_Key m), enc_word (FloatValue_Value m)])),
     UnmarshalFloat = (\<lambda>b. if b = [] then Inr \<lparr>FloatValue_Key = [], FloatValue_Value = 0\<rparr>
       else case dec_items [] b of
         [k, v] \<Rightarrow> Inr \<lparr>FloatValue_Key = BytesToString k, FloatValue_Value = dec_word v\<rparr> | _ \<Rightarrow> Inl wire_error),
     MarshalList = (\<lambda>m. Inr (enc_items (StringToBytes (List_Key m) # enc_word (List_Limit m) # List_Value m))),
     UnmarshalList = (\<lambda>b. if b = [] then Inr (newList [])
       else case dec_items [] b of
         k # l # vs \<Rightarrow> Inr \<lparr>List_Key = BytesToString k, List_Value = vs, List_Limit = dec_word l\<rparr> | _ \<Rightarrow> Inl wire_error),
     MarshalHash = (\<lambda>m. Inr (enc_items (StringToBytes (Hash_Key m) #
       concat (map (\<lambda>x. [StringToBytes (fst x), snd x]) (map_entries (Hash_Value m)))))),
     UnmarshalHash = (\<lambda>b. if b = [] then Inr (newHash None)
       else case dec_items [] b of
         k # es \<Rightarrow> Inr \<lparr>Hash_Key = BytesToString k, Hash_Value = (if pairs es = [] then None else Some (pairs es))\<rparr>
       | _ \<Rightarrow> Inl wire_error)\<rparr>"

lemma enc_items_neq [simp]: "enc_items items \<noteq> []"
  by (simp add: enc_items_def)

lemma dec_field: "r \<noteq> [] \<Longrightarrow> dec_items cur (concat (map (\<lambda>x. [1, x]) b) @ 2 # r) = (cur @ b) # dec_items [] r"
  by (induction b arbitrary: cur) (cases r, simp_all)

lemma dec_enc_items [simp]: "dec_items [] (enc_items items) = items"
proof (induction items)
  case (Cons b items)
  have "enc_items (b # items) = concat (map (\<lambda>x. [1, x]) b) @ 2 # enc_items items"
    by (simp add: enc_items_def)
  then show ?case using Cons dec_field [of "enc_items items" "[]" b] by simp
qed (simp add: enc_items_def)

lemma dec_enc_word [simp]: "dec_word (enc_word w) = w"
proof -
  have "dec_word (enc_word w) = horner_sum of_bool 2 (map (bit w) [0..<64])"
    by (simp add: dec_word_def enc_word_def comp_def if_distrib cong: if_cong)
  also have "\<dots> = take_bit 64 w" by (simp only: horner_sum_bit_eq_take_bit)
  finally show ?thesis by (simp add: take_bit_word_eq_self)
qed

lemma pairs_concat: "pairs (concat (map (\<lambda>x. [StringToBytes (fst x), snd x]) es)) = es"
  by (induction es) simp_all

lemma memory_codec_ok: "proto_ok memory_codec"
proof -
  have dec: "hash_decodes h \<lparr>Hash_Key = Hash_Key h,
      Hash_Value = (if map_entries (Hash_Value h) = [] then None else Some (map_entries (Hash_Value h)))\<rparr>"
    if "map_wf (Hash_Value h)" for h :: pb_Hash
    using that by (cases "Hash_Value h")
      (auto simp: hash_decodes_def map_wf_def map_get_def [abs_def] map_entries_def)
  have hash: "\<exists>b h'. MarshalHash memory_codec h = Inr b \<and> UnmarshalHash memory_codec b = Inr h' \<and> hash_decodes h h'"
    if "map_wf (Hash_Value h)" for h
    using dec [OF that]
    by (cases "map_entries (Hash_Value h) = []") (simp_all add: memory_codec_def pairs_concat)
  show ?thesis
    unfolding proto_ok_def
  proof (intro conjI allI impI)
    fix h :: pb_Hash assume "map_wf (Hash_Value h)"
    then show "\<exists>b h'. MarshalHash memory_codec h = Inr b \<and> UnmarshalHash memory_codec b = Inr h' \<and> hash_decodes h h'"
      by (rule hash)
  qed (simp_all add: memory_codec_def)
qed

end
