(* ===== verification/Demo.thy ===== *)
theory Demo
  imports Server_Hashes Server_Ints Server_Floats Etcd_Memory Memory_Codec
begin

text \<open>
  The concrete setting of the witnesses: the in-memory store with nobody else active, the
  codec of \<open>Memory_Codec\<close>, a request without metadata, and a store with one key.
\<close>

definition demo_ctx :: go_context where
  "demo_ctx = \<lparr>ctx_MD = None\<rparr>"

definition one_key :: "string \<Rightarrow> bytes \<Rightarrow> mem" where
  "one_key k b = [(StringToBytes k, b)]"

definition int_encoding :: "int64 \<Rightarrow> bytes" where
  "int_encoding i = enc_items [[], enc_word i]"

definition list_encoding :: "int64 \<Rightarrow> bytes list \<Rightarrow> bytes" where
  "list_encoding limit vs = enc_items ([] # enc_word limit # vs)"

definition hash_encoding :: "(string \<times> bytes) list \<Rightarrow> bytes" where
  "hash_encoding es = enc_items ([] # concat (map (\<lambda>x. [StringToBytes (fst x), snd x]) es))"

lemma demo_wait: "getMaxWait demo_ctx = 5"
  by (simp add: getMaxWait_def demo_ctx_def)

lemma demo_clock [simp]: "clock (mem_world s) = 0"
  by (simp add: mem_world_def)

lemma demo_run:
  assumes "runs (stores quiet_etcd map_of K (map_of s)) m r Q"
  shows "\<exists>w. m (mem_world s) = (r, w) \<and> Q w"
  using runsD [OF assms quiet_stores] by simp

lemma demo_run_ex:
  assumes "\<exists>m'. runs (stores quiet_etcd map_of K (map_of s)) m r (stores quiet_etcd map_of K m') \<and> R m'"
  shows "\<exists>w m'. m (mem_world s) = (r, w) \<and> stores quiet_etcd map_of K m' w \<and> R m'"
  using assms demo_run [of K s m r] by blast

lemma invalid_key_k [simp]: "\<not> invalid_key ''k''"
  by (simp add: invalid_key_def StringToBytes_def ZeroByte_def)

lemma StringToBytes_valid: "\<not> invalid_key k \<Longrightarrow> StringToBytes k \<noteq> ZeroByte"
  by (simp add: invalid_key_def)

lemma demo_usable_empty: "\<not> invalid_key k \<Longrightarrow> usable UNIV demo_ctx (newKey k) Map.empty"
  by (simp add: usable_def demo_wait)

lemma demo_usable: "\<not> invalid_key k \<Longrightarrow> usable UNIV demo_ctx (newKey k) (map_of (one_key k b))"
  using StringToBytes_valid [of k] by (auto simp: usable_def demo_wait one_key_def)

lemma demo_free_empty: "\<not> key_held (newKey k) Map.empty"
  by (simp add: key_held_def)

lemma demo_free: "\<not> key_held (newKey k) (map_of (one_key k b))"
  by (simp add: key_held_def one_key_def)

lemma demo_int: "int_read memory_codec (newKey k) (map_of (one_key k (int_encoding i))) =
    Inr \<lparr>IntValue_Key = [], IntValue_Value = i\<rparr>"
  by (simp add: int_read_def key_value_def fetched_def decode_int_def memory_codec_def one_key_def int_encoding_def
      BytesToString_def)

lemma demo_list: "list_read memory_codec (newKey k) (map_of (one_key k (list_encoding limit vs))) =
    Inr \<lparr>List_Key = [], List_Value = vs, List_Limit = limit\<rparr>"
  by (simp add: list_read_def key_value_def fetched_def decode_list_def memory_codec_def one_key_def list_encoding_def
      BytesToString_def)

lemma demo_hash: "hash_read memory_codec (newKey k) (map_of (one_key k (hash_encoding es))) =
    Inr \<lparr>Hash_Key = [], Hash_Value = (if es = [] then None else Some es)\<rparr>"
  by (simp add: hash_read_def key_value_def fetched_def decode_hash_def memory_codec_def one_key_def hash_encoding_def
      BytesToString_def pairs_concat)

lemma demo_list_missing: "list_read memory_codec (newKey k) Map.empty = Inl ErrKeyNotFound"
  by (simp add: list_read_def key_value_def fetched_def)

lemma demo_int_missing: "int_read memory_codec (newKey k) Map.empty = Inl ErrKeyNotFound"
  by (simp add: int_read_def key_value_def fetched_def)

lemma demo_hash_missing: "hash_read memory_codec (newKey k) Map.empty = Inl ErrKeyNotFound"
  by (simp add: hash_read_def key_value_def fetched_def)

lemmas demo_setting = demo_usable demo_usable_empty demo_free demo_free_empty demo_list demo_int demo_hash
  demo_list_missing demo_int_missing demo_hash_missing memory_codec_ok

end
