(* ===== verification/Lock_Spec.thy ===== *)
theory Lock_Spec
  imports Demo
begin

text \<open>
  What locks, deletion and the waits promise: the properties of \<open>mydis/type_lock.go\<close>, each
  with a witness on the in-memory store.
\<close>

text \<open>
  Taking a lock decides by the lock key alone and never changes a held lock: with a
  non-negative timeout, \<open>LockWithTimeout\<close> on a free lock succeeds and stores the zero byte
  in the lock key, and on a lock that stays held it reports \<open>ErrKeyLocked\<close> and leaves the
  store as it was.
\<close>

theorem LockWithTimeout_outcome:
  assumes "getLockName (Expiration_Key ex) \<in> K" and "0 \<le> sint (Expiration_Exp ex)"
  shows "runs (stores E kv K m) (LockWithTimeout E ex)
    (if m (getLockName (Expiration_Key ex)) = Some ZeroByte then Err ErrKeyLocked else Ok ())
    (stores E kv K (m(getLockName (Expiration_Key ex) \<mapsto> ZeroByte)))"
proof (cases "m (getLockName (Expiration_Key ex)) = Some ZeroByte")
  case True
  then have "m(getLockName (Expiration_Key ex) \<mapsto> ZeroByte) = m" by auto
  then show ?thesis using LockWithTimeout_held [where m = m, OF assms(1) True assms(2)] True by simp
next
  case False
  then show ?thesis using LockWithTimeout_free [where m = m, OF assms(1) False] by simp
qed

theorem LockWithTimeout_outcome_witness:
  "(\<exists>w. LockWithTimeout quiet_etcd \<lparr>Expiration_Key = ''k'', Expiration_Exp = 5\<rparr> (mem_world []) = (Ok (), w) \<and>
      stores quiet_etcd map_of UNIV [getLockName ''k'' \<mapsto> ZeroByte] w) \<and>
   (\<exists>w. LockWithTimeout quiet_etcd \<lparr>Expiration_Key = ''k'', Expiration_Exp = 5\<rparr>
      (mem_world [(getLockName ''k'', ZeroByte)]) = (Err ErrKeyLocked, w))"
  using demo_run [OF LockWithTimeout_outcome [of "\<lparr>Expiration_Key = ''k'', Expiration_Exp = 5\<rparr>" UNIV quiet_etcd map_of "map_of []"]]
    demo_run [OF LockWithTimeout_outcome [of "\<lparr>Expiration_Key = ''k'', Expiration_Exp = 5\<rparr>" UNIV quiet_etcd map_of
      "map_of [(getLockName ''k'', ZeroByte)]"]]
  by (simp, blast)

text \<open>
  C15. With a non-negative timeout \<open>LockWithTimeout\<close> always returns, whatever etcd answers and
  the other clients do, and it reports \<open>ErrKeyLocked\<close> only when the timeout is zero or the
  clock has passed the deadline, which is the timeout in seconds as long as these fit a
  64-bit duration.
\<close>

theorem LockWithTimeout_returns_in_time:
  assumes "0 \<le> sint (Expiration_Exp ex)" and "sint (Expiration_Exp ex) \<le> 9223372036"
    and "LockWithTimeout E ex w = (r, w')"
  shows "r = Ok () \<or> (\<exists>msg. r = Err (Other msg)) \<or>
    (r = Err ErrKeyLocked \<and>
      (Expiration_Exp ex = 0 \<or> clock w + sint (Expiration_Exp ex) * 1000000000 < clock w'))"
proof -
  let ?late = "\<lambda>t. clock w + seconds (Expiration_Exp ex) < t \<and> 0 \<le> sint (Expiration_Exp ex)"
  let ?t = "if_unlocked (Expiration_Key ex)
     [RequestPut \<lparr>Put_Key = getLockName (Expiration_Key ex), Put_Value = ZeroByte, Put_Lease = 0\<rparr>]"
  have "txn_poll E ?t (Expiration_Exp ex = 0) ?late w \<noteq> None"
    by (rule txn_poll_terminates [of "clock w + seconds (Expiration_Exp ex)"]) (use assms(1) in simp)
  then obtain p where p: "txn_poll E ?t (Expiration_Exp ex = 0) ?late w = Some p" by auto
  then have "p = (r, w')" using assms(3) by (simp add: LockWithTimeout_def with_now_def Let_def looping_def)
  with p have "r \<noteq> Hang" using txn_poll_result [of E ?t _ ?late w r w'] by auto
  moreover have "seconds (Expiration_Exp ex) = sint (Expiration_Exp ex) * 1000000000"
    using assms(1,2) by (intro seconds_exact) simp
  ultimately show ?thesis using LockWithTimeout_result [OF assms(3)] by auto
qed

theorem LockWithTimeout_returns_in_time_witness:
  "\<exists>r w'. LockWithTimeout quiet_etcd \<lparr>Expiration_Key = ''k'', Expiration_Exp = 5\<rparr> (mem_world []) = (r, w') \<and>
    (r = Ok () \<or> (\<exists>msg. r = Err (Other msg)) \<or> (r = Err ErrKeyLocked \<and> 5000000000 < clock w'))"
proof -
  obtain r w' where e: "LockWithTimeout quiet_etcd \<lparr>Expiration_Key = ''k'', Expiration_Exp = 5\<rparr> (mem_world []) = (r, w')"
    by fastforce
  show ?thesis
    using LockWithTimeout_returns_in_time [of "\<lparr>Expiration_Key = ''k'', Expiration_Exp = 5\<rparr>", OF _ _ e] e
    by (simp add: mem_world_def)
qed

text \<open>
  A negative timeout means to wait forever: on a lock that nobody releases
  \<open>LockWithTimeout\<close> never returns.
\<close>

theorem LockWithTimeout_waits_forever:
  assumes "stores E kv K m w" and "getLockName (Expiration_Key ex) \<in> K"
    and "m (getLockName (Expiration_Key ex)) = Some ZeroByte" and "sint (Expiration_Exp ex) < 0"
  shows "fst (LockWithTimeout E ex w) = Hang"
  using assms by (rule LockWithTimeout_forever)

theorem LockWithTimeout_waits_forever_witness:
  "fst (LockWithTimeout quiet_etcd \<lparr>Expiration_Key = ''k'', Expiration_Exp = - 1\<rparr>
     (mem_world [(getLockName ''k'', ZeroByte)])) = Hang"
  by (rule LockWithTimeout_waits_forever [of quiet_etcd map_of UNIV "map_of [(getLockName ''k'', ZeroByte)]"])
    (simp_all add: quiet_stores)

text \<open>
  A client waiting forever for a lock gets it once the others have released it: if from
  some scheduling point on the lock is free, the call returns with the lock taken.
\<close>

theorem LockWithTimeout_gets_released_lock:
  assumes "etcd_kv E kv" and "etcd_up E" and "sint (Expiration_Exp ex) < 0"
    and "\<And>n s. N \<le> n \<Longrightarrow> kv (others E n s) (getLockName (Expiration_Key ex)) \<noteq> Some ZeroByte"
  shows "\<exists>w'. LockWithTimeout E ex w = (Ok (), w') \<and>
    kv (cache w') (getLockName (Expiration_Key ex)) = Some ZeroByte"
proof -
  let ?late = "\<lambda>t. clock w + seconds (Expiration_Exp ex) < t \<and> 0 \<le> sint (Expiration_Exp ex)"
  let ?ops = "[RequestPut \<lparr>Put_Key = getLockName (Expiration_Key ex), Put_Value = ZeroByte, Put_Lease = 0\<rparr>]"
  have once: "(Expiration_Exp ex = 0) = False" using assms(3) by auto
  obtain w' m where p: "txn_poll E (if_unlocked (Expiration_Key ex) ?ops) False ?late w = Some (Ok (), w')"
      and "kv (cache w') = run_ops ?ops m"
    using poll_released [where N = N and late = ?late and ops = ?ops and w = w, OF assms(1,2,4)] assms(3) by auto
  then show ?thesis by (simp add: LockWithTimeout_def with_now_def Let_def looping_def once)
qed

theorem LockWithTimeout_gets_released_lock_witness:
  "\<exists>w'. LockWithTimeout (mem_etcd (\<lambda>n s. if n < 3 then s else []) (\<lambda>_. 0))
      \<lparr>Expiration_Key = ''k'', Expiration_Exp = - 1\<rparr> (mem_world [(getLockName ''k'', ZeroByte)]) = (Ok (), w') \<and>
    map_of (cache w') (getLockName ''k'') = Some ZeroByte"
  using LockWithTimeout_gets_released_lock [of "mem_etcd (\<lambda>n s. if n < 3 then s else []) (\<lambda>_. 0)" map_of
      "\<lparr>Expiration_Key = ''k'', Expiration_Exp = - 1\<rparr>" 3 "mem_world [(getLockName ''k'', ZeroByte)]"]
  by (simp add: mem_etcd_kv mem_etcd_up mem_etcd_fields)

text \<open>
  \<open>UnlockThenSet\<close> releases the lock and writes the value in one step: for a valid key
  the store afterwards has the value and no lock, and on an invalid key nothing changes.
\<close>

theorem UnlockThenSet_atomic:
  assumes "ZeroByte \<in> K" and "m ZeroByte \<noteq> Some ZeroByte"
  shows "runs (stores E kv K m) (UnlockThenSet E val)
    (if invalid_key (ByteValue_Key val) then Err ErrInvalidKey else Ok ())
    (stores E kv K (if invalid_key (ByteValue_Key val) then m
       else m(getLockName (ByteValue_Key val) := None, StringToBytes (ByteValue_Key val) \<mapsto> ByteValue_Value val)))"
  using UnlockThenSet_ok [of val K m E kv] assms
  by (cases "invalid_key (ByteValue_Key val)") (simp_all add: UnlockThenSet_def runs_throw)

theorem UnlockThenSet_atomic_witness:
  "\<exists>w. UnlockThenSet quiet_etcd \<lparr>ByteValue_Key = ''k'', ByteValue_Value = [7]\<rparr>
      (mem_world [(getLockName ''k'', ZeroByte)]) = (Ok (), w) \<and>
    stores quiet_etcd map_of UNIV [StringToBytes ''k'' \<mapsto> [7]] w"
proof -
  have "(map_of [(getLockName ''k'', ZeroByte)])(getLockName ''k'' := None, StringToBytes ''k'' \<mapsto> [7]) =
      [StringToBytes ''k'' \<mapsto> [7]]" by auto
  then show ?thesis
    using demo_run [OF UnlockThenSet_atomic [of UNIV "map_of [(getLockName ''k'', ZeroByte)]" quiet_etcd map_of
      "\<lparr>ByteValue_Key = ''k'', ByteValue_Value = [7]\<rparr>"]] by simp
qed

text \<open>
  \<open>Delete\<close> and \<open>Set\<close> respect the lock of their key: while it is held they report
  \<open>ErrKeyLocked\<close> and change nothing, otherwise they delete or write exactly that key.
\<close>

theorem Delete_respects_lock:
  assumes "getLockName (Key_Key key) \<in> K"
  shows "runs (stores E kv K m) (Delete E ctx key)
    (if m (getLockName (Key_Key key)) = Some ZeroByte then Err ErrKeyLocked else Ok ())
    (stores E kv K (if m (getLockName (Key_Key key)) = Some ZeroByte then m
       else m(StringToBytes (Key_Key key) := None)))"
  using Delete_held [OF assms, of m E kv ctx] Delete_free [OF assms, of m E kv ctx]
  by (cases "m (getLockName (Key_Key key)) = Some ZeroByte") simp_all

theorem Delete_respects_lock_witness:
  "(\<exists>w. Delete quiet_etcd demo_ctx (newKey ''k'') (mem_world (one_key ''k'' [7])) = (Ok (), w) \<and>
      stores quiet_etcd map_of UNIV Map.empty w) \<and>
   (\<exists>w. Delete quiet_etcd demo_ctx (newKey ''k'') (mem_world [(getLockName ''k'', ZeroByte)]) = (Err ErrKeyLocked, w))"
  using demo_run [OF Delete_respects_lock [of "newKey ''k''" UNIV quiet_etcd map_of "map_of (one_key ''k'' [7])" demo_ctx]]
    demo_run [OF Delete_respects_lock [of "newKey ''k''" UNIV quiet_etcd map_of
      "map_of [(getLockName ''k'', ZeroByte)]" demo_ctx]]
  by (simp add: one_key_def, blast)

text \<open>
  The ranges built from a prefix are exact: etcd's interval from a key to \<open>getPrefix\<close> of
  it holds the keys with that prefix and no others, also when the prefix ends in \<open>0xff\<close>
  bytes.
\<close>

theorem getPrefix_exact:
  "in_range (StringToBytes k) (getPrefix k) x \<longleftrightarrow> prefix (StringToBytes k) x"
  by (rule in_prefix_range)

text \<open>
  The range a permission covers: with a trailing \<open>*\<close> the keys with the prefix before it;
  without one, every key from the named key on, and not the named key only.
\<close>

theorem GetKeyPrefix_range:
  "in_range (fst (GetKeyPrefix key)) (snd (GetKeyPrefix key)) x \<longleftrightarrow>
    (if HasSuffix key ''*'' then prefix (StringToBytes (TrimSuffix key ''*'')) x else StringToBytes key \<le> x)"
proof (cases "HasSuffix key ''*''")
  case True
  then show ?thesis by (simp add: GetKeyPrefix_def Let_def in_prefix_range)
next
  case False
  have "ZeroByte \<noteq> []" by (simp add: ZeroByte_def)
  then show ?thesis using False by (simp add: GetKeyPrefix_def in_range_def)
qed

end
