(* ===== verification/Bytes_Spec.thy ===== *)
theory Bytes_Spec
  imports Demo
begin

text \<open>
  What the operations on byte values and keys promise: the properties of
  \<open>mydis/type_bytes.go\<close> and \<open>mydis/type_keys.go\<close>, each with a witness on the in-memory
  store.
\<close>

text \<open>
  \<open>Set\<close> then \<open>Get\<close>: a value that \<open>Set\<close> stored is what the next read of the key
  returns, and the write changes no other key.
\<close>

theorem Set_then_Get:
  assumes "usable K ctx (newKey (ByteValue_Key val)) m" and "\<not> key_held (newKey (ByteValue_Key val)) m"
  shows "runs (stores E kv K m) (and_then (Set E ctx val) (\<lambda>_. Get E (newKey (ByteValue_Key val))))
    (Ok (newByteValue (ByteValue_Value val)))
    (stores E kv K (m(StringToBytes (ByteValue_Key val) \<mapsto> ByteValue_Value val)))"
proof -
  let ?m = "m(StringToBytes (ByteValue_Key val) \<mapsto> ByteValue_Value val)"
  have set: "runs (stores E kv K m) (Set E ctx val) (Ok ()) (stores E kv K ?m)"
    by (rule Set_free) (use assms in \<open>auto simp: usable_def key_held_def\<close>)
  have "runs (stores E kv K ?m) (Get E (newKey (ByteValue_Key val))) (Ok (newByteValue (ByteValue_Value val))) (stores E kv K ?m)"
    using Get_runs [of "newKey (ByteValue_Key val)" K ?m E kv] assms(1) by (simp add: usable_def)
  with set show ?thesis by (rule runs_and_then)
qed

theorem Set_then_Get_witness:
  "\<exists>w. and_then (Set quiet_etcd demo_ctx \<lparr>ByteValue_Key = ''k'', ByteValue_Value = [7]\<rparr>)
      (\<lambda>_. Get quiet_etcd (newKey ''k'')) (mem_world []) = (Ok (newByteValue [7]), w)"
  using demo_run [OF Set_then_Get [of UNIV demo_ctx "\<lparr>ByteValue_Key = ''k'', ByteValue_Value = [7]\<rparr>" "map_of []" quiet_etcd map_of]]
    demo_usable_empty demo_free_empty by (simp, blast)

text \<open>
  C18. \<open>SetNX\<close> writes only to a key that does not exist.  On an existing key it answers
  false and changes no value, but it leaves the lock it took in place; on a locked key it
  reports \<open>ErrKeyLocked\<close>.
\<close>

theorem SetNX_outcome:
  assumes "usable K ctx (newKey (ByteValue_Key val)) m"
  shows "runs (stores E kv K m) (SetNX E ctx val)
    (if key_held (newKey (ByteValue_Key val)) m then Err ErrKeyLocked
     else Ok (m (StringToBytes (ByteValue_Key val)) = None))
    (stores E kv K
      (if key_held (newKey (ByteValue_Key val)) m then m
       else if m (StringToBytes (ByteValue_Key val)) = None
         then m(getLockName (ByteValue_Key val) := None, StringToBytes (ByteValue_Key val) \<mapsto> ByteValue_Value val)
       else m(getLockName (ByteValue_Key val) \<mapsto> ZeroByte)))"
  using SetNX_absent [OF assms, of E kv] SetNX_present [OF assms, of E kv] SetNX_held [OF assms, of E kv]
  by (cases "m (StringToBytes (ByteValue_Key val))"; cases "m (getLockName (ByteValue_Key val)) = Some ZeroByte")
    (simp_all add: key_held_def)

theorem SetNX_outcome_witness:
  "(\<exists>w. SetNX quiet_etcd demo_ctx \<lparr>ByteValue_Key = ''k'', ByteValue_Value = [7]\<rparr> (mem_world []) = (Ok True, w)) \<and>
   (\<exists>w. SetNX quiet_etcd demo_ctx \<lparr>ByteValue_Key = ''k'', ByteValue_Value = [7]\<rparr> (mem_world (one_key ''k'' [8])) =
      (Ok False, w) \<and>
      stores quiet_etcd map_of UNIV ((map_of (one_key ''k'' [8]))(getLockName ''k'' \<mapsto> ZeroByte)) w)"
  using demo_run [OF SetNX_outcome [of UNIV demo_ctx "\<lparr>ByteValue_Key = ''k'', ByteValue_Value = [7]\<rparr>" "map_of []" quiet_etcd map_of]]
    demo_run [OF SetNX_outcome [of UNIV demo_ctx "\<lparr>ByteValue_Key = ''k'', ByteValue_Value = [7]\<rparr>"
      "map_of (one_key ''k'' [8])" quiet_etcd map_of]]
    demo_usable_empty [of "''k''"] demo_usable [of "''k''" "[8]"] demo_free_empty [of "''k''"] demo_free [of "''k''" "[8]"]
  by (simp add: one_key_def) blast

text \<open>
  \<open>SetMany\<close> sets each field on its own: it always answers, with an error text for exactly
  the keys that are invalid or locked, and the others hold their new value.
\<close>

theorem SetMany_outcome:
  assumes "map_wf (Hash_Value h)"
    and "\<And>k. k \<in> dom (map_get (Hash_Value h)) \<Longrightarrow> getLockName k \<in> K"
    and "\<And>k k'. k \<in> dom (map_get (Hash_Value h)) \<Longrightarrow> k' \<in> dom (map_get (Hash_Value h)) \<Longrightarrow>
      StringToBytes k \<noteq> getLockName k'"
  shows "\<exists>errs m'. runs (stores E kv K m) (SetMany E ctx h) (Ok errs) (stores E kv K m') \<and>
    (\<forall>k. map_get errs k = (if k \<in> dom (map_get (Hash_Value h)) then set_error m k else None)) \<and>
    (\<forall>k. m' (StringToBytes k) = (case map_get (Hash_Value h) k of
       Some v \<Rightarrow> if set_error m k = None then Some v else m (StringToBytes k)
     | None \<Rightarrow> m (StringToBytes k)))"
proof -
  let ?es = "map_entries (Hash_Value h)"
  have dom: "dom (map_get (Hash_Value h)) = fst ` set ?es"
    by (simp add: map_get_def [abs_def] dom_map_of_conv_image_fst)
  have in_dom: "fst x \<in> dom (map_get (Hash_Value h))" if "x \<in> set ?es" for x
    using that unfolding dom by simp
  have "\<exists>es'. runs (stores E kv K m) (setMany_loop E ctx ?es (Some [])) (Ok es') (stores E kv K (fold set_field ?es m)) \<and>
      map_wf es' \<and> (\<forall>k. map_get es' k =
        (if k \<in> fst ` set ?es \<and> set_error m k \<noteq> None then set_error m k else map_get (Some []) k))"
    by (rule setMany_loop_runs) (use assms(2,3) in_dom in \<open>auto simp: map_wf_def map_entries_def\<close>)
  then obtain es' where
      r: "runs (stores E kv K m) (setMany_loop E ctx ?es (Some [])) (Ok es') (stores E kv K (fold set_field ?es m))"
    and errs: "\<forall>k. map_get es' k =
        (if k \<in> fst ` set ?es \<and> set_error m k \<noteq> None then set_error m k else map_get (Some []) k)"
    by blast
  have fold: "fold set_field ?es m (StringToBytes k) = (case map_of ?es (BytesToString (StringToBytes k)) of
       Some v \<Rightarrow> if set_error m (BytesToString (StringToBytes k)) = None then Some v else m (StringToBytes k)
     | None \<Rightarrow> m (StringToBytes k))" for k
    by (rule fold_set_field [OF assms(1) [unfolded map_wf_def] assms(3) [unfolded dom]])
  have "map_get es' k = (if k \<in> dom (map_get (Hash_Value h)) then set_error m k else None)" for k
    using errs [rule_format, of k] unfolding dom by (simp add: map_get_def [of "Some []"] map_entries_def)
  moreover have "fold set_field ?es m (StringToBytes k) = (case map_get (Hash_Value h) k of
       Some v \<Rightarrow> if set_error m k = None then Some v else m (StringToBytes k)
     | None \<Rightarrow> m (StringToBytes k))" for k
    using fold [of k] by (simp add: map_get_def split: option.splits)
  ultimately show ?thesis using r unfolding SetMany_def by blast
qed

theorem SetMany_outcome_witness:
  "\<exists>errs w. SetMany quiet_etcd demo_ctx (newHash (Some [(''k'', [7]), ([], [8])])) (mem_world []) = (Ok errs, w) \<and>
    map_get errs ''k'' = None \<and> map_get errs [] = Some (Error ErrInvalidKey)"
proof -
  have "\<exists>errs m'. runs (stores quiet_etcd map_of UNIV (map_of []))
      (SetMany quiet_etcd demo_ctx (newHash (Some [(''k'', [7]), ([], [8])]))) (Ok errs) (stores quiet_etcd map_of UNIV m') \<and>
    (\<forall>k. map_get errs k = (if k \<in> dom (map_get (Hash_Value (newHash (Some [(''k'', [7]), ([], [8])]))))
      then set_error (map_of []) k else None)) \<and>
    (\<forall>k. m' (StringToBytes k) = (case map_get (Hash_Value (newHash (Some [(''k'', [7]), ([], [8])]))) k of
       Some v \<Rightarrow> if set_error (map_of []) k = None then Some v else map_of [] (StringToBytes k)
     | None \<Rightarrow> map_of [] (StringToBytes k)))"
    by (rule SetMany_outcome)
      (auto simp: map_wf_def map_get_def map_entries_def getLockName_def suffixForLocks_def split: if_splits)
  moreover have invalid_nil: "invalid_key []" by (simp add: invalid_key_def)
  ultimately obtain errs m' where r: "runs (stores quiet_etcd map_of UNIV (map_of []))
      (SetMany quiet_etcd demo_ctx (newHash (Some [(''k'', [7]), ([], [8])]))) (Ok errs) (stores quiet_etcd map_of UNIV m')"
    and e: "\<forall>k. map_get errs k = (if k \<in> dom (map_get (Hash_Value (newHash (Some [(''k'', [7]), ([], [8])]))))
      then set_error (map_of []) k else None)" by blast
  have "map_get errs ''k'' = None" "map_get errs [] = Some (Error ErrInvalidKey)"
    using e by (auto simp: map_get_def [of "Some _"] map_entries_def set_error_def invalid_nil)
  with demo_run [OF r] show ?thesis by blast
qed

text \<open>
  \<open>GetMany\<close> answers with exactly the requested keys that exist, each with its value, all
  read in one transaction.
\<close>

theorem GetMany_outcome:
  assumes "StringToBytes ` set keys \<subseteq> K" and "ZeroByte \<in> K" and "m ZeroByte \<noteq> Some ZeroByte"
  shows "triple (stores E kv K m) (GetMany E keys)
    (\<lambda>r w. \<exists>h. r = Ok (newHash h) \<and> map_get h = (\<lambda>k. if k \<in> set keys then m (StringToBytes k) else None) \<and>
       stores E kv K m w)"
  by (rule triple_weaken [OF GetMany_triple [where m = m, OF assms]]) auto

theorem GetMany_outcome_witness:
  "\<exists>h. fst (GetMany quiet_etcd [''k'', ''l''] (mem_world (one_key ''k'' [7]))) = Ok (newHash h) \<and>
    map_get h ''k'' = Some [7] \<and> map_get h ''l'' = None"
proof -
  have "map_of (one_key ''k'' [7]) ZeroByte \<noteq> Some ZeroByte" 
    using StringToBytes_valid [of "''k''"] by (auto simp: one_key_def)
  then have "\<exists>h. fst (GetMany quiet_etcd [''k'', ''l''] (mem_world (one_key ''k'' [7]))) = Ok (newHash h) \<and>
      map_get h = (\<lambda>k. if k \<in> set [''k'', ''l''] then map_of (one_key ''k'' [7]) (StringToBytes k) else None) \<and>
      stores quiet_etcd map_of UNIV (map_of (one_key ''k'' [7]))
        (snd (GetMany quiet_etcd [''k'', ''l''] (mem_world (one_key ''k'' [7]))))"
    by (intro tripleD [OF GetMany_outcome [of "[''k'', ''l'']"]]) (simp_all add: quiet_stores)
  then show ?thesis by (auto simp: one_key_def)
qed

text \<open>
  \<open>GetWithPrefix\<close> answers with exactly the keys that have the prefix, and their values.
\<close>

theorem GetWithPrefix_outcome:
  assumes "sint (Key_Revision key) \<le> 0" and "sint (Key_Limit key) \<le> 0"
  shows "triple (stores E kv UNIV m) (GetWithPrefix E key)
    (\<lambda>r w. \<exists>h. r = Ok (newHash h) \<and>
       map_get h = (\<lambda>k. if prefix (Key_Key key) k then m (StringToBytes k) else None) \<and> stores E kv UNIV m w)"
  by (rule triple_weaken [OF GetWithPrefix_triple [OF assms]]) auto

theorem GetWithPrefix_outcome_witness:
  "\<exists>h. fst (GetWithPrefix quiet_etcd (newKey ''a'') (mem_world (one_key ''ab'' [7]))) = Ok (newHash h) \<and>
    map_get h ''ab'' = Some [7] \<and> map_get h ''b'' = None"
proof -
  have "\<exists>h. fst (GetWithPrefix quiet_etcd (newKey ''a'') (mem_world (one_key ''ab'' [7]))) = Ok (newHash h) \<and>
       map_get h = (\<lambda>k. if prefix (Key_Key (newKey ''a'')) k then map_of (one_key ''ab'' [7]) (StringToBytes k) else None) \<and>
       stores quiet_etcd map_of UNIV (map_of (one_key ''ab'' [7]))
         (snd (GetWithPrefix quiet_etcd (newKey ''a'') (mem_world (one_key ''ab'' [7]))))"
    by (rule tripleD [OF GetWithPrefix_outcome [of "newKey ''a''" quiet_etcd map_of "map_of (one_key ''ab'' [7])"]])
      (simp_all add: quiet_stores)
  then show ?thesis by (auto simp: one_key_def)
qed

text \<open>
  \<open>KeysWithPrefix\<close> lists every key with the prefix once, and nothing else.
\<close>

theorem KeysWithPrefix_outcome:
  "triple (stores E kv UNIV m) (KeysWithPrefix E key)
    (\<lambda>r w. \<exists>ks. r = Ok ks \<and> distinct ks \<and> set ks = {k. m (StringToBytes k) \<noteq> None \<and> prefix (Key_Key key) k} \<and>
       stores E kv UNIV m w)"
  by (rule KeysWithPrefix_triple)

text \<open>
  A blocking \<open>Get\<close> of a key that nobody writes gives up with \<open>ErrKeyNotFound\<close>, and not
  before its timeout has passed.
\<close>

theorem Get_gives_up:
  assumes "Key_Block key" and "0 < sint (Key_BlockTimeout key)" and "sint (Key_BlockTimeout key) \<le> 9223372036"
    and "StringToBytes (Key_Key key) \<in> K" and "sint (Key_Revision key) \<le> 0"
    and "m (StringToBytes (Key_Key key)) = None" and "stores E kv K m w"
  shows "\<exists>w'. Get E key w = (Err ErrKeyNotFound, w') \<and> stores E kv K m w' \<and>
    clock w + sint (Key_BlockTimeout key) * 1000000000 \<le> clock w'"
  using assms by (rule Get_blocks)

theorem Get_gives_up_witness:
  "\<exists>w'. Get quiet_etcd ((newKey ''k'')\<lparr>Key_Block := True, Key_BlockTimeout := 2\<rparr>) (mem_world []) =
      (Err ErrKeyNotFound, w') \<and> 2000000000 \<le> clock w'"
  using Get_gives_up [of "(newKey ''k'')\<lparr>Key_Block := True, Key_BlockTimeout := 2\<rparr>" UNIV "map_of []" quiet_etcd map_of "mem_world []"]
  by (simp add: quiet_stores) blast

text \<open>
  A blocking \<open>Get\<close> without timeout returns the value once another client has written the
  key, if it is there from some scheduling point on.
\<close>

theorem Get_receives:
  assumes "etcd_kv E kv" and "etcd_up E" and "sint (Key_Revision key) \<le> 0"
    and "Key_Block key" and "sint (Key_BlockTimeout key) \<le> 0"
    and "\<And>n s. N \<le> n \<Longrightarrow> kv (others E n s) (StringToBytes (Key_Key key)) \<noteq> None"
  shows "\<exists>v w'. Get E key w = (Ok (newByteValue v), w')"
proof -
  let ?s = "others E (ticks w) (cache w)" and ?q = "getRangeRequestFromKey key"
  have r0: "Range_Revision ?q = 0" using assms(3) by (rule getRangeRequest_revision)
  obtain x where x: "fst (etcd_Range E ?s ?q) = Inr x" using assms(2) unfolding etcd_up_def by blast
  then have op: "etcd_Range E ?s ?q = (Inr x, snd (etcd_Range E ?s ?q))" by (cases "etcd_Range E ?s ?q") simp
  note c = call_simps(1) [of "\<lambda>s. etcd_Range E s ?q", OF op]
  note v = range_answer_single [OF etcd_rangeD(2) [OF assms(1) x r0]]
  show ?thesis
  proof (cases "kv ?s (StringToBytes (Key_Key key))")
    case None
    let ?w1 = "\<lparr>cache = snd (etcd_Range E ?s ?q), clock = clock w + int (lag E (ticks w)), ticks = Suc (ticks w)\<rparr>"
    have g: "Get E key w = looping (block_poll E [ErrKeyNotFound] (Get_once E key) (Key_BlockTimeout key) 0) ?w1"
      using v None assms(4) by (simp add: Get_def Get_with_def and_then_def attempt_def c)
    obtain b w' where "block_poll E [ErrKeyNotFound] (Get_once E key) (Key_BlockTimeout key) 0 ?w1 =
        Some (Ok (newByteValue b), w')"
      using block_poll_arrives [where N = N and waited = 0 and w = ?w1, OF assms(1-3,6,5)] by blast
    then show ?thesis by (auto simp: g looping_def)
  next
    case (Some b)
    with v have "Get E key w = (Ok (newByteValue b), \<lparr>cache = snd (etcd_Range E ?s ?q),
        clock = clock w + int (lag E (ticks w)), ticks = Suc (ticks w)\<rparr>)"
      by (simp add: Get_def Get_with_def and_then_def attempt_def ret_def c)
    then show ?thesis by blast
  qed
qed

theorem Get_receives_witness:
  "\<exists>v w'. Get (mem_etcd (\<lambda>n s. if n < 3 then s else [(StringToBytes ''k'', [7])]) (\<lambda>_. 0))
      ((newKey ''k'')\<lparr>Key_Block := True\<rparr>) (mem_world []) = (Ok (newByteValue v), w')"
  using Get_receives [of "mem_etcd (\<lambda>n s. if n < 3 then s else [(StringToBytes ''k'', [7])]) (\<lambda>_. 0)" map_of
      "(newKey ''k'')\<lparr>Key_Block := True\<rparr>" 3 "mem_world []"]
  by (simp add: mem_etcd_kv mem_etcd_up)

text \<open>
  \<open>SetExpire\<close> replaces the value: it writes the key with its lease and an empty value, so
  what the key held is lost at once.
\<close>

theorem SetExpire_erases_value:
  "runs (stores E kv K m) (SetExpire E ex) (Ok ()) (stores E kv K (m(StringToBytes (Expiration_Key ex) \<mapsto> [])))"
  by (rule SetExpire_runs)

end
