(* ===== verification/Numbers_Spec.thy ===== *)
theory Numbers_Spec
  imports Demo
begin

text \<open>
  What the counters promise: the properties of \<open>mydis/type_int.go\<close> and
  \<open>mydis/type_float.go\<close>, each with a witness on the in-memory store.
\<close>

lemma if_missing_Inl: "if_missing d r = Inl e \<Longrightarrow> r = Inl e \<and> e \<noteq> ErrKeyNotFound"
  by (auto simp: if_missing_def split: sum.splits if_splits)

text \<open>
  C19. \<open>IncrementInt\<close> on every branch.  On a locked key it reports \<open>ErrKeyLocked\<close> and changes
  nothing; on a value that does not decode it reports that error, writes nothing and
  releases its lock; otherwise it answers with the old number (zero for a missing key) plus
  the increment, in 64 bits with wrap-around, and that number is what the key holds
  afterwards, with the lock released and every other key as it was.
\<close>

theorem IncrementInt_outcome:
  assumes "usable K ctx (newKey (IntValue_Key iv)) m" and "proto_ok C"
  shows "\<exists>m' res. runs (stores E kv K m) (IncrementInt E C ctx iv) res (stores E kv K m') \<and>
    (if key_held (newKey (IntValue_Key iv)) m then res = Err ErrKeyLocked \<and> m' = m
     else case if_missing \<lparr>IntValue_Key = [], IntValue_Value = 0\<rparr> (int_read C (newKey (IntValue_Key iv)) m) of
       Inl e \<Rightarrow> res = Err e \<and> m' = m(getLockName (IntValue_Key iv) := None)
     | Inr old \<Rightarrow>
         res = Ok \<lparr>IntValue_Key = [], IntValue_Value = IntValue_Value old + IntValue_Value iv\<rparr> \<and>
         int_read C (newKey (IntValue_Key iv)) m' =
           Inr \<lparr>IntValue_Key = [], IntValue_Value = IntValue_Value old + IntValue_Value iv\<rparr> \<and>
         updated K ctx (newKey (IntValue_Key iv)) m m')"
proof (cases "key_held (newKey (IntValue_Key iv)) m")
  case True
  then show ?thesis using IncrementInt_busy [OF assms(1) True, of E kv C] by auto
next
  case free: False
  show ?thesis
  proof (cases "if_missing \<lparr>IntValue_Key = [], IntValue_Value = 0\<rparr> (int_read C (newKey (IntValue_Key iv)) m)")
    case (Inl e)
    with if_missing_Inl [OF Inl] IncrementInt_error [OF assms(1) free, of C e E kv] free
    show ?thesis by (auto simp: key_unlocked_def)
  next
    case (Inr old)
    with IncrementInt_ok [OF assms(1) free Inr assms(2), of E kv] free show ?thesis by auto
  qed
qed

theorem IncrementInt_outcome_witness:
  "\<exists>w. IncrementInt quiet_etcd memory_codec demo_ctx \<lparr>IntValue_Key = ''k'', IntValue_Value = 5\<rparr>
    (mem_world (one_key ''k'' (int_encoding 37))) = (Ok \<lparr>IntValue_Key = [], IntValue_Value = 42\<rparr>, w)"
proof -
  let ?iv = "\<lparr>IntValue_Key = ''k'', IntValue_Value = 5\<rparr> :: pb_IntValue"
  have u: "usable UNIV demo_ctx (newKey (IntValue_Key ?iv)) (map_of (one_key ''k'' (int_encoding 37)))"
    by (simp add: demo_setting)
  from IncrementInt_outcome [OF u memory_codec_ok, of quiet_etcd map_of]
  have "\<exists>m'. runs (stores quiet_etcd map_of UNIV (map_of (one_key ''k'' (int_encoding 37))))
      (IncrementInt quiet_etcd memory_codec demo_ctx ?iv) (Ok \<lparr>IntValue_Key = [], IntValue_Value = 42\<rparr>)
      (stores quiet_etcd map_of UNIV m')"
    by (auto simp: demo_setting if_missing_def)
  then show ?thesis using demo_run by blast
qed

text \<open>
  \<open>DecrementInt\<close> subtracts: on a free key it answers with, and stores, the old number
  minus the decrement in 64-bit arithmetic, also for the smallest integer, whose negation
  wraps.
\<close>

theorem DecrementInt_subtracts:
  assumes "usable K ctx (newKey (IntValue_Key iv)) m" and "\<not> key_held (newKey (IntValue_Key iv)) m" and "proto_ok C"
    and "if_missing \<lparr>IntValue_Key = [], IntValue_Value = 0\<rparr> (int_read C (newKey (IntValue_Key iv)) m) = Inr old"
  shows "\<exists>m'. runs (stores E kv K m) (DecrementInt E C ctx iv)
      (Ok \<lparr>IntValue_Key = [], IntValue_Value = IntValue_Value old - IntValue_Value iv\<rparr>) (stores E kv K m') \<and>
    int_read C (newKey (IntValue_Key iv)) m' =
      Inr \<lparr>IntValue_Key = [], IntValue_Value = IntValue_Value old - IntValue_Value iv\<rparr> \<and>
    updated K ctx (newKey (IntValue_Key iv)) m m'"
  using IncrementInt_ok [of K ctx "iv\<lparr>IntValue_Value := IntValue_Value iv * - 1\<rparr>" m C old E kv] assms
  by (simp add: DecrementInt_def)

theorem DecrementInt_subtracts_witness:
  "\<exists>w. DecrementInt quiet_etcd memory_codec demo_ctx \<lparr>IntValue_Key = ''k'', IntValue_Value = 1\<rparr> (mem_world []) =
    (Ok \<lparr>IntValue_Key = [], IntValue_Value = - 1\<rparr>, w)"
proof -
  let ?iv = "\<lparr>IntValue_Key = ''k'', IntValue_Value = 1\<rparr> :: pb_IntValue"
  have "\<exists>m'. runs (stores quiet_etcd map_of UNIV (map_of [])) (DecrementInt quiet_etcd memory_codec demo_ctx ?iv)
        (Ok \<lparr>IntValue_Key = [], IntValue_Value = IntValue_Value \<lparr>IntValue_Key = [], IntValue_Value = 0\<rparr> - IntValue_Value ?iv\<rparr>)
        (stores quiet_etcd map_of UNIV m') \<and>
      int_read memory_codec (newKey (IntValue_Key ?iv)) m' =
        Inr \<lparr>IntValue_Key = [], IntValue_Value = IntValue_Value \<lparr>IntValue_Key = [], IntValue_Value = 0\<rparr> - IntValue_Value ?iv\<rparr> \<and>
      updated UNIV demo_ctx (newKey (IntValue_Key ?iv)) (map_of []) m'"
    by (rule DecrementInt_subtracts) (simp_all add: demo_setting if_missing_def )
  from demo_run_ex [OF this] show ?thesis by auto
qed

text \<open>
  C20. \<open>IncrementFloat\<close> of finite numbers: the number it answers with and stores is the sum
  rounded to nearest, at most half a unit of the last place away from the exact sum, as
  long as the sum does not overflow.
\<close>

theorem IncrementFloat_rounds:
  assumes "usable K ctx (newKey (FloatValue_Key fv)) m" and "\<not> key_held (newKey (FloatValue_Key fv)) m" and "proto_ok C"
    and "if_missing \<lparr>FloatValue_Key = [], FloatValue_Value = 0\<rparr> (float_read C (newKey (FloatValue_Key fv)) m) = Inr old"
    and "finite_float (FloatValue_Value old)" and "finite_float (FloatValue_Value fv)"
    and "exact = units (FloatValue_Value old) + units (FloatValue_Value fv)"
    and "encode (nat \<bar>exact\<bar>) < 2047 * 2 ^ 52"
  shows "\<exists>m' x. runs (stores E kv K m) (IncrementFloat E C ctx fv)
      (Ok \<lparr>FloatValue_Key = [], FloatValue_Value = x\<rparr>) (stores E kv K m') \<and>
    float_read C (newKey (FloatValue_Key fv)) m' = Inr \<lparr>FloatValue_Key = [], FloatValue_Value = x\<rparr> \<and>
    updated K ctx (newKey (FloatValue_Key fv)) m m' \<and>
    2 * \<bar>units x - exact\<bar> \<le> 2 ^ dropped (nat \<bar>exact\<bar>)"
  using IncrementFloat_ok [OF assms(1,2,4,3), of E kv] float_add_error [OF assms(5-8)] by blast

theorem IncrementFloat_rounds_witness:
  "\<exists>x w. IncrementFloat quiet_etcd memory_codec demo_ctx \<lparr>FloatValue_Key = ''k'', FloatValue_Value = 3\<rparr> (mem_world []) =
    (Ok \<lparr>FloatValue_Key = [], FloatValue_Value = x\<rparr>, w) \<and> units x = 3"
proof -
  let ?fv = "\<lparr>FloatValue_Key = ''k'', FloatValue_Value = 3\<rparr> :: pb_FloatValue"
    and ?old = "\<lparr>FloatValue_Key = [], FloatValue_Value = 0\<rparr> :: pb_FloatValue"
  have missing: "float_read memory_codec (newKey ''k'') Map.empty = Inl ErrKeyNotFound"
    by (simp add: float_read_def key_value_def fetched_def)
  have units: "units 0 = 0" "units 3 = 3" "finite_float 0" "finite_float 3"
    by (simp_all add: units_def magnitude_def float_sign_def finite_float_def float_exp_def bit_numeral_word_iff
        Let_def bit_numeral_simps)
  have drop: "dropped 3 = 0" by (simp add: dropped_def floorlog_eq_zero_iff compute_floorlog)
  have "\<exists>m' x. runs (stores quiet_etcd map_of UNIV (map_of [])) (IncrementFloat quiet_etcd memory_codec demo_ctx ?fv)
        (Ok \<lparr>FloatValue_Key = [], FloatValue_Value = x\<rparr>) (stores quiet_etcd map_of UNIV m') \<and>
      float_read memory_codec (newKey (FloatValue_Key ?fv)) m' = Inr \<lparr>FloatValue_Key = [], FloatValue_Value = x\<rparr> \<and>
      updated UNIV demo_ctx (newKey (FloatValue_Key ?fv)) (map_of []) m' \<and>
      2 * \<bar>units x - 3\<bar> \<le> 2 ^ dropped (nat \<bar>3\<bar>)"
    by (rule IncrementFloat_rounds [where old = ?old])
      (simp_all add: demo_setting if_missing_def missing units encode_small )
  then obtain m' x where r: "runs (stores quiet_etcd map_of UNIV (map_of []))
      (IncrementFloat quiet_etcd memory_codec demo_ctx ?fv)
        (Ok \<lparr>FloatValue_Key = [], FloatValue_Value = x\<rparr>) (stores quiet_etcd map_of UNIV m')"
    and x: "2 * \<bar>units x - 3\<bar> \<le> 2 ^ dropped (nat \<bar>3\<bar>)" by blast
  have "2 * \<bar>units x - 3\<bar> \<le> 1" using x by (simp add: drop)
  then have "units x = 3" by arith
  with demo_run [OF r] show ?thesis by blast
qed

end
