(* ===== verification/Lists_Spec.thy ===== *)
theory Lists_Spec
  imports Demo
begin

text \<open>
  What the list operations promise: the properties of \<open>mydis/type_list.go\<close>, each with a
  witness on the in-memory store.
\<close>

text \<open>The item of the key \<open>''k''\<close> the witnesses use.\<close>

definition demo_item :: "int64 \<Rightarrow> bytes \<Rightarrow> pb_ListItem" where
  "demo_item i v = \<lparr>ListItem_Key = ''k'', ListItem_Index = i, ListItem_Value = v\<rparr>"

abbreviation demo_list_store :: "int64 \<Rightarrow> bytes list \<Rightarrow> mem" where
  "demo_list_store limit vs \<equiv> one_key ''k'' (list_encoding limit vs)"

lemma demo_item_simps [simp]:
  "ListItem_Key (demo_item i v) = ''k''" "ListItem_Index (demo_item i v) = i" "ListItem_Value (demo_item i v) = v"
  by (simp_all add: demo_item_def)

text \<open>A list of two items, the setting of the witnesses on indices.\<close>

abbreviation demo_two :: pb_List where
  "demo_two \<equiv> \<lparr>List_Key = [], List_Value = [[1], [2]], List_Limit = 0\<rparr>"

lemma demo_two:
  "usable UNIV demo_ctx (newKey (ListItem_Key (demo_item i v))) (map_of (demo_list_store 0 [[1], [2]]))"
  "\<not> key_held (newKey (ListItem_Key (demo_item i v))) (map_of (demo_list_store 0 [[1], [2]]))"
  "list_read memory_codec (newKey (ListItem_Key (demo_item i v))) (map_of (demo_list_store 0 [[1], [2]])) = Inr demo_two"
  "go_slice (List_Value demo_two)" "List_Value demo_two \<noteq> []"
  by (simp_all add: demo_setting go_slice_def)

text \<open>
  \<open>ListInsert\<close> puts the item at its index, a negative index standing for the front and
  one past the end for the end, and then drops items from the front until the limit of the
  list is respected; a missing key counts as an empty list.
\<close>

theorem ListInsert_outcome:
  assumes "usable K ctx (newKey (ListItem_Key li)) m" and "\<not> key_held (newKey (ListItem_Key li)) m" and "proto_ok C"
    and "if_missing (newList []) (list_read C (newKey (ListItem_Key li)) m) = Inr lst"
    and "go_slice (List_Value lst @ [ListItem_Value li])" and "0 \<le> sint (List_Limit lst)"
    and "n = nat (sint (ListItem_Index li))"
  shows "\<exists>m'. runs (stores E kv K m) (ListInsert E C ctx li) (Ok ()) (stores E kv K m') \<and>
    list_stores K ctx C (ListItem_Key li) m
      (lst\<lparr>List_Value := keep_last (List_Limit lst)
        (take n (List_Value lst) @ ListItem_Value li # drop n (List_Value lst))\<rparr>) m'"
  using ListInsert_ok [OF assms(1-6) refl assms(7)] by blast

theorem ListInsert_outcome_witness:
  "\<exists>w m'. ListInsert quiet_etcd memory_codec demo_ctx (demo_item 1 [9]) (mem_world (demo_list_store 0 [[1], [2]])) =
      (Ok (), w) \<and> stores quiet_etcd map_of UNIV m' w \<and>
    list_read memory_codec (newKey ''k'') m' = Inr \<lparr>List_Key = [], List_Value = [[1], [9], [2]], List_Limit = 0\<rparr>"
proof -
  let ?m = "map_of (demo_list_store 0 [[1], [2]])"
  have "\<exists>m'. runs (stores quiet_etcd map_of UNIV ?m)
      (ListInsert quiet_etcd memory_codec demo_ctx (demo_item 1 [9])) (Ok ()) (stores quiet_etcd map_of UNIV m') \<and>
    list_stores UNIV demo_ctx memory_codec (ListItem_Key (demo_item 1 [9])) ?m
      (\<lparr>List_Key = [], List_Value = [[1], [2]], List_Limit = 0\<rparr>\<lparr>List_Value := keep_last 0 [[1], [9], [2]]\<rparr>) m'"
    using ListInsert_outcome [where K = UNIV and ctx = demo_ctx and li = "demo_item 1 [9]" and m = ?m and C = memory_codec
        and lst = "\<lparr>List_Key = [], List_Value = [[1], [2]], List_Limit = 0\<rparr>" and n = 1 and E = quiet_etcd and kv = map_of]
    by (simp add: demo_setting if_missing_def go_slice_def)
  from demo_run_ex [OF this] show ?thesis by (auto simp: list_stores_def keep_last_def)
qed

text \<open>
  C21. A limited list stays within its limit: after \<open>ListAppend\<close> the list holds the last items
  of the old list and the new one, at most as many as the limit says, and all of them when
  there is no limit.
\<close>

theorem ListAppend_limited:
  assumes "usable K ctx (newKey (ListItem_Key li)) m" and "\<not> key_held (newKey (ListItem_Key li)) m" and "proto_ok C"
    and "if_missing (newList []) (list_read C (newKey (ListItem_Key li)) m) = Inr lst"
    and "go_slice (List_Value lst @ [ListItem_Value li])" and "0 \<le> sint (List_Limit lst)"
  shows "\<exists>m' vs. runs (stores E kv K m) (ListAppend E C ctx li) (Ok ()) (stores E kv K m') \<and>
    list_stores K ctx C (ListItem_Key li) m (lst\<lparr>List_Value := vs\<rparr>) m' \<and>
    (\<exists>old. old @ vs = List_Value lst @ [ListItem_Value li] \<and>
      length vs = (if List_Limit lst = 0 then Suc (length (List_Value lst))
        else min (nat (sint (List_Limit lst))) (Suc (length (List_Value lst)))))"
proof -
  let ?vs = "keep_last (List_Limit lst) (List_Value lst @ [ListItem_Value li])"
  let ?k = "if List_Limit lst = 0 then 0 else Suc (length (List_Value lst)) - nat (sint (List_Limit lst))"
  have "take ?k (List_Value lst @ [ListItem_Value li]) @ ?vs = List_Value lst @ [ListItem_Value li]"
    unfolding keep_last_def by (simp del: drop_append take_append)
  moreover have "length ?vs = (if List_Limit lst = 0 then Suc (length (List_Value lst))
        else min (nat (sint (List_Limit lst))) (Suc (length (List_Value lst))))"
    by (simp add: keep_last_def min_def del: drop_append)
  ultimately show ?thesis using ListAppend_ok [OF assms, of E kv] by blast
qed

theorem ListAppend_limited_witness:
  "\<exists>w m' vs. ListAppend quiet_etcd memory_codec demo_ctx (demo_item 0 [9]) (mem_world (demo_list_store 2 [[1], [2]])) =
      (Ok (), w) \<and> stores quiet_etcd map_of UNIV m' w \<and>
    list_read memory_codec (newKey ''k'') m' = Inr \<lparr>List_Key = [], List_Value = vs, List_Limit = 2\<rparr> \<and> length vs = 2"
proof -
  let ?m = "map_of (demo_list_store 2 [[1], [2]])"
  have "\<exists>m' vs. runs (stores quiet_etcd map_of UNIV ?m)
      (ListAppend quiet_etcd memory_codec demo_ctx (demo_item 0 [9])) (Ok ()) (stores quiet_etcd map_of UNIV m') \<and>
    list_stores UNIV demo_ctx memory_codec (ListItem_Key (demo_item 0 [9])) ?m
      (\<lparr>List_Key = [], List_Value = [[1], [2]], List_Limit = 2\<rparr>\<lparr>List_Value := vs\<rparr>) m' \<and>
    (\<exists>old. old @ vs = [[1], [2], [9]] \<and> length vs = Suc (Suc 0))"
    using ListAppend_limited [where K = UNIV and ctx = demo_ctx and li = "demo_item 0 [9]" and m = ?m and C = memory_codec
        and lst = "\<lparr>List_Key = [], List_Value = [[1], [2]], List_Limit = 2\<rparr>" and E = quiet_etcd and kv = map_of]
    by (simp add: demo_setting if_missing_def go_slice_def)
  then obtain m' vs where r: "runs (stores quiet_etcd map_of UNIV ?m)
      (ListAppend quiet_etcd memory_codec demo_ctx (demo_item 0 [9])) (Ok ()) (stores quiet_etcd map_of UNIV m')"
    and l: "list_stores UNIV demo_ctx memory_codec ''k'' ?m \<lparr>List_Key = [], List_Value = vs, List_Limit = 2\<rparr> m'"
    and "length vs = 2" by (auto simp: numeral_2_eq_2)
  with demo_run [OF r] show ?thesis by (auto simp: list_stores_def)
qed

section \<open>Queues\<close>

text \<open>As many calls of a pop as there are items, and the items they answer with.\<close>

fun pop_times :: "nat \<Rightarrow> ('s, pb_ByteValue) handler \<Rightarrow> ('s, bytes list) handler" where
  "pop_times 0 pop = ret []"
| "pop_times (Suc n) pop = and_then pop (\<lambda>v. and_then (pop_times n pop) (\<lambda>vs. ret (ByteValue_Value v # vs)))"

lemma pop_times_drains:
  assumes step: "\<And>m lst b rest. usable K ctx key m \<Longrightarrow> \<not> key_held key m \<Longrightarrow> list_read C key m = Inr lst \<Longrightarrow>
      List_Value lst = put b rest \<Longrightarrow> go_slice (put b rest) \<Longrightarrow>
      \<exists>m'. runs (stores E kv K m) pop (Ok (newByteValue b)) (stores E kv K m') \<and>
        list_read C key m' = Inr (lst\<lparr>List_Key := [], List_Value := rest\<rparr>) \<and> updated K ctx key m m'"
    and size: "\<And>b rest. length (put b rest) = Suc (length rest)"
    and "usable K ctx key m" and "\<not> key_held key m" and "list_read C key m = Inr lst"
    and "List_Value lst = fold put xs []" and "go_slice xs"
  shows "\<exists>m' lst'. runs (stores E kv K m) (pop_times (length xs) pop) (Ok (rev xs)) (stores E kv K m') \<and>
    list_read C key m' = Inr lst' \<and> List_Value lst' = [] \<and> usable K ctx key m' \<and> \<not> key_held key m'"
  using assms(3-7)
proof (induction xs arbitrary: m lst rule: rev_induct)
  case Nil
  then show ?case by (auto intro: runs_ret)
next
  case (snoc x xs)
  have len: "length (fold put zs []) = length zs" for zs
    by (induction zs rule: rev_induct) (simp_all add: size)
  have "List_Value lst = put x (fold put xs [])" using snoc.prems(4) by simp
  moreover have "go_slice (put x (fold put xs []))" using snoc.prems(5) by (simp add: go_slice_def size len)
  ultimately obtain m1 where
      pop: "runs (stores E kv K m) pop (Ok (newByteValue x)) (stores E kv K m1)"
    and m1: "list_read C key m1 = Inr (lst\<lparr>List_Key := [], List_Value := fold put xs []\<rparr>)" "updated K ctx key m m1"
    using step [OF snoc.prems(1-3)] by blast
  have ok: "usable K ctx key m1" "\<not> key_held key m1" using m1(2) by (simp_all add: updated_def)
  obtain m' lst' where
      rest: "runs (stores E kv K m1) (pop_times (length xs) pop) (Ok (rev xs)) (stores E kv K m')"
    and m': "list_read C key m' = Inr lst'" "List_Value lst' = []" "usable K ctx key m'" "\<not> key_held key m'"
    using snoc.IH [OF ok m1(1)] snoc.prems(5) by (auto simp: go_slice_def)
  have "runs (stores E kv K m) (pop_times (length (xs @ [x])) pop) (Ok (rev (xs @ [x]))) (stores E kv K m')"
    by (simp, rule runs_and_then [OF pop], rule runs_and_then [OF rest]) (simp add: runs_ret newByteValue_def)
  with m' show ?case by blast
qed

text \<open>
  Lists are queues at both ends: as many calls of \<open>ListPopLeft\<close> as the list has items
  answer with the items in order, as many of \<open>ListPopRight\<close> in reverse order, and the next
  call of either reports \<open>ErrListEmpty\<close>.
\<close>

theorem List_pops_in_order:
  assumes "usable K ctx key m" and "\<not> key_held key m" and "proto_ok C"
    and "list_read C key m = Inr lst" and "go_slice (List_Value lst)"
  shows "\<exists>m1 m2.
    runs (stores E kv K m) (pop_times (length (List_Value lst)) (ListPopLeft E C ctx key))
      (Ok (List_Value lst)) (stores E kv K m1) \<and>
    runs (stores E kv K m1) (ListPopLeft E C ctx key) (Err ErrListEmpty) (stores E kv K (key_unlocked key m1)) \<and>
    runs (stores E kv K m) (pop_times (length (List_Value lst)) (ListPopRight E C ctx key))
      (Ok (rev (List_Value lst))) (stores E kv K m2) \<and>
    runs (stores E kv K m2) (ListPopRight E C ctx key) (Err ErrListEmpty) (stores E kv K (key_unlocked key m2))"
proof -
  let ?xs = "List_Value lst"
  have cons: "fold Cons ys zs = rev ys @ zs" and snoc: "fold (\<lambda>b rest. rest @ [b]) ys zs = zs @ ys" for ys zs :: "bytes list"
    by (induction ys arbitrary: zs) simp_all
  have "\<exists>m1 lst1. runs (stores E kv K m) (pop_times (length (rev ?xs)) (ListPopLeft E C ctx key))
      (Ok (rev (rev ?xs))) (stores E kv K m1) \<and>
    list_read C key m1 = Inr lst1 \<and> List_Value lst1 = [] \<and> usable K ctx key m1 \<and> \<not> key_held key m1"
    by (rule pop_times_drains [where put = Cons, OF ListPopLeft_item])
      (use assms in \<open>simp_all add: cons go_slice_def\<close>)
  moreover have "\<exists>m2 lst2. runs (stores E kv K m) (pop_times (length ?xs) (ListPopRight E C ctx key))
      (Ok (rev ?xs)) (stores E kv K m2) \<and>
    list_read C key m2 = Inr lst2 \<and> List_Value lst2 = [] \<and> usable K ctx key m2 \<and> \<not> key_held key m2"
    by (rule pop_times_drains [where put = "\<lambda>b rest. rest @ [b]", OF ListPopRight_item])
      (use assms in \<open>simp_all add: snoc go_slice_def\<close>)
  moreover have "runs (stores E kv K m') (ListPopLeft E C ctx key) (Err ErrListEmpty) (stores E kv K (key_unlocked key m'))"
      and "runs (stores E kv K m') (ListPopRight E C ctx key) (Err ErrListEmpty) (stores E kv K (key_unlocked key m'))"
    if "list_read C key m' = Inr lst'" "List_Value lst' = []" "usable K ctx key m'" "\<not> key_held key m'" for m' lst'
    using that unfolding ListPopLeft_def ListPopRight_def pop_blocking_def by (auto intro: pop_with_empty)
  ultimately show ?thesis by (simp only: length_rev rev_rev_ident) blast
qed

theorem List_pops_in_order_witness:
  "\<exists>w. pop_times 2 (ListPopRight quiet_etcd memory_codec demo_ctx (newKey ''k'')) (mem_world (demo_list_store 0 [[1], [2]])) =
    (Ok [[2], [1]], w)"
proof -
  let ?m = "map_of (demo_list_store 0 [[1], [2]])"
  have "\<exists>m2. runs (stores quiet_etcd map_of UNIV ?m)
      (pop_times (Suc (Suc 0)) (ListPopRight quiet_etcd memory_codec demo_ctx (newKey ''k''))) (Ok [[2], [1]])
      (stores quiet_etcd map_of UNIV m2)"
    using List_pops_in_order [where K = UNIV and ctx = demo_ctx and key = "newKey ''k''" and m = ?m and C = memory_codec
        and lst = "\<lparr>List_Key = [], List_Value = [[1], [2]], List_Limit = 0\<rparr>" and E = quiet_etcd and kv = map_of]
    by (simp add: demo_setting go_slice_def del: pop_times.simps) blast
  then show ?thesis using demo_run unfolding numeral_2_eq_2 by blast
qed

section \<open>Items by index\<close>

text \<open>
  Which item \<open>GetListItem\<close> answers with, for every index but the smallest integer: an
  index from \<open>- n\<close> to \<open>n - 1\<close> counts from the front or from the back; one further out
  than a single position is moved to the nearest end; but on the indices just outside,
  \<open>n\<close>, \<open>n + 1\<close> and \<open>- n - 1\<close>, the call panics.
\<close>

theorem GetListItem_outcome:
  assumes "usable K ctx (newKey (ListItem_Key li)) m" and "list_read C (newKey (ListItem_Key li)) m = Inr lst"
    and "go_slice (List_Value lst)" and "List_Value lst \<noteq> []" and "- (2 ^ 63) < sint (ListItem_Index li)"
    and "n = int (length (List_Value lst))" and "i = sint (ListItem_Index li)"
  shows "runs (stores E kv K m) (GetListItem E C li)
    (if 0 \<le> i \<and> i < n then Ok (newByteValue (List_Value lst ! nat i))
     else if - n \<le> i \<and> i < 0 then Ok (newByteValue (List_Value lst ! nat (n + i)))
     else if n + 1 < i then Ok (newByteValue (last (List_Value lst)))
     else if i < - n - 1 then Ok (newByteValue (hd (List_Value lst)))
     else Panic) (stores E kv K m)"
proof -
  have eq: "(case index_item (List_Value lst) (clamp_index (len64 (List_Value lst)) (ListItem_Index li)) of
      None \<Rightarrow> Panic | Some b \<Rightarrow> Ok (newByteValue b)) =
    (if 0 \<le> i \<and> i < n then Ok (newByteValue (List_Value lst ! nat i))
     else if - n \<le> i \<and> i < 0 then Ok (newByteValue (List_Value lst ! nat (n + i)))
     else if n + 1 < i then Ok (newByteValue (last (List_Value lst)))
     else if i < - n - 1 then Ok (newByteValue (hd (List_Value lst)))
     else Panic)"
    unfolding index_item_clamp [OF assms(3-5)] Let_def assms(6,7) by simp
  show ?thesis unfolding eq [symmetric] by (rule GetListItem_read [OF assms(1-4)])
qed

theorem GetListItem_outcome_witness:
  "(\<exists>w. GetListItem quiet_etcd memory_codec (demo_item (- 1) []) (mem_world (demo_list_store 0 [[1], [2]])) =
      (Ok (newByteValue [2]), w)) \<and>
   (\<exists>w. GetListItem quiet_etcd memory_codec (demo_item 2 []) (mem_world (demo_list_store 0 [[1], [2]])) = (Panic, w))"
proof -
  let ?s = "demo_list_store 0 [[1], [2]]"
  note r = GetListItem_outcome [OF demo_two(1,3-5) _ refl refl, where E = quiet_etcd and kv = map_of]
  have p: "- (2 ^ 63) < sint (ListItem_Index (demo_item (- 1) []))" "- (2 ^ 63) < sint (ListItem_Index (demo_item 2 []))"
    by simp_all
  have "runs (stores quiet_etcd map_of UNIV (map_of ?s)) (GetListItem quiet_etcd memory_codec (demo_item (- 1) []))
      (Ok (newByteValue [2])) (stores quiet_etcd map_of UNIV (map_of ?s))"
    using r [OF p(1)] by simp
  moreover have "runs (stores quiet_etcd map_of UNIV (map_of ?s)) (GetListItem quiet_etcd memory_codec (demo_item 2 []))
      Panic (stores quiet_etcd map_of UNIV (map_of ?s))"
    using r [OF p(2)] by simp
  ultimately show ?thesis using demo_run by blast
qed

text \<open>
  \<open>SetListItem\<close> replaces exactly the item its index names, counted from the front or,
  when negative, from the back; it reports \<open>ErrListIndexOutOfRange\<close> and releases its lock
  when the index is further out than one position, and on the indices just outside it
  panics and its lock stays behind.
\<close>

theorem SetListItem_outcome:
  assumes "usable K ctx (newKey (ListItem_Key li)) m" and "\<not> key_held (newKey (ListItem_Key li)) m" and "proto_ok C"
    and "list_read C (newKey (ListItem_Key li)) m = Inr lst" and "go_slice (List_Value lst)" and "List_Value lst \<noteq> []"
    and "- (2 ^ 63) < sint (ListItem_Index li)"
    and "n = int (length (List_Value lst))" and "i = sint (ListItem_Index li)"
  shows "\<exists>m' res. runs (stores E kv K m) (SetListItem E C ctx li) res (stores E kv K m') \<and>
    (if - n \<le> i \<and> i < n then res = Ok () \<and> list_stores K ctx C (ListItem_Key li) m
       (lst\<lparr>List_Value := (List_Value lst)[nat (if 0 \<le> i then i else n + i) := ListItem_Value li]\<rparr>) m'
     else if n + 1 < i \<or> i < - n - 1
       then res = Err ErrListIndexOutOfRange \<and> m' = m(getLockName (ListItem_Key li) := None)
     else res = Panic \<and> m' = m(getLockName (ListItem_Key li) \<mapsto> ZeroByte))"
proof -
  consider "- n \<le> i" "i < n" | "n + 1 < i \<or> i < - n - 1" | "i \<in> {n, n + 1, - n - 1}" by fastforce
  then show ?thesis
  proof cases
    case 1
    have "item_position (ListItem_Index li) (List_Value lst) = nat (if 0 \<le> i then i else n + i)"
      by (simp add: item_position_def assms(8,9))
    moreover obtain m' where "runs (stores E kv K m) (SetListItem E C ctx li) (Ok ()) (stores E kv K m')"
      and "list_stores K ctx C (ListItem_Key li) m (lst\<lparr>List_Value :=
        (List_Value lst)[item_position (ListItem_Index li) (List_Value lst) := ListItem_Value li]\<rparr>) m'"
      using SetListItem_ok [OF assms(1-5), of E kv] 1 assms(8,9) by blast
    ultimately show ?thesis
      using 1 by (intro exI [where x = m'] exI [where x = "Ok ()"]) simp
  next
    case 2
    moreover from 2 have "\<not> (- n \<le> i \<and> i < n)" using assms(8) by auto
    ultimately show ?thesis
      using SetListItem_far [OF assms(1,2,4-6) _ assms(7), of E kv] assms(8,9) by (auto simp: key_unlocked_def)
  next
    case 3
    then have "\<not> (- n \<le> i \<and> i < n)" "\<not> (n + 1 < i \<or> i < - n - 1)" using assms(8) by auto
    moreover have "runs (stores E kv K m) (SetListItem E C ctx li) Panic
        (stores E kv K (m(getLockName (ListItem_Key li) \<mapsto> ZeroByte)))"
      using SetListItem_edge [OF assms(1,2,4-6), of E kv] 3 assms(8,9) by (simp add: key_locked_def)
    ultimately show ?thesis by (auto simp only: if_False)
  qed
qed

theorem SetListItem_outcome_witness:
  "\<exists>w. SetListItem quiet_etcd memory_codec demo_ctx (demo_item 2 [9]) (mem_world (demo_list_store 0 [[1], [2]])) =
      (Panic, w) \<and>
    stores quiet_etcd map_of UNIV ((map_of (demo_list_store 0 [[1], [2]]))(getLockName ''k'' \<mapsto> ZeroByte)) w"
proof -
  let ?s = "demo_list_store 0 [[1], [2]]"
  have p: "- (2 ^ 63) < sint (ListItem_Index (demo_item 2 [9]))" by simp
  have "runs (stores quiet_etcd map_of UNIV (map_of ?s)) (SetListItem quiet_etcd memory_codec demo_ctx (demo_item 2 [9]))
      Panic (stores quiet_etcd map_of UNIV ((map_of ?s)(getLockName ''k'' \<mapsto> ZeroByte)))"
    using SetListItem_outcome [OF demo_two(1,2) memory_codec_ok demo_two(3-5) p refl refl, of quiet_etcd map_of]
    by simp
  then show ?thesis by (rule demo_run)
qed

text \<open>
  \<open>ListDelete\<close> removes the item at its index, from the front only; the index just past the
  end passes its check, and there it panics and leaves its lock behind.
\<close>

theorem ListDelete_outcome:
  assumes "usable K ctx (newKey (ListItem_Key li)) m" and "\<not> key_held (newKey (ListItem_Key li)) m" and "proto_ok C"
    and "list_read C (newKey (ListItem_Key li)) m = Inr lst" and "go_slice (List_Value lst)" and "List_Value lst \<noteq> []"
    and "0 \<le> sint (ListItem_Index li)" and "sint (ListItem_Index li) \<le> int (length (List_Value lst))"
    and "n = nat (sint (ListItem_Index li))"
  shows "\<exists>m' res. runs (stores E kv K m) (ListDelete E C ctx li) res (stores E kv K m') \<and>
    (if n < length (List_Value lst) then res = Ok () \<and> list_stores K ctx C (ListItem_Key li) m
       (lst\<lparr>List_Value := take n (List_Value lst) @ drop (Suc n) (List_Value lst)\<rparr>) m'
     else res = Panic \<and> m' = m(getLockName (ListItem_Key li) \<mapsto> ZeroByte))"
proof (cases "n < length (List_Value lst)")
  case True
  then have "sint (ListItem_Index li) < int (length (List_Value lst))" using assms(7,9) by simp
  from ListDelete_ok [OF assms(1-5,7) this assms(9), of E kv] True show ?thesis by auto
next
  case False
  then have "sint (ListItem_Index li) = int (length (List_Value lst))" using assms(7-9) by simp
  from ListDelete_edge [OF assms(1,2,4-6) this, of E kv] False show ?thesis by (auto simp: key_locked_def)
qed

theorem ListDelete_outcome_witness:
  "\<exists>w m'. ListDelete quiet_etcd memory_codec demo_ctx (demo_item 0 []) (mem_world (demo_list_store 0 [[1], [2]])) =
      (Ok (), w) \<and> stores quiet_etcd map_of UNIV m' w \<and>
    list_read memory_codec (newKey ''k'') m' = Inr \<lparr>List_Key = [], List_Value = [[2]], List_Limit = 0\<rparr>"
proof -
  let ?s = "demo_list_store 0 [[1], [2]]"
  have p: "0 \<le> sint (ListItem_Index (demo_item 0 []))"
      "sint (ListItem_Index (demo_item 0 [])) \<le> int (length (List_Value demo_two))" by simp_all
  have "\<exists>m'. runs (stores quiet_etcd map_of UNIV (map_of ?s))
      (ListDelete quiet_etcd memory_codec demo_ctx (demo_item 0 [])) (Ok ()) (stores quiet_etcd map_of UNIV m') \<and>
    list_stores UNIV demo_ctx memory_codec ''k'' (map_of ?s) \<lparr>List_Key = [], List_Value = [[2]], List_Limit = 0\<rparr> m'"
    using ListDelete_outcome [OF demo_two(1,2) memory_codec_ok demo_two(3-5) p refl, of quiet_etcd map_of]
    by simp
  from demo_run_ex [OF this] show ?thesis by (auto simp: list_stores_def)
qed

text \<open>
  \<open>ListDeleteItem\<close> removes the first occurrence of its value and answers with the index it
  had; when the value is not in the list it answers \<open>-1\<close>, changes no value, and leaves the
  lock it took behind.
\<close>

theorem ListDeleteItem_outcome:
  assumes "usable K ctx (newKey (ListItem_Key li)) m" and "\<not> key_held (newKey (ListItem_Key li)) m" and "proto_ok C"
    and "list_read C (newKey (ListItem_Key li)) m = Inr lst" and "go_slice (List_Value lst)"
  shows "\<exists>m' i. runs (stores E kv K m) (ListDeleteItem E C ctx li) (Ok \<lparr>IntValue_Key = [], IntValue_Value = i\<rparr>)
      (stores E kv K m') \<and>
    (if ListItem_Value li \<in> set (List_Value lst)
     then nat (sint i) < length (List_Value lst) \<and> List_Value lst ! nat (sint i) = ListItem_Value li \<and>
       list_stores K ctx C (ListItem_Key li) m
         (lst\<lparr>List_Value := remove1 (ListItem_Value li) (List_Value lst)\<rparr>) m'
     else i = - 1 \<and> m' = m(getLockName (ListItem_Key li) \<mapsto> ZeroByte))"
proof (cases "ListItem_Value li \<in> set (List_Value lst)")
  case True
  have s: "sint (of_nat n :: int64) = int n" if "n < length (List_Value lst)" for n
    using that assms(5) by (intro sint64_of_nat) (simp add: go_slice_def)
  from ListDeleteItem_found [OF assms True, of E kv] obtain m' n where
      r: "runs (stores E kv K m) (ListDeleteItem E C ctx li) (Ok \<lparr>IntValue_Key = [], IntValue_Value = of_nat n\<rparr>) (stores E kv K m')"
    and n: "n < length (List_Value lst)" "List_Value lst ! n = ListItem_Value li"
    and l: "list_stores K ctx C (ListItem_Key li) m
        (lst\<lparr>List_Value := remove1 (ListItem_Value li) (List_Value lst)\<rparr>) m'" by blast
  show ?thesis
    by (intro exI [where x = m'] exI [where x = "of_nat n"]) (use r n l True in \<open>simp add: s\<close>)
next
  case False
  from ListDeleteItem_absent [OF assms(1,2,4,5) False, of E kv] False show ?thesis by (auto simp: key_locked_def)
qed

theorem ListDeleteItem_outcome_witness:
  "\<exists>w. ListDeleteItem quiet_etcd memory_codec demo_ctx (demo_item 0 [9]) (mem_world (demo_list_store 0 [[1], [2]])) =
      (Ok \<lparr>IntValue_Key = [], IntValue_Value = - 1\<rparr>, w) \<and>
    stores quiet_etcd map_of UNIV ((map_of (demo_list_store 0 [[1], [2]]))(getLockName ''k'' \<mapsto> ZeroByte)) w"
proof -
  let ?s = "demo_list_store 0 [[1], [2]]"
  have "runs (stores quiet_etcd map_of UNIV (map_of ?s)) (ListDeleteItem quiet_etcd memory_codec demo_ctx (demo_item 0 [9]))
      (Ok \<lparr>IntValue_Key = [], IntValue_Value = - 1\<rparr>)
      (stores quiet_etcd map_of UNIV ((map_of ?s)(getLockName ''k'' \<mapsto> ZeroByte)))"
    using ListDeleteItem_outcome [OF demo_two(1,2) memory_codec_ok demo_two(3,4), of quiet_etcd map_of 0 "[9]"]
    by simp
  then show ?thesis by (rule demo_run)
qed

text \<open>
  A list stored with a negative limit, which \<open>SetList\<close> does not check, makes every
  \<open>ListAppend\<close> panic with the lock held.
\<close>

theorem ListAppend_panics_on_negative_limit:
  assumes "usable K ctx (newKey (ListItem_Key li)) m" and "\<not> key_held (newKey (ListItem_Key li)) m" and "proto_ok C"
    and "List_Key lst = ListItem_Key li" and "go_slice (List_Value lst @ [ListItem_Value li])"
    and "sint (List_Limit lst) < 0"
  shows "\<exists>m'. runs (stores E kv K m) (and_then (SetList E C ctx lst) (\<lambda>_. ListAppend E C ctx li)) Panic (stores E kv K m') \<and>
    m' (getLockName (ListItem_Key li)) = Some ZeroByte"
proof -
  let ?k = "newKey (ListItem_Key li)"
  obtain b where b: "MarshalList C (lst\<lparr>List_Key := []\<rparr>) = Inr b" "UnmarshalList C b = Inr (lst\<lparr>List_Key := []\<rparr>)"
    using assms(3) by (rule MarshalList_ok)
  let ?m = "key_stored ?k b m"
  have set: "runs (stores E kv K m) (SetList E C ctx lst) (Ok ()) (stores E kv K ?m)"
    using Set_free [of "\<lparr>ByteValue_Key = ListItem_Key li, ByteValue_Value = b\<rparr>" K m E kv ctx] assms(1,2,4) b(1)
    by (simp add: SetList_def usable_def key_held_def key_stored_def)
  have "list_read C ?k ?m = Inr (lst\<lparr>List_Key := []\<rparr>)" using b(2) by (rule list_read_stored)
  moreover have "usable K ctx ?k ?m" "\<not> key_held ?k ?m"
    using assms(1,2) StringToBytes_valid [of "ListItem_Key li"]
    by (auto simp: usable_def key_held_def key_stored_def)
  ultimately have "runs (stores E kv K ?m) (ListAppend E C ctx li) Panic (stores E kv K (key_locked ?k ?m))"
    using assms(5,6) by (intro ListAppend_negative_limit [where lst = "lst\<lparr>List_Key := []\<rparr>"]) simp_all
  from runs_and_then [OF set this] show ?thesis by (auto simp: key_locked_def)
qed

theorem ListAppend_panics_on_negative_limit_witness:
  "\<exists>w. and_then (SetList quiet_etcd memory_codec demo_ctx \<lparr>List_Key = ''k'', List_Value = [], List_Limit = - 1\<rparr>)
      (\<lambda>_. ListAppend quiet_etcd memory_codec demo_ctx (demo_item 0 [9])) (mem_world []) = (Panic, w)"
proof -
  have "\<exists>m'. runs (stores quiet_etcd map_of UNIV (map_of []))
      (and_then (SetList quiet_etcd memory_codec demo_ctx \<lparr>List_Key = ''k'', List_Value = [], List_Limit = - 1\<rparr>)
        (\<lambda>_. ListAppend quiet_etcd memory_codec demo_ctx (demo_item 0 [9]))) Panic (stores quiet_etcd map_of UNIV m') \<and>
    m' (getLockName (ListItem_Key (demo_item 0 [9]))) = Some ZeroByte"
    by (rule ListAppend_panics_on_negative_limit) (simp_all add: demo_setting go_slice_def)
  from demo_run_ex [OF this] show ?thesis by blast
qed

end
