(* ===== verification/Hashes_Spec.thy ===== *)
theory Hashes_Spec
  imports Demo
begin

text \<open>
  What the hash operations promise: the properties of \<open>mydis/type_hash.go\<close>, each with a
  witness on the in-memory store.
\<close>

definition demo_field :: "string \<Rightarrow> bytes \<Rightarrow> pb_HashField" where
  "demo_field f v = \<lparr>HashField_Key = ''k'', HashField_Field = f, HashField_Value = v\<rparr>"

abbreviation demo_hash_store :: mem where
  "demo_hash_store \<equiv> one_key ''k'' (hash_encoding [(''b'', [2]), (''a'', [1])])"

abbreviation demo_fields :: pb_Hash where
  "demo_fields \<equiv> \<lparr>Hash_Key = [], Hash_Value = Some [(''b'', [2]), (''a'', [1])]\<rparr>"

lemma demo_field_simps [simp]:
  "HashField_Key (demo_field f v) = ''k''" "HashField_Field (demo_field f v) = f" "HashField_Value (demo_field f v) = v"
  by (simp_all add: demo_field_def)

lemma demo_two_fields:
  "usable UNIV demo_ctx (newKey ''k'') (map_of demo_hash_store)"
  "\<not> key_held (newKey ''k'') (map_of demo_hash_store)"
  "hash_read memory_codec (newKey ''k'') (map_of demo_hash_store) = Inr demo_fields"
  "map_wf (Hash_Value demo_fields)"
  "map_get (Hash_Value demo_fields) = [''a'' \<mapsto> [1], ''b'' \<mapsto> [2]]"
  by (simp_all add: demo_setting map_wf_def map_entries_def map_get_def [abs_def] fun_eq_iff)

text \<open>
  A field that \<open>SetHashField\<close> set is what \<open>GetHashField\<close> answers with next, the other
  fields of the hash are the ones it had before, and no other key changes.
\<close>

theorem SetHashField_then_get:
  assumes "usable K ctx (newKey (HashField_Key hf)) m" and "\<not> key_held (newKey (HashField_Key hf)) m" and "proto_ok C"
    and "if_missing (newHash (Some [])) (hash_read C (newKey (HashField_Key hf)) m) = Inr h"
    and "map_wf (Hash_Value h)" and "Hash_Value h \<noteq> None"
  shows "\<exists>m'. runs (stores E kv K m) (and_then (SetHashField E C ctx hf) (\<lambda>_. GetHashField E C hf))
      (Ok (newByteValue (HashField_Value hf))) (stores E kv K m') \<and>
    hash_stores K ctx C (HashField_Key hf) m
      ((map_get (Hash_Value h))(HashField_Field hf \<mapsto> HashField_Value hf)) m'"
proof -
  from SetHashField_ok [OF assms, of E kv] obtain m' where
      set: "runs (stores E kv K m) (SetHashField E C ctx hf) (Ok ()) (stores E kv K m')"
    and m': "hash_stores K ctx C (HashField_Key hf) m
      ((map_get (Hash_Value h))(HashField_Field hf \<mapsto> HashField_Value hf)) m'" by blast
  then obtain h' where "hash_read C (newKey (HashField_Key hf)) m' = Inr h'"
      and "map_get (Hash_Value h') = (map_get (Hash_Value h))(HashField_Field hf \<mapsto> HashField_Value hf)"
      and "usable K ctx (newKey (HashField_Key hf)) m'"
    by (auto simp: hash_stores_def updated_def)
  with GetHashField_read [of K ctx hf m' C h' E kv]
  have "runs (stores E kv K m') (GetHashField E C hf) (Ok (newByteValue (HashField_Value hf))) (stores E kv K m')" by simp
  from runs_and_then [OF set this] m' show ?thesis by blast
qed

theorem SetHashField_then_get_witness:
  "\<exists>w. and_then (SetHashField quiet_etcd memory_codec demo_ctx (demo_field ''a'' [9]))
      (\<lambda>_. GetHashField quiet_etcd memory_codec (demo_field ''a'' [9])) (mem_world demo_hash_store) =
    (Ok (newByteValue [9]), w)"
proof -
  have "\<exists>m'. runs (stores quiet_etcd map_of UNIV (map_of demo_hash_store))
      (and_then (SetHashField quiet_etcd memory_codec demo_ctx (demo_field ''a'' [9]))
        (\<lambda>_. GetHashField quiet_etcd memory_codec (demo_field ''a'' [9])))
      (Ok (newByteValue (HashField_Value (demo_field ''a'' [9])))) (stores quiet_etcd map_of UNIV m') \<and>
    hash_stores UNIV demo_ctx memory_codec (HashField_Key (demo_field ''a'' [9])) (map_of demo_hash_store)
      ((map_get (Hash_Value demo_fields))(HashField_Field (demo_field ''a'' [9]) \<mapsto> HashField_Value (demo_field ''a'' [9]))) m'"
    by (rule SetHashField_then_get)
      (use demo_two_fields in \<open>simp_all add: memory_codec_ok if_missing_def\<close>)
  from demo_run_ex [OF this] show ?thesis by auto
qed

text \<open>
  \<open>SetHashFields\<close> sets every field it is given and keeps the others, and \<open>GetHashFields\<close>
  answers with exactly those of the requested fields that the hash has.
\<close>

theorem SetHashFields_then_get:
  assumes "usable K ctx (newKey (Hash_Key ah)) m" and "\<not> key_held (newKey (Hash_Key ah)) m" and "proto_ok C"
    and "if_missing (newHash (Some [])) (hash_read C (newKey (Hash_Key ah)) m) = Inr h"
    and "map_wf (Hash_Value h)" and "Hash_Value h \<noteq> None" and "map_wf (Hash_Value ah)"
    and "HashFieldSet_Key hs = Hash_Key ah"
  shows "\<exists>m' nh. runs (stores E kv K m) (and_then (SetHashFields E C ctx ah) (\<lambda>_. GetHashFields E C hs))
      (Ok (newHash nh)) (stores E kv K m') \<and>
    hash_stores K ctx C (Hash_Key ah) m (map_get (Hash_Value h) ++ map_get (Hash_Value ah)) m' \<and>
    map_get nh = (\<lambda>f. if f \<in> set (HashFieldSet_Field hs)
      then (map_get (Hash_Value h) ++ map_get (Hash_Value ah)) f else None)"
proof -
  from SetHashFields_ok [OF assms(1-7), of E kv] obtain m' where
      set: "runs (stores E kv K m) (SetHashFields E C ctx ah) (Ok ()) (stores E kv K m')"
    and m': "hash_stores K ctx C (Hash_Key ah) m (map_get (Hash_Value h) ++ map_get (Hash_Value ah)) m'" by blast
  then obtain h' where h': "hash_read C (newKey (HashFieldSet_Key hs)) m' = Inr h'"
      and get: "map_get (Hash_Value h') = map_get (Hash_Value h) ++ map_get (Hash_Value ah)"
      and u: "usable K ctx (newKey (HashFieldSet_Key hs)) m'"
    using assms(8) by (auto simp: hash_stores_def updated_def)
  from GetHashFields_read [OF u h', of E kv] obtain nh where
      "runs (stores E kv K m') (GetHashFields E C hs) (Ok (newHash nh)) (stores E kv K m')"
    and "map_get nh = (\<lambda>f. if f \<in> set (HashFieldSet_Field hs) then map_get (Hash_Value h') f else None)" by blast
  with runs_and_then [OF set, of "\<lambda>_. GetHashFields E C hs"] m' show ?thesis unfolding get by blast
qed

theorem SetHashFields_then_get_witness:
  "\<exists>nh w. and_then (SetHashFields quiet_etcd memory_codec demo_ctx \<lparr>Hash_Key = ''k'', Hash_Value = Some [(''a'', [9])]\<rparr>)
      (\<lambda>_. GetHashFields quiet_etcd memory_codec \<lparr>HashFieldSet_Key = ''k'', HashFieldSet_Field = [''a'', ''b'', ''c''], HashFieldSet_Value = []\<rparr>)
      (mem_world demo_hash_store) = (Ok (newHash nh), w) \<and>
    map_get nh ''a'' = Some [9] \<and> map_get nh ''b'' = Some [2] \<and> map_get nh ''c'' = None"
proof -
  let ?ah = "\<lparr>Hash_Key = ''k'', Hash_Value = Some [(''a'', [9])]\<rparr> :: pb_Hash"
    and ?hs = "\<lparr>HashFieldSet_Key = ''k'', HashFieldSet_Field = [''a'', ''b'', ''c''], HashFieldSet_Value = []\<rparr> :: pb_HashFieldSet"
  have "\<exists>m' nh. runs (stores quiet_etcd map_of UNIV (map_of demo_hash_store))
      (and_then (SetHashFields quiet_etcd memory_codec demo_ctx ?ah) (\<lambda>_. GetHashFields quiet_etcd memory_codec ?hs))
      (Ok (newHash nh)) (stores quiet_etcd map_of UNIV m') \<and>
    hash_stores UNIV demo_ctx memory_codec (Hash_Key ?ah) (map_of demo_hash_store)
      (map_get (Hash_Value demo_fields) ++ map_get (Hash_Value ?ah)) m' \<and>
    map_get nh = (\<lambda>f. if f \<in> set (HashFieldSet_Field ?hs)
      then (map_get (Hash_Value demo_fields) ++ map_get (Hash_Value ?ah)) f else None)"
    by (rule SetHashFields_then_get)
      (use demo_two_fields in \<open>simp_all add: memory_codec_ok if_missing_def map_wf_def map_entries_def\<close>)
  then obtain m' nh where r: "runs (stores quiet_etcd map_of UNIV (map_of demo_hash_store))
      (and_then (SetHashFields quiet_etcd memory_codec demo_ctx ?ah) (\<lambda>_. GetHashFields quiet_etcd memory_codec ?hs))
      (Ok (newHash nh)) (stores quiet_etcd map_of UNIV m')"
    and "map_get nh = (\<lambda>f. if f \<in> set (HashFieldSet_Field ?hs)
      then (map_get (Hash_Value demo_fields) ++ map_get (Hash_Value ?ah)) f else None)" by blast
  then have "map_get nh ''a'' = Some [9]" "map_get nh ''b'' = Some [2]" "map_get nh ''c'' = None"
    by (simp_all add: map_get_def map_entries_def map_add_def)
  with demo_run [OF r] show ?thesis by blast
qed

text \<open>
  \<open>DelHashField\<close> removes its field and nothing else.  Once the last field of a hash is
  deleted the key holds a hash without fields, which is decoded as a nil map: every
  \<open>SetHashField\<close> on the key then panics and leaves the key locked.
\<close>

theorem SetHashField_panics_on_emptied_hash:
  assumes "usable K ctx (newKey (HashField_Key hf)) m" and "\<not> key_held (newKey (HashField_Key hf)) m" and "proto_ok C"
    and "hash_read C (newKey (HashField_Key hf)) m = Inr h" and "map_wf (Hash_Value h)"
    and "HashField_Key new = HashField_Key hf"
  shows "\<exists>m1. runs (stores E kv K m) (DelHashField E C ctx hf) (Ok ()) (stores E kv K m1) \<and>
    hash_stores K ctx C (HashField_Key hf) m ((map_get (Hash_Value h))(HashField_Field hf := None)) m1 \<and>
    (dom (map_get (Hash_Value h)) \<subseteq> {HashField_Field hf} \<longrightarrow>
      runs (stores E kv K m1) (SetHashField E C ctx new) Panic
        (stores E kv K (m1(getLockName (HashField_Key hf) \<mapsto> ZeroByte))))"
proof -
  from DelHashField_ok [OF assms(1-5), of E kv] obtain m1 where
      del: "runs (stores E kv K m) (DelHashField E C ctx hf) (Ok ()) (stores E kv K m1)"
    and m1: "hash_stores K ctx C (HashField_Key hf) m ((map_get (Hash_Value h))(HashField_Field hf := None)) m1" by blast
  have "runs (stores E kv K m1) (SetHashField E C ctx new) Panic
      (stores E kv K (m1(getLockName (HashField_Key hf) \<mapsto> ZeroByte)))"
    if d: "dom (map_get (Hash_Value h)) \<subseteq> {HashField_Field hf}"
  proof -
    have "(map_get (Hash_Value h))(HashField_Field hf := None) = Map.empty" using d by (auto simp: fun_eq_iff)
    with m1 obtain h' where h': "hash_read C (newKey (HashField_Key new)) m1 = Inr h'" "Hash_Value h' = None"
      by (auto simp: hash_stores_def assms(6))
    have u: "usable K ctx (newKey (HashField_Key new)) m1" "\<not> key_held (newKey (HashField_Key new)) m1"
      using m1 by (simp_all add: hash_stores_def updated_def assms(6))
    from SetHashField_nil [OF u h', of E kv] show ?thesis by (simp add: key_locked_def assms(6))
  qed
  with del m1 show ?thesis by blast
qed

theorem SetHashField_panics_on_emptied_hash_witness:
  "\<exists>w. and_then (DelHashField quiet_etcd memory_codec demo_ctx (demo_field ''a'' []))
      (\<lambda>_. SetHashField quiet_etcd memory_codec demo_ctx (demo_field ''b'' [2]))
      (mem_world (one_key ''k'' (hash_encoding [(''a'', [1])]))) = (Panic, w)"
proof -
  let ?s = "one_key ''k'' (hash_encoding [(''a'', [1])])" and ?h = "\<lparr>Hash_Key = [], Hash_Value = Some [(''a'', [1])]\<rparr>"
  have "\<exists>m1. runs (stores quiet_etcd map_of UNIV (map_of ?s))
      (DelHashField quiet_etcd memory_codec demo_ctx (demo_field ''a'' [])) (Ok ()) (stores quiet_etcd map_of UNIV m1) \<and>
    hash_stores UNIV demo_ctx memory_codec (HashField_Key (demo_field ''a'' [])) (map_of ?s)
      ((map_get (Hash_Value ?h))(HashField_Field (demo_field ''a'' []) := None)) m1 \<and>
    (dom (map_get (Hash_Value ?h)) \<subseteq> {HashField_Field (demo_field ''a'' [])} \<longrightarrow>
      runs (stores quiet_etcd map_of UNIV m1) (SetHashField quiet_etcd memory_codec demo_ctx (demo_field ''b'' [2])) Panic
        (stores quiet_etcd map_of UNIV (m1(getLockName (HashField_Key (demo_field ''a'' [])) \<mapsto> ZeroByte))))"
    by (rule SetHashField_panics_on_emptied_hash) (simp_all add: demo_setting map_wf_def map_entries_def)
  moreover have "dom (map_get (Hash_Value ?h)) \<subseteq> {HashField_Field (demo_field ''a'' [])}"
    by (simp add: map_get_def [abs_def] map_entries_def)
  ultimately obtain m1 where
      del: "runs (stores quiet_etcd map_of UNIV (map_of ?s))
        (DelHashField quiet_etcd memory_codec demo_ctx (demo_field ''a'' [])) (Ok ()) (stores quiet_etcd map_of UNIV m1)"
    and set: "runs (stores quiet_etcd map_of UNIV m1)
        (SetHashField quiet_etcd memory_codec demo_ctx (demo_field ''b'' [2])) Panic
        (stores quiet_etcd map_of UNIV (m1(getLockName (HashField_Key (demo_field ''a'' [])) \<mapsto> ZeroByte)))" by blast
  from demo_run [OF runs_and_then [OF del set]] show ?thesis by blast
qed

text \<open>
  \<open>HashFields\<close> lists the fields in sorted order, each once, and \<open>HashValues\<close> their values
  in the same order, whatever order the map is walked in; neither changes the store.
\<close>

theorem HashFields_HashValues_sorted:
  assumes "usable K ctx k m" and "hash_read C k m = Inr h" and "map_wf (Hash_Value h)"
  shows "\<exists>fs. sorted fs \<and> distinct fs \<and> set fs = dom (map_get (Hash_Value h)) \<and>
    runs (stores E kv K m) (HashFields E C k) (Ok fs) (stores E kv K m) \<and>
    runs (stores E kv K m) (HashValues E C k)
      (Ok (newList (map (\<lambda>f. the (map_get (Hash_Value h) f)) fs))) (stores E kv K m)"
proof -
  let ?f = "map_get (Hash_Value h)"
  have "finite (dom ?f)" by (simp add: map_get_def [abs_def] finite_dom_map_of)
  then have "sorted (sorted_fields ?f) \<and> distinct (sorted_fields ?f) \<and> set (sorted_fields ?f) = dom ?f"
    by (simp add: sorted_fields_def)
  with HashFields_read [OF assms, of E kv] HashValues_read [OF assms, of E kv] show ?thesis by blast
qed

theorem HashFields_HashValues_sorted_witness:
  "\<exists>fs w. HashFields quiet_etcd memory_codec (newKey ''k'') (mem_world demo_hash_store) = (Ok fs, w) \<and>
    sorted fs \<and> set fs = {''a'', ''b''}"
proof -
  obtain fs where "sorted fs" "set fs = dom (map_get (Hash_Value demo_fields))"
    and r: "runs (stores quiet_etcd map_of UNIV (map_of demo_hash_store))
      (HashFields quiet_etcd memory_codec (newKey ''k'')) (Ok fs) (stores quiet_etcd map_of UNIV (map_of demo_hash_store))"
    using HashFields_HashValues_sorted [OF demo_two_fields(1,3,4), of quiet_etcd map_of] by blast
  moreover have "dom (map_get (Hash_Value demo_fields)) = {''a'', ''b''}" using demo_two_fields(5) by auto
  ultimately show ?thesis using demo_run [OF r] by auto
qed

end
