(* ===== verification/Concurrency.thy ===== *)
theory Concurrency
  imports Server_Ints
begin

text \<open>
  Many clients incrementing one counter.  \<open>IncrementInt\<close> is three etcd calls: the
  transaction of \<open>LockWithTimeout\<close>, the range of \<open>Get\<close> and the transaction of
  \<open>UnlockThenSet\<close>; between them the calls of other clients run in any order.  The clients
  are numbered; \<open>by i\<close> is the amount client \<open>i\<close> adds.
\<close>

section \<open>The calls\<close>

text \<open>The effect of a transaction on the key space.\<close>

definition run_txn :: "TxnRequest \<Rightarrow> (bytes \<rightharpoonup> bytes) \<Rightarrow> (bytes \<rightharpoonup> bytes)" where
  "run_txn t m = run_ops (txn_branch m t) m"

definition lock_txn :: "string \<Rightarrow> TxnRequest" where
  "lock_txn key = if_unlocked key
     [RequestPut \<lparr>Put_Key = getLockName key, Put_Value = ZeroByte, Put_Lease = 0\<rparr>]"

definition unlock_set_txn :: "string \<Rightarrow> bytes \<Rightarrow> TxnRequest" where
  "unlock_set_txn key v = \<lparr>Txn_Compare = [always_fails], Txn_Success = [],
     Txn_Failure =
       [RequestDeleteRange \<lparr>Delete_Key = getLockName key, Delete_RangeEnd = []\<rparr>,
        RequestPut \<lparr>Put_Key = StringToBytes key, Put_Value = v, Put_Lease = 0\<rparr>]\<rparr>"

text \<open>They are the transactions the handlers send.\<close>

lemma LockWithTimeout_txn:
  "LockWithTimeout E ex = with_now (\<lambda>now. looping (txn_poll E (lock_txn (Expiration_Key ex))
     (Expiration_Exp ex = 0) (\<lambda>t. now + seconds (Expiration_Exp ex) < t \<and> 0 \<le> sint (Expiration_Exp ex))))"
  by (simp add: LockWithTimeout_def lock_txn_def Let_def)

lemma UnlockThenSet_txn:
  "\<not> invalid_key key \<Longrightarrow> UnlockThenSet E \<lparr>ByteValue_Key = key, ByteValue_Value = v\<rparr> =
     and_then (call E (\<lambda>s. etcd_Txn E s (unlock_set_txn key v))) (\<lambda>_. ret ())"
  by (simp add: UnlockThenSet_def unlock_set_txn_def)

section \<open>The interleavings\<close>

text \<open>Where a client is: before it got the lock, with it, with the value it read, or done.\<close>

datatype phase = Waiting | Locked | Computed int64 | Finished int64

record counters =
  store :: "bytes \<rightharpoonup> bytes"
  phase_of :: "nat \<Rightarrow> phase"

text \<open>The counter a store holds: a key that does not exist counts as zero.\<close>

definition counter :: "codec \<Rightarrow> string \<Rightarrow> (bytes \<rightharpoonup> bytes) \<Rightarrow> go_error + int64" where
  "counter C key m = map_sum id IntValue_Value
     (if_missing \<lparr>IntValue_Key = [], IntValue_Value = 0\<rparr> (int_read C (newKey key) m))"

text \<open>
  A client tries the lock (and stays where it is when it is held), reads the counter, or
  writes its sum.  Other requests may change any other key of the store.
\<close>

inductive increment_step :: "codec \<Rightarrow> string \<Rightarrow> (nat \<Rightarrow> int64) \<Rightarrow> nat \<Rightarrow> counters \<Rightarrow> counters \<Rightarrow> bool"
  for C key "by" n
where
  Try: "i < n \<Longrightarrow> phase_of c i = Waiting \<Longrightarrow> compares (store c) (lock_txn key) \<Longrightarrow>
    increment_step C key by n c c"
| Acquire: "i < n \<Longrightarrow> phase_of c i = Waiting \<Longrightarrow> \<not> compares (store c) (lock_txn key) \<Longrightarrow>
    increment_step C key by n c (c\<lparr>store := run_txn (lock_txn key) (store c),
      phase_of := (phase_of c)(i := Locked)\<rparr>)"
| Read: "i < n \<Longrightarrow> phase_of c i = Locked \<Longrightarrow> counter C key (store c) = Inr old \<Longrightarrow>
    increment_step C key by n c (c\<lparr>phase_of := (phase_of c)(i := Computed (old + by i))\<rparr>)"
| Commit: "i < n \<Longrightarrow> phase_of c i = Computed new \<Longrightarrow>
    MarshalInt C \<lparr>IntValue_Key = [], IntValue_Value = new\<rparr> = Inr b \<Longrightarrow>
    increment_step C key by n c (c\<lparr>store := run_txn (unlock_set_txn key b) (store c),
      phase_of := (phase_of c)(i := Finished new)\<rparr>)"
| Elsewhere: "m (StringToBytes key) = store c (StringToBytes key) \<Longrightarrow>
    m (getLockName key) = store c (getLockName key) \<Longrightarrow> m ZeroByte = store c ZeroByte \<Longrightarrow>
    increment_step C key by n c (c\<lparr>store := m\<rparr>)"

inductive increment_reachable :: "codec \<Rightarrow> string \<Rightarrow> (nat \<Rightarrow> int64) \<Rightarrow> nat \<Rightarrow> (bytes \<rightharpoonup> bytes) \<Rightarrow> counters \<Rightarrow> bool"
  for C key "by" n m0
where
  Start: "increment_reachable C key by n m0 \<lparr>store = m0, phase_of = (\<lambda>_. Waiting)\<rparr>"
| Step: "increment_reachable C key by n m0 c \<Longrightarrow> increment_step C key by n c c' \<Longrightarrow>
    increment_reachable C key by n m0 c'"

section \<open>The invariant\<close>

text \<open>The clients between their lock and their commit.\<close>

fun inside :: "phase \<Rightarrow> bool" where
  "inside Locked = True"
| "inside (Computed _) = True"
| "inside _ = False"

fun finished :: "phase \<Rightarrow> bool" where
  "finished (Finished _) = True"
| "finished _ = False"

text \<open>The amounts of the clients that are done.\<close>

definition total :: "(nat \<Rightarrow> int64) \<Rightarrow> nat \<Rightarrow> counters \<Rightarrow> int64" where
  "total by n c = (\<Sum>i | i < n \<and> finished (phase_of c i). by i)"

definition counter_inv :: "codec \<Rightarrow> string \<Rightarrow> (nat \<Rightarrow> int64) \<Rightarrow> nat \<Rightarrow> int64 \<Rightarrow> counters \<Rightarrow> bool" where
  "counter_inv C key by n v0 c \<longleftrightarrow>
     store c ZeroByte \<noteq> Some ZeroByte \<and>
     (\<forall>i. inside (phase_of c i) \<longrightarrow> i < n) \<and>
     (\<forall>i j. inside (phase_of c i) \<longrightarrow> inside (phase_of c j) \<longrightarrow> i = j) \<and>
     ((\<exists>i. inside (phase_of c i)) \<longleftrightarrow> store c (getLockName key) = Some ZeroByte) \<and>
     counter C key (store c) = Inr (v0 + total by n c) \<and>
     (\<forall>i new. phase_of c i = Computed new \<longrightarrow> new = v0 + total by n c + by i)"

lemma run_lock_txn:
  "\<not> compares m (lock_txn key) \<Longrightarrow> run_txn (lock_txn key) m = m(getLockName key \<mapsto> ZeroByte)"
  by (simp add: run_txn_def lock_txn_def txn_branch_def)

lemma run_unlock_set_txn:
  "m ZeroByte \<noteq> Some ZeroByte \<Longrightarrow>
     run_txn (unlock_set_txn key b) m = m(getLockName key := None, StringToBytes key \<mapsto> b)"
  by (simp add: run_txn_def unlock_set_txn_def txn_branch_def compares_def)

lemma counter_local: "m (StringToBytes key) = m' (StringToBytes key) \<Longrightarrow> counter C key m = counter C key m'"
  by (simp add: counter_def int_read_def key_value_def)

lemma counter_stored:
  "UnmarshalInt C b = Inr \<lparr>IntValue_Key = [], IntValue_Value = v\<rparr> \<Longrightarrow>
     counter C key (m(StringToBytes key \<mapsto> b)) = Inr v"
  by (simp add: counter_def int_read_def key_value_def fetched_def decode_int_def)

lemma total_same: "(\<And>i. finished (phase_of c' i) = finished (phase_of c i)) \<Longrightarrow> total by n c' = total by n c"
  by (simp add: total_def)

lemma total_finish:
  assumes "i < n" and "\<not> finished (phase_of c i)" and "phase_of c' = (phase_of c)(i := Finished v)"
  shows "total by n c' = total by n c + by i"
proof -
  have "{j. j < n \<and> finished (phase_of c' j)} = insert i {j. j < n \<and> finished (phase_of c j)}"
    using assms by auto
  then show ?thesis using assms(2) by (simp add: total_def add.commute)
qed

text \<open>One lemma per kind of step.\<close>

lemma inv_Acquire:
  assumes inv: "counter_inv C key by n v0 c" and i: "i < n" "phase_of c i = Waiting"
    and free: "\<not> compares (store c) (lock_txn key)"
  shows "counter_inv C key by n v0 (c\<lparr>store := run_txn (lock_txn key) (store c), phase_of := (phase_of c)(i := Locked)\<rparr>)"
    (is "counter_inv _ _ _ _ _ ?c")
proof -
  have "store c (getLockName key) \<noteq> Some ZeroByte" using free by (simp add: lock_txn_def)
  with inv have none: "\<not> inside (phase_of c j)" for j unfolding counter_inv_def by blast
  have t: "total by n ?c = total by n c" by (rule total_same) (simp add: i)
  have s: "store ?c = (store c)(getLockName key \<mapsto> ZeroByte)" by (simp add: run_lock_txn [OF free])
  have k: "counter C key (store ?c) = counter C key (store c)" by (rule counter_local) (simp add: s)
  have ph: "inside (phase_of ?c j) \<longleftrightarrow> j = i" for j using none by simp
  have comp: "phase_of ?c j \<noteq> Computed v" for j v using none [of j] by auto
  show ?thesis using inv i(1) unfolding counter_inv_def ph k t by (simp add: s comp)
qed

lemma inv_Read:
  assumes inv: "counter_inv C key by n v0 c" and i: "i < n" "phase_of c i = Locked"
    and old: "counter C key (store c) = Inr old"
  shows "counter_inv C key by n v0 (c\<lparr>phase_of := (phase_of c)(i := Computed (old + by i))\<rparr>)"
    (is "counter_inv _ _ _ _ _ ?c")
proof -
  have t: "total by n ?c = total by n c" by (rule total_same) (simp add: i)
  have ph: "inside (phase_of ?c j) \<longleftrightarrow> inside (phase_of c j)" for j using i by simp
  have v: "old = v0 + total by n c" using inv old by (simp add: counter_inv_def)
  have comp: "phase_of ?c j = Computed new \<Longrightarrow> new = v0 + total by n c + by j" for j new
    using inv by (cases "j = i") (auto simp: v counter_inv_def)
  have s: "store ?c = store c" by simp
  show ?thesis using inv comp unfolding counter_inv_def ph t s by blast
qed

lemma inv_Commit:
  assumes inv: "counter_inv C key by n v0 c" and C: "proto_ok C" and key: "\<not> invalid_key key"
    and i: "i < n" "phase_of c i = Computed new"
    and b: "MarshalInt C \<lparr>IntValue_Key = [], IntValue_Value = new\<rparr> = Inr b"
  shows "counter_inv C key by n v0 (c\<lparr>store := run_txn (unlock_set_txn key b) (store c),
      phase_of := (phase_of c)(i := Finished new)\<rparr>)"
    (is "counter_inv _ _ _ _ _ ?c")
proof -
  have res: "store c ZeroByte \<noteq> Some ZeroByte" using inv by (simp add: counter_inv_def)
  have t: "total by n ?c = total by n c + by i" by (rule total_finish [OF i(1)]) (simp_all add: i)
  have s: "store ?c = (store c)(getLockName key := None, StringToBytes key \<mapsto> b)"
    by (simp add: run_unlock_set_txn [of "store c", OF res])
  have new: "new = v0 + total by n c + by i" using inv i(2) by (simp add: counter_inv_def)
  have "UnmarshalInt C b = Inr \<lparr>IntValue_Key = [], IntValue_Value = new\<rparr>"
    using MarshalInt_ok [OF C, of "\<lparr>IntValue_Key = [], IntValue_Value = new\<rparr>"] b by auto
  then have k: "counter C key (store ?c) = Inr new" unfolding s by (rule counter_stored)
  have out: "\<not> inside (phase_of c j)" if "j \<noteq> i" for j
    using inv that i(2) unfolding counter_inv_def by (metis inside.simps(2))
  then have ph: "\<not> inside (phase_of ?c j)" for j by simp
  then have comp: "phase_of ?c j \<noteq> Computed v" for j v by (metis inside.simps(2))
  have neq: "StringToBytes key \<noteq> ZeroByte" using key by (simp add: invalid_key_def)
  then have z: "store ?c ZeroByte \<noteq> Some ZeroByte" and l: "store ?c (getLockName key) \<noteq> Some ZeroByte"
    using res unfolding s by auto
  have e: "new = v0 + total by n ?c" unfolding t using new by (simp add: add.assoc)
  have "counter C key (store ?c) = Inr (v0 + total by n ?c)" by (subst e [symmetric]) (rule k)
  then show ?thesis using z l ph comp unfolding counter_inv_def by blast
qed

lemma inv_Elsewhere:
  assumes inv: "counter_inv C key by n v0 c"
    and "m (StringToBytes key) = store c (StringToBytes key)" "m (getLockName key) = store c (getLockName key)"
      "m ZeroByte = store c ZeroByte"
  shows "counter_inv C key by n v0 (c\<lparr>store := m\<rparr>)"
proof -
  have "total by n (c\<lparr>store := m\<rparr>) = total by n c" by (rule total_same) simp
  moreover have "counter C key m = counter C key (store c)" by (rule counter_local) (rule assms(2))
  ultimately show ?thesis using inv assms(3,4) by (simp add: counter_inv_def)
qed

lemma counter_inv_step:
  assumes "counter_inv C key by n v0 c" and "proto_ok C" and "\<not> invalid_key key"
    and "increment_step C key by n c c'"
  shows "counter_inv C key by n v0 c'"
  using assms(4)
proof (cases rule: increment_step.cases)
  case (Acquire i)
  then show ?thesis using inv_Acquire [OF assms(1)] by simp
next
  case (Read i old)
  then show ?thesis using inv_Read [OF assms(1)] by simp
next
  case (Commit i new b)
  then show ?thesis using inv_Commit [OF assms(1-3)] by simp
next
  case (Elsewhere m)
  then show ?thesis using inv_Elsewhere [OF assms(1)] by simp
qed (use assms(1) in simp)

lemma counter_inv_reachable:
  assumes "proto_ok C" and "\<not> invalid_key key" and "m0 ZeroByte \<noteq> Some ZeroByte"
    and "m0 (getLockName key) \<noteq> Some ZeroByte" and "counter C key m0 = Inr v0"
    and "increment_reachable C key by n m0 c"
  shows "counter_inv C key by n v0 c"
  using assms(6)
proof induction
  case Start
  then show ?case using assms(3-5) by (simp add: counter_inv_def total_def)
next
  case (Step c c')
  then show ?case using counter_inv_step [OF _ assms(1,2)] by blast
qed

end
