(* ===== verification/Lock_Protocol.thy ===== *)
theory Lock_Protocol
  imports Concurrency Demo
begin

text \<open>
  What the lock operations mean to the clients: a table of held locks and values, with
  operations that take a lock, write, delete, release, and write and release at once.  The
  server's transactions, run in any order by any number of clients, refine this table.
\<close>

section \<open>The abstract table\<close>

datatype lock_op =
    Acquire string
  | Store string bytes
  | Remove string
  | Release string
  | Release_Store string bytes

fun op_key :: "lock_op \<Rightarrow> string" where
  "op_key (Acquire k) = k"
| "op_key (Store k v) = k"
| "op_key (Remove k) = k"
| "op_key (Release k) = k"
| "op_key (Release_Store k v) = k"

fun releases :: "string \<Rightarrow> lock_op \<Rightarrow> bool" where
  "releases k (Release k') \<longleftrightarrow> k = k'"
| "releases k (Release_Store k' v) \<longleftrightarrow> k = k'"
| "releases k _ \<longleftrightarrow> False"

record lock_table =
  held :: "string set"
  contents :: "string \<rightharpoonup> bytes"

text \<open>The answer is whether the operation was done; one that was not changes nothing.\<close>

fun table_step :: "lock_op \<Rightarrow> lock_table \<Rightarrow> bool \<times> lock_table" where
  "table_step (Acquire k) t = (if k \<in> held t then (False, t) else (True, t\<lparr>held := insert k (held t)\<rparr>))"
| "table_step (Store k v) t = (if k \<in> held t then (False, t) else (True, t\<lparr>contents := (contents t)(k \<mapsto> v)\<rparr>))"
| "table_step (Remove k) t = (if k \<in> held t then (False, t) else (True, t\<lparr>contents := (contents t)(k := None)\<rparr>))"
| "table_step (Release k) t = (True, t\<lparr>held := held t - {k}\<rparr>)"
| "table_step (Release_Store k v) t = (True, t\<lparr>held := held t - {k}, contents := (contents t)(k \<mapsto> v)\<rparr>)"

lemma table_step_held:
  "k \<in> held t \<Longrightarrow> \<not> releases k op \<Longrightarrow> k \<in> held (snd (table_step op t)) \<and>
     contents (snd (table_step op t)) k = contents t k \<and> (op_key op = k \<longrightarrow> \<not> fst (table_step op t))"
  by (cases op) auto

text \<open>A sequence of operations, with the answers.\<close>

fun run_steps :: "('op \<Rightarrow> 's \<Rightarrow> bool \<times> 's) \<Rightarrow> 'op list \<Rightarrow> 's \<Rightarrow> bool list \<times> 's" where
  "run_steps step [] s = ([], s)"
| "run_steps step (op # ops) s =
     (let (b, s') = step op s; (bs, s'') = run_steps step ops s' in (b # bs, s''))"

section \<open>The contract\<close>

text \<open>
  A service that refines the table: from every state that is in order, an operation on a
  proper key answers and acts as on the table the state stands for.
\<close>

locale lock_service =
  fixes step :: "lock_op \<Rightarrow> 's \<Rightarrow> bool \<times> 's"
    and view :: "'s \<Rightarrow> lock_table"
    and in_order :: "'s \<Rightarrow> bool"
    and proper :: "string \<Rightarrow> bool"
  assumes refines: "in_order s \<Longrightarrow> proper (op_key op) \<Longrightarrow>
      (fst (step op s), view (snd (step op s))) = table_step op (view s)"
    and stays_in_order: "in_order s \<Longrightarrow> proper (op_key op) \<Longrightarrow> in_order (snd (step op s))"
begin

lemma run_refines:
  "in_order s \<Longrightarrow> \<forall>op\<in>set ops. proper (op_key op) \<Longrightarrow>
    in_order (snd (run_steps step ops s)) \<and>
    (fst (run_steps step ops s), view (snd (run_steps step ops s))) = run_steps table_step ops (view s)"
proof (induction ops arbitrary: s)
  case (Cons op ops)
  obtain b s' where st: "step op s = (b, s')" by fastforce
  with Cons.prems refines [of s op] stays_in_order [of s op]
  have t: "table_step op (view s) = (b, view s')" and ok: "in_order s'" by simp_all
  obtain bs s'' where r: "run_steps step ops s' = (bs, s'')" by fastforce
  with Cons.IH [OF ok] Cons.prems(2) have "in_order s''" "run_steps table_step ops (view s') = (bs, view s'')" by simp_all
  then show ?case by (simp add: st t r)
qed simp

text \<open>A held lock protects its key: until it is released nobody gets it and the value stays.\<close>

lemma held_protects:
  assumes "in_order s" and "\<forall>op\<in>set ops. proper (op_key op)" and "k \<in> held (view s)"
    and "\<forall>op\<in>set ops. \<not> releases k op"
  shows "k \<in> held (view (snd (run_steps step ops s))) \<and>
    contents (view (snd (run_steps step ops s))) k = contents (view s) k \<and>
    list_all2 (\<lambda>op b. op_key op = k \<longrightarrow> \<not> b) ops (fst (run_steps step ops s))"
  using assms
proof (induction ops arbitrary: s)
  case (Cons op ops)
  obtain b s' where st: "step op s = (b, s')" by fastforce
  with Cons.prems refines [of s op] stays_in_order [of s op]
  have t: "table_step op (view s) = (b, view s')" and ok: "in_order s'" by simp_all
  from table_step_held [of k "view s" op] t Cons.prems(3,4)
  have k: "k \<in> held (view s')" "contents (view s') k = contents (view s) k" "op_key op = k \<longrightarrow> \<not> b"
    by simp_all
  obtain bs s'' where r: "run_steps step ops s' = (bs, s'')" by fastforce
  from Cons.IH [OF ok _ k(1)] Cons.prems(2,4) r
  have "k \<in> held (view s'')" "contents (view s'') k = contents (view s') k"
      "list_all2 (\<lambda>op b. op_key op = k \<longrightarrow> \<not> b) ops bs" by simp_all
  with k show ?case by (simp add: st r)
qed simp

end

section \<open>The server's transactions\<close>

definition set_txn :: "string \<Rightarrow> bytes \<Rightarrow> TxnRequest" where
  "set_txn key v = if_unlocked key [RequestPut \<lparr>Put_Key = StringToBytes key, Put_Value = v, Put_Lease = 0\<rparr>]"

definition delete_txn :: "string \<Rightarrow> TxnRequest" where
  "delete_txn key = if_unlocked key [RequestDeleteRange \<lparr>Delete_Key = StringToBytes key, Delete_RangeEnd = []\<rparr>]"

fun txn_of :: "lock_op \<Rightarrow> TxnRequest" where
  "txn_of (Acquire k) = lock_txn k"
| "txn_of (Store k v) = set_txn k v"
| "txn_of (Remove k) = delete_txn k"
| "txn_of (Release k) = delete_txn (BytesToString (getLockName k))"
| "txn_of (Release_Store k v) = unlock_set_txn k v"

text \<open>They are the transactions the handlers send (see also \<open>LockWithTimeout_txn\<close>, \<open>UnlockThenSet_txn\<close>).\<close>

lemma Set_txn:
  "\<not> invalid_key (ByteValue_Key val) \<Longrightarrow> Set E ctx val = with_now (\<lambda>now. looping (txn_poll E
     (txn_of (Store (ByteValue_Key val) (ByteValue_Value val))) False (\<lambda>t. now + seconds (getMaxWait ctx) < t)))"
  by (simp add: Set_def set_txn_def Let_def)

lemma Delete_txn:
  "Delete E ctx key = with_now (\<lambda>now. looping (txn_poll E
     (txn_of (Remove (Key_Key key))) False (\<lambda>t. now + seconds (getMaxWait ctx) < t)))"
  by (simp add: Delete_def delete_txn_def Let_def)

lemma Unlock_txn:
  "Unlock E ctx key = with_now (\<lambda>now. looping (txn_poll E
     (txn_of (Release (Key_Key key))) False (\<lambda>t. now + seconds (getMaxWait ctx) < t)))"
  by (simp add: Unlock_def Delete_txn newKey_def)

text \<open>One transaction on the key space: done when its comparison failed.\<close>

definition txn_step :: "lock_op \<Rightarrow> (bytes \<rightharpoonup> bytes) \<Rightarrow> bool \<times> (bytes \<rightharpoonup> bytes)" where
  "txn_step op m = (\<not> compares m (txn_of op), run_txn (txn_of op) m)"

text \<open>
  The keys the table is about: valid, and not themselves named like a lock.  In order is a
  store whose reserved key does not hold the reserved value and in which no lock is locked.
\<close>

definition plain_key :: "string \<Rightarrow> bool" where
  "plain_key k \<longleftrightarrow> \<not> invalid_key k \<and> \<not> HasSuffix k suffixForLocks"

definition locks_in_order :: "(bytes \<rightharpoonup> bytes) \<Rightarrow> bool" where
  "locks_in_order m \<longleftrightarrow> m ZeroByte \<noteq> Some ZeroByte \<and>
     (\<forall>k. m (getLockName (BytesToString (getLockName k))) \<noteq> Some ZeroByte)"

definition lock_view :: "(bytes \<rightharpoonup> bytes) \<Rightarrow> lock_table" where
  "lock_view m = \<lparr>held = {k. plain_key k \<and> m (getLockName k) = Some ZeroByte},
     contents = (\<lambda>k. if plain_key k then m (StringToBytes k) else None)\<rparr>"

lemma HasSuffix_lock: "HasSuffix (BytesToString (getLockName k)) suffixForLocks"
  by (simp add: getLockName_def HasSuffix_iff suffix_def)

lemma plain_not_lock: "plain_key k \<Longrightarrow> StringToBytes k \<noteq> getLockName k'"
  using HasSuffix_lock [of k'] by (auto simp: plain_key_def) (metis BytesToString_StringToBytes)

lemma plain_not_double: "plain_key k \<Longrightarrow> getLockName k \<noteq> getLockName (BytesToString (getLockName k'))"
  using HasSuffix_lock [of k'] by (auto simp: plain_key_def)

lemma lock_not_plain [simp]: "\<not> plain_key (BytesToString (getLockName k))"
  by (simp add: plain_key_def HasSuffix_lock)

lemma getLockName_not_zero: "getLockName k \<noteq> ZeroByte"
  by (simp add: getLockName_def StringToBytes_def ZeroByte_def suffixForLocks_def)

text \<open>What each transaction does to a store that is in order.\<close>

lemma txn_step_simps:
  "txn_step (Acquire k) m = (if m (getLockName k) = Some ZeroByte then (False, m) else (True, m(getLockName k \<mapsto> ZeroByte)))"
  "txn_step (Store k v) m = (if m (getLockName k) = Some ZeroByte then (False, m) else (True, m(StringToBytes k \<mapsto> v)))"
  "txn_step (Remove k) m = (if m (getLockName k) = Some ZeroByte then (False, m) else (True, m(StringToBytes k := None)))"
  "locks_in_order m \<Longrightarrow> txn_step (Release k) m = (True, m(getLockName k := None))"
  "locks_in_order m \<Longrightarrow> txn_step (Release_Store k v) m = (True, m(getLockName k := None, StringToBytes k \<mapsto> v))"
  by (simp_all add: txn_step_def lock_txn_def set_txn_def delete_txn_def run_txn_def txn_branch_def locks_in_order_def
      unlock_set_txn_def compares_def)

lemma view_lock:
  "plain_key k \<Longrightarrow> lock_view (m(getLockName k \<mapsto> ZeroByte)) = (lock_view m)\<lparr>held := insert k (held (lock_view m))\<rparr>"
  by (auto simp: lock_view_def fun_eq_iff plain_not_lock)

lemma view_unlock:
  "plain_key k \<Longrightarrow> lock_view (m(getLockName k := None)) = (lock_view m)\<lparr>held := held (lock_view m) - {k}\<rparr>"
  by (auto simp: lock_view_def fun_eq_iff plain_not_lock)

lemma view_write:
  "plain_key k \<Longrightarrow> lock_view (m(StringToBytes k := x)) = (lock_view m)\<lparr>contents := (contents (lock_view m))(k := x)\<rparr>"
  by (auto simp: lock_view_def fun_eq_iff plain_not_lock dest: plain_not_lock [THEN not_sym])

lemma in_order_lock:
  "plain_key k \<Longrightarrow> locks_in_order m \<Longrightarrow> locks_in_order (m(getLockName k := x))"
  by (auto simp: locks_in_order_def getLockName_not_zero [THEN not_sym] plain_not_double [THEN not_sym])

lemma in_order_write:
  "plain_key k \<Longrightarrow> locks_in_order m \<Longrightarrow> locks_in_order (m(StringToBytes k := x))"
  by (auto simp: locks_in_order_def plain_key_def invalid_key_def plain_not_lock [THEN not_sym])

lemma in_held: "plain_key k \<Longrightarrow> k \<in> held (lock_view m) \<longleftrightarrow> m (getLockName k) = Some ZeroByte"
  by (simp add: lock_view_def)

interpretation locks: lock_service txn_step lock_view locks_in_order plain_key
proof unfold_locales
  fix m op assume "locks_in_order m" and "plain_key (op_key op)"
  then show "(fst (txn_step op m), lock_view (snd (txn_step op m))) = table_step op (lock_view m)"
    by (cases op) (simp_all add: txn_step_simps in_held view_lock view_unlock view_write)
  show "locks_in_order (snd (txn_step op m))"
    using \<open>locks_in_order m\<close> \<open>plain_key (op_key op)\<close>
    by (cases op) (simp_all add: txn_step_simps in_order_lock in_order_write)
qed

section \<open>The handlers\<close>

definition lock_handler :: "'s etcd \<Rightarrow> go_context \<Rightarrow> lock_op \<Rightarrow> ('s, pb_Null) handler" where
  "lock_handler E ctx op = (case op of
     Acquire k \<Rightarrow> Lock E ctx (newKey k)
   | Store k v \<Rightarrow> Set E ctx \<lparr>ByteValue_Key = k, ByteValue_Value = v\<rparr>
   | Remove k \<Rightarrow> Delete E ctx (newKey k)
   | Release k \<Rightarrow> Unlock E ctx (newKey k)
   | Release_Store k v \<Rightarrow> UnlockThenSet E \<lparr>ByteValue_Key = k, ByteValue_Value = v\<rparr>)"

lemma lock_handler_runs:
  assumes "locks_in_order m" and "plain_key (op_key op)" and "0 \<le> sint (getMaxWait ctx)"
  shows "runs (stores E kv UNIV m) (lock_handler E ctx op)
    (if fst (txn_step op m) then Ok () else Err ErrKeyLocked) (stores E kv UNIV (snd (txn_step op m)))"
proof (cases op)
  case (Acquire k)
  then show ?thesis
    using Lock_free [of "newKey k" UNIV m E kv ctx] Lock_held [of "newKey k" UNIV m ctx E kv] assms(3)
    by (simp add: lock_handler_def txn_step_simps)
next
  case (Store k v)
  let ?bv = "\<lparr>ByteValue_Key = k, ByteValue_Value = v\<rparr>"
  show ?thesis
    using Set_free [of ?bv UNIV m E kv ctx] Set_held [of ?bv UNIV m E kv ctx] assms(2) Store
    by (simp add: lock_handler_def txn_step_simps plain_key_def)
next
  case (Remove k)
  then show ?thesis
    using Delete_free [of "newKey k" UNIV m E kv ctx] Delete_held [of "newKey k" UNIV m E kv ctx]
    by (simp add: lock_handler_def txn_step_simps)
next
  case (Release k)
  then show ?thesis
    using Unlock_free [of "newKey k" UNIV m E kv ctx] assms(1)
    by (simp add: lock_handler_def txn_step_simps) (simp add: locks_in_order_def)
next
  case (Release_Store k v)
  then show ?thesis
    using UnlockThenSet_ok [of "\<lparr>ByteValue_Key = k, ByteValue_Value = v\<rparr>" UNIV m E kv] assms(1,2)
    by (simp add: lock_handler_def txn_step_simps plain_key_def) (simp add: locks_in_order_def)
qed

text \<open>
  C4. \<open>Lock\<close>, \<open>Set\<close>, \<open>Delete\<close>, \<open>Unlock\<close> and \<open>UnlockThenSet\<close> implement the abstract table of
  locks and values: on a store that is in order, a handler answers with success or
  \<open>ErrKeyLocked\<close> as the table does, and leaves a store that stands for the table's next
  state and is in order again.
\<close>

theorem lock_handlers_refine_table:
  assumes "locks_in_order m" and "plain_key (op_key op)" and "0 \<le> sint (getMaxWait ctx)"
  shows "\<exists>m'. runs (stores E kv UNIV m) (lock_handler E ctx op)
      (if fst (table_step op (lock_view m)) then Ok () else Err ErrKeyLocked) (stores E kv UNIV m') \<and>
    lock_view m' = snd (table_step op (lock_view m)) \<and> locks_in_order m'"
  using lock_handler_runs [OF assms, of E kv] locks.refines [OF assms(1,2)] locks.stays_in_order [OF assms(1,2)]
  by (metis fst_conv snd_conv)

lemma demo_locks: "locks_in_order (map_of [])" "plain_key ''k''"
  by (simp_all add: locks_in_order_def plain_key_def HasSuffix_def suffixForLocks_def)

theorem lock_handlers_refine_table_witness:
  "\<exists>w m'. lock_handler quiet_etcd demo_ctx (Acquire ''k'') (mem_world []) = (Ok (), w) \<and>
    stores quiet_etcd map_of UNIV m' w \<and> held (lock_view m') = {''k''}"
proof -
  have "\<exists>m'. runs (stores quiet_etcd map_of UNIV (map_of [])) (lock_handler quiet_etcd demo_ctx (Acquire ''k''))
      (if fst (table_step (Acquire ''k'') (lock_view (map_of []))) then Ok () else Err ErrKeyLocked) (stores quiet_etcd map_of UNIV m') \<and>
    lock_view m' = snd (table_step (Acquire ''k'') (lock_view (map_of []))) \<and> locks_in_order m'"
    by (rule lock_handlers_refine_table) (use demo_locks in \<open>simp_all add: demo_wait\<close>)
  then have "\<exists>m'. runs (stores quiet_etcd map_of UNIV (map_of [])) (lock_handler quiet_etcd demo_ctx (Acquire ''k'')) (Ok ())
      (stores quiet_etcd map_of UNIV m') \<and> held (lock_view m') = {''k''}"
    by (auto simp: lock_view_def)
  from demo_run_ex [OF this] show ?thesis by blast
qed

text \<open>
  C9. However the lock, write, delete and unlock transactions of any number of clients are
  interleaved, they act as on the table, and a held lock protects its key: until someone
  releases it every transaction on that key is refused and its value stays.
\<close>

theorem held_lock_protects_value:
  assumes "locks_in_order m" and "\<forall>op\<in>set ops. plain_key (op_key op)"
  shows "(fst (run_steps txn_step ops m), lock_view (snd (run_steps txn_step ops m))) =
      run_steps table_step ops (lock_view m) \<and>
    (\<forall>k. plain_key k \<and> m (getLockName k) = Some ZeroByte \<and> (\<forall>op\<in>set ops. \<not> releases k op) \<longrightarrow>
      snd (run_steps txn_step ops m) (getLockName k) = Some ZeroByte \<and>
      snd (run_steps txn_step ops m) (StringToBytes k) = m (StringToBytes k) \<and>
      list_all2 (\<lambda>op b. op_key op = k \<longrightarrow> \<not> b) ops (fst (run_steps txn_step ops m)))"
proof (intro conjI allI impI)
  show "(fst (run_steps txn_step ops m), lock_view (snd (run_steps txn_step ops m))) = run_steps table_step ops (lock_view m)"
    using locks.run_refines [OF assms] by blast
  fix k assume k: "plain_key k \<and> m (getLockName k) = Some ZeroByte \<and> (\<forall>op\<in>set ops. \<not> releases k op)"
  then have "k \<in> held (lock_view m)" by (simp add: in_held)
  from locks.held_protects [OF assms this] k
  show "snd (run_steps txn_step ops m) (getLockName k) = Some ZeroByte"
    and "snd (run_steps txn_step ops m) (StringToBytes k) = m (StringToBytes k)"
    and "list_all2 (\<lambda>op b. op_key op = k \<longrightarrow> \<not> b) ops (fst (run_steps txn_step ops m))"
    by (auto simp: in_held) (simp add: lock_view_def)
qed

theorem held_lock_protects_value_witness:
  "snd (run_steps txn_step [Store ''k'' [1], Acquire ''k'', Remove ''k''] [getLockName ''k'' \<mapsto> ZeroByte, StringToBytes ''k'' \<mapsto> [7]])
    (StringToBytes ''k'') = Some [7]"
proof -
  let ?m = "[getLockName ''k'' \<mapsto> ZeroByte, StringToBytes ''k'' \<mapsto> [7]]"
  have "getLockName ''k'' \<noteq> StringToBytes ''k''" using plain_not_lock [OF demo_locks(2), of "''k''"] by simp
  moreover have "locks_in_order ?m"
    using demo_locks(2) in_order_lock [OF demo_locks(2,1), of "Some ZeroByte"] in_order_write [OF demo_locks(2)] by simp
  ultimately show ?thesis
    using held_lock_protects_value [of ?m "[Store ''k'' [1], Acquire ''k'', Remove ''k'']"] demo_locks(2)
    by (auto simp: plain_not_lock)
qed

end
