(* ===== verification/Server.thy ===== *)
theory Server
  imports Server_Ints Server_Floats Server_Hashes
begin

text \<open>
  The service as a whole: the methods a client can call on the values of the cache
  (\<open>MydisServer\<close> of \<open>pb/mydis.pb.go\<close>, less watching and authentication, which do not touch
  them), and the invariant that every request keeps: the reserved key, whose comparison the
  unlocking transactions rely on to fail, never holds the reserved value.
\<close>

section \<open>Requests\<close>

text \<open>One constructor per method, in the groups of the interface.\<close>

datatype key_request =
    Req_Keys
  | Req_KeysWithPrefix pb_Key
  | Req_Has pb_Key
  | Req_SetExpire pb_Expiration
  | Req_Lock pb_Key
  | Req_LockWithTimeout pb_Expiration
  | Req_Unlock pb_Key
  | Req_UnlockThenSet pb_ByteValue
  | Req_UnlockThenSetList pb_List
  | Req_Delete pb_Key
  | Req_Clear

datatype byte_request =
    Req_Get pb_Key
  | Req_GetMany pb_KeysList
  | Req_GetWithPrefix pb_Key
  | Req_Set pb_ByteValue
  | Req_SetNX pb_ByteValue
  | Req_SetMany pb_Hash
  | Req_Length pb_Key

datatype number_request =
    Req_GetInt pb_Key
  | Req_GetFloat pb_Key
  | Req_SetInt pb_IntValue
  | Req_SetFloat pb_FloatValue
  | Req_IncrementInt pb_IntValue
  | Req_DecrementInt pb_IntValue
  | Req_IncrementFloat pb_FloatValue
  | Req_DecrementFloat pb_FloatValue

datatype list_request =
    Req_GetList pb_Key
  | Req_GetListItem pb_ListItem
  | Req_SetList pb_List
  | Req_SetListItem pb_ListItem
  | Req_ListLength pb_Key
  | Req_ListLimit pb_ListItem
  | Req_ListInsert pb_ListItem
  | Req_ListAppend pb_ListItem
  | Req_ListPopLeft pb_Key
  | Req_ListPopRight pb_Key
  | Req_ListHas pb_ListItem
  | Req_ListDelete pb_ListItem
  | Req_ListDeleteItem pb_ListItem

datatype hash_request =
    Req_GetHash pb_Key
  | Req_GetHashField pb_HashField
  | Req_GetHashFields pb_HashFieldSet
  | Req_HashHas pb_HashField
  | Req_HashLength pb_Key
  | Req_HashFields pb_Key
  | Req_HashValues pb_Key
  | Req_SetHash pb_Hash
  | Req_SetHashField pb_HashField
  | Req_SetHashFields pb_Hash
  | Req_DelHashField pb_HashField

datatype request =
    Key_request key_request
  | Byte_request byte_request
  | Number_request number_request
  | List_request list_request
  | Hash_request hash_request

text \<open>What a request does, with its answer erased to whether there was one.\<close>

definition erase :: "('s, 'a) handler \<Rightarrow> ('s, unit) handler" where
  "erase m = and_then m (\<lambda>_. ret ())"

primrec serve_key :: "'s etcd \<Rightarrow> codec \<Rightarrow> go_context \<Rightarrow> key_request \<Rightarrow> ('s, unit) handler" where
  "serve_key E C ctx Req_Keys = erase (Keys E)"
| "serve_key E C ctx (Req_KeysWithPrefix x) = erase (KeysWithPrefix E x)"
| "serve_key E C ctx (Req_Has x) = erase (Has E x)"
| "serve_key E C ctx (Req_SetExpire x) = erase (SetExpire E x)"
| "serve_key E C ctx (Req_Lock x) = erase (Lock E ctx x)"
| "serve_key E C ctx (Req_LockWithTimeout x) = erase (LockWithTimeout E x)"
| "serve_key E C ctx (Req_Unlock x) = erase (Unlock E ctx x)"
| "serve_key E C ctx (Req_UnlockThenSet x) = erase (UnlockThenSet E x)"
| "serve_key E C ctx (Req_UnlockThenSetList x) = erase (UnlockThenSetList E C x)"
| "serve_key E C ctx (Req_Delete x) = erase (Delete E ctx x)"
| "serve_key E C ctx Req_Clear = erase (Clear E)"

primrec serve_byte :: "'s etcd \<Rightarrow> codec \<Rightarrow> go_context \<Rightarrow> byte_request \<Rightarrow> ('s, unit) handler" where
  "serve_byte E C ctx (Req_Get x) = erase (Get E x)"
| "serve_byte E C ctx (Req_GetMany x) = erase (GetMany E x)"
| "serve_byte E C ctx (Req_GetWithPrefix x) = erase (GetWithPrefix E x)"
| "serve_byte E C ctx (Req_Set x) = erase (Set E ctx x)"
| "serve_byte E C ctx (Req_SetNX x) = erase (SetNX E ctx x)"
| "serve_byte E C ctx (Req_SetMany x) = erase (SetMany E ctx x)"
| "serve_byte E C ctx (Req_Length x) = erase (Length E x)"

primrec serve_number :: "'s etcd \<Rightarrow> codec \<Rightarrow> go_context \<Rightarrow> number_request \<Rightarrow> ('s, unit) handler" where
  "serve_number E C ctx (Req_GetInt x) = erase (GetInt E C x)"
| "serve_number E C ctx (Req_GetFloat x) = erase (GetFloat E C x)"
| "serve_number E C ctx (Req_SetInt x) = erase (SetInt E C ctx x)"
| "serve_number E C ctx (Req_SetFloat x) = erase (SetFloat E C ctx x)"
| "serve_number E C ctx (Req_IncrementInt x) = erase (IncrementInt E C ctx x)"
| "serve_number E C ctx (Req_DecrementInt x) = erase (DecrementInt E C ctx x)"
| "serve_number E C ctx (Req_IncrementFloat x) = erase (IncrementFloat E C ctx x)"
| "serve_number E C ctx (Req_DecrementFloat x) = erase (DecrementFloat E C ctx x)"

primrec serve_list :: "'s etcd \<Rightarrow> codec \<Rightarrow> go_context \<Rightarrow> list_request \<Rightarrow> ('s, unit) handler" where
  "serve_list E C ctx (Req_GetList x) = erase (GetList E C x)"
| "serve_list E C ctx (Req_GetListItem x) = erase (GetListItem E C x)"
| "serve_list E C ctx (Req_SetList x) = erase (SetList E C ctx x)"
| "serve_list E C ctx (Req_SetListItem x) = erase (SetListItem E C ctx x)"
| "serve_list E C ctx (Req_ListLength x) = erase (ListLength E C x)"
| "serve_list E C ctx (Req_ListLimit x) = erase (ListLimit E C ctx x)"
| "serve_list E C ctx (Req_ListInsert x) = erase (ListInsert E C ctx x)"
| "serve_list E C ctx (Req_ListAppend x) = erase (ListAppend E C ctx x)"
| "serve_list E C ctx (Req_ListPopLeft x) = erase (ListPopLeft E C ctx x)"
| "serve_list E C ctx (Req_ListPopRight x) = erase (ListPopRight E C ctx x)"
| "serve_list E C ctx (Req_ListHas x) = erase (ListHas E C x)"
| "serve_list E C ctx (Req_ListDelete x) = erase (ListDelete E C ctx x)"
| "serve_list E C ctx (Req_ListDeleteItem x) = erase (ListDeleteItem E C ctx x)"

primrec serve_hash :: "'s etcd \<Rightarrow> codec \<Rightarrow> go_context \<Rightarrow> hash_request \<Rightarrow> ('s, unit) handler" where
  "serve_hash E C ctx (Req_GetHash x) = erase (GetHash E C x)"
| "serve_hash E C ctx (Req_GetHashField x) = erase (GetHashField E C x)"
| "serve_hash E C ctx (Req_GetHashFields x) = erase (GetHashFields E C x)"
| "serve_hash E C ctx (Req_HashHas x) = erase (HashHas E C x)"
| "serve_hash E C ctx (Req_HashLength x) = erase (HashLength E C x)"
| "serve_hash E C ctx (Req_HashFields x) = erase (HashFields E C x)"
| "serve_hash E C ctx (Req_HashValues x) = erase (HashValues E C x)"
| "serve_hash E C ctx (Req_SetHash x) = erase (SetHash E C ctx x)"
| "serve_hash E C ctx (Req_SetHashField x) = erase (SetHashField E C ctx x)"
| "serve_hash E C ctx (Req_SetHashFields x) = erase (SetHashFields E C ctx x)"
| "serve_hash E C ctx (Req_DelHashField x) = erase (DelHashField E C ctx x)"

primrec serve :: "'s etcd \<Rightarrow> codec \<Rightarrow> go_context \<Rightarrow> request \<Rightarrow> ('s, unit) handler" where
  "serve E C ctx (Key_request x) = serve_key E C ctx x"
| "serve E C ctx (Byte_request x) = serve_byte E C ctx x"
| "serve E C ctx (Number_request x) = serve_number E C ctx x"
| "serve E C ctx (List_request x) = serve_list E C ctx x"
| "serve E C ctx (Hash_request x) = serve_hash E C ctx x"

section \<open>The reserved key\<close>

definition reserved :: "(bytes \<rightharpoonup> bytes) \<Rightarrow> bool" where
  "reserved m \<longleftrightarrow> m ZeroByte \<noteq> Some ZeroByte"

named_theorems reserved_rules \<open>operations that keep the reserved key\<close>

lemma keeps_or_panic [keep_rules]: "(\<And>y. x = Some y \<Longrightarrow> keeps I (f y)) \<Longrightarrow> keeps I (or_panic x f)"
  by (cases x) (simp_all add: keeps_panic)

lemma keeps_unlocked_poll:
  assumes "\<And>m. J m \<Longrightarrow> J (run_ops ops m)"
  shows "keeps (always E kv J) (looping (txn_poll E (if_unlocked k ops) once late))"
proof (rule keeps_txn_poll)
  show "keeps (always E kv J) (call E (\<lambda>s. etcd_Txn E s (if_unlocked k ops)))"
    by (rule keeps_txn) (use assms in \<open>simp add: txn_branch_def\<close>)
qed (rule always_Sleep)

lemma reserved_LockWithTimeout [reserved_rules]: "keeps (always E kv reserved) (LockWithTimeout E ex)"
  unfolding LockWithTimeout_def Let_def
  by (intro keep_rules keeps_unlocked_poll) (simp add: reserved_def)

lemma reserved_Lock [reserved_rules]: "keeps (always E kv reserved) (Lock E ctx key)"
  unfolding Lock_def by (rule reserved_LockWithTimeout)

lemma reserved_Delete [reserved_rules]: "keeps (always E kv reserved) (Delete E ctx key)"
  unfolding Delete_def Let_def
  by (intro keep_rules keeps_unlocked_poll) (simp add: reserved_def)

lemma reserved_Unlock [reserved_rules]: "keeps (always E kv reserved) (Unlock E ctx key)"
  unfolding Unlock_def by (rule reserved_Delete)

lemma reserved_UnlockThenSet [reserved_rules]: "keeps (always E kv reserved) (UnlockThenSet E val)"
  unfolding UnlockThenSet_def
  by (intro keep_rules keeps_txn) (auto simp: reserved_def txn_branch_def invalid_key_def)

lemma reserved_Set [reserved_rules]: "keeps (always E kv reserved) (Set E ctx val)"
  unfolding Set_def Let_def
  by (intro keep_rules keeps_unlocked_poll) (auto simp: reserved_def invalid_key_def)

lemma reserved_SetExpire [reserved_rules]: "keeps (always E kv reserved) (SetExpire E ex)"
  unfolding SetExpire_def
  by (intro keep_rules keeps_put) (auto simp: reserved_def ZeroByte_def)

lemma reserved_Clear [reserved_rules]: "keeps (always E kv reserved) (Clear E)"
  unfolding Clear_def by (rule keeps_delete_range) (simp add: reserved_def delete_range_def)

lemma keeps_Get_with_range:
  "keeps (always E kv J) blocked \<Longrightarrow> keeps (always E kv J) (Get_with E blocked key)"
  by (rule keeps_Get_with) (rule keeps_range)

lemma reserved_Get [reserved_rules]: "keeps (always E kv reserved) (Get E key)"
  unfolding Get_def Get_once_def
  by (intro keeps_Get_with_range keeps_block_poll keeps_panic always_Sleep)

lemma reserved_unlock_fail [reserved_rules]: "keeps (always E kv reserved) (unlock_fail E ctx key err)"
  unfolding unlock_fail_def by (intro keep_rules reserved_rules)

lemma reserved_Keys [reserved_rules]: "keeps (always E kv reserved) (Keys E)"
  unfolding Keys_def by (intro keep_rules)

lemma reserved_KeysWithPrefix [reserved_rules]: "keeps (always E kv reserved) (KeysWithPrefix E key)"
  unfolding KeysWithPrefix_def by (intro keep_rules)

lemma reserved_Has [reserved_rules]: "keeps (always E kv reserved) (Has E key)"
  unfolding Has_def by (intro keep_rules)

lemma reserved_GetMany [reserved_rules]: "keeps (always E kv reserved) (GetMany E keys)"
proof -
  have "run_ops (map (\<lambda>key. RequestRange (f key)) keys) m = m" for f and m :: "bytes \<rightharpoonup> bytes"
    by (induction keys arbitrary: m) simp_all
  then show ?thesis
    unfolding GetMany_def by (intro keep_rules keeps_txn) (simp add: txn_branch_def)
qed

lemma reserved_GetWithPrefix [reserved_rules]: "keeps (always E kv reserved) (GetWithPrefix E key)"
  unfolding GetWithPrefix_def by (intro keep_rules)

lemma reserved_setMany_loop [reserved_rules]: "keeps (always E kv reserved) (setMany_loop E ctx xs errs)"
  by (induction xs arbitrary: errs) (simp_all, intro keep_rules, auto intro!: keep_rules reserved_rules)

lemma reserved_SetMany [reserved_rules]: "keeps (always E kv reserved) (SetMany E ctx h)"
  unfolding SetMany_def by (rule reserved_setMany_loop)

lemma reserved_UnlockThenSetList [reserved_rules]: "keeps (always E kv reserved) (UnlockThenSetList E C x)"
  unfolding UnlockThenSetList_def Let_def by (intro keep_rules reserved_rules)

lemma reserved_SetNX [reserved_rules]: "keeps (always E kv reserved) (SetNX E ctx x)"
  unfolding SetNX_def Let_def by (intro keep_rules reserved_rules)

lemma reserved_Length [reserved_rules]: "keeps (always E kv reserved) (Length E x)"
  unfolding Length_def Let_def by (intro keep_rules reserved_rules)

lemma reserved_GetInt [reserved_rules]: "keeps (always E kv reserved) (GetInt E C x)"
  unfolding GetInt_def Let_def by (intro keep_rules reserved_rules)

lemma reserved_GetFloat [reserved_rules]: "keeps (always E kv reserved) (GetFloat E C x)"
  unfolding GetFloat_def Let_def by (intro keep_rules reserved_rules)

lemma reserved_SetInt [reserved_rules]: "keeps (always E kv reserved) (SetInt E C ctx x)"
  unfolding SetInt_def Let_def by (intro keep_rules reserved_rules)

lemma reserved_SetFloat [reserved_rules]: "keeps (always E kv reserved) (SetFloat E C ctx x)"
  unfolding SetFloat_def Let_def by (intro keep_rules reserved_rules)

lemma reserved_IncrementInt [reserved_rules]: "keeps (always E kv reserved) (IncrementInt E C ctx x)"
  unfolding IncrementInt_def Let_def by (intro keep_rules reserved_rules)

lemma reserved_DecrementInt [reserved_rules]: "keeps (always E kv reserved) (DecrementInt E C ctx x)"
  unfolding DecrementInt_def Let_def by (intro keep_rules reserved_rules)

lemma reserved_IncrementFloat [reserved_rules]: "keeps (always E kv reserved) (IncrementFloat E C ctx x)"
  unfolding IncrementFloat_def Let_def by (intro keep_rules reserved_rules)

lemma reserved_DecrementFloat [reserved_rules]: "keeps (always E kv reserved) (DecrementFloat E C ctx x)"
  unfolding DecrementFloat_def Let_def by (intro keep_rules reserved_rules)

lemma reserved_GetList [reserved_rules]: "keeps (always E kv reserved) (GetList E C x)"
  unfolding GetList_def Let_def by (intro keep_rules reserved_rules)

lemma reserved_GetListItem [reserved_rules]: "keeps (always E kv reserved) (GetListItem E C x)"
  unfolding GetListItem_def Let_def by (intro keep_rules reserved_rules)

lemma reserved_SetList [reserved_rules]: "keeps (always E kv reserved) (SetList E C ctx x)"
  unfolding SetList_def Let_def by (intro keep_rules reserved_rules)

lemma reserved_SetListItem [reserved_rules]: "keeps (always E kv reserved) (SetListItem E C ctx x)"
  unfolding SetListItem_def Let_def by (intro keep_rules reserved_rules)

lemma reserved_ListLength [reserved_rules]: "keeps (always E kv reserved) (ListLength E C x)"
  unfolding ListLength_def Let_def by (intro keep_rules reserved_rules)

lemma reserved_ListLimit [reserved_rules]: "keeps (always E kv reserved) (ListLimit E C ctx x)"
  unfolding ListLimit_def Let_def by (intro keep_rules reserved_rules)

lemma reserved_ListInsert [reserved_rules]: "keeps (always E kv reserved) (ListInsert E C ctx x)"
  unfolding ListInsert_def Let_def by (intro keep_rules reserved_rules)

lemma reserved_ListAppend [reserved_rules]: "keeps (always E kv reserved) (ListAppend E C ctx x)"
  unfolding ListAppend_def Let_def by (intro keep_rules reserved_rules)

lemma reserved_pop_with:
  "keeps (always E kv reserved) blocked \<Longrightarrow> keeps (always E kv reserved) (pop_with E C ctx pop blocked key)"
  unfolding pop_with_def Let_def by (intro keep_rules reserved_rules)

lemma reserved_pop_blocking: "keeps (always E kv reserved) (pop_blocking E C ctx pop key)"
  unfolding pop_blocking_def
  by (intro reserved_pop_with keeps_block_poll keeps_panic always_Sleep)

lemma reserved_ListPopLeft [reserved_rules]: "keeps (always E kv reserved) (ListPopLeft E C ctx x)"
  unfolding ListPopLeft_def by (rule reserved_pop_blocking)

lemma reserved_ListPopRight [reserved_rules]: "keeps (always E kv reserved) (ListPopRight E C ctx x)"
  unfolding ListPopRight_def by (rule reserved_pop_blocking)

lemma reserved_ListHas [reserved_rules]: "keeps (always E kv reserved) (ListHas E C x)"
  unfolding ListHas_def Let_def by (intro keep_rules reserved_rules)

lemma reserved_ListDelete [reserved_rules]: "keeps (always E kv reserved) (ListDelete E C ctx x)"
  unfolding ListDelete_def Let_def by (intro keep_rules reserved_rules)

lemma reserved_ListDeleteItem [reserved_rules]: "keeps (always E kv reserved) (ListDeleteItem E C ctx x)"
  unfolding ListDeleteItem_def Let_def by (intro keep_rules reserved_rules)

lemma reserved_GetHash [reserved_rules]: "keeps (always E kv reserved) (GetHash E C x)"
  unfolding GetHash_def Let_def by (intro keep_rules reserved_rules)

lemma reserved_GetHashField [reserved_rules]: "keeps (always E kv reserved) (GetHashField E C x)"
  unfolding GetHashField_def Let_def by (intro keep_rules reserved_rules)

lemma reserved_GetHashFields [reserved_rules]: "keeps (always E kv reserved) (GetHashFields E C x)"
  unfolding GetHashFields_def Let_def by (intro keep_rules reserved_rules)

lemma reserved_HashHas [reserved_rules]: "keeps (always E kv reserved) (HashHas E C x)"
  unfolding HashHas_def Let_def by (intro keep_rules reserved_rules)

lemma reserved_HashLength [reserved_rules]: "keeps (always E kv reserved) (HashLength E C x)"
  unfolding HashLength_def Let_def by (intro keep_rules reserved_rules)

lemma reserved_HashFields [reserved_rules]: "keeps (always E kv reserved) (HashFields E C x)"
  unfolding HashFields_def Let_def by (intro keep_rules reserved_rules)

lemma reserved_HashValues [reserved_rules]: "keeps (always E kv reserved) (HashValues E C x)"
  unfolding HashValues_def Let_def by (intro keep_rules reserved_rules)

lemma reserved_UnlockThenSetHash [reserved_rules]: "keeps (always E kv reserved) (UnlockThenSetHash E C x)"
  unfolding UnlockThenSetHash_def Let_def by (intro keep_rules reserved_rules)

lemma reserved_SetHash [reserved_rules]: "keeps (always E kv reserved) (SetHash E C ctx x)"
  unfolding SetHash_def Let_def by (intro keep_rules reserved_rules)

lemma reserved_SetHashField [reserved_rules]: "keeps (always E kv reserved) (SetHashField E C ctx x)"
  unfolding SetHashField_def Let_def by (intro keep_rules reserved_rules)

lemma reserved_SetHashFields [reserved_rules]: "keeps (always E kv reserved) (SetHashFields E C ctx x)"
  unfolding SetHashFields_def Let_def by (intro keep_rules reserved_rules)

lemma reserved_DelHashField [reserved_rules]: "keeps (always E kv reserved) (DelHashField E C ctx x)"
  unfolding DelHashField_def Let_def by (intro keep_rules reserved_rules)

lemma reserved_serve_key: "keeps (always E kv reserved) (serve_key E C ctx req)"
  by (cases req) (simp_all add: erase_def, (intro keep_rules reserved_rules)+)

lemma reserved_serve_byte: "keeps (always E kv reserved) (serve_byte E C ctx req)"
  by (cases req) (simp_all add: erase_def, (intro keep_rules reserved_rules)+)

lemma reserved_serve_number: "keeps (always E kv reserved) (serve_number E C ctx req)"
  by (cases req) (simp_all add: erase_def, (intro keep_rules reserved_rules)+)

lemma reserved_serve_list: "keeps (always E kv reserved) (serve_list E C ctx req)"
  by (cases req) (simp_all add: erase_def, (intro keep_rules reserved_rules)+)

lemma reserved_serve_hash: "keeps (always E kv reserved) (serve_hash E C ctx req)"
  by (cases req) (simp_all add: erase_def, (intro keep_rules reserved_rules)+)

lemma reserved_serve: "keeps (always E kv reserved) (serve E C ctx req)"
  by (cases req) (simp_all add: reserved_serve_key reserved_serve_byte reserved_serve_number reserved_serve_list reserved_serve_hash)

text \<open>A sequence of requests: whatever they answer, the next one is served.\<close>

fun serve_all :: "'s etcd \<Rightarrow> codec \<Rightarrow> (go_context \<times> request) list \<Rightarrow> ('s, unit) handler" where
  "serve_all E C [] = ret ()"
| "serve_all E C (x # xs) = and_then (attempt (serve E C (fst x) (snd x))) (\<lambda>_. serve_all E C xs)"

lemma reserved_serve_all: "keeps (always E kv reserved) (serve_all E C xs)"
  by (induction xs) (simp_all, (intro keep_rules reserved_serve)+)

end
