(* ===== verification/Returns.thy ===== *)
theory Returns
  imports Server
begin

text \<open>
  Which requests always return.  A request can wait in two places, the polling transaction and
  the waiting loop of the blocking reads; with a bound on both waits every handler returns
  (a value, an error or a panic), whatever etcd answers and whatever other clients do.
\<close>

section \<open>Computations that return\<close>

named_theorems return_rules \<open>computations that return from every state\<close>

definition returns :: "('s, 'a) handler \<Rightarrow> bool" where
  "returns m \<longleftrightarrow> (\<forall>w. fst (m w) \<noteq> Hang)"

lemma returnsI: "(\<And>w. fst (m w) \<noteq> Hang) \<Longrightarrow> returns m"
  by (simp add: returns_def)

lemma returnsD: "returns m \<Longrightarrow> m w \<noteq> (Hang, w')"
  unfolding returns_def by (metis fst_conv)

lemma returns_basic [return_rules]: "returns (ret x)" "returns (throw e)" "returns panic" "returns (call E op)"
  by (simp_all add: returns_def ret_def throw_def panic_def call_not_panic)

lemma returns_and_then [return_rules]: "returns m \<Longrightarrow> (\<And>x. returns (f x)) \<Longrightarrow> returns (and_then m f)"
  unfolding returns_def and_then_def by (auto split: prod.split outcome.split) (metis fst_conv)+

lemma returns_attempt [return_rules]: "returns m \<Longrightarrow> returns (attempt m)"
  unfolding returns_def attempt_def by (auto split: prod.split outcome.split) (metis fst_conv)+

lemma returns_discard [return_rules]: "returns m \<Longrightarrow> returns (discard m)"
  unfolding discard_def by (intro return_rules)

lemma returns_with_now [return_rules]: "(\<And>now. returns (f now)) \<Longrightarrow> returns (with_now f)"
  by (simp add: returns_def with_now_def)

lemma returns_if [return_rules]: "(c \<Longrightarrow> returns m) \<Longrightarrow> (\<not> c \<Longrightarrow> returns n) \<Longrightarrow> returns (if c then m else n)"
  by simp

lemma returns_sum [return_rules]:
  "(\<And>e. s = Inl e \<Longrightarrow> returns (f e)) \<Longrightarrow> (\<And>x. s = Inr x \<Longrightarrow> returns (g x)) \<Longrightarrow> returns (case_sum f g s)"
  by (cases s) simp_all

lemma returns_option [return_rules]:
  "(s = None \<Longrightarrow> returns m) \<Longrightarrow> (\<And>x. s = Some x \<Longrightarrow> returns (g x)) \<Longrightarrow> returns (case_option m g s)"
  by (cases s) simp_all

lemma returns_list [return_rules]:
  "(s = [] \<Longrightarrow> returns m) \<Longrightarrow> (\<And>x xs. s = x # xs \<Longrightarrow> returns (g x xs)) \<Longrightarrow> returns (case_list m g s)"
  by (cases s) simp_all

lemma returns_prod [return_rules]: "(\<And>x y. s = (x, y) \<Longrightarrow> returns (g x y)) \<Longrightarrow> returns (case_prod g s)"
  by (cases s) simp

lemma returns_or_panic [return_rules]: "(\<And>y. x = Some y \<Longrightarrow> returns (f y)) \<Longrightarrow> returns (or_panic x f)"
  by (cases x) (simp_all add: or_panic_def return_rules)

text \<open>The two loops.\<close>

lemma returns_txn_poll:
  assumes "\<And>t. T < t \<Longrightarrow> late t"
  shows "returns (looping (txn_poll E t once late))"
proof (rule returnsI)
  fix w
  obtain r w' where "txn_poll E t once late w = Some (r, w')"
    using txn_poll_terminates [where T = T and late = late, OF assms] by fastforce
  with txn_poll_result [OF this] show "fst (looping (txn_poll E t once late) w) \<noteq> Hang"
    by (auto simp: looping_def)
qed

lemma block_poll_outcome:
  assumes "returns op" and "block_poll E again op timeout waited w = Some p"
  shows "fst p \<noteq> Hang"
proof (rule block_poll.raw_induct [where P = "\<lambda>E again op timeout waited w p. returns op \<longrightarrow> fst p \<noteq> Hang",
      OF _ assms(2), THEN mp, OF _ assms(1)])
  fix f :: "'a etcd \<Rightarrow> go_error list \<Rightarrow> ('a, 'b) handler \<Rightarrow> int64 \<Rightarrow> int64 \<Rightarrow> 'a world \<Rightarrow> ((go_error, 'b) outcome \<times> 'a world) option"
  fix E again op timeout waited w p
  assume IH: "\<And>E again op timeout waited w p. f E again op timeout waited w = Some p \<Longrightarrow> returns op \<longrightarrow> fst p \<noteq> Hang"
    and eq: "(case op w of (r, w1) \<Rightarrow>
        if list_ex (\<lambda>e. r = Err e) again then
          let w2 = Sleep E (sint block_sleep) w1; waited' = waited + block_sleep in
            if seconds_reached waited' timeout \<and> 0 < sint timeout then Some (r, w2)
            else f E again op timeout waited' w2
        else Some (r, w1)) = Some p"
  show "returns op \<longrightarrow> fst p \<noteq> Hang"
  proof
    assume op: "returns op"
    obtain r w1 where rw: "op w = (r, w1)" by fastforce
    then have r: "r \<noteq> Hang" using returnsD [OF op] by blast
    from eq have "p = (r, w1) \<or> p = (r, Sleep E (sint block_sleep) w1) \<or>
        f E again op timeout (waited + block_sleep) (Sleep E (sint block_sleep) w1) = Some p"
      unfolding rw by (auto simp: Let_def split: if_splits)
    with r op IH show "fst p \<noteq> Hang" by (metis fst_conv)
  qed
qed

text \<open>A read that does not block, or blocks with a timeout in the range of a duration.\<close>

definition bounded_key :: "pb_Key \<Rightarrow> bool" where
  "bounded_key k \<longleftrightarrow> \<not> Key_Block k \<or> 0 < sint (Key_BlockTimeout k) \<and> sint (Key_BlockTimeout k) \<le> 9223372036"

lemma returns_block_poll:
  assumes "returns op" and "0 < sint timeout" and "sint timeout \<le> 9223372036"
  shows "returns (looping (block_poll E again op timeout 0))"
proof (rule returnsI)
  fix w
  obtain p where p: "block_poll E again op timeout 0 w = Some p"
    using block_poll_terminates [OF assms(2,3), of 0 E again op w] assms(2) by auto
  with block_poll_outcome [OF assms(1) p] show "fst (looping (block_poll E again op timeout 0) w) \<noteq> Hang"
    by (simp add: looping_def)
qed

lemma bounded_newKey [simp]: "bounded_key (newKey k)"
  by (simp add: bounded_key_def newKey_def)

lemma bounded_not_blocking [simp]: "bounded_key (k\<lparr>Key_Block := False\<rparr>)"
  by (simp add: bounded_key_def)

section \<open>The handlers\<close>

lemma returns_LockWithTimeout [return_rules]: "0 \<le> sint (Expiration_Exp ex) \<Longrightarrow> returns (LockWithTimeout E ex)"
  unfolding LockWithTimeout_def Let_def by (intro return_rules returns_txn_poll) auto

lemma returns_Lock [return_rules]: "0 \<le> sint (getMaxWait ctx) \<Longrightarrow> returns (Lock E ctx key)"
  unfolding Lock_def by (rule returns_LockWithTimeout) simp

lemma returns_Delete [return_rules]: "returns (Delete E ctx key)"
  unfolding Delete_def Let_def by (intro return_rules returns_txn_poll) auto

lemma returns_Unlock [return_rules]: "returns (Unlock E ctx key)"
  unfolding Unlock_def by (rule returns_Delete)

lemma returns_UnlockThenSet [return_rules]: "returns (UnlockThenSet E val)"
  unfolding UnlockThenSet_def by (intro return_rules)

lemma returns_Set [return_rules]: "returns (Set E ctx val)"
  unfolding Set_def Let_def by (intro return_rules returns_txn_poll) auto

lemma returns_Get_with:
  assumes "Key_Block key \<Longrightarrow> returns blocked"
  shows "returns (Get_with E blocked key)"
  unfolding Get_with_def by (intro return_rules) (use assms in auto)

lemma returns_Get [return_rules]: "bounded_key key \<Longrightarrow> returns (Get E key)"
  unfolding Get_def Get_once_def bounded_key_def
  by (auto intro!: returns_Get_with returns_block_poll return_rules)

lemma returns_unlock_fail [return_rules]: "returns (unlock_fail E ctx key err)"
  unfolding unlock_fail_def by (intro return_rules)

lemma returns_setMany_loop [return_rules]: "returns (setMany_loop E ctx xs errs)"
  by (induction xs arbitrary: errs) (simp_all, intro return_rules, auto intro!: return_rules)

lemma returns_SetMany [return_rules]: "returns (SetMany E ctx h)"
  unfolding SetMany_def by (rule returns_setMany_loop)

lemma returns_Keys [return_rules]: "returns (Keys E)"
  unfolding Keys_def Let_def by (intro return_rules)

lemma returns_KeysWithPrefix [return_rules]: "returns (KeysWithPrefix E x)"
  unfolding KeysWithPrefix_def Let_def by (intro return_rules)

lemma returns_Has [return_rules]: "returns (Has E x)"
  unfolding Has_def Let_def by (intro return_rules)

lemma returns_SetExpire [return_rules]: "returns (SetExpire E x)"
  unfolding SetExpire_def Let_def by (intro return_rules)

lemma returns_Clear [return_rules]: "returns (Clear E)"
  unfolding Clear_def Let_def by (intro return_rules)

lemma returns_UnlockThenSetList [return_rules]: "returns (UnlockThenSetList E C x)"
  unfolding UnlockThenSetList_def Let_def by (intro return_rules)

lemma returns_UnlockThenSetHash [return_rules]: "returns (UnlockThenSetHash E C x)"
  unfolding UnlockThenSetHash_def Let_def by (intro return_rules)

lemma returns_GetMany [return_rules]: "returns (GetMany E x)"
  unfolding GetMany_def Let_def by (intro return_rules)

lemma returns_GetWithPrefix [return_rules]: "returns (GetWithPrefix E x)"
  unfolding GetWithPrefix_def Let_def by (intro return_rules)

lemma returns_SetNX [return_rules]: "0 \<le> sint (getMaxWait ctx) \<Longrightarrow> returns (SetNX E ctx x)"
  unfolding SetNX_def Let_def by (intro return_rules) (simp_all add: bounded_newKey)

lemma returns_Length [return_rules]: "bounded_key x \<Longrightarrow> returns (Length E x)"
  unfolding Length_def Let_def by (intro return_rules) (simp_all add: bounded_newKey)

lemma returns_GetInt [return_rules]: "bounded_key x \<Longrightarrow> returns (GetInt E C x)"
  unfolding GetInt_def Let_def by (intro return_rules) (simp_all add: bounded_newKey)

lemma returns_GetFloat [return_rules]: "bounded_key x \<Longrightarrow> returns (GetFloat E C x)"
  unfolding GetFloat_def Let_def by (intro return_rules) (simp_all add: bounded_newKey)

lemma returns_GetList [return_rules]: "bounded_key x \<Longrightarrow> returns (GetList E C x)"
  unfolding GetList_def Let_def by (intro return_rules) (simp_all add: bounded_newKey)

lemma returns_GetHash [return_rules]: "bounded_key x \<Longrightarrow> returns (GetHash E C x)"
  unfolding GetHash_def Let_def by (intro return_rules) (simp_all add: bounded_newKey)

lemma returns_ListLength [return_rules]: "bounded_key x \<Longrightarrow> returns (ListLength E C x)"
  unfolding ListLength_def Let_def by (intro return_rules) (simp_all add: bounded_newKey)

lemma returns_HashLength [return_rules]: "bounded_key x \<Longrightarrow> returns (HashLength E C x)"
  unfolding HashLength_def Let_def by (intro return_rules) (simp_all add: bounded_newKey)

lemma returns_HashFields [return_rules]: "bounded_key x \<Longrightarrow> returns (HashFields E C x)"
  unfolding HashFields_def Let_def by (intro return_rules) (simp_all add: bounded_newKey)

lemma returns_HashValues [return_rules]: "bounded_key x \<Longrightarrow> returns (HashValues E C x)"
  unfolding HashValues_def Let_def by (intro return_rules) (simp_all add: bounded_newKey)

lemma returns_GetListItem [return_rules]: "returns (GetListItem E C x)"
  unfolding GetListItem_def Let_def by (intro return_rules bounded_newKey)

lemma returns_ListHas [return_rules]: "returns (ListHas E C x)"
  unfolding ListHas_def Let_def by (intro return_rules bounded_newKey)

lemma returns_GetHashField [return_rules]: "returns (GetHashField E C x)"
  unfolding GetHashField_def Let_def by (intro return_rules bounded_newKey)

lemma returns_GetHashFields [return_rules]: "returns (GetHashFields E C x)"
  unfolding GetHashFields_def Let_def by (intro return_rules bounded_newKey)

lemma returns_HashHas [return_rules]: "returns (HashHas E C x)"
  unfolding HashHas_def Let_def by (intro return_rules bounded_newKey)

lemma returns_SetInt [return_rules]: "returns (SetInt E C ctx x)"
  unfolding SetInt_def Let_def by (intro return_rules)

lemma returns_SetFloat [return_rules]: "returns (SetFloat E C ctx x)"
  unfolding SetFloat_def Let_def by (intro return_rules)

lemma returns_SetList [return_rules]: "returns (SetList E C ctx x)"
  unfolding SetList_def Let_def by (intro return_rules)

lemma returns_SetHash [return_rules]: "returns (SetHash E C ctx x)"
  unfolding SetHash_def Let_def by (intro return_rules)

lemma returns_IncrementInt [return_rules]: "0 \<le> sint (getMaxWait ctx) \<Longrightarrow> returns (IncrementInt E C ctx x)"
  unfolding IncrementInt_def Let_def by (intro return_rules bounded_newKey)

lemma returns_DecrementInt [return_rules]: "0 \<le> sint (getMaxWait ctx) \<Longrightarrow> returns (DecrementInt E C ctx x)"
  unfolding DecrementInt_def Let_def by (intro return_rules bounded_newKey)

lemma returns_IncrementFloat [return_rules]: "0 \<le> sint (getMaxWait ctx) \<Longrightarrow> returns (IncrementFloat E C ctx x)"
  unfolding IncrementFloat_def Let_def by (intro return_rules bounded_newKey)

lemma returns_DecrementFloat [return_rules]: "0 \<le> sint (getMaxWait ctx) \<Longrightarrow> returns (DecrementFloat E C ctx x)"
  unfolding DecrementFloat_def Let_def by (intro return_rules bounded_newKey)

lemma returns_SetListItem [return_rules]: "0 \<le> sint (getMaxWait ctx) \<Longrightarrow> returns (SetListItem E C ctx x)"
  unfolding SetListItem_def Let_def by (intro return_rules bounded_newKey)

lemma returns_ListLimit [return_rules]: "0 \<le> sint (getMaxWait ctx) \<Longrightarrow> returns (ListLimit E C ctx x)"
  unfolding ListLimit_def Let_def by (intro return_rules bounded_newKey)

lemma returns_ListInsert [return_rules]: "0 \<le> sint (getMaxWait ctx) \<Longrightarrow> returns (ListInsert E C ctx x)"
  unfolding ListInsert_def Let_def by (intro return_rules bounded_newKey)

lemma returns_ListAppend [return_rules]: "0 \<le> sint (getMaxWait ctx) \<Longrightarrow> returns (ListAppend E C ctx x)"
  unfolding ListAppend_def Let_def by (intro return_rules bounded_newKey)

lemma returns_ListDelete [return_rules]: "0 \<le> sint (getMaxWait ctx) \<Longrightarrow> returns (ListDelete E C ctx x)"
  unfolding ListDelete_def Let_def by (intro return_rules bounded_newKey)

lemma returns_ListDeleteItem [return_rules]: "0 \<le> sint (getMaxWait ctx) \<Longrightarrow> returns (ListDeleteItem E C ctx x)"
  unfolding ListDeleteItem_def Let_def by (intro return_rules bounded_newKey)

lemma returns_SetHashField [return_rules]: "0 \<le> sint (getMaxWait ctx) \<Longrightarrow> returns (SetHashField E C ctx x)"
  unfolding SetHashField_def Let_def by (intro return_rules bounded_newKey)

lemma returns_SetHashFields [return_rules]: "0 \<le> sint (getMaxWait ctx) \<Longrightarrow> returns (SetHashFields E C ctx x)"
  unfolding SetHashFields_def Let_def by (intro return_rules bounded_newKey)

lemma returns_DelHashField [return_rules]: "0 \<le> sint (getMaxWait ctx) \<Longrightarrow> returns (DelHashField E C ctx x)"
  unfolding DelHashField_def Let_def by (intro return_rules bounded_newKey)

lemma returns_pop_with:
  assumes "0 \<le> sint (getMaxWait ctx)" and "Key_Block key \<Longrightarrow> returns blocked"
  shows "returns (pop_with E C ctx pop blocked key)"
  unfolding pop_with_def Let_def
  by (intro return_rules bounded_not_blocking) (use assms in auto)

lemma returns_pop_blocking:
  "0 \<le> sint (getMaxWait ctx) \<Longrightarrow> bounded_key key \<Longrightarrow> returns (pop_blocking E C ctx pop key)"
  unfolding pop_blocking_def bounded_key_def
  by (auto intro!: returns_pop_with returns_block_poll)

lemma returns_ListPopLeft [return_rules]:
  "0 \<le> sint (getMaxWait ctx) \<Longrightarrow> bounded_key key \<Longrightarrow> returns (ListPopLeft E C ctx key)"
  unfolding ListPopLeft_def by (rule returns_pop_blocking)

lemma returns_ListPopRight [return_rules]:
  "0 \<le> sint (getMaxWait ctx) \<Longrightarrow> bounded_key key \<Longrightarrow> returns (ListPopRight E C ctx key)"
  unfolding ListPopRight_def by (rule returns_pop_blocking)

section \<open>The requests\<close>

text \<open>The keys whose \<open>Block\<close> a request obeys.\<close>

fun waits_for :: "request \<Rightarrow> pb_Key option" where
  "waits_for (Byte_request (Req_Get x)) = Some x"
| "waits_for (Byte_request (Req_Length x)) = Some x"
| "waits_for (Number_request (Req_GetInt x)) = Some x"
| "waits_for (Number_request (Req_GetFloat x)) = Some x"
| "waits_for (List_request (Req_GetList x)) = Some x"
| "waits_for (List_request (Req_ListLength x)) = Some x"
| "waits_for (List_request (Req_ListPopLeft x)) = Some x"
| "waits_for (List_request (Req_ListPopRight x)) = Some x"
| "waits_for (Hash_request (Req_GetHash x)) = Some x"
| "waits_for (Hash_request (Req_HashLength x)) = Some x"
| "waits_for (Hash_request (Req_HashFields x)) = Some x"
| "waits_for (Hash_request (Req_HashValues x)) = Some x"
| "waits_for _ = None"

text \<open>Both waits of a request are bounded.\<close>

definition bounded_request :: "go_context \<Rightarrow> request \<Rightarrow> bool" where
  "bounded_request ctx req \<longleftrightarrow> 0 \<le> sint (getMaxWait ctx) \<and>
     (\<forall>x. waits_for req = Some x \<longrightarrow> bounded_key x) \<and>
     (\<forall>ex. req = Key_request (Req_LockWithTimeout ex) \<longrightarrow> 0 \<le> sint (Expiration_Exp ex))"

lemma returns_erase [return_rules]: "returns m \<Longrightarrow> returns (erase m)"
  unfolding erase_def by (intro return_rules)

lemma returns_serve_key: "bounded_request ctx (Key_request req) \<Longrightarrow> returns (serve_key E C ctx req)"
  by (cases req) (auto simp: bounded_request_def intro!: return_rules)

lemma returns_serve_byte: "bounded_request ctx (Byte_request req) \<Longrightarrow> returns (serve_byte E C ctx req)"
  by (cases req) (auto simp: bounded_request_def intro!: return_rules)

lemma returns_serve_number: "bounded_request ctx (Number_request req) \<Longrightarrow> returns (serve_number E C ctx req)"
  by (cases req) (auto simp: bounded_request_def intro!: return_rules)

lemma returns_serve_list: "bounded_request ctx (List_request req) \<Longrightarrow> returns (serve_list E C ctx req)"
  by (cases req) (auto simp: bounded_request_def intro!: return_rules)

lemma returns_serve_hash: "bounded_request ctx (Hash_request req) \<Longrightarrow> returns (serve_hash E C ctx req)"
  by (cases req) (auto simp: bounded_request_def intro!: return_rules)

lemma returns_serve: "bounded_request ctx req \<Longrightarrow> returns (serve E C ctx req)"
  by (cases req)
    (simp_all add: returns_serve_key returns_serve_byte returns_serve_number returns_serve_list returns_serve_hash)

end
