(* ===== verification/Client_Util.thy ===== *)
theory Client_Util
  imports Naming
begin

text \<open>
  The client's own copies of the range and permission helpers (\<open>client/util.go\<close>), and that
  they agree with the server's (\<open>mydis/util.go\<close>).
\<close>

text \<open>\<open>for i := len(end) - 1; i >= 0; i--\<close>: \<open>n\<close> indices are left.\<close>

fun client_getPrefix_loop :: "bytes \<Rightarrow> nat \<Rightarrow> bytes" where
  "client_getPrefix_loop e 0 = ZeroByte"
| "client_getPrefix_loop e (Suc i) =
     (if e ! i < 0xff then take (i + 1) (e[i := e ! i + 1]) else client_getPrefix_loop e i)"

definition client_getPrefix :: "string \<Rightarrow> bytes" where
  "client_getPrefix key = (let bkey = StringToBytes key in client_getPrefix_loop bkey (length bkey))"

definition client_GetKeyPrefix :: "string \<Rightarrow> bytes \<times> bytes" where
  "client_GetKeyPrefix key =
     (if HasSuffix key ''*'' then
        let newKey = TrimSuffix key ''*'' in (StringToBytes newKey, client_getPrefix newKey)
      else (StringToBytes key, ZeroByte))"

definition client_GetPermission :: "string \<Rightarrow> string \<Rightarrow> pb_Permission option" where
  "client_GetPermission key permName =
     (let (bkey, rangeEnd) = client_GetKeyPrefix key in
      case Permission_Type_value (ToUpper (TrimSpace permName)) of
        None \<Rightarrow> None
      | Some permType \<Rightarrow> Some \<lparr>Permission_PermType = permType, Permission_Key = bkey,
                              Permission_RangeEnd = rangeEnd\<rparr>)"

lemma client_getPrefix_loop_same: "client_getPrefix_loop e n = getPrefix_loop e n"
  by (induction n) simp_all

lemma client_getPrefix_same: "client_getPrefix key = getPrefix key"
  by (simp add: client_getPrefix_def getPrefix_def client_getPrefix_loop_same)

lemma client_GetPermission_same: "client_GetPermission key permName = GetPermission key permName"
  by (simp add: client_GetPermission_def GetPermission_def client_GetKeyPrefix_def GetKeyPrefix_def
      client_getPrefix_same)

end
