(* ===== verification/Values.thy ===== *)
theory Values
  imports Float64
begin

text \<open>
  The client's dynamic values (\<open>util/value.go\<close>) and the conversions of maps and lists
  (\<open>util/util.go\<close>): what a Go value is stored as, and what the stored bytes are read as.
\<close>

section \<open>The values\<close>

record Value =
  Value_err :: "go_error option"
  Value_b :: bytes

definition newValue_b :: "bytes \<Rightarrow> Value" where
  "newValue_b b = \<lparr>Value_err = None, Value_b = b\<rparr>"

definition newValue_err :: "go_error \<Rightarrow> Value" where
  "newValue_err e = \<lparr>Value_err = Some e, Value_b = []\<rparr>"

text \<open>An instant: seconds since 1970 and the nanoseconds within the second.\<close>

record go_time =
  Time_sec :: int
  Time_nsec :: int

text \<open>
  A value of type \<open>interface{}\<close>, one constructor per case of the type switch.  A
  \<open>proto.Message\<close> is given by the result of marshalling it.
\<close>

datatype go_any =
    AnyError go_error
  | AnyValue Value
  | AnyBytes bytes
  | AnyString string
  | AnyBool bool
  | AnyProto "string + bytes"
  | AnyInt int64
  | AnyInt8 "8 word"
  | AnyInt16 "16 word"
  | AnyInt32 "32 word"
  | AnyFloat32 "32 word"
  | AnyFloat64 float64
  | AnyTime go_time
  | AnyDuration int64
  | AnyBytesList "bytes list"
  | AnyStrings "string list"
  | AnyValues "Value list"
  | AnyMapString "string gomap"
  | AnyMapBytes "bytes gomap"
  | AnyMapBool "bool gomap"
  | AnyMapInt "int64 gomap"
  | AnyMapFloat "float64 gomap"
  | AnyMapValue "Value gomap"
  | AnyOther

text \<open>\<open>float64(t)\<close> of a \<open>float32\<close>: every finite one is a multiple of \<open>2^-149\<close>, so exact.\<close>

definition float64_of_float32 :: "32 word \<Rightarrow> float64" where
  "float64_of_float32 x =
     (let s = bit x 31; e = unat x div 2 ^ 23 mod 2 ^ 8; f = unat x mod 2 ^ 23 in
      if e = 255 then
        (if f = 0 then with_sign s (2047 * 2 ^ 52) else quiet (with_sign s (2047 * 2 ^ 52 + f * 2 ^ 29)))
      else with_sign s (encode ((if e = 0 then f else (2 ^ 23 + f) * 2 ^ (e - 1)) * 2 ^ 925)))"

section \<open>Lists and maps\<close>

text \<open>\<open>b, _ := proto.Marshal(t)\<close>: the bytes are nil on an error.\<close>

definition marshalled :: "string + bytes \<Rightarrow> bytes" where
  "marshalled r = (case r of Inl _ \<Rightarrow> [] | Inr b \<Rightarrow> b)"

definition bool_bytes :: "bool \<Rightarrow> bytes" where
  "bool_bytes t = (if t then [1] else ZeroByte)"

definition int_bytes :: "codec \<Rightarrow> int64 \<Rightarrow> bytes" where
  "int_bytes C t = marshalled (MarshalInt C \<lparr>IntValue_Key = [], IntValue_Value = t\<rparr>)"

definition float_bytes :: "codec \<Rightarrow> float64 \<Rightarrow> bytes" where
  "float_bytes C t = marshalled (MarshalFloat C \<lparr>FloatValue_Key = [], FloatValue_Value = t\<rparr>)"

text \<open>\<open>m := map[string]U{}; for k, v := range h { m[k] = f(v) }\<close>\<close>

definition convert_map :: "('a \<Rightarrow> 'b) \<Rightarrow> 'a gomap \<Rightarrow> 'b gomap" where
  "convert_map f h = (case put_all map_put (map (\<lambda>x. (fst x, f (snd x))) (map_entries h)) (Some []) of
     None \<Rightarrow> None | Some m \<Rightarrow> m)"

definition MapStringToMapBytes :: "string gomap \<Rightarrow> bytes gomap" where
  "MapStringToMapBytes h = convert_map StringToBytes h"

definition MapBoolToMapBytes :: "bool gomap \<Rightarrow> bytes gomap" where
  "MapBoolToMapBytes h = convert_map bool_bytes h"

definition MapIntToMapBytes :: "codec \<Rightarrow> int64 gomap \<Rightarrow> bytes gomap" where
  "MapIntToMapBytes C h = convert_map (int_bytes C) h"

definition MapFloatToMapBytes :: "codec \<Rightarrow> float64 gomap \<Rightarrow> bytes gomap" where
  "MapFloatToMapBytes C h = convert_map (float_bytes C) h"

definition MapValueToMapBytes :: "Value gomap \<Rightarrow> bytes gomap" where
  "MapValueToMapBytes h = convert_map Value_b h"

definition MapBytesToValues :: "bytes gomap \<Rightarrow> Value gomap" where
  "MapBytesToValues h = convert_map newValue_b h"

text \<open>The loops over slices keep the length and the order; a nil slice becomes an empty one.\<close>

definition ListToValues :: "bytes list \<Rightarrow> Value list" where
  "ListToValues lst = map newValue_b lst"

definition ListStringToValues :: "string list \<Rightarrow> Value list" where
  "ListStringToValues lst = map (\<lambda>s. newValue_b (StringToBytes s)) lst"

definition ListStringToBytes :: "string list \<Rightarrow> bytes list" where
  "ListStringToBytes lst = map StringToBytes lst"

definition ListValueToBytes :: "Value list \<Rightarrow> bytes list" where
  "ListValueToBytes lst = map Value_b lst"

section \<open>Making a value\<close>

fun NewValue :: "codec \<Rightarrow> go_any \<Rightarrow> Value" where
  "NewValue C (AnyError e) = newValue_err e"
| "NewValue C (AnyValue v) = v"
| "NewValue C (AnyBytes b) = newValue_b b"
| "NewValue C (AnyString s) = newValue_b (StringToBytes s)"
| "NewValue C (AnyBool t) = newValue_b (bool_bytes t)"
| "NewValue C (AnyProto r) = newValue_b (marshalled r)"
| "NewValue C (AnyInt t) = newValue_b (int_bytes C t)"
| "NewValue C (AnyInt8 t) = newValue_b (int_bytes C (scast t))"
| "NewValue C (AnyInt16 t) = newValue_b (int_bytes C (scast t))"
| "NewValue C (AnyInt32 t) = newValue_b (int_bytes C (scast t))"
| "NewValue C (AnyFloat32 t) = newValue_b (float_bytes C (float64_of_float32 t))"
| "NewValue C (AnyFloat64 t) = newValue_b (float_bytes C t)"
| "NewValue C (AnyTime t) = newValue_b (int_bytes C (word_of_int (Time_nsec t)))"
| "NewValue C (AnyDuration t) = newValue_b (int_bytes C t)"
| "NewValue C (AnyBytesList t) = newValue_b (marshalled (MarshalList C (newList t)))"
| "NewValue C (AnyStrings t) = newValue_b (marshalled (MarshalList C (newList (ListStringToBytes t))))"
| "NewValue C (AnyValues t) = newValue_b (marshalled (MarshalList C (newList (ListValueToBytes t))))"
| "NewValue C (AnyMapString t) = newValue_b (marshalled (MarshalHash C (newHash (MapStringToMapBytes t))))"
| "NewValue C (AnyMapBytes t) = newValue_b (marshalled (MarshalHash C (newHash t)))"
| "NewValue C (AnyMapBool t) = newValue_b (marshalled (MarshalHash C (newHash (MapBoolToMapBytes t))))"
| "NewValue C (AnyMapInt t) = newValue_b (marshalled (MarshalHash C (newHash (MapIntToMapBytes C t))))"
| "NewValue C (AnyMapFloat t) = newValue_b (marshalled (MarshalHash C (newHash (MapFloatToMapBytes C t))))"
| "NewValue C (AnyMapValue t) = newValue_b (marshalled (MarshalHash C (newHash (MapValueToMapBytes t))))"
| "NewValue C AnyOther = newValue_err (Other ''Unknown type, recommend marshalling to byte slice'')"

section \<open>Reading a value\<close>

definition Value_Error :: "Value \<Rightarrow> go_error option" where
  "Value_Error v = Value_err v"

definition Value_Bytes :: "Value \<Rightarrow> go_error + bytes" where
  "Value_Bytes v = (case Value_err v of Some e \<Rightarrow> Inl e | None \<Rightarrow> Inr (Value_b v))"

definition Value_RawBytes :: "Value \<Rightarrow> bytes" where
  "Value_RawBytes v = Value_b v"

definition Value_String :: "Value \<Rightarrow> go_error + string" where
  "Value_String v = (case Value_err v of Some e \<Rightarrow> Inl e | None \<Rightarrow> Inr (BytesToString (Value_b v)))"

definition Value_Bool :: "Value \<Rightarrow> go_error + bool" where
  "Value_Bool v = (case Value_err v of Some e \<Rightarrow> Inl e
     | None \<Rightarrow> (case Value_b v of b # _ \<Rightarrow> Inr (b \<noteq> 0) | [] \<Rightarrow> Inr False))"

text \<open>\<open>Proto\<close>, with the unmarshaller of the message as an argument.\<close>

definition Value_Proto :: "(bytes \<Rightarrow> string + 'a) \<Rightarrow> Value \<Rightarrow> go_error + 'a" where
  "Value_Proto unmarshal v = (case Value_err v of Some e \<Rightarrow> Inl e
     | None \<Rightarrow> (case unmarshal (Value_b v) of Inl msg \<Rightarrow> Inl (Other msg) | Inr x \<Rightarrow> Inr x))"

definition Value_Int :: "codec \<Rightarrow> Value \<Rightarrow> go_error + int64" where
  "Value_Int C v = map_sum id IntValue_Value (Value_Proto (UnmarshalInt C) v)"

definition Value_Float :: "codec \<Rightarrow> Value \<Rightarrow> go_error + float64" where
  "Value_Float C v = map_sum id FloatValue_Value (Value_Proto (UnmarshalFloat C) v)"

text \<open>\<open>time.Unix(0, n)\<close>\<close>

definition time_Unix_nano :: "int64 \<Rightarrow> go_time" where
  "time_Unix_nano n = \<lparr>Time_sec = sint n div 1000000000, Time_nsec = sint n mod 1000000000\<rparr>"

definition Value_Time :: "codec \<Rightarrow> Value \<Rightarrow> go_error + go_time" where
  "Value_Time C v = map_sum id (\<lambda>iv. time_Unix_nano (IntValue_Value iv)) (Value_Proto (UnmarshalInt C) v)"

definition Value_Duration :: "codec \<Rightarrow> Value \<Rightarrow> go_error + int64" where
  "Value_Duration C v = map_sum id IntValue_Value (Value_Proto (UnmarshalInt C) v)"

definition Value_List :: "codec \<Rightarrow> Value \<Rightarrow> go_error + Value list" where
  "Value_List C v = map_sum id (\<lambda>l. ListToValues (List_Value l)) (Value_Proto (UnmarshalList C) v)"

definition Value_Map :: "codec \<Rightarrow> Value \<Rightarrow> go_error + Value gomap" where
  "Value_Map C v = map_sum id (\<lambda>h. MapBytesToValues (Hash_Value h)) (Value_Proto (UnmarshalHash C) v)"

section \<open>Round trips\<close>

lemma newValue_simps [simp]:
  "Value_err (newValue_b b) = None" "Value_b (newValue_b b) = b"
  "Value_err (newValue_err e) = Some e" "Value_b (newValue_err e) = []"
  by (simp_all add: newValue_b_def newValue_err_def)

lemma convert_map_get:
  assumes "map_wf h"
  shows "map_get (convert_map f h) k = map_option f (map_get h k)" and "map_wf (convert_map f h)"
    and "convert_map f h \<noteq> None"
proof -
  let ?es = "map (\<lambda>x. (fst x, f (snd x))) (map_entries h)"
  obtain m where m: "put_all map_put ?es (Some []) = Some m" "map_wf m" "m \<noteq> None"
      and get: "map_get m = map_get (Some []) ++ map_of (rev ?es)"
    using fields.put_all_writable [of "Some []" ?es] by (auto simp: map_wf_def map_entries_def)
  have eq: "convert_map f h = m" by (simp add: convert_map_def m)
  have d: "distinct (map fst ?es)" using assms by (simp add: map_wf_def comp_def)
  have "map_of (rev ?es) = map_of ?es"
    using map_of_inject_set [of "rev ?es" ?es] d by (simp add: rev_map [symmetric])
  moreover have "map_of (map (\<lambda>x. (fst x, f (snd x))) xs) k = map_option f (map_of xs k)" for xs
    by (induction xs) auto
  ultimately show "map_get (convert_map f h) k = map_option f (map_get h k)"
    by (simp add: eq get map_get_def map_entries_def map_add_def split: option.splits)
  show "map_wf (convert_map f h)" "convert_map f h \<noteq> None" by (simp_all add: eq m)
qed

lemma int_bytes_read: "proto_ok C \<Longrightarrow> Value_Int C (newValue_b (int_bytes C i)) = Inr i"
proof -
  assume "proto_ok C"
  then obtain b where "MarshalInt C \<lparr>IntValue_Key = [], IntValue_Value = i\<rparr> = Inr b"
      "UnmarshalInt C b = Inr \<lparr>IntValue_Key = [], IntValue_Value = i\<rparr>"
    unfolding proto_ok_def by blast
  then show ?thesis by (simp add: Value_Int_def Value_Proto_def int_bytes_def marshalled_def)
qed

lemma float_bytes_read: "proto_ok C \<Longrightarrow> Value_Float C (newValue_b (float_bytes C x)) = Inr x"
proof -
  assume "proto_ok C"
  then obtain b where "MarshalFloat C \<lparr>FloatValue_Key = [], FloatValue_Value = x\<rparr> = Inr b"
      "UnmarshalFloat C b = Inr \<lparr>FloatValue_Key = [], FloatValue_Value = x\<rparr>"
    unfolding proto_ok_def by blast
  then show ?thesis by (simp add: Value_Float_def Value_Proto_def float_bytes_def marshalled_def)
qed

lemma list_bytes_read:
  "proto_ok C \<Longrightarrow> Value_List C (newValue_b (marshalled (MarshalList C (newList bs)))) = Inr (ListToValues bs)"
proof -
  assume "proto_ok C"
  then obtain b where "MarshalList C (newList bs) = Inr b" "UnmarshalList C b = Inr (newList bs)"
    unfolding proto_ok_def by blast
  then show ?thesis by (simp add: Value_List_def Value_Proto_def marshalled_def)
qed

lemma map_bytes_read:
  assumes "proto_ok C" and "map_wf h"
  shows "\<exists>m. Value_Map C (newValue_b (marshalled (MarshalHash C (newHash h)))) = Inr m \<and>
    map_get m = (\<lambda>k. map_option newValue_b (map_get h k))"
proof -
  obtain b h' where b: "MarshalHash C (newHash h) = Inr b" "UnmarshalHash C b = Inr h'"
      and d: "hash_decodes (newHash h) h'"
    using assms unfolding proto_ok_def by (metis newHash_simps(2))
  have "map_get (MapBytesToValues (Hash_Value h')) k = map_option newValue_b (map_get h k)" for k
    using convert_map_get(1) [of "Hash_Value h'" newValue_b k] d
    by (simp add: MapBytesToValues_def hash_decodes_def)
  with b show ?thesis by (auto simp: Value_Map_def Value_Proto_def marshalled_def)
qed

end
