(* ===== verification/Client.thy ===== *)
theory Client
  imports Values Server_Hashes Server_Ints Server_Floats
begin

text \<open>
  The client's operations (\<open>client/client.go\<close>): one call of the server each, with the
  client's metadata as the request's, the values converted on both sides and the errors
  brought back to the package's error values.  Authentication, watching and the connection
  are in \<open>Client_State\<close>.
\<close>

section \<open>Errors over the wire\<close>

definition knownErrors :: "(string \<times> go_error) list" where
  "knownErrors =
     [(Error ErrKeyNotFound, ErrKeyNotFound), (Error ErrKeyLocked, ErrKeyLocked),
      (Error ErrListEmpty, ErrListEmpty), (Error ErrListIndexOutOfRange, ErrListIndexOutOfRange),
      (Error ErrHashFieldNotFound, ErrHashFieldNotFound), (Error ErrTypeMismatch, ErrTypeMismatch),
      (Error ErrInvalidKey, ErrInvalidKey)]"

text \<open>\<open>grpc.ErrorDesc\<close> of an error is its text.\<close>

definition normalizeError :: "go_error \<Rightarrow> go_error" where
  "normalizeError err = (case map_of knownErrors (Error err) of Some newErr \<Rightarrow> newErr | None \<Rightarrow> err)"

text \<open>
  A call over gRPC: the handler's error reaches the client as another error value with the
  same text.  (A panic ends the server process; it stays a panic here.)
\<close>

definition rpc :: "('s, 'a) handler \<Rightarrow> ('s, 'a) handler" where
  "rpc m = and_then (attempt m) (\<lambda>r. case r of Inl e \<Rightarrow> throw (Other (Error e)) | Inr x \<Rightarrow> ret x)"

text \<open>\<open>if err != nil { err = normalizeError(err); return nil, err }\<close>\<close>

definition normalized :: "('s, 'a) handler \<Rightarrow> ('s, 'a) handler" where
  "normalized m = and_then (attempt m) (\<lambda>r. case r of Inl e \<Rightarrow> throw (normalizeError e) | Inr x \<Rightarrow> ret x)"

text \<open>The operations that return a \<open>util.Value\<close> put the error into it.\<close>

definition value_of :: "('s, pb_ByteValue) handler \<Rightarrow> ('s, Value) handler" where
  "value_of m = and_then (attempt (rpc m)) (\<lambda>r. ret (case r of
     Inl e \<Rightarrow> newValue_err (normalizeError e)
   | Inr bv \<Rightarrow> newValue_b (ByteValue_Value bv)))"

section \<open>The client's metadata\<close>

text \<open>The part of the client that requests depend on: the metadata of its context, and the token.\<close>

record client =
  cl_MD :: "MD option"
  cl_authToken :: string

definition client_ctx :: "client \<Rightarrow> go_context" where
  "client_ctx c = \<lparr>ctx_MD = cl_MD c\<rparr>"

text \<open>\<open>strconv.FormatInt(i, 10)\<close>\<close>

fun format_nat :: "nat \<Rightarrow> string" where
  "format_nat n = (if n < 10 then [char_of (48 + n)] else format_nat (n div 10) @ [char_of (48 + n mod 10)])"

definition FormatInt :: "int64 \<Rightarrow> string" where
  "FormatInt i = (if sint i < 0 then CHR ''-'' # format_nat (nat (- sint i)) else format_nat (nat (sint i)))"

definition SetLockTimeout :: "int64 \<Rightarrow> client \<Rightarrow> client" where
  "SetLockTimeout secs c =
     (let secs = (if sint secs < 1 then 1 else secs) in
      c\<lparr>cl_MD := Some [''maxlockwait'' \<mapsto> [FormatInt secs]]\<rparr>)"

section \<open>The operations\<close>

definition client_Keys :: "'s etcd \<Rightarrow> ('s, string list) handler" where
  "client_Keys E = normalized (rpc (Keys E))"

definition client_KeysWithPrefix :: "'s etcd \<Rightarrow> string \<Rightarrow> ('s, string list) handler" where
  "client_KeysWithPrefix E pre = normalized (rpc (KeysWithPrefix E (newKey pre)))"

definition client_Has :: "'s etcd \<Rightarrow> string \<Rightarrow> ('s, bool) handler" where
  "client_Has E key = normalized (rpc (Has E (newKey key)))"

definition client_SetExpire :: "'s etcd \<Rightarrow> string \<Rightarrow> int64 \<Rightarrow> ('s, unit) handler" where
  "client_SetExpire E key secs = normalized (rpc (SetExpire E \<lparr>Expiration_Key = key, Expiration_Exp = secs\<rparr>))"

definition client_Lock :: "'s etcd \<Rightarrow> client \<Rightarrow> string \<Rightarrow> ('s, unit) handler" where
  "client_Lock E c key = normalized (rpc (Lock E (client_ctx c) (newKey key)))"

definition client_LockWithTimeout :: "'s etcd \<Rightarrow> string \<Rightarrow> int64 \<Rightarrow> ('s, unit) handler" where
  "client_LockWithTimeout E key secs = normalized (rpc (LockWithTimeout E \<lparr>Expiration_Key = key, Expiration_Exp = secs\<rparr>))"

definition client_Unlock :: "'s etcd \<Rightarrow> client \<Rightarrow> string \<Rightarrow> ('s, unit) handler" where
  "client_Unlock E c key = normalized (rpc (Unlock E (client_ctx c) (newKey key)))"

definition client_UnlockThenSet :: "'s etcd \<Rightarrow> string \<Rightarrow> Value \<Rightarrow> ('s, unit) handler" where
  "client_UnlockThenSet E key v = normalized (rpc (UnlockThenSet E \<lparr>ByteValue_Key = key, ByteValue_Value = Value_RawBytes v\<rparr>))"

definition client_Delete :: "'s etcd \<Rightarrow> client \<Rightarrow> string \<Rightarrow> ('s, unit) handler" where
  "client_Delete E c key = normalized (rpc (Delete E (client_ctx c) (newKey key)))"

definition client_Clear :: "'s etcd \<Rightarrow> ('s, unit) handler" where
  "client_Clear E = normalized (rpc (Clear E))"

definition client_Get :: "'s etcd \<Rightarrow> string \<Rightarrow> ('s, Value) handler" where
  "client_Get E key = value_of (Get E (newKey key))"

definition client_GetMany :: "'s etcd \<Rightarrow> string list \<Rightarrow> ('s, Value gomap) handler" where
  "client_GetMany E keys = and_then (normalized (rpc (GetMany E keys)))
     (\<lambda>h. ret (convert_map newValue_b (Hash_Value h)))"

definition client_GetWithPrefix :: "'s etcd \<Rightarrow> string \<Rightarrow> ('s, Value gomap) handler" where
  "client_GetWithPrefix E pre = and_then (normalized (rpc (GetWithPrefix E (newKey pre))))
     (\<lambda>h. ret (convert_map newValue_b (Hash_Value h)))"

definition client_Set :: "'s etcd \<Rightarrow> codec \<Rightarrow> client \<Rightarrow> string \<Rightarrow> go_any \<Rightarrow> ('s, unit) handler" where
  "client_Set E C c key v = (case Value_Bytes (NewValue C v) of
     Inl e \<Rightarrow> throw e
   | Inr b \<Rightarrow> normalized (rpc (Set E (client_ctx c) \<lparr>ByteValue_Key = key, ByteValue_Value = b\<rparr>)))"

definition client_SetNX :: "'s etcd \<Rightarrow> codec \<Rightarrow> client \<Rightarrow> string \<Rightarrow> go_any \<Rightarrow> ('s, bool) handler" where
  "client_SetNX E C c key v = (case Value_Bytes (NewValue C v) of
     Inl e \<Rightarrow> throw e
   | Inr b \<Rightarrow> normalized (rpc (SetNX E (client_ctx c) \<lparr>ByteValue_Key = key, ByteValue_Value = b\<rparr>)))"

definition client_SetMany :: "'s etcd \<Rightarrow> client \<Rightarrow> Value gomap \<Rightarrow> ('s, pb_ErrorHash) handler" where
  "client_SetMany E c vals = normalized (rpc (SetMany E (client_ctx c) (newHash (MapValueToMapBytes vals))))"

definition client_Length :: "'s etcd \<Rightarrow> string \<Rightarrow> ('s, int64) handler" where
  "client_Length E key = and_then (normalized (rpc (Length E (newKey key))))
     (\<lambda>iv. ret (IntValue_Value iv))"

definition client_IncrementInt :: "'s etcd \<Rightarrow> codec \<Rightarrow> client \<Rightarrow> string \<Rightarrow> int64 \<Rightarrow> ('s, int64) handler" where
  "client_IncrementInt E C c key by = and_then (normalized (rpc (IncrementInt E C (client_ctx c) \<lparr>IntValue_Key = key, IntValue_Value = by\<rparr>)))
     (\<lambda>iv. ret (IntValue_Value iv))"

definition client_DecrementInt :: "'s etcd \<Rightarrow> codec \<Rightarrow> client \<Rightarrow> string \<Rightarrow> int64 \<Rightarrow> ('s, int64) handler" where
  "client_DecrementInt E C c key by = and_then (normalized (rpc (DecrementInt E C (client_ctx c) \<lparr>IntValue_Key = key, IntValue_Value = by\<rparr>)))
     (\<lambda>iv. ret (IntValue_Value iv))"

definition client_IncrementFloat :: "'s etcd \<Rightarrow> codec \<Rightarrow> client \<Rightarrow> string \<Rightarrow> float64 \<Rightarrow> ('s, float64) handler" where
  "client_IncrementFloat E C c key by = and_then (normalized (rpc (IncrementFloat E C (client_ctx c) \<lparr>FloatValue_Key = key, FloatValue_Value = by\<rparr>)))
     (\<lambda>fv. ret (FloatValue_Value fv))"

definition client_DecrementFloat :: "'s etcd \<Rightarrow> codec \<Rightarrow> client \<Rightarrow> string \<Rightarrow> float64 \<Rightarrow> ('s, float64) handler" where
  "client_DecrementFloat E C c key by = and_then (normalized (rpc (DecrementFloat E C (client_ctx c) \<lparr>FloatValue_Key = key, FloatValue_Value = by\<rparr>)))
     (\<lambda>fv. ret (FloatValue_Value fv))"

definition client_GetListItem :: "'s etcd \<Rightarrow> codec \<Rightarrow> string \<Rightarrow> int64 \<Rightarrow> ('s, Value) handler" where
  "client_GetListItem E C key index = value_of (GetListItem E C \<lparr>ListItem_Key = key, ListItem_Index = index, ListItem_Value = []\<rparr>)"

definition client_SetListItem :: "'s etcd \<Rightarrow> codec \<Rightarrow> client \<Rightarrow> string \<Rightarrow> int64 \<Rightarrow> go_any \<Rightarrow> ('s, unit) handler" where
  "client_SetListItem E C c key index v = (case Value_Bytes (NewValue C v) of
     Inl e \<Rightarrow> throw e
   | Inr b \<Rightarrow> normalized (rpc (SetListItem E C (client_ctx c) \<lparr>ListItem_Key = key, ListItem_Index = index, ListItem_Value = b\<rparr>)))"

definition client_ListLength :: "'s etcd \<Rightarrow> codec \<Rightarrow> string \<Rightarrow> ('s, int64) handler" where
  "client_ListLength E C key = and_then (normalized (rpc (ListLength E C (newKey key))))
     (\<lambda>iv. ret (IntValue_Value iv))"

definition client_ListLimit :: "'s etcd \<Rightarrow> codec \<Rightarrow> client \<Rightarrow> string \<Rightarrow> int64 \<Rightarrow> ('s, unit) handler" where
  "client_ListLimit E C c key limit = normalized (rpc (ListLimit E C (client_ctx c) \<lparr>ListItem_Key = key, ListItem_Index = limit, ListItem_Value = []\<rparr>))"

definition client_ListInsert :: "'s etcd \<Rightarrow> codec \<Rightarrow> client \<Rightarrow> string \<Rightarrow> int64 \<Rightarrow> go_any \<Rightarrow> ('s, unit) handler" where
  "client_ListInsert E C c key index v = (case Value_Bytes (NewValue C v) of
     Inl e \<Rightarrow> throw e
   | Inr b \<Rightarrow> normalized (rpc (ListInsert E C (client_ctx c) \<lparr>ListItem_Key = key, ListItem_Index = index, ListItem_Value = b\<rparr>)))"

definition client_ListAppend :: "'s etcd \<Rightarrow> codec \<Rightarrow> client \<Rightarrow> string \<Rightarrow> go_any \<Rightarrow> ('s, unit) handler" where
  "client_ListAppend E C c key v = (case Value_Bytes (NewValue C v) of
     Inl e \<Rightarrow> throw e
   | Inr b \<Rightarrow> normalized (rpc (ListAppend E C (client_ctx c) \<lparr>ListItem_Key = key, ListItem_Index = 0, ListItem_Value = b\<rparr>)))"

definition client_ListPopLeft :: "'s etcd \<Rightarrow> codec \<Rightarrow> client \<Rightarrow> string \<Rightarrow> ('s, Value) handler" where
  "client_ListPopLeft E C c key = value_of (ListPopLeft E C (client_ctx c) (newKey key))"

definition client_ListPopLeftBlock :: "'s etcd \<Rightarrow> codec \<Rightarrow> client \<Rightarrow> string \<Rightarrow> int64 \<Rightarrow> ('s, Value) handler" where
  "client_ListPopLeftBlock E C c key timeout = value_of (ListPopLeft E C (client_ctx c)
     ((newKey key)\<lparr>Key_Block := True, Key_BlockTimeout := timeout\<rparr>))"

definition client_ListPopRight :: "'s etcd \<Rightarrow> codec \<Rightarrow> client \<Rightarrow> string \<Rightarrow> ('s, Value) handler" where
  "client_ListPopRight E C c key = value_of (ListPopRight E C (client_ctx c) (newKey key))"

definition client_ListPopRightBlock :: "'s etcd \<Rightarrow> codec \<Rightarrow> client \<Rightarrow> string \<Rightarrow> int64 \<Rightarrow> ('s, Value) handler" where
  "client_ListPopRightBlock E C c key timeout = value_of (ListPopRight E C (client_ctx c)
     ((newKey key)\<lparr>Key_Block := True, Key_BlockTimeout := timeout\<rparr>))"

definition client_ListHas :: "'s etcd \<Rightarrow> codec \<Rightarrow> string \<Rightarrow> go_any \<Rightarrow> ('s, int64) handler" where
  "client_ListHas E C key v = (case Value_Bytes (NewValue C v) of
     Inl e \<Rightarrow> throw e
   | Inr b \<Rightarrow> and_then (normalized (rpc (ListHas E C \<lparr>ListItem_Key = key, ListItem_Index = 0, ListItem_Value = b\<rparr>)))
       (\<lambda>iv. ret (IntValue_Value iv)))"

definition client_ListDelete :: "'s etcd \<Rightarrow> codec \<Rightarrow> client \<Rightarrow> string \<Rightarrow> int64 \<Rightarrow> ('s, unit) handler" where
  "client_ListDelete E C c key index = normalized (rpc (ListDelete E C (client_ctx c) \<lparr>ListItem_Key = key, ListItem_Index = index, ListItem_Value = []\<rparr>))"

definition client_ListDeleteItem :: "'s etcd \<Rightarrow> codec \<Rightarrow> client \<Rightarrow> string \<Rightarrow> go_any \<Rightarrow> ('s, int64) handler" where
  "client_ListDeleteItem E C c key v = (case Value_Bytes (NewValue C v) of
     Inl e \<Rightarrow> throw e
   | Inr b \<Rightarrow> and_then (normalized (rpc (ListDeleteItem E C (client_ctx c) \<lparr>ListItem_Key = key, ListItem_Index = 0, ListItem_Value = b\<rparr>)))
       (\<lambda>iv. ret (IntValue_Value iv)))"

definition client_GetHashField :: "'s etcd \<Rightarrow> codec \<Rightarrow> string \<Rightarrow> string \<Rightarrow> ('s, Value) handler" where
  "client_GetHashField E C key field = value_of (GetHashField E C \<lparr>HashField_Key = key, HashField_Field = field, HashField_Value = []\<rparr>)"

definition client_GetHashFields :: "'s etcd \<Rightarrow> codec \<Rightarrow> string \<Rightarrow> string list \<Rightarrow> ('s, Value gomap) handler" where
  "client_GetHashFields E C key fs = and_then (normalized (rpc (GetHashFields E C \<lparr>HashFieldSet_Key = key, HashFieldSet_Field = fs, HashFieldSet_Value = []\<rparr>)))
     (\<lambda>h. ret (convert_map newValue_b (Hash_Value h)))"

definition client_HashHas :: "'s etcd \<Rightarrow> codec \<Rightarrow> string \<Rightarrow> string \<Rightarrow> ('s, bool) handler" where
  "client_HashHas E C key field = normalized (rpc (HashHas E C \<lparr>HashField_Key = key, HashField_Field = field, HashField_Value = []\<rparr>))"

definition client_HashLength :: "'s etcd \<Rightarrow> codec \<Rightarrow> string \<Rightarrow> ('s, int64) handler" where
  "client_HashLength E C key = and_then (normalized (rpc (HashLength E C (newKey key))))
     (\<lambda>iv. ret (IntValue_Value iv))"

definition client_HashFields :: "'s etcd \<Rightarrow> codec \<Rightarrow> string \<Rightarrow> ('s, string list) handler" where
  "client_HashFields E C key = normalized (rpc (HashFields E C (newKey key)))"

definition client_HashValues :: "'s etcd \<Rightarrow> codec \<Rightarrow> string \<Rightarrow> ('s, Value list) handler" where
  "client_HashValues E C key = and_then (normalized (rpc (HashValues E C (newKey key))))
     (\<lambda>lst. ret (ListToValues (List_Value lst)))"

text \<open>The one operation on values that does not normalize the error of its call.\<close>

definition client_SetHashField :: "'s etcd \<Rightarrow> codec \<Rightarrow> client \<Rightarrow> string \<Rightarrow> string \<Rightarrow> go_any \<Rightarrow> ('s, unit) handler" where
  "client_SetHashField E C c key field v = (case Value_Bytes (NewValue C v) of
     Inl e \<Rightarrow> throw (normalizeError e)
   | Inr b \<Rightarrow> rpc (SetHashField E C (client_ctx c) \<lparr>HashField_Key = key, HashField_Field = field, HashField_Value = b\<rparr>))"

definition client_SetHashFields :: "'s etcd \<Rightarrow> codec \<Rightarrow> client \<Rightarrow> string \<Rightarrow> Value gomap \<Rightarrow> ('s, unit) handler" where
  "client_SetHashFields E C c key vals = normalized (rpc (SetHashFields E C (client_ctx c) \<lparr>Hash_Key = key, Hash_Value = MapValueToMapBytes vals\<rparr>))"

definition client_DelHashField :: "'s etcd \<Rightarrow> codec \<Rightarrow> client \<Rightarrow> string \<Rightarrow> string \<Rightarrow> ('s, unit) handler" where
  "client_DelHashField E C c key field = normalized (rpc (DelHashField E C (client_ctx c) \<lparr>HashField_Key = key, HashField_Field = field, HashField_Value = []\<rparr>))"

section \<open>What arrives\<close>

lemma normalizeError_Error:
  "normalizeError (Other (Error e)) = (case e of Other msg \<Rightarrow> normalizeError (Other msg) | _ \<Rightarrow> e)"
  by (cases e) (simp_all add: normalizeError_def knownErrors_def)

text \<open>
  A package error of the server is the same package error at the client; any other keeps
  its text.
\<close>

lemma rpc_runs:
  assumes "runs P m r Q"
  shows "runs P (rpc m) (case r of Err e \<Rightarrow> Err (Other (Error e)) | _ \<Rightarrow> r) Q"
  using assms unfolding rpc_def runs_def triple_def
  by (cases r) (fastforce simp: and_then_def attempt_def throw_def ret_def)+

lemma normalized_runs:
  assumes "runs P m r Q"
  shows "runs P (normalized m) (case r of Err e \<Rightarrow> Err (normalizeError e) | _ \<Rightarrow> r) Q"
  using assms unfolding normalized_def runs_def triple_def
  by (cases r) (fastforce simp: and_then_def attempt_def throw_def ret_def)+

lemma normalized_rpc_runs:
  "runs P m r Q \<Longrightarrow> (\<And>msg. r \<noteq> Err (Other msg)) \<Longrightarrow> runs P (normalized (rpc m)) r Q"
  using normalized_runs [OF rpc_runs, of P m r Q]
  by (cases r) (auto simp: normalizeError_Error split: go_error.splits)

lemma value_of_runs:
  assumes "runs P m (Ok bv) Q"
  shows "runs P (value_of m) (Ok (newValue_b (ByteValue_Value bv))) Q"
proof -
  have a: "runs P (attempt (rpc m)) (Ok (Inr bv)) Q" using rpc_runs [OF assms] by (auto intro: runs_attempt)
  show ?thesis unfolding value_of_def by (rule runs_and_then [OF a]) (simp add: runs_ret)
qed

lemma value_of_err:
  assumes "runs P m (Err e) Q" and "\<And>msg. e \<noteq> Other msg"
  shows "runs P (value_of m) (Ok (newValue_err e)) Q"
proof -
  have "normalizeError (Other (Error e)) = e"
    using assms(2) by (cases e) (simp_all add: normalizeError_def knownErrors_def)
  moreover have "runs P (attempt (rpc m)) (Ok (Inl (Other (Error e)))) Q"
    using rpc_runs [OF assms(1)] by (auto intro: runs_attempt_Err)
  ultimately show ?thesis
    unfolding value_of_def by (intro runs_and_then [where x = "Inl (Other (Error e))"]) (auto intro: runs_ret)
qed

text \<open>The number the client formats is the number the server parses.\<close>

lemma of_char_digit: "n < 10 \<Longrightarrow> of_char (char_of (48 + n :: nat) :: char) = (48 + n :: nat)"
  by simp

lemma parse_digit:
  assumes "n < 10"
  shows "parse_digits k (char_of (48 + n :: nat) # cs) = parse_digits (10 * k + n) cs"
proof -
  have "of_char (CHR ''0'') = (48 :: nat)" "of_char (CHR ''9'') = (57 :: nat)" by simp_all
  then have "CHR ''0'' \<le> char_of (48 + n)" "char_of (48 + n) \<le> CHR ''9''"
    using assms of_char_digit [OF assms] by (simp_all add: less_eq_char_def)
  then show ?thesis using of_char_digit [OF assms] by simp
qed

lemma parse_digits_append: "parse_digits k (xs @ ys) = (case parse_digits k xs of None \<Rightarrow> None | Some n \<Rightarrow> parse_digits n ys)"
  by (induction k xs rule: parse_digits.induct) auto

declare format_nat.simps [simp del]

lemma parse_format_nat: "parse_digits 0 (format_nat n) = Some n"
proof (induction n rule: format_nat.induct)
  case (1 n)
  show ?case
  proof (cases "n < 10")
    case True
    then show ?thesis using parse_digit [of n 0 "[]"] by (subst format_nat.simps) simp
  next
    case False
    then have "parse_digits 0 (format_nat (n div 10)) = Some (n div 10)" using 1 by simp
    moreover have "parse_digits (n div 10) [char_of (48 + n mod 10)] = Some n"
      using parse_digit [of "n mod 10" "n div 10" "[]"] by simp
    ultimately show ?thesis using False by (subst format_nat.simps) (simp add: parse_digits_append)
  qed
qed

lemma format_nat_not_sign: "format_nat n \<noteq> [] \<and> hd (format_nat n) \<noteq> CHR ''-'' \<and> hd (format_nat n) \<noteq> CHR ''+''"
proof (induction n rule: format_nat.induct)
  case (1 n)
  have sign: "of_char (CHR ''-'') = (45 :: nat)" "of_char (CHR ''+'') = (43 :: nat)" by simp_all
  have d: "char_of (48 + k) \<noteq> CHR ''-'' \<and> char_of (48 + k) \<noteq> CHR ''+''" if "k < 10" for k :: nat
  proof (intro conjI notI)
    assume "char_of (48 + k) = CHR ''-''"
    with of_char_digit [OF that] sign show False by simp
  next
    assume "char_of (48 + k) = CHR ''+''"
    with of_char_digit [OF that] sign show False by simp
  qed
  show ?case
    using 1 d [of n] by (cases "n < 10") (simp_all add: format_nat.simps [of n])
qed

lemma ParseInt_FormatInt:
  assumes "0 \<le> sint i"
  shows "ParseInt (FormatInt i) = Some i"
proof -
  let ?n = "nat (sint i)"
  have "?n < 2 ^ 63" using sint64_range(2) [of i] assms by simp
  moreover have "(of_nat ?n :: int64) = i" using assms by simp
  ultimately show ?thesis
    using assms format_nat_not_sign [of ?n] parse_format_nat [of ?n]
    by (simp add: FormatInt_def ParseInt_def)
qed

text \<open>The timeout a client sets is the time the server's operations wait.\<close>

lemma SetLockTimeout_wait:
  "sint (getMaxWait (client_ctx (SetLockTimeout secs c))) = max 1 (sint secs)"
proof -
  have "getMaxWait (client_ctx (SetLockTimeout secs c)) = (if sint secs < 1 then 1 else secs)"
    using ParseInt_FormatInt [of "if sint secs < 1 then 1 else secs"]
    by (simp add: getMaxWait_def client_ctx_def SetLockTimeout_def Let_def)
  then show ?thesis by simp
qed

text \<open>Operations through the client on a usable key.\<close>

lemma client_Set_runs:
  assumes "usable K (client_ctx c) (newKey key) m" and "\<not> key_held (newKey key) m"
    and "Value_err (NewValue C v) = None"
  shows "runs (stores E kv K m) (client_Set E C c key v) (Ok ())
    (stores E kv K (m(StringToBytes key \<mapsto> Value_b (NewValue C v))))"
proof -
  let ?b = "Value_b (NewValue C v)"
  have "runs (stores E kv K m) (Set E (client_ctx c) \<lparr>ByteValue_Key = key, ByteValue_Value = ?b\<rparr>) (Ok ())
      (stores E kv K (m(StringToBytes key \<mapsto> ?b)))"
    using Set_free [of "\<lparr>ByteValue_Key = key, ByteValue_Value = ?b\<rparr>" K m E kv "client_ctx c"] assms(1,2)
    by (simp add: usable_def key_held_def)
  from normalized_rpc_runs [OF this] show ?thesis using assms(3) by (simp add: client_Set_def Value_Bytes_def)
qed

lemma client_Get_runs:
  assumes "StringToBytes key \<in> K" and "m (StringToBytes key) = Some b"
  shows "runs (stores E kv K m) (client_Get E key) (Ok (newValue_b b)) (stores E kv K m)"
proof -
  have "runs (stores E kv K m) (Get E (newKey key)) (Ok (newByteValue b)) (stores E kv K m)"
    using Get_runs [of "newKey key" K m E kv] assms by simp
  from value_of_runs [OF this] show ?thesis by (simp add: client_Get_def)
qed

lemma client_SetNX_runs:
  assumes "usable K (client_ctx c) (newKey key) m" and "\<not> key_held (newKey key) m"
    and "m (StringToBytes key) = None" and "Value_err (NewValue C v) = None"
  shows "runs (stores E kv K m) (client_SetNX E C c key v) (Ok True)
    (stores E kv K (m(getLockName key := None, StringToBytes key \<mapsto> Value_b (NewValue C v))))"
proof -
  have "runs (stores E kv K m) (SetNX E (client_ctx c) \<lparr>ByteValue_Key = key, ByteValue_Value = Value_b (NewValue C v)\<rparr>) (Ok True)
      (stores E kv K (m(getLockName key := None, StringToBytes key \<mapsto> Value_b (NewValue C v))))"
    using SetNX_absent [of K "client_ctx c" "\<lparr>ByteValue_Key = key, ByteValue_Value = Value_b (NewValue C v)\<rparr>" m E kv] assms(1-3)
    by (simp add: key_held_def)
  from normalized_rpc_runs [OF this] show ?thesis using assms(4) by (simp add: client_SetNX_def Value_Bytes_def)
qed

lemma client_SetHashField_runs:
  assumes "usable K (client_ctx c) (newKey key) m" and "\<not> key_held (newKey key) m" and "proto_ok C"
    and "if_missing (newHash (Some [])) (hash_read C (newKey key) m) = Inr h"
    and "map_wf (Hash_Value h)" and "Hash_Value h \<noteq> None" and "Value_err (NewValue C v) = None"
  shows "\<exists>m'. runs (stores E kv K m) (client_SetHashField E C c key field v) (Ok ()) (stores E kv K m') \<and>
    hash_stores K (client_ctx c) C key m ((map_get (Hash_Value h))(field \<mapsto> Value_b (NewValue C v))) m'"
proof -
  let ?hf = "\<lparr>HashField_Key = key, HashField_Field = field, HashField_Value = Value_b (NewValue C v)\<rparr>"
  obtain m' where "runs (stores E kv K m) (SetHashField E C (client_ctx c) ?hf) (Ok ()) (stores E kv K m')"
      and m': "hash_stores K (client_ctx c) C key m ((map_get (Hash_Value h))(field \<mapsto> Value_b (NewValue C v))) m'"
    using SetHashField_ok [of K "client_ctx c" ?hf m C h E kv] assms(1-6) by auto
  from rpc_runs [OF this(1)] m' show ?thesis using assms(7) by (auto simp: client_SetHashField_def Value_Bytes_def)
qed

end
