(* ===== verification/Auth.thy ===== *)
theory Auth
  imports Etcd_Rules
begin

text \<open>
  Users, roles and permissions (\<open>mydis/auth.go\<close>): every operation hands its request to
  etcd's authentication service and converts the answer.  The service is the parameter
  \<open>A\<close>; the calls go through the same scheduling points as the other etcd calls.
\<close>

section \<open>Messages\<close>

record pb_ResponseHeader =
  Header_ClusterId :: "64 word"
  Header_MemberId :: "64 word"
  Header_Revision :: int64
  Header_RaftTerm :: "64 word"

record AuthenticateRequest =
  Authenticate_Name :: string
  Authenticate_Password :: string

record AuthUserAddRequest =
  UserAdd_Name :: string
  UserAdd_Password :: string

record AuthUserChangePasswordRequest =
  ChangePassword_Name :: string
  ChangePassword_Password :: string

record AuthUserGrantRoleRequest =
  GrantRole_User :: string
  GrantRole_Role :: string

record AuthUserRevokeRoleRequest =
  RevokeRole_Name :: string
  RevokeRole_Role :: string

text \<open>\<open>Perm\<close> is a pointer: \<open>None\<close> when the message has no permission.\<close>

record AuthRoleGrantPermissionRequest =
  GrantPermission_Name :: string
  GrantPermission_Perm :: "pb_Permission option"

record AuthRoleRevokePermissionRequest =
  RevokePermission_Role :: string
  RevokePermission_Key :: string
  RevokePermission_RangeEnd :: string

record AuthenticateResponse =
  Authenticated_Header :: pb_ResponseHeader
  Authenticated_Token :: string

text \<open>A response with a list of names: the roles of a user, all users, all roles.\<close>

record AuthNamesResponse =
  Names_Header :: pb_ResponseHeader
  Names_Names :: "string list"

record AuthRoleGetResponse =
  RoleGet_Header :: pb_ResponseHeader
  RoleGet_Perm :: "pb_Permission list"

section \<open>Etcd's side\<close>

record etcd_ResponseHeader =
  h_ClusterId :: "64 word"
  h_MemberId :: "64 word"
  h_Revision :: int64
  h_RaftTerm :: "64 word"

datatype authpb_PermissionType = authpb_READ | authpb_WRITE | authpb_READWRITE

record authpb_Permission =
  authpb_PermType :: authpb_PermissionType
  authpb_Key :: bytes
  authpb_RangeEnd :: bytes

text \<open>An answer is an error text, or a header (which may be nil) and a payload.\<close>

type_synonym ('s, 'a) auth_call = "'s \<Rightarrow> (string + (etcd_ResponseHeader option \<times> 'a)) \<times> 's"

record 's etcd_auth =
  auth_AuthEnable :: "('s, unit) auth_call"
  auth_AuthDisable :: "('s, unit) auth_call"
  auth_Authenticate :: "string \<Rightarrow> string \<Rightarrow> ('s, string) auth_call"
  auth_UserAdd :: "string \<Rightarrow> string \<Rightarrow> ('s, unit) auth_call"
  auth_UserGet :: "string \<Rightarrow> ('s, string list) auth_call"
  auth_UserList :: "('s, string list) auth_call"
  auth_UserDelete :: "string \<Rightarrow> ('s, unit) auth_call"
  auth_UserChangePassword :: "string \<Rightarrow> string \<Rightarrow> ('s, unit) auth_call"
  auth_UserGrantRole :: "string \<Rightarrow> string \<Rightarrow> ('s, unit) auth_call"
  auth_UserRevokeRole :: "string \<Rightarrow> string \<Rightarrow> ('s, unit) auth_call"
  auth_RoleAdd :: "string \<Rightarrow> ('s, unit) auth_call"
  auth_RoleGet :: "string \<Rightarrow> ('s, authpb_Permission list option) auth_call"
  auth_RoleList :: "('s, string list) auth_call"
  auth_RoleDelete :: "string \<Rightarrow> ('s, unit) auth_call"
  auth_RoleGrantPermission :: "string \<Rightarrow> authpb_Permission \<Rightarrow> ('s, unit) auth_call"
  auth_RoleRevokePermission :: "string \<Rightarrow> string \<Rightarrow> string \<Rightarrow> ('s, unit) auth_call"

text \<open>
  The arguments of these functions are the fields of etcd's requests, in the order name,
  password; user, role; name, permission; role, key, range end.
\<close>

section \<open>Conversions\<close>

definition convertHeader :: "etcd_ResponseHeader option \<Rightarrow> pb_ResponseHeader" where
  "convertHeader h = (case h of
     None \<Rightarrow> \<lparr>Header_ClusterId = 0, Header_MemberId = 0, Header_Revision = 0, Header_RaftTerm = 0\<rparr>
   | Some h \<Rightarrow> \<lparr>Header_ClusterId = h_ClusterId h, Header_MemberId = h_MemberId h,
       Header_Revision = h_Revision h, Header_RaftTerm = h_RaftTerm h\<rparr>)"

text \<open>\<open>authpb.Permission_Type(t)\<close> and back: both enumerations have the same numbers.\<close>

fun to_authpb_type :: "pb_PermissionType \<Rightarrow> authpb_PermissionType" where
  "to_authpb_type Permission_READ = authpb_READ"
| "to_authpb_type Permission_WRITE = authpb_WRITE"
| "to_authpb_type Permission_READWRITE = authpb_READWRITE"

fun from_authpb_type :: "authpb_PermissionType \<Rightarrow> pb_PermissionType" where
  "from_authpb_type authpb_READ = Permission_READ"
| "from_authpb_type authpb_WRITE = Permission_WRITE"
| "from_authpb_type authpb_READWRITE = Permission_READWRITE"

definition convertPermission :: "pb_Permission \<Rightarrow> authpb_Permission" where
  "convertPermission p = \<lparr>authpb_PermType = to_authpb_type (Permission_PermType p),
     authpb_Key = Permission_Key p, authpb_RangeEnd = Permission_RangeEnd p\<rparr>"

definition convertPermissions :: "authpb_Permission list option \<Rightarrow> pb_Permission list" where
  "convertPermissions p = (case p of
     None \<Rightarrow> []
   | Some perms \<Rightarrow> map (\<lambda>perm. \<lparr>Permission_PermType = from_authpb_type (authpb_PermType perm),
       Permission_Key = authpb_Key perm, Permission_RangeEnd = authpb_RangeEnd perm\<rparr>) perms)"

section \<open>The operations\<close>

definition AuthEnable :: "'s etcd \<Rightarrow> 's etcd_auth \<Rightarrow> unit \<Rightarrow> ('s, pb_ResponseHeader) handler" where
  "AuthEnable E A req = and_then (call E (auth_AuthEnable A))
     (\<lambda>(h, x). ret (convertHeader h))"

definition AuthDisable :: "'s etcd \<Rightarrow> 's etcd_auth \<Rightarrow> unit \<Rightarrow> ('s, pb_ResponseHeader) handler" where
  "AuthDisable E A req = and_then (call E (auth_AuthDisable A))
     (\<lambda>(h, x). ret (convertHeader h))"

definition Authenticate :: "'s etcd \<Rightarrow> 's etcd_auth \<Rightarrow> AuthenticateRequest \<Rightarrow> ('s, AuthenticateResponse) handler" where
  "Authenticate E A req = and_then (call E
       (auth_Authenticate A (Authenticate_Name req) (Authenticate_Password req)))
     (\<lambda>(h, x). ret \<lparr>Authenticated_Header = convertHeader h, Authenticated_Token = x\<rparr>)"

definition UserAdd :: "'s etcd \<Rightarrow> 's etcd_auth \<Rightarrow> AuthUserAddRequest \<Rightarrow> ('s, pb_ResponseHeader) handler" where
  "UserAdd E A req = and_then (call E (auth_UserAdd A (UserAdd_Name req) (UserAdd_Password req)))
     (\<lambda>(h, x). ret (convertHeader h))"

definition UserGet :: "'s etcd \<Rightarrow> 's etcd_auth \<Rightarrow> string \<Rightarrow> ('s, AuthNamesResponse) handler" where
  "UserGet E A name = and_then (call E (auth_UserGet A name))
     (\<lambda>(h, x). ret \<lparr>Names_Header = convertHeader h, Names_Names = x\<rparr>)"

definition UserList :: "'s etcd \<Rightarrow> 's etcd_auth \<Rightarrow> unit \<Rightarrow> ('s, AuthNamesResponse) handler" where
  "UserList E A req = and_then (call E (auth_UserList A))
     (\<lambda>(h, x). ret \<lparr>Names_Header = convertHeader h, Names_Names = x\<rparr>)"

definition UserDelete :: "'s etcd \<Rightarrow> 's etcd_auth \<Rightarrow> string option \<Rightarrow> ('s, pb_ResponseHeader) handler" where
  "UserDelete E A req = (case req of
     None \<Rightarrow> throw (Other ''Unknown error'')
   | Some name \<Rightarrow> and_then (call E (auth_UserDelete A name)) (\<lambda>(h, x). ret (convertHeader h)))"

definition UserChangePassword :: "'s etcd \<Rightarrow> 's etcd_auth \<Rightarrow> AuthUserChangePasswordRequest \<Rightarrow> ('s, pb_ResponseHeader) handler" where
  "UserChangePassword E A req = and_then (call E
       (auth_UserChangePassword A (ChangePassword_Name req) (ChangePassword_Password req)))
     (\<lambda>(h, x). ret (convertHeader h))"

definition UserGrantRole :: "'s etcd \<Rightarrow> 's etcd_auth \<Rightarrow> AuthUserGrantRoleRequest \<Rightarrow> ('s, pb_ResponseHeader) handler" where
  "UserGrantRole E A req = and_then (call E (auth_UserGrantRole A (GrantRole_User req) (GrantRole_Role req)))
     (\<lambda>(h, x). ret (convertHeader h))"

definition UserRevokeRole :: "'s etcd \<Rightarrow> 's etcd_auth \<Rightarrow> AuthUserRevokeRoleRequest \<Rightarrow> ('s, pb_ResponseHeader) handler" where
  "UserRevokeRole E A req = and_then (call E (auth_UserRevokeRole A (RevokeRole_Name req) (RevokeRole_Role req)))
     (\<lambda>(h, x). ret (convertHeader h))"

definition RoleAdd :: "'s etcd \<Rightarrow> 's etcd_auth \<Rightarrow> string \<Rightarrow> ('s, pb_ResponseHeader) handler" where
  "RoleAdd E A name = and_then (call E (auth_RoleAdd A name))
     (\<lambda>(h, x). ret (convertHeader h))"

definition RoleGet :: "'s etcd \<Rightarrow> 's etcd_auth \<Rightarrow> string \<Rightarrow> ('s, AuthRoleGetResponse) handler" where
  "RoleGet E A role = and_then (call E (auth_RoleGet A role))
     (\<lambda>(h, x). ret \<lparr>RoleGet_Header = convertHeader h, RoleGet_Perm = convertPermissions x\<rparr>)"

definition RoleList :: "'s etcd \<Rightarrow> 's etcd_auth \<Rightarrow> unit \<Rightarrow> ('s, AuthNamesResponse) handler" where
  "RoleList E A req = and_then (call E (auth_RoleList A))
     (\<lambda>(h, x). ret \<lparr>Names_Header = convertHeader h, Names_Names = x\<rparr>)"

definition RoleDelete :: "'s etcd \<Rightarrow> 's etcd_auth \<Rightarrow> string \<Rightarrow> ('s, pb_ResponseHeader) handler" where
  "RoleDelete E A role = and_then (call E (auth_RoleDelete A role))
     (\<lambda>(h, x). ret (convertHeader h))"

text \<open>\<open>convertPermission\<close> dereferences the permission.\<close>

definition RoleGrantPermission :: "'s etcd \<Rightarrow> 's etcd_auth \<Rightarrow> AuthRoleGrantPermissionRequest \<Rightarrow> ('s, pb_ResponseHeader) handler" where
  "RoleGrantPermission E A req = (case GrantPermission_Perm req of
     None \<Rightarrow> panic
   | Some perm \<Rightarrow> and_then (call E (auth_RoleGrantPermission A (GrantPermission_Name req) (convertPermission perm)))
       (\<lambda>(h, x). ret (convertHeader h)))"

definition RoleRevokePermission :: "'s etcd \<Rightarrow> 's etcd_auth \<Rightarrow> AuthRoleRevokePermissionRequest \<Rightarrow> ('s, pb_ResponseHeader) handler" where
  "RoleRevokePermission E A req = and_then (call E
       (auth_RoleRevokePermission A (RevokePermission_Role req) (RevokePermission_Key req) (RevokePermission_RangeEnd req)))
     (\<lambda>(h, x). ret (convertHeader h))"

section \<open>Facts\<close>

lemma from_to_authpb_type [simp]: "from_authpb_type (to_authpb_type t) = t"
  by (cases t) simp_all

lemma to_from_authpb_type [simp]: "to_authpb_type (from_authpb_type t) = t"
  by (cases t) simp_all

lemma convertPermissions_granted: "convertPermissions (Some (map convertPermission ps)) = ps"
proof (induction ps)
  case (Cons p ps)
  then show ?case by (cases p) (simp add: convertPermissions_def convertPermission_def)
qed (simp add: convertPermissions_def)

lemma convertPermission_inj: "convertPermission p = convertPermission q \<Longrightarrow> p = q"
  using convertPermissions_granted [of "[p]"] convertPermissions_granted [of "[q]"] by simp

text \<open>An error of etcd is handed on unchanged, and nothing else was done.\<close>

lemma auth_error:
  assumes "op (others E (ticks w) (cache w)) = (Inl msg, s)"
  shows "fst (and_then (call E op) f w) = Err (Other msg)"
  by (simp add: and_then_def call_simps(2) [of op, OF assms])

lemma auth_ok:
  assumes "op (others E (ticks w) (cache w)) = (Inr (h, x), s)"
  shows "fst (and_then (call E op) (\<lambda>(h, x). ret (g h x)) w) = Ok (g h x)"
  by (simp add: and_then_def call_simps(1) [of op, OF assms] ret_def)

end
