(* ===== verification/Watch.thy ===== *)
theory Watch
  imports Naming
begin

text \<open>
  Watching keys (\<open>mydis/watch.go\<close>): one watcher per client stream, a state machine that
  takes watch requests and etcd's events, and the controller that numbers the watchers.
\<close>

section \<open>What a watcher talks to\<close>

text \<open>
  Etcd's watch stream, a parameter with its own state \<open>'m\<close>: \<open>stream.Watch\<close> returns an id,
  \<open>stream.Cancel\<close> ends a watch.
\<close>

record 'm watch_stream =
  stream_Watch :: "'m \<Rightarrow> bytes \<Rightarrow> bytes \<Rightarrow> int64 \<Rightarrow> int64 \<times> 'm"
  stream_Cancel :: "'m \<Rightarrow> int64 \<Rightarrow> 'm"

text \<open>An event of etcd: \<open>Kv\<close> and \<open>PrevKv\<close> may be nil.\<close>

record mvcc_event =
  mvcc_Type :: pb_EventType
  mvcc_Kv :: "KeyValue option"
  mvcc_PrevKv :: "KeyValue option"

section \<open>A watcher\<close>

text \<open>
  \<open>watching\<close> as its entries (the map is never nil), the events sent to the client, and the
  number of requests answered on \<open>resCh\<close>.
\<close>

record 'm watcher =
  w_stream :: 'm
  w_watching :: "(string \<times> pb_WatchRequest) list"
  w_sent :: "pb_Event list"
  w_answered :: nat

definition RequestID :: "pb_WatchRequest \<Rightarrow> string" where
  "RequestID r = (let id = WatchRequest_Key r in
     if WatchRequest_Prefix r then id @ suffixForKeysUsingPrefix else id)"

text \<open>The case \<open>r := <-w.reqCh\<close>.\<close>

definition handle_request :: "'m watch_stream \<Rightarrow> pb_WatchRequest \<Rightarrow> 'm watcher \<Rightarrow> 'm watcher" where
  "handle_request M r w =
     (let hash = RequestID r in
      case map_of (w_watching w) hash of
        Some wr \<Rightarrow>
          if WatchRequest_Cancel r then
            w\<lparr>w_stream := stream_Cancel M (w_stream w) (WatchRequest_Id wr),
              w_watching := AList.delete hash (w_watching w), w_answered := w_answered w + 1\<rparr>
          else w\<lparr>w_answered := w_answered w + 1\<rparr>
      | None \<Rightarrow>
          let bkey = StringToBytes (WatchRequest_Key r);
              range_end = (if WatchRequest_Prefix r then getPrefix (WatchRequest_Key r) else []);
              (id, s) = stream_Watch M (w_stream w) bkey range_end (WatchRequest_Rev r)
          in w\<lparr>w_stream := s, w_watching := AList.update hash (r\<lparr>WatchRequest_Id := id\<rparr>) (w_watching w),
               w_answered := w_answered w + 1\<rparr>)"

definition kv_value :: "KeyValue option \<Rightarrow> pb_ByteValue" where
  "kv_value kv = (case kv of
     None \<Rightarrow> newByteValue []
   | Some x \<Rightarrow> \<lparr>ByteValue_Key = BytesToString (KV_Key x), ByteValue_Value = KV_Value x\<rparr>)"

definition convert_event :: "mvcc_event \<Rightarrow> pb_Event" where
  "convert_event e = \<lparr>Event_Type = mvcc_Type e, Event_Current = kv_value (mvcc_Kv e),
     Event_Previous = kv_value (mvcc_PrevKv e)\<rparr>"

definition watches_key :: "string \<Rightarrow> pb_WatchRequest \<Rightarrow> bool" where
  "watches_key key r \<longleftrightarrow> WatchRequest_Key r = key \<or> (WatchRequest_Prefix r \<and> HasPrefix key (WatchRequest_Key r))"

text \<open>
  \<open>for _, r := range w.watching\<close> for one event: the copies sent.  \<open>e.Kv.Key\<close> with a nil
  \<open>Kv\<close> panics (\<open>None\<close>).
\<close>

fun dispatch :: "mvcc_event \<Rightarrow> (string \<times> pb_WatchRequest) list \<Rightarrow> pb_Event list option" where
  "dispatch e [] = Some []"
| "dispatch e (x # xs) = (case mvcc_Kv e of
     None \<Rightarrow> None
   | Some kv \<Rightarrow> (case dispatch e xs of
        None \<Rightarrow> None
      | Some evs \<Rightarrow> Some (if watches_key (BytesToString (KV_Key kv)) (snd x) then convert_event e # evs else evs)))"

text \<open>The case \<open>r := <-streamCh\<close>.\<close>

fun handle_events :: "mvcc_event list \<Rightarrow> 'm watcher \<Rightarrow> 'm watcher option" where
  "handle_events [] w = Some w"
| "handle_events (e # es) w = (case dispatch e (w_watching w) of
     None \<Rightarrow> None
   | Some evs \<Rightarrow> handle_events es (w\<lparr>w_sent := w_sent w @ evs\<rparr>))"

definition new_watcher :: "'m \<Rightarrow> 'm watcher" where
  "new_watcher s = \<lparr>w_stream = s, w_watching = [], w_sent = [], w_answered = 0\<rparr>"

text \<open>The loop of \<open>backgroundProcess\<close>: requests and events in any order.\<close>

inductive watcher_step :: "'m watch_stream \<Rightarrow> 'm watcher \<Rightarrow> 'm watcher \<Rightarrow> bool" for M where
  Request: "watcher_step M w (handle_request M r w)"
| Events: "handle_events es w = Some w' \<Longrightarrow> watcher_step M w w'"

inductive watcher_reachable :: "'m watch_stream \<Rightarrow> 'm \<Rightarrow> 'm watcher \<Rightarrow> bool" for M s where
  Start: "watcher_reachable M s (new_watcher s)"
| Step: "watcher_reachable M s w \<Longrightarrow> watcher_step M w w' \<Longrightarrow> watcher_reachable M s w'"

inductive_cases watcher_stepE: "watcher_step M w w'"

section \<open>What holds of every reachable watcher\<close>

text \<open>
  Etcd's documented behaviour: as long as there is an id that is not in use, a new watch
  gets such an id and is active; cancelling ends exactly that watch.  \<open>active s\<close> are the
  ids in use.
\<close>

definition stream_law :: "'m watch_stream \<Rightarrow> ('m \<Rightarrow> int64 set) \<Rightarrow> bool" where
  "stream_law M active \<longleftrightarrow>
     (\<forall>s k e rv. active s \<noteq> UNIV \<longrightarrow> fst (stream_Watch M s k e rv) \<notin> active s \<and>
        active (snd (stream_Watch M s k e rv)) = insert (fst (stream_Watch M s k e rv)) (active s)) \<and>
     (\<forall>s id. active (stream_Cancel M s id) = active s - {id})"

definition watched_ids :: "'m watcher \<Rightarrow> int64 list" where
  "watched_ids w = map (\<lambda>x. WatchRequest_Id (snd x)) (w_watching w)"

definition watcher_inv :: "('m \<Rightarrow> int64 set) \<Rightarrow> 'm watcher \<Rightarrow> bool" where
  "watcher_inv active w \<longleftrightarrow> distinct (map fst (w_watching w)) \<and>
     (\<forall>x\<in>set (w_watching w). fst x = RequestID (snd x)) \<and>
     distinct (watched_ids w) \<and> set (watched_ids w) = active (w_stream w) \<and>
     length (w_watching w) \<le> w_answered w"

lemma handle_events_watching: "handle_events es w = Some w' \<Longrightarrow>
    w_watching w' = w_watching w \<and> w_stream w' = w_stream w \<and> w_answered w' = w_answered w"
  by (induction es w arbitrary: w' rule: handle_events.induct) (fastforce split: option.splits)+

lemma delete_eq_filter: "AList.delete k xs = filter (\<lambda>x. fst x \<noteq> k) xs"
  unfolding AList.delete_eq by (rule filter_cong) auto

lemma update_absent: "map_of xs k = None \<Longrightarrow> AList.update k v xs = xs @ [(k, v)]"
  by (induction xs) (auto split: if_splits)

text \<open>Fewer than \<open>2^64\<close> watches leave an id free.\<close>

lemma watcher_inv_free:
  assumes "watcher_inv active w" and "w_answered w < 2 ^ 64"
  shows "active (w_stream w) \<noteq> (UNIV :: int64 set)"
proof
  assume "active (w_stream w) = (UNIV :: int64 set)"
  then have "card (set (watched_ids w)) = 2 ^ 64" using assms(1) by (simp add: watcher_inv_def card_word)
  moreover have "card (set (watched_ids w)) \<le> length (w_watching w)"
    using card_length [of "watched_ids w"] by (simp add: watched_ids_def)
  ultimately show False using assms by (simp add: watcher_inv_def)
qed

lemma watcher_inv_request:
  assumes law: "stream_law M active" and inv: "watcher_inv active w" and few: "w_answered w < 2 ^ 64"
  shows "watcher_inv active (handle_request M r w)"
proof (cases "map_of (w_watching w) (RequestID r)")
  case None
  let ?bkey = "StringToBytes (WatchRequest_Key r)"
  let ?stop = "if WatchRequest_Prefix r then getPrefix (WatchRequest_Key r) else []"
  obtain id s where ws: "stream_Watch M (w_stream w) ?bkey ?stop (WatchRequest_Rev r) = (id, s)" by fastforce
  have new: "id \<notin> active (w_stream w)" "active s = insert id (active (w_stream w))"
    using law ws watcher_inv_free [OF inv few] unfolding stream_law_def by (metis fst_conv, metis fst_conv snd_conv)
  have h: "handle_request M r w = w\<lparr>w_stream := s,
      w_watching := w_watching w @ [(RequestID r, r\<lparr>WatchRequest_Id := id\<rparr>)], w_answered := w_answered w + 1\<rparr>"
    using None by (simp add: handle_request_def ws update_absent)
  have "RequestID r \<notin> fst ` set (w_watching w)" using None by (metis map_of_eq_None_iff)
  moreover have "RequestID (r\<lparr>WatchRequest_Id := id\<rparr>) = RequestID r" by (simp add: RequestID_def)
  ultimately show ?thesis
    using inv new unfolding h by (simp add: watcher_inv_def watched_ids_def)
next
  case (Some wr)
  show ?thesis
  proof (cases "WatchRequest_Cancel r")
    case False
    then have "handle_request M r w = w\<lparr>w_answered := w_answered w + 1\<rparr>"
      using Some by (simp add: handle_request_def)
    then show ?thesis using inv by (simp add: watcher_inv_def watched_ids_def)
  next
    case True
    let ?ws = "filter (\<lambda>x. fst x \<noteq> RequestID r) (w_watching w)"
    have h: "handle_request M r w = w\<lparr>w_stream := stream_Cancel M (w_stream w) (WatchRequest_Id wr),
        w_watching := ?ws, w_answered := w_answered w + 1\<rparr>"
      using Some True by (simp add: handle_request_def delete_eq_filter)
    have act: "active (stream_Cancel M (w_stream w) (WatchRequest_Id wr)) = active (w_stream w) - {WatchRequest_Id wr}"
      using law unfolding stream_law_def by blast
    have mem: "(RequestID r, wr) \<in> set (w_watching w)" using Some by (rule map_of_SomeD)
    have inj: "inj_on (\<lambda>x. WatchRequest_Id (snd x)) (set (w_watching w))"
      using inv by (simp add: watcher_inv_def watched_ids_def distinct_map)
    have only: "x = (RequestID r, wr)" if "x \<in> set (w_watching w)" "fst x = RequestID r" for x
      using that mem inv by (metis watcher_inv_def Some map_of_is_SomeI option.inject prod.collapse)
    let ?id = "\<lambda>x. WatchRequest_Id (snd x)"
    have ids: "set (watched_ids w) = ?id ` set (w_watching w)" by (simp add: watched_ids_def)
    have "x \<in> set ?ws \<longleftrightarrow> x \<in> set (w_watching w) \<and> x \<noteq> (RequestID r, wr)" for x
      using only [of x] by (cases "fst x = RequestID r") auto
    then have "set ?ws = set (w_watching w) - {(RequestID r, wr)}" by blast
    then have "?id ` set ?ws = ?id ` (set (w_watching w) - {(RequestID r, wr)})" by simp
    also have "\<dots> = ?id ` set (w_watching w) - ?id ` {(RequestID r, wr)}"
      by (rule inj_on_image_set_diff [OF inj]) (use mem in auto)
    also have "\<dots> = active (w_stream w) - {WatchRequest_Id wr}"
      using inv by (simp add: watcher_inv_def ids)
    finally have act': "?id ` set ?ws = active (w_stream w) - {WatchRequest_Id wr}" .
    have d: "distinct (map fst (w_watching w))" "distinct (map ?id (w_watching w))"
      and r: "\<forall>x\<in>set (w_watching w). fst x = RequestID (snd x)"
      using inv unfolding watcher_inv_def watched_ids_def by blast+
    have "\<forall>x\<in>set ?ws. fst x = RequestID (snd x)" using r unfolding set_filter by blast
    moreover have "w_watching (handle_request M r w) = ?ws"
        "w_stream (handle_request M r w) = stream_Cancel M (w_stream w) (WatchRequest_Id wr)"
      by (simp_all add: h)
    moreover have "length ?ws \<le> w_answered (handle_request M r w)"
      by (rule le_trans [OF length_filter_le]) (use inv in \<open>simp add: h watcher_inv_def\<close>)
    ultimately show ?thesis
      unfolding watcher_inv_def watched_ids_def
      by (simp only: act set_map act')
        (use distinct_map_filter [OF d(1)] distinct_map_filter [OF d(2)] in blast)
  qed
qed

lemma watcher_inv_step:
  assumes "stream_law M active" and "watcher_inv active w" and "watcher_step M w w'" and "w_answered w < 2 ^ 64"
  shows "watcher_inv active w'"
  using assms(3)
proof (rule watcher_stepE)
  fix r assume "w' = handle_request M r w"
  then show ?thesis using watcher_inv_request [OF assms(1,2,4)] by simp
next
  fix es assume "handle_events es w = Some w'"
  then show ?thesis using assms(2) handle_events_watching [of es w w'] by (simp add: watcher_inv_def watched_ids_def)
qed

lemma handle_request_answered: "w_answered (handle_request M r w) = Suc (w_answered w)"
  by (simp add: handle_request_def Let_def split: option.split prod.split)

lemma watcher_step_answered: "watcher_step M w w' \<Longrightarrow> w_answered w \<le> w_answered w'"
  by (auto elim!: watcher_stepE dest: handle_events_watching simp: handle_request_answered)

text \<open>The bound is that of the ids: at most \<open>2^64\<close> requests.\<close>

lemma watcher_inv_reachable:
  assumes "stream_law M active" and "active s = {}" and "watcher_reachable M s w" and "w_answered w < 2 ^ 64"
  shows "watcher_inv active w"
  using assms(3,4)
proof induction
  case Start
  then show ?case using assms(2) by (simp add: watcher_inv_def watched_ids_def new_watcher_def)
next
  case (Step w w')
  then have "w_answered w < 2 ^ 64" using watcher_step_answered [of M w w'] by simp
  with Step show ?case using watcher_inv_step [OF assms(1)] by blast
qed

section \<open>Which events are sent\<close>

lemma dispatch_copies:
  "mvcc_Kv e = Some kv \<Longrightarrow> dispatch e xs =
     Some (replicate (length (filter (\<lambda>x. watches_key (BytesToString (KV_Key kv)) (snd x)) xs)) (convert_event e))"
  by (induction xs) auto

text \<open>Every event of a batch is sent once per request that watches its key, in order.\<close>

lemma handle_events_sent:
  assumes "\<forall>e\<in>set es. mvcc_Kv e \<noteq> None"
  shows "handle_events es w = Some (w\<lparr>w_sent := w_sent w @ concat (map (\<lambda>e.
     replicate (length (filter (\<lambda>x. watches_key (BytesToString (KV_Key (the (mvcc_Kv e)))) (snd x)) (w_watching w)))
       (convert_event e)) es)\<rparr>)"
  using assms
proof (induction es arbitrary: w)
  case (Cons e es)
  then obtain kv where kv: "mvcc_Kv e = Some kv" by auto
  show ?case using Cons by (simp add: dispatch_copies [OF kv] kv)
qed simp

section \<open>The controller\<close>

record controller =
  c_watchers :: "int64 list"
  c_nextID :: int64

definition NewWatchController :: controller where
  "NewWatchController = \<lparr>c_watchers = [], c_nextID = 0\<rparr>"

text \<open>\<open>w.watchers[w.nextID] = watcher; w.nextID++\<close>, as the set of ids with a watcher.\<close>

definition NewWatcher :: "controller \<Rightarrow> controller" where
  "NewWatcher c = \<lparr>c_watchers = List.insert (c_nextID c) (c_watchers c), c_nextID = c_nextID c + 1\<rparr>"

text \<open>A watcher's goroutine ends: \<open>delete(w.watchers, wid)\<close>.\<close>

definition watcher_done :: "int64 \<Rightarrow> controller \<Rightarrow> controller" where
  "watcher_done wid c = c\<lparr>c_watchers := removeAll wid (c_watchers c)\<rparr>"

text \<open>\<open>Close\<close> closes every watcher; each then ends.\<close>

definition close_all :: "controller \<Rightarrow> controller" where
  "close_all c = fold watcher_done (c_watchers c) c"

datatype controller_event = Open | Done int64 | CloseAll

fun controller_step :: "controller_event \<Rightarrow> controller \<Rightarrow> controller" where
  "controller_step Open c = NewWatcher c"
| "controller_step (Done wid) c = watcher_done wid c"
| "controller_step CloseAll c = close_all c"

definition controller_inv :: "nat \<Rightarrow> controller \<Rightarrow> bool" where
  "controller_inv n c \<longleftrightarrow> distinct (c_watchers c) \<and> (\<forall>wid\<in>set (c_watchers c). unat wid < unat (c_nextID c)) \<and>
     unat (c_nextID c) \<le> n"

lemma close_all_nextID: "c_nextID (fold watcher_done ids c) = c_nextID c"
  by (induction ids arbitrary: c) (simp_all add: watcher_done_def)

lemma close_all_watchers: "c_watchers (fold watcher_done ids c) = filter (\<lambda>wid. wid \<notin> set ids) (c_watchers c)"
  by (induction ids arbitrary: c) (auto simp: watcher_done_def removeAll_filter_not_eq intro: filter_cong)

lemma close_all_empty: "c_watchers (close_all c) = []"
  by (simp add: close_all_def close_all_watchers)

text \<open>Before \<open>2^64\<close> watchers were opened, a new watcher takes the id of no other.\<close>

lemma controller_inv_run:
  assumes "length es < 2 ^ 64"
  shows "controller_inv (length es) (fold controller_step es NewWatchController)"
  using assms
proof (induction es rule: rev_induct)
  case Nil
  then show ?case by (simp add: controller_inv_def NewWatchController_def)
next
  case (snoc e es)
  let ?c = "fold controller_step es NewWatchController"
  have inv: "controller_inv (length es) ?c" using snoc by simp
  show ?case
  proof (cases e)
    case Open
    have "unat (c_nextID ?c) + 1 < 2 ^ 64" using inv snoc.prems by (simp add: controller_inv_def)
    then have "unat (c_nextID ?c + 1) = unat (c_nextID ?c) + 1" by (simp add: unat_word_ariths)
    then show ?thesis using inv Open by (auto simp: controller_inv_def NewWatcher_def)
  next
    case (Done wid)
    then show ?thesis using inv by (auto simp: controller_inv_def watcher_done_def distinct_removeAll)
  next
    case CloseAll
    then show ?thesis using inv by (auto simp: controller_inv_def close_all_empty close_all_nextID close_all_def [symmetric]
        simp flip: close_all_def) (simp add: close_all_def close_all_nextID)
  qed
qed

end
