(* ===== verification/Client_State.thy ===== *)
theory Client_State
  imports Client Auth Watch
begin

text \<open>
  The rest of the client (\<open>client/client.go\<close>): the authentication operations, whose token
  lives in the metadata, the event channels, and the watch requests it repeats after a
  reconnect.
\<close>

section \<open>Authentication\<close>

text \<open>The errors of these operations are not normalized.\<close>

definition client_AuthEnable :: "'s etcd \<Rightarrow> 's etcd_auth \<Rightarrow> ('s, unit) handler" where
  "client_AuthEnable E A = and_then (rpc (AuthEnable E A ())) (\<lambda>_. ret ())"

definition client_AuthDisable :: "'s etcd \<Rightarrow> 's etcd_auth \<Rightarrow> ('s, unit) handler" where
  "client_AuthDisable E A = and_then (rpc (AuthDisable E A ())) (\<lambda>_. ret ())"

text \<open>\<open>md["token"] = []string{token}\<close> in the metadata of the context, a new one if it has none.\<close>

definition logged_in :: "string \<Rightarrow> client \<Rightarrow> client" where
  "logged_in token c =
     (let md = (case cl_MD c of None \<Rightarrow> Map.empty | Some md \<Rightarrow> md) in
      c\<lparr>cl_authToken := token, cl_MD := Some (md(''token'' \<mapsto> [token]))\<rparr>)"

definition client_Authenticate :: "'s etcd \<Rightarrow> 's etcd_auth \<Rightarrow> string \<Rightarrow> string \<Rightarrow> client \<Rightarrow> ('s, string \<times> client) handler" where
  "client_Authenticate E A username password c =
     and_then (rpc (Authenticate E A \<lparr>Authenticate_Name = username, Authenticate_Password = password\<rparr>))
       (\<lambda>resp. ret (Authenticated_Token resp, logged_in (Authenticated_Token resp) c))"

definition LogOut :: "client \<Rightarrow> client" where
  "LogOut c =
     (let md = (case cl_MD c of None \<Rightarrow> Map.empty | Some md \<Rightarrow> md) in
      c\<lparr>cl_MD := Some (md(''token'' := None))\<rparr>)"

definition client_UserAdd :: "'s etcd \<Rightarrow> 's etcd_auth \<Rightarrow> string \<Rightarrow> string \<Rightarrow> ('s, unit) handler" where
  "client_UserAdd E A username password =
     and_then (rpc (UserAdd E A \<lparr>UserAdd_Name = username, UserAdd_Password = password\<rparr>)) (\<lambda>_. ret ())"

definition client_UserGet :: "'s etcd \<Rightarrow> 's etcd_auth \<Rightarrow> string \<Rightarrow> ('s, string list) handler" where
  "client_UserGet E A username = and_then (rpc (UserGet E A username)) (\<lambda>resp. ret (Names_Names resp))"

definition client_UserList :: "'s etcd \<Rightarrow> 's etcd_auth \<Rightarrow> ('s, string list) handler" where
  "client_UserList E A = and_then (rpc (UserList E A ())) (\<lambda>resp. ret (Names_Names resp))"

definition client_UserDelete :: "'s etcd \<Rightarrow> 's etcd_auth \<Rightarrow> string \<Rightarrow> ('s, unit) handler" where
  "client_UserDelete E A username = and_then (rpc (UserDelete E A (Some username))) (\<lambda>_. ret ())"

definition client_UserChangePassword :: "'s etcd \<Rightarrow> 's etcd_auth \<Rightarrow> string \<Rightarrow> string \<Rightarrow> ('s, unit) handler" where
  "client_UserChangePassword E A username password =
     and_then (rpc (UserChangePassword E A \<lparr>ChangePassword_Name = username, ChangePassword_Password = password\<rparr>)) (\<lambda>_. ret ())"

definition client_UserGrantRole :: "'s etcd \<Rightarrow> 's etcd_auth \<Rightarrow> string \<Rightarrow> string \<Rightarrow> ('s, unit) handler" where
  "client_UserGrantRole E A username role =
     and_then (rpc (UserGrantRole E A \<lparr>GrantRole_User = username, GrantRole_Role = role\<rparr>)) (\<lambda>_. ret ())"

definition client_UserRevokeRole :: "'s etcd \<Rightarrow> 's etcd_auth \<Rightarrow> string \<Rightarrow> string \<Rightarrow> ('s, unit) handler" where
  "client_UserRevokeRole E A username role =
     and_then (rpc (UserRevokeRole E A \<lparr>RevokeRole_Name = username, RevokeRole_Role = role\<rparr>)) (\<lambda>_. ret ())"

definition client_RoleAdd :: "'s etcd \<Rightarrow> 's etcd_auth \<Rightarrow> string \<Rightarrow> ('s, unit) handler" where
  "client_RoleAdd E A role = and_then (rpc (RoleAdd E A role)) (\<lambda>_. ret ())"

definition client_RoleGet :: "'s etcd \<Rightarrow> 's etcd_auth \<Rightarrow> string \<Rightarrow> ('s, pb_Permission list) handler" where
  "client_RoleGet E A role = and_then (rpc (RoleGet E A role)) (\<lambda>resp. ret (RoleGet_Perm resp))"

definition client_RoleList :: "'s etcd \<Rightarrow> 's etcd_auth \<Rightarrow> ('s, string list) handler" where
  "client_RoleList E A = and_then (rpc (RoleList E A ())) (\<lambda>resp. ret (Names_Names resp))"

definition client_RoleDelete :: "'s etcd \<Rightarrow> 's etcd_auth \<Rightarrow> string \<Rightarrow> ('s, unit) handler" where
  "client_RoleDelete E A role = and_then (rpc (RoleDelete E A role)) (\<lambda>_. ret ())"

definition client_RoleGrantPermission :: "'s etcd \<Rightarrow> 's etcd_auth \<Rightarrow> string \<Rightarrow> pb_Permission option \<Rightarrow> ('s, unit) handler" where
  "client_RoleGrantPermission E A role perm =
     and_then (rpc (RoleGrantPermission E A \<lparr>GrantPermission_Name = role, GrantPermission_Perm = perm\<rparr>)) (\<lambda>_. ret ())"

text \<open>\<open>string(perm.Key)\<close>: the same bytes; a nil permission is dereferenced.\<close>

definition client_RoleRevokePermission :: "'s etcd \<Rightarrow> 's etcd_auth \<Rightarrow> string \<Rightarrow> pb_Permission option \<Rightarrow> ('s, unit) handler" where
  "client_RoleRevokePermission E A role perm = (case perm of
     None \<Rightarrow> panic
   | Some p \<Rightarrow> and_then (rpc (RoleRevokePermission E A \<lparr>RevokePermission_Role = role,
        RevokePermission_Key = BytesToString (Permission_Key p),
        RevokePermission_RangeEnd = BytesToString (Permission_RangeEnd p)\<rparr>)) (\<lambda>_. ret ()))"

section \<open>Event channels and watched keys\<close>

text \<open>
  The channels by id, each with the events in its buffer, the next id, and the keys to
  watch again after a reconnect.
\<close>

record client_watch =
  cw_newID :: int64
  cw_watchers :: "(int64 \<times> pb_Event list) list"
  cw_watching :: "string list"

definition NewEventChannel :: "client_watch \<Rightarrow> int64 \<times> client_watch" where
  "NewEventChannel c = (let i = cw_newID c in
     (i, c\<lparr>cw_newID := i + 1, cw_watchers := AList.update i [] (cw_watchers c)\<rparr>))"

definition CloseEventChannel :: "int64 \<Rightarrow> client_watch \<Rightarrow> client_watch" where
  "CloseEventChannel i c = c\<lparr>cw_watchers := AList.delete i (cw_watchers c)\<rparr>"

definition client_Watch :: "string \<Rightarrow> bool \<Rightarrow> pb_WatchRequest" where
  "client_Watch key pre = \<lparr>WatchRequest_Key = key, WatchRequest_Prefix = pre, WatchRequest_Rev = 0,
     WatchRequest_Id = 0, WatchRequest_Cancel = False\<rparr>"

definition client_Unwatch :: "string \<Rightarrow> bool \<Rightarrow> pb_WatchRequest" where
  "client_Unwatch key pre = \<lparr>WatchRequest_Key = key, WatchRequest_Prefix = pre, WatchRequest_Rev = 0,
     WatchRequest_Id = 0, WatchRequest_Cancel = True\<rparr>"

text \<open>The sender, after a request went out.\<close>

definition record_request :: "pb_WatchRequest \<Rightarrow> client_watch \<Rightarrow> client_watch" where
  "record_request r c =
     (let key = (if WatchRequest_Prefix r then WatchRequest_Key r @ suffixForKeysUsingPrefix else WatchRequest_Key r) in
      if WatchRequest_Cancel r then c\<lparr>cw_watching := removeAll key (cw_watching c)\<rparr>
      else c\<lparr>cw_watching := List.insert key (cw_watching c)\<rparr>)"

text \<open>
  The receiver: the event goes to every channel.  A channel holds 100 events; on a full one
  the receiver waits (\<open>None\<close>).
\<close>

definition channel_capacity :: nat where
  "channel_capacity = 100"

definition deliver :: "pb_Event \<Rightarrow> client_watch \<Rightarrow> client_watch option" where
  "deliver ev c =
     (if list_all (\<lambda>x. length (snd x) < channel_capacity) (cw_watchers c)
      then Some (c\<lparr>cw_watchers := map (\<lambda>x. (fst x, snd x @ [ev])) (cw_watchers c)\<rparr>) else None)"

text \<open>The requests sent again after a reconnect: the recorded name is sent as it is.\<close>

definition rewatch :: "client_watch \<Rightarrow> pb_WatchRequest list" where
  "rewatch c = map (\<lambda>key. client_Watch key (HasSuffix key suffixForKeysUsingPrefix)) (cw_watching c)"

section \<open>Facts\<close>

text \<open>The client records a request under the name the server knows it by.\<close>

lemma record_request_RequestID:
  "record_request r c = (if WatchRequest_Cancel r then c\<lparr>cw_watching := removeAll (RequestID r) (cw_watching c)\<rparr>
     else c\<lparr>cw_watching := List.insert (RequestID r) (cw_watching c)\<rparr>)"
  by (simp add: record_request_def RequestID_def Let_def)

lemma rewatch_plain:
  "\<not> HasSuffix key suffixForKeysUsingPrefix \<Longrightarrow>
     rewatch (c\<lparr>cw_watching := [RequestID (client_Watch key False)]\<rparr>) = [client_Watch key False]"
  by (simp add: rewatch_def RequestID_def client_Watch_def)

lemma suffix_not_Nil [simp]: "suffixForKeysUsingPrefix \<noteq> []"
  by (simp add: suffixForKeysUsingPrefix_def)

text \<open>A prefix watch comes back as a watch of the name with the suffix left on.\<close>

lemma rewatch_prefix:
  "rewatch (c\<lparr>cw_watching := [RequestID (client_Watch key True)]\<rparr>) =
     [client_Watch (key @ suffixForKeysUsingPrefix) True]"
  by (simp add: rewatch_def RequestID_def client_Watch_def HasSuffix_iff suffix_def)

lemma rewatch_prefix_lost:
  assumes "\<not> HasPrefix k (key @ suffixForKeysUsingPrefix)"
  shows "\<not> watches_key k (client_Watch (key @ suffixForKeysUsingPrefix) True)"
  using assms by (auto simp: watches_key_def client_Watch_def HasPrefix_iff)

lemma SetLockTimeout_drops_token:
  "cl_MD (SetLockTimeout secs (logged_in token c)) = Some md \<Longrightarrow> md ''token'' = None"
  by (auto simp: SetLockTimeout_def Let_def)

lemma LogOut_logged_in:
  "cl_MD (LogOut (logged_in token c)) = Some ((case cl_MD c of None \<Rightarrow> Map.empty | Some md \<Rightarrow> md)(''token'' := None))"
  by (auto simp: LogOut_def logged_in_def Let_def)

end
