(* ===== verification/Parse_Float.thy ===== *)
theory Parse_Float
  imports Float64 Server_Lock
begin

text \<open>
  \<open>strconv.ParseFloat(s, 64)\<close> on decimal numbers: a sign, digits with at most one point, and
  an exponent, rounded to the nearest double, ties to even; the names of infinity and NaN
  in any letter case.  \<open>None\<close> is a syntax error or a number out of range.
\<close>

section \<open>Reading the text\<close>

definition is_digit :: "char \<Rightarrow> bool" where
  "is_digit c \<longleftrightarrow> CHR ''0'' \<le> c \<and> c \<le> CHR ''9''"

definition digit :: "char \<Rightarrow> nat" where
  "digit c = of_char c - 48"

text \<open>The number that a digit string continues.\<close>

definition digits_value :: "nat \<Rightarrow> string \<Rightarrow> nat" where
  "digits_value n ds = foldl (\<lambda>n c. 10 * n + digit c) n ds"

text \<open>A mantissa \<open>n\<close> and its decimal exponent, and what is left of the text.\<close>

definition read_mantissa :: "string \<Rightarrow> (nat \<times> int \<times> string) option" where
  "read_mantissa s =
     (let ip = takeWhile is_digit s; rest = dropWhile is_digit s in
      case rest of
        CHR ''.'' # rest' \<Rightarrow>
          (let fp = takeWhile is_digit rest' in
           if ip = [] \<and> fp = [] then None
           else Some (digits_value (digits_value 0 ip) fp, - int (length fp), dropWhile is_digit rest'))
      | _ \<Rightarrow> if ip = [] then None else Some (digits_value 0 ip, 0, rest))"

definition read_exponent :: "string \<Rightarrow> int option" where
  "read_exponent s = (case s of
     [] \<Rightarrow> Some 0
   | e # rest \<Rightarrow>
       if e \<noteq> CHR ''e'' \<and> e \<noteq> CHR ''E'' then None
       else let neg = (rest \<noteq> [] \<and> hd rest = CHR ''-'');
                ds = (if rest \<noteq> [] \<and> (hd rest = CHR ''-'' \<or> hd rest = CHR ''+'') then tl rest else rest)
            in if ds = [] \<or> \<not> list_all is_digit ds then None
               else Some (if neg then - int (digits_value 0 ds) else int (digits_value 0 ds)))"

section \<open>Rounding a quotient\<close>

text \<open>
  The bits of the double nearest to \<open>p / q\<close> units of \<open>2^-1074\<close>, as \<open>encode\<close> finds them for
  a whole number of units.
\<close>

definition encode_quot :: "nat \<Rightarrow> nat \<Rightarrow> nat" where
  "encode_quot p q =
     (let d = dropped (p div q); qd = q * 2 ^ d; m = p div qd; r = p mod qd
      in d * 2 ^ 52 + (if qd < 2 * r \<or> (2 * r = qd \<and> odd m) then m + 1 else m))"

definition float_of_decimal :: "bool \<Rightarrow> nat \<Rightarrow> int \<Rightarrow> float64 option" where
  "float_of_decimal neg n e =
     (let bits = (if e < 0 then encode_quot (n * 2 ^ 1074) (10 ^ nat (- e)) else encode_quot (n * 2 ^ 1074 * 10 ^ nat e) 1)
      in if 2047 * 2 ^ 52 \<le> bits then None else Some (with_sign neg bits))"

definition special_float :: "string \<Rightarrow> float64 option" where
  "special_float s = map_of
     [(''nan'', 0x7FF8000000000001), (''inf'', 0x7FF0000000000000), (''+inf'', 0x7FF0000000000000),
      (''infinity'', 0x7FF0000000000000), (''+infinity'', 0x7FF0000000000000),
      (''-inf'', 0xFFF0000000000000), (''-infinity'', 0xFFF0000000000000)]
     (map (\<lambda>c. if CHR ''A'' \<le> c \<and> c \<le> CHR ''Z'' then char_of (of_char c + 32 :: nat) else c) s)"

definition ParseFloat :: "string \<Rightarrow> float64 option" where
  "ParseFloat s = (case special_float s of
     Some x \<Rightarrow> Some x
   | None \<Rightarrow>
       let neg = (s \<noteq> [] \<and> hd s = CHR ''-'');
           t = (if s \<noteq> [] \<and> (hd s = CHR ''-'' \<or> hd s = CHR ''+'') then tl s else s)
       in case read_mantissa t of
            None \<Rightarrow> None
          | Some (n, e, rest) \<Rightarrow>
              (case read_exponent rest of None \<Rightarrow> None | Some e' \<Rightarrow> float_of_decimal neg n (e + e')))"

section \<open>Facts\<close>

lemma encode_quot_whole:
  assumes "encode n < 2047 * 2 ^ 52"
  shows "encode_quot n 1 = encode n"
proof -
  have "encode n = dropped n * 2 ^ 52 + round_even n (dropped n)"
    using assms unfolding encode_def by (simp add: min_def split: if_splits)
  then show ?thesis by (simp add: encode_quot_def round_even_def Let_def)
qed

end
