(* ===== verification/Cli.thy ===== *)
theory Cli
  imports Client_State Parse_Float
begin

text \<open>
  The command line client (\<open>cli/cli.go\<close>): the interpreter of one command, the prompt, and
  what they print.  The operations it calls are those of \<open>Client\<close> and \<open>Client_State\<close>.
\<close>

section \<open>What is printed\<close>

text \<open>The arguments of one \<open>fmt.Println\<close>, before it formats them.\<close>

datatype printed = PStr string | PBool bool | PInt int64 | PFloat float64 | PValue Value

type_synonym line = "printed list"

definition displayList :: "string list \<Rightarrow> line list" where
  "displayList result = (if result = [] then [[PStr []]] else []) @ map (\<lambda>val. [PStr val]) result"

text \<open>\<open>s, _ := val.String()\<close>\<close>

definition displayValList :: "Value list \<Rightarrow> line list" where
  "displayValList result = (if result = [] then [[PStr []]] else []) @
     map (\<lambda>val. [PStr (case Value_String val of Inl _ \<Rightarrow> [] | Inr s \<Rightarrow> s)]) result"

text \<open>The whole value is printed, not its string.\<close>

definition displayMap :: "Value gomap \<Rightarrow> line list" where
  "displayMap result = (if map_entries result = [] then [[PStr []]] else []) @
     map (\<lambda>key. [PStr (key @ '':''), PValue (case map_get result key of Some v \<Rightarrow> v | None \<Rightarrow> newValue_b [])])
       (sort (map fst (map_entries result)))"

definition max_perm_len :: "pb_Permission list \<Rightarrow> nat" where
  "max_perm_len result = fold (\<lambda>perm n. if n < length (Permission_Key perm) then length (Permission_Key perm) + 1 else n) result 0"

definition displayPerms :: "pb_Permission list \<Rightarrow> line list" where
  "displayPerms result = (if result = [] then [[PStr []]] else []) @
     map (\<lambda>perm.
       let key = BytesToString (Permission_Key perm) @ (if Permission_RangeEnd perm = ZeroByte then ''*'' else []);
           padding = replicate (max_perm_len result - length key) (CHR '' '')
       in [PStr (key @ padding), PStr '':'', PStr (Permission_Type_name (Permission_PermType perm))]) result"

definition help_table :: "(string \<times> string \<times> string) list" where
  "help_table =
     [(''KEYS'', ''KEYS'',
         ''Get a list of keys in the cache''),
      (''KEYSWITHPREFIX'', ''KEYSWITHPREFIX key'',
         ''Get a list of keys with the given prefix''),
      (''HAS'', ''HAS key'',
         ''Checks if the cache has the given key''),
      (''SETEXPIRE'', ''SETEXPIRE key duration'',
         ''Sets the expiration on a key''),
      (''DELETE'', ''DELETE key'',
         ''Delete a key from the cache''),
      (''CLEAR'', ''CLEAR'',
         ''Clear the cache''),
      (''GET'', ''GET key'',
         ''Get a string from the cache''),
      (''SET'', ''SET key value'',
         ''Set a string in the cache''),
      (''SETNX'', ''SETNX key value'',
         ''Set a string in the cache only if the key doesn'' @ [CHR 0x27] @ ''t already exist''),
      (''SETINT'', ''SETINT key int'',
         ''Set an integeer in the cache''),
      (''SETFLOAT'', ''SETFLOAT key float'',
         ''Set a float in the cache''),
      (''INCREMENTINT'', ''INCREMENTINT key by'',
         ''Increment an integer by the given number and return the result''),
      (''DECREMENTINT'', ''DECREMENTINT key by'',
         ''Decrement an integer by the given number and return the result''),
      (''INCREMENTFLOAT'', ''INCREMENTFLOAT key by'',
         ''Increment a float by the given number and return the result''),
      (''DECREMENTFLOAT'', ''DECREMENTFLOAT key by'',
         ''Decrement a float by the given number and return the result''),
      (''GETLISTITEM'', ''GETLISTITEM key index'',
         ''Get a single item from a list by index''),
      (''SETLISTITEM'', ''SETLISTITEM key index value'',
         ''Set a single item in a list by index''),
      (''LISTLIMIT'', ''LISTLIMIT key limit'',
         ''Set the maximum length of a list, removing items from the top once reached''),
      (''LISTLENGTH'', ''LISTLENGTH key'',
         ''Get the number of items in a list''),
      (''LISTINSERT'', ''LISTINSERT key index value'',
         ''Insert a new item to a list at the given index''),
      (''LISTAPPEND'', ''LISTAPPEND key value'',
         ''Insert a new item at the end of the list''),
      (''LISTPOPLEFT'', ''LISTPOPLEFT key'',
         ''Returns and removes the first item in a list''),
      (''LISTPOPLEFTBLK'', ''LISTPOPLEFTBLK key seconds'',
         ''Returns and removes the first item in a list or waits the given seconds for a new value''),
      (''LISTPOPRIGHT'', ''LISTPOPRIGHT key'',
         ''Returns and removes the last item in a list''),
      (''LISTPOPRIGHTBLK'', ''LISTPOPRIGHTBLK key seconds'',
         ''Returns and removes the last item in a list or waits the given seconds for a new value''),
      (''LISTHAS'', ''LISTHAS key value'',
         ''Determines if a list contains an item''),
      (''LISTDELETE'', ''LISTDELETE key index'',
         ''Removes an item from a list by index''),
      (''LISTDELETEITEM'', ''LISTDELETEITEM key value'',
         ''Removes first occurance of value from a list, returns index of removed item or -1 for not found''),
      (''GETHASHFIELD'', ''GETHASHFIELD key field'',
         ''Get a single value from a hash''),
      (''HASHHAS'', ''HASHHAS key field'',
         ''Determines if a hash has a given field''),
      (''HASHFIELDS'', ''HASHFIELDS key'',
         ''Get a list of the fields in a hash''),
      (''HASHVALUES'', ''HASHVALUES key'',
         ''Get a list of the values in a hash''),
      (''SETHASHFIELD'', ''SETHASHFIELD key field value'',
         ''Set a single value in a hash''),
      (''DELHASHFIELD'', ''DELHASHFIELD key field'',
         ''Delete a field from a hash''),
      (''LOCK'', ''LOCK key'',
         ''Lock a key''),
      (''LOCKWITHTIMEOUT'', ''LOCKWITHTIMEOUT key seconds'',
         ''Lock a key with custom timeout''),
      (''UNLOCK'', ''UNLOCK key'',
         ''Unlock a key''),
      (''SETLOCKTIMEOUT'', ''SETLOCKTIMEOUT seconds'',
         ''Set the default lock timeout''),
      (''WATCH'', ''WATCH key'',
         ''Watch for changes to a key''),
      (''UNWATCH'', ''UNWATCH key'',
         ''Unwatch for changes to a key''),
      (''AUTHENABLE'', ''AUTHENABLE'',
         ''Enable authentication''),
      (''AUTHDISABLE'', ''AUTHDISABLE'',
         ''Disable authentication''),
      (''AUTHENTICATE'', ''AUTHENTICATE username password'',
         ''Authenticate a user''),
      (''USERADD'', ''USERADD username password'',
         ''Add a new user''),
      (''USERGET'', ''USERGET username'',
         ''Get detailed user information''),
      (''USERLIST'', ''USERLIST'',
         ''Get list of all users''),
      (''USERDELETE'', ''USERDELETE username'',
         ''Delete a specific user''),
      (''USERCHANGEPASS'', ''USERCHANGEPASS username password'',
         ''Change the password for a user''),
      (''USERGRANTROLE'', ''USERGRANTROLE username role'',
         ''Grant a role to a user''),
      (''USERREVOKEROLE'', ''USERREVOKEROLE username role'',
         ''Revoke a role from a user''),
      (''ROLEADD'', ''ROLEADD role'',
         ''Add a new role''),
      (''ROLEGET'', ''ROLEGET role'',
         ''Get detailed information for a role''),
      (''ROLELIST'', ''ROLELIST'',
         ''Returns a list of roles''),
      (''ROLEDELETE'', ''ROLEDELETE role'',
         ''Delete a role''),
      (''ROLEGRANTPERM'', ''ROLEGRANTPERM role key permType'',
         ''Grant a permission to a role, key can end with '' @ [CHR 0x27] @ ''*'' @ [CHR 0x27] @ '', permType can be one of: READ, WRITE, READWRITE''),
      (''ROLEREVOKEPERM'', ''ROLEREVOKEPERM role key permType'',
         ''Revoke a permission from a role, key can end with '' @ [CHR 0x27] @ ''*'' @ [CHR 0x27] @ '', permType can be one of: READ, WRITE, READWRITE'')]"

definition displayHelp :: "(string \<times> string \<times> string) list \<Rightarrow> line list" where
  "displayHelp result =
     [PStr ''Commands:''] #
     concat (map (\<lambda>name. case map_of result name of
         Some (usage, desc) \<Rightarrow>
           [[PStr name], [PStr (CHR 0x09 # ''Usage:''), PStr usage], [PStr (CHR 0x09 # ''Desc: ''), PStr desc]]
       | None \<Rightarrow> []) (sort (map fst result))) @
     [[PStr (CHR 0x0A # ''Additional Commands:'')], [PStr ''QUIT''], [PStr (CHR 0x09 # ''Usage: QUIT'')],
      [PStr (CHR 0x09 # ''Desc: Quit program'')]]"

text \<open>The line an event prints.\<close>

definition EventType_name :: "pb_EventType \<Rightarrow> string" where
  "EventType_name t = (case t of Event_PUT \<Rightarrow> ''PUT'' | Event_DELETE \<Rightarrow> ''DELETE'')"

definition event_line :: "pb_Event \<Rightarrow> line" where
  "event_line e =
     (let t = EventType_name (Event_Type e); cur = Event_Current e in
      if 0 < length (ByteValue_Value cur)
      then [PStr ''EVENT'', PStr t, PStr (ByteValue_Key cur), PStr (BytesToString (ByteValue_Value cur))]
      else [PStr ''EVENT'', PStr t, PStr (ByteValue_Key cur)])"

section \<open>Running a command\<close>

text \<open>The errors a command can end in; \<open>Failed\<close> is one of a client operation.\<close>

datatype cli_error =
    NotEnoughArgs
  | UnknownCommand string
  | UnrecognizedPermType string
  | NumError string
  | QuitEOF
  | Failed go_error

text \<open>
  The client, the watch requests it sent, and whether it was closed; and the outcome of a
  command: what it printed, the error it returned, and the client afterwards.
\<close>

record cli =
  cli_client :: client
  cli_requests :: "pb_WatchRequest list"
  cli_closed :: bool

type_synonym cli_outcome = "line list \<times> cli_error option \<times> cli"

text \<open>The three ways a branch ends: \<open>return err\<close>, \<open>return client.F(...)\<close>, and printing a result.\<close>

definition return_err :: "cli \<Rightarrow> cli_error \<Rightarrow> ('s, cli_outcome) handler" where
  "return_err c e = ret ([], Some e, c)"

definition return_call :: "cli \<Rightarrow> ('s, unit) handler \<Rightarrow> ('s, cli_outcome) handler" where
  "return_call c m = and_then (attempt m) (\<lambda>r. ret ([], (case r of Inl e \<Rightarrow> Some (Failed e) | Inr _ \<Rightarrow> None), c))"

definition print_call :: "cli \<Rightarrow> ('a \<Rightarrow> line list) \<Rightarrow> ('s, 'a) handler \<Rightarrow> ('s, cli_outcome) handler" where
  "print_call c display m = and_then (attempt m)
     (\<lambda>r. ret (case r of Inl e \<Rightarrow> ([], Some (Failed e), c) | Inr x \<Rightarrow> (display x, None, c)))"

text \<open>\<open>client.F(...).String()\<close>\<close>

definition value_string :: "('s, Value) handler \<Rightarrow> ('s, string) handler" where
  "value_string m = and_then m (\<lambda>v. case Value_String v of Inl e \<Rightarrow> throw e | Inr s \<Rightarrow> ret s)"

text \<open>\<open>if len(args) >= n { ... }; return errNotEnoughArgs\<close>\<close>

definition need1 :: "cli \<Rightarrow> string list \<Rightarrow> (string \<Rightarrow> ('s, cli_outcome) handler) \<Rightarrow> ('s, cli_outcome) handler" where
  "need1 c args f = (case args of a # _ \<Rightarrow> f a | [] \<Rightarrow> return_err c NotEnoughArgs)"

definition need2 :: "cli \<Rightarrow> string list \<Rightarrow> (string \<Rightarrow> string \<Rightarrow> ('s, cli_outcome) handler) \<Rightarrow> ('s, cli_outcome) handler" where
  "need2 c args f = (case args of a # b # _ \<Rightarrow> f a b | _ \<Rightarrow> return_err c NotEnoughArgs)"

definition need3 :: "cli \<Rightarrow> string list \<Rightarrow> (string \<Rightarrow> string \<Rightarrow> string \<Rightarrow> ('s, cli_outcome) handler) \<Rightarrow>
    ('s, cli_outcome) handler" where
  "need3 c args f = (case args of a # b # d # _ \<Rightarrow> f a b d | _ \<Rightarrow> return_err c NotEnoughArgs)"

text \<open>\<open>i, err := strconv.ParseInt(arg, 10, 64); if err != nil { return err }\<close>\<close>

definition with_int :: "cli \<Rightarrow> string \<Rightarrow> (int64 \<Rightarrow> ('s, cli_outcome) handler) \<Rightarrow> ('s, cli_outcome) handler" where
  "with_int c arg f = (case ParseInt arg of None \<Rightarrow> return_err c (NumError arg) | Some i \<Rightarrow> f i)"

definition with_float :: "cli \<Rightarrow> string \<Rightarrow> (float64 \<Rightarrow> ('s, cli_outcome) handler) \<Rightarrow> ('s, cli_outcome) handler" where
  "with_float c arg f = (case ParseFloat arg of None \<Rightarrow> return_err c (NumError arg) | Some x \<Rightarrow> f x)"

section \<open>The commands\<close>

text \<open>
  The chain of \<open>if cmd == ...\<close> in its order, cut into groups: a group has no branch for a
  command (\<open>None\<close>) or the branch's outcome.
\<close>

definition key_command :: "'s etcd \<Rightarrow> codec \<Rightarrow> cli \<Rightarrow> string \<Rightarrow> string list \<Rightarrow> ('s, cli_outcome) handler option" where
  "key_command E C c cmd args =
     (if cmd = ''QUIT'' then Some (ret ([], Some QuitEOF, c\<lparr>cli_closed := True\<rparr>))
      else if cmd = ''HELP'' then Some (ret (displayHelp help_table, None, c))
      else if cmd = ''KEYS'' then Some (print_call c displayList (client_Keys E))
      else if cmd = ''KEYSWITHPREFIX'' then
        Some (print_call c displayList (client_KeysWithPrefix E (case args of a # _ \<Rightarrow> a | [] \<Rightarrow> [])))
      else if cmd = ''HAS'' then
        Some (need1 c args (\<lambda>key. print_call c (\<lambda>b. [[PBool b]]) (client_Has E key)))
      else if cmd = ''SETEXPIRE'' then
        Some (need2 c args (\<lambda>key d. with_int c d (\<lambda>d. return_call c (client_SetExpire E key d))))
      else if cmd = ''DELETE'' then Some (need1 c args (\<lambda>key. return_call c (client_Delete E (cli_client c) key)))
      else if cmd = ''CLEAR'' then Some (return_call c (client_Clear E))
      else None)"

text \<open>\<open>SETNX\<close> prints its result and then returns the error of missing arguments.\<close>

definition value_command :: "'s etcd \<Rightarrow> codec \<Rightarrow> cli \<Rightarrow> string \<Rightarrow> string list \<Rightarrow> ('s, cli_outcome) handler option" where
  "value_command E C c cmd args =
     (if cmd = ''GET'' then
        Some (need1 c args (\<lambda>key. print_call c (\<lambda>s. [[PStr s]]) (value_string (client_Get E key))))
      else if cmd = ''GETMANY'' then
        Some (need1 c args (\<lambda>_. print_call c displayMap (client_GetMany E args)))
      else if cmd = ''SET'' then
        Some (need2 c args (\<lambda>key v. return_call c (client_Set E C (cli_client c) key (AnyString v))))
      else if cmd = ''SETNX'' then
        Some (need2 c args (\<lambda>key v. and_then (attempt (client_SetNX E C (cli_client c) key (AnyString v)))
          (\<lambda>r. ret (case r of Inl e \<Rightarrow> ([], Some (Failed e), c) | Inr b \<Rightarrow> ([[PBool b]], Some NotEnoughArgs, c)))))
      else if cmd = ''SETINT'' then
        Some (need2 c args (\<lambda>key v. with_int c v (\<lambda>i. return_call c (client_Set E C (cli_client c) key (AnyInt i)))))
      else if cmd = ''SETFLOAT'' then
        Some (need2 c args (\<lambda>key v. with_float c v (\<lambda>x. return_call c (client_Set E C (cli_client c) key (AnyFloat64 x)))))
      else if cmd = ''INCREMENTINT'' then
        Some (need2 c args (\<lambda>key v. with_int c v (\<lambda>i.
          print_call c (\<lambda>i. [[PInt i]]) (client_IncrementInt E C (cli_client c) key i))))
      else if cmd = ''DECREMENTINT'' then
        Some (need2 c args (\<lambda>key v. with_int c v (\<lambda>i.
          print_call c (\<lambda>i. [[PInt i]]) (client_DecrementInt E C (cli_client c) key i))))
      else if cmd = ''INCREMENTFLOAT'' then
        Some (need2 c args (\<lambda>key v. with_float c v (\<lambda>x.
          print_call c (\<lambda>x. [[PFloat x]]) (client_IncrementFloat E C (cli_client c) key x))))
      else if cmd = ''DECREMENTFLOAT'' then
        Some (need2 c args (\<lambda>key v. with_float c v (\<lambda>x.
          print_call c (\<lambda>x. [[PFloat x]]) (client_DecrementFloat E C (cli_client c) key x))))
      else None)"

definition list_command :: "'s etcd \<Rightarrow> codec \<Rightarrow> cli \<Rightarrow> string \<Rightarrow> string list \<Rightarrow> ('s, cli_outcome) handler option" where
  "list_command E C c cmd args =
     (if cmd = ''GETLISTITEM'' then
        Some (need2 c args (\<lambda>key i. with_int c i (\<lambda>i.
          print_call c (\<lambda>s. [[PStr s]]) (value_string (client_GetListItem E C key i)))))
      else if cmd = ''SETLISTITEM'' then
        Some (need3 c args (\<lambda>key i v. with_int c i (\<lambda>i.
          return_call c (client_SetListItem E C (cli_client c) key i (AnyString v)))))
      else if cmd = ''LISTLIMIT'' then
        Some (need2 c args (\<lambda>key i. with_int c i (\<lambda>i. return_call c (client_ListLimit E C (cli_client c) key i))))
      else if cmd = ''LISTLENGTH'' then
        Some (need1 c args (\<lambda>key. print_call c (\<lambda>i. [[PInt i]]) (client_ListLength E C key)))
      else if cmd = ''LISTINSERT'' then
        Some (need3 c args (\<lambda>key i v. with_int c i (\<lambda>i.
          return_call c (client_ListInsert E C (cli_client c) key i (AnyString v)))))
      else if cmd = ''LISTAPPEND'' then
        Some (need2 c args (\<lambda>key v. return_call c (client_ListAppend E C (cli_client c) key (AnyString v))))
      else if cmd = ''LISTPOPLEFT'' then
        Some (need1 c args (\<lambda>key. print_call c (\<lambda>s. [[PStr s]]) (value_string (client_ListPopLeft E C (cli_client c) key))))
      else if cmd = ''LISTPOPLEFTBLK'' then
        Some (need2 c args (\<lambda>key t. with_int c t (\<lambda>t.
          print_call c (\<lambda>s. [[PStr s]]) (value_string (client_ListPopLeftBlock E C (cli_client c) key t)))))
      else if cmd = ''LISTPOPRIGHT'' then
        Some (need1 c args (\<lambda>key. print_call c (\<lambda>s. [[PStr s]]) (value_string (client_ListPopRight E C (cli_client c) key))))
      else if cmd = ''LISTPOPRIGHTBLK'' then
        Some (need2 c args (\<lambda>key t. with_int c t (\<lambda>t.
          print_call c (\<lambda>s. [[PStr s]]) (value_string (client_ListPopRightBlock E C (cli_client c) key t)))))
      else if cmd = ''LISTHAS'' then
        Some (need2 c args (\<lambda>key v. print_call c (\<lambda>i. [[PInt i]]) (client_ListHas E C key (AnyString v))))
      else if cmd = ''LISTDELETE'' then
        Some (need2 c args (\<lambda>key i. with_int c i (\<lambda>i. return_call c (client_ListDelete E C (cli_client c) key i))))
      else if cmd = ''LISTDELETEITEM'' then
        Some (need2 c args (\<lambda>key v. print_call c (\<lambda>i. [[PInt i]]) (client_ListDeleteItem E C (cli_client c) key (AnyString v))))
      else None)"

text \<open>\<open>SETHASHFIELD\<close> takes its second argument for the key as well.\<close>

definition hash_command :: "'s etcd \<Rightarrow> codec \<Rightarrow> cli \<Rightarrow> string \<Rightarrow> string list \<Rightarrow> ('s, cli_outcome) handler option" where
  "hash_command E C c cmd args =
     (if cmd = ''GETHASHFIELD'' then
        Some (need2 c args (\<lambda>key f. print_call c (\<lambda>s. [[PStr s]]) (value_string (client_GetHashField E C key f))))
      else if cmd = ''HASHHAS'' then
        Some (need2 c args (\<lambda>key f. print_call c (\<lambda>b. [[PBool b]]) (client_HashHas E C key f)))
      else if cmd = ''HASHFIELDS'' then
        Some (need1 c args (\<lambda>key. print_call c displayList (client_HashFields E C key)))
      else if cmd = ''HASHVALUES'' then
        Some (need1 c args (\<lambda>key. print_call c displayValList (client_HashValues E C key)))
      else if cmd = ''SETHASHFIELD'' then
        Some (need3 c args (\<lambda>_ f v. return_call c (client_SetHashField E C (cli_client c) f f (AnyString v))))
      else if cmd = ''DELHASHFIELD'' then
        Some (need2 c args (\<lambda>key f. return_call c (client_DelHashField E C (cli_client c) key f)))
      else if cmd = ''SETLOCKTIMEOUT'' then
        Some (need1 c args (\<lambda>d. with_int c d (\<lambda>d.
          ret ([], None, c\<lparr>cli_client := SetLockTimeout d (cli_client c)\<rparr>))))
      else if cmd = ''WATCH'' then
        Some (need1 c args (\<lambda>key. ret ([], None, c\<lparr>cli_requests := cli_requests c @ [client_Watch key False]\<rparr>)))
      else if cmd = ''UNWATCH'' then
        Some (need1 c args (\<lambda>key. ret ([], None, c\<lparr>cli_requests := cli_requests c @ [client_Unwatch key False]\<rparr>)))
      else None)"

end
