(* ===== verification/Cli_Auth.thy ===== *)
theory Cli_Auth
  imports Cli
begin

text \<open>
  The commands for users and roles, the whole interpreter of one command, the prompt and
  the start of the command line client (\<open>cli/cli.go\<close>).
\<close>

section \<open>Users and roles\<close>

text \<open>A permission type that is not known ends the command before the call.\<close>

definition with_perm :: "cli \<Rightarrow> string \<Rightarrow> string \<Rightarrow> (pb_Permission \<Rightarrow> ('s, cli_outcome) handler) \<Rightarrow>
    ('s, cli_outcome) handler" where
  "with_perm c key permName f = (case GetPermission key permName of
     None \<Rightarrow> return_err c (UnrecognizedPermType permName) | Some perm \<Rightarrow> f perm)"

definition user_command :: "'s etcd \<Rightarrow> 's etcd_auth \<Rightarrow> cli \<Rightarrow> string \<Rightarrow> string list \<Rightarrow> ('s, cli_outcome) handler option" where
  "user_command E A c cmd args =
     (if cmd = ''AUTHENABLE'' then Some (return_call c (client_AuthEnable E A))
      else if cmd = ''AUTHDISABLE'' then Some (return_call c (client_AuthDisable E A))
      else if cmd = ''AUTHENTICATE'' then
        Some (need2 c args (\<lambda>user password. and_then (attempt (client_Authenticate E A user password (cli_client c)))
          (\<lambda>r. ret (case r of Inl e \<Rightarrow> ([], Some (Failed e), c) | Inr (token, cl) \<Rightarrow> ([], None, c\<lparr>cli_client := cl\<rparr>)))))
      else if cmd = ''USERADD'' then
        Some (need2 c args (\<lambda>user password. return_call c (client_UserAdd E A user password)))
      else if cmd = ''USERGET'' then
        Some (need1 c args (\<lambda>user. print_call c displayList (client_UserGet E A user)))
      else if cmd = ''USERLIST'' then Some (print_call c displayList (client_UserList E A))
      else if cmd = ''USERDELETE'' then
        Some (need1 c args (\<lambda>user. return_call c (client_UserDelete E A user)))
      else if cmd = ''USERCHANGEPASS'' then
        Some (need2 c args (\<lambda>user password. return_call c (client_UserChangePassword E A user password)))
      else if cmd = ''USERGRANTROLE'' then
        Some (need2 c args (\<lambda>user role. return_call c (client_UserGrantRole E A user role)))
      else if cmd = ''USERREVOKEROLE'' then
        Some (need2 c args (\<lambda>user role. return_call c (client_UserRevokeRole E A user role)))
      else None)"

definition role_command :: "'s etcd \<Rightarrow> 's etcd_auth \<Rightarrow> cli \<Rightarrow> string \<Rightarrow> string list \<Rightarrow> ('s, cli_outcome) handler option" where
  "role_command E A c cmd args =
     (if cmd = ''ROLEADD'' then Some (need1 c args (\<lambda>role. return_call c (client_RoleAdd E A role)))
      else if cmd = ''ROLEGET'' then
        Some (need1 c args (\<lambda>role. print_call c displayPerms (client_RoleGet E A role)))
      else if cmd = ''ROLELIST'' then Some (print_call c displayList (client_RoleList E A))
      else if cmd = ''ROLEDELETE'' then Some (need1 c args (\<lambda>role. return_call c (client_RoleDelete E A role)))
      else if cmd = ''ROLEGRANTPERM'' then
        Some (need3 c args (\<lambda>role key permType. with_perm c key permType (\<lambda>perm.
          return_call c (client_RoleGrantPermission E A role (Some perm)))))
      else if cmd = ''ROLEREVOKEPERM'' then
        Some (need3 c args (\<lambda>role key permType. with_perm c key permType (\<lambda>perm.
          return_call c (client_RoleRevokePermission E A role (Some perm)))))
      else None)"

section \<open>One command\<close>

text \<open>The groups in the order of the chain: the next one is tried when one has no branch.\<close>

definition or_else :: "'a option \<Rightarrow> 'a option \<Rightarrow> 'a option" where
  "or_else x y = (case x of Some m \<Rightarrow> Some m | None \<Rightarrow> y)"

definition find_command :: "'s etcd \<Rightarrow> codec \<Rightarrow> 's etcd_auth \<Rightarrow> cli \<Rightarrow> string \<Rightarrow> string list \<Rightarrow>
    ('s, cli_outcome) handler option" where
  "find_command E C A c cmd args =
     or_else (key_command E C c cmd args) (or_else (value_command E C c cmd args)
     (or_else (list_command E C c cmd args) (or_else (hash_command E C c cmd args)
     (or_else (user_command E A c cmd args) (role_command E A c cmd args)))))"

definition command :: "'s etcd \<Rightarrow> codec \<Rightarrow> 's etcd_auth \<Rightarrow> cli \<Rightarrow> string \<Rightarrow> string list \<Rightarrow> ('s, cli_outcome) handler" where
  "command E C A c cmd args = (case find_command E C A c cmd args of
     Some m \<Rightarrow> m | None \<Rightarrow> return_err c (UnknownCommand cmd))"

section \<open>The prompt\<close>

text \<open>
  \<open>bufio.NewReader(os.Stdin).ReadString\<close>: standard input is the list of what its successive
  reads return, then it has ended.  Each prompt makes a new reader, so what the last read
  returned after the newline goes with it; a line cut off by the end is lost with the error.
\<close>

fun ReadString :: "string list \<Rightarrow> string option \<times> string list" where
  "ReadString [] = (None, [])"
| "ReadString (chunk # stdin) =
     (if CHR 0x0A \<in> set chunk then (Some (takeWhile (\<lambda>x. x \<noteq> CHR 0x0A) chunk @ [CHR 0x0A]), stdin)
      else let (s, rest) = ReadString stdin in (map_option (\<lambda>s. chunk @ s) s, rest))"

text \<open>\<open>strings.Split(s, " ")\<close>\<close>

fun Split :: "string \<Rightarrow> string list" where
  "Split [] = [[]]"
| "Split (x # s) = (if x = CHR '' '' then [] # Split s
     else case Split s of w # ws \<Rightarrow> (x # w) # ws | [] \<Rightarrow> [[x]])"

text \<open>What a prompt prints, the error it writes to standard error, and whether the program goes on.\<close>

record prompted =
  p_lines :: "line list"
  p_error :: "cli_error option"
  p_exit :: bool
  p_cli :: cli

definition prompt :: "'s etcd \<Rightarrow> codec \<Rightarrow> 's etcd_auth \<Rightarrow> cli \<Rightarrow> string list \<Rightarrow> ('s, prompted \<times> string list) handler" where
  "prompt E C A c stdin = (case ReadString stdin of
     (None, stdin) \<Rightarrow> ret (\<lparr>p_lines = [], p_error = Some QuitEOF, p_exit = False, p_cli = c\<rparr>, stdin)
   | (Some s, stdin) \<Rightarrow>
       let s = TrimSpace s in
       if length s = 0 then ret (\<lparr>p_lines = [], p_error = None, p_exit = False, p_cli = c\<rparr>, stdin)
       else let args = Split s; cmd = ToUpper (hd args) in
         and_then (command E C A c cmd (tl args)) (\<lambda>(lines, err, c).
           ret (case err of
             Some QuitEOF \<Rightarrow> \<lparr>p_lines = lines, p_error = None, p_exit = True, p_cli = c\<rparr>
           | _ \<Rightarrow> \<lparr>p_lines = lines, p_error = err, p_exit = False, p_cli = c\<rparr>, stdin)))"

text \<open>\<open>for prompt(client) {}\<close>, \<open>n\<close> rounds of it.\<close>

fun prompts :: "nat \<Rightarrow> 's etcd \<Rightarrow> codec \<Rightarrow> 's etcd_auth \<Rightarrow> cli \<Rightarrow> string list \<Rightarrow> ('s, prompted list) handler" where
  "prompts 0 E C A c stdin = ret []"
| "prompts (Suc n) E C A c stdin = and_then (prompt E C A c stdin) (\<lambda>(p, stdin).
     if p_exit p then ret [p]
     else and_then (prompts n E C A (p_cli p) stdin) (\<lambda>ps. ret (p # ps)))"

section \<open>The start\<close>

text \<open>The arguments of the program, without its name.\<close>

datatype cli_mode = PrintVersion | RunCommand string string "string list" | Interactive string

definition cli_mode_of :: "string list \<Rightarrow> cli_mode" where
  "cli_mode_of args = (case args of
     [] \<Rightarrow> Interactive ''localhost:8383''
   | a # rest \<Rightarrow>
       if a \<in> {''version'', ''-version'', ''--version'', ''-v''} then PrintVersion
       else let address = (if CHR '':'' \<in> set a then a else a @ '':8383'') in
         (case rest of [] \<Rightarrow> Interactive address | cmd # args \<Rightarrow> RunCommand address cmd args))"

text \<open>A command given as arguments: what it prints, its error, and the exit status.\<close>

definition run_once :: "'s etcd \<Rightarrow> codec \<Rightarrow> 's etcd_auth \<Rightarrow> cli \<Rightarrow> string \<Rightarrow> string list \<Rightarrow>
    ('s, line list \<times> cli_error option \<times> nat) handler" where
  "run_once E C A c cmd args = and_then (command E C A c cmd args)
     (\<lambda>(lines, err, c). ret (lines, err, if err \<noteq> None then 1 else 0))"

end
