(* ===== verification/Cli_Spec.thy ===== *)
theory Cli_Spec
  imports Cli_Auth Demo
begin

text \<open>
  What the command line client promises: which commands it knows, what it does with too few
  arguments, and how a line of input becomes a command.
\<close>

section \<open>The setting of the witnesses\<close>

definition demo_cli :: cli where
  "demo_cli = \<lparr>cli_client = \<lparr>cl_MD = None, cl_authToken = []\<rparr>, cli_requests = [], cli_closed = False\<rparr>"

text \<open>An authentication service that refuses every call.\<close>

definition demo_auth :: "mem etcd_auth" where
  "demo_auth =
     (let no = (\<lambda>s. (Inl ''authentication is not enabled'', s)) in
      \<lparr>auth_AuthEnable = no, auth_AuthDisable = no, auth_Authenticate = (\<lambda>_ _ s. (Inl ''authentication is not enabled'', s)),
       auth_UserAdd = (\<lambda>_ _. no), auth_UserGet = (\<lambda>_ s. (Inl ''authentication is not enabled'', s)),
       auth_UserList = (\<lambda>s. (Inl ''authentication is not enabled'', s)), auth_UserDelete = (\<lambda>_. no),
       auth_UserChangePassword = (\<lambda>_ _. no), auth_UserGrantRole = (\<lambda>_ _. no), auth_UserRevokeRole = (\<lambda>_ _. no),
       auth_RoleAdd = (\<lambda>_. no), auth_RoleGet = (\<lambda>_ s. (Inl ''authentication is not enabled'', s)),
       auth_RoleList = (\<lambda>s. (Inl ''authentication is not enabled'', s)), auth_RoleDelete = (\<lambda>_. no),
       auth_RoleGrantPermission = (\<lambda>_ _. no), auth_RoleRevokePermission = (\<lambda>_ _ _. no)\<rparr>)"

lemma demo_cli_ctx: "client_ctx (cli_client demo_cli) = demo_ctx"
  by (simp add: demo_cli_def client_ctx_def demo_ctx_def)

lemma demo_hash_new: "if_missing (newHash (Some [])) (hash_read memory_codec (newKey k) Map.empty) = Inr (newHash (Some []))"
  by (simp add: demo_hash_missing if_missing_def)

section \<open>The known commands\<close>

lemma or_else_None [simp]: "or_else x y = None \<longleftrightarrow> x = None \<and> y = None"
  by (simp add: or_else_def split: option.split)

lemma or_else_simps [simp]: "or_else (Some m) y = Some m" "or_else None y = y"
  by (simp_all add: or_else_def)

lemma key_command_None: "key_command E C c cmd args = None \<longleftrightarrow>
    cmd \<notin> {''QUIT'', ''HELP'', ''KEYS'', ''KEYSWITHPREFIX'', ''HAS'', ''SETEXPIRE'', ''DELETE'', ''CLEAR''}"
  unfolding key_command_def by simp

lemma value_command_None: "value_command E C c cmd args = None \<longleftrightarrow>
    cmd \<notin> {''GET'', ''GETMANY'', ''SET'', ''SETNX'', ''SETINT'', ''SETFLOAT'', ''INCREMENTINT'', ''DECREMENTINT'',
      ''INCREMENTFLOAT'', ''DECREMENTFLOAT''}"
  unfolding value_command_def by simp

lemma list_command_None: "list_command E C c cmd args = None \<longleftrightarrow>
    cmd \<notin> {''GETLISTITEM'', ''SETLISTITEM'', ''LISTLIMIT'', ''LISTLENGTH'', ''LISTINSERT'', ''LISTAPPEND'',
      ''LISTPOPLEFT'', ''LISTPOPLEFTBLK'', ''LISTPOPRIGHT'', ''LISTPOPRIGHTBLK'', ''LISTHAS'', ''LISTDELETE'',
      ''LISTDELETEITEM''}"
  unfolding list_command_def by simp

lemma hash_command_None: "hash_command E C c cmd args = None \<longleftrightarrow>
    cmd \<notin> {''GETHASHFIELD'', ''HASHHAS'', ''HASHFIELDS'', ''HASHVALUES'', ''SETHASHFIELD'', ''DELHASHFIELD'',
      ''SETLOCKTIMEOUT'', ''WATCH'', ''UNWATCH''}"
  unfolding hash_command_def by simp

lemma user_command_None: "user_command E A c cmd args = None \<longleftrightarrow>
    cmd \<notin> {''AUTHENABLE'', ''AUTHDISABLE'', ''AUTHENTICATE'', ''USERADD'', ''USERGET'', ''USERLIST'',
      ''USERDELETE'', ''USERCHANGEPASS'', ''USERGRANTROLE'', ''USERREVOKEROLE''}"
  unfolding user_command_def by simp

lemma role_command_None: "role_command E A c cmd args = None \<longleftrightarrow>
    cmd \<notin> {''ROLEADD'', ''ROLEGET'', ''ROLELIST'', ''ROLEDELETE'', ''ROLEGRANTPERM'', ''ROLEREVOKEPERM''}"
  unfolding role_command_def by simp

lemmas command_None = key_command_None value_command_None list_command_None hash_command_None
  user_command_None role_command_None

text \<open>The number of arguments a command's usage line names.\<close>

definition arity :: "(string \<times> string \<times> string) \<Rightarrow> string \<times> nat" where
  "arity h = (fst h, length (Split (fst (snd h))) - 1)"

lemma help_arities: "map arity help_table =
  [(''KEYS'', 0), (''KEYSWITHPREFIX'', 1), (''HAS'', 1), (''SETEXPIRE'', 2), (''DELETE'', 1), (''CLEAR'', 0),
   (''GET'', 1), (''SET'', 2), (''SETNX'', 2), (''SETINT'', 2), (''SETFLOAT'', 2), (''INCREMENTINT'', 2),
   (''DECREMENTINT'', 2), (''INCREMENTFLOAT'', 2), (''DECREMENTFLOAT'', 2), (''GETLISTITEM'', 2),
   (''SETLISTITEM'', 3), (''LISTLIMIT'', 2), (''LISTLENGTH'', 1), (''LISTINSERT'', 3), (''LISTAPPEND'', 2),
   (''LISTPOPLEFT'', 1), (''LISTPOPLEFTBLK'', 2), (''LISTPOPRIGHT'', 1), (''LISTPOPRIGHTBLK'', 2),
   (''LISTHAS'', 2), (''LISTDELETE'', 2), (''LISTDELETEITEM'', 2), (''GETHASHFIELD'', 2), (''HASHHAS'', 2),
   (''HASHFIELDS'', 1), (''HASHVALUES'', 1), (''SETHASHFIELD'', 3), (''DELHASHFIELD'', 2), (''LOCK'', 1),
   (''LOCKWITHTIMEOUT'', 2), (''UNLOCK'', 1), (''SETLOCKTIMEOUT'', 1), (''WATCH'', 1), (''UNWATCH'', 1),
   (''AUTHENABLE'', 0), (''AUTHDISABLE'', 0), (''AUTHENTICATE'', 2), (''USERADD'', 2), (''USERGET'', 1),
   (''USERLIST'', 0), (''USERDELETE'', 1), (''USERCHANGEPASS'', 2), (''USERGRANTROLE'', 2),
   (''USERREVOKEROLE'', 2), (''ROLEADD'', 1), (''ROLEGET'', 1), (''ROLELIST'', 0), (''ROLEDELETE'', 1),
   (''ROLEGRANTPERM'', 3), (''ROLEREVOKEPERM'', 3)]"
  by code_simp

lemma need_short:
  "length args < 1 \<Longrightarrow> need1 c args f = return_err c NotEnoughArgs"
  "length args < 2 \<Longrightarrow> need2 c args g = return_err c NotEnoughArgs"
  "length args < 3 \<Longrightarrow> need3 c args h = return_err c NotEnoughArgs"
  by (auto simp: need1_def need2_def need3_def less_Suc_eq length_Suc_conv numeral_3_eq_3 numeral_2_eq_2 split: list.split)

lemmas group_defs = key_command_def value_command_def list_command_def hash_command_def user_command_def role_command_def

lemma short_command:
  assumes "(name, n) \<in> set (map arity help_table)" and "length args < n"
    and "name \<notin> {''LOCK'', ''LOCKWITHTIMEOUT'', ''UNLOCK'', ''KEYSWITHPREFIX''}"
  shows "find_command E C A c name args = Some (return_err c NotEnoughArgs)"
  using assms unfolding help_arities
  by (elim set_ConsD [elim_format] disjE) (simp_all add: find_command_def group_defs need_short)

text \<open>
  The client knows every command its help documents except \<open>LOCK\<close>, \<open>LOCKWITHTIMEOUT\<close> and
  \<open>UNLOCK\<close>, which it reports as unknown like any other word; besides these it knows \<open>QUIT\<close>,
  \<open>HELP\<close> and \<open>GETMANY\<close>.
\<close>

theorem known_commands:
  "(find_command E C A c cmd args = None \<longleftrightarrow>
     cmd \<notin> set (''QUIT'' # ''HELP'' # ''GETMANY'' # map fst help_table) - {''LOCK'', ''LOCKWITHTIMEOUT'', ''UNLOCK''}) \<and>
   (cmd \<in> set (''QUIT'' # ''HELP'' # ''GETMANY'' # map fst help_table) - {''LOCK'', ''LOCKWITHTIMEOUT'', ''UNLOCK''} \<or>
     command E C A c cmd args w = (Ok ([], Some (UnknownCommand cmd), c), w))"
proof -
  have names: "map fst help_table = map fst (map arity help_table)" by (simp add: arity_def comp_def)
  have known: "find_command E C A c cmd args = None \<longleftrightarrow>
     cmd \<notin> set (''QUIT'' # ''HELP'' # ''GETMANY'' # map fst help_table) - {''LOCK'', ''LOCKWITHTIMEOUT'', ''UNLOCK''}"
    unfolding names help_arities find_command_def or_else_None command_None by auto
  have "find_command E C A c cmd args = None \<Longrightarrow> command E C A c cmd args w = (Ok ([], Some (UnknownCommand cmd), c), w)"
    by (simp add: command_def return_err_def ret_def)
  with known show ?thesis by blast
qed

text \<open>
  A command that gets fewer arguments than its usage line names reports so, prints nothing
  and calls nothing; only \<open>KEYSWITHPREFIX\<close> goes on, with the empty prefix.
\<close>

theorem short_commands_do_nothing:
  assumes "(name, usage, desc) \<in> set help_table" and "length args < length (Split usage) - 1"
    and "name \<notin> {''LOCK'', ''LOCKWITHTIMEOUT'', ''UNLOCK'', ''KEYSWITHPREFIX''}"
  shows "command E C A c name args w = (Ok ([], Some NotEnoughArgs, c), w) \<and>
    command E C A c ''KEYSWITHPREFIX'' [] = print_call c displayList (client_KeysWithPrefix E [])"
proof -
  have "arity (name, usage, desc) \<in> set (map arity help_table)" using assms(1) by simp
  then have "(name, length (Split usage) - 1) \<in> set (map arity help_table)" by (simp add: arity_def)
  from short_command [OF this assms(2,3), of E C A c]
  have "command E C A c name args w = (Ok ([], Some NotEnoughArgs, c), w)"
    by (simp add: command_def return_err_def ret_def)
  then show ?thesis by (simp add: command_def find_command_def key_command_def)
qed

theorem short_commands_do_nothing_witness:
  "command quiet_etcd memory_codec demo_auth demo_cli ''SETHASHFIELD'' [''h'', ''f''] (mem_world []) =
    (Ok ([], Some NotEnoughArgs, demo_cli), mem_world [])"
  using short_commands_do_nothing [of "''SETHASHFIELD''" "''SETHASHFIELD key field value''"
      "''Set a single value in a hash''" "[''h'', ''f'']"
      quiet_etcd memory_codec demo_auth demo_cli "mem_world []"]
  by (simp add: help_table_def)

section \<open>Two commands that do not do what their help says\<close>

lemma command_SETNX: "command E C A c ''SETNX'' (key # v # extra) =
    and_then (attempt (client_SetNX E C (cli_client c) key (AnyString v)))
      (\<lambda>r. ret (case r of Inl e \<Rightarrow> ([], Some (Failed e), c) | Inr b \<Rightarrow> ([[PBool b]], Some NotEnoughArgs, c)))"
  by (simp add: command_def find_command_def group_defs need2_def)

lemma command_SETHASHFIELD: "command E C A c ''SETHASHFIELD'' (key # f # v # extra) =
    return_call c (client_SetHashField E C (cli_client c) f f (AnyString v))"
  by (simp add: command_def find_command_def group_defs need3_def)

lemma command_SET: "command E C A c ''SET'' (key # v # extra) =
    return_call c (client_Set E C (cli_client c) key (AnyString v))"
  by (simp add: command_def find_command_def group_defs need2_def)

lemma command_GET: "command E C A c ''GET'' (key # extra) =
    print_call c (\<lambda>s. [[PStr s]]) (value_string (client_Get E key))"
  by (simp add: command_def find_command_def group_defs need1_def)

lemma return_call_runs: "runs P m (Ok ()) Q \<Longrightarrow> runs P (return_call c m) (Ok ([], None, c)) Q"
  unfolding return_call_def by (rule runs_and_then [OF runs_attempt]) (auto intro: runs_ret [THEN runs_weaken])

lemma print_call_runs: "runs P m (Ok x) Q \<Longrightarrow> runs P (print_call c display m) (Ok (display x, None, c)) Q"
  unfolding print_call_def by (rule runs_and_then [OF runs_attempt]) (auto intro: runs_ret [THEN runs_weaken])

lemma value_string_runs: "runs P m (Ok v) Q \<Longrightarrow> Value_String v = Inr s \<Longrightarrow> runs P (value_string m) (Ok s) Q"
  unfolding value_string_def by (rule runs_and_then) (auto intro: runs_ret [THEN runs_weaken])


text \<open>
  \<open>SETNX\<close> of a free new key sets it, prints true, and then reports missing arguments all
  the same.
\<close>

theorem SETNX_reports_error:
  assumes "usable K (client_ctx (cli_client c)) (newKey key) m" and "\<not> key_held (newKey key) m"
    and "m (StringToBytes key) = None"
  shows "runs (stores E kv K m) (command E C A c ''SETNX'' (key # v # rest))
    (Ok ([[PBool True]], Some NotEnoughArgs, c))
    (stores E kv K (m(getLockName key := None, StringToBytes key \<mapsto> StringToBytes v)))"
  unfolding command_SETNX
  by (rule runs_and_then [OF runs_attempt [OF client_SetNX_runs [OF assms]]]) (simp_all add: runs_ret newValue_b_def)

theorem SETNX_reports_error_witness:
  "\<exists>w. command quiet_etcd memory_codec demo_auth demo_cli ''SETNX'' [''k'', ''v''] (mem_world []) =
    (Ok ([[PBool True]], Some NotEnoughArgs, demo_cli), w)"
proof -
  have "runs (stores quiet_etcd map_of UNIV (map_of [])) (command quiet_etcd memory_codec demo_auth demo_cli ''SETNX'' [''k'', ''v''])
      (Ok ([[PBool True]], Some NotEnoughArgs, demo_cli))
      (stores quiet_etcd map_of UNIV ((map_of [])(getLockName ''k'' := None, StringToBytes ''k'' \<mapsto> StringToBytes ''v'')))"
    by (rule SETNX_reports_error) (simp_all add: demo_cli_ctx demo_setting)
  from demo_run [OF this] show ?thesis by blast
qed

text \<open>
  \<open>SETHASHFIELD key field value\<close> ignores its key: it runs the same calls for every key,
  and sets the field in the hash that is named like the field.
\<close>

theorem SETHASHFIELD_ignores_key:
  assumes "usable K (client_ctx (cli_client c)) (newKey field) m" and "\<not> key_held (newKey field) m" and "proto_ok C"
    and "if_missing (newHash (Some [])) (hash_read C (newKey field) m) = Inr h"
    and "map_wf (Hash_Value h)" and "Hash_Value h \<noteq> None"
  shows "command E C A c ''SETHASHFIELD'' [key, field, v] = command E C A c ''SETHASHFIELD'' [key', field, v] \<and>
    (\<exists>m'. runs (stores E kv K m) (command E C A c ''SETHASHFIELD'' [key, field, v]) (Ok ([], None, c)) (stores E kv K m') \<and>
      hash_stores K (client_ctx (cli_client c)) C field m ((map_get (Hash_Value h))(field \<mapsto> StringToBytes v)) m')"
  unfolding command_SETHASHFIELD
  using client_SetHashField_runs [OF assms, of "AnyString v" E kv field]
  by (auto intro: return_call_runs simp: newValue_b_def)

theorem SETHASHFIELD_ignores_key_witness:
  "\<exists>w m'. command quiet_etcd memory_codec demo_auth demo_cli ''SETHASHFIELD'' [''h'', ''k'', ''v''] (mem_world []) = (Ok ([], None, demo_cli), w) \<and>
    stores quiet_etcd map_of UNIV m' w \<and> hash_stores UNIV demo_ctx memory_codec ''k'' Map.empty [''k'' \<mapsto> StringToBytes ''v''] m'"
proof -
  have get: "map_get (Some []) = (Map.empty :: string \<rightharpoonup> bytes)" by (simp add: map_get_def [abs_def] map_entries_def)
  have "command quiet_etcd memory_codec demo_auth demo_cli ''SETHASHFIELD'' [''h'', ''k'', ''v''] =
      command quiet_etcd memory_codec demo_auth demo_cli ''SETHASHFIELD'' [''h'', ''k'', ''v''] \<and>
    (\<exists>m'. runs (stores quiet_etcd map_of UNIV (map_of [])) (command quiet_etcd memory_codec demo_auth demo_cli ''SETHASHFIELD'' [''h'', ''k'', ''v''])
        (Ok ([], None, demo_cli)) (stores quiet_etcd map_of UNIV m') \<and>
      hash_stores UNIV (client_ctx (cli_client demo_cli)) memory_codec ''k'' (map_of [])
        ((map_get (Hash_Value (newHash (Some []))))(''k'' \<mapsto> StringToBytes ''v'')) m')"
    by (rule SETHASHFIELD_ignores_key)
      (simp_all add: demo_cli_ctx demo_setting demo_hash_new newHash_def map_wf_def map_entries_def)
  then have "\<exists>m'. runs (stores quiet_etcd map_of UNIV (map_of [])) (command quiet_etcd memory_codec demo_auth demo_cli ''SETHASHFIELD'' [''h'', ''k'', ''v''])
        (Ok ([], None, demo_cli)) (stores quiet_etcd map_of UNIV m') \<and>
      hash_stores UNIV demo_ctx memory_codec ''k'' Map.empty [''k'' \<mapsto> StringToBytes ''v''] m'"
    by (simp add: demo_cli_ctx newHash_def get)
  from demo_run_ex [OF this] show ?thesis by blast
qed

section \<open>Setting and getting\<close>

lemma command_SET_runs:
  assumes "usable K (client_ctx (cli_client c)) (newKey key) m" and "\<not> key_held (newKey key) m"
  shows "runs (stores E kv K m) (command E C A c ''SET'' [key, v]) (Ok ([], None, c))
    (stores E kv K (m(StringToBytes key \<mapsto> StringToBytes v)))"
  using client_Set_runs [OF assms, where v = "AnyString v" and C = C and E = E and kv = kv]
  by (auto intro: return_call_runs simp: command_SET newValue_b_def)

lemma command_GET_runs:
  assumes "StringToBytes key \<in> K" and "m (StringToBytes key) = Some (StringToBytes v)"
  shows "runs (stores E kv K m) (command E C A c ''GET'' [key]) (Ok ([[PStr v]], None, c)) (stores E kv K m)"
proof -
  have "runs (stores E kv K m) (client_Get E key) (Ok (newValue_b (StringToBytes v))) (stores E kv K m)"
    by (rule client_Get_runs) (use assms in simp_all)
  then have "runs (stores E kv K m) (value_string (client_Get E key)) (Ok v) (stores E kv K m)"
    by (rule value_string_runs) (simp add: Value_String_def newValue_b_def)
  from print_call_runs [OF this] show ?thesis by (simp add: command_GET)
qed

text \<open>
  What \<open>SET\<close> stores, \<open>GET\<close> prints: after \<open>SET key value\<close> on a usable free key, the
  command \<open>GET key\<close> prints the value and reports no error.
\<close>

theorem SET_then_GET:
  assumes "usable K (client_ctx (cli_client c)) (newKey key) m" and "\<not> key_held (newKey key) m"
  shows "runs (stores E kv K m)
    (and_then (command E C A c ''SET'' [key, v]) (\<lambda>(out, err, c'). command E C A c' ''GET'' [key]))
    (Ok ([[PStr v]], None, c)) (stores E kv K (m(StringToBytes key \<mapsto> StringToBytes v)))"
  by (rule runs_and_then [OF command_SET_runs [OF assms]], simp, rule command_GET_runs)
    (use assms(1) in \<open>simp_all add: usable_def\<close>)

theorem SET_then_GET_witness:
  "\<exists>w. and_then (command quiet_etcd memory_codec demo_auth demo_cli ''SET'' [''k'', ''v''])
      (\<lambda>(out, err, c'). command quiet_etcd memory_codec demo_auth c' ''GET'' [''k'']) (mem_world []) =
    (Ok ([[PStr ''v'']], None, demo_cli), w)"
proof -
  have "runs (stores quiet_etcd map_of UNIV (map_of []))
      (and_then (command quiet_etcd memory_codec demo_auth demo_cli ''SET'' [''k'', ''v''])
        (\<lambda>(out, err, c'). command quiet_etcd memory_codec demo_auth c' ''GET'' [''k'']))
      (Ok ([[PStr ''v'']], None, demo_cli))
      (stores quiet_etcd map_of UNIV ((map_of [])(StringToBytes ''k'' \<mapsto> StringToBytes ''v'')))"
    by (rule SET_then_GET) (simp_all add: demo_cli_ctx demo_setting)
  from demo_run [OF this] show ?thesis by blast
qed

section \<open>The prompt\<close>

lemma Split_word: "CHR '' '' \<notin> set w \<Longrightarrow> Split w = [w]"
  by (induction w) auto

lemma Split_append: "CHR '' '' \<notin> set w \<Longrightarrow> Split (w @ CHR '' '' # s) = w # Split s"
  by (induction w) auto

fun join :: "string list \<Rightarrow> string" where
  "join [] = []"
| "join [w] = w"
| "join (w # ws) = w @ CHR '' '' # join ws"

lemma Split_join: "ws \<noteq> [] \<Longrightarrow> \<forall>w\<in>set ws. CHR '' '' \<notin> set w \<Longrightarrow> Split (join ws) = ws"
  by (induction ws rule: join.induct) (simp_all add: Split_word Split_append)

text \<open>A word has no blank or end of line in it, and no white space of Unicode at its ends.\<close>

definition word :: "string \<Rightarrow> bool" where
  "word w \<longleftrightarrow> w \<noteq> [] \<and> CHR '' '' \<notin> set w \<and> CHR 0x0A \<notin> set w \<and> TrimSpace w = w"

text \<open>An ASCII character is no part of a longer encoding, so the end of a word stops the trimming.\<close>

lemma string_shape:
  obtains (empty) "s = []" | (one) x where "s = [x]" | (two) x y where "s = [x, y]" | (three) x y z t where "s = x # y # z # t"
  by (metis list.exhaust)

lemma trim_stops:
  assumes "trim sp2 sp3 w = w" and "w \<noteq> []" and "\<And>x. \<not> sp2 x c" and "\<And>x y. \<not> sp3 x c y" and "\<And>x y. \<not> sp3 x y c"
  shows "trim sp2 sp3 (w @ c # s) = w @ c # s"
proof (cases w rule: string_shape)
  case (one x)
  then show ?thesis using assms by (cases s) (auto split: if_splits)
next
  case (two x y)
  then have "\<not> is_space x" "\<not> sp2 x y" using assms(1) length_trim [of sp2 sp3 "[y]"] by (auto split: if_splits)
  then show ?thesis using two assms by (cases s) auto
next
  case (three x y z t)
  then have "\<not> is_space x" "\<not> sp2 x y" "\<not> sp3 x y z"
    using assms(1) length_trim [of sp2 sp3 "y # z # t"] length_trim [of sp2 sp3 "z # t"] length_trim [of sp2 sp3 t]
    by (auto split: if_splits)
  then show ?thesis using three by simp
qed (use assms(2) in simp)

lemma ascii_stops:
  "c \<in> {CHR '' '', CHR 0x0A} \<Longrightarrow> \<not> space2 x c \<and> \<not> space2 c x \<and> \<not> space3 x c y \<and> \<not> space3 x y c \<and> \<not> space3 c x y"
  by (auto simp: space2_def space3_def less_eq_char_def)

lemma join_snoc: "ws \<noteq> [] \<Longrightarrow> join (ws @ [w]) = join ws @ CHR '' '' # w"
proof (induction ws rule: join.induct)
  case (3 v u us)
  then show ?case by simp
qed simp_all

lemma trim_join_left:
  assumes "ws \<noteq> []" and "\<forall>w\<in>set ws. word w"
  shows "trim space2 space3 (join ws @ [CHR 0x0A]) = join ws @ [CHR 0x0A]"
proof -
  obtain w vs where ws: "ws = w # vs" using assms(1) by (cases ws) auto
  have w: "w \<noteq> []" "trim space2 space3 w = w" using assms(2) trim_fixed [of w] by (simp_all add: ws word_def)
  have stop: "trim space2 space3 (w @ c # s) = w @ c # s" if "c \<in> {CHR '' '', CHR 0x0A}" for c s
    by (rule trim_stops [OF w(2,1)]) (use ascii_stops [OF that] in auto)
  show ?thesis using stop [of _ "join vs @ [CHR 0x0A]"] stop [of _ "[]"] by (cases vs) (simp_all add: ws)
qed

lemma trim_join_right:
  assumes "ws \<noteq> []" and "\<forall>w\<in>set ws. word w"
  shows "trim (\<lambda>y x. space2 x y) (\<lambda>z y x. space3 x y z) (rev (join ws)) = rev (join ws)"
proof -
  obtain vs w where ws: "ws = vs @ [w]" using assms(1) by (cases ws rule: rev_exhaust) auto
  have w: "rev w \<noteq> []" "trim (\<lambda>y x. space2 x y) (\<lambda>z y x. space3 x y z) (rev w) = rev w"
    using assms(2) trim_fixed [of w] by (simp_all add: ws word_def)
  have "trim (\<lambda>y x. space2 x y) (\<lambda>z y x. space3 x y z) (rev w @ CHR '' '' # s) = rev w @ CHR '' '' # s" for s
    by (rule trim_stops [OF w(2,1)]) (use ascii_stops [of "CHR '' ''"] in auto)
  then show ?thesis using w(2) by (cases "vs = []") (simp_all add: ws join_snoc)
qed

lemma TrimSpace_join:
  assumes "ws \<noteq> []" and "\<forall>w\<in>set ws. word w"
  shows "TrimSpace (join ws @ [CHR 0x0A]) = join ws"
proof -
  have nl: "is_space (CHR 0x0A)" by (simp add: is_space_def)
  have "trim sp2 sp3 (CHR 0x0A # s) = trim sp2 sp3 s" for sp2 sp3 s
    using nl by (cases s rule: string_shape) simp_all
  then show ?thesis unfolding TrimSpace_def trim_join_left [OF assms] using trim_join_right [OF assms] by simp
qed

lemma join_ends:
  assumes "ws \<noteq> []" and "\<forall>w\<in>set ws. word w"
  shows "join ws \<noteq> [] \<and> CHR 0x0A \<notin> set (join ws)"
  using assms by (induction ws rule: join.induct) (auto simp: word_def)

text \<open>
  C32. A line of words, separated by blanks, at the prompt runs the command named by the
  first word, in capitals, with the other words as its arguments, unchanged; what was read
  after the line's end is lost, and the program goes on unless the command quits.  A word
  does not begin or end with white space, ASCII or other, which the prompt trims off the
  line, and the first word is ASCII, as the names of all commands are.
\<close>

theorem prompt_runs_command:
  assumes "word name" and "ascii name" and "\<forall>a\<in>set args. word a"
  shows "prompt E C A c ((join (name # args) @ CHR 0x0A # lost) # stdin) =
    and_then (command E C A c (map upper_char name) args) (\<lambda>(lines, err, c).
      ret (\<lparr>p_lines = lines, p_error = (if err = Some QuitEOF then None else err),
            p_exit = (err = Some QuitEOF), p_cli = c\<rparr>, stdin))"
proof -
  have words: "\<forall>w\<in>set (name # args). word w" using assms by simp
  then have spaces: "\<forall>w\<in>set (name # args). CHR '' '' \<notin> set w" by (auto simp: word_def)
  note ends = join_ends [OF _ words]
  have line: "takeWhile (\<lambda>x. x \<noteq> CHR 0x0A) (join (name # args) @ CHR 0x0A # lost) = join (name # args)"
    using ends by (subst takeWhile_append2) auto
  have split: "Split (join (name # args)) = name # args" by (rule Split_join) (use spaces in simp_all)
  have trim: "TrimSpace (join (name # args) @ [CHR 0x0A]) = join (name # args)" by (rule TrimSpace_join) (use words in simp_all)
  have out: "(\<lambda>(lines, err, c). ret (case err of
      Some QuitEOF \<Rightarrow> \<lparr>p_lines = lines, p_error = None, p_exit = True, p_cli = c\<rparr>
    | _ \<Rightarrow> \<lparr>p_lines = lines, p_error = err, p_exit = False, p_cli = c\<rparr>, stdin)) =
    (\<lambda>(lines, err, c). ret (\<lparr>p_lines = lines, p_error = (if err = Some QuitEOF then None else err),
            p_exit = (err = Some QuitEOF), p_cli = c\<rparr>, stdin))"
    by (auto simp: fun_eq_iff split: option.split cli_error.split)
  show ?thesis using ends unfolding prompt_def by (simp add: line trim split out Let_def ToUpper_ascii [OF assms(2)])
qed

theorem prompt_runs_command_witness:
  "prompt quiet_etcd memory_codec demo_auth demo_cli [''lock k'' @ CHR 0x0A # ''set k v''] (mem_world []) =
    (Ok (\<lparr>p_lines = [], p_error = Some (UnknownCommand ''LOCK''), p_exit = False, p_cli = demo_cli\<rparr>, []), mem_world [])"
proof -
  have "prompt quiet_etcd memory_codec demo_auth demo_cli [join [''lock'', ''k''] @ CHR 0x0A # ''set k v''] =
    and_then (command quiet_etcd memory_codec demo_auth demo_cli (map upper_char ''lock'') [''k'']) (\<lambda>(lines, err, c).
      ret (\<lparr>p_lines = lines, p_error = (if err = Some QuitEOF then None else err),
            p_exit = (err = Some QuitEOF), p_cli = c\<rparr>, []))"
    by (rule prompt_runs_command) (simp_all add: word_def ascii_def less_char_def is_space_def TrimSpace_def space2_def space3_def)
  moreover have "map upper_char ''lock'' = ''LOCK''" by code_simp
  moreover have "find_command quiet_etcd memory_codec demo_auth demo_cli ''LOCK'' [''k''] = None"
    by (simp add: find_command_def command_None)
  ultimately show ?thesis by (simp add: command_def return_err_def and_then_def ret_def)
qed

text \<open>
  At the end of standard input the interactive client does not stop: every further round
  reports the end and goes on.
\<close>

theorem prompts_never_stop_at_the_last_line:
  "prompts n E C A c [] w =
    (Ok (replicate n \<lparr>p_lines = [], p_error = Some QuitEOF, p_exit = False, p_cli = c\<rparr>), w)"
  by (induction n) (simp_all add: prompt_def and_then_def ret_def)

end
