(* ===== verification/Client_Connect.thy ===== *)
theory Client_Connect
  imports Go_Util
begin

text \<open>
  How a client is configured and connected (\<open>client/client.go\<close>): its configuration, the
  resolver of a fixed list of addresses, and \<open>NewClient\<close>.  Certificates and dialling are the
  environment's.
\<close>

record 'tls client_config =
  cfg_Addresses :: "string list"
  cfg_TLS :: "'tls option"
  cfg_AutoTLS :: bool

definition NewClientConfig :: "string \<Rightarrow> 'tls client_config" where
  "NewClientConfig address = \<lparr>cfg_Addresses = [address], cfg_TLS = None, cfg_AutoTLS = True\<rparr>"

definition NewClientConfigAddresses :: "string list \<Rightarrow> 'tls client_config" where
  "NewClientConfigAddresses addresses = \<lparr>cfg_Addresses = addresses, cfg_TLS = None, cfg_AutoTLS = True\<rparr>"

text \<open>
  The resolver holds the updates it has not handed out: \<open>None\<close> is the nil slice.  \<open>Next\<close>
  hands them out once and then never returns (\<open>None\<close> as its result).
\<close>

type_synonym staticResolver = "string list option"

definition newStaticResolver :: "string list \<Rightarrow> staticResolver" where
  "newStaticResolver addresses = (if addresses = [] then None else Some addresses)"

definition Resolver_Next :: "staticResolver \<Rightarrow> string list option \<times> staticResolver" where
  "Resolver_Next sr = (case sr of Some addrs \<Rightarrow> (Some addrs, None) | None \<Rightarrow> (None, None))"

text \<open>What the environment answers: certificates or an error, and the error of dialling.\<close>

record 'tls network =
  n_NewSelfCerts :: "string \<Rightarrow> string + 'tls"
  n_Dial :: "string \<Rightarrow> 'tls option \<Rightarrow> string list option \<Rightarrow> string option"

text \<open>
  \<open>NewClient\<close>: an error, the connection (the address dialled, its TLS settings, \<open>None\<close> for an
  insecure one, and the balancer's resolver), or a panic when there is no address.
\<close>

datatype 'tls connected = Not_Connected string | Connected string "'tls option" staticResolver | No_Address

definition NewClient :: "'tls network \<Rightarrow> 'tls client_config \<Rightarrow> 'tls connected" where
  "NewClient N config =
     (case (if cfg_AutoTLS config then map_sum id Some (n_NewSelfCerts N ''Mydis'') else Inr (cfg_TLS config)) of
        Inl err \<Rightarrow> Not_Connected err
      | Inr tls \<Rightarrow>
          (let balancer = newStaticResolver (cfg_Addresses config) in
           case cfg_Addresses config of
             [] \<Rightarrow> No_Address
           | address # _ \<Rightarrow>
               (case n_Dial N address tls balancer of
                  Some err \<Rightarrow> Not_Connected err
                | None \<Rightarrow> Connected address tls balancer)))"

text \<open>The resolver hands out the whole list once, then nothing more.\<close>

lemma resolver_once:
  "addresses \<noteq> [] \<Longrightarrow> fst (Resolver_Next (newStaticResolver addresses)) = Some addresses \<and>
     fst (Resolver_Next (snd (Resolver_Next (newStaticResolver addresses)))) = None"
  by (simp add: newStaticResolver_def Resolver_Next_def)

text \<open>
  A client without addresses panics, once its certificates are made; with \<open>AutoTLS\<close> the TLS
  settings of the configuration are replaced.
\<close>

lemma NewClient_no_address:
  "n_NewSelfCerts N ''Mydis'' = Inr tls \<Longrightarrow> NewClient N (NewClientConfigAddresses []) = No_Address"
  by (simp add: NewClient_def NewClientConfigAddresses_def)

lemma NewClient_auto:
  "n_NewSelfCerts N ''Mydis'' = Inr tls \<Longrightarrow> NewClient N (config\<lparr>cfg_AutoTLS := True\<rparr>) = Connected a t r \<Longrightarrow>
     t = Some tls \<and> a = hd (cfg_Addresses config)"
  by (auto simp: NewClient_def Let_def split: list.splits option.splits)

end
