(* ===== verification/Client_Close.thy ===== *)
theory Client_Close
  imports Prelude
begin

text \<open>
  The life of a client's connection (\<open>NewClient\<close>, \<open>Close\<close> and \<open>backgroundProcess\<close> of
  \<open>client/client.go\<close>): opening the watch stream, opening it again after an error, and
  closing.  Only what decides whether the connection lives is kept: no watches, no event
  channels, no waiting for the lock.  \<open>Client_Process\<close> has all of them and refines this.
\<close>

section \<open>The goroutines\<close>

text \<open>
  \<open>backgroundProcess\<close>: about to call \<open>c.mc.Watch\<close>, in the loop of the sender, in its deferred
  function, or gone, with \<open>reqCh\<close> and \<open>resCh\<close> closed.
\<close>

datatype process = Pr_Open | Pr_Serve | Pr_Exit | Pr_Gone

text \<open>A caller of \<open>Close\<close>: none, in \<open>c.closeCh <- struct{}{}\<close>, or returned.\<close>

datatype closer = Cl_Idle | Cl_Send | Cl_Returned

text \<open>
  Whether \<open>c.stream\<close> was set, the receivers in \<open>c.stream.Recv()\<close>, and those that wait in
  \<open>c.closeCh <- struct{}{}\<close> after an error.
\<close>

record conn =
  cn_process :: process
  cn_closer :: closer
  cn_closing :: bool
  cn_stream :: bool
  cn_receiving :: nat
  cn_waiting :: nat
  cn_panicked :: bool

text \<open>The client as \<open>NewClient\<close> returns it.\<close>

definition dialled :: conn where
  "dialled = \<lparr>cn_process = Pr_Open, cn_closer = Cl_Idle, cn_closing = False, cn_stream = False,
     cn_receiving = 0, cn_waiting = 0, cn_panicked = False\<rparr>"

text \<open>The steps; a receiver's and a closer's send on \<open>closeCh\<close> meets the sender's \<open>select\<close>.\<close>

inductive conn_live :: "conn \<Rightarrow> conn \<Rightarrow> bool" where
  Open_Ok: "cn_process s = Pr_Open \<Longrightarrow>
    conn_live s (s\<lparr>cn_process := Pr_Serve, cn_stream := True, cn_receiving := Suc (cn_receiving s)\<rparr>)"
| Open_Error: "cn_process s = Pr_Open \<Longrightarrow> conn_live s (s\<lparr>cn_process := Pr_Exit\<rparr>)"
| Recv_Fails: "cn_receiving s = Suc n \<Longrightarrow>
    conn_live s (s\<lparr>cn_receiving := n, cn_waiting := Suc (cn_waiting s)\<rparr>)"
| Take_Receiver: "cn_process s = Pr_Serve \<Longrightarrow> cn_waiting s = Suc n \<Longrightarrow>
    conn_live s (s\<lparr>cn_process := Pr_Exit, cn_waiting := n\<rparr>)"
| Take_Closer: "cn_process s = Pr_Serve \<Longrightarrow> cn_closer s = Cl_Send \<Longrightarrow>
    conn_live s (s\<lparr>cn_process := Pr_Exit, cn_closer := Cl_Returned\<rparr>)"
| Send_Fails: "cn_process s = Pr_Serve \<Longrightarrow> conn_live s (s\<lparr>cn_process := Pr_Exit\<rparr>)"
| Reopen: "cn_process s = Pr_Exit \<Longrightarrow> \<not> cn_closing s \<Longrightarrow> conn_live s (s\<lparr>cn_process := Pr_Open\<rparr>)"
| Shut: "cn_process s = Pr_Exit \<Longrightarrow> cn_closing s \<Longrightarrow> cn_stream s \<Longrightarrow> conn_live s (s\<lparr>cn_process := Pr_Gone\<rparr>)"
| Shut_Panic: "cn_process s = Pr_Exit \<Longrightarrow> cn_closing s \<Longrightarrow> \<not> cn_stream s \<Longrightarrow> conn_live s (s\<lparr>cn_panicked := True\<rparr>)"
| Call_Close: "cn_closer s = Cl_Idle \<Longrightarrow> conn_live s (s\<lparr>cn_closing := True, cn_closer := Cl_Send\<rparr>)"

definition conn_step :: "conn \<Rightarrow> conn \<Rightarrow> bool" where
  "conn_step s s' \<longleftrightarrow> \<not> cn_panicked s \<and> conn_live s s'"

abbreviation conn_steps :: "conn \<Rightarrow> conn \<Rightarrow> bool" where
  "conn_steps \<equiv> conn_step\<^sup>*\<^sup>*"

inductive_cases conn_liveE: "conn_live s s'"

section \<open>What holds in every run\<close>

text \<open>
  The flag says that \<open>Close\<close> was called; a loop that serves has a stream; once \<open>Close\<close> has
  returned the process is leaving or gone; the receivers belong to streams that were opened.
\<close>

definition conn_inv :: "conn \<Rightarrow> bool" where
  "conn_inv s \<longleftrightarrow> (cn_closing s \<longleftrightarrow> cn_closer s \<noteq> Cl_Idle) \<and>
     (cn_process s = Pr_Serve \<or> cn_process s = Pr_Gone \<or> 0 < cn_receiving s \<or> 0 < cn_waiting s \<longrightarrow> cn_stream s) \<and>
     (cn_process s = Pr_Gone \<longrightarrow> cn_closing s) \<and>
     (cn_closer s = Cl_Returned \<longrightarrow> (cn_process s = Pr_Exit \<or> cn_process s = Pr_Gone) \<and> cn_stream s)"

lemma conn_inv_live: "conn_live s s' \<Longrightarrow> conn_inv s \<Longrightarrow> conn_inv s'"
  by (cases rule: conn_live.cases, assumption) (auto simp: conn_inv_def)

lemma conn_inv_step: "conn_step s s' \<Longrightarrow> conn_inv s \<Longrightarrow> conn_inv s'"
  unfolding conn_step_def using conn_inv_live by blast

lemma conn_inv_dialled: "conn_inv dialled"
  by (simp add: conn_inv_def dialled_def)

lemma conn_inv_steps: "conn_steps s s' \<Longrightarrow> conn_inv s \<Longrightarrow> conn_inv s'"
  by (induction rule: rtranclp_induct) (auto intro: conn_inv_step)

text \<open>Nobody is left to receive from \<open>closeCh\<close>.\<close>

definition closer_stuck :: "conn \<Rightarrow> bool" where
  "closer_stuck s \<longleftrightarrow> cn_closing s \<and> cn_closer s = Cl_Send \<and> (cn_panicked s \<or> cn_process s \<in> {Pr_Exit, Pr_Gone})"

lemma closer_stuck_live: "conn_live s s' \<Longrightarrow> \<not> cn_panicked s \<Longrightarrow> closer_stuck s \<Longrightarrow> closer_stuck s'"
  by (cases rule: conn_live.cases, assumption) (auto simp: closer_stuck_def)

lemma closer_stuck_step: "conn_step s s' \<Longrightarrow> closer_stuck s \<Longrightarrow> closer_stuck s'"
  unfolding conn_step_def using closer_stuck_live by blast

lemma closer_stuck_steps: "conn_steps s s' \<Longrightarrow> closer_stuck s \<Longrightarrow> closer_stuck s'"
  by (induction rule: rtranclp_induct) (auto intro: closer_stuck_step)

text \<open>A client that never had a stream panics when it is closed: \<open>c.stream\<close> is nil.\<close>

lemma Close_panics_without_stream: "\<exists>s. conn_steps dialled s \<and> cn_panicked s \<and> cn_closer s = Cl_Send"
proof -
  let ?s1 = "dialled\<lparr>cn_closing := True, cn_closer := Cl_Send\<rparr>"
  let ?s2 = "?s1\<lparr>cn_process := Pr_Exit\<rparr>"
  let ?s3 = "?s2\<lparr>cn_panicked := True\<rparr>"
  have "conn_live dialled ?s1" by (rule Call_Close) (simp add: dialled_def)
  moreover have "conn_live ?s1 ?s2" by (rule Open_Error) (simp add: dialled_def)
  moreover have "conn_live ?s2 ?s3" by (rule Shut_Panic) (simp_all add: dialled_def)
  ultimately have "conn_step dialled ?s1" "conn_step ?s1 ?s2" "conn_step ?s2 ?s3"
    by (simp_all add: conn_step_def dialled_def)
  then have "conn_steps dialled ?s3" by (meson rtranclp.rtrancl_into_rtrancl rtranclp.rtrancl_refl)
  then show ?thesis by (intro exI [where x = ?s3]) simp
qed

end
