(* ===== verification/Client_Process.thy ===== *)
theory Client_Process
  imports Client_State Client_Close "HOL-Library.Multiset" "HOL-Library.Sublist"
begin

text \<open>
  Everything that runs in a client (\<open>client/client.go\<close>), in one step relation: the background
  process with its sender, one receiver and one rewatching goroutine for each stream it
  opened, the callers of \<open>Watch\<close>, \<open>Unwatch\<close>, \<open>NewEventChannel\<close>, \<open>CloseEventChannel\<close> and \<open>Close\<close>, and
  the readers of the event channels; errors of the stream, opening it again and closing are
  steps.  The goroutines of a kind are a multiset of their states.
\<close>

section \<open>State\<close>

text \<open>
  \<open>backgroundProcess\<close>: about to call \<open>c.mc.Watch\<close>; in its \<open>select\<close>; with a request sent, and
  whether \<open>Send\<close> succeeded, about to answer on \<open>resCh\<close>; waiting for the write lock to record
  the request; in its deferred function; ended, with \<open>reqCh\<close> and \<open>resCh\<close> closed.
\<close>

datatype client_goroutine =
  P_Open | P_Select | P_Answer pb_WatchRequest bool | P_Record pb_WatchRequest | P_Exit | P_Gone

text \<open>
  A rewatching goroutine: before \<open>c.lock.RLock()\<close>; about to send the keys left; waiting on
  \<open>resCh\<close> with the keys left after that.
\<close>

datatype rewatcher = Rw_Start | Rw_Send "string list" | Rw_Wait "string list"

text \<open>
  A receiver: in \<open>Recv\<close>; with an event, before \<open>c.lock.RLock()\<close>; putting it on the channels
  left; after an error, in \<open>c.closeCh <- struct{}{}\<close>.
\<close>

datatype receiver_state = R_Recv | R_Event pb_Event | R_Deliver pb_Event "nat list" | R_Waiting

text \<open>
  A call of \<open>NewEventChannel\<close> that has read \<open>c.newID\<close>, or waits for the write lock; a call of
  \<open>CloseEventChannel\<close> that waits for it.
\<close>

datatype channel_call = Opening int64 | Registering int64 | Unregistering int64

datatype close_call = C_Idle | C_Lock | C_Send | C_Returned

datatype client_crash = No_Crash | Crash_Close | Crash_Request

text \<open>
  Channels are numbered as they are made.  \<open>cp_buffer\<close> is what a channel holds, \<open>cp_read\<close> what
  was read from it.  Two fields only record what happened: \<open>cp_got\<close>, the events received, and
  \<open>cp_since\<close>, how many there were when a channel was registered.
\<close>

record client_proc =
  cp_process :: client_goroutine
  cp_rewatchers :: "rewatcher multiset"
  cp_receivers :: "receiver_state multiset"
  cp_asking :: "pb_WatchRequest multiset"
  cp_asked :: nat
  cp_calls :: "channel_call multiset"
  cp_close :: close_call
  cp_closing :: bool
  cp_stream :: bool
  cp_crash :: client_crash
  cp_newID :: int64
  cp_watchers :: "int64 \<rightharpoonup> nat"
  cp_watching :: "string list"
  cp_sent :: "pb_WatchRequest list"
  cp_next :: nat
  cp_buffer :: "nat \<Rightarrow> pb_Event list"
  cp_read :: "nat \<Rightarrow> pb_Event list"
  cp_got :: "pb_Event list"
  cp_since :: "nat \<Rightarrow> nat"

definition new_client :: client_proc where
  "new_client = \<lparr>cp_process = P_Open, cp_rewatchers = {#}, cp_receivers = {#}, cp_asking = {#}, cp_asked = 0,
     cp_calls = {#}, cp_close = C_Idle, cp_closing = False, cp_stream = False, cp_crash = No_Crash,
     cp_newID = 0, cp_watchers = Map.empty, cp_watching = [], cp_sent = [], cp_next = 0,
     cp_buffer = (\<lambda>_. []), cp_read = (\<lambda>_. []), cp_got = [], cp_since = (\<lambda>_. 0)\<rparr>"

section \<open>Steps\<close>

text \<open>Who holds the read lock: a rewatching goroutine from its first to its last key, a receiver while it delivers.\<close>

fun rewatcher_reads :: "rewatcher \<Rightarrow> bool" where
  "rewatcher_reads Rw_Start = False"
| "rewatcher_reads _ = True"

fun receiver_reads :: "receiver_state \<Rightarrow> bool" where
  "receiver_reads (R_Deliver _ _) = True"
| "receiver_reads _ = False"

definition read_locked :: "client_proc \<Rightarrow> bool" where
  "read_locked s \<longleftrightarrow> (\<exists>x\<in>#cp_rewatchers s. rewatcher_reads x) \<or> (\<exists>x\<in>#cp_receivers s. receiver_reads x)"

text \<open>\<open>c.Watch(key, prefix)\<close> of the rewatching goroutine, and what the sender records.\<close>

definition rewatch_request :: "string \<Rightarrow> pb_WatchRequest" where
  "rewatch_request key = client_Watch key (HasSuffix key suffixForKeysUsingPrefix)"

definition recorded :: "pb_WatchRequest \<Rightarrow> string list \<Rightarrow> string list" where
  "recorded r keys =
     (let key = (if WatchRequest_Prefix r then WatchRequest_Key r @ suffixForKeysUsingPrefix else WatchRequest_Key r) in
      if WatchRequest_Cancel r then removeAll key keys else List.insert key keys)"

definition take_request :: "pb_WatchRequest \<Rightarrow> bool \<Rightarrow> client_proc \<Rightarrow> client_proc" where
  "take_request r ok s = s\<lparr>cp_process := P_Answer r ok, cp_sent := (if ok then cp_sent s @ [r] else cp_sent s)\<rparr>"

definition answered :: "pb_WatchRequest \<Rightarrow> bool \<Rightarrow> client_goroutine" where
  "answered r ok = (if ok then P_Record r else P_Exit)"

text \<open>
  A section under the write lock is one step, possible when nobody holds the read lock; a
  reader may pass a waiting writer (the real lock lets it wait, so it has fewer runs).  A
  receiver's and a closer's send on \<open>closeCh\<close> meets the \<open>select\<close>.
\<close>

inductive client_live :: "client_proc \<Rightarrow> client_proc \<Rightarrow> bool" where
  Open_Stream: "cp_process s = P_Open \<Longrightarrow>
    client_live s (s\<lparr>cp_process := P_Select, cp_stream := True,
      cp_receivers := add_mset R_Recv (cp_receivers s), cp_rewatchers := add_mset Rw_Start (cp_rewatchers s)\<rparr>)"
| Open_Fails: "cp_process s = P_Open \<Longrightarrow> client_live s (s\<lparr>cp_process := P_Exit\<rparr>)"
| Rewatch_RLock: "cp_rewatchers s = add_mset Rw_Start xs \<Longrightarrow> distinct ks \<Longrightarrow> set ks = set (cp_watching s) \<Longrightarrow>
    client_live s (s\<lparr>cp_rewatchers := add_mset (Rw_Send ks) xs\<rparr>)"
| Rewatch_RUnlock: "cp_rewatchers s = add_mset (Rw_Send []) xs \<Longrightarrow> client_live s (s\<lparr>cp_rewatchers := xs\<rparr>)"
| Rewatch: "cp_rewatchers s = add_mset (Rw_Send (k # ks)) xs \<Longrightarrow> cp_process s = P_Select \<Longrightarrow>
    client_live s (take_request (rewatch_request k) ok (s\<lparr>cp_rewatchers := add_mset (Rw_Wait ks) xs\<rparr>))"
| Ask: "client_live s (s\<lparr>cp_asking := add_mset r (cp_asking s)\<rparr>)"
| Request: "cp_asking s = add_mset r rs \<Longrightarrow> cp_process s = P_Select \<Longrightarrow>
    client_live s (take_request r ok (s\<lparr>cp_asking := rs, cp_asked := Suc (cp_asked s)\<rparr>))"
| Answer_Rewatch: "cp_process s = P_Answer r ok \<Longrightarrow> cp_rewatchers s = add_mset (Rw_Wait ks) xs \<Longrightarrow>
    client_live s (s\<lparr>cp_process := answered r ok, cp_rewatchers := add_mset (Rw_Send ks) xs\<rparr>)"
| Answer_Request: "cp_process s = P_Answer r ok \<Longrightarrow> cp_asked s = Suc n \<Longrightarrow>
    client_live s (s\<lparr>cp_process := answered r ok, cp_asked := n\<rparr>)"
| Record: "cp_process s = P_Record r \<Longrightarrow> \<not> read_locked s \<Longrightarrow>
    client_live s (s\<lparr>cp_process := P_Select, cp_watching := recorded r (cp_watching s)\<rparr>)"
| Receive: "cp_receivers s = add_mset R_Recv xs \<Longrightarrow> client_live s (s\<lparr>cp_receivers := add_mset (R_Event ev) xs\<rparr>)"
| Receive_Fails: "cp_receivers s = add_mset R_Recv xs \<Longrightarrow> client_live s (s\<lparr>cp_receivers := add_mset R_Waiting xs\<rparr>)"
| Receiver_RLock: "cp_receivers s = add_mset (R_Event ev) xs \<Longrightarrow> distinct chs \<Longrightarrow> set chs = ran (cp_watchers s) \<Longrightarrow>
    client_live s (s\<lparr>cp_receivers := add_mset (R_Deliver ev chs) xs, cp_got := cp_got s @ [ev]\<rparr>)"
| Deliver: "cp_receivers s = add_mset (R_Deliver ev (ch # chs)) xs \<Longrightarrow> length (cp_buffer s ch) < channel_capacity \<Longrightarrow>
    client_live s (s\<lparr>cp_receivers := add_mset (R_Deliver ev chs) xs,
      cp_buffer := (cp_buffer s)(ch := cp_buffer s ch @ [ev])\<rparr>)"
| Receiver_RUnlock: "cp_receivers s = add_mset (R_Deliver ev []) xs \<Longrightarrow>
    client_live s (s\<lparr>cp_receivers := add_mset R_Recv xs\<rparr>)"
| Consume: "cp_buffer s ch = ev # evs \<Longrightarrow>
    client_live s (s\<lparr>cp_buffer := (cp_buffer s)(ch := evs), cp_read := (cp_read s)(ch := cp_read s ch @ [ev])\<rparr>)"
| Take_Receiver: "cp_process s = P_Select \<Longrightarrow> cp_receivers s = add_mset R_Waiting xs \<Longrightarrow>
    client_live s (s\<lparr>cp_process := P_Exit, cp_receivers := xs\<rparr>)"
| Take_Closer: "cp_process s = P_Select \<Longrightarrow> cp_close s = C_Send \<Longrightarrow>
    client_live s (s\<lparr>cp_process := P_Exit, cp_close := C_Returned\<rparr>)"
| Reopen: "cp_process s = P_Exit \<Longrightarrow> \<not> cp_closing s \<Longrightarrow> client_live s (s\<lparr>cp_process := P_Open\<rparr>)"
| Shut: "cp_process s = P_Exit \<Longrightarrow> cp_closing s \<Longrightarrow> cp_stream s \<Longrightarrow> client_live s (s\<lparr>cp_process := P_Gone\<rparr>)"
| Shut_Panics: "cp_process s = P_Exit \<Longrightarrow> cp_closing s \<Longrightarrow> \<not> cp_stream s \<Longrightarrow>
    client_live s (s\<lparr>cp_crash := Crash_Close\<rparr>)"
| Late_Request: "cp_process s = P_Gone \<Longrightarrow> cp_asking s \<noteq> {#} \<or> (\<exists>k ks. Rw_Send (k # ks) \<in># cp_rewatchers s) \<Longrightarrow>
    client_live s (s\<lparr>cp_crash := Crash_Request\<rparr>)"
| New_Channel: "client_live s (s\<lparr>cp_calls := add_mset (Opening (cp_newID s)) (cp_calls s)\<rparr>)"
| New_ID: "cp_calls s = add_mset (Opening i) cs \<Longrightarrow>
    client_live s (s\<lparr>cp_calls := add_mset (Registering i) cs, cp_newID := cp_newID s + 1\<rparr>)"
| Register: "cp_calls s = add_mset (Registering i) cs \<Longrightarrow> \<not> read_locked s \<Longrightarrow>
    client_live s (s\<lparr>cp_calls := cs, cp_watchers := (cp_watchers s)(i \<mapsto> cp_next s), cp_next := Suc (cp_next s),
      cp_since := (cp_since s)(cp_next s := length (cp_got s))\<rparr>)"
| Close_Channel: "client_live s (s\<lparr>cp_calls := add_mset (Unregistering i) (cp_calls s)\<rparr>)"
| Unregister: "cp_calls s = add_mset (Unregistering i) cs \<Longrightarrow> \<not> read_locked s \<Longrightarrow>
    client_live s (s\<lparr>cp_calls := cs, cp_watchers := (cp_watchers s)(i := None)\<rparr>)"
| Call_Close: "cp_close s = C_Idle \<Longrightarrow> client_live s (s\<lparr>cp_close := C_Lock\<rparr>)"
| Close_Locked: "cp_close s = C_Lock \<Longrightarrow> \<not> read_locked s \<Longrightarrow>
    client_live s (s\<lparr>cp_closing := True, cp_close := C_Send\<rparr>)"

inductive_cases client_liveE: "client_live s s'"

text \<open>A panic ends the program.\<close>

definition client_step :: "client_proc \<Rightarrow> client_proc \<Rightarrow> bool" where
  "client_step s s' \<longleftrightarrow> cp_crash s = No_Crash \<and> client_live s s'"

abbreviation client_steps :: "client_proc \<Rightarrow> client_proc \<Rightarrow> bool" where
  "client_steps \<equiv> client_step\<^sup>*\<^sup>*"

text \<open>The steps act on channels and keys like the functions of \<open>Client_State\<close>.\<close>

lemma recorded_record_request: "cw_watching (record_request r c) = recorded r (cw_watching c)"
  by (simp add: record_request_def recorded_def Let_def)

lemma rewatch_requests: "rewatch c = map rewatch_request (cw_watching c)"
  by (simp add: rewatch_def rewatch_request_def)

section \<open>The life of the connection\<close>

text \<open>What \<open>Client_Close\<close> sees of a client.\<close>

fun process_of :: "client_goroutine \<Rightarrow> process" where
  "process_of P_Open = Pr_Open"
| "process_of P_Select = Pr_Serve"
| "process_of (P_Answer _ _) = Pr_Serve"
| "process_of (P_Record _) = Pr_Serve"
| "process_of P_Exit = Pr_Exit"
| "process_of P_Gone = Pr_Gone"

fun closer_of :: "close_call \<Rightarrow> closer" where
  "closer_of C_Idle = Cl_Idle"
| "closer_of C_Lock = Cl_Idle"
| "closer_of C_Send = Cl_Send"
| "closer_of C_Returned = Cl_Returned"

definition conn_of :: "client_proc \<Rightarrow> conn" where
  "conn_of s = \<lparr>cn_process = process_of (cp_process s), cn_closer = closer_of (cp_close s), cn_closing = cp_closing s,
     cn_stream = cp_stream s, cn_receiving = size (filter_mset (\<lambda>x. x \<noteq> R_Waiting) (cp_receivers s)),
     cn_waiting = size (filter_mset (\<lambda>x. x = R_Waiting) (cp_receivers s)),
     cn_panicked = (cp_crash s = Crash_Close)\<rparr>"

lemma conn_of_new: "conn_of new_client = dialled"
  by (simp add: conn_of_def new_client_def dialled_def)

lemma conn_of_step:
  assumes "client_step s s'"
  shows "conn_of s' = conn_of s \<or> conn_step (conn_of s) (conn_of s')"
proof -
  have "\<not> cn_panicked (conn_of s)" using assms by (simp add: client_step_def conn_of_def)
  moreover have "conn_of s' = conn_of s \<or> conn_live (conn_of s) (conn_of s')"
    using assms unfolding client_step_def
    by (elim conjE client_live.cases)
      (auto simp: conn_of_def take_request_def answered_def conn_live.simps)
  ultimately show ?thesis by (simp add: conn_step_def)
qed

lemma conn_of_steps: "client_steps s s' \<Longrightarrow> conn_steps (conn_of s) (conn_of s')"
  by (induction rule: rtranclp_induct) (auto dest: conn_of_step intro: rtranclp.rtrancl_into_rtrancl)

section \<open>What reaches an event channel\<close>

text \<open>The events a receiver still has to put on a channel.\<close>

fun owed :: "nat \<Rightarrow> receiver_state \<Rightarrow> pb_Event list" where
  "owed ch (R_Deliver ev chs) = (if ch \<in> set chs then [ev] else [])"
| "owed ch _ = []"

definition owed_all :: "nat \<Rightarrow> client_proc \<Rightarrow> pb_Event multiset" where
  "owed_all ch s = (\<Sum>x\<in>#cp_receivers s. mset (owed ch x))"

abbreviation on_channel :: "nat \<Rightarrow> client_proc \<Rightarrow> pb_Event list" where
  "on_channel ch s \<equiv> cp_read s ch @ cp_buffer s ch"

text \<open>
  The channels of a delivery are registered and different; an unmade channel is empty; a
  registered one has, or is owed, each event received since then once.
\<close>

definition deliveries_ok :: "client_proc \<Rightarrow> bool" where
  "deliveries_ok s \<longleftrightarrow> (\<forall>ev chs. R_Deliver ev chs \<in># cp_receivers s \<longrightarrow> distinct chs \<and> set chs \<subseteq> ran (cp_watchers s)) \<and>
     (\<forall>ch\<in>ran (cp_watchers s). ch < cp_next s) \<and> (\<forall>ch\<ge>cp_next s. on_channel ch s = [])"

definition events_inv :: "client_proc \<Rightarrow> bool" where
  "events_inv s \<longleftrightarrow> deliveries_ok s \<and>
     (\<forall>ch\<in>ran (cp_watchers s). cp_since s ch \<le> length (cp_got s) \<and>
        mset (on_channel ch s) + owed_all ch s = mset (drop (cp_since s ch) (cp_got s)))"

lemma not_read_locked:
  "\<not> read_locked s \<Longrightarrow> R_Deliver ev chs \<notin># cp_receivers s" "\<not> read_locked s \<Longrightarrow> owed_all ch s = {#}"
proof -
  assume n: "\<not> read_locked s"
  then show "R_Deliver ev chs \<notin># cp_receivers s" by (auto simp: read_locked_def)
  have "\<forall>x\<in>#cp_receivers s. mset (owed ch x) = {#}"
    using n by (auto simp: read_locked_def) (metis owed.simps(2-4) receiver_reads.elims(3))
  then show "owed_all ch s = {#}" by (simp add: owed_all_def)
qed

lemma ran_update: "ran (m(i \<mapsto> x)) \<subseteq> insert x (ran m)"
  by (auto simp: ran_def)

lemma ran_remove: "ran (m(i := None)) \<subseteq> ran m"
  by (auto simp: ran_def)

lemma deliveries_ok_step:
  assumes "client_step s s'" and "deliveries_ok s"
  shows "deliveries_ok s'"
proof -
  have "client_live s s'" using assms(1) by (simp add: client_step_def)
  then show ?thesis
  proof cases
    case (Register i cs)
    then show ?thesis using assms(2) not_read_locked(1) [OF Register(3)] ran_update [of "cp_watchers s" i "cp_next s"]
      by (fastforce simp: deliveries_ok_def less_Suc_eq)
  next
    case (Unregister i cs)
    then show ?thesis using assms(2) not_read_locked(1) [OF Unregister(3)] ran_remove [of "cp_watchers s" i]
      by (auto simp: deliveries_ok_def)
  next
    case (Deliver ev ch chs xs)
    then show ?thesis using assms(2) by (fastforce simp: deliveries_ok_def)
  qed (use assms(2) in \<open>auto simp: deliveries_ok_def take_request_def\<close>)
qed

lemma events_inv_step:
  assumes "client_step s s'" and "events_inv s"
  shows "events_inv s'"
proof -
  have live: "client_live s s'" using assms(1) by (simp add: client_step_def)
  have ok: "deliveries_ok s" and ok': "deliveries_ok s'"
    using assms deliveries_ok_step by (auto simp: events_inv_def)
  from live show ?thesis
  proof cases
    case (Receiver_RLock ev xs chs)
    then show ?thesis using assms(2) ok' by (auto simp: events_inv_def owed_all_def)
  next
    case (Deliver ev ch chs xs)
    have "ch \<notin> set chs" using ok Deliver(2) by (auto simp: deliveries_ok_def)
    then show ?thesis using assms(2) ok' Deliver by (auto simp: events_inv_def owed_all_def)
  next
    case (Consume ch ev evs)
    then show ?thesis using assms(2) ok' by (auto simp: events_inv_def owed_all_def)
  next
    case (Register i cs)
    show ?thesis using assms(2) ok ok' Register not_read_locked(2) [OF Register(3)] ran_update [of "cp_watchers s" i "cp_next s"]
      by (fastforce simp: events_inv_def owed_all_def deliveries_ok_def)
  next
    case (Unregister i cs)
    show ?thesis using assms(2) ok' Unregister ran_remove [of "cp_watchers s" i]
      by (auto simp: events_inv_def owed_all_def)
  qed (use assms(2) ok' in \<open>auto simp: events_inv_def owed_all_def take_request_def\<close>)
qed

lemma events_inv_new: "events_inv new_client"
  by (simp add: events_inv_def deliveries_ok_def new_client_def)

lemma events_inv_steps: "client_steps s s' \<Longrightarrow> events_inv s \<Longrightarrow> events_inv s'"
  by (induction rule: rtranclp_induct) (auto intro: events_inv_step)

text \<open>
  Runs in which no \<open>Send\<close> fails.  Then there is one receiver at a time, and the events come in
  the order in which they were received.
\<close>

definition orderly_step :: "client_proc \<Rightarrow> client_proc \<Rightarrow> bool" where
  "orderly_step s s' \<longleftrightarrow> client_step s s' \<and> (\<forall>r. cp_process s' \<noteq> P_Answer r False)"

abbreviation orderly_steps :: "client_proc \<Rightarrow> client_proc \<Rightarrow> bool" where
  "orderly_steps \<equiv> orderly_step\<^sup>*\<^sup>*"

definition one_receiver :: "client_proc \<Rightarrow> bool" where
  "one_receiver s \<longleftrightarrow> size (cp_receivers s) \<le> 1 \<and> (cp_process s = P_Open \<longrightarrow> cp_receivers s = {#}) \<and>
     (cp_process s = P_Exit \<longrightarrow> cp_receivers s = {#} \<or> cp_closing s) \<and>
     (cp_close s \<in> {C_Send, C_Returned} \<longrightarrow> cp_closing s) \<and> (\<forall>r. cp_process s \<noteq> P_Answer r False)"

lemma one_receiver_step:
  assumes "orderly_step s s'" and "one_receiver s"
  shows "one_receiver s'"
proof -
  have "client_live s s'" and "\<forall>r. cp_process s' \<noteq> P_Answer r False"
    using assms(1) by (simp_all add: orderly_step_def client_step_def)
  then show ?thesis using assms(2)
    by (cases rule: client_live.cases) (auto simp: one_receiver_def take_request_def answered_def)
qed

definition in_order :: "client_proc \<Rightarrow> bool" where
  "in_order s \<longleftrightarrow> (\<forall>ch\<in>ran (cp_watchers s). cp_since s ch \<le> length (cp_got s) \<and>
     (\<forall>xs. mset xs = cp_receivers s \<longrightarrow>
        on_channel ch s @ concat (map (owed ch) xs) = drop (cp_since s ch) (cp_got s)))"

text \<open>With one receiver in sight, \<open>in_order\<close> is about its events alone.\<close>

lemma in_order_one:
  "cp_receivers s = {#x#} \<Longrightarrow> in_order s \<longleftrightarrow> (\<forall>ch\<in>ran (cp_watchers s). cp_since s ch \<le> length (cp_got s) \<and>
     on_channel ch s @ owed ch x = drop (cp_since s ch) (cp_got s))"
  "cp_receivers s = {#} \<Longrightarrow> in_order s \<longleftrightarrow> (\<forall>ch\<in>ran (cp_watchers s). cp_since s ch \<le> length (cp_got s) \<and>
     on_channel ch s = drop (cp_since s ch) (cp_got s))"
  by (auto simp: in_order_def)

lemma one_receiver_cases:
  assumes "one_receiver s"
  obtains "cp_receivers s = {#}" | x where "cp_receivers s = {#x#}"
  using assms by (cases "cp_receivers s") (auto simp: one_receiver_def)

lemma in_order_step:
  assumes "orderly_step s s'" and "one_receiver s" and "deliveries_ok s" and "in_order s"
  shows "in_order s'"
proof -
  have live: "client_live s s'" using assms(1) by (simp_all add: orderly_step_def client_step_def)
  have "one_receiver s'" using assms one_receiver_step by blast
  then have one: "add_mset x xs = cp_receivers s \<Longrightarrow> xs = {#}" for x xs
    using assms(2) by (metis one_receiver_cases add_mset_eq_single add_mset_not_empty)
  from live show ?thesis
  proof cases
    case (Open_Stream)
    then show ?thesis using assms(2,4) by (simp add: one_receiver_def in_order_one)
  next
    case (Register i cs)
    have unowed: "concat (map (owed ch) xs) = []" if "mset xs = cp_receivers s" for ch xs
      using not_read_locked(2) [OF Register(3), of ch] by (auto simp: owed_all_def that [symmetric])
    have "cp_since s' ch \<le> length (cp_got s') \<and>
        (\<forall>xs. mset xs = cp_receivers s' \<longrightarrow> on_channel ch s' @ concat (map (owed ch) xs) = drop (cp_since s' ch) (cp_got s'))"
      if "ch \<in> ran (cp_watchers s')" for ch
    proof (cases "ch = cp_next s")
      case True
      have "on_channel ch s = []" using assms(3) True by (simp add: deliveries_ok_def)
      with True show ?thesis using unowed by (simp add: Register)
    next
      case False
      then have "ch \<in> ran (cp_watchers s)"
        using that ran_update [of "cp_watchers s" i "cp_next s"] by (auto simp: Register)
      with False show ?thesis using assms(4) by (simp add: Register in_order_def)
    qed
    then show ?thesis by (simp only: in_order_def) blast
  next
    case (Unregister i cs)
    then show ?thesis using assms(4) ran_remove [of "cp_watchers s" i] by (auto simp: in_order_def)
  next
    case (Receive xs ev)
    then show ?thesis using assms(4) one [OF Receive(2) [symmetric]] by (simp add: in_order_one)
  next
    case (Receive_Fails xs)
    then show ?thesis using assms(4) one [OF Receive_Fails(2) [symmetric]] by (simp add: in_order_one)
  next
    case (Receiver_RLock ev xs chs)
    then show ?thesis using assms(4) one [OF Receiver_RLock(2) [symmetric]]
      by (auto simp: in_order_one le_SucI)
  next
    case (Deliver ev ch chs xs)
    then show ?thesis using assms(3,4) one [OF Deliver(2) [symmetric]]
      by (auto simp: in_order_one deliveries_ok_def)
  next
    case (Receiver_RUnlock ev xs)
    then show ?thesis using assms(4) one [OF Receiver_RUnlock(2) [symmetric]] by (simp add: in_order_one)
  next
    case (Take_Receiver xs)
    then show ?thesis using assms(4) one [OF Take_Receiver(3) [symmetric]] by (simp add: in_order_one)
  qed (use assms(4) in \<open>auto simp: in_order_def take_request_def\<close>)
qed

lemma orderly_invs:
  assumes "orderly_steps new_client s"
  shows "one_receiver s \<and> deliveries_ok s \<and> in_order s"
  using assms
proof (induction rule: rtranclp_induct)
  case base
  then show ?case by (simp add: one_receiver_def deliveries_ok_def in_order_def new_client_def)
next
  case (step y z)
  then show ?case using one_receiver_step in_order_step deliveries_ok_step unfolding orderly_step_def by blast
qed

lemma channel_in_order:
  assumes "orderly_steps new_client s" and "cp_watchers s i = Some ch"
  shows "prefix (on_channel ch s) (drop (cp_since s ch) (cp_got s)) \<and>
    length (drop (cp_since s ch) (cp_got s)) \<le> Suc (length (on_channel ch s))"
proof -
  have ch: "ch \<in> ran (cp_watchers s)" using assms(2) by (rule ranI)
  have inv: "one_receiver s" "in_order s" using orderly_invs [OF assms(1)] by blast+
  obtain xs where xs: "mset xs = cp_receivers s" using ex_mset by blast
  have eq: "drop (cp_since s ch) (cp_got s) = on_channel ch s @ concat (map (owed ch) xs)"
    using inv(2) ch xs by (simp add: in_order_def)
  have "length xs \<le> 1" using inv(1) by (simp add: one_receiver_def flip: xs)
  moreover have "length (owed ch x) \<le> 1" for x by (cases x) simp_all
  ultimately have "length (concat (map (owed ch) xs)) \<le> 1" by (cases xs) simp_all
  then show ?thesis unfolding eq by simp
qed

section \<open>Readers that never finish\<close>

text \<open>
  A receiver that has an event for a full channel whose reader has stopped, or a rewatching
  goroutine that waits for the sender while the sender waits for the write lock.
\<close>

fun needs_sender :: "rewatcher \<Rightarrow> bool" where
  "needs_sender (Rw_Send (k # ks)) = True"
| "needs_sender (Rw_Wait ks) = True"
| "needs_sender _ = False"

definition reader_stuck :: "nat set \<Rightarrow> client_proc \<Rightarrow> bool" where
  "reader_stuck unread s \<longleftrightarrow>
     ((\<exists>r. cp_process s = P_Record r) \<and> (\<exists>x\<in>#cp_rewatchers s. needs_sender x)) \<or>
     (\<exists>ev ch chs. R_Deliver ev (ch # chs) \<in># cp_receivers s \<and> ch \<in> unread \<and> channel_capacity \<le> length (cp_buffer s ch))"

text \<open>Steps in which nobody reads from the channels \<open>unread\<close>.\<close>

definition unread_step :: "nat set \<Rightarrow> client_proc \<Rightarrow> client_proc \<Rightarrow> bool" where
  "unread_step unread s s' \<longleftrightarrow> client_step s s' \<and> (\<forall>ch\<in>unread. cp_read s' ch = cp_read s ch)"

abbreviation unread_steps :: "nat set \<Rightarrow> client_proc \<Rightarrow> client_proc \<Rightarrow> bool" where
  "unread_steps unread \<equiv> (unread_step unread)\<^sup>*\<^sup>*"

lemma needs_senderI:
  "Rw_Send (k # ks) \<in># X \<Longrightarrow> \<exists>x\<in>#X. needs_sender x"
  "Rw_Wait ks \<in># X \<Longrightarrow> \<exists>x\<in>#X. needs_sender x"
  by (auto intro: bexI [rotated])

lemma needs_sender_reads: "needs_sender x \<Longrightarrow> rewatcher_reads x"
  by (cases x) simp_all

lemma reader_stuck_locked: "reader_stuck unread s \<Longrightarrow> read_locked s"
  unfolding reader_stuck_def read_locked_def by (fastforce intro: needs_sender_reads)

lemma reader_stuck_step:
  assumes "unread_step unread s s'" and "reader_stuck unread s"
  shows "reader_stuck unread s'"
proof -
  have live: "client_live s s'" and unread: "\<forall>ch\<in>unread. cp_read s' ch = cp_read s ch" and locked: "read_locked s"
    using assms reader_stuck_locked by (auto simp: unread_step_def client_step_def)
  from assms(2) consider (sender) r x where "cp_process s = P_Record r" "x \<in># cp_rewatchers s" "needs_sender x"
    | (full) ev ch chs where "R_Deliver ev (ch # chs) \<in># cp_receivers s" "ch \<in> unread" "channel_capacity \<le> length (cp_buffer s ch)"
    unfolding reader_stuck_def by blast
  then show ?thesis
  proof cases
    case sender
    from live sender(1) locked have "cp_process s' = P_Record r"
      by (cases rule: client_live.cases) simp_all
    moreover have "x \<in># cp_rewatchers s'"
      using live sender locked by (cases rule: client_live.cases) auto
    ultimately show ?thesis using sender(3) by (auto simp: reader_stuck_def)
  next
    case full
    have "R_Deliver ev (ch # chs) \<in># cp_receivers s'"
      using live full(1,3) by (cases rule: client_live.cases) (auto simp: take_request_def)
    moreover have "channel_capacity \<le> length (cp_buffer s' ch)"
      using live unread full(2,3) by (cases rule: client_live.cases) (auto simp: take_request_def)
    ultimately show ?thesis using full(2) unfolding reader_stuck_def by blast
  qed
qed

text \<open>Calls that wait for the write lock.\<close>

definition waiting_calls :: "client_proc \<Rightarrow> channel_call multiset" where
  "waiting_calls s = filter_mset (\<lambda>c. \<forall>i. c \<noteq> Opening i) (cp_calls s)"

lemma read_locked_step:
  assumes "client_step s s'" and "read_locked s"
  shows "waiting_calls s \<subseteq># waiting_calls s' \<and> cp_watchers s' = cp_watchers s \<and> cp_watching s' = cp_watching s \<and>
    cp_closing s' = cp_closing s \<and> (cp_close s = C_Lock \<longrightarrow> cp_close s' = C_Lock) \<and>
    (\<forall>r. cp_process s = P_Record r \<longrightarrow> cp_process s' = P_Record r)"
proof -
  have "client_live s s'" using assms(1) by (simp add: client_step_def)
  then show ?thesis using assms(2)
    by (cases rule: client_live.cases) (auto simp: waiting_calls_def take_request_def)
qed

lemma reader_stuck_steps:
  assumes "unread_steps unread s s'" and "reader_stuck unread s"
  shows "reader_stuck unread s' \<and> waiting_calls s \<subseteq># waiting_calls s' \<and> cp_watchers s' = cp_watchers s \<and>
    cp_watching s' = cp_watching s \<and> cp_closing s' = cp_closing s \<and> (cp_close s = C_Lock \<longrightarrow> cp_close s' = C_Lock) \<and>
    (\<forall>r. cp_process s = P_Record r \<longrightarrow> cp_process s' = P_Record r)"
  using assms(1)
proof (induction rule: rtranclp_induct)
  case (step y z)
  have "read_locked y" using step(3) reader_stuck_locked by blast
  moreover have "client_step y z" using step(2) by (simp add: unread_step_def)
  ultimately show ?case
    using step(3) reader_stuck_step [OF step(2)] read_locked_step [of y z] by (auto intro: subset_mset.trans)
qed (simp add: assms(2))

text \<open>
  After a reconnect with two or more keys, a run in which no \<open>Send\<close> fails gets there as soon as
  one request has been answered, and until then no key has been sent.
\<close>

definition jammed :: "string list \<Rightarrow> nat \<Rightarrow> client_proc \<Rightarrow> bool" where
  "jammed ks n s \<longleftrightarrow> (\<forall>r. cp_process s \<noteq> P_Answer r False) \<and>
     (if \<exists>r. cp_process s = P_Record r then reader_stuck {} s \<and> length (cp_sent s) = Suc n
      else if \<exists>r. cp_process s = P_Answer r True then length (cp_sent s) = Suc n \<and>
        (Rw_Send ks \<in># cp_rewatchers s \<or> Rw_Wait (tl ks) \<in># cp_rewatchers s)
      else Rw_Send ks \<in># cp_rewatchers s \<and> length (cp_sent s) = n)"

lemma jammed_step:
  assumes "orderly_step s s'" and "jammed ks n s" and "2 \<le> length ks"
  shows "jammed ks n s'"
proof -
  obtain k l ls where ks: "ks = k # l # ls" using assms(3) by (cases ks; cases "tl ks") auto
  have live: "client_live s s'" and ok: "\<forall>r. cp_process s' \<noteq> P_Answer r False"
    using assms(1) by (simp_all add: orderly_step_def client_step_def)
  show ?thesis
  proof (cases "\<exists>r. cp_process s = P_Record r")
    case True
    then have stuck: "reader_stuck {} s" and n: "length (cp_sent s) = Suc n" using assms(2) by (auto simp: jammed_def)
    have u: "unread_step {} s s'" using assms(1) by (simp add: unread_step_def orderly_step_def)
    from True obtain r where r: "cp_process s = P_Record r" by blast
    then have "cp_process s' = P_Record r"
      using read_locked_step [of s s'] reader_stuck_locked [OF stuck] u by (simp add: unread_step_def)
    moreover have "length (cp_sent s') = Suc n" using live r n by (cases rule: client_live.cases) (auto simp: take_request_def)
    ultimately show ?thesis using reader_stuck_step [OF u stuck] by (simp add: jammed_def)
  next
    case False
    from live ok assms(2) False show ?thesis
      by (cases rule: client_live.cases)
        (auto simp: jammed_def take_request_def answered_def ks reader_stuck_def, (fastforce dest: bspec intro: needs_senderI)+)
  qed
qed

lemma jammed_steps:
  assumes "orderly_steps s s'" and "jammed ks n s" and "2 \<le> length ks"
  shows "jammed ks n s'"
  using assms(1)
proof (induction rule: rtranclp_induct)
  case (step y z)
  then show ?case using jammed_step [OF _ _ assms(3)] by blast
qed (rule assms(2))

lemma two_keys_deadlock:
  assumes "Rw_Send ks \<in># cp_rewatchers s" and "2 \<le> length ks" and "cp_process s = P_Select" and "orderly_steps s s'"
  shows "length (cp_sent s') \<le> Suc (length (cp_sent s)) \<and>
    ((\<exists>r. cp_process s' = P_Record r) \<longrightarrow> reader_stuck {} s')"
proof -
  have "jammed ks (length (cp_sent s)) s" using assms(1,3) by (simp add: jammed_def)
  from jammed_steps [OF assms(4) this assms(2)] show ?thesis by (auto simp: jammed_def split: if_splits)
qed

text \<open>A single watched key is watched again.\<close>

lemma single_watch_restored:
  assumes "cp_process s = P_Open" and "cp_crash s = No_Crash" and "cp_watching s = [k]"
    and "cp_rewatchers s = {#}" and "cp_receivers s = {#}"
  shows "\<exists>s'. orderly_steps s s' \<and> cp_process s' = P_Select \<and> cp_rewatchers s' = {#} \<and>
    cp_sent s' = cp_sent s @ [rewatch_request k]"
proof -
  let ?r = "rewatch_request k"
  let ?a = "s\<lparr>cp_process := P_Select, cp_stream := True, cp_receivers := {#R_Recv#}, cp_rewatchers := {#Rw_Start#}\<rparr>"
  let ?b = "?a\<lparr>cp_rewatchers := {#Rw_Send [k]#}\<rparr>"
  let ?c = "take_request ?r True (?b\<lparr>cp_rewatchers := {#Rw_Wait []#}\<rparr>)"
  let ?d = "?c\<lparr>cp_process := P_Record ?r, cp_rewatchers := {#Rw_Send []#}\<rparr>"
  let ?e = "?d\<lparr>cp_rewatchers := {#}\<rparr>"
  let ?f = "?e\<lparr>cp_process := P_Select, cp_watching := recorded ?r [k]\<rparr>"
  have "client_live s ?a" using client_live.Open_Stream [of s] assms by simp
  moreover have "client_live ?a ?b" using client_live.Rewatch_RLock [of ?a "{#}" "[k]"] assms(3) by simp
  moreover have "client_live ?b ?c" by (rule client_live.Rewatch) simp_all
  moreover have "client_live ?c ?d" using client_live.Answer_Rewatch [of ?c ?r True "[]" "{#}"] by (simp add: answered_def take_request_def)
  moreover have "client_live ?d ?e" using client_live.Rewatch_RUnlock [of ?d "{#}"] by simp
  moreover have "client_live ?e ?f" using client_live.Record [of ?e ?r] assms(3) by (simp add: read_locked_def take_request_def)
  ultimately have "orderly_step s ?a" "orderly_step ?a ?b" "orderly_step ?b ?c" "orderly_step ?c ?d" "orderly_step ?d ?e"
      "orderly_step ?e ?f"
    using assms(2) by (simp_all add: orderly_step_def client_step_def take_request_def)
  then have "orderly_steps s ?f" by (meson rtranclp.rtrancl_into_rtrancl rtranclp.rtrancl_refl)
  then show ?thesis by (intro exI [where x = ?f]) (simp add: take_request_def)
qed

section \<open>Races\<close>

text \<open>
  After a failed \<open>Send\<close> the old receiver goes on, and the next stream has two; and two calls of
  \<open>NewEventChannel\<close> at the same time can be given one id, so that the first channel is lost.
\<close>

lemma two_receivers:
  "\<exists>s. client_steps new_client s \<and> cp_process s = P_Select \<and> {#R_Recv, R_Recv#} \<subseteq># cp_receivers s"
proof -
  let ?a = "new_client\<lparr>cp_process := P_Select, cp_stream := True, cp_receivers := {#R_Recv#}, cp_rewatchers := {#Rw_Start#}\<rparr>"
  let ?b = "?a\<lparr>cp_asking := {#r#}\<rparr>"
  let ?c = "?a\<lparr>cp_process := P_Answer r False, cp_asked := 1\<rparr>"
  let ?d = "?a\<lparr>cp_process := P_Exit\<rparr>"
  let ?e = "?a\<lparr>cp_process := P_Open\<rparr>"
  let ?f = "?a\<lparr>cp_receivers := {#R_Recv, R_Recv#}, cp_rewatchers := {#Rw_Start, Rw_Start#}\<rparr>"
  have "client_live new_client ?a" using client_live.Open_Stream [of new_client] by (simp add: new_client_def)
  moreover have "client_live ?a ?b" using client_live.Ask [of ?a r] by (simp add: new_client_def)
  moreover have "client_live ?b ?c" using client_live.Request [of ?b r "{#}" False] by (simp add: take_request_def new_client_def)
  moreover have "client_live ?c ?d" using client_live.Answer_Request [of ?c r False 0] by (simp add: answered_def new_client_def)
  moreover have "client_live ?d ?e" using client_live.Reopen [of ?d] by (simp add: new_client_def)
  moreover have "client_live ?e ?f" using client_live.Open_Stream [of ?e] by (simp add: new_client_def)
  ultimately have "client_step new_client ?a" "client_step ?a ?b" "client_step ?b ?c" "client_step ?c ?d" "client_step ?d ?e"
      "client_step ?e ?f"
    by (simp_all add: client_step_def new_client_def)
  then have "client_steps new_client ?f" by (meson rtranclp.rtrancl_into_rtrancl rtranclp.rtrancl_refl)
  then show ?thesis by (intro exI [where x = ?f]) simp
qed

lemma channel_lost:
  "\<exists>s. client_steps new_client s \<and> cp_calls s = {#} \<and> cp_next s = 2 \<and> ran (cp_watchers s) = {1}"
proof -
  let ?a = "new_client\<lparr>cp_calls := {#Opening 0#}\<rparr>"
  let ?b = "new_client\<lparr>cp_calls := {#Opening 0, Opening 0#}\<rparr>"
  let ?c = "new_client\<lparr>cp_calls := {#Registering 0, Opening 0#}, cp_newID := 1\<rparr>"
  let ?d = "new_client\<lparr>cp_calls := {#Registering 0, Registering 0#}, cp_newID := 2\<rparr>"
  let ?e = "?d\<lparr>cp_calls := {#Registering 0#}, cp_watchers := [0 \<mapsto> 0], cp_next := 1\<rparr>"
  let ?f = "?e\<lparr>cp_calls := {#}, cp_watchers := [0 \<mapsto> 1], cp_next := 2\<rparr>"
  have "client_live new_client ?a" using client_live.New_Channel [of new_client] by (simp add: new_client_def)
  moreover have "client_live ?a ?b" using client_live.New_Channel [of ?a] by (simp add: new_client_def)
  moreover have "client_live ?b ?c" using client_live.New_ID [of ?b 0 "{#Opening 0#}"] by (simp add: new_client_def)
  moreover have "client_live ?c ?d" using client_live.New_ID [of ?c 0 "{#Registering 0#}"] by (simp add: new_client_def add_mset_commute)
  moreover have "client_live ?d ?e" using client_live.Register [of ?d 0 "{#Registering 0#}"]
    by (simp add: new_client_def read_locked_def fun_upd_idem)
  moreover have "client_live ?e ?f" using client_live.Register [of ?e 0 "{#}"]
    by (simp add: new_client_def read_locked_def fun_upd_idem numeral_2_eq_2)
  ultimately have "client_step new_client ?a" "client_step ?a ?b" "client_step ?b ?c" "client_step ?c ?d" "client_step ?d ?e"
      "client_step ?e ?f"
    by (simp_all add: client_step_def new_client_def)
  then have "client_steps new_client ?f" by (meson rtranclp.rtrancl_into_rtrancl rtranclp.rtrancl_refl)
  then show ?thesis by (intro exI [where x = ?f]) (simp add: new_client_def)
qed

section \<open>Properties\<close>

text \<open>
  C39. Whatever the goroutines and callers of a client do, its connection lives as in
  \<open>Client_Close\<close>: every run is one of that step relation.  So when the process leaves its
  loop while a call of \<open>Close\<close> waits, the call never returns.
\<close>

theorem client_process_refines_connection:
  assumes "client_steps new_client s"
  shows "conn_steps dialled (conn_of s) \<and>
    (cp_close s = C_Send \<and> cp_process s \<in> {P_Exit, P_Gone} \<longrightarrow> (\<forall>s'. client_steps s s' \<longrightarrow> cp_close s' = C_Send))"
proof (intro conjI impI allI)
  show run: "conn_steps dialled (conn_of s)" using conn_of_steps [OF assms] by (simp add: conn_of_new)
  fix s'
  assume late: "cp_close s = C_Send \<and> cp_process s \<in> {P_Exit, P_Gone}" and s': "client_steps s s'"
  have "conn_inv (conn_of s)" using conn_inv_steps [OF run conn_inv_dialled] .
  then have "closer_stuck (conn_of s)" using late by (auto simp: closer_stuck_def conn_inv_def conn_of_def)
  from closer_stuck_steps [OF conn_of_steps [OF s'] this]
  show "cp_close s' = C_Send" by (cases "cp_close s'") (auto simp: closer_stuck_def conn_of_def)
qed

definition demo_client :: client_proc where
  "demo_client = new_client\<lparr>cp_process := P_Select, cp_stream := True, cp_receivers := {#R_Recv#}, cp_rewatchers := {#Rw_Start#}\<rparr>"

lemma demo_client_step: "client_step new_client demo_client"
  using client_live.Open_Stream [of new_client] by (simp add: client_step_def demo_client_def new_client_def)

theorem client_process_refines_connection_witness:
  "\<exists>s. client_steps new_client s \<and> cp_close s = C_Send \<and> cp_process s = P_Exit \<and>
    \<not> (\<exists>s'. client_steps s s' \<and> cp_close s' = C_Returned)"
proof -
  let ?b = "demo_client\<lparr>cp_receivers := {#R_Waiting#}\<rparr>"
  let ?c = "?b\<lparr>cp_close := C_Lock\<rparr>"
  let ?d = "?b\<lparr>cp_closing := True, cp_close := C_Send\<rparr>"
  let ?e = "?d\<lparr>cp_process := P_Exit, cp_receivers := {#}\<rparr>"
  have "client_live demo_client ?b" using client_live.Receive_Fails [of demo_client "{#}"] by (simp add: demo_client_def)
  moreover have "client_live ?b ?c" using client_live.Call_Close [of ?b] by (simp add: demo_client_def new_client_def)
  moreover have "client_live ?c ?d" using client_live.Close_Locked [of ?c] by (simp add: demo_client_def new_client_def read_locked_def)
  moreover have "client_live ?d ?e" using client_live.Take_Receiver [of ?d "{#}"] by (simp add: demo_client_def)
  ultimately have "client_step demo_client ?b" "client_step ?b ?c" "client_step ?c ?d" "client_step ?d ?e"
    by (simp_all add: client_step_def demo_client_def new_client_def)
  then have run: "client_steps new_client ?e"
    using demo_client_step by (meson rtranclp.rtrancl_into_rtrancl rtranclp.rtrancl_refl)
  from client_process_refines_connection [OF run] have "\<forall>s'. client_steps ?e s' \<longrightarrow> cp_close s' = C_Send" by simp
  with run show ?thesis by (intro exI [where x = ?e]) auto
qed

text \<open>
  C38. A channel that is registered has been given, or is still owed, each event the client
  received since then exactly once, whatever errors, new streams and other calls there were.
  Where no \<open>Send\<close> failed, it has them in the order in which they were received, at most the
  last one missing.
\<close>

theorem event_channels_complete:
  assumes "client_steps new_client s" and "cp_watchers s i = Some ch"
  shows "mset (on_channel ch s) + owed_all ch s = mset (drop (cp_since s ch) (cp_got s)) \<and>
    (orderly_steps new_client s \<longrightarrow> prefix (on_channel ch s) (drop (cp_since s ch) (cp_got s)) \<and>
       length (drop (cp_since s ch) (cp_got s)) \<le> Suc (length (on_channel ch s)))"
  using events_inv_steps [OF assms(1) events_inv_new] ranI [of "cp_watchers s", OF assms(2)] channel_in_order [OF _ assms(2)]
  by (simp add: events_inv_def)

theorem event_channels_complete_witness:
  "\<forall>ev. \<exists>s. orderly_steps new_client s \<and> cp_watchers s 0 = Some 0 \<and> cp_got s = [ev] \<and> cp_buffer s 0 = [ev] \<and>
    prefix (on_channel 0 s) (drop (cp_since s 0) (cp_got s))"
proof
  fix ev :: pb_Event
  let ?a = "new_client\<lparr>cp_calls := {#Opening 0#}\<rparr>"
  let ?b = "new_client\<lparr>cp_calls := {#Registering 0#}, cp_newID := 1\<rparr>"
  let ?c = "new_client\<lparr>cp_newID := 1, cp_watchers := [0 \<mapsto> 0], cp_next := 1\<rparr>"
  let ?d = "?c\<lparr>cp_process := P_Select, cp_stream := True, cp_receivers := {#R_Recv#}, cp_rewatchers := {#Rw_Start#}\<rparr>"
  let ?e = "?d\<lparr>cp_receivers := {#R_Event ev#}\<rparr>"
  let ?f = "?d\<lparr>cp_receivers := {#R_Deliver ev [0]#}, cp_got := [ev]\<rparr>"
  let ?g = "?d\<lparr>cp_receivers := {#R_Deliver ev []#}, cp_got := [ev], cp_buffer := (\<lambda>_. [])(0 := [ev])\<rparr>"
  have "client_live new_client ?a" using client_live.New_Channel [of new_client] by (simp add: new_client_def)
  moreover have "client_live ?a ?b" using client_live.New_ID [of ?a 0 "{#}"] by (simp add: new_client_def)
  moreover have "client_live ?b ?c" using client_live.Register [of ?b 0 "{#}"] by (simp add: new_client_def read_locked_def fun_upd_idem)
  moreover have "client_live ?c ?d" using client_live.Open_Stream [of ?c] by (simp add: new_client_def)
  moreover have "client_live ?d ?e" using client_live.Receive [of ?d "{#}" ev] by (simp add: new_client_def)
  moreover have "client_live ?e ?f" using client_live.Receiver_RLock [of ?e ev "{#}" "[0]"] by (simp add: new_client_def)
  moreover have "client_live ?f ?g" using client_live.Deliver [of ?f ev 0 "[]" "{#}"]
    by (simp add: new_client_def channel_capacity_def)
  ultimately have "orderly_step new_client ?a" "orderly_step ?a ?b" "orderly_step ?b ?c" "orderly_step ?c ?d" "orderly_step ?d ?e"
      "orderly_step ?e ?f" "orderly_step ?f ?g"
    by (simp_all add: orderly_step_def client_step_def new_client_def)
  then have run: "orderly_steps new_client ?g" by (meson rtranclp.rtrancl_into_rtrancl rtranclp.rtrancl_refl)
  then have "client_steps new_client ?g"
    by (rule rtranclp_mono [THEN predicate2D, rotated]) (auto simp: orderly_step_def)
  from event_channels_complete [OF this, of 0 0] run show "\<exists>s. orderly_steps new_client s \<and> cp_watchers s 0 = Some 0 \<and> cp_got s = [ev] \<and> cp_buffer s 0 = [ev] \<and>
    prefix (on_channel 0 s) (drop (cp_since s 0) (cp_got s))"
    by (intro exI [where x = ?g]) (simp add: new_client_def)
qed

text \<open>
  C37. One reader that cannot go on stops the client: a receiver with an event for a full
  channel from which nobody reads, or a rewatching goroutine that waits for the sender while
  the sender waits for the write lock.  From then on, as long as nobody reads from the channel,
  no call of \<open>NewEventChannel\<close>, \<open>CloseEventChannel\<close> or \<open>Close\<close> that waits for the lock returns
  (not even the one that would close the full channel), no watch is recorded or forgotten, and
  the sender, once it has a request to record, takes no other.
\<close>

theorem stuck_reader_stops_client:
  assumes "reader_stuck unread s" and "unread_steps unread s s'"
  shows "waiting_calls s \<subseteq># waiting_calls s' \<and> cp_watchers s' = cp_watchers s \<and> cp_watching s' = cp_watching s \<and>
    (cp_close s = C_Lock \<longrightarrow> cp_close s' = C_Lock) \<and> (\<forall>r. cp_process s = P_Record r \<longrightarrow> cp_process s' = P_Record r)"
  using reader_stuck_steps [OF assms(2,1)] by blast

text \<open>The witness: a reconnect with two keys to watch again, during which \<open>Close\<close> is called.\<close>

definition demo_two_keys :: client_proc where
  "demo_two_keys = demo_client\<lparr>cp_watching := [''a'', ''b'']\<rparr>"

theorem stuck_reader_stops_client_witness:
  "\<exists>s. client_steps demo_two_keys s \<and> reader_stuck {} s \<and> cp_close s = C_Lock \<and> cp_process s = P_Record (rewatch_request ''a'') \<and>
    \<not> (\<exists>s'. unread_steps {} s s' \<and> (cp_close s' \<noteq> C_Lock \<or> cp_process s' \<noteq> P_Record (rewatch_request ''a'')))"
proof -
  let ?r = "rewatch_request ''a''"
  let ?a = "demo_two_keys\<lparr>cp_close := C_Lock\<rparr>"
  let ?b = "?a\<lparr>cp_rewatchers := {#Rw_Send [''a'', ''b'']#}\<rparr>"
  let ?c = "take_request ?r True (?b\<lparr>cp_rewatchers := {#Rw_Wait [''b'']#}\<rparr>)"
  let ?d = "?c\<lparr>cp_process := P_Record ?r, cp_rewatchers := {#Rw_Send [''b'']#}\<rparr>"
  have "client_live demo_two_keys ?a" using client_live.Call_Close [of demo_two_keys]
    by (simp add: demo_two_keys_def demo_client_def new_client_def)
  moreover have "client_live ?a ?b" using client_live.Rewatch_RLock [of ?a "{#}" "[''a'', ''b'']"]
    by (simp add: demo_two_keys_def demo_client_def)
  moreover have "client_live ?b ?c" by (rule client_live.Rewatch) (simp_all add: demo_two_keys_def demo_client_def)
  moreover have "client_live ?c ?d" using client_live.Answer_Rewatch [of ?c ?r True "[''b'']" "{#}"]
    by (simp add: answered_def take_request_def)
  ultimately have "client_step demo_two_keys ?a" "client_step ?a ?b" "client_step ?b ?c" "client_step ?c ?d"
    by (simp_all add: client_step_def take_request_def demo_two_keys_def demo_client_def new_client_def)
  then have run: "client_steps demo_two_keys ?d" by (meson rtranclp.rtrancl_into_rtrancl rtranclp.rtrancl_refl)
  have stuck: "reader_stuck {} ?d" by (simp add: reader_stuck_def)
  have "cp_close s' = C_Lock \<and> cp_process s' = P_Record ?r" if "unread_steps {} ?d s'" for s'
    using stuck_reader_stops_client [OF stuck that] by (simp add: take_request_def)
  with run stuck show ?thesis by (intro exI [where x = ?d]) (auto simp: take_request_def)
qed

end
