(* ===== verification/Cli_Main.thy ===== *)
theory Cli_Main
  imports Cli_Spec Client_Connect Client_Process
begin

text \<open>
  The command line program as a whole (\<open>main\<close> and \<open>startEventHandler\<close> of \<open>cli/cli.go\<close>): from
  its arguments and standard input to what it prints, the errors it reports, and its exit
  status.
\<close>

section \<open>The program\<close>

definition VERSION :: string where
  "VERSION = ''2.0.2''"

datatype main_error = Not_Dialled string | Command_Failed cli_error

text \<open>\<open>run_status\<close> is \<open>None\<close> as long as the program has not ended.\<close>

record cli_run =
  run_lines :: "line list"
  run_errors :: "main_error list"
  run_status :: "nat option"

text \<open>A client fresh from \<open>NewClient\<close>; without one the program reports the error and exits with 1.\<close>

definition fresh_cli :: cli where
  "fresh_cli = \<lparr>cli_client = \<lparr>cl_MD = None, cl_authToken = []\<rparr>, cli_requests = [], cli_closed = False\<rparr>"

definition with_client :: "'tls network \<Rightarrow> string \<Rightarrow> (cli \<Rightarrow> ('s, cli_run) handler) \<Rightarrow> ('s, cli_run) handler" where
  "with_client N address f = (case NewClient N (NewClientConfig address) of
     Not_Connected err \<Rightarrow> ret \<lparr>run_lines = [], run_errors = [Not_Dialled err], run_status = Some 1\<rparr>
   | Connected _ _ _ \<Rightarrow> f fresh_cli
   | No_Address \<Rightarrow> panic)"

definition banner :: "line list" where
  "banner = [[PStr ''Mydis Command Line Interface, Version:'', PStr VERSION],
     [PStr (''Connected. Type '' @ CHR 0x27 # ''help'' @ CHR 0x27 # '' for a list of commands.'')]]"

text \<open>The prompt runs for \<open>rounds\<close> lines here; only the command \<open>QUIT\<close> ends it.\<close>

definition cli_main :: "nat \<Rightarrow> 'tls network \<Rightarrow> 's etcd \<Rightarrow> codec \<Rightarrow> 's etcd_auth \<Rightarrow> string list \<Rightarrow> string list \<Rightarrow>
    ('s, cli_run) handler" where
  "cli_main rounds N E C A args stdin = (case cli_mode_of args of
     PrintVersion \<Rightarrow> ret \<lparr>run_lines = [[PStr VERSION]], run_errors = [], run_status = Some 0\<rparr>
   | RunCommand address cmd as \<Rightarrow> with_client N address (\<lambda>c.
       and_then (run_once E C A c cmd as) (\<lambda>(out, err, status).
         ret \<lparr>run_lines = out, run_errors = map Command_Failed (case_option [] (\<lambda>e. [e]) err), run_status = Some status\<rparr>))
   | Interactive address \<Rightarrow> with_client N address (\<lambda>c.
       and_then (prompts rounds E C A c stdin) (\<lambda>ps.
         ret \<lparr>run_lines = banner @ concat (map p_lines ps),
           run_errors = concat (map (\<lambda>p. map Command_Failed (case_option [] (\<lambda>e. [e]) (p_error p))) ps),
           run_status = (if ps \<noteq> [] \<and> p_exit (last ps) then Some 0 else None)\<rparr>)))"

text \<open>The events the interactive client has read from its channel, as lines.\<close>

definition event_lines :: "pb_Event list \<Rightarrow> line list" where
  "event_lines evs = map event_line evs"

section \<open>Facts\<close>

lemma VERSION_printed:
  "cli_main n N E C A [''-v''] stdin w = (Ok \<lparr>run_lines = [[PStr ''2.0.2'']], run_errors = [], run_status = Some 0\<rparr>, w)"
  by (simp add: cli_main_def cli_mode_of_def ret_def VERSION_def)

lemma not_connected:
  assumes "NewClient N (NewClientConfig a) = Not_Connected err" and "CHR '':'' \<in> set a"
  shows "cli_main n N E C A (a # args) stdin w =
    (Ok \<lparr>run_lines = [], run_errors = [Not_Dialled err], run_status = Some 1\<rparr>, w)"
  using assms by (auto simp: cli_main_def cli_mode_of_def with_client_def ret_def split: list.split)

text \<open>An error of a command given as arguments is reported, with the status 1.\<close>

lemma cli_main_command:
  assumes "NewClient N (NewClientConfig a) = Connected x y z" and "CHR '':'' \<in> set a"
    and "runs P (command E C A fresh_cli cmd as) (Ok (out, err, c)) Q"
  shows "runs P (cli_main n N E C A (a # cmd # as) stdin)
    (Ok \<lparr>run_lines = out, run_errors = map Command_Failed (case_option [] (\<lambda>e. [e]) err),
         run_status = Some (if err \<noteq> None then 1 else 0)\<rparr>) Q"
proof -
  have "runs P (run_once E C A fresh_cli cmd as) (Ok (out, err, if err \<noteq> None then 1 else 0)) Q"
    unfolding run_once_def by (rule runs_and_then [OF assms(3)]) (simp add: runs_ret)
  note once = this
  have main: "cli_main n N E C A (a # cmd # as) stdin = and_then (run_once E C A fresh_cli cmd as) (\<lambda>(out, err, status).
      ret \<lparr>run_lines = out, run_errors = map Command_Failed (case_option [] (\<lambda>e. [e]) err), run_status = Some status\<rparr>)"
    using assms(1,2) by (auto simp: cli_main_def cli_mode_of_def with_client_def)
  show ?thesis unfolding main by (rule runs_and_then [OF once]) (simp add: runs_ret)
qed

text \<open>
  What the interactive client prints of its watches: the events of its channel in order,
  where no \<open>Send\<close> failed.
\<close>

lemma events_printed_in_order:
  assumes "orderly_steps new_client s" and "cp_watchers s i = Some ch"
  shows "prefix (event_lines (cp_read s ch)) (event_lines (drop (cp_since s ch) (cp_got s)))"
proof -
  have "prefix (cp_read s ch) (drop (cp_since s ch) (cp_got s))"
    using channel_in_order [OF assms] by (blast intro: append_prefixD)
  then show ?thesis unfolding event_lines_def by (rule map_mono_prefix)
qed

section \<open>Properties\<close>

text \<open>
  C29. The program end to end: \<open>mydis host:port SET key value\<close> on a usable free key prints
  nothing and exits with 0, and a later \<open>mydis host:port GET key\<close> prints the value and exits
  with 0.  A command in small letters, which the prompt would accept, is unknown here: it
  calls nothing and exits with 1.
\<close>

theorem program_SET_then_GET:
  assumes "NewClient N (NewClientConfig a) = Connected x y z" and "CHR '':'' \<in> set a"
    and "usable K (client_ctx (cli_client fresh_cli)) (newKey key) m" and "\<not> key_held (newKey key) m"
  shows "runs (stores E kv K m)
      (and_then (cli_main n N E C A [a, ''SET'', key, v] stdin) (\<lambda>r. and_then (cli_main n N E C A [a, ''GET'', key] stdin') (\<lambda>r'.
        ret (r, r'))))
      (Ok (\<lparr>run_lines = [], run_errors = [], run_status = Some 0\<rparr>, \<lparr>run_lines = [[PStr v]], run_errors = [], run_status = Some 0\<rparr>))
      (stores E kv K (m(StringToBytes key \<mapsto> StringToBytes v))) \<and>
    cli_main n N E C A [a, ''set'', key, v] stdin w =
      (Ok \<lparr>run_lines = [], run_errors = [Command_Failed (UnknownCommand ''set'')], run_status = Some 1\<rparr>, w)"
proof (intro conjI)
  let ?m = "m(StringToBytes key \<mapsto> StringToBytes v)"
  let ?done = "\<lparr>run_lines = [], run_errors = [], run_status = Some 0\<rparr>"
    and ?printed = "\<lparr>run_lines = [[PStr v]], run_errors = [], run_status = Some 0\<rparr>"
  have set: "runs (stores E kv K m) (cli_main n N E C A [a, ''SET'', key, v] stdin) (Ok ?done) (stores E kv K ?m)"
    using cli_main_command [OF assms(1,2) command_SET_runs [OF assms(3,4), where v = v and C = C and A = A and E = E and kv = kv]]
    by simp
  have "runs (stores E kv K ?m) (command E C A fresh_cli ''GET'' [key]) (Ok ([[PStr v]], None, fresh_cli)) (stores E kv K ?m)"
    by (rule command_GET_runs) (use assms(3) in \<open>simp_all add: usable_def\<close>)
  from cli_main_command [OF assms(1,2) this]
  have get: "runs (stores E kv K ?m) (cli_main n N E C A [a, ''GET'', key] stdin') (Ok ?printed) (stores E kv K ?m)"
    by simp
  show "runs (stores E kv K m)
      (and_then (cli_main n N E C A [a, ''SET'', key, v] stdin) (\<lambda>r. and_then (cli_main n N E C A [a, ''GET'', key] stdin') (\<lambda>r'.
        ret (r, r')))) (Ok (?done, ?printed)) (stores E kv K ?m)"
    by (rule runs_and_then [OF set], rule runs_and_then [OF get], rule runs_ret)
  have "find_command E C A fresh_cli ''set'' [key, v] = None" by (simp add: find_command_def command_None)
  then have "command E C A fresh_cli ''set'' [key, v] = return_err fresh_cli (UnknownCommand ''set'')"
    by (simp add: command_def)
  then show "cli_main n N E C A [a, ''set'', key, v] stdin w =
      (Ok \<lparr>run_lines = [], run_errors = [Command_Failed (UnknownCommand ''set'')], run_status = Some 1\<rparr>, w)"
    using assms(1,2)
    by (auto simp: cli_main_def cli_mode_of_def with_client_def run_once_def return_err_def and_then_def ret_def)
qed

definition plain_network :: "unit network" where
  "plain_network = \<lparr>n_NewSelfCerts = (\<lambda>_. Inr ()), n_Dial = (\<lambda>_ _ _. None)\<rparr>"

theorem program_SET_then_GET_witness:
  "\<exists>w. and_then (cli_main 0 plain_network quiet_etcd memory_codec demo_auth [''h:1'', ''SET'', ''k'', ''v''] [])
      (\<lambda>r. and_then (cli_main 0 plain_network quiet_etcd memory_codec demo_auth [''h:1'', ''GET'', ''k''] []) (\<lambda>r'. ret (r, r')))
      (mem_world []) =
    (Ok (\<lparr>run_lines = [], run_errors = [], run_status = Some 0\<rparr>,
         \<lparr>run_lines = [[PStr ''v'']], run_errors = [], run_status = Some 0\<rparr>), w)"
proof -
  have fresh: "fresh_cli = demo_cli" by (simp add: fresh_cli_def demo_cli_def)
  have net: "NewClient plain_network (NewClientConfig ''h:1'') = Connected ''h:1'' (Some ()) (Some [''h:1''])"
    by (simp add: NewClient_def NewClientConfig_def plain_network_def newStaticResolver_def)
  have "usable UNIV (client_ctx (cli_client fresh_cli)) (newKey ''k'') (map_of [])" "\<not> key_held (newKey ''k'') (map_of [])"
    by (simp_all add: fresh demo_cli_ctx demo_setting)
  from program_SET_then_GET [OF net _ this, of quiet_etcd map_of 0 memory_codec demo_auth "''v''" "[]" "[]" "mem_world []"]
  show ?thesis using demo_run by fastforce
qed

end
