(* ===== verification/Server_Main.thy ===== *)
theory Server_Main
  imports Go_Util
begin

text \<open>
  How the server is configured and started (\<open>server/server.go\<close>, \<open>mydis/server.go\<close>, the TLS
  choice of \<open>mydis/util.go\<close>).  Reading a configuration file, etcd, sockets, certificates and
  the serving itself are parameters with their errors here; \<open>Certs\<close> and \<open>Server_Life\<close> have
  the program's part of them.
\<close>

section \<open>The configuration\<close>

text \<open>The fields of etcd's \<open>embed.Config\<close> the program uses; its other fields are the record's extension.\<close>

record embed_config =
  Config_LCUrls :: "string list"
  Config_LPUrls :: "string list"
  Config_Dir :: string
  Config_ClientAutoTLS :: bool
  Config_ClientTLSInfo_Empty :: bool
  Config_Debug :: bool

definition defaultConfigFile :: string where
  "defaultConfigFile = ''/etc/mydis/mydis.conf''"

definition defaultAddressHTTP1 :: string where
  "defaultAddressHTTP1 = ''0.0.0.0:8000''"

definition defaultAddressHTTP2 :: string where
  "defaultAddressHTTP2 = ''0.0.0.0:8383''"

text \<open>The arguments are the values of the environment variables, empty when they are not set.\<close>

definition getAddressHTTP1 :: "string \<Rightarrow> string" where
  "getAddressHTTP1 port = (if port \<noteq> [] then ''0.0.0.0:'' @ port else defaultAddressHTTP1)"

definition getAddressHTTP2 :: "string \<Rightarrow> string" where
  "getAddressHTTP2 address = (if address \<noteq> [] then address else defaultAddressHTTP2)"

definition NewServerConfig :: "'r embed_config_scheme \<Rightarrow> 'r embed_config_scheme" where
  "NewServerConfig new = new\<lparr>Config_LCUrls := [], Config_LPUrls := [], Config_Dir := ''default.etcd'',
     Config_ClientAutoTLS := True\<rparr>"

text \<open>
  \<open>ConfigFromFile\<close> returns a pointer and an error.  For the file given as an argument the
  condition is \<open>err != nil\<close>.
\<close>

type_synonym 'r config_reader = "string \<Rightarrow> 'r embed_config_scheme option \<times> string option"

definition loadConfig :: "'r config_reader \<Rightarrow> 'r embed_config_scheme \<Rightarrow> string list \<Rightarrow> 'r embed_config_scheme option" where
  "loadConfig ConfigFromFile new args =
     (let given = (case args of _ # file # _ \<Rightarrow>
                     (let (cfg, err) = ConfigFromFile file in if err \<noteq> None then Some cfg else None)
                   | _ \<Rightarrow> None);
          (cfg1, err1) = ConfigFromFile defaultConfigFile;
          (cfg2, err2) = ConfigFromFile ''mydis.conf'' in
      case given of Some cfg \<Rightarrow> cfg
      | None \<Rightarrow>
          if err1 = None then cfg1
          else if err2 = None then cfg2
          else Some (NewServerConfig new))"

section \<open>Starting\<close>

text \<open>What the environment answers: an error text, or success.\<close>

record ('r, 'tls) machine =
  m_StartEtcd :: "'r embed_config_scheme \<Rightarrow> string option"
  m_Listen :: "string \<Rightarrow> string option"
  m_NewSelfCerts :: "string \<Rightarrow> string + 'tls"

text \<open>The server object: the addresses it listens on, its TLS settings, and whether it serves.\<close>

record ('r, 'tls) server =
  s_config :: "'r embed_config_scheme"
  s_cache :: bool
  s_socket :: "string option"
  s_tc :: "'tls option"
  s_server :: bool
  s_gwsock :: "string option"
  s_serving :: bool

text \<open>\<open>NewServer\<close> reads a field of its configuration: nil panics (\<open>None\<close>).\<close>

definition NewServer :: "'r embed_config_scheme option \<Rightarrow> ('r, 'tls) server option" where
  "NewServer config = map_option (\<lambda>config. \<lparr>s_config = config, s_cache = False, s_socket = None, s_tc = None,
     s_server = False, s_gwsock = None, s_serving = False\<rparr>) config"

definition generateTLSInfo :: "('r, 'tls) machine \<Rightarrow> 'r embed_config_scheme \<Rightarrow> string + 'tls option" where
  "generateTLSInfo M config =
     (if Config_ClientAutoTLS config \<and> Config_ClientTLSInfo_Empty config
      then map_sum (\<lambda>e. e) Some (m_NewSelfCerts M ''Mydis'') else Inr None)"

definition applyTLS :: "('r, 'tls) machine \<Rightarrow> ('r, 'tls) server \<Rightarrow> string option \<times> ('r, 'tls) server" where
  "applyTLS M s = (case generateTLSInfo M (s_config s) of
     Inl err \<Rightarrow> (Some err, s\<lparr>s_tc := None\<rparr>)
   | Inr tc \<Rightarrow> (None, s\<lparr>s_tc := tc, s_server := True\<rparr>))"

definition Start :: "('r, 'tls) machine \<Rightarrow> string \<Rightarrow> string \<Rightarrow> ('r, 'tls) server \<Rightarrow> string option \<times> ('r, 'tls) server" where
  "Start M http1 http2 s = (case m_StartEtcd M (s_config s) of
     Some err \<Rightarrow> (Some err, s)
   | None \<Rightarrow> (let s = s\<lparr>s_cache := True\<rparr> in
     case m_Listen M http2 of
       Some err \<Rightarrow> (Some err, s)
     | None \<Rightarrow> (let s = s\<lparr>s_socket := Some http2\<rparr> in
       case applyTLS M s of
         (Some err, s) \<Rightarrow> (Some err, s)
       | (None, s) \<Rightarrow> (case m_Listen M http1 of
           Some err \<Rightarrow> (Some err, s)
         | None \<Rightarrow> (None, s\<lparr>s_gwsock := Some http1, s_serving := True\<rparr>)))))"

text \<open>How \<open>main\<close> ends up: it panics, exits with an error, or serves for ever.\<close>

datatype ('r, 'tls) started = Panicked | Exited string | Serving "('r, 'tls) server"

definition server_main :: "'r config_reader \<Rightarrow> 'r embed_config_scheme \<Rightarrow> ('r, 'tls) machine \<Rightarrow> string list \<Rightarrow>
    string \<Rightarrow> string \<Rightarrow> ('r, 'tls) started" where
  "server_main ConfigFromFile new M args port address =
     (case NewServer (loadConfig ConfigFromFile new args) of
        None \<Rightarrow> Panicked
      | Some s \<Rightarrow> (case Start M (getAddressHTTP1 port) (getAddressHTTP2 address) s of
          (Some err, s) \<Rightarrow> Exited err
        | (None, s) \<Rightarrow> Serving s))"

section \<open>Facts\<close>

text \<open>Etcd's reader returns a configuration exactly when it returns no error.\<close>

definition reader_law :: "'r config_reader \<Rightarrow> bool" where
  "reader_law C \<longleftrightarrow> (\<forall>path. (\<exists>cfg. C path = (Some cfg, None)) \<or> (\<exists>err. C path = (None, Some err)))"

lemma reader_cases:
  "reader_law C \<Longrightarrow> (\<exists>cfg. C path = (Some cfg, None)) \<or> (\<exists>err. C path = (None, Some err))"
  unfolding reader_law_def by blast

lemma loadConfig_given:
  assumes "reader_law C"
  shows "loadConfig C new (prog # path # rest) =
    (if snd (C path) = None then loadConfig C new [prog] else None)"
  using reader_cases [OF assms, of path] by (auto simp: loadConfig_def)

lemma loadConfig_default:
  assumes "reader_law C"
  shows "loadConfig C new [prog] \<noteq> None"
  using reader_cases [OF assms, of defaultConfigFile] reader_cases [OF assms, of "''mydis.conf''"]
  by (auto simp: loadConfig_def)

lemma Start_serves:
  "(\<exists>s'. Start M http1 http2 s = (None, s')) \<longleftrightarrow>
     m_StartEtcd M (s_config s) = None \<and> m_Listen M http1 = None \<and> m_Listen M http2 = None \<and>
     (Config_ClientAutoTLS (s_config s) \<and> Config_ClientTLSInfo_Empty (s_config s) \<longrightarrow>
        (\<exists>tc. m_NewSelfCerts M ''Mydis'' = Inr tc))"
  by (auto simp: Start_def applyTLS_def generateTLSInfo_def map_sum_def Let_def split: option.split sum.split prod.split)

lemma server_main_serves:
  assumes "loadConfig C new args = Some cfg"
  shows "(\<exists>s. server_main C new M args port address = Serving s) \<longleftrightarrow>
    (\<exists>s'. Start M (getAddressHTTP1 port) (getAddressHTTP2 address) (the (NewServer (Some cfg))) = (None, s'))"
  by (auto simp: server_main_def assms NewServer_def split: prod.split option.split)

section \<open>Properties\<close>

text \<open>
  The configuration file named on the command line is never used: when it can be read the
  server behaves as if it had not been given, and when it cannot the server panics.
\<close>

theorem given_file_is_never_used:
  assumes "reader_law C"
  shows "server_main C new M (prog # path # rest) port address =
    (if snd (C path) = None then server_main C new M [prog] port address else Panicked)"
  unfolding server_main_def loadConfig_given [OF assms, of new prog path rest] by (simp add: NewServer_def)

definition demo_config :: embed_config where
  "demo_config = \<lparr>Config_LCUrls = [''http://localhost:2379''], Config_LPUrls = [''http://localhost:2380''], Config_Dir = [],
     Config_ClientAutoTLS = False, Config_ClientTLSInfo_Empty = True, Config_Debug = False\<rparr>"

definition demo_reader :: "unit config_reader" where
  "demo_reader path = (if path = ''good.conf'' then (Some demo_config, None) else (None, Some ''no such file''))"

definition demo_machine :: "(unit, string) machine" where
  "demo_machine = \<lparr>m_StartEtcd = (\<lambda>_. None), m_Listen = (\<lambda>_. None), m_NewSelfCerts = (\<lambda>org. Inr org)\<rparr>"

lemma demo_reader_law: "reader_law demo_reader"
  by (simp add: reader_law_def demo_reader_def)

theorem given_file_is_never_used_witness:
  "server_main demo_reader demo_config demo_machine [''mydis'', ''good.conf''] [] [] =
     server_main demo_reader demo_config demo_machine [''mydis''] [] [] \<and>
   server_main demo_reader demo_config demo_machine [''mydis'', ''bad.conf''] [] [] = Panicked"
  using given_file_is_never_used [OF demo_reader_law, of demo_config demo_machine "''mydis''" "''good.conf''" "[]" "[]" "[]"]
    given_file_is_never_used [OF demo_reader_law, of demo_config demo_machine "''mydis''" "''bad.conf''" "[]" "[]" "[]"]
  by (simp add: demo_reader_def)

text \<open>
  Without arguments the server serves exactly when etcd starts with the configuration
  found, both addresses can be listened on, and, unless that configuration has certificates
  of its own, one can be generated; a configuration with certificates of its own is served
  without TLS.
\<close>

theorem server_serves_when_it_can:
  assumes "reader_law C"
  shows "\<exists>cfg. loadConfig C new [prog] = Some cfg \<and>
    ((\<exists>s. server_main C new M [prog] port address = Serving s) \<longleftrightarrow>
      m_StartEtcd M cfg = None \<and> m_Listen M (getAddressHTTP1 port) = None \<and> m_Listen M (getAddressHTTP2 address) = None \<and>
      (Config_ClientAutoTLS cfg \<and> Config_ClientTLSInfo_Empty cfg \<longrightarrow> (\<exists>tc. m_NewSelfCerts M ''Mydis'' = Inr tc))) \<and>
    (\<forall>s. \<not> Config_ClientTLSInfo_Empty cfg \<and> server_main C new M [prog] port address = Serving s \<longrightarrow>
      s_tc s = None \<and> s_socket s = Some (getAddressHTTP2 address))"
proof -
  obtain cfg where cfg: "loadConfig C new [prog] = Some cfg" using loadConfig_default [OF assms, of new prog] by blast
  have config: "s_config (the (NewServer (Some cfg))) = cfg" by (simp add: NewServer_def)
  have plain: "s_tc s = None \<and> s_socket s = Some (getAddressHTTP2 address)"
    if "\<not> Config_ClientTLSInfo_Empty cfg" and "server_main C new M [prog] port address = Serving s" for s
    using that by (auto simp: server_main_def cfg NewServer_def Start_def applyTLS_def generateTLSInfo_def Let_def
        split: option.splits prod.splits)
  show ?thesis
    using cfg server_main_serves [OF cfg, of M port address] Start_serves [of M _ _ "the (NewServer (Some cfg))"] plain
    unfolding config by blast
qed

theorem server_serves_when_it_can_witness:
  "\<exists>s. server_main demo_reader demo_config demo_machine [''mydis''] [] [] = Serving s"
  using server_serves_when_it_can [OF demo_reader_law, of demo_config "''mydis''" demo_machine "[]" "[]"]
  by (auto simp: demo_machine_def)

end
