(* ===== verification/Gateway.thy ===== *)
theory Gateway
  imports Client
    Server
begin

text \<open>
  The HTTP gateway (\<open>pb/mydis.pb.gw.go\<close>), generated from the service definition: each
  operation has a route, a request of which decodes its JSON body into the operation's message
  and calls the operation over gRPC.  The decoder, the router and the translation of HTTP
  headers into metadata are libraries: parameters.  The route of \<open>Watch\<close>, a stream, is
  in \<open>Gateway_Watch\<close>.
\<close>

section \<open>The requests\<close>

text \<open>The JSON decoder, one function per message type; an error is its text.\<close>

record 'b json =
  dec_Null :: "'b \<Rightarrow> string + unit"
  dec_Key :: "'b \<Rightarrow> string + pb_Key"
  dec_Expiration :: "'b \<Rightarrow> string + pb_Expiration"
  dec_ByteValue :: "'b \<Rightarrow> string + pb_ByteValue"
  dec_KeysList :: "'b \<Rightarrow> string + pb_KeysList"
  dec_IntValue :: "'b \<Rightarrow> string + pb_IntValue"
  dec_FloatValue :: "'b \<Rightarrow> string + pb_FloatValue"
  dec_List :: "'b \<Rightarrow> string + pb_List"
  dec_ListItem :: "'b \<Rightarrow> string + pb_ListItem"
  dec_Hash :: "'b \<Rightarrow> string + pb_Hash"
  dec_HashField :: "'b \<Rightarrow> string + pb_HashField"
  dec_HashFieldSet :: "'b \<Rightarrow> string + pb_HashFieldSet"

text \<open>
  The functions \<open>request_Mydis_..._0\<close>: the message is decoded, and is the argument of the call
  of the operation, or the error is \<open>InvalidArgument\<close>.
\<close>

type_synonym 'b request_fun = "'b \<Rightarrow> string + request"

definition decode_as :: "('b \<Rightarrow> string + 'm) \<Rightarrow> ('m \<Rightarrow> request) \<Rightarrow> 'b request_fun" where
  "decode_as dec call_with body = map_sum id call_with (dec body)"

definition key_gateway :: "'b json \<Rightarrow> (string \<times> 'b request_fun) list" where
  "key_gateway D =
    [(''Keys'', decode_as (dec_Null D) (\<lambda>_. Key_request Req_Keys)),
     (''KeysWithPrefix'', decode_as (dec_Key D) (\<lambda>x. Key_request (Req_KeysWithPrefix x))),
     (''Has'', decode_as (dec_Key D) (\<lambda>x. Key_request (Req_Has x))),
     (''SetExpire'', decode_as (dec_Expiration D) (\<lambda>x. Key_request (Req_SetExpire x))),
     (''Lock'', decode_as (dec_Key D) (\<lambda>x. Key_request (Req_Lock x))),
     (''LockWithTimeout'', decode_as (dec_Expiration D) (\<lambda>x. Key_request (Req_LockWithTimeout x))),
     (''Unlock'', decode_as (dec_Key D) (\<lambda>x. Key_request (Req_Unlock x))),
     (''UnlockThenSet'', decode_as (dec_ByteValue D) (\<lambda>x. Key_request (Req_UnlockThenSet x))),
     (''UnlockThenSetList'', decode_as (dec_List D) (\<lambda>x. Key_request (Req_UnlockThenSetList x))),
     (''Delete'', decode_as (dec_Key D) (\<lambda>x. Key_request (Req_Delete x))),
     (''Clear'', decode_as (dec_Null D) (\<lambda>_. Key_request Req_Clear))]"

definition byte_gateway :: "'b json \<Rightarrow> (string \<times> 'b request_fun) list" where
  "byte_gateway D =
    [(''Get'', decode_as (dec_Key D) (\<lambda>x. Byte_request (Req_Get x))),
     (''GetMany'', decode_as (dec_KeysList D) (\<lambda>x. Byte_request (Req_GetMany x))),
     (''GetWithPrefix'', decode_as (dec_Key D) (\<lambda>x. Byte_request (Req_GetWithPrefix x))),
     (''Set'', decode_as (dec_ByteValue D) (\<lambda>x. Byte_request (Req_Set x))),
     (''SetNX'', decode_as (dec_ByteValue D) (\<lambda>x. Byte_request (Req_SetNX x))),
     (''SetMany'', decode_as (dec_Hash D) (\<lambda>x. Byte_request (Req_SetMany x))),
     (''Length'', decode_as (dec_Key D) (\<lambda>x. Byte_request (Req_Length x)))]"

definition number_gateway :: "'b json \<Rightarrow> (string \<times> 'b request_fun) list" where
  "number_gateway D =
    [(''GetInt'', decode_as (dec_Key D) (\<lambda>x. Number_request (Req_GetInt x))),
     (''GetFloat'', decode_as (dec_Key D) (\<lambda>x. Number_request (Req_GetFloat x))),
     (''SetInt'', decode_as (dec_IntValue D) (\<lambda>x. Number_request (Req_SetInt x))),
     (''SetFloat'', decode_as (dec_FloatValue D) (\<lambda>x. Number_request (Req_SetFloat x))),
     (''IncrementInt'', decode_as (dec_IntValue D) (\<lambda>x. Number_request (Req_IncrementInt x))),
     (''DecrementInt'', decode_as (dec_IntValue D) (\<lambda>x. Number_request (Req_DecrementInt x))),
     (''IncrementFloat'', decode_as (dec_FloatValue D) (\<lambda>x. Number_request (Req_IncrementFloat x))),
     (''DecrementFloat'', decode_as (dec_FloatValue D) (\<lambda>x. Number_request (Req_DecrementFloat x)))]"

definition list_gateway :: "'b json \<Rightarrow> (string \<times> 'b request_fun) list" where
  "list_gateway D =
    [(''GetList'', decode_as (dec_Key D) (\<lambda>x. List_request (Req_GetList x))),
     (''GetListItem'', decode_as (dec_ListItem D) (\<lambda>x. List_request (Req_GetListItem x))),
     (''SetList'', decode_as (dec_List D) (\<lambda>x. List_request (Req_SetList x))),
     (''SetListItem'', decode_as (dec_ListItem D) (\<lambda>x. List_request (Req_SetListItem x))),
     (''ListLength'', decode_as (dec_Key D) (\<lambda>x. List_request (Req_ListLength x))),
     (''ListLimit'', decode_as (dec_ListItem D) (\<lambda>x. List_request (Req_ListLimit x))),
     (''ListInsert'', decode_as (dec_ListItem D) (\<lambda>x. List_request (Req_ListInsert x))),
     (''ListAppend'', decode_as (dec_ListItem D) (\<lambda>x. List_request (Req_ListAppend x))),
     (''ListPopLeft'', decode_as (dec_Key D) (\<lambda>x. List_request (Req_ListPopLeft x))),
     (''ListPopRight'', decode_as (dec_Key D) (\<lambda>x. List_request (Req_ListPopRight x))),
     (''ListHas'', decode_as (dec_ListItem D) (\<lambda>x. List_request (Req_ListHas x))),
     (''ListDelete'', decode_as (dec_ListItem D) (\<lambda>x. List_request (Req_ListDelete x))),
     (''ListDeleteItem'', decode_as (dec_ListItem D) (\<lambda>x. List_request (Req_ListDeleteItem x)))]"

definition hash_gateway :: "'b json \<Rightarrow> (string \<times> 'b request_fun) list" where
  "hash_gateway D =
    [(''GetHash'', decode_as (dec_Key D) (\<lambda>x. Hash_request (Req_GetHash x))),
     (''GetHashField'', decode_as (dec_HashField D) (\<lambda>x. Hash_request (Req_GetHashField x))),
     (''GetHashFields'', decode_as (dec_HashFieldSet D) (\<lambda>x. Hash_request (Req_GetHashFields x))),
     (''HashHas'', decode_as (dec_HashField D) (\<lambda>x. Hash_request (Req_HashHas x))),
     (''HashLength'', decode_as (dec_Key D) (\<lambda>x. Hash_request (Req_HashLength x))),
     (''HashFields'', decode_as (dec_Key D) (\<lambda>x. Hash_request (Req_HashFields x))),
     (''HashValues'', decode_as (dec_Key D) (\<lambda>x. Hash_request (Req_HashValues x))),
     (''SetHash'', decode_as (dec_Hash D) (\<lambda>x. Hash_request (Req_SetHash x))),
     (''SetHashField'', decode_as (dec_HashField D) (\<lambda>x. Hash_request (Req_SetHashField x))),
     (''SetHashFields'', decode_as (dec_Hash D) (\<lambda>x. Hash_request (Req_SetHashFields x))),
     (''DelHashField'', decode_as (dec_HashField D) (\<lambda>x. Hash_request (Req_DelHashField x)))]"

definition all_gateway :: "'b json \<Rightarrow> (string \<times> 'b request_fun) list" where
  "all_gateway D = key_gateway D @ byte_gateway D @ number_gateway D @ list_gateway D @ hash_gateway D"

section \<open>The routes\<close>

text \<open>The patterns \<open>pattern_Mydis_..._0\<close>: two literal segments each.\<close>

definition patterns :: "(string \<times> string list) list" where
  "patterns =
    [(''Keys'', [''v1'', ''keys'']),
     (''KeysWithPrefix'', [''v1'', ''keysWithPrefix'']),
     (''Has'', [''v1'', ''has'']),
     (''SetExpire'', [''v1'', ''setExpire'']),
     (''Lock'', [''v1'', ''lock'']),
     (''LockWithTimeout'', [''v1'', ''lockWithTimeout'']),
     (''Unlock'', [''v1'', ''unlock'']),
     (''UnlockThenSet'', [''v1'', ''unlockThenSet'']),
     (''UnlockThenSetList'', [''v1'', ''unlockThenSetList'']),
     (''Delete'', [''v1'', ''delete'']),
     (''Clear'', [''v1'', ''clear'']),
     (''Get'', [''v1'', ''get'']),
     (''GetMany'', [''v1'', ''getMany'']),
     (''GetWithPrefix'', [''v1'', ''getWithPrefix'']),
     (''Set'', [''v1'', ''set'']),
     (''SetNX'', [''v1'', ''setNX'']),
     (''SetMany'', [''v1'', ''setMany'']),
     (''Length'', [''v1'', ''length'']),
     (''GetInt'', [''v1'', ''getInt'']),
     (''GetFloat'', [''v1'', ''getFloat'']),
     (''SetInt'', [''v1'', ''setInt'']),
     (''SetFloat'', [''v1'', ''setFloat'']),
     (''IncrementInt'', [''v1'', ''incrementInt'']),
     (''DecrementInt'', [''v1'', ''decrementInt'']),
     (''IncrementFloat'', [''v1'', ''incrementFloat'']),
     (''DecrementFloat'', [''v1'', ''decrementFloat'']),
     (''GetList'', [''v1'', ''getList'']),
     (''GetListItem'', [''v1'', ''getListItem'']),
     (''SetList'', [''v1'', ''setList'']),
     (''SetListItem'', [''v1'', ''setListItem'']),
     (''ListLength'', [''v1'', ''listLength'']),
     (''ListLimit'', [''v1'', ''listLimit'']),
     (''ListInsert'', [''v1'', ''listInsert'']),
     (''ListAppend'', [''v1'', ''listAppend'']),
     (''ListPopLeft'', [''v1'', ''listPopLeft'']),
     (''ListPopRight'', [''v1'', ''listPopRight'']),
     (''ListHas'', [''v1'', ''listHas'']),
     (''ListDelete'', [''v1'', ''listDelete'']),
     (''ListDeleteItem'', [''v1'', ''listDeleteItem'']),
     (''GetHash'', [''v1'', ''getHash'']),
     (''GetHashField'', [''v1'', ''getHasField'']),
     (''GetHashFields'', [''v1'', ''getHashFields'']),
     (''HashHas'', [''v1'', ''hashHas'']),
     (''HashLength'', [''v1'', ''hashLength'']),
     (''HashFields'', [''v1'', ''hashFields'']),
     (''HashValues'', [''v1'', ''hashValues'']),
     (''SetHash'', [''v1'', ''setHash'']),
     (''SetHashField'', [''v1'', ''setHashField'']),
     (''SetHashFields'', [''v1'', ''setHashFields'']),
     (''DelHashField'', [''v1'', ''delHashField''])]"

text \<open>
  The calls of \<open>mux.Handle\<close>, in their order: the HTTP method, the pattern, and the request
  function that the handler calls.
\<close>

definition register_names :: "(string \<times> string \<times> string) list" where
  "register_names =
    [(''POST'', ''Keys'', ''Keys''),
     (''POST'', ''KeysWithPrefix'', ''KeysWithPrefix''),
     (''POST'', ''Has'', ''Has''),
     (''POST'', ''SetExpire'', ''SetExpire'')]"

definition register_locks :: "(string \<times> string \<times> string) list" where
  "register_locks =
    [(''POST'', ''Lock'', ''Lock''),
     (''POST'', ''LockWithTimeout'', ''LockWithTimeout''),
     (''POST'', ''Unlock'', ''Unlock''),
     (''POST'', ''UnlockThenSet'', ''UnlockThenSet''),
     (''POST'', ''UnlockThenSetList'', ''UnlockThenSetList'')]"

definition register_removals :: "(string \<times> string \<times> string) list" where
  "register_removals =
    [(''POST'', ''Delete'', ''Delete''),
     (''POST'', ''Clear'', ''Clear'')]"

definition register_key :: "(string \<times> string \<times> string) list" where
  "register_key = register_names @ register_locks @ register_removals"

definition register_reads :: "(string \<times> string \<times> string) list" where
  "register_reads =
    [(''POST'', ''Get'', ''Get''),
     (''POST'', ''GetMany'', ''GetMany''),
     (''POST'', ''GetWithPrefix'', ''GetWithPrefix'')]"

definition register_writes :: "(string \<times> string \<times> string) list" where
  "register_writes =
    [(''POST'', ''Set'', ''Set''),
     (''POST'', ''SetNX'', ''SetNX''),
     (''POST'', ''SetMany'', ''SetMany''),
     (''POST'', ''Length'', ''Length'')]"

definition register_byte :: "(string \<times> string \<times> string) list" where
  "register_byte = register_reads @ register_writes"

definition register_number_values :: "(string \<times> string \<times> string) list" where
  "register_number_values =
    [(''POST'', ''GetInt'', ''GetInt''),
     (''POST'', ''GetFloat'', ''GetFloat''),
     (''POST'', ''SetInt'', ''SetInt''),
     (''POST'', ''SetFloat'', ''SetFloat'')]"

definition register_number_updates :: "(string \<times> string \<times> string) list" where
  "register_number_updates =
    [(''POST'', ''IncrementInt'', ''IncrementInt''),
     (''POST'', ''DecrementInt'', ''DecrementInt''),
     (''POST'', ''IncrementFloat'', ''IncrementFloat''),
     (''POST'', ''DecrementFloat'', ''DecrementFloat'')]"

definition register_number :: "(string \<times> string \<times> string) list" where
  "register_number = register_number_values @ register_number_updates"

definition register_list_values :: "(string \<times> string \<times> string) list" where
  "register_list_values =
    [(''POST'', ''GetList'', ''GetList''),
     (''POST'', ''GetListItem'', ''GetListItem''),
     (''POST'', ''SetList'', ''SetList''),
     (''POST'', ''SetListItem'', ''SetListItem'')]"

definition register_list_changes :: "(string \<times> string \<times> string) list" where
  "register_list_changes =
    [(''POST'', ''ListLength'', ''ListLength''),
     (''POST'', ''ListLimit'', ''ListLimit''),
     (''POST'', ''ListInsert'', ''ListInsert''),
     (''POST'', ''ListAppend'', ''ListAppend'')]"

definition register_list_items :: "(string \<times> string \<times> string) list" where
  "register_list_items =
    [(''POST'', ''ListPopLeft'', ''ListPopLeft''),
     (''POST'', ''ListPopRight'', ''ListPopRight''),
     (''POST'', ''ListHas'', ''ListHas''),
     (''POST'', ''ListDelete'', ''ListDelete''),
     (''POST'', ''ListDeleteItem'', ''ListDeleteItem'')]"

definition register_list :: "(string \<times> string \<times> string) list" where
  "register_list = register_list_values @ register_list_changes @ register_list_items"

definition register_hash_reads :: "(string \<times> string \<times> string) list" where
  "register_hash_reads =
    [(''POST'', ''GetHash'', ''GetHash''),
     (''POST'', ''GetHashField'', ''GetHashField''),
     (''POST'', ''GetHashFields'', ''GetHashFields''),
     (''POST'', ''HashHas'', ''HashHas'')]"

definition register_hash_fields :: "(string \<times> string \<times> string) list" where
  "register_hash_fields =
    [(''POST'', ''HashLength'', ''HashLength''),
     (''POST'', ''HashFields'', ''HashFields''),
     (''POST'', ''HashValues'', ''HashValues'')]"

definition register_hash_writes :: "(string \<times> string \<times> string) list" where
  "register_hash_writes =
    [(''POST'', ''SetHash'', ''SetHash''),
     (''POST'', ''SetHashField'', ''SetHashField''),
     (''POST'', ''SetHashFields'', ''SetHashFields''),
     (''POST'', ''DelHashField'', ''DelHashField'')]"

definition register_hash :: "(string \<times> string \<times> string) list" where
  "register_hash = register_hash_reads @ register_hash_fields @ register_hash_writes"

record 'b route =
  r_method :: string
  r_pattern :: "string list"
  r_request :: "'b request_fun"

definition RegisterMydisHandler :: "'b json \<Rightarrow> 'b route list" where
  "RegisterMydisHandler D = map (\<lambda>(meth, pat, req).
       \<lparr>r_method = meth, r_pattern = the (map_of patterns pat), r_request = the (map_of (all_gateway D) req)\<rparr>)
     (register_key @ register_byte @ register_number @ register_list @ register_hash)"

section \<open>Serving a request\<close>

text \<open>
  What is written to the client: the errors, and whether the response was forwarded.  An error
  of \<open>AnnotateContext\<close> is written, but the handler goes on with the context it returned.
\<close>

record http_answer =
  a_errors :: "string list"
  a_forwarded :: bool

type_synonym 'h annotate = "'h \<Rightarrow> go_context \<times> string option"

definition handle_route :: "'s etcd \<Rightarrow> codec \<Rightarrow> 'h annotate \<Rightarrow> 'b route \<Rightarrow> 'h \<Rightarrow> 'b \<Rightarrow> ('s, http_answer) handler" where
  "handle_route E C Annotate r header body =
     (let (rctx, err) = Annotate header; written = (case err of Some e \<Rightarrow> [e] | None \<Rightarrow> []) in
      and_then (attempt (case r_request r body of
          Inl msg \<Rightarrow> throw (Other msg)
        | Inr req \<Rightarrow> rpc (serve E C rctx req)))
      (\<lambda>resp. ret (case resp of
          Inl e \<Rightarrow> \<lparr>a_errors = written @ [Error e], a_forwarded = False\<rparr>
        | Inr _ \<Rightarrow> \<lparr>a_errors = written, a_forwarded = True\<rparr>)))"

text \<open>The router, and its documented behaviour: it finds a registered route that matches, if any does.\<close>

type_synonym 'b mux = "'b route list \<Rightarrow> string \<Rightarrow> string \<Rightarrow> 'b route option"

definition route_matches :: "'b route \<Rightarrow> string \<Rightarrow> string \<Rightarrow> bool" where
  "route_matches r meth path \<longleftrightarrow> r_method r = meth \<and> path = concat (map (\<lambda>s. CHR ''/'' # s) (r_pattern r))"

definition mux_law :: "'b mux \<Rightarrow> bool" where
  "mux_law M \<longleftrightarrow> (\<forall>routes meth path. case M routes meth path of
     Some r \<Rightarrow> r \<in> set routes \<and> route_matches r meth path
   | None \<Rightarrow> \<not> (\<exists>r\<in>set routes. route_matches r meth path))"

text \<open>\<open>None\<close>: no route, the router answers itself.\<close>

definition gateway :: "'s etcd \<Rightarrow> codec \<Rightarrow> 'b json \<Rightarrow> 'b mux \<Rightarrow> 'h annotate \<Rightarrow> string \<Rightarrow> string \<Rightarrow> 'h \<Rightarrow> 'b \<Rightarrow>
    ('s, http_answer option) handler" where
  "gateway E C D M Annotate meth path header body = (case M (RegisterMydisHandler D) meth path of
     None \<Rightarrow> ret None
   | Some r \<Rightarrow> and_then (handle_route E C Annotate r header body) (\<lambda>a. ret (Some a)))"

end
