(* ===== verification/Gateway_Spec.thy ===== *)
theory Gateway_Spec
  imports Gateway Demo
begin

text \<open>
  What the HTTP gateway promises: every request of the service can be made by one POST, which
  does what the gRPC call does; the one path that is not the operation's name.
\<close>

section \<open>The table of routes\<close>

definition lower_first :: "string \<Rightarrow> string" where
  "lower_first op = (case op of [] \<Rightarrow> [] | c # cs \<Rightarrow>
     (if CHR ''A'' \<le> c \<and> c \<le> CHR ''Z'' then char_of (of_char c + 32 :: nat) else c) # cs)"

definition segment_of :: "string \<Rightarrow> string" where
  "segment_of op = (if op = ''GetHashField'' then ''getHasField'' else lower_first op)"

definition operations :: "string list" where
  "operations = map fst patterns"

lemma patterns_segments: "patterns = map (\<lambda>op. (op, [''v1'', segment_of op])) operations"
  by code_simp

lemma segments_distinct: "distinct operations \<and> distinct (map segment_of operations)"
  by code_simp

lemma gateway_operations: "map fst (all_gateway D) = operations"
  by (simp add: all_gateway_def key_gateway_def byte_gateway_def number_gateway_def list_gateway_def hash_gateway_def
      operations_def patterns_def)

lemma registered: "register_key @ register_byte @ register_number @ register_list @ register_hash =
    map (\<lambda>op. (''POST'', op, op)) operations"
  by code_simp

definition route_of :: "string \<times> 'b request_fun \<Rightarrow> 'b route" where
  "route_of x = \<lparr>r_method = ''POST'', r_pattern = [''v1'', segment_of (fst x)], r_request = snd x\<rparr>"

lemma RegisterMydisHandler_routes: "RegisterMydisHandler D = map route_of (all_gateway D)"
proof -
  have d: "distinct (map fst (all_gateway D))" using segments_distinct by (simp add: gateway_operations)
  have p: "map_of patterns op = Some [''v1'', segment_of op]" if "op \<in> set operations" for op
    using that by (subst patterns_segments) (simp add: map_of_map_restrict)
  have "RegisterMydisHandler D = map (\<lambda>op. \<lparr>r_method = ''POST'', r_pattern = the (map_of patterns op),
      r_request = the (map_of (all_gateway D) op)\<rparr>) operations"
    by (simp add: RegisterMydisHandler_def registered)
  also have "\<dots> = map route_of (all_gateway D)"
    unfolding gateway_operations [of D, symmetric] map_map
  proof (rule map_cong [OF refl])
    fix x assume x: "x \<in> set (all_gateway D)"
    then have "fst x \<in> set operations" using gateway_operations [of D] by (metis image_eqI list.set_map)
    moreover have "map_of (all_gateway D) (fst x) = Some (snd x)" using d x by (simp add: map_of_is_SomeI)
    ultimately show "((\<lambda>op. \<lparr>r_method = ''POST'', r_pattern = the (map_of patterns op),
        r_request = the (map_of (all_gateway D) op)\<rparr>) \<circ> fst) x = route_of x"
      by (simp add: p route_of_def)
  qed
  finally show ?thesis .
qed

lemma route_of_matches:
  "route_matches (route_of x) meth path \<longleftrightarrow> meth = ''POST'' \<and> path = ''/v1/'' @ segment_of (fst x)"
  by (auto simp: route_matches_def route_of_def)

text \<open>The router finds the one route of an operation's path.\<close>

lemma mux_route:
  assumes "mux_law M" and "(op, f) \<in> set (all_gateway D)"
  shows "M (RegisterMydisHandler D) ''POST'' (''/v1/'' @ segment_of op) = Some (route_of (op, f))"
proof -
  have d: "distinct (map fst (all_gateway D))" "distinct (map segment_of (map fst (all_gateway D)))"
    using segments_distinct by (simp_all add: gateway_operations)
  have "\<exists>r\<in>set (RegisterMydisHandler D). route_matches r ''POST'' (''/v1/'' @ segment_of op)"
    using assms(2) by (force simp: RegisterMydisHandler_routes route_of_matches)
  then obtain r where r: "M (RegisterMydisHandler D) ''POST'' (''/v1/'' @ segment_of op) = Some r"
      and "r \<in> set (RegisterMydisHandler D)" and m: "route_matches r ''POST'' (''/v1/'' @ segment_of op)"
    using assms(1) [unfolded mux_law_def, rule_format, of "RegisterMydisHandler D" "''POST''" "''/v1/'' @ segment_of op"]
    by (auto split: option.splits)
  then obtain x where x: "x \<in> set (all_gateway D)" "r = route_of x" by (auto simp: RegisterMydisHandler_routes)
  with m have "segment_of (fst x) = segment_of op" by (simp add: route_of_matches)
  moreover have "inj_on (segment_of \<circ> fst) (set (all_gateway D))" using d(2) by (simp add: distinct_map o_def map_map)
  ultimately have "x = (op, f)" using inj_onD [of "segment_of \<circ> fst" "set (all_gateway D)" x "(op, f)"] x(1) assms(2) by simp
  with r x(2) show ?thesis by simp
qed

lemma no_route:
  assumes "mux_law M" and "\<not> (meth = ''POST'' \<and> (\<exists>op\<in>set operations. path = ''/v1/'' @ segment_of op))"
  shows "M (RegisterMydisHandler D) meth path = None"
proof (cases "M (RegisterMydisHandler D) meth path")
  case (Some r)
  then have "r \<in> set (RegisterMydisHandler D)" "route_matches r meth path"
    using assms(1) [unfolded mux_law_def, rule_format, of "RegisterMydisHandler D" meth path] by simp_all
  then obtain x where "x \<in> set (all_gateway D)" "route_matches (route_of x) meth path"
    by (auto simp: RegisterMydisHandler_routes)
  moreover have "fst x \<in> set operations" using calculation(1) gateway_operations [of D] by (metis image_eqI list.set_map)
  ultimately show ?thesis using assms(2) by (auto simp: route_of_matches)
qed simp

section \<open>The requests of the service\<close>

text \<open>The operation of a request.\<close>

primrec key_op :: "key_request \<Rightarrow> string" where
  "key_op Req_Keys = ''Keys''"
| "key_op (Req_KeysWithPrefix x) = ''KeysWithPrefix''"
| "key_op (Req_Has x) = ''Has''"
| "key_op (Req_SetExpire x) = ''SetExpire''"
| "key_op (Req_Lock x) = ''Lock''"
| "key_op (Req_LockWithTimeout x) = ''LockWithTimeout''"
| "key_op (Req_Unlock x) = ''Unlock''"
| "key_op (Req_UnlockThenSet x) = ''UnlockThenSet''"
| "key_op (Req_UnlockThenSetList x) = ''UnlockThenSetList''"
| "key_op (Req_Delete x) = ''Delete''"
| "key_op Req_Clear = ''Clear''"

primrec byte_op :: "byte_request \<Rightarrow> string" where
  "byte_op (Req_Get x) = ''Get''"
| "byte_op (Req_GetMany x) = ''GetMany''"
| "byte_op (Req_GetWithPrefix x) = ''GetWithPrefix''"
| "byte_op (Req_Set x) = ''Set''"
| "byte_op (Req_SetNX x) = ''SetNX''"
| "byte_op (Req_SetMany x) = ''SetMany''"
| "byte_op (Req_Length x) = ''Length''"

primrec number_op :: "number_request \<Rightarrow> string" where
  "number_op (Req_GetInt x) = ''GetInt''"
| "number_op (Req_GetFloat x) = ''GetFloat''"
| "number_op (Req_SetInt x) = ''SetInt''"
| "number_op (Req_SetFloat x) = ''SetFloat''"
| "number_op (Req_IncrementInt x) = ''IncrementInt''"
| "number_op (Req_DecrementInt x) = ''DecrementInt''"
| "number_op (Req_IncrementFloat x) = ''IncrementFloat''"
| "number_op (Req_DecrementFloat x) = ''DecrementFloat''"

primrec list_op :: "list_request \<Rightarrow> string" where
  "list_op (Req_GetList x) = ''GetList''"
| "list_op (Req_GetListItem x) = ''GetListItem''"
| "list_op (Req_SetList x) = ''SetList''"
| "list_op (Req_SetListItem x) = ''SetListItem''"
| "list_op (Req_ListLength x) = ''ListLength''"
| "list_op (Req_ListLimit x) = ''ListLimit''"
| "list_op (Req_ListInsert x) = ''ListInsert''"
| "list_op (Req_ListAppend x) = ''ListAppend''"
| "list_op (Req_ListPopLeft x) = ''ListPopLeft''"
| "list_op (Req_ListPopRight x) = ''ListPopRight''"
| "list_op (Req_ListHas x) = ''ListHas''"
| "list_op (Req_ListDelete x) = ''ListDelete''"
| "list_op (Req_ListDeleteItem x) = ''ListDeleteItem''"

primrec hash_op :: "hash_request \<Rightarrow> string" where
  "hash_op (Req_GetHash x) = ''GetHash''"
| "hash_op (Req_GetHashField x) = ''GetHashField''"
| "hash_op (Req_GetHashFields x) = ''GetHashFields''"
| "hash_op (Req_HashHas x) = ''HashHas''"
| "hash_op (Req_HashLength x) = ''HashLength''"
| "hash_op (Req_HashFields x) = ''HashFields''"
| "hash_op (Req_HashValues x) = ''HashValues''"
| "hash_op (Req_SetHash x) = ''SetHash''"
| "hash_op (Req_SetHashField x) = ''SetHashField''"
| "hash_op (Req_SetHashFields x) = ''SetHashFields''"
| "hash_op (Req_DelHashField x) = ''DelHashField''"

primrec op_name :: "request \<Rightarrow> string" where
  "op_name (Key_request x) = key_op x"
| "op_name (Byte_request x) = byte_op x"
| "op_name (Number_request x) = number_op x"
| "op_name (List_request x) = list_op x"
| "op_name (Hash_request x) = hash_op x"

text \<open>The body decodes to the message of the request, by the decoder of the operation's message type.\<close>

primrec key_body :: "'b json \<Rightarrow> key_request \<Rightarrow> 'b \<Rightarrow> bool" where
  "key_body D Req_Keys body \<longleftrightarrow> dec_Null D body = Inr ()"
| "key_body D (Req_KeysWithPrefix x) body \<longleftrightarrow> dec_Key D body = Inr x"
| "key_body D (Req_Has x) body \<longleftrightarrow> dec_Key D body = Inr x"
| "key_body D (Req_SetExpire x) body \<longleftrightarrow> dec_Expiration D body = Inr x"
| "key_body D (Req_Lock x) body \<longleftrightarrow> dec_Key D body = Inr x"
| "key_body D (Req_LockWithTimeout x) body \<longleftrightarrow> dec_Expiration D body = Inr x"
| "key_body D (Req_Unlock x) body \<longleftrightarrow> dec_Key D body = Inr x"
| "key_body D (Req_UnlockThenSet x) body \<longleftrightarrow> dec_ByteValue D body = Inr x"
| "key_body D (Req_UnlockThenSetList x) body \<longleftrightarrow> dec_List D body = Inr x"
| "key_body D (Req_Delete x) body \<longleftrightarrow> dec_Key D body = Inr x"
| "key_body D Req_Clear body \<longleftrightarrow> dec_Null D body = Inr ()"

primrec byte_body :: "'b json \<Rightarrow> byte_request \<Rightarrow> 'b \<Rightarrow> bool" where
  "byte_body D (Req_Get x) body \<longleftrightarrow> dec_Key D body = Inr x"
| "byte_body D (Req_GetMany x) body \<longleftrightarrow> dec_KeysList D body = Inr x"
| "byte_body D (Req_GetWithPrefix x) body \<longleftrightarrow> dec_Key D body = Inr x"
| "byte_body D (Req_Set x) body \<longleftrightarrow> dec_ByteValue D body = Inr x"
| "byte_body D (Req_SetNX x) body \<longleftrightarrow> dec_ByteValue D body = Inr x"
| "byte_body D (Req_SetMany x) body \<longleftrightarrow> dec_Hash D body = Inr x"
| "byte_body D (Req_Length x) body \<longleftrightarrow> dec_Key D body = Inr x"

primrec number_body :: "'b json \<Rightarrow> number_request \<Rightarrow> 'b \<Rightarrow> bool" where
  "number_body D (Req_GetInt x) body \<longleftrightarrow> dec_Key D body = Inr x"
| "number_body D (Req_GetFloat x) body \<longleftrightarrow> dec_Key D body = Inr x"
| "number_body D (Req_SetInt x) body \<longleftrightarrow> dec_IntValue D body = Inr x"
| "number_body D (Req_SetFloat x) body \<longleftrightarrow> dec_FloatValue D body = Inr x"
| "number_body D (Req_IncrementInt x) body \<longleftrightarrow> dec_IntValue D body = Inr x"
| "number_body D (Req_DecrementInt x) body \<longleftrightarrow> dec_IntValue D body = Inr x"
| "number_body D (Req_IncrementFloat x) body \<longleftrightarrow> dec_FloatValue D body = Inr x"
| "number_body D (Req_DecrementFloat x) body \<longleftrightarrow> dec_FloatValue D body = Inr x"

primrec list_body :: "'b json \<Rightarrow> list_request \<Rightarrow> 'b \<Rightarrow> bool" where
  "list_body D (Req_GetList x) body \<longleftrightarrow> dec_Key D body = Inr x"
| "list_body D (Req_GetListItem x) body \<longleftrightarrow> dec_ListItem D body = Inr x"
| "list_body D (Req_SetList x) body \<longleftrightarrow> dec_List D body = Inr x"
| "list_body D (Req_SetListItem x) body \<longleftrightarrow> dec_ListItem D body = Inr x"
| "list_body D (Req_ListLength x) body \<longleftrightarrow> dec_Key D body = Inr x"
| "list_body D (Req_ListLimit x) body \<longleftrightarrow> dec_ListItem D body = Inr x"
| "list_body D (Req_ListInsert x) body \<longleftrightarrow> dec_ListItem D body = Inr x"
| "list_body D (Req_ListAppend x) body \<longleftrightarrow> dec_ListItem D body = Inr x"
| "list_body D (Req_ListPopLeft x) body \<longleftrightarrow> dec_Key D body = Inr x"
| "list_body D (Req_ListPopRight x) body \<longleftrightarrow> dec_Key D body = Inr x"
| "list_body D (Req_ListHas x) body \<longleftrightarrow> dec_ListItem D body = Inr x"
| "list_body D (Req_ListDelete x) body \<longleftrightarrow> dec_ListItem D body = Inr x"
| "list_body D (Req_ListDeleteItem x) body \<longleftrightarrow> dec_ListItem D body = Inr x"

primrec hash_body :: "'b json \<Rightarrow> hash_request \<Rightarrow> 'b \<Rightarrow> bool" where
  "hash_body D (Req_GetHash x) body \<longleftrightarrow> dec_Key D body = Inr x"
| "hash_body D (Req_GetHashField x) body \<longleftrightarrow> dec_HashField D body = Inr x"
| "hash_body D (Req_GetHashFields x) body \<longleftrightarrow> dec_HashFieldSet D body = Inr x"
| "hash_body D (Req_HashHas x) body \<longleftrightarrow> dec_HashField D body = Inr x"
| "hash_body D (Req_HashLength x) body \<longleftrightarrow> dec_Key D body = Inr x"
| "hash_body D (Req_HashFields x) body \<longleftrightarrow> dec_Key D body = Inr x"
| "hash_body D (Req_HashValues x) body \<longleftrightarrow> dec_Key D body = Inr x"
| "hash_body D (Req_SetHash x) body \<longleftrightarrow> dec_Hash D body = Inr x"
| "hash_body D (Req_SetHashField x) body \<longleftrightarrow> dec_HashField D body = Inr x"
| "hash_body D (Req_SetHashFields x) body \<longleftrightarrow> dec_Hash D body = Inr x"
| "hash_body D (Req_DelHashField x) body \<longleftrightarrow> dec_HashField D body = Inr x"

primrec carries :: "'b json \<Rightarrow> request \<Rightarrow> 'b \<Rightarrow> bool" where
  "carries D (Key_request x) body \<longleftrightarrow> key_body D x body"
| "carries D (Byte_request x) body \<longleftrightarrow> byte_body D x body"
| "carries D (Number_request x) body \<longleftrightarrow> number_body D x body"
| "carries D (List_request x) body \<longleftrightarrow> list_body D x body"
| "carries D (Hash_request x) body \<longleftrightarrow> hash_body D x body"

lemma key_served: "key_body D x body \<Longrightarrow> \<exists>f. (key_op x, f) \<in> set (key_gateway D) \<and> f body = Inr (Key_request x)"
  by (cases x) (simp_all add: key_gateway_def decode_as_def)

lemma byte_served: "byte_body D x body \<Longrightarrow> \<exists>f. (byte_op x, f) \<in> set (byte_gateway D) \<and> f body = Inr (Byte_request x)"
  by (cases x) (simp_all add: byte_gateway_def decode_as_def)

lemma number_served: "number_body D x body \<Longrightarrow> \<exists>f. (number_op x, f) \<in> set (number_gateway D) \<and> f body = Inr (Number_request x)"
  by (cases x) (simp_all add: number_gateway_def decode_as_def)

lemma list_served: "list_body D x body \<Longrightarrow> \<exists>f. (list_op x, f) \<in> set (list_gateway D) \<and> f body = Inr (List_request x)"
  by (cases x) (simp_all add: list_gateway_def decode_as_def)

lemma hash_served: "hash_body D x body \<Longrightarrow> \<exists>f. (hash_op x, f) \<in> set (hash_gateway D) \<and> f body = Inr (Hash_request x)"
  by (cases x) (simp_all add: hash_gateway_def decode_as_def)

lemma op_served: "carries D req body \<Longrightarrow> \<exists>f. (op_name req, f) \<in> set (all_gateway D) \<and> f body = Inr req"
  by (cases req) (auto simp: all_gateway_def dest!: key_served byte_served number_served list_served hash_served)

text \<open>The path of an operation: \<open>/v1/\<close> and its name with a small first letter, but for one.\<close>

definition op_path :: "string \<Rightarrow> string" where
  "op_path op = (if op = ''GetHashField'' then ''/v1/getHasField'' else ''/v1/'' @ lower_first op)"

lemma op_path_segment: "op_path op = ''/v1/'' @ segment_of op"
  by (simp add: op_path_def segment_of_def)

lemma gateway_route:
  assumes "mux_law M" and "(op, f) \<in> set (all_gateway D)"
  shows "gateway E C D M Annotate ''POST'' (op_path op) header body =
    and_then (handle_route E C Annotate (route_of (op, f)) header body) (\<lambda>a. ret (Some a))"
  by (simp only: gateway_def op_path_segment mux_route [OF assms] option.case)

text \<open>
  C33. The gateway serves every request of the service.  A POST to the path of its operation,
  with a body that the JSON decoder takes for the request's message, does exactly what serving
  the request over gRPC does, and forwards the response or writes the error; with a body that
  is not decoded, nothing is served and the decoder's error is written.  The path is \<open>/v1/\<close> and
  the operation's name with a small first letter, except that \<open>GetHashField\<close> is found under
  \<open>/v1/getHasField\<close>: nothing answers under its own name.
\<close>

theorem gateway_serves_every_request:
  assumes "mux_law M" and "Annotate header = (ctx, None)" and "carries D req body"
  shows "gateway E C D M Annotate ''POST'' (op_path (op_name req)) header body =
      and_then (attempt (rpc (serve E C ctx req))) (\<lambda>r. ret (Some (case r of
          Inl e \<Rightarrow> \<lparr>a_errors = [Error e], a_forwarded = False\<rparr>
        | Inr _ \<Rightarrow> \<lparr>a_errors = [], a_forwarded = True\<rparr>))) \<and>
    (\<forall>op f bad msg. (op, f) \<in> set (all_gateway D) \<and> f bad = Inl msg \<longrightarrow>
      gateway E C D M Annotate ''POST'' (op_path op) header bad = ret (Some \<lparr>a_errors = [msg], a_forwarded = False\<rparr>)) \<and>
    gateway E C D M Annotate ''POST'' ''/v1/getHashField'' header any = ret None"
proof (intro conjI allI impI)
  from op_served [OF assms(3)] obtain f where op: "(op_name req, f) \<in> set (all_gateway D)" and f: "f body = Inr req" by blast
  show "gateway E C D M Annotate ''POST'' (op_path (op_name req)) header body =
      and_then (attempt (rpc (serve E C ctx req))) (\<lambda>r. ret (Some (case r of
          Inl e \<Rightarrow> \<lparr>a_errors = [Error e], a_forwarded = False\<rparr>
        | Inr _ \<Rightarrow> \<lparr>a_errors = [], a_forwarded = True\<rparr>)))"
    unfolding gateway_route [OF assms(1) op] using f assms(2)
    by (simp add: handle_route_def route_of_def fun_eq_iff and_then_def ret_def split: prod.split outcome.split sum.split)
  show "gateway E C D M Annotate ''POST'' (op_path op) header bad = ret (Some \<lparr>a_errors = [msg], a_forwarded = False\<rparr>)"
    if op: "(op, f) \<in> set (all_gateway D) \<and> f bad = Inl msg" for op f bad msg
    unfolding gateway_route [OF assms(1) conjunct1 [OF op]] using op assms(2)
    by (simp add: handle_route_def route_of_def fun_eq_iff and_then_def attempt_def throw_def ret_def)
  have "''getHashField'' \<notin> set (map segment_of operations)" by code_simp
  then have "\<not> (''POST'' = ''POST'' \<and> (\<exists>op\<in>set operations. ''/v1/getHashField'' = ''/v1/'' @ segment_of op))" by auto
  from no_route [OF assms(1) this, of D]
  show "gateway E C D M Annotate ''POST'' ''/v1/getHashField'' header any = ret None" by (simp add: gateway_def)
qed

text \<open>A decoder that knows two types of messages, and a router that takes the first match.\<close>

datatype demo_body = Body_Null | Body_Key pb_Key

abbreviation wrong_body :: "'b \<Rightarrow> string + 'm" where
  "wrong_body \<equiv> (\<lambda>_. Inl ''wrong message'')"

definition demo_json :: "demo_body json" where
  "demo_json = \<lparr>dec_Null = (\<lambda>b. case b of Body_Null \<Rightarrow> Inr () | _ \<Rightarrow> Inl ''wrong message''),
     dec_Key = (\<lambda>b. case b of Body_Key m \<Rightarrow> Inr m | _ \<Rightarrow> Inl ''wrong message''),
     dec_Expiration = wrong_body, dec_ByteValue = wrong_body, dec_KeysList = wrong_body, dec_IntValue = wrong_body,
     dec_FloatValue = wrong_body, dec_List = wrong_body, dec_ListItem = wrong_body, dec_Hash = wrong_body,
     dec_HashField = wrong_body, dec_HashFieldSet = wrong_body\<rparr>"

definition first_match :: "'b mux" where
  "first_match routes meth path = find (\<lambda>r. route_matches r meth path) routes"

lemma first_match_law: "mux_law first_match"
  by (auto simp: mux_law_def first_match_def find_Some_iff find_None_iff split: option.split)

theorem gateway_serves_every_request_witness:
  "gateway quiet_etcd memory_codec demo_json first_match (\<lambda>_. (demo_ctx, None)) ''POST'' ''/v1/has'' () (Body_Key (newKey ''k'')) (mem_world []) =
    and_then (attempt (rpc (serve quiet_etcd memory_codec demo_ctx (Key_request (Req_Has (newKey ''k'')))))) (\<lambda>r. ret (Some (case r of
          Inl e \<Rightarrow> \<lparr>a_errors = [Error e], a_forwarded = False\<rparr>
        | Inr _ \<Rightarrow> \<lparr>a_errors = [], a_forwarded = True\<rparr>))) (mem_world [])"
proof -
  have carried: "carries demo_json (Key_request (Req_Has (newKey ''k''))) (Body_Key (newKey ''k''))" by (simp add: demo_json_def)
  have path: "op_path (op_name (Key_request (Req_Has (newKey ''k'')))) = ''/v1/has''" by (simp, code_simp)
  note main = gateway_serves_every_request [OF first_match_law _ carried, THEN conjunct1, of "\<lambda>_. (demo_ctx, None)" "()" demo_ctx
      quiet_etcd memory_codec, OF refl]
  show ?thesis by (rule fun_cong [OF main [unfolded path], of "mem_world []"])
qed

end
