(* ===== verification/Gateway_Watch.thy ===== *)
theory Gateway_Watch
  imports Gateway
begin

text \<open>
  The gateway's streaming request (\<open>request_Mydis_Watch_0\<close> of \<open>pb/mydis.pb.gw.go\<close>): requests
  decoded from the body are sent on the gRPC stream, the first one before, the others by a
  goroutine while the caller waits for the stream's header.  The closure \<open>handleSend\<close>
  assigns the variable \<open>err\<close> of the enclosing function, which the caller assigns and reads
  at the same time, so the variable is part of the state.  The route answers with what the
  caller returns; forwarding the stream is the gateway library's.
\<close>

section \<open>The goroutine and the caller\<close>

datatype gw_error = Io_EOF | Gw_Failed string

text \<open>
  \<open>handleSend\<close>, between its steps: about to decode; with a decoded request, before the test for
  \<open>io.EOF\<close> and then before the test for an error; in a \<open>return err\<close> of these tests; about to
  send the request; before the test of the error of sending, and in its \<open>return err\<close>.  Then the
  loop is left and \<open>CloseSend\<close> called.
\<close>

datatype pump =
  Pump_Decode | Pump_Decoded pb_WatchRequest | Pump_Not_EOF pb_WatchRequest | Pump_Return pb_WatchRequest
| Pump_Send pb_WatchRequest | Pump_Sent | Pump_Return_Sent | Pump_Left | Pump_Done

text \<open>
  The caller: in \<open>stream.Header()\<close>, before the test of its error, in the \<open>return\<close> with that
  error, or returned; \<open>Op_Nil_Stream\<close> is a return of no stream and no error.
\<close>

datatype opener = Op_Header | Op_Check | Op_Return | Op_Returned "gw_error option" | Op_Nil_Stream

text \<open>The body as what the decoder yields, in order; at its end \<open>io.EOF\<close>.\<close>

record watch_call =
  wc_body :: "(string + pb_WatchRequest) list"
  wc_err :: "gw_error option"
  wc_pump :: pump
  wc_opener :: opener
  wc_sent :: "pb_WatchRequest list"

text \<open>\<open>var protoReq WatchRequest\<close>, as it stays when nothing was decoded.\<close>

definition empty_watch :: pb_WatchRequest where
  "empty_watch = \<lparr>WatchRequest_Key = [], WatchRequest_Prefix = False, WatchRequest_Rev = 0, WatchRequest_Id = 0,
     WatchRequest_Cancel = False\<rparr>"

text \<open>\<open>dec.Decode(&protoReq)\<close>: its error, the request, and the rest of the body.\<close>

fun decode_next :: "(string + pb_WatchRequest) list \<Rightarrow> gw_error option \<times> pb_WatchRequest \<times> (string + pb_WatchRequest) list" where
  "decode_next [] = (Some Io_EOF, empty_watch, [])"
| "decode_next (Inl msg # xs) = (Some (Gw_Failed msg), empty_watch, xs)"
| "decode_next (Inr r # xs) = (None, r, xs)"

text \<open>
  The first call of \<open>handleSend\<close>, with nothing beside it, and what follows: the answer, if
  there is one at once (\<open>io.EOF\<close> is none), or the two goroutines.
\<close>

definition open_watch :: "(pb_WatchRequest \<Rightarrow> string option) \<Rightarrow> (string + pb_WatchRequest) list \<Rightarrow> gw_error option + watch_call" where
  "open_watch Send body = (case decode_next body of
     (Some Io_EOF, _, _) \<Rightarrow> Inl None
   | (Some e, _, _) \<Rightarrow> Inl (Some e)
   | (None, r, body') \<Rightarrow> (case Send r of
        Some msg \<Rightarrow> Inl (Some (Gw_Failed msg))
      | None \<Rightarrow> Inr \<lparr>wc_body = body', wc_err = None, wc_pump = Pump_Decode, wc_opener = Op_Header, wc_sent = [r]\<rparr>))"

text \<open>
  The steps.  Each reads or assigns \<open>err\<close> once: a test of it and the \<open>return err\<close> that follows
  are two.  A return of nil from \<open>handleSend\<close> lets its loop go on.  \<open>header\<close> is the error of
  \<open>stream.Header()\<close>, \<open>Send\<close> that of sending a request.
\<close>

inductive watch_call_step :: "(pb_WatchRequest \<Rightarrow> string option) \<Rightarrow> string option \<Rightarrow> watch_call \<Rightarrow> watch_call \<Rightarrow> bool"
  for Send header where
  Decode: "wc_pump s = Pump_Decode \<Longrightarrow> decode_next (wc_body s) = (e, r, rest) \<Longrightarrow>
    watch_call_step Send header s (s\<lparr>wc_pump := Pump_Decoded r, wc_err := e, wc_body := rest\<rparr>)"
| Check_EOF: "wc_pump s = Pump_Decoded r \<Longrightarrow>
    watch_call_step Send header s (s\<lparr>wc_pump := if wc_err s = Some Io_EOF then Pump_Return r else Pump_Not_EOF r\<rparr>)"
| Check_Decoded: "wc_pump s = Pump_Not_EOF r \<Longrightarrow>
    watch_call_step Send header s (s\<lparr>wc_pump := if wc_err s = None then Pump_Send r else Pump_Return r\<rparr>)"
| Return_Decoded: "wc_pump s = Pump_Return r \<Longrightarrow>
    watch_call_step Send header s (s\<lparr>wc_pump := if wc_err s = None then Pump_Decode else Pump_Left\<rparr>)"
| Send_Request: "wc_pump s = Pump_Send r \<Longrightarrow>
    watch_call_step Send header s (s\<lparr>wc_pump := Pump_Sent, wc_err := map_option Gw_Failed (Send r), wc_sent := wc_sent s @ [r]\<rparr>)"
| Check_Sent: "wc_pump s = Pump_Sent \<Longrightarrow>
    watch_call_step Send header s (s\<lparr>wc_pump := if wc_err s = None then Pump_Decode else Pump_Return_Sent\<rparr>)"
| Return_Sent: "wc_pump s = Pump_Return_Sent \<Longrightarrow>
    watch_call_step Send header s (s\<lparr>wc_pump := if wc_err s = None then Pump_Decode else Pump_Left\<rparr>)"
| CloseSend: "wc_pump s = Pump_Left \<Longrightarrow> watch_call_step Send header s (s\<lparr>wc_pump := Pump_Done\<rparr>)"
| Header: "wc_opener s = Op_Header \<Longrightarrow>
    watch_call_step Send header s (s\<lparr>wc_opener := Op_Check, wc_err := map_option Gw_Failed header\<rparr>)"
| Check_Header: "wc_opener s = Op_Check \<Longrightarrow>
    watch_call_step Send header s (s\<lparr>wc_opener := if wc_err s = None then Op_Returned None else Op_Return\<rparr>)"
| Return_Header: "wc_opener s = Op_Return \<Longrightarrow>
    watch_call_step Send header s (s\<lparr>wc_opener := if wc_err s = None then Op_Nil_Stream else Op_Returned (wc_err s)\<rparr>)"

inductive_cases watch_call_stepE: "watch_call_step Send header s s'"

abbreviation watch_call_steps :: "(pb_WatchRequest \<Rightarrow> string option) \<Rightarrow> string option \<Rightarrow> watch_call \<Rightarrow> watch_call \<Rightarrow> bool" where
  "watch_call_steps Send header \<equiv> (watch_call_step Send header)\<^sup>*\<^sup>*"

section \<open>What is sent\<close>

text \<open>The requests still to come: the one in the goroutine's hands, then those of the body.\<close>

fun in_pump :: "pump \<Rightarrow> pb_WatchRequest list" where
  "in_pump (Pump_Decoded r) = [r]"
| "in_pump (Pump_Not_EOF r) = [r]"
| "in_pump (Pump_Return r) = [r]"
| "in_pump (Pump_Send r) = [r]"
| "in_pump _ = []"

definition decoded :: "(string + pb_WatchRequest) list \<Rightarrow> pb_WatchRequest list" where
  "decoded body = concat (map (case_sum (\<lambda>_. []) (\<lambda>r. [r])) body)"

lemma decode_next_decoded:
  "decode_next body = (e, r, rest) \<Longrightarrow> (e = None \<and> decoded body = r # decoded rest) \<or>
     (e \<noteq> None \<and> r = empty_watch \<and> decoded body = decoded rest)"
  by (cases body rule: decode_next.cases) (auto simp: decoded_def)

text \<open>
  Apart from empty requests, what is sent comes from the body, in its order and each request
  at most once.
\<close>

definition drop_empty :: "pb_WatchRequest list \<Rightarrow> pb_WatchRequest list" where
  "drop_empty rs = filter (\<lambda>r. r \<noteq> empty_watch) rs"

text \<open>
  A decoded request meets an error only if \<open>Header\<close> has assigned it, which it does once; so
  what \<open>return err\<close> then reads is an error as well, and the loop is left.
\<close>

fun request_at :: "pump \<Rightarrow> pb_WatchRequest option" where
  "request_at (Pump_Decoded r) = Some r"
| "request_at (Pump_Not_EOF r) = Some r"
| "request_at (Pump_Return r) = Some r"
| "request_at _ = None"

definition err_inv :: "watch_call \<Rightarrow> bool" where
  "err_inv s \<longleftrightarrow> (\<forall>r. request_at (wc_pump s) = Some r \<and> r \<noteq> empty_watch \<longrightarrow>
     (wc_err s = None \<or> wc_opener s \<noteq> Op_Header) \<and> (wc_pump s = Pump_Return r \<longrightarrow> wc_err s \<noteq> None))"

lemma err_inv_step: "watch_call_step Send header s s' \<Longrightarrow> err_inv s \<Longrightarrow> err_inv s'"
proof (induction rule: watch_call_step.induct)
  case (Decode s e r rest)
  then show ?case using decode_next_decoded [OF Decode(2)] by (auto simp: err_inv_def)
qed (auto simp: err_inv_def)

definition order_inv :: "pb_WatchRequest list \<Rightarrow> watch_call \<Rightarrow> bool" where
  "order_inv rs s \<longleftrightarrow> (\<exists>left. drop_empty rs = drop_empty (wc_sent s @ in_pump (wc_pump s)) @ left \<and>
     (left = drop_empty (decoded (wc_body s)) \<or> wc_pump s \<in> {Pump_Left, Pump_Done}))"

lemma order_inv_step: "watch_call_step Send header s s' \<Longrightarrow> err_inv s \<Longrightarrow> order_inv rs s \<Longrightarrow> order_inv rs s'"
proof (induction rule: watch_call_step.induct)
  case (Decode s e r rest)
  then show ?case using decode_next_decoded [OF Decode(2)] by (auto simp: order_inv_def drop_empty_def)
next
  case (Return_Decoded s r)
  then show ?case by (cases "r = empty_watch") (auto simp: order_inv_def err_inv_def drop_empty_def)
qed (auto simp: order_inv_def drop_empty_def)

lemma sent_in_order:
  assumes "open_watch Send body = Inr s0" and "watch_call_steps Send header s0 s"
  shows "\<exists>left. drop_empty (decoded body) = drop_empty (wc_sent s) @ left"
proof -
  from assms(1) obtain r rest where r: "decode_next body = (None, r, rest)" "Send r = None"
      "s0 = \<lparr>wc_body = rest, wc_err = None, wc_pump = Pump_Decode, wc_opener = Op_Header, wc_sent = [r]\<rparr>"
    by (auto simp: open_watch_def split: prod.splits option.splits gw_error.splits)
  have "err_inv s0" "order_inv (decoded body) s0"
    using decode_next_decoded [OF r(1)] by (simp_all add: r(3) err_inv_def order_inv_def drop_empty_def)
  with assms(2) have "err_inv s \<and> order_inv (decoded body) s"
    by (induction rule: rtranclp_induct) (use err_inv_step order_inv_step in blast)+
  then show ?thesis by (auto simp: order_inv_def drop_empty_def)
qed

section \<open>The answer\<close>

text \<open>
  The route of \<open>Watch\<close>: an error of \<open>AnnotateContext\<close> is written and the handler goes on; then
  the error of the request function is written, or the stream is forwarded.  \<open>client.Watch\<close>
  may fail before anything is decoded.  A return of no stream and no error has no answer: the
  handler panics.
\<close>

fun gw_text :: "gw_error \<Rightarrow> string" where
  "gw_text Io_EOF = ''EOF''"
| "gw_text (Gw_Failed msg) = msg"

definition watch_route :: "string option \<Rightarrow> gw_error option \<Rightarrow> http_answer" where
  "watch_route annotated err =
     (let written = (case annotated of Some e \<Rightarrow> [e] | None \<Rightarrow> []) in
      case err of
        Some e \<Rightarrow> \<lparr>a_errors = written @ [gw_text e], a_forwarded = False\<rparr>
      | None \<Rightarrow> \<lparr>a_errors = written, a_forwarded = True\<rparr>)"

inductive watch_answer :: "(pb_WatchRequest \<Rightarrow> string option) \<Rightarrow> string option \<Rightarrow> string option \<Rightarrow> string option \<Rightarrow>
    (string + pb_WatchRequest) list \<Rightarrow> http_answer \<Rightarrow> bool" for Send header annotated dial body where
  No_Stream: "dial = Some msg \<Longrightarrow>
    watch_answer Send header annotated dial body (watch_route annotated (Some (Gw_Failed msg)))"
| At_Once: "dial = None \<Longrightarrow> open_watch Send body = Inl err \<Longrightarrow>
    watch_answer Send header annotated dial body (watch_route annotated err)"
| Opened: "dial = None \<Longrightarrow> open_watch Send body = Inr s0 \<Longrightarrow> watch_call_steps Send header s0 s \<Longrightarrow>
    wc_opener s = Op_Returned err \<Longrightarrow> watch_answer Send header annotated dial body (watch_route annotated err)"

text \<open>
  An empty body is forwarded like a stream that was opened; and the race reaches the client:
  a body of one request may be answered with the text \<open>EOF\<close> although nothing failed.
\<close>

lemma empty_body_forwarded:
  "watch_answer Send header None None [] \<lparr>a_errors = [], a_forwarded = True\<rparr>"
  using At_Once [of None Send "[]" None header None] by (simp add: open_watch_def watch_route_def)

lemma forwarded_or_reported:
  "watch_answer Send header annotated dial body a \<Longrightarrow> a_forwarded a \<longleftrightarrow> length (a_errors a) = length (case_option [] (\<lambda>e. [e]) annotated)"
  by (cases rule: watch_answer.cases) (auto simp: watch_route_def Let_def split: option.splits)

lemma header_sees_EOF:
  fixes r Send
  defines "s0 \<equiv> \<lparr>wc_body = [], wc_err = None, wc_pump = Pump_Decode, wc_opener = Op_Header, wc_sent = [r]\<rparr>"
  shows "\<exists>s. watch_call_steps Send None s0 s \<and> wc_opener s = Op_Returned (Some Io_EOF)"
proof -
  let ?step = "watch_call_step Send None"
  note into = rtranclp.rtrancl_into_rtrancl [of ?step] and refl = rtranclp.rtrancl_refl [of ?step]
  let ?h = "s0\<lparr>wc_opener := Op_Check\<rparr>"
  let ?he = "?h\<lparr>wc_pump := Pump_Decoded empty_watch, wc_err := Some Io_EOF\<rparr>"
  have "?step s0 ?h" using Header [of s0 Send None] by (simp add: s0_def)
  moreover have "?step ?h ?he" using Decode [of ?h "Some Io_EOF" empty_watch "[]" Send None] by (simp add: s0_def)
  moreover have "?step ?he (?he\<lparr>wc_opener := Op_Return\<rparr>)"
    using Check_Header [of ?he Send None] by simp
  moreover have "?step (?he\<lparr>wc_opener := Op_Return\<rparr>) (?he\<lparr>wc_opener := Op_Returned (Some Io_EOF)\<rparr>)"
    using Return_Header [of "?he\<lparr>wc_opener := Op_Return\<rparr>" Send None] by simp
  ultimately have "watch_call_steps Send None s0 (?he\<lparr>wc_opener := Op_Returned (Some Io_EOF)\<rparr>)"
    by (intro into [OF into [OF into [OF into [OF refl]]]])
  then show ?thesis
    by (intro exI [where x = "?he\<lparr>wc_opener := Op_Returned (Some Io_EOF)\<rparr>"]) simp
qed

text \<open>
  The header's error can be lost between its test and the return: then the function returns no
  stream and no error, and the route, which calls \<open>Recv\<close> of the stream, has none to call it of.
\<close>

lemma nil_stream_returned:
  fixes q r Send
  defines "s0 \<equiv> \<lparr>wc_body = [Inr q], wc_err = None, wc_pump = Pump_Decode, wc_opener = Op_Header, wc_sent = [r]\<rparr>"
  shows "\<exists>s. watch_call_steps Send (Some msg) s0 s \<and> wc_opener s = Op_Nil_Stream"
proof -
  let ?step = "watch_call_step Send (Some msg)"
  note into = rtranclp.rtrancl_into_rtrancl [of ?step] and refl = rtranclp.rtrancl_refl [of ?step]
  let ?h = "s0\<lparr>wc_opener := Op_Check, wc_err := Some (Gw_Failed msg)\<rparr>"
  let ?t = "?h\<lparr>wc_opener := Op_Return\<rparr>"
  let ?d = "?t\<lparr>wc_pump := Pump_Decoded q, wc_err := None, wc_body := []\<rparr>"
  have "?step s0 ?h" using Header [of s0 Send "Some msg"] by (simp add: s0_def)
  moreover have "?step ?h ?t" using Check_Header [of ?h Send "Some msg"] by (simp add: s0_def)
  moreover have "?step ?t ?d" using Decode [of ?t None q "[]" Send "Some msg"] by (simp add: s0_def)
  moreover have "?step ?d (?d\<lparr>wc_opener := Op_Nil_Stream\<rparr>)" using Return_Header [of ?d Send "Some msg"] by (simp add: s0_def)
  ultimately have "watch_call_steps Send (Some msg) s0 (?d\<lparr>wc_opener := Op_Nil_Stream\<rparr>)"
    by (intro into [OF into [OF into [OF into [OF refl]]]])
  then show ?thesis by (intro exI [where x = "?d\<lparr>wc_opener := Op_Nil_Stream\<rparr>"]) simp
qed

lemma route_answers_EOF:
  assumes "Send r = None"
  shows "watch_answer Send None None None [Inr r] \<lparr>a_errors = [''EOF''], a_forwarded = False\<rparr>"
proof -
  let ?s0 = "\<lparr>wc_body = [], wc_err = None, wc_pump = Pump_Decode, wc_opener = Op_Header, wc_sent = [r]\<rparr>"
  have o: "open_watch Send [Inr r] = Inr ?s0" using assms by (simp add: open_watch_def)
  obtain s where s: "watch_call_steps Send None ?s0 s" "wc_opener s = Op_Returned (Some Io_EOF)"
    using header_sees_EOF by blast
  have "watch_answer Send None None None [Inr r] (watch_route None (Some Io_EOF))" by (rule Opened [OF refl o s])
  then show ?thesis by (simp add: watch_route_def)
qed

section \<open>Properties\<close>

text \<open>
  C34. A well-formed call can fail, or send what was not asked for, although the stream and the
  decoder report no failure: with a body of one request, the goroutine's \<open>io.EOF\<close> can reach
  the check of the header's error, and the call fails with it; or the header's nil can
  overwrite the \<open>io.EOF\<close>, and a second, empty request is sent.  In every run, apart from empty
  requests, what is sent is an initial part of the body.
\<close>

theorem gateway_watch_races:
  assumes "Send r = None"
  shows "\<exists>s0. open_watch Send [Inr r] = Inr s0 \<and>
    (\<exists>s. watch_call_steps Send None s0 s \<and> wc_opener s = Op_Returned (Some Io_EOF)) \<and>
    (\<exists>s. watch_call_steps Send None s0 s \<and> wc_sent s = [r, empty_watch]) \<and>
    (\<forall>s. watch_call_steps Send None s0 s \<longrightarrow> (\<exists>left. drop_empty [r] = drop_empty (wc_sent s) @ left))"
proof -
  let ?s0 = "\<lparr>wc_body = [], wc_err = None, wc_pump = Pump_Decode, wc_opener = Op_Header, wc_sent = [r]\<rparr>"
  let ?step = "watch_call_step Send None"
  have o: "open_watch Send [Inr r] = Inr ?s0" using assms by (simp add: open_watch_def)
  note into = rtranclp.rtrancl_into_rtrancl [of ?step] and refl = rtranclp.rtrancl_refl [of ?step]
  have fails: "\<exists>s. watch_call_steps Send None ?s0 s \<and> wc_opener s = Op_Returned (Some Io_EOF)"
    by (rule header_sees_EOF)
  let ?d = "?s0\<lparr>wc_pump := Pump_Decoded empty_watch, wc_err := Some Io_EOF\<rparr>"
  let ?dh = "?s0\<lparr>wc_pump := Pump_Decoded empty_watch, wc_opener := Op_Check\<rparr>"
  let ?n = "?s0\<lparr>wc_pump := Pump_Not_EOF empty_watch, wc_opener := Op_Check\<rparr>"
  let ?g = "?s0\<lparr>wc_pump := Pump_Send empty_watch, wc_opener := Op_Check\<rparr>"
  let ?t = "?g\<lparr>wc_pump := Pump_Sent, wc_err := map_option Gw_Failed (Send empty_watch), wc_sent := [r, empty_watch]\<rparr>"
  have "?step ?s0 ?d" using Decode [of ?s0 "Some Io_EOF" empty_watch "[]" Send None] by simp
  moreover have "?step ?d ?dh" using Header [of ?d Send None] by simp
  moreover have "?step ?dh ?n" using Check_EOF [of ?dh empty_watch Send None] by simp
  moreover have "?step ?n ?g" using Check_Decoded [of ?n empty_watch Send None] by simp
  moreover have "?step ?g ?t" using Send_Request [of ?g empty_watch Send None] by simp
  ultimately have "watch_call_steps Send None ?s0 ?t" by (intro into [OF into [OF into [OF into [OF into [OF refl]]]]])
  then have empty: "\<exists>s. watch_call_steps Send None ?s0 s \<and> wc_sent s = [r, empty_watch]"
    by (intro exI [where x = "?t"]) simp
  have "decoded [Inr r] = [r]" by (simp add: decoded_def)
  then have "\<forall>s. watch_call_steps Send None ?s0 s \<longrightarrow> (\<exists>left. drop_empty [r] = drop_empty (wc_sent s) @ left)"
    using sent_in_order [OF o] by simp
  with o fails empty show ?thesis by blast
qed

theorem gateway_watch_races_witness:
  "\<exists>s0 s. open_watch (\<lambda>_. None) [Inr (empty_watch\<lparr>WatchRequest_Key := ''k''\<rparr>)] = Inr s0 \<and>
    watch_call_steps (\<lambda>_. None) None s0 s \<and> wc_opener s = Op_Returned (Some Io_EOF)"
  using gateway_watch_races [of "\<lambda>_. None" "empty_watch\<lparr>WatchRequest_Key := ''k''\<rparr>", OF refl] by blast

end
