(* ===== verification/Watch_Session.thy ===== *)
theory Watch_Session
  imports Watch
begin

text \<open>
  One \<open>Watch\<close> call on the server (\<open>Server.Watch\<close> and \<open>Watcher.backgroundProcess\<close> of
  \<open>mydis/watch.go\<close>): the receiver, which forwards the client's requests, the sender, which
  takes events and sends them, and the watcher's own loop, joined by unbuffered channels.
  The loop abstracts to the steps of a watcher of \<open>Watch\<close>.  Sending on a closed
  channel panics, which ends the process; receiving from one yields nil.
\<close>

section \<open>The goroutines\<close>

text \<open>
  The loop: in its \<open>select\<close>, about to answer on \<open>resCh\<close>, with events still to put on
  \<open>eventCh\<close>, or returned, with the four channels closed by its deferred function.
\<close>

datatype background = Bg_Select | Bg_Answer | Bg_Emit "pb_Event list" | Bg_Ended

text \<open>
  The receiver: in \<open>stream.Recv\<close>, about to put a request on \<open>reqCh\<close>, waiting on \<open>resCh\<close>,
  in the deferred \<open>watcher.Close()\<close>, or returned.
\<close>

datatype receiver = Rc_Recv | Rc_Forward pb_WatchRequest | Rc_Await | Rc_Close | Rc_Returned

text \<open>The sender: waiting on \<open>eventCh\<close>, or with an event (nil from a closed channel) to send.\<close>

datatype event_sender = Sd_Take | Sd_Send "pb_Event option"

text \<open>
  \<open>ss_out\<close> are the arguments of \<open>stream.Send\<close>, in order; \<open>ss_closers\<close> counts the calls of
  \<open>WatchController.Close\<close> that wait in \<open>w.closeCh <- struct{}{}\<close> of this watcher;
  \<open>w_sent\<close> of the watcher are the events handed to the sender.
\<close>

record 'm session =
  ss_watcher :: "'m watcher"
  ss_bg :: background
  ss_rc :: receiver
  ss_sd :: event_sender
  ss_out :: "pb_Event option list"
  ss_closers :: nat
  ss_panicked :: bool

definition open_session :: "'m \<Rightarrow> 'm session" where
  "open_session m = \<lparr>ss_watcher = new_watcher m, ss_bg = Bg_Select, ss_rc = Rc_Recv, ss_sd = Sd_Take,
     ss_out = [], ss_closers = 0, ss_panicked = False\<rparr>"

text \<open>The events a batch puts on \<open>eventCh\<close>, all in the one case of the \<open>select\<close>.\<close>

definition batch_events :: "mvcc_event list \<Rightarrow> 'm watcher \<Rightarrow> pb_Event list option" where
  "batch_events es w = map_option w_sent (handle_events es (w\<lparr>w_sent := []\<rparr>))"

text \<open>
  The steps while the process runs.  An unbuffered channel is one step of both sides.
  \<open>stream.Send\<close> returns and its error is ignored.
\<close>

inductive live_step :: "'m watch_stream \<Rightarrow> 'm session \<Rightarrow> 'm session \<Rightarrow> bool" for M where
  Recv: "ss_rc s = Rc_Recv \<Longrightarrow> live_step M s (s\<lparr>ss_rc := Rc_Forward r\<rparr>)"
| Recv_Error: "ss_rc s = Rc_Recv \<Longrightarrow> live_step M s (s\<lparr>ss_rc := Rc_Close\<rparr>)"
| Forward: "ss_rc s = Rc_Forward r \<Longrightarrow> ss_bg s = Bg_Select \<Longrightarrow>
    live_step M s (s\<lparr>ss_rc := Rc_Await, ss_bg := Bg_Answer, ss_watcher := handle_request M r (ss_watcher s)\<rparr>)"
| Answered: "ss_rc s = Rc_Await \<Longrightarrow> ss_bg s = Bg_Answer \<Longrightarrow>
    live_step M s (s\<lparr>ss_rc := Rc_Recv, ss_bg := Bg_Select\<rparr>)"
| Batch: "ss_bg s = Bg_Select \<Longrightarrow> batch_events es (ss_watcher s) = Some evs \<Longrightarrow>
    live_step M s (s\<lparr>ss_bg := Bg_Emit evs\<rparr>)"
| Batch_Panic: "ss_bg s = Bg_Select \<Longrightarrow> batch_events es (ss_watcher s) = None \<Longrightarrow>
    live_step M s (s\<lparr>ss_panicked := True\<rparr>)"
| Emit: "ss_bg s = Bg_Emit (ev # evs) \<Longrightarrow> ss_sd s = Sd_Take \<Longrightarrow>
    live_step M s (s\<lparr>ss_bg := Bg_Emit evs, ss_sd := Sd_Send (Some ev),
      ss_watcher := (ss_watcher s)\<lparr>w_sent := w_sent (ss_watcher s) @ [ev]\<rparr>\<rparr>)"
| Emitted: "ss_bg s = Bg_Emit [] \<Longrightarrow> live_step M s (s\<lparr>ss_bg := Bg_Select\<rparr>)"
| Send: "ss_sd s = Sd_Send e \<Longrightarrow> live_step M s (s\<lparr>ss_sd := Sd_Take, ss_out := ss_out s @ [e]\<rparr>)"
| Close: "ss_rc s = Rc_Close \<Longrightarrow> ss_bg s = Bg_Select \<Longrightarrow>
    live_step M s (s\<lparr>ss_rc := Rc_Returned, ss_bg := Bg_Ended\<rparr>)"
| Controller: "ss_bg s \<noteq> Bg_Ended \<Longrightarrow> live_step M s (s\<lparr>ss_closers := Suc (ss_closers s)\<rparr>)"
| Controller_Close: "ss_closers s = Suc n \<Longrightarrow> ss_bg s = Bg_Select \<Longrightarrow>
    live_step M s (s\<lparr>ss_closers := n, ss_bg := Bg_Ended\<rparr>)"
| Take_Nil: "ss_bg s = Bg_Ended \<Longrightarrow> ss_sd s = Sd_Take \<Longrightarrow> live_step M s (s\<lparr>ss_sd := Sd_Send None\<rparr>)"
| Await_Nil: "ss_bg s = Bg_Ended \<Longrightarrow> ss_rc s = Rc_Await \<Longrightarrow> live_step M s (s\<lparr>ss_rc := Rc_Recv\<rparr>)"
| Forward_Panic: "ss_bg s = Bg_Ended \<Longrightarrow> ss_rc s = Rc_Forward r \<Longrightarrow> live_step M s (s\<lparr>ss_panicked := True\<rparr>)"
| Close_Panic: "ss_bg s = Bg_Ended \<Longrightarrow> ss_rc s = Rc_Close \<Longrightarrow> live_step M s (s\<lparr>ss_panicked := True\<rparr>)"
| Controller_Panic: "ss_bg s = Bg_Ended \<Longrightarrow> 0 < ss_closers s \<Longrightarrow> live_step M s (s\<lparr>ss_panicked := True\<rparr>)"

definition session_step :: "'m watch_stream \<Rightarrow> 'm session \<Rightarrow> 'm session \<Rightarrow> bool" where
  "session_step M s s' \<longleftrightarrow> \<not> ss_panicked s \<and> live_step M s s'"

abbreviation session_steps :: "'m watch_stream \<Rightarrow> 'm session \<Rightarrow> 'm session \<Rightarrow> bool" where
  "session_steps M \<equiv> (session_step M)\<^sup>*\<^sup>*"

inductive_cases live_stepE: "live_step M s s'"

section \<open>The session refines the watcher\<close>

text \<open>The watcher a session implements: the events still to be emitted count as sent.\<close>

fun pending :: "background \<Rightarrow> pb_Event list" where
  "pending (Bg_Emit evs) = evs"
| "pending _ = []"

definition session_watcher :: "'m session \<Rightarrow> 'm watcher" where
  "session_watcher s = (ss_watcher s)\<lparr>w_sent := w_sent (ss_watcher s) @ pending (ss_bg s)\<rparr>"

text \<open>What the sender has taken: sent already, or in its hands.\<close>

fun in_hand :: "event_sender \<Rightarrow> pb_Event option list" where
  "in_hand (Sd_Send e) = [e]"
| "in_hand Sd_Take = []"

definition taken :: "'m session \<Rightarrow> pb_Event option list" where
  "taken s = ss_out s @ in_hand (ss_sd s)"

lemma handle_events_from:
  "handle_events es (w\<lparr>w_sent := sent @ xs\<rparr>) =
     map_option (\<lambda>v. v\<lparr>w_sent := sent @ w_sent v\<rparr>) (handle_events es (w\<lparr>w_sent := xs\<rparr>))"
proof (induction es arbitrary: xs)
  case (Cons e es)
  show ?case using Cons [of "xs @ _"] by (auto split: option.split)
qed simp

lemma batch_events_step:
  assumes "batch_events es w = Some evs"
  shows "handle_events es w = Some (w\<lparr>w_sent := w_sent w @ evs\<rparr>)"
proof -
  from assms obtain v where v: "handle_events es (w\<lparr>w_sent := []\<rparr>) = Some v" "evs = w_sent v"
    by (auto simp: batch_events_def)
  have "w_watching v = w_watching w \<and> w_stream v = w_stream w \<and> w_answered v = w_answered w"
    using handle_events_watching [OF v(1)] by simp
  then have "v\<lparr>w_sent := w_sent w @ evs\<rparr> = w\<lparr>w_sent := w_sent w @ evs\<rparr>" by simp
  then show ?thesis using handle_events_from [of es "w_sent w" "[]" w] v by simp
qed

lemma handle_request_sent:
  "handle_request M r (w\<lparr>w_sent := sent\<rparr>) = (handle_request M r w)\<lparr>w_sent := sent\<rparr>"
  "w_sent (handle_request M r w) = w_sent w"
  by (simp_all add: handle_request_def Let_def split: option.split prod.split)

lemma session_watcher_step:
  assumes "live_step M s s'"
  shows "session_watcher s' = session_watcher s \<or> watcher_step M (session_watcher s) (session_watcher s')"
  using assms
proof cases
  case (Forward r)
  then have "session_watcher s' = handle_request M r (session_watcher s)"
    by (simp add: session_watcher_def handle_request_sent)
  then show ?thesis by (simp add: watcher_step.Request)
next
  case (Batch es evs)
  then have "handle_events es (session_watcher s) = Some (session_watcher s')"
    using batch_events_step [of es "ss_watcher s" evs] by (simp add: session_watcher_def)
  then show ?thesis by (blast intro: watcher_step.Events)
qed (simp_all add: session_watcher_def)

text \<open>
  What the sender took are the watcher's events, in order, and after the end nil; the
  receiver waits exactly while the loop has a request to answer.
\<close>

definition session_inv :: "'m session \<Rightarrow> bool" where
  "session_inv s \<longleftrightarrow>
     (\<exists>n. taken s = map Some (w_sent (ss_watcher s)) @ replicate n None \<and> (ss_bg s = Bg_Ended \<or> n = 0)) \<and>
     (ss_rc s = Rc_Await \<longleftrightarrow> ss_bg s = Bg_Answer) \<and> (ss_rc s = Rc_Returned \<longrightarrow> ss_bg s = Bg_Ended)"

lemma session_inv_step:
  assumes "live_step M s s'" and "session_inv s"
  shows "session_inv s'"
proof -
  obtain n where n: "taken s = map Some (w_sent (ss_watcher s)) @ replicate n None" "ss_bg s = Bg_Ended \<or> n = 0"
    and rest: "ss_rc s = Rc_Await \<longleftrightarrow> ss_bg s = Bg_Answer" "ss_rc s = Rc_Returned \<longrightarrow> ss_bg s = Bg_Ended"
    using assms(2) by (auto simp: session_inv_def)
  from assms(1) show ?thesis
  proof cases
    case Take_Nil
    then have "taken s' = map Some (w_sent (ss_watcher s')) @ replicate (Suc n) None"
      using n(1) by (simp add: taken_def replicate_append_same)
    then show ?thesis using rest Take_Nil unfolding session_inv_def by (intro conjI exI [where x = "Suc n"]) simp_all
  qed (use n rest in \<open>auto simp: session_inv_def taken_def handle_request_sent intro!: exI [where x = n]\<close>)
qed

lemma session_inv_steps: "session_steps M s s' \<Longrightarrow> session_inv s \<Longrightarrow> session_inv s'"
  by (induction rule: rtranclp_induct) (auto simp: session_step_def intro: session_inv_step)

lemma session_inv_open: "session_inv (open_session m)"
  by (simp add: session_inv_def open_session_def taken_def new_watcher_def)

lemma session_watcher_reachable:
  "session_steps M (open_session m) s \<Longrightarrow> watcher_reachable M m (session_watcher s)"
proof (induction rule: rtranclp_induct)
  case base
  then show ?case by (simp add: session_watcher_def open_session_def new_watcher_def
      watcher_reachable.Start [of M m, unfolded new_watcher_def])
next
  case (step s s')
  then show ?case using session_watcher_step [of M s s'] watcher_reachable.Step [of M m]
    by (fastforce simp: session_step_def)
qed

section \<open>After the client is gone\<close>

text \<open>With the client gone the loop still hands over its events, two steps each.\<close>

lemma emit_all:
  assumes "\<not> ss_panicked s" and "ss_bg s = Bg_Emit evs" and "ss_sd s = Sd_Take"
  shows "\<exists>s'. (session_step M ^^ (2 * length evs + 1)) s s' \<and> ss_bg s' = Bg_Select \<and> ss_sd s' = Sd_Take \<and>
    taken s' = taken s @ map Some evs \<and> ss_rc s' = ss_rc s \<and> ss_closers s' = ss_closers s \<and> \<not> ss_panicked s'"
  using assms
proof (induction evs arbitrary: s)
  case Nil
  let ?t = "s\<lparr>ss_bg := Bg_Select\<rparr>"
  have "session_step M s ?t" using Nil by (simp add: session_step_def Emitted)
  then have "(session_step M ^^ Suc (2 * length [])) s ?t" by (simp add: relcompp_apply)
  then show ?case using Nil by (intro exI [where x = ?t]) (simp add: taken_def relcompp_apply)
next
  case (Cons ev evs)
  let ?t = "s\<lparr>ss_bg := Bg_Emit evs, ss_sd := Sd_Send (Some ev),
      ss_watcher := (ss_watcher s)\<lparr>w_sent := w_sent (ss_watcher s) @ [ev]\<rparr>\<rparr>"
  let ?u = "?t\<lparr>ss_sd := Sd_Take, ss_out := ss_out ?t @ [Some ev]\<rparr>"
  have "live_step M s ?t" using Cons.prems by (intro Emit) simp_all
  moreover have "live_step M ?t ?u" by (rule Send) simp
  ultimately have two: "session_step M s ?t" "session_step M ?t ?u"
    using Cons.prems by (simp_all add: session_step_def)
  obtain s' where s': "(session_step M ^^ (2 * length evs + 1)) ?u s'" "ss_bg s' = Bg_Select \<and> ss_sd s' = Sd_Take \<and>
      taken s' = taken ?u @ map Some evs \<and> ss_rc s' = ss_rc ?u \<and> ss_closers s' = ss_closers ?u \<and> \<not> ss_panicked s'"
    using Cons.IH [of ?u] Cons.prems by auto
  have "(session_step M ^^ Suc (Suc (2 * length evs + 1))) s s'"
    using relpowp_Suc_I2 [of "session_step M", OF two(1) relpowp_Suc_I2 [of "session_step M", OF two(2) s'(1)]] .
  then show ?case using s'(2) Cons.prems by (intro exI [where x = s']) (auto simp: taken_def)
qed

lemma sender_free:
  assumes "\<not> ss_panicked s"
  shows "\<exists>t k. (session_step M ^^ k) s t \<and> k \<le> 1 \<and> ss_sd t = Sd_Take \<and> taken t = taken s \<and> ss_bg t = ss_bg s \<and>
    ss_rc t = ss_rc s \<and> \<not> ss_panicked t"
proof (cases "ss_sd s")
  case Sd_Take
  then show ?thesis using assms by (intro exI [where x = s] exI [where x = 0]) simp
next
  case (Sd_Send e)
  let ?t = "s\<lparr>ss_sd := Sd_Take, ss_out := ss_out s @ [e]\<rparr>"
  have "session_step M s ?t" using assms Sd_Send by (simp add: session_step_def Send)
  then have "(session_step M ^^ 1) s ?t" by (simp add: relcompp_apply)
  then show ?thesis using assms Sd_Send by (intro exI [where x = ?t] exI [where x = 1]) (simp add: taken_def)
qed

lemma loop_free:
  assumes "\<not> ss_panicked s" and "ss_sd s = Sd_Take" and "ss_bg s \<noteq> Bg_Answer" and "ss_bg s \<noteq> Bg_Ended"
  shows "\<exists>u j. (session_step M ^^ j) s u \<and> j \<le> 2 * length (pending (ss_bg s)) + 1 \<and> ss_bg u = Bg_Select \<and>
    taken u = taken s @ map Some (pending (ss_bg s)) \<and> ss_rc u = ss_rc s \<and> \<not> ss_panicked u"
proof (cases "ss_bg s")
  case Bg_Select
  then show ?thesis using assms by (intro exI [where x = s] exI [where x = 0]) simp
next
  case (Bg_Emit evs)
  then show ?thesis using emit_all [OF assms(1) Bg_Emit assms(2), of M] by fastforce
qed (use assms in auto)

lemma close_session:
  assumes "\<not> ss_panicked s" and "ss_bg s = Bg_Select" and "ss_rc s = Rc_Close"
  shows "session_step M s (s\<lparr>ss_rc := Rc_Returned, ss_bg := Bg_Ended\<rparr>)"
  using assms by (simp add: session_step_def Close)

text \<open>The steps of a session whose loop and receiver have ended are the sender's.\<close>

definition ended_session :: "'m session \<Rightarrow> bool" where
  "ended_session s \<longleftrightarrow> ss_bg s = Bg_Ended \<and> ss_rc s = Rc_Returned \<and> ss_closers s = 0 \<and> \<not> ss_panicked s"

lemma ended_session_step:
  assumes "session_step M s s'" and "ended_session s"
  shows "ended_session s' \<and> (taken s' = taken s \<or> taken s' = taken s @ [None])"
  using assms by (auto simp: session_step_def ended_session_def taken_def elim!: live_stepE)

lemma ended_session_steps:
  assumes "session_steps M s s'" and "ended_session s"
  shows "ended_session s' \<and> (\<exists>n. taken s' = taken s @ replicate n None)"
  using assms(1)
proof (induction rule: rtranclp_induct)
  case base
  show ?case using assms(2) by (auto intro: exI [where x = 0])
next
  case (step t u)
  then obtain n where n: "ended_session t" "taken t = taken s @ replicate n None" by blast
  then show ?case using ended_session_step [OF step(2)]
    by (auto simp: replicate_append_same intro: exI [where x = n] exI [where x = "Suc n"])
qed

lemma ended_session_sends:
  assumes "ended_session s"
  shows "\<exists>s'. session_step M s s' \<and> ended_session s' \<and>
    2 * length (ss_out s') + length (in_hand (ss_sd s')) = Suc (2 * length (ss_out s) + length (in_hand (ss_sd s)))"
proof (cases "ss_sd s")
  case Sd_Take
  let ?t = "s\<lparr>ss_sd := Sd_Send None\<rparr>"
  have "session_step M s ?t" using assms Sd_Take by (simp add: session_step_def ended_session_def Take_Nil)
  then show ?thesis using assms Sd_Take by (intro exI [where x = ?t]) (simp add: ended_session_def)
next
  case (Sd_Send e)
  let ?t = "s\<lparr>ss_sd := Sd_Take, ss_out := ss_out s @ [e]\<rparr>"
  have "session_step M s ?t" using assms Sd_Send by (simp add: session_step_def ended_session_def Send)
  then show ?thesis using assms Sd_Send by (intro exI [where x = ?t]) (simp add: ended_session_def)
qed

lemma ended_session_sends_on:
  assumes "ended_session s"
  shows "\<exists>s'. session_steps M s s' \<and> n \<le> 2 * length (ss_out s') + length (in_hand (ss_sd s')) \<and> ended_session s'"
proof (induction n)
  case 0
  then show ?case using assms by blast
next
  case (Suc n)
  then obtain t where t: "session_steps M s t" "n \<le> 2 * length (ss_out t) + length (in_hand (ss_sd t))" "ended_session t"
    by blast
  from ended_session_sends [OF t(3), of M] obtain u where u: "session_step M t u" "ended_session u"
      "2 * length (ss_out u) + length (in_hand (ss_sd u)) = Suc (2 * length (ss_out t) + length (in_hand (ss_sd t)))"
    by blast
  then show ?case using t by (intro exI [where x = u]) (simp add: rtranclp.rtrancl_into_rtrancl [OF t(1) u(1)])
qed

section \<open>A watcher closed by the controller\<close>

lemma controller_closed_step:
  assumes "session_step M s s'" and "ss_bg s = Bg_Ended" and "ss_rc s \<noteq> Rc_Returned"
  shows "ss_bg s' = Bg_Ended \<and> ss_rc s' \<noteq> Rc_Returned"
  using assms by (auto simp: session_step_def elim!: live_stepE)

lemma controller_closed_steps:
  "session_steps M s s' \<Longrightarrow> ss_bg s = Bg_Ended \<Longrightarrow> ss_rc s \<noteq> Rc_Returned \<Longrightarrow>
     ss_bg s' = Bg_Ended \<and> ss_rc s' \<noteq> Rc_Returned"
  by (induction rule: rtranclp_induct) (auto dest: controller_closed_step)

lemma closed_Close_panics:
  assumes "ss_bg s = Bg_Ended" and "ss_rc s = Rc_Close"
  shows "\<exists>s'. session_steps M s s' \<and> ss_panicked s'"
proof (cases "ss_panicked s")
  case False
  then have "session_step M s (s\<lparr>ss_panicked := True\<rparr>)" using assms by (simp add: session_step_def Close_Panic)
  then show ?thesis by (intro exI [where x = "s\<lparr>ss_panicked := True\<rparr>"]) auto
qed blast

lemma closed_Recv_panics:
  assumes "ss_bg s = Bg_Ended" and "ss_rc s = Rc_Recv"
  shows "\<exists>s'. session_steps M s s' \<and> ss_panicked s'"
proof (cases "ss_panicked s")
  case False
  let ?t = "s\<lparr>ss_rc := Rc_Close\<rparr>"
  have "session_step M s ?t" using False assms by (simp add: session_step_def Recv_Error)
  then show ?thesis using closed_Close_panics [of ?t M] assms by (auto intro: converse_rtranclp_into_rtranclp)
qed blast

lemma closed_panics:
  assumes "ss_bg s = Bg_Ended" and "ss_rc s \<noteq> Rc_Returned"
  shows "\<exists>s'. session_steps M s s' \<and> ss_panicked s'"
proof (cases "ss_panicked s")
  case False
  show ?thesis
  proof (cases "ss_rc s")
    case (Rc_Forward r)
    then have "session_step M s (s\<lparr>ss_panicked := True\<rparr>)" using False assms by (simp add: session_step_def Forward_Panic)
    then show ?thesis by (intro exI [where x = "s\<lparr>ss_panicked := True\<rparr>"]) auto
  next
    case Rc_Await
    let ?t = "s\<lparr>ss_rc := Rc_Recv\<rparr>"
    have "session_step M s ?t" using False assms Rc_Await by (simp add: session_step_def Await_Nil)
    then show ?thesis using closed_Recv_panics [of ?t M] assms by (auto intro: converse_rtranclp_into_rtranclp)
  qed (use assms closed_Recv_panics closed_Close_panics in auto)
qed blast

section \<open>Properties\<close>

text \<open>A run that serves one request, receives one event, and loses its client.\<close>

definition demo_watch :: "unit watch_stream" where
  "demo_watch = \<lparr>stream_Watch = (\<lambda>m k e rv. (0, m)), stream_Cancel = (\<lambda>m i. m)\<rparr>"

definition demo_request :: pb_WatchRequest where
  "demo_request = \<lparr>WatchRequest_Key = ''k'', WatchRequest_Prefix = False, WatchRequest_Rev = 0,
     WatchRequest_Id = 0, WatchRequest_Cancel = False\<rparr>"

definition demo_change :: mvcc_event where
  "demo_change = \<lparr>mvcc_Type = Event_PUT, mvcc_Kv = Some \<lparr>KV_Key = StringToBytes ''k'', KV_Value = [7]\<rparr>,
     mvcc_PrevKv = None\<rparr>"

definition demo_served :: "unit session" where
  "demo_served = (open_session ())\<lparr>ss_watcher := handle_request demo_watch demo_request (new_watcher ())\<rparr>"

definition demo_left :: "unit session" where
  "demo_left = demo_served\<lparr>ss_rc := Rc_Close, ss_bg := Bg_Emit [convert_event demo_change]\<rparr>"

lemma demo_served_reached: "session_steps demo_watch (open_session ()) demo_served"
proof -
  let ?s0 = "open_session ()"
  let ?s1 = "?s0\<lparr>ss_rc := Rc_Forward demo_request\<rparr>"
  let ?s2 = "?s1\<lparr>ss_rc := Rc_Await, ss_bg := Bg_Answer,
      ss_watcher := handle_request demo_watch demo_request (ss_watcher ?s1)\<rparr>"
  have "live_step demo_watch ?s0 ?s1" by (rule Recv) (simp add: open_session_def)
  moreover have "live_step demo_watch ?s1 ?s2" by (rule Forward) (simp_all add: open_session_def)
  moreover have "live_step demo_watch ?s2 (?s2\<lparr>ss_rc := Rc_Recv, ss_bg := Bg_Select\<rparr>)" by (rule Answered) simp_all
  moreover have "?s2\<lparr>ss_rc := Rc_Recv, ss_bg := Bg_Select\<rparr> = demo_served" by (simp add: demo_served_def open_session_def)
  ultimately have "session_step demo_watch ?s0 ?s1" "session_step demo_watch ?s1 ?s2" "session_step demo_watch ?s2 demo_served"
    by (simp_all add: session_step_def) (simp_all add: open_session_def)
  then show ?thesis by (meson rtranclp.rtrancl_into_rtrancl rtranclp.rtrancl_refl)
qed

lemma demo_batch:
  "batch_events [demo_change] (ss_watcher demo_served) = Some [convert_event demo_change]"
  by (simp add: batch_events_def demo_change_def demo_served_def handle_request_def new_watcher_def demo_watch_def
      RequestID_def demo_request_def watches_key_def Let_def)

lemma demo_left_reached: "session_steps demo_watch (open_session ()) demo_left"
proof -
  let ?s1 = "demo_served\<lparr>ss_rc := Rc_Close\<rparr>"
  have "live_step demo_watch demo_served ?s1" by (rule Recv_Error) (simp add: demo_served_def open_session_def)
  moreover have "live_step demo_watch ?s1 demo_left" unfolding demo_left_def using demo_batch
    by (rule Batch [of ?s1 "[demo_change]", simplified, rotated]) (simp add: demo_served_def open_session_def)
  ultimately have "session_step demo_watch demo_served ?s1" "session_step demo_watch ?s1 demo_left"
    by (simp_all add: session_step_def demo_served_def open_session_def)
  then show ?thesis using demo_served_reached by (meson rtranclp.rtrancl_into_rtrancl)
qed

text \<open>
  C23. In every run of a session its sender takes exactly the events of a watcher that the
  loop's steps can reach, in their order: what it sent or has in its hands, followed by what
  the loop still has to emit, are the watcher's events.  It takes nil only after the loop has
  ended, and the receiver waits for an answer exactly while the loop has one to give.
\<close>

theorem session_delivers_events:
  assumes "session_steps M (open_session m) s"
  shows "watcher_reachable M m (session_watcher s) \<and>
    (\<exists>n. taken s @ map Some (pending (ss_bg s)) = map Some (w_sent (session_watcher s)) @ replicate n None \<and>
      (ss_bg s = Bg_Ended \<or> n = 0)) \<and>
    (ss_rc s = Rc_Await \<longleftrightarrow> ss_bg s = Bg_Answer)"
proof -
  have inv: "session_inv s" using session_inv_steps [OF assms session_inv_open] .
  then obtain n where n: "taken s = map Some (w_sent (ss_watcher s)) @ replicate n None" "ss_bg s = Bg_Ended \<or> n = 0"
    unfolding session_inv_def by blast
  then have "taken s @ map Some (pending (ss_bg s)) = map Some (w_sent (session_watcher s)) @ replicate n None"
    by (auto simp: session_watcher_def)
  with n(2) inv session_watcher_reachable [OF assms] show ?thesis unfolding session_inv_def by blast
qed

theorem session_delivers_events_witness:
  "watcher_reachable demo_watch () (session_watcher demo_left) \<and>
    w_sent (session_watcher demo_left) = [convert_event demo_change] \<and> taken demo_left = []"
  using session_delivers_events [OF demo_left_reached]
  by (simp add: session_watcher_def demo_left_def demo_served_def open_session_def taken_def handle_request_sent new_watcher_def)

text \<open>
  C24. When the client has gone and its watcher is not closed yet, a run of a bounded number of
  steps ends the session: every event the loop had to emit is handed over, the watcher's loop
  returns and \<open>Server.Watch\<close> returns.
\<close>

theorem disconnect_ends_watcher:
  assumes "session_steps M (open_session m) s" and "ss_rc s = Rc_Close" and "ss_bg s \<noteq> Bg_Ended" and "\<not> ss_panicked s"
  shows "\<exists>n s'. (session_step M ^^ n) s s' \<and> n \<le> 2 * length (pending (ss_bg s)) + 3 \<and>
    ss_bg s' = Bg_Ended \<and> ss_rc s' = Rc_Returned \<and> \<not> ss_panicked s' \<and>
    taken s' = map Some (w_sent (session_watcher s))"
proof -
  have inv: "session_inv s" using session_inv_steps [OF assms(1) session_inv_open] .
  then have tk: "taken s = map Some (w_sent (ss_watcher s))" using assms(3) by (auto simp: session_inv_def)
  have "\<exists>t k. (session_step M ^^ k) s t \<and> k \<le> 1 \<and> ss_sd t = Sd_Take \<and> taken t = taken s \<and> ss_bg t = ss_bg s \<and>
      ss_rc t = ss_rc s \<and> \<not> ss_panicked t" by (rule sender_free [OF assms(4)])
  then obtain t k where t: "(session_step M ^^ k) s t" "k \<le> 1" "ss_sd t = Sd_Take" "taken t = taken s" "ss_bg t = ss_bg s"
      "ss_rc t = ss_rc s" "\<not> ss_panicked t" by blast
  have "ss_bg s \<noteq> Bg_Answer" using inv assms(2) by (auto simp: session_inv_def)
  then have "\<exists>u j. (session_step M ^^ j) t u \<and> j \<le> 2 * length (pending (ss_bg s)) + 1 \<and> ss_bg u = Bg_Select \<and>
      taken u = taken t @ map Some (pending (ss_bg s)) \<and> ss_rc u = ss_rc t \<and> \<not> ss_panicked u"
    using loop_free [OF t(7,3), of M] assms(3) t(5) by simp
  then obtain u j where u: "(session_step M ^^ j) t u" "j \<le> 2 * length (pending (ss_bg s)) + 1" "ss_bg u = Bg_Select"
      "taken u = taken t @ map Some (pending (ss_bg s))" "ss_rc u = ss_rc t" "\<not> ss_panicked u" by blast
  let ?s = "u\<lparr>ss_rc := Rc_Returned, ss_bg := Bg_Ended\<rparr>"
  have "(session_step M ^^ (k + j)) s u" using t(1) u(1) by (auto simp: relpowp_add)
  moreover have "session_step M u ?s" using close_session [OF u(6,3)] u(5) t(6) assms(2) by simp
  ultimately have "(session_step M ^^ Suc (k + j)) s ?s" by (rule relpowp_Suc_I)
  moreover have "taken ?s = map Some (w_sent (session_watcher s))"
    using u(4) t(4) tk by (simp add: taken_def session_watcher_def)
  ultimately show ?thesis using t(2) u(2,6) by (intro exI [where x = "Suc (k + j)"] exI [where x = ?s]) simp
qed

theorem disconnect_ends_watcher_witness:
  "\<exists>n s'. (session_step demo_watch ^^ n) demo_left s' \<and> n \<le> 5 \<and> ss_bg s' = Bg_Ended \<and> ss_rc s' = Rc_Returned \<and>
    \<not> ss_panicked s' \<and> taken s' = [Some (convert_event demo_change)]"
proof -
  have "ss_rc demo_left = Rc_Close" "ss_bg demo_left = Bg_Emit [convert_event demo_change]" "\<not> ss_panicked demo_left"
      "w_sent (session_watcher demo_left) = [convert_event demo_change]"
    by (simp_all add: demo_left_def demo_served_def open_session_def session_watcher_def handle_request_sent new_watcher_def)
  then show ?thesis using disconnect_ends_watcher [OF demo_left_reached] by simp
qed

text \<open>
  Once the loop and \<open>Server.Watch\<close> have returned, the sender goroutine goes on for ever: it
  takes nil from the closed channel and sends it, again and again, and there is no step with
  which it, or the session, stops.
\<close>

theorem disconnected_sender_never_stops:
  assumes "ended_session s" and "session_steps M s s'"
  shows "(\<exists>n. taken s' = taken s @ replicate n None) \<and> (\<exists>s''. session_step M s' s'') \<and>
    (\<forall>k. \<exists>s''. session_steps M s' s'' \<and> k \<le> length (ss_out s''))"
proof -
  from ended_session_steps [OF assms(2,1)] have e: "ended_session s'" and n: "\<exists>n. taken s' = taken s @ replicate n None"
    by blast+
  have "\<exists>s''. session_steps M s' s'' \<and> k \<le> length (ss_out s'')" for k
  proof -
    obtain u where u: "session_steps M s' u" "2 * k + 1 \<le> 2 * length (ss_out u) + length (in_hand (ss_sd u))"
      using ended_session_sends_on [OF e, of M "2 * k + 1"] by blast
    have "length (in_hand (ss_sd u)) \<le> 1" by (cases "ss_sd u") simp_all
    with u(2) have "k \<le> length (ss_out u)" by simp
    with u(1) show ?thesis by blast
  qed
  with n ended_session_sends [OF e, of M] show ?thesis by blast
qed

definition demo_ended :: "unit session" where
  "demo_ended = (open_session ())\<lparr>ss_rc := Rc_Returned, ss_bg := Bg_Ended\<rparr>"

theorem disconnected_sender_never_stops_witness:
  "session_steps demo_watch (open_session ()) demo_ended \<and>
    (\<exists>s''. session_steps demo_watch demo_ended s'' \<and> 1000 \<le> length (ss_out s''))"
proof -
  let ?s1 = "(open_session ())\<lparr>ss_rc := Rc_Close\<rparr>"
  have "live_step demo_watch (open_session ()) ?s1" by (rule Recv_Error) (simp add: open_session_def)
  moreover have "live_step demo_watch ?s1 (?s1\<lparr>ss_rc := Rc_Returned, ss_bg := Bg_Ended\<rparr>)"
    by (rule Close) (simp_all add: open_session_def)
  ultimately have "session_step demo_watch (open_session ()) ?s1" "session_step demo_watch ?s1 demo_ended"
    by (simp_all add: session_step_def demo_ended_def open_session_def)
  then have "session_steps demo_watch (open_session ()) demo_ended"
    by (meson rtranclp.rtrancl_into_rtrancl rtranclp.rtrancl_refl)
  moreover have "ended_session demo_ended" by (simp add: ended_session_def demo_ended_def open_session_def)
  ultimately show ?thesis using disconnected_sender_never_stops [of demo_ended demo_watch demo_ended] by blast
qed

text \<open>
  After \<open>WatchController.Close\<close> has closed the watcher of a client that is still connected,
  \<open>Server.Watch\<close> cannot return any more, and from every later state the process can panic,
  on a closed channel: holding a request or closing, its receiver has no other step.
\<close>

theorem controller_close_panics:
  assumes "ss_bg s = Bg_Ended" and "ss_rc s \<noteq> Rc_Returned" and "session_steps M s s'"
  shows "ss_rc s' \<noteq> Rc_Returned \<and> (\<exists>s''. session_steps M s' s'' \<and> ss_panicked s'') \<and>
    (\<forall>s''. session_step M s' s'' \<and> \<not> ss_panicked s'' \<and> (ss_rc s' = Rc_Close \<or> (\<exists>r. ss_rc s' = Rc_Forward r)) \<longrightarrow>
      ss_rc s'' = ss_rc s')"
proof -
  have s': "ss_bg s' = Bg_Ended" "ss_rc s' \<noteq> Rc_Returned"
    using controller_closed_steps [OF assms(3,1,2)] by blast+
  have "ss_rc s'' = ss_rc s'" if "session_step M s' s'' \<and> \<not> ss_panicked s'' \<and> (ss_rc s' = Rc_Close \<or> (\<exists>r. ss_rc s' = Rc_Forward r))" for s''
    using that s' by (auto simp: session_step_def elim!: live_stepE)
  then show ?thesis using s'(2) closed_panics [OF s', of M] by blast
qed

definition demo_closed :: "unit session" where
  "demo_closed = (open_session ())\<lparr>ss_bg := Bg_Ended\<rparr>"

theorem controller_close_panics_witness:
  "session_steps demo_watch (open_session ()) demo_closed \<and>
    (\<exists>s''. session_steps demo_watch demo_closed s'' \<and> ss_panicked s'')"
proof -
  let ?s1 = "(open_session ())\<lparr>ss_closers := Suc (ss_closers (open_session ()))\<rparr>"
  have "live_step demo_watch (open_session ()) ?s1" by (rule Controller) (simp add: open_session_def)
  moreover have "live_step demo_watch ?s1 (?s1\<lparr>ss_closers := 0, ss_bg := Bg_Ended\<rparr>)"
    by (rule Controller_Close) (simp_all add: open_session_def)
  ultimately have "session_step demo_watch (open_session ()) ?s1" "session_step demo_watch ?s1 demo_closed"
    by (simp_all add: session_step_def demo_closed_def open_session_def)
  then have "session_steps demo_watch (open_session ()) demo_closed"
    by (meson rtranclp.rtrancl_into_rtrancl rtranclp.rtrancl_refl)
  moreover have "ss_bg demo_closed = Bg_Ended" "ss_rc demo_closed \<noteq> Rc_Returned"
    by (simp_all add: demo_closed_def open_session_def)
  ultimately show ?thesis using controller_close_panics [of demo_closed demo_watch demo_closed] by blast
qed

end
