(* ===== verification/Watch_End.thy ===== *)
theory Watch_End
  imports Watch_Session Client_Process
begin

text \<open>
  A watch from end to end: the session that serves a client's stream (\<open>mydis/watch.go\<close>) and
  everything that runs in the client (\<open>client/client.go\<close>), joined by one gRPC stream that
  carries requests one way and events the other, in order.
\<close>

section \<open>The two sides joined\<close>

text \<open>How many of the client's requests the server has received, and of the server's events the client.\<close>

record 'm watch_link =
  wl_session :: "'m session"
  wl_client :: client_proc
  wl_requests :: nat
  wl_events :: nat

definition receives :: "client_proc \<Rightarrow> pb_Event \<Rightarrow> client_proc \<Rightarrow> bool" where
  "receives c ev c' \<longleftrightarrow> (\<exists>xs. cp_receivers c = add_mset R_Recv xs \<and> c' = c\<lparr>cp_receivers := add_mset (R_Event ev) xs\<rparr>)"

text \<open>
  One stream, as long as it works: the client has not left its loop, and no \<open>Send\<close> fails.  The
  server receives the requests the client sent, the client the events the server sent; every
  other step is one side's own.
\<close>

inductive link_step :: "'m watch_stream \<Rightarrow> 'm watch_link \<Rightarrow> 'm watch_link \<Rightarrow> bool" for M where
  Server_Own: "session_step M (wl_session l) s' \<Longrightarrow> ss_rc (wl_session l) \<noteq> Rc_Recv \<or> ss_rc s' \<in> {Rc_Recv, Rc_Close} \<Longrightarrow>
    link_step M l (l\<lparr>wl_session := s'\<rparr>)"
| Server_Request: "\<not> ss_panicked (wl_session l) \<Longrightarrow> ss_rc (wl_session l) = Rc_Recv \<Longrightarrow>
    wl_requests l < length (cp_sent (wl_client l)) \<Longrightarrow>
    link_step M l (l\<lparr>wl_session := (wl_session l)\<lparr>ss_rc := Rc_Forward (cp_sent (wl_client l) ! wl_requests l)\<rparr>,
      wl_requests := Suc (wl_requests l)\<rparr>)"
| Client_Own: "orderly_step (wl_client l) c' \<Longrightarrow> cp_process c' \<noteq> P_Exit \<Longrightarrow> \<nexists>ev. receives (wl_client l) ev c' \<Longrightarrow>
    link_step M l (l\<lparr>wl_client := c'\<rparr>)"
| Client_Event: "orderly_step (wl_client l) c' \<Longrightarrow> receives (wl_client l) ev c' \<Longrightarrow>
    wl_events l < length (ss_out (wl_session l)) \<Longrightarrow> ss_out (wl_session l) ! wl_events l = Some ev \<Longrightarrow>
    link_step M l (l\<lparr>wl_client := c', wl_events := Suc (wl_events l)\<rparr>)"

definition linked :: "'m \<Rightarrow> 'm watch_link" where
  "linked m = \<lparr>wl_session = open_session m, wl_client = new_client, wl_requests = 0, wl_events = 0\<rparr>"

abbreviation link_steps :: "'m watch_stream \<Rightarrow> 'm watch_link \<Rightarrow> 'm watch_link \<Rightarrow> bool" where
  "link_steps M \<equiv> (link_step M)\<^sup>*\<^sup>*"

text \<open>Each side runs as it does alone.\<close>

lemma link_sides:
  assumes "link_steps M (linked m) l"
  shows "session_steps M (open_session m) (wl_session l) \<and> orderly_steps new_client (wl_client l)"
  using assms
proof (induction rule: rtranclp_induct)
  case base
  then show ?case by (simp add: linked_def)
next
  case (step k l)
  from step(2) show ?case
  proof cases
    case (Server_Request)
    then have "session_step M (wl_session k) (wl_session l)" by (simp add: session_step_def live_step.Recv)
    then show ?thesis using step(3) Server_Request by (auto intro: rtranclp.rtrancl_into_rtrancl)
  qed (use step(3) in \<open>auto intro: rtranclp.rtrancl_into_rtrancl\<close>)
qed

section \<open>What is on its way\<close>

fun held :: "receiver_state \<Rightarrow> pb_Event list" where
  "held (R_Event ev) = [ev]"
| "held _ = []"

text \<open>The events the client has taken over or holds are the first ones the server sent.\<close>

definition carried :: "'m watch_link \<Rightarrow> bool" where
  "carried l \<longleftrightarrow> wl_events l \<le> length (ss_out (wl_session l)) \<and>
     (\<forall>xs. mset xs = cp_receivers (wl_client l) \<longrightarrow>
        map Some (cp_got (wl_client l) @ concat (map held xs)) = take (wl_events l) (ss_out (wl_session l)))"

lemma session_out: "session_step M s s' \<Longrightarrow> \<exists>es. ss_out s' = ss_out s @ es"
  unfolding session_step_def by (elim conjE live_step.cases) simp_all

lemma single_mset: "add_mset x {#} = mset xs \<longleftrightarrow> xs = [x]" "mset xs = add_mset x {#} \<longleftrightarrow> xs = [x]"
  by (metis mset_single_iff mset.simps)+

lemma carried_client:
  assumes "orderly_step c c'" and "one_receiver c" and "\<nexists>ev. receives c ev c'"
    and "\<forall>xs. mset xs = cp_receivers c \<longrightarrow> map Some (cp_got c @ concat (map held xs)) = es"
  shows "\<forall>xs. mset xs = cp_receivers c' \<longrightarrow> map Some (cp_got c' @ concat (map held xs)) = es"
proof -
  have live: "client_live c c'" using assms(1) by (simp add: orderly_step_def client_step_def)
  have one: "add_mset x xs = cp_receivers c \<Longrightarrow> xs = {#}" for x xs
    using assms(2) by (metis one_receiver_cases add_mset_eq_single add_mset_not_empty)
  from live show ?thesis
  proof cases
    case Open_Stream
    then show ?thesis using assms(2,4) by (simp add: one_receiver_def single_mset)
  next
    case (Receive xs ev)
    then show ?thesis using assms(3) by (auto simp: receives_def)
  next
    case (Receive_Fails xs)
    then show ?thesis using assms(4) one [OF Receive_Fails(2) [symmetric]] by (simp add: single_mset)
  next
    case (Receiver_RLock ev xs chs)
    then show ?thesis using assms(4) one [OF Receiver_RLock(2) [symmetric]] by (simp add: single_mset)
  next
    case (Deliver ev ch chs xs)
    then show ?thesis using assms(4) one [OF Deliver(2) [symmetric]] by (simp add: single_mset)
  next
    case (Receiver_RUnlock ev xs)
    then show ?thesis using assms(4) one [OF Receiver_RUnlock(2) [symmetric]] by (simp add: single_mset)
  next
    case (Take_Receiver xs)
    then show ?thesis using assms(4) one [OF Take_Receiver(3) [symmetric]] by (simp add: single_mset)
  qed (use assms(4) in \<open>simp_all add: take_request_def\<close>)
qed

lemma carried_step:
  assumes "link_step M k l" and "carried k" and "one_receiver (wl_client k)"
  shows "carried l"
  using assms(1)
proof cases
  case (Server_Own s')
  then show ?thesis using session_out [OF Server_Own(2)] assms(2) by (auto simp: carried_def)
next
  case Server_Request
  then show ?thesis using assms(2) by (simp add: carried_def)
next
  case (Client_Own c')
  then show ?thesis using carried_client [OF Client_Own(2) assms(3) Client_Own(4)] assms(2) by (simp add: carried_def)
next
  case (Client_Event c' ev)
  from Client_Event(3) obtain xs where xs: "cp_receivers (wl_client k) = add_mset R_Recv xs"
      "c' = (wl_client k)\<lparr>cp_receivers := add_mset (R_Event ev) xs\<rparr>" by (auto simp: receives_def)
  have "xs = {#}" using assms(3) xs(1) by (auto simp: one_receiver_def)
  then show ?thesis using Client_Event xs assms(2) by (simp add: carried_def single_mset take_Suc_conv_app_nth)
qed

lemma carried_steps:
  assumes "link_steps M (linked m) l"
  shows "carried l"
  using assms
proof (induction rule: rtranclp_induct)
  case base
  then show ?case by (simp add: carried_def linked_def new_client_def)
next
  case (step k l)
  have "one_receiver (wl_client k)" using link_sides [OF step(1)] orderly_invs by blast
  then show ?case by (rule carried_step [OF step(2,3)])
qed

lemma prefix_of_Some: "prefix (map Some xs) (map Some ys @ replicate n None) \<Longrightarrow> prefix xs ys"
proof (induction xs arbitrary: ys)
  case (Cons x xs)
  then show ?case by (cases ys; cases n) auto
qed simp

lemma client_behind_watcher:
  assumes "link_steps M (linked m) l"
  shows "prefix (cp_got (wl_client l)) (w_sent (session_watcher (wl_session l)))"
proof -
  let ?s = "wl_session l" and ?c = "wl_client l"
  have "session_inv ?s" by (rule session_inv_steps [OF conjunct1 [OF link_sides [OF assms]] session_inv_open])
  then obtain n where n: "taken ?s = map Some (w_sent (ss_watcher ?s)) @ replicate n None"
    unfolding session_inv_def by blast
  obtain xs where "mset xs = cp_receivers ?c" using ex_mset by blast
  then have "map Some (cp_got ?c @ concat (map held xs)) = take (wl_events l) (ss_out ?s)"
    using carried_steps [OF assms] by (simp add: carried_def)
  then have "prefix (map Some (cp_got ?c @ concat (map held xs))) (taken ?s)"
    by (simp add: taken_def take_is_prefix prefix_prefix)
  then have "prefix (cp_got ?c @ concat (map held xs)) (w_sent (ss_watcher ?s))"
    unfolding n by (rule prefix_of_Some)
  then show ?thesis by (auto simp: session_watcher_def intro: append_prefixD prefix_prefix)
qed

section \<open>Properties\<close>

text \<open>
  C10. A watch end to end.  Whatever the goroutines of the server's session and of the client
  do, on a stream that works: the server's side runs a watcher, the client has received a
  beginning of that watcher's events, and every registered event channel has been given, in
  order, a beginning of the watcher's events from its registration on.
\<close>

theorem watched_events_reach_channels:
  assumes "link_steps M (linked m) l" and "cp_watchers (wl_client l) i = Some ch"
  shows "watcher_reachable M m (session_watcher (wl_session l)) \<and>
    prefix (cp_got (wl_client l)) (w_sent (session_watcher (wl_session l))) \<and>
    prefix (on_channel ch (wl_client l)) (drop (cp_since (wl_client l) ch) (w_sent (session_watcher (wl_session l))))"
proof -
  have sides: "session_steps M (open_session m) (wl_session l)" "orderly_steps new_client (wl_client l)"
    using link_sides [OF assms(1)] by simp_all
  have got: "prefix (cp_got (wl_client l)) (w_sent (session_watcher (wl_session l)))"
    by (rule client_behind_watcher [OF assms(1)])
  then have "prefix (drop (cp_since (wl_client l) ch) (cp_got (wl_client l)))
      (drop (cp_since (wl_client l) ch) (w_sent (session_watcher (wl_session l))))"
    by (auto simp: prefix_def)
  then show ?thesis
    using session_watcher_reachable [OF sides(1)] got channel_in_order [OF sides(2) assms(2)] prefix_order.trans by blast
qed

text \<open>The witness: the client watches a key, the key changes, and the event is on its channel.\<close>

lemma server_runs:
  assumes "session_step M s s'" and "ss_rc s \<noteq> Rc_Recv \<or> ss_rc s' \<in> {Rc_Recv, Rc_Close}" and "link_steps M l0 (l\<lparr>wl_session := s\<rparr>)"
  shows "link_steps M l0 (l\<lparr>wl_session := s'\<rparr>)"
  using assms Server_Own [of M "l\<lparr>wl_session := s\<rparr>" s'] by (auto intro: rtranclp.rtrancl_into_rtrancl)

lemma client_runs:
  assumes "client_live c c'" and "cp_crash c = No_Crash" and "\<forall>r. cp_process c' \<noteq> P_Answer r False" and "cp_process c' \<noteq> P_Exit"
    and "\<forall>ev xs. cp_receivers c' = add_mset (R_Event ev) xs \<longrightarrow> cp_receivers c \<noteq> add_mset R_Recv xs"
    and "link_steps M l0 (l\<lparr>wl_client := c\<rparr>)"
  shows "link_steps M l0 (l\<lparr>wl_client := c'\<rparr>)"
proof -
  have "orderly_step c c'" using assms(1-3) by (simp add: orderly_step_def client_step_def)
  moreover have "\<nexists>ev. receives c ev c'" 
    unfolding receives_def using assms(5) by (metis client_proc.select_convs(3) client_proc.surjective client_proc.update_convs(3))
  ultimately show ?thesis using assms(4,6) Client_Own [of "l\<lparr>wl_client := c\<rparr>" c' M] by (auto intro: rtranclp.rtrancl_into_rtrancl)
qed

definition demo_asked :: client_proc where
  "demo_asked = new_client\<lparr>cp_newID := 1, cp_watchers := [0 \<mapsto> 0], cp_next := 1, cp_process := P_Answer demo_request True,
     cp_stream := True, cp_receivers := {#R_Recv#}, cp_rewatchers := {#Rw_Start#}, cp_asked := 1, cp_sent := [demo_request]\<rparr>"

lemma demo_asked_reached: "link_steps demo_watch (linked ()) ((linked ())\<lparr>wl_client := demo_asked\<rparr>)"
proof -
  let ?a = "new_client\<lparr>cp_calls := {#Opening 0#}\<rparr>"
  let ?b = "new_client\<lparr>cp_calls := {#Registering 0#}, cp_newID := 1\<rparr>"
  let ?c = "new_client\<lparr>cp_newID := 1, cp_watchers := [0 \<mapsto> 0], cp_next := 1\<rparr>"
  let ?d = "?c\<lparr>cp_process := P_Select, cp_stream := True, cp_receivers := {#R_Recv#}, cp_rewatchers := {#Rw_Start#}\<rparr>"
  let ?e = "?d\<lparr>cp_asking := {#demo_request#}\<rparr>"
  let ?on = "\<lambda>c. link_steps demo_watch (linked ()) ((linked ())\<lparr>wl_client := c\<rparr>)"
  have "(linked ())\<lparr>wl_client := new_client\<rparr> = linked ()" by (simp add: linked_def)
  then have 0: "?on new_client" by simp
  have "client_live new_client ?a" using client_live.New_Channel [of new_client] by (simp add: new_client_def)
  from client_runs [OF this _ _ _ _ 0] have a: "?on ?a" by (simp add: new_client_def)
  have "client_live ?a ?b" using client_live.New_ID [of ?a 0 "{#}"] by (simp add: new_client_def)
  from client_runs [OF this _ _ _ _ a] have b: "?on ?b" by (simp add: new_client_def)
  have "client_live ?b ?c" using client_live.Register [of ?b 0 "{#}"] by (simp add: new_client_def read_locked_def fun_upd_idem)
  from client_runs [OF this _ _ _ _ b] have c: "?on ?c" by (simp add: new_client_def)
  have "client_live ?c ?d" using client_live.Open_Stream [of ?c] by (simp add: new_client_def)
  from client_runs [OF this _ _ _ _ c] have d: "?on ?d" by (simp add: new_client_def)
  have "client_live ?d ?e" using client_live.Ask [of ?d demo_request] by (simp add: new_client_def)
  from client_runs [OF this _ _ _ _ d] have e: "?on ?e" by (simp add: new_client_def)
  have "client_live ?e demo_asked" using client_live.Request [of ?e demo_request "{#}" True]
    by (simp add: take_request_def new_client_def demo_asked_def)
  from client_runs [OF this _ _ _ _ e] show ?thesis by (simp add: new_client_def demo_asked_def)
qed

definition demo_sent :: "unit session" where
  "demo_sent = demo_served\<lparr>ss_bg := Bg_Emit [], ss_out := [Some (convert_event demo_change)],
     ss_watcher := (ss_watcher demo_served)\<lparr>w_sent := [convert_event demo_change]\<rparr>\<rparr>"

lemma demo_sent_reached:
  "link_steps demo_watch (linked ()) \<lparr>wl_session = demo_sent, wl_client = demo_asked, wl_requests = 1, wl_events = 0\<rparr>"
proof -
  let ?l = "\<lparr>wl_session = open_session (), wl_client = demo_asked, wl_requests = 1, wl_events = 0\<rparr>"
  let ?on = "\<lambda>s. link_steps demo_watch (linked ()) (?l\<lparr>wl_session := s\<rparr>)"
  let ?s1 = "(open_session ())\<lparr>ss_rc := Rc_Forward demo_request\<rparr>"
  let ?s2 = "?s1\<lparr>ss_rc := Rc_Await, ss_bg := Bg_Answer, ss_watcher := handle_request demo_watch demo_request (ss_watcher ?s1)\<rparr>"
  let ?ev = "convert_event demo_change"
  let ?s4 = "demo_served\<lparr>ss_bg := Bg_Emit [?ev]\<rparr>"
  let ?s5 = "?s4\<lparr>ss_bg := Bg_Emit [], ss_sd := Sd_Send (Some ?ev), ss_watcher := (ss_watcher ?s4)\<lparr>w_sent := w_sent (ss_watcher ?s4) @ [?ev]\<rparr>\<rparr>"
  have "link_step demo_watch ((linked ())\<lparr>wl_client := demo_asked\<rparr>) (?l\<lparr>wl_session := ?s1\<rparr>)"
    using Server_Request [of "(linked ())\<lparr>wl_client := demo_asked\<rparr>" demo_watch]
    by (simp add: linked_def open_session_def demo_asked_def)
  with demo_asked_reached have 1: "?on ?s1" by (rule rtranclp.rtrancl_into_rtrancl)
  have "session_step demo_watch ?s1 ?s2" unfolding session_step_def
    by (intro conjI live_step.Forward) (simp_all add: open_session_def)
  from server_runs [OF this _ 1] have 2: "?on ?s2" by simp
  have "session_step demo_watch ?s2 (?s2\<lparr>ss_rc := Rc_Recv, ss_bg := Bg_Select\<rparr>)" unfolding session_step_def
    by (intro conjI live_step.Answered) (simp_all add: open_session_def)
  from server_runs [OF this _ 2] have 3: "?on demo_served" by (simp add: demo_served_def open_session_def)
  have "session_step demo_watch demo_served ?s4" unfolding session_step_def
    by (intro conjI live_step.Batch [OF _ demo_batch]) (simp_all add: demo_served_def open_session_def)
  from server_runs [OF this _ 3] have 4: "?on ?s4" by (simp add: demo_served_def open_session_def)
  have "session_step demo_watch ?s4 ?s5" unfolding session_step_def
    by (intro conjI live_step.Emit) (simp_all add: demo_served_def open_session_def)
  from server_runs [OF this _ 4] have 5: "?on ?s5" by (simp add: demo_served_def open_session_def)
  have "session_step demo_watch ?s5 (?s5\<lparr>ss_sd := Sd_Take, ss_out := ss_out ?s5 @ [Some ?ev]\<rparr>)" unfolding session_step_def
    by (intro conjI live_step.Send) (simp_all add: demo_served_def open_session_def)
  from server_runs [OF this _ 5] show ?thesis
    by (simp add: demo_sent_def demo_served_def open_session_def handle_request_sent new_watcher_def)
qed

theorem watched_events_reach_channels_witness:
  "\<exists>l. link_steps demo_watch (linked ()) l \<and> cp_watchers (wl_client l) 0 = Some 0 \<and>
    cp_buffer (wl_client l) 0 = [convert_event demo_change] \<and>
    prefix (on_channel 0 (wl_client l)) (drop (cp_since (wl_client l) 0) (w_sent (session_watcher (wl_session l))))"
proof -
  let ?ev = "convert_event demo_change"
  let ?k = "\<lparr>wl_session = demo_sent, wl_client = demo_asked, wl_requests = 1, wl_events = 0\<rparr>"
  let ?a = "demo_asked\<lparr>cp_receivers := {#R_Event ?ev#}\<rparr>"
  let ?b = "?a\<lparr>cp_receivers := {#R_Deliver ?ev [0]#}, cp_got := [?ev]\<rparr>"
  let ?c = "?b\<lparr>cp_receivers := {#R_Deliver ?ev []#}, cp_buffer := (\<lambda>_. [])(0 := [?ev])\<rparr>"
  let ?l = "\<lparr>wl_session = demo_sent, wl_client = ?a, wl_requests = 1, wl_events = 1\<rparr>"
  have "client_live demo_asked ?a" using client_live.Receive [of demo_asked "{#}" ?ev] by (simp add: demo_asked_def)
  then have "orderly_step demo_asked ?a" by (simp add: orderly_step_def client_step_def demo_asked_def new_client_def)
  then have "link_step demo_watch ?k ?l"
    using Client_Event [of ?k ?a ?ev demo_watch] by (simp add: receives_def demo_sent_def demo_asked_def)
  with demo_sent_reached have l: "link_steps demo_watch (linked ()) (?l\<lparr>wl_client := ?a\<rparr>)"
    by (simp add: rtranclp.rtrancl_into_rtrancl)
  have "client_live ?a ?b" using client_live.Receiver_RLock [of ?a ?ev "{#}" "[0]"] by (simp add: demo_asked_def new_client_def)
  from client_runs [OF this _ _ _ _ l] have b: "link_steps demo_watch (linked ()) (?l\<lparr>wl_client := ?b\<rparr>)"
    by (simp add: demo_asked_def new_client_def)
  have "client_live ?b ?c" using client_live.Deliver [of ?b ?ev 0 "[]" "{#}"]
    by (simp add: demo_asked_def new_client_def channel_capacity_def)
  from client_runs [OF this _ _ _ _ b] have c: "link_steps demo_watch (linked ()) (?l\<lparr>wl_client := ?c\<rparr>)"
    by (simp add: demo_asked_def new_client_def)
  from watched_events_reach_channels [OF c, of 0 0] c show ?thesis
    by (intro exI [where x = "?l\<lparr>wl_client := ?c\<rparr>"]) (simp add: demo_asked_def new_client_def)
qed

end
