(* ===== verification/Updates.thy ===== *)
theory Updates
  imports Server_Hashes Server_Ints Server_Floats
begin

text \<open>
  The read-modify-write operations of the server in one form: lock the key, read it, decide
  what to do from what was read, and either write and release, release, leave the lock
  behind, or panic.  Every operation of \<open>mydis/type_int.go\<close>, \<open>mydis/type_float.go\<close>,
  \<open>mydis/type_list.go\<close> and \<open>mydis/type_hash.go\<close> that changes what a key holds is such an
  update of its decision, a function without effects.
\<close>

section \<open>Updates\<close>

datatype 'x decision =
    Commit bytes 'x
  | Give_up "go_error + 'x"
  | Leave_locked "go_error + 'x"
  | Crash

definition finish :: "go_error + 'x \<Rightarrow> ('s, 'x) handler" where
  "finish r = (case r of Inl e \<Rightarrow> throw e | Inr x \<Rightarrow> ret x)"

definition conclude :: "'s etcd \<Rightarrow> go_context \<Rightarrow> pb_Key \<Rightarrow> 'x decision \<Rightarrow> ('s, 'x) handler" where
  "conclude E ctx k d = (case d of
     Commit b x \<Rightarrow> and_then (UnlockThenSet E \<lparr>ByteValue_Key = Key_Key k, ByteValue_Value = b\<rparr>) (\<lambda>_. ret x)
   | Give_up r \<Rightarrow> and_then (discard (Unlock E ctx k)) (\<lambda>_. finish r)
   | Leave_locked r \<Rightarrow> finish r
   | Crash \<Rightarrow> panic)"

type_synonym 'x choice = "go_error + pb_ByteValue \<Rightarrow> 'x decision"

definition update :: "'s etcd \<Rightarrow> go_context \<Rightarrow> pb_Key \<Rightarrow> 'x choice \<Rightarrow> ('s, 'x) handler" where
  "update E ctx k decide =
     and_then (Lock E ctx k) (\<lambda>_. and_then (attempt (Get E k)) (\<lambda>r. conclude E ctx k (decide r)))"

text \<open>Computations as a monad: the laws that bring the handlers into this form.\<close>

lemma ret_and_then [simp]: "and_then (ret x) f = f x"
  by (simp add: fun_eq_iff and_then_def ret_def)

lemma throw_and_then [simp]: "and_then (throw e) f = throw e"
  by (simp add: fun_eq_iff and_then_def throw_def)

lemma panic_and_then [simp]: "and_then panic f = panic"
  by (simp add: fun_eq_iff and_then_def panic_def)

lemma and_then_ret [simp]: "and_then m ret = m"
  by (auto simp: fun_eq_iff and_then_def ret_def split: prod.split outcome.split)

lemma and_then_unit [simp]: "and_then m (\<lambda>_. ret ()) = (m :: ('w, 'e, unit) comp)"
  using and_then_ret [of m] by (simp add: fun_eq_iff and_then_def)

lemma and_then_assoc: "and_then (and_then m f) g = and_then m (\<lambda>x. and_then (f x) g)"
  by (auto simp: fun_eq_iff and_then_def split: prod.split outcome.split)

lemma attempt_ret [simp]: "attempt (ret x) = ret (Inr x)"
  by (simp add: fun_eq_iff attempt_def ret_def)

lemma attempt_throw [simp]: "attempt (throw e) = ret (Inl e)"
  by (simp add: fun_eq_iff attempt_def ret_def throw_def)

lemma finish_simps [simp]: "finish (Inl e) = throw e" "finish (Inr x) = ret x"
  by (simp_all add: finish_def)

text \<open>A typed read is the read, decoded.\<close>

definition typed :: "('g \<Rightarrow> 'e + 'x) \<Rightarrow> 'e + 'g \<Rightarrow> 'e + 'x" where
  "typed decode r = (case r of Inl e \<Rightarrow> Inl e | Inr x \<Rightarrow> decode x)"

lemma typed_simps [simp]: "typed d (Inl e) = Inl e" "typed d (Inr x) = d x"
  by (simp_all add: typed_def)

lemma attempt_decoded:
  "attempt (and_then m (\<lambda>x. case d x of Inl e \<Rightarrow> throw e | Inr y \<Rightarrow> ret y)) =
     and_then (attempt m) (\<lambda>r. ret (typed d r))"
  by (auto simp: fun_eq_iff and_then_def attempt_def ret_def throw_def typed_def split: prod.split outcome.split sum.split)

lemma attempt_GetInt: "attempt (GetInt E C k) = and_then (attempt (Get E k)) (\<lambda>r. ret (typed (decode_int C) r))"
  unfolding GetInt_def decode_int_def [symmetric] by (rule attempt_decoded)

lemma attempt_GetFloat: "attempt (GetFloat E C k) = and_then (attempt (Get E k)) (\<lambda>r. ret (typed (decode_float C) r))"
  unfolding GetFloat_def decode_float_def [symmetric] by (rule attempt_decoded)

lemma attempt_GetList: "attempt (GetList E C k) = and_then (attempt (Get E k)) (\<lambda>r. ret (typed (decode_list C) r))"
  unfolding GetList_def decode_list_def [symmetric] by (rule attempt_decoded)

lemma attempt_GetHash: "attempt (GetHash E C k) = and_then (attempt (Get E k)) (\<lambda>r. ret (typed (decode_hash C) r))"
  unfolding GetHash_def decode_hash_def [symmetric] by (rule attempt_decoded)

lemmas attempt_typed = attempt_GetInt attempt_GetFloat attempt_GetList attempt_GetHash

text \<open>An operation that locks, reads and concludes as its decision says is the update of it.\<close>

lemma updateI:
  assumes "read = and_then (attempt (Get E k)) (\<lambda>r. ret (typed d r))"
    and "\<And>r. body (typed d r) = conclude E ctx k (decide r)"
  shows "and_then (Lock E ctx k) (\<lambda>_. and_then read body) = update E ctx k decide"
  by (simp add: update_def assms and_then_assoc)

lemma conclude_simps [simp]:
  "conclude E ctx k (Commit b x) = and_then (UnlockThenSet E \<lparr>ByteValue_Key = Key_Key k, ByteValue_Value = b\<rparr>) (\<lambda>_. ret x)"
  "conclude E ctx k (Give_up (Inl e)) = unlock_fail E ctx k e"
  "conclude E ctx k (Give_up (Inr x)) = and_then (discard (Unlock E ctx k)) (\<lambda>_. ret x)"
  "conclude E ctx k (Leave_locked r) = finish r"
  "conclude E ctx k Crash = panic"
  by (simp_all add: conclude_def unlock_fail_def)

section \<open>Numbers\<close>

definition increment_int :: "codec \<Rightarrow> int64 \<Rightarrow> pb_IntValue choice" where
  "increment_int C amount r =
     (case if_missing \<lparr>IntValue_Key = [], IntValue_Value = 0\<rparr> (typed (decode_int C) r) of
        Inl err \<Rightarrow> Give_up (Inl err)
      | Inr old \<Rightarrow> (let new = \<lparr>IntValue_Key = [], IntValue_Value = IntValue_Value old + amount\<rparr> in
          case MarshalInt C new of Inl msg \<Rightarrow> Give_up (Inl (Other msg)) | Inr b \<Rightarrow> Commit b new))"

lemma IncrementInt_update:
  "IncrementInt E C ctx iv = update E ctx (newKey (IntValue_Key iv)) (increment_int C (IntValue_Value iv))"
  unfolding IncrementInt_def Let_def
  by (rule updateI [OF attempt_GetInt]) (simp add: increment_int_def Let_def split: sum.split)

definition increment_float :: "codec \<Rightarrow> float64 \<Rightarrow> pb_FloatValue choice" where
  "increment_float C amount r =
     (case if_missing \<lparr>FloatValue_Key = [], FloatValue_Value = 0\<rparr> (typed (decode_float C) r) of
        Inl err \<Rightarrow> Give_up (Inl err)
      | Inr old \<Rightarrow> (let new = \<lparr>FloatValue_Key = [], FloatValue_Value = float_add (FloatValue_Value old) amount\<rparr> in
          case MarshalFloat C new of Inl msg \<Rightarrow> Give_up (Inl (Other msg)) | Inr b \<Rightarrow> Commit b new))"

lemma IncrementFloat_update:
  "IncrementFloat E C ctx fv = update E ctx (newKey (FloatValue_Key fv)) (increment_float C (FloatValue_Value fv))"
  unfolding IncrementFloat_def Let_def
  by (rule updateI [OF attempt_GetFloat]) (simp add: increment_float_def Let_def split: sum.split)

lemmas number_updates = IncrementInt_update IncrementFloat_update

section \<open>Lists\<close>

text \<open>A step that may panic, and the list written back; an encoding error leaves the lock.\<close>

definition or_crash :: "'a option \<Rightarrow> ('a \<Rightarrow> 'x decision) \<Rightarrow> 'x decision" where
  "or_crash x f = (case x of None \<Rightarrow> Crash | Some y \<Rightarrow> f y)"

definition write_list :: "codec \<Rightarrow> pb_List \<Rightarrow> 'x \<Rightarrow> 'x decision" where
  "write_list C lst x = (case MarshalList C (lst\<lparr>List_Key := []\<rparr>) of
     Inl msg \<Rightarrow> Leave_locked (Inl (Other msg)) | Inr b \<Rightarrow> Commit b x)"

lemma conclude_or_crash [simp]: "conclude E ctx k (or_crash x f) = or_panic x (\<lambda>y. conclude E ctx k (f y))"
  by (simp add: or_crash_def or_panic_def split: option.split)

lemma conclude_write_list [simp]:
  "conclude E ctx k (write_list C lst x) =
     and_then (UnlockThenSetList E C (lst\<lparr>List_Key := Key_Key k\<rparr>)) (\<lambda>_. ret x)"
  by (simp add: write_list_def UnlockThenSetList_def split: sum.split)

text \<open>The key first in a sequence of record updates.\<close>

lemma key_first [simp]:
  "(lst :: pb_List)\<lparr>List_Value := vs, List_Key := k\<rparr> = lst\<lparr>List_Key := k, List_Value := vs\<rparr>"
  "(h :: pb_Hash)\<lparr>Hash_Value := v, Hash_Key := k\<rparr> = h\<lparr>Hash_Key := k, Hash_Value := v\<rparr>"
  by simp_all

lemma enforceListLimit_key:
  "enforceListLimit (lst\<lparr>List_Key := k, List_Value := vs\<rparr>) =
     map_option (\<lambda>l. l\<lparr>List_Key := k\<rparr>) (enforceListLimit (lst\<lparr>List_Value := vs\<rparr>))"
  by (simp add: enforceListLimit_def Let_def split: option.split)

lemma or_panic_map [simp]: "or_panic (map_option f x) g = or_panic x (\<lambda>y. g (f y))"
  by (cases x) simp_all

definition clip_index :: "int64 \<Rightarrow> int64" where
  "clip_index i = (if sint i < 0 then 0 else i)"

definition list_insert :: "codec \<Rightarrow> int64 \<Rightarrow> bytes \<Rightarrow> unit choice" where
  "list_insert C i v r = (case if_missing (newList []) (typed (decode_list C) r) of
     Inl err \<Rightarrow> Give_up (Inl err)
   | Inr lst \<Rightarrow> or_crash (insert_item (clip_index i) v (List_Value lst)) (\<lambda>vs.
       or_crash (enforceListLimit (lst\<lparr>List_Value := vs\<rparr>)) (\<lambda>lst. write_list C lst ())))"

definition list_append :: "codec \<Rightarrow> bytes \<Rightarrow> unit choice" where
  "list_append C v r = (case if_missing (newList []) (typed (decode_list C) r) of
     Inl err \<Rightarrow> Give_up (Inl err)
   | Inr lst \<Rightarrow> or_crash (enforceListLimit (lst\<lparr>List_Value := List_Value lst @ [v]\<rparr>)) (\<lambda>lst. write_list C lst ()))"

definition list_limit :: "codec \<Rightarrow> int64 \<Rightarrow> unit choice" where
  "list_limit C i r = (case typed (decode_list C) r of
     Inl err \<Rightarrow> Give_up (Inl err)
   | Inr lst \<Rightarrow> write_list C (lst\<lparr>List_Limit := clip_index i\<rparr>) ())"

definition list_set :: "codec \<Rightarrow> int64 \<Rightarrow> bytes \<Rightarrow> unit choice" where
  "list_set C i v r = (case typed (decode_list C) r of
     Inl err \<Rightarrow> Give_up (Inl err)
   | Inr lst \<Rightarrow> (let len = len64 (List_Value lst) in
       if len = 0 then Give_up (Inl ErrListEmpty)
       else if sint len < sint (i - 1) then Give_up (Inl ErrListIndexOutOfRange)
       else if sint i < 0 \<and> sint len < sint (i * - 1 - 1) then Give_up (Inl ErrListIndexOutOfRange)
       else or_crash (if 0 \<le> sint i then slice_set (List_Value lst) i v else slice_set (List_Value lst) (len + i) v)
         (\<lambda>vs. write_list C (lst\<lparr>List_Value := vs\<rparr>) ())))"

definition list_delete :: "codec \<Rightarrow> int64 \<Rightarrow> unit choice" where
  "list_delete C i r = (case typed (decode_list C) r of
     Inl err \<Rightarrow> Give_up (Inl err)
   | Inr lst \<Rightarrow> (let len = len64 (List_Value lst) in
       if len = 0 then Give_up (Inl ErrListEmpty)
       else if sint i < 0 then Give_up (Inl ErrListIndexOutOfRange)
       else if sint len < sint (i - 1) then Give_up (Inl ErrListIndexOutOfRange)
       else or_crash (delete_item i (List_Value lst)) (\<lambda>vs. write_list C (lst\<lparr>List_Value := vs\<rparr>) ())))"

definition list_delete_item :: "codec \<Rightarrow> bytes \<Rightarrow> pb_IntValue choice" where
  "list_delete_item C v r = (let none = \<lparr>IntValue_Key = [], IntValue_Value = - 1\<rparr> in
     case typed (decode_list C) r of
       Inl err \<Rightarrow> Give_up (if err = ErrKeyNotFound then Inr none else Inl err)
     | Inr lst \<Rightarrow> (let found = find_index v 0 (List_Value lst) in
         if found = - 1 then Leave_locked (Inr none)
         else or_crash (delete_item found (List_Value lst)) (\<lambda>vs.
           write_list C (lst\<lparr>List_Value := vs\<rparr>) \<lparr>IntValue_Key = [], IntValue_Value = found\<rparr>)))"

definition list_pop :: "codec \<Rightarrow> (bytes list \<Rightarrow> (bytes \<times> bytes list) option) \<Rightarrow> pb_ByteValue choice" where
  "list_pop C pop r = (case typed (decode_list C) r of
     Inl err \<Rightarrow> Give_up (Inl (if err = ErrKeyNotFound then ErrListEmpty else err))
   | Inr lst \<Rightarrow> if List_Value lst = [] then Give_up (Inl ErrListEmpty)
       else or_crash (pop (List_Value lst)) (\<lambda>(b, rest). write_list C (lst\<lparr>List_Value := rest\<rparr>) (newByteValue b)))"

lemma ListInsert_update:
  "ListInsert E C ctx li = update E ctx (newKey (ListItem_Key li)) (list_insert C (ListItem_Index li) (ListItem_Value li))"
  unfolding ListInsert_def Let_def clip_index_def [symmetric]
  by (rule updateI [OF attempt_GetList])
    (simp add: list_insert_def enforceListLimit_key split: sum.split)

lemma ListAppend_update:
  "ListAppend E C ctx li = update E ctx (newKey (ListItem_Key li)) (list_append C (ListItem_Value li))"
  unfolding ListAppend_def Let_def
  by (rule updateI [OF attempt_GetList])
    (simp add: list_append_def enforceListLimit_key split: sum.split)

lemma ListLimit_update:
  "ListLimit E C ctx li = update E ctx (newKey (ListItem_Key li)) (list_limit C (ListItem_Index li))"
  unfolding ListLimit_def Let_def clip_index_def [symmetric]
  by (rule updateI [OF attempt_GetList]) (simp add: list_limit_def split: sum.split)

lemma SetListItem_update:
  "SetListItem E C ctx li = update E ctx (newKey (ListItem_Key li)) (list_set C (ListItem_Index li) (ListItem_Value li))"
  unfolding SetListItem_def Let_def
  by (rule updateI [OF attempt_GetList]) (simp add: list_set_def Let_def split: sum.split)

lemma ListDelete_update:
  "ListDelete E C ctx li = update E ctx (newKey (ListItem_Key li)) (list_delete C (ListItem_Index li))"
  unfolding ListDelete_def Let_def
  by (rule updateI [OF attempt_GetList]) (simp add: list_delete_def Let_def split: sum.split)

lemma ListDeleteItem_update:
  "ListDeleteItem E C ctx li = update E ctx (newKey (ListItem_Key li)) (list_delete_item C (ListItem_Value li))"
  unfolding ListDeleteItem_def Let_def
  by (rule updateI [OF attempt_GetList])
    (simp add: list_delete_item_def Let_def unlock_fail_def split: sum.split)

lemmas list_updates = ListInsert_update ListAppend_update ListLimit_update SetListItem_update
  ListDelete_update ListDeleteItem_update

text \<open>A pop that does not wait.\<close>

lemma pop_update:
  assumes "\<not> Key_Block k"
  shows "pop_blocking E C ctx pop k = update E ctx k (list_pop C pop)"
proof -
  have k: "k\<lparr>Key_Block := False\<rparr> = k" using assms by (cases k) simp
  show ?thesis
    unfolding pop_blocking_def pop_with_def Let_def k
    by (rule updateI [OF attempt_GetList])
      (use assms in \<open>simp add: list_pop_def split_beta' split: sum.split\<close>)
qed

section \<open>Hashes\<close>

definition write_hash :: "codec \<Rightarrow> pb_Hash \<Rightarrow> unit decision" where
  "write_hash C h = (case MarshalHash C (h\<lparr>Hash_Key := []\<rparr>) of
     Inl msg \<Rightarrow> Leave_locked (Inl (Other msg)) | Inr b \<Rightarrow> Commit b ())"

lemma conclude_write_hash [simp]:
  "conclude E ctx k (write_hash C h) = UnlockThenSetHash E C (h\<lparr>Hash_Key := Key_Key k\<rparr>)"
  by (simp add: write_hash_def UnlockThenSetHash_def split: sum.split)

definition hash_set :: "codec \<Rightarrow> (string \<times> bytes) list \<Rightarrow> unit choice" where
  "hash_set C fs r = (case if_missing (newHash (Some [])) (typed (decode_hash C) r) of
     Inl err \<Rightarrow> Give_up (Inl err)
   | Inr h \<Rightarrow> or_crash (put_all map_put fs (Hash_Value h)) (\<lambda>v. write_hash C (h\<lparr>Hash_Value := v\<rparr>)))"

definition hash_delete :: "codec \<Rightarrow> string \<Rightarrow> unit choice" where
  "hash_delete C field r = (case typed (decode_hash C) r of
     Inl err \<Rightarrow> Give_up (Inl err)
   | Inr h \<Rightarrow> write_hash C (h\<lparr>Hash_Value := map_delete field (Hash_Value h)\<rparr>))"

lemma SetHashField_update:
  "SetHashField E C ctx hf = update E ctx (newKey (HashField_Key hf)) (hash_set C [(HashField_Field hf, HashField_Value hf)])"
  unfolding SetHashField_def Let_def
  by (rule updateI [OF attempt_GetHash]) (simp add: hash_set_def or_panic_def split: sum.split option.split)

lemma SetHashFields_update:
  "SetHashFields E C ctx ah = update E ctx (newKey (Hash_Key ah)) (hash_set C (map_entries (Hash_Value ah)))"
  unfolding SetHashFields_def Let_def
  by (rule updateI [OF attempt_GetHash]) (simp add: hash_set_def split: sum.split)

lemma DelHashField_update:
  "DelHashField E C ctx hf = update E ctx (newKey (HashField_Key hf)) (hash_delete C (HashField_Field hf))"
  unfolding DelHashField_def Let_def
  by (rule updateI [OF attempt_GetHash]) (simp add: hash_delete_def split: sum.split)

lemmas hash_updates = SetHashField_update SetHashFields_update DelHashField_update

section \<open>All of them\<close>

text \<open>
  C3. Every operation that changes a number, a list or a hash in place is one update of its
  key: lock the key, read it once, and then, as a function without effects of what was read
  says, write the new value and release the lock at once, only release, or leave the lock.
  Between taking the lock and deciding nothing but that one key is read, and nothing is
  written before the decision.  (For the pops: the calls that do not wait.)
\<close>

theorem handlers_are_updates:
  fixes E :: "'s etcd" and C :: codec and ctx :: go_context
  shows "IncrementInt E C ctx iv = update E ctx (newKey (IntValue_Key iv)) (increment_int C (IntValue_Value iv)) \<and>
    IncrementFloat E C ctx fv = update E ctx (newKey (FloatValue_Key fv)) (increment_float C (FloatValue_Value fv)) \<and>
    ListInsert E C ctx li = update E ctx (newKey (ListItem_Key li)) (list_insert C (ListItem_Index li) (ListItem_Value li)) \<and>
    ListAppend E C ctx li = update E ctx (newKey (ListItem_Key li)) (list_append C (ListItem_Value li)) \<and>
    ListLimit E C ctx li = update E ctx (newKey (ListItem_Key li)) (list_limit C (ListItem_Index li)) \<and>
    SetListItem E C ctx li = update E ctx (newKey (ListItem_Key li)) (list_set C (ListItem_Index li) (ListItem_Value li)) \<and>
    ListDelete E C ctx li = update E ctx (newKey (ListItem_Key li)) (list_delete C (ListItem_Index li)) \<and>
    ListDeleteItem E C ctx li = update E ctx (newKey (ListItem_Key li)) (list_delete_item C (ListItem_Value li)) \<and>
    ListPopLeft E C ctx (newKey k) = update E ctx (newKey k) (list_pop C pop_left) \<and>
    ListPopRight E C ctx (newKey k) = update E ctx (newKey k) (list_pop C pop_right) \<and>
    SetHashField E C ctx hf = update E ctx (newKey (HashField_Key hf)) (hash_set C [(HashField_Field hf, HashField_Value hf)]) \<and>
    SetHashFields E C ctx ah = update E ctx (newKey (Hash_Key ah)) (hash_set C (map_entries (Hash_Value ah))) \<and>
    DelHashField E C ctx hf = update E ctx (newKey (HashField_Key hf)) (hash_delete C (HashField_Field hf))"
  using pop_update [of "newKey k" E C ctx pop_left] pop_update [of "newKey k" E C ctx pop_right]
  by (simp add: number_updates list_updates hash_updates ListPopLeft_def ListPopRight_def newKey_def)

end
