(* ===== verification/Update_Steps.thy ===== *)
theory Update_Steps
  imports Updates Lock_Protocol Returns
begin

text \<open>
  What an update does to the key space, one etcd call at a time, while others use it too: it
  is refused or takes the lock, reads, and concludes.  A call of etcd can fail, and then its
  effect may or may not have happened.  The handler takes exactly these steps.
\<close>

section \<open>The steps\<close>

text \<open>
  The requests on one key: an update of it, a value put or erased under its lock, or a look
  at it that takes no lock, which may panic (\<open>None\<close>).  \<open>'x\<close> is the type of the answers.
\<close>

datatype 'x request =
    Update "'x choice"
  | Put bytes 'x
  | Erase 'x
  | Look "go_error + pb_ByteValue \<Rightarrow> (go_error + 'x) option"

text \<open>
  \<open>Settled\<close> and \<open>over\<close> carry whether the read was answered; \<open>Failed\<close> is a request in which
  a call of etcd failed, so that its answer says nothing about its effect.
\<close>

datatype 'x progress =
    Wanting
  | Holding
  | Settled bool "'x decision"
  | Refused
  | Failed "(go_error, 'x) outcome"
  | Replied "(go_error, 'x) outcome"

fun reply :: "'x progress \<Rightarrow> (go_error, 'x) outcome option" where
  "reply Refused = Some (Err ErrKeyLocked)"
| "reply (Failed out) = Some out"
| "reply (Replied out) = Some out"
| "reply _ = None"

definition over :: "bool \<Rightarrow> (go_error, 'x) outcome \<Rightarrow> 'x progress" where
  "over answered out = (if answered then Replied out else Failed out)"

definition outcome_of :: "go_error + 'x \<Rightarrow> (go_error, 'x) outcome" where
  "outcome_of r = (case r of Inl e \<Rightarrow> Err e | Inr x \<Rightarrow> Ok x)"

definition look_outcome :: "(go_error + 'x) option \<Rightarrow> (go_error, 'x) outcome" where
  "look_outcome r = (case r of None \<Rightarrow> Panic | Some r \<Rightarrow> outcome_of r)"

lemma look_outcome_simps [simp]: "look_outcome (Some r) = outcome_of r" "look_outcome None = Panic"
  by (simp_all add: look_outcome_def)

definition value_read :: "bytes option \<Rightarrow> go_error + pb_ByteValue" where
  "value_read v = (case v of None \<Rightarrow> Inl ErrKeyNotFound | Some b \<Rightarrow> Inr (newByteValue b))"

abbreviation unlock_txn :: "string \<Rightarrow> TxnRequest" where
  "unlock_txn key \<equiv> delete_txn (BytesToString (getLockName key))"

text \<open>The requests that are one transaction.\<close>

fun guarded :: "string \<Rightarrow> 'x request \<Rightarrow> (TxnRequest \<times> 'x) option" where
  "guarded key (Put b x) = Some (set_txn key b, x)"
| "guarded key (Erase x) = Some (delete_txn key, x)"
| "guarded key _ = None"

inductive own_step :: "string \<Rightarrow> 'x request \<Rightarrow> (bytes \<rightharpoonup> bytes) \<Rightarrow> 'x progress \<Rightarrow> (bytes \<rightharpoonup> bytes) \<Rightarrow> 'x progress \<Rightarrow> bool"
  for key req
where
  lock_refused: "req = Update decide \<Longrightarrow> compares m (lock_txn key) \<Longrightarrow> own_step key req m Wanting m Refused"
| lock_taken: "req = Update decide \<Longrightarrow> \<not> compares m (lock_txn key) \<Longrightarrow>
    own_step key req m Wanting (run_txn (lock_txn key) m) Holding"
| lock_failed: "req = Update decide \<Longrightarrow> m' \<in> {m, run_txn (lock_txn key) m} \<Longrightarrow>
    own_step key req m Wanting m' (Failed (Err (Other msg)))"
| read: "req = Update decide \<Longrightarrow>
    own_step key req m Holding m (Settled True (decide (value_read (m (StringToBytes key)))))"
| read_failed: "req = Update decide \<Longrightarrow> own_step key req m Holding m (Settled False (decide (Inl (Other msg))))"
| written: "own_step key req m (Settled ok (Commit b x)) (run_txn (unlock_set_txn key b) m) (over ok (Ok x))"
| write_failed: "m' \<in> {m, run_txn (unlock_set_txn key b) m} \<Longrightarrow>
    own_step key req m (Settled ok (Commit b x)) m' (Failed (Err (Other msg)))"
| release: "m' \<in> {m, run_txn (unlock_txn key) m} \<Longrightarrow>
    own_step key req m (Settled ok (Give_up r)) m' (over ok (outcome_of r))"
| leave: "own_step key req m (Settled ok (Leave_locked r)) m (over ok (outcome_of r))"
| crash: "own_step key req m (Settled ok Crash) m (over ok Panic)"
| txn_refused: "guarded key req = Some (t, x) \<Longrightarrow> compares m t \<Longrightarrow> own_step key req m Wanting m Refused"
| txn_run: "guarded key req = Some (t, x) \<Longrightarrow> \<not> compares m t \<Longrightarrow>
    own_step key req m Wanting (run_txn t m) (Replied (Ok x))"
| txn_failed: "guarded key req = Some (t, x) \<Longrightarrow> m' \<in> {m, run_txn t m} \<Longrightarrow>
    own_step key req m Wanting m' (Failed (Err (Other msg)))"
| looked: "req = Look f \<Longrightarrow>
    own_step key req m Wanting m (Replied (look_outcome (f (value_read (m (StringToBytes key))))))"
| look_failed: "req = Look f \<Longrightarrow> own_step key req m Wanting m (Failed (look_outcome (f (Inl (Other msg)))))"

text \<open>One request among others: \<open>R\<close> is what the others do to the key space.\<close>

definition among :: "string \<Rightarrow> 'x request \<Rightarrow> ((bytes \<rightharpoonup> bytes) \<Rightarrow> (bytes \<rightharpoonup> bytes) \<Rightarrow> bool) \<Rightarrow>
    (bytes \<rightharpoonup> bytes) \<times> 'x progress \<Rightarrow> (bytes \<rightharpoonup> bytes) \<times> 'x progress \<Rightarrow> bool" where
  "among key req R = (\<lambda>(m, p) (m', p'). own_step key req m p m' p' \<or> R m m' \<and> p' = p)"

lemma among_own: "own_step key req m p m' p' \<Longrightarrow> among key req R (m, p) (m', p')"
  and among_others: "R m m' \<Longrightarrow> among key req R (m, p) (m', p)"
  by (simp_all add: among_def)

section \<open>The calls of the handler\<close>

definition others_do :: "'s etcd \<Rightarrow> ('s \<Rightarrow> (bytes \<rightharpoonup> bytes)) \<Rightarrow> ((bytes \<rightharpoonup> bytes) \<Rightarrow> (bytes \<rightharpoonup> bytes) \<Rightarrow> bool) \<Rightarrow> bool" where
  "others_do E kv R \<longleftrightarrow> (\<forall>n s. R (kv s) (kv (others E n s)))"

text \<open>From \<open>c0\<close> the steps lead to the progress \<open>p\<close> in the present world.\<close>

definition reached :: "'s etcd \<Rightarrow> ('s \<Rightarrow> (bytes \<rightharpoonup> bytes)) \<Rightarrow> string \<Rightarrow> 'x request \<Rightarrow> ((bytes \<rightharpoonup> bytes) \<Rightarrow> (bytes \<rightharpoonup> bytes) \<Rightarrow> bool) \<Rightarrow>
    (bytes \<rightharpoonup> bytes) \<times> 'x progress \<Rightarrow> 'x progress \<Rightarrow> 's world \<Rightarrow> bool" where
  "reached E kv key req R c0 p w \<longleftrightarrow>
     etcd_kv E kv \<and> others_do E kv R \<and> rtranclp (among key req R) c0 (kv (cache w), p)"

lemma reached_others:
  assumes "reached E kv key req R c0 p w"
  shows "reached E kv key req R c0 p (schedule E w)" "reached E kv key req R c0 p (Sleep E n w)"
proof -
  have "R (kv (cache w)) (kv (others E (ticks w) (cache w)))"
    using assms by (simp add: reached_def others_do_def)
  then have "among key req R (kv (cache w), p) (kv (others E (ticks w) (cache w)), p)" by (rule among_others)
  then show "reached E kv key req R c0 p (schedule E w)" "reached E kv key req R c0 p (Sleep E n w)"
    using assms by (auto simp: reached_def intro: rtranclp.rtrancl_into_rtrancl)
qed

lemma reached_own:
  "reached E kv key req R c0 p w \<Longrightarrow> own_step key req (kv (cache w)) p (kv (cache w')) p' \<Longrightarrow>
     reached E kv key req R c0 p' w'"
  unfolding reached_def by (blast intro: rtranclp.rtrancl_into_rtrancl among_own)

text \<open>What a call of a transaction does: it answers and has its effect, or fails.\<close>

definition txn_done :: "('s \<Rightarrow> (bytes \<rightharpoonup> bytes)) \<Rightarrow> TxnRequest \<Rightarrow> 's world \<Rightarrow> 's world \<Rightarrow> bool" where
  "txn_done kv t w w' \<longleftrightarrow> kv (cache w') = run_txn t (kv (cache w))"

definition txn_maybe :: "('s \<Rightarrow> (bytes \<rightharpoonup> bytes)) \<Rightarrow> TxnRequest \<Rightarrow> 's world \<Rightarrow> 's world \<Rightarrow> bool" where
  "txn_maybe kv t w w' \<longleftrightarrow> kv (cache w') \<in> {kv (cache w), run_txn t (kv (cache w))}"

lemma txn_call_cases:
  assumes "reached E kv key req R c0 p w" and "call E (\<lambda>s. etcd_Txn E s t) w = (r, w')"
  obtains (answered) x where "r = Ok x" "Txn_Succeeded x \<longleftrightarrow> compares (kv (cache (schedule E w))) t"
      "txn_done kv t (schedule E w) w'" "reached E kv key req R c0 p (schedule E w)"
    | (failed) msg where "r = Err (Other msg)" "txn_maybe kv t (schedule E w) w'"
      "reached E kv key req R c0 p (schedule E w)"
proof -
  let ?s = "others E (ticks w) (cache w)"
  have law: "etcd_kv E kv" using assms(1) by (simp add: reached_def)
  note at = reached_others(1) [OF assms(1)]
  obtain a s where a: "etcd_Txn E ?s t = (a, s)" by fastforce
  show ?thesis
  proof (cases a)
    case (Inl msg)
    with a assms(2) have "r = Err (Other msg)" "kv (cache w') = kv s" by (auto simp: call_simps)
    then show ?thesis using failed at etcd_txnD(1) [OF law, of ?s t] a by (auto simp: txn_maybe_def run_txn_def)
  next
    case (Inr x)
    with a assms(2) have "r = Ok x" "kv (cache w') = kv s" by (auto simp: call_simps)
    then show ?thesis using answered at etcd_txnD(2,3) [OF law, of ?s t x] a Inr by (auto simp: txn_done_def run_txn_def)
  qed
qed

text \<open>The transaction loop: refused rounds change nothing, the last one decides.\<close>

definition poll_result :: "'s etcd \<Rightarrow> ('s \<Rightarrow> (bytes \<rightharpoonup> bytes)) \<Rightarrow> string \<Rightarrow> 'x request \<Rightarrow>
    ((bytes \<rightharpoonup> bytes) \<Rightarrow> (bytes \<rightharpoonup> bytes) \<Rightarrow> bool) \<Rightarrow> (bytes \<rightharpoonup> bytes) \<times> 'x progress \<Rightarrow> 'x progress \<Rightarrow>
    TxnRequest \<Rightarrow> (go_error, unit) outcome \<times> 's world \<Rightarrow> bool" where
  "poll_result E kv key req R c0 p t = (\<lambda>(r, w').
     r = Ok () \<and> (\<exists>w. reached E kv key req R c0 p w \<and> \<not> compares (kv (cache w)) t \<and> txn_done kv t w w') \<or>
     r = Err ErrKeyLocked \<and> reached E kv key req R c0 p w' \<and>
       (\<forall>p'. (\<forall>m. compares m t \<longrightarrow> own_step key req m p m p') \<longrightarrow> reached E kv key req R c0 p' w') \<or>
     (\<exists>msg. r = Err (Other msg) \<and> (\<exists>w. reached E kv key req R c0 p w \<and> txn_maybe kv t w w')))"

lemma poll_answered:
  "reached E kv key req R c0 p w \<Longrightarrow> \<not> compares (kv (cache w)) t \<Longrightarrow> txn_done kv t w w' \<Longrightarrow>
     poll_result E kv key req R c0 p t (Ok (), w')"
  unfolding poll_result_def by blast

lemma poll_refused:
  "reached E kv key req R c0 p w' \<Longrightarrow>
     (\<And>p'. (\<And>m. compares m t \<Longrightarrow> own_step key req m p m p') \<Longrightarrow> reached E kv key req R c0 p' w') \<Longrightarrow>
     poll_result E kv key req R c0 p t (Err ErrKeyLocked, w')"
  unfolding poll_result_def by blast

lemma poll_failed:
  "reached E kv key req R c0 p w \<Longrightarrow> txn_maybe kv t w w' \<Longrightarrow>
     poll_result E kv key req R c0 p t (Err (Other msg), w')"
  unfolding poll_result_def by blast

lemma refused_txn: "Txn_Success t = [] \<Longrightarrow> compares m t \<Longrightarrow> run_txn t m = m"
  by (simp add: run_txn_def txn_branch_def)

lemma reached_same: "reached E kv key req R c0 p w \<Longrightarrow> kv (cache w') = kv (cache w) \<Longrightarrow> reached E kv key req R c0 p w'"
  by (simp add: reached_def)

lemma txn_poll_steps:
  assumes "Txn_Success t = []" and "txn_poll E t once late w = Some q" and "reached E kv key req R c0 p w"
  shows "poll_result E kv key req R c0 p t q"
proof (rule txn_poll.raw_induct [where P = "\<lambda>E t once late w q. Txn_Success t = [] \<longrightarrow>
    reached E kv key req R c0 p w \<longrightarrow> poll_result E kv key req R c0 p t q",
    OF _ assms(2), THEN mp, OF _ assms(1), THEN mp, OF _ assms(3)])
  fix f E t once late w q
  let ?A = "reached E kv key req R c0 p"
  assume IH: "\<And>E t once late w q. f E t once late w = Some q \<Longrightarrow> Txn_Success t = [] \<longrightarrow>
      reached E kv key req R c0 p w \<longrightarrow> poll_result E kv key req R c0 p t q"
    and eq: "(case call E (\<lambda>s. etcd_Txn E s t) w of (r, w1) \<Rightarrow>
        (case r of
           Ok res \<Rightarrow>
             (if \<not> Txn_Succeeded res then Some (Ok (), w1)
              else if once then Some (Err ErrKeyLocked, w1)
              else let w2 = Sleep E delay w1 in
                if late (clock w2) then Some (Err ErrKeyLocked, w2)
                else f E t once late w2)
         | Err e \<Rightarrow> Some (Err e, w1)
         | Panic \<Rightarrow> Some (Panic, w1)
         | Hang \<Rightarrow> Some (Hang, w1))) = Some q"
  show "Txn_Success t = [] \<longrightarrow> ?A w \<longrightarrow> poll_result E kv key req R c0 p t q"
  proof (intro impI)
    assume t: "Txn_Success t = []" and A: "?A w"
    obtain r w1 where rw: "call E (\<lambda>s. etcd_Txn E s t) w = (r, w1)" by fastforce
    from A rw show "poll_result E kv key req R c0 p t q"
    proof (cases rule: txn_call_cases)
      case (answered x)
      show ?thesis
      proof (cases "Txn_Succeeded x")
        case True
        with answered have same: "kv (cache w1) = kv (cache (schedule E w))"
          by (simp add: txn_done_def refused_txn [OF t])
        then have A1: "?A w1" using answered(4) reached_same by metis
        then have A2: "?A (Sleep E delay w1)" by (rule reached_others)
        have "compares (kv (cache (schedule E w))) t" using answered(2) True by simp
        then have B1: "reached E kv key req R c0 p' w1" if "\<And>m. compares m t \<Longrightarrow> own_step key req m p m p'" for p'
          using reached_own [OF answered(4), of w1 p'] that by (simp add: same)
        have "q = (Err ErrKeyLocked, w1) \<or> q = (Err ErrKeyLocked, Sleep E delay w1) \<or>
            f E t False late (Sleep E delay w1) = Some q"
          using eq unfolding rw answered(1) Let_def prod.case outcome.case by (cases once) (auto simp: True split: if_split_asm)
        then show ?thesis
        proof (elim disjE)
          assume q: "q = (Err ErrKeyLocked, w1)"
          show ?thesis unfolding q by (rule poll_refused [OF A1 B1])
        next
          assume q: "q = (Err ErrKeyLocked, Sleep E delay w1)"
          show ?thesis unfolding q by (rule poll_refused [OF A2 reached_others(2) [OF B1]])
        next
          assume "f E t False late (Sleep E delay w1) = Some q"
          from IH [OF this] t A2 show ?thesis by blast
        qed
      next
        case False
        with eq answered have q: "q = (Ok (), w1)" by (simp add: rw)
        show ?thesis unfolding q by (rule poll_answered [OF answered(4) _ answered(3)]) (use answered(2) False in simp)
      qed
    next
      case (failed msg)
      with eq have q: "q = (Err (Other msg), w1)" by (simp add: rw)
      show ?thesis unfolding q by (rule poll_failed [OF failed(3,2)])
    qed
  qed
qed

lemma poll_steps:
  assumes "Txn_Success t = []"
  shows "triple (reached E kv key req R c0 p) (looping (txn_poll E t once late))
    (\<lambda>r w. r = Hang \<or> poll_result E kv key req R c0 p t (r, w))"
proof (rule tripleI)
  fix w assume A: "reached E kv key req R c0 p w"
  let ?m = "looping (txn_poll E t once late)"
  show "fst (?m w) = Hang \<or> poll_result E kv key req R c0 p t (fst (?m w), snd (?m w))"
  proof (cases "txn_poll E t once late w")
    case (Some q)
    with txn_poll_steps [OF assms Some A] show ?thesis by (simp add: looping_def)
  qed (simp add: looping_def)
qed

lemma triple_with_now: "(\<And>now. triple P (f now) Q) \<Longrightarrow> triple P (with_now f) Q"
proof (rule tripleI)
  fix w assume "\<And>now. triple P (f now) Q" and "P w"
  then have "Q (fst (f (clock w) w)) (snd (f (clock w) w))" by (rule tripleD)
  then show "Q (fst (with_now f w)) (snd (with_now f w))" by (simp add: with_now_def)
qed

text \<open>An update ends with its answer.\<close>

definition answers :: "'s etcd \<Rightarrow> ('s \<Rightarrow> (bytes \<rightharpoonup> bytes)) \<Rightarrow> string \<Rightarrow> 'x request \<Rightarrow> ((bytes \<rightharpoonup> bytes) \<Rightarrow> (bytes \<rightharpoonup> bytes) \<Rightarrow> bool) \<Rightarrow>
    (bytes \<rightharpoonup> bytes) \<times> 'x progress \<Rightarrow> (go_error, 'x) outcome \<Rightarrow> 's world \<Rightarrow> bool" where
  "answers E kv key req R c0 r w \<longleftrightarrow> r = Hang \<or> (\<exists>p. reply p = Some r \<and> reached E kv key req R c0 p w)"

lemma answersI: "reached E kv key req R c0 p w \<Longrightarrow> reply p = Some r \<Longrightarrow> answers E kv key req R c0 r w"
  unfolding answers_def by blast

lemma reply_over [simp]: "reply (over ok out) = Some out"
  by (simp add: over_def)

lemma lock_steps:
  "triple (reached E kv key (Update decide) R c0 Wanting) (Lock E ctx (newKey key))
    (\<lambda>r w. r = Hang \<or> r = Ok () \<and> reached E kv key (Update decide) R c0 Holding w \<or>
      (\<exists>e. r = Err e \<and> answers E kv key (Update decide) R c0 (Err e) w))"
  unfolding Lock_def LockWithTimeout_txn
proof (rule triple_with_now, rule triple_weaken [OF poll_steps])
  let ?k = "Expiration_Key \<lparr>Expiration_Key = Key_Key (newKey key), Expiration_Exp = getMaxWait ctx\<rparr>"
  have k: "?k = key" by (simp add: newKey_def)
  show "Txn_Success (lock_txn ?k) = []" by (simp add: lock_txn_def)
  fix r w
  assume "r = Hang \<or> poll_result E kv key (Update decide) R c0 Wanting (lock_txn ?k) (r, w)"
  then show "r = Hang \<or> r = Ok () \<and> reached E kv key (Update decide) R c0 Holding w \<or>
      (\<exists>e. r = Err e \<and> answers E kv key (Update decide) R c0 (Err e) w)"
    unfolding k poll_result_def split_conv
  proof (elim disjE conjE exE)
    fix w0 assume "r = Ok ()" "reached E kv key (Update decide) R c0 Wanting w0" "\<not> compares (kv (cache w0)) (lock_txn key)"
      "txn_done kv (lock_txn key) w0 w"
    then show ?thesis using reached_own [where p' = Holding] own_step.lock_taken by (metis txn_done_def)
  next
    assume r: "r = Err ErrKeyLocked" and "\<forall>p'. (\<forall>m. compares m (lock_txn key) \<longrightarrow> own_step key (Update decide) m Wanting m p') \<longrightarrow>
      reached E kv key (Update decide) R c0 p' w"
    then have "reached E kv key (Update decide) R c0 Refused w" by (blast intro: own_step.lock_refused)
    then show ?thesis using r by (auto intro: answersI)
  next
    fix msg w0 assume r: "r = Err (Other msg)" and w0: "reached E kv key (Update decide) R c0 Wanting w0"
      and "txn_maybe kv (lock_txn key) w0 w"
    then have "reached E kv key (Update decide) R c0 (Failed (Err (Other msg))) w"
      by (intro reached_own [OF w0] own_step.lock_failed [OF refl]) (simp add: txn_maybe_def)
    then show ?thesis using r by (auto intro: answersI)
  qed simp
qed

text \<open>
  etcd's error texts begin with \<open>etcdserver:\<close> (or name a transport error); the handler of a
  read takes an error with the text of \<open>ErrKeyNotFound\<close> for a missing key.
\<close>

definition plain_errors :: "'s etcd \<Rightarrow> bool" where
  "plain_errors E \<longleftrightarrow> (\<forall>s q. fst (etcd_Range E s q) \<noteq> Inl (Error ErrKeyNotFound))"

text \<open>A transaction that etcd answers has run on the key space of the call.\<close>

lemma txn_answered:
  assumes "etcd_kv E kv" and "\<exists>r. fst (etcd_Txn E (others E (ticks w) (cache w)) t) = Inr r"
  obtains res w1 where "call E (\<lambda>s. etcd_Txn E s t) w = (Ok res, w1)" "ticks w1 = Suc (ticks w)"
    "Txn_Succeeded res \<longleftrightarrow> compares (kv (cache (schedule E w))) t" "kv (cache w1) = run_txn t (kv (cache (schedule E w)))"
proof -
  let ?s = "others E (ticks w) (cache w)"
  obtain r where r: "fst (etcd_Txn E ?s t) = Inr r" using assms(2) by blast
  then have "etcd_Txn E ?s t = (Inr r, snd (etcd_Txn E ?s t))" by (metis prod.collapse)
  from call_simps(1) [of "\<lambda>s. etcd_Txn E s t", OF this] etcd_txnD(2,3) [OF assms(1) r] show thesis
    using that by (simp add: run_txn_def)
qed

text \<open>A read that etcd answers is what the key held at the call.\<close>

lemma get_answered:
  assumes "etcd_kv E kv" and "etcd_Range E (others E (ticks w) (cache w)) (getRangeRequestFromKey (newKey key)) = (Inr x, s)"
  shows "attempt (Get E (newKey key)) w = (Ok (value_read (kv (cache (schedule E w)) (StringToBytes key))), (schedule E w)\<lparr>cache := s\<rparr>)"
    and "kv s = kv (cache (schedule E w))"
proof -
  let ?q = "getRangeRequestFromKey (newKey key)" and ?s = "others E (ticks w) (cache w)"
  let ?v = "kv ?s (StringToBytes key)"
  have q: "Range_RangeEnd ?q = []" "Range_Key ?q = StringToBytes key" "Range_Revision ?q = 0" "\<not> Range_KeysOnly ?q"
    by (simp_all add: newKey_def getRangeRequestFromKey_def Let_def)
  from etcd_rangeD(2) [OF assms(1), of ?s ?q x] assms(2) q have "range_answer (kv ?s) ?q x" by simp
  from range_answer_single [OF this q(1), unfolded q(2)] q(4) have x: "case ?v of None \<Rightarrow> Range_Kvs x = None \<and> \<not> 0 < sint (Range_Count x)
    | Some v \<Rightarrow> Range_Kvs x = Some [\<lparr>KV_Key = StringToBytes key, KV_Value = v\<rparr>] \<and> 0 < sint (Range_Count x)"
    by (simp cong: option.case_cong)
  have b: "\<not> Key_Block (newKey key)" by (simp add: newKey_def)
  from assms(2) x show "attempt (Get E (newKey key)) w = (Ok (value_read (kv (cache (schedule E w)) (StringToBytes key))), (schedule E w)\<lparr>cache := s\<rparr>)"
    by (auto simp: Get_def Get_with_def attempt_def and_then_def call_simps schedule_def throw_def ret_def b value_read_def split: option.split_asm)
  show "kv s = kv (cache (schedule E w))" using etcd_rangeD(1) [OF assms(1), of ?s ?q] assms(2) by simp
qed

lemma get_result:
  assumes "plain_errors E"
  shows "triple (reached E kv key req R c0 p) (attempt (Get E (newKey key)))
    (\<lambda>r w. \<exists>w0. reached E kv key req R c0 p w0 \<and> kv (cache w) = kv (cache w0) \<and>
       (r = Ok (value_read (kv (cache w0) (StringToBytes key))) \<or> (\<exists>msg. r = Ok (Inl (Other msg)))))"
proof (rule tripleI)
  fix w assume "reached E kv key req R c0 p w"
  then have at: "reached E kv key req R c0 p (schedule E w)" by (rule reached_others)
  then have law: "etcd_kv E kv" by (simp add: reached_def)
  let ?q = "getRangeRequestFromKey (newKey key)" and ?s = "others E (ticks w) (cache w)"
  let ?m = "attempt (Get E (newKey key))" and ?v = "kv ?s (StringToBytes key)"
  obtain a s where a: "etcd_Range E ?s ?q = (a, s)" by fastforce
  have "kv (cache (snd (?m w))) = kv (cache (schedule E w)) \<and>
      (fst (?m w) = Ok (value_read ?v) \<or> (\<exists>msg. fst (?m w) = Ok (Inl (Other msg))))"
  proof (cases a)
    case (Inl msg)
    with a assms have "Error ErrKeyNotFound \<noteq> msg" by (metis fst_conv plain_errors_def)
    moreover have "kv s = kv (cache (schedule E w))" using a etcd_rangeD(1) [OF law, of ?s ?q] by simp
    ultimately show ?thesis using a Inl
      by (auto simp: Get_def Get_with_def attempt_def and_then_def call_simps throw_def)
  next
    case (Inr x)
    with a show ?thesis using get_answered [of E kv w key x s] law by simp
  qed
  with at show "\<exists>w0. reached E kv key req R c0 p w0 \<and> kv (cache (snd (?m w))) = kv (cache w0) \<and>
       (fst (?m w) = Ok (value_read (kv (cache w0) (StringToBytes key))) \<or> (\<exists>msg. fst (?m w) = Ok (Inl (Other msg))))"
    by (intro exI [of _ "schedule E w"]) simp
qed

lemma get_steps:
  assumes "plain_errors E"
  shows "triple (reached E kv key (Update decide) R c0 Holding) (attempt (Get E (newKey key)))
    (\<lambda>r w. \<exists>x ok. r = Ok x \<and> reached E kv key (Update decide) R c0 (Settled ok (decide x)) w)"
proof (rule triple_weaken [OF get_result [OF assms]], assumption, elim exE conjE disjE)
  fix r and w w0 :: "'a world"
  assume at: "reached E kv key (Update decide) R c0 Holding w0" and same: "kv (cache w) = kv (cache w0)"
  note at = reached_same [OF at same]
  show "\<exists>x ok. r = Ok x \<and> reached E kv key (Update decide) R c0 (Settled ok (decide x)) w"
    if "r = Ok (value_read (kv (cache w0) (StringToBytes key)))"
    using that reached_own [OF at own_step.read [OF refl], unfolded same] by blast
  show "\<exists>x ok. r = Ok x \<and> reached E kv key (Update decide) R c0 (Settled ok (decide x)) w"
    if "r = Ok (Inl (Other msg))" for msg
    using that reached_own [OF at own_step.read_failed [OF refl]] by blast
qed

lemma unlock_steps:
  "triple (reached E kv key req R c0 (Settled ok (Give_up r0))) (discard (Unlock E ctx (newKey key)))
    (\<lambda>r w. r = Hang \<or> r = Ok () \<and> reached E kv key req R c0 (over ok (outcome_of r0)) w)"
proof (rule tripleI)
  let ?p = "Settled ok (Give_up r0)" and ?p' = "over ok (outcome_of r0)"
  fix w assume A: "reached E kv key req R c0 ?p w"
  have k: "Key_Key (newKey key) = key" by (simp add: newKey_def)
  have "triple (reached E kv key req R c0 ?p) (Unlock E ctx (newKey key))
      (\<lambda>r w. r = Hang \<or> poll_result E kv key req R c0 ?p (unlock_txn key) (r, w))"
    unfolding Unlock_txn txn_of.simps k by (rule triple_with_now, rule poll_steps) (simp add: delete_txn_def)
  from tripleD [OF this A] obtain r w' where u: "Unlock E ctx (newKey key) w = (r, w')"
    and pr: "r = Hang \<or> poll_result E kv key req R c0 ?p (unlock_txn key) (r, w')"
    by (metis prod.collapse)
  have done_at: "reached E kv key req R c0 ?p' w'"
    if "reached E kv key req R c0 ?p w0" "kv (cache w') \<in> {kv (cache w0), run_txn (unlock_txn key) (kv (cache w0))}" for w0
    using that by (intro reached_own [OF that(1)] own_step.release) simp
  from pr have "r = Hang \<or> (r = Ok () \<or> (\<exists>e. r = Err e)) \<and> reached E kv key req R c0 ?p' w'"
    unfolding poll_result_def split_conv txn_done_def txn_maybe_def
    by (elim disjE conjE exE) (auto intro: done_at)
  with u show "fst (discard (Unlock E ctx (newKey key)) w) = Hang \<or>
      fst (discard (Unlock E ctx (newKey key)) w) = Ok () \<and>
      reached E kv key req R c0 ?p' (snd (discard (Unlock E ctx (newKey key)) w))"
    by (auto simp: discard_def and_then_def attempt_def ret_def)
qed

lemma commit_steps:
  assumes "\<not> invalid_key key"
  shows "triple (reached E kv key req R c0 (Settled ok (Commit b x)))
    (and_then (UnlockThenSet E \<lparr>ByteValue_Key = key, ByteValue_Value = b\<rparr>) (\<lambda>_. ret x)) (answers E kv key req R c0)"
proof (rule tripleI)
  let ?t = "unlock_set_txn key b" and ?m = "and_then (UnlockThenSet E \<lparr>ByteValue_Key = key, ByteValue_Value = b\<rparr>) (\<lambda>_. ret x)"
  fix w assume A: "reached E kv key req R c0 (Settled ok (Commit b x)) w"
  obtain r w' where c: "call E (\<lambda>s. etcd_Txn E s ?t) w = (r, w')" by fastforce
  from A c show "answers E kv key req R c0 (fst (?m w)) (snd (?m w))"
  proof (cases rule: txn_call_cases)
    case (answered y)
    with c have m: "?m w = (Ok x, w')" by (simp add: UnlockThenSet_txn [OF assms] and_then_def ret_def)
    have "own_step key req (kv (cache (schedule E w))) (Settled ok (Commit b x)) (kv (cache w')) (over ok (Ok x))"
      using answered(3) own_step.written by (simp add: txn_done_def)
    from reached_own [OF answered(4) this] show ?thesis unfolding m by (auto intro: answersI)
  next
    case (failed msg)
    with c have m: "?m w = (Err (Other msg), w')" by (simp add: UnlockThenSet_txn [OF assms] and_then_def ret_def)
    have "own_step key req (kv (cache (schedule E w))) (Settled ok (Commit b x)) (kv (cache w')) (Failed (Err (Other msg)))"
      using failed(2) by (intro own_step.write_failed) (simp add: txn_maybe_def)
    from reached_own [OF failed(3) this] show ?thesis unfolding m by (auto intro: answersI)
  qed
qed

lemma conclude_steps:
  assumes "\<not> invalid_key key"
  shows "triple (reached E kv key req R c0 (Settled ok d)) (conclude E ctx (newKey key) d) (answers E kv key req R c0)"
proof (cases d)
  case (Commit b x)
  then show ?thesis using commit_steps [OF assms, of E kv req R c0 ok b x] by (simp add: newKey_def)
next
  case (Give_up r0)
  have fin: "finish r0 w = (outcome_of r0, w)" for w :: "'s world"
    by (cases r0) (simp_all add: outcome_of_def throw_def ret_def)
  show ?thesis
    unfolding Give_up conclude_def decision.case
    by (rule tripleI)
      (use unlock_steps [of E kv key req R c0 ok r0 ctx] in
        \<open>auto simp: and_then_def triple_def fin answers_def split: prod.split outcome.split\<close>)
next
  case (Leave_locked r0)
  have fin: "finish r0 w = (outcome_of r0, w)" for w :: "'s world"
    by (cases r0) (simp_all add: outcome_of_def throw_def ret_def)
  show ?thesis
    unfolding Leave_locked conclude_def decision.case
    by (rule tripleI, rule answersI, rule reached_own [OF _ own_step.leave]) (auto simp: fin)
next
  case Crash
  show ?thesis
    unfolding Crash conclude_def decision.case
    by (intro tripleI, rule answersI, rule reached_own [OF _ own_step.crash]) (auto simp: panic_def)
qed

lemma update_steps:
  assumes "plain_errors E" and "\<not> invalid_key key"
  shows "triple (reached E kv key (Update decide) R c0 Wanting) (update E ctx (newKey key) decide) (answers E kv key (Update decide) R c0)"
  unfolding update_def
proof (rule triple_and_then [OF lock_steps])
  show "triple (\<lambda>w. Ok x = Hang \<or> Ok x = Ok () \<and> reached E kv key (Update decide) R c0 Holding w \<or>
      (\<exists>e. Ok x = Err e \<and> answers E kv key (Update decide) R c0 (Err e) w))
      (and_then (attempt (Get E (newKey key))) (\<lambda>r. conclude E ctx (newKey key) (decide r))) (answers E kv key (Update decide) R c0)" for x
  proof (rule triple_weaken [where P = "reached E kv key (Update decide) R c0 Holding"])
    show "triple (reached E kv key (Update decide) R c0 Holding)
        (and_then (attempt (Get E (newKey key))) (\<lambda>r. conclude E ctx (newKey key) (decide r))) (answers E kv key (Update decide) R c0)"
    proof (rule triple_and_then [OF get_steps [OF assms(1)]])
      fix y
      show "triple (\<lambda>w. \<exists>x ok. Ok y = Ok x \<and> reached E kv key (Update decide) R c0 (Settled ok (decide x)) w)
          (conclude E ctx (newKey key) (decide y)) (answers E kv key (Update decide) R c0)"
        by (rule tripleI) (auto dest: tripleD [OF conclude_steps [OF assms(2)]])
    qed auto
  qed auto
qed (auto simp: answers_def)

text \<open>The requests without a decision.\<close>

definition look_finish :: "(go_error + 'x) option \<Rightarrow> ('s, 'x) handler" where
  "look_finish r = (case r of None \<Rightarrow> panic | Some r \<Rightarrow> finish r)"

lemma look_finish_outcome: "look_finish r0 w = (look_outcome r0, w)"
proof (cases r0)
  case (Some r)
  then show ?thesis by (cases r) (simp_all add: look_finish_def outcome_of_def throw_def ret_def)
qed (simp add: look_finish_def panic_def)

lemma look_steps:
  assumes "plain_errors E"
  shows "triple (reached E kv key (Look f) R c0 Wanting) (and_then (attempt (Get E (newKey key))) (\<lambda>r. look_finish (f r)))
    (answers E kv key (Look f) R c0)"
proof (rule triple_and_then [OF get_result [OF assms]])
  fix x
  show "triple (\<lambda>w. \<exists>w0. reached E kv key (Look f) R c0 Wanting w0 \<and> kv (cache w) = kv (cache w0) \<and>
      (Ok x = Ok (value_read (kv (cache w0) (StringToBytes key))) \<or> (\<exists>msg. Ok x = Ok (Inl (Other msg)))))
      (look_finish (f x)) (answers E kv key (Look f) R c0)"
  proof (rule tripleI, elim exE conjE disjE)
    fix w w0 :: "'a world"
    assume at: "reached E kv key (Look f) R c0 Wanting w0" and same: "kv (cache w) = kv (cache w0)"
    note at = reached_same [OF at same]
    show "answers E kv key (Look f) R c0 (fst (look_finish (f x) w)) (snd (look_finish (f x) w))"
      if "Ok x = Ok (value_read (kv (cache w0) (StringToBytes key)))"
      using that reached_own [OF at own_step.looked [OF refl]] same by (auto simp: look_finish_outcome intro: answersI)
    show "answers E kv key (Look f) R c0 (fst (look_finish (f x) w)) (snd (look_finish (f x) w))"
      if "Ok x = Ok (Inl (Other msg))" for msg
      using that answersI [OF reached_own [OF at own_step.look_failed [OF refl, where msg = msg]]] by (simp add: look_finish_outcome)
  qed
qed auto

lemma guarded_steps:
  assumes "guarded key req = Some (t, x)"
  shows "triple (reached E kv key req R c0 Wanting)
    (and_then (with_now (\<lambda>now. looping (txn_poll E t once (late now)))) (\<lambda>_. ret x)) (answers E kv key req R c0)"
proof (rule triple_and_then)
  have t: "Txn_Success t = []" using assms by (cases req) (auto simp: set_txn_def delete_txn_def)
  show "triple (reached E kv key req R c0 Wanting) (with_now (\<lambda>now. looping (txn_poll E t once (late now))))
      (\<lambda>r w. r = Hang \<or> r = Ok () \<and> reached E kv key req R c0 (Replied (Ok x)) w \<or>
        (\<exists>e. r = Err e \<and> answers E kv key req R c0 (Err e) w))"
  proof (rule triple_with_now, rule triple_weaken [OF poll_steps [OF t]], assumption)
    fix r w
    assume "r = Hang \<or> poll_result E kv key req R c0 Wanting t (r, w)"
    then show "r = Hang \<or> r = Ok () \<and> reached E kv key req R c0 (Replied (Ok x)) w \<or>
        (\<exists>e. r = Err e \<and> answers E kv key req R c0 (Err e) w)"
      unfolding poll_result_def split_conv
    proof (elim disjE conjE exE)
      fix w0 assume "r = Ok ()" "reached E kv key req R c0 Wanting w0" "\<not> compares (kv (cache w0)) t" "txn_done kv t w0 w"
      then show ?thesis using reached_own [where p' = "Replied (Ok x)"] own_step.txn_run [OF assms] by (metis txn_done_def)
    next
      assume r: "r = Err ErrKeyLocked" and "\<forall>p'. (\<forall>m. compares m t \<longrightarrow> own_step key req m Wanting m p') \<longrightarrow>
        reached E kv key req R c0 p' w"
      then have "reached E kv key req R c0 Refused w" using own_step.txn_refused [OF assms] by blast
      then show ?thesis using r by (auto intro: answersI)
    next
      fix msg w0 assume r: "r = Err (Other msg)" and w0: "reached E kv key req R c0 Wanting w0" and "txn_maybe kv t w0 w"
      then have "reached E kv key req R c0 (Failed (Err (Other msg))) w"
        by (intro reached_own [OF w0] own_step.txn_failed [OF assms]) (simp add: txn_maybe_def)
      then show ?thesis using r by (auto intro: answersI)
    qed simp
  qed
  show "triple (\<lambda>w. Ok y = Hang \<or> Ok y = Ok () \<and> reached E kv key req R c0 (Replied (Ok x)) w \<or>
      (\<exists>e. Ok y = Err e \<and> answers E kv key req R c0 (Err e) w)) (ret x) (answers E kv key req R c0)" for y
    by (rule tripleI) (auto simp: ret_def intro: answersI)
qed (auto simp: answers_def)

section \<open>The handlers take these steps\<close>

definition request_handler :: "'s etcd \<Rightarrow> go_context \<Rightarrow> string \<Rightarrow> 'x request \<Rightarrow> ('s, 'x) handler" where
  "request_handler E ctx key req = (case req of
     Update decide \<Rightarrow> update E ctx (newKey key) decide
   | Put b x \<Rightarrow> and_then (Set E ctx \<lparr>ByteValue_Key = key, ByteValue_Value = b\<rparr>) (\<lambda>_. ret x)
   | Erase x \<Rightarrow> and_then (Delete E ctx (newKey key)) (\<lambda>_. ret x)
   | Look f \<Rightarrow> and_then (attempt (Get E (newKey key))) (\<lambda>r. look_finish (f r)))"

lemma request_steps:
  assumes "plain_errors E" and "\<not> invalid_key key"
  shows "triple (reached E kv key req R c0 Wanting) (request_handler E ctx key req) (answers E kv key req R c0)"
proof (cases req)
  case (Put b x)
  have "\<not> invalid_key (ByteValue_Key \<lparr>ByteValue_Key = key, ByteValue_Value = b\<rparr>)" using assms(2) by simp
  note set = Set_txn [OF this, of E ctx, simplified]
  show ?thesis unfolding Put request_handler_def request.case set by (rule guarded_steps) simp
next
  case (Erase x)
  show ?thesis unfolding Erase request_handler_def request.case Delete_txn by (rule guarded_steps) (simp add: newKey_def)
qed (simp_all add: request_handler_def update_steps [OF assms] look_steps [OF assms(1)])

lemma returns_finish: "returns (finish r)"
  by (cases r) (auto intro!: return_rules)

lemma returns_look_finish: "returns (look_finish r)"
  by (cases r) (auto simp: look_finish_def intro!: return_rules returns_finish)

lemma returns_conclude: "returns (conclude E ctx key d)"
  by (cases d) (auto simp: conclude_def intro!: return_rules returns_finish)

lemma returns_request: "0 \<le> sint (getMaxWait ctx) \<Longrightarrow> returns (request_handler E ctx key req)"
  by (cases req) (auto simp: request_handler_def update_def intro!: return_rules returns_conclude returns_look_finish)

text \<open>
  C2. A request on a key (one of the updates, \<open>Set\<close>, \<open>Delete\<close>, or a read with whatever
  decoding), run while other clients do what they like with the key space (any relation
  \<open>R\<close>) and while calls of etcd may fail before or after their effect, returns, and does to
  the key space exactly its steps: an update is refused or takes the lock, reads, and writes
  and releases, only releases, or leaves the lock, as its decision says; its answer is the
  one those steps lead to.
\<close>

theorem request_takes_its_steps:
  assumes "etcd_kv E kv" and "plain_errors E" and "others_do E kv R"
    and "\<not> invalid_key key" and "0 \<le> sint (getMaxWait ctx)"
  shows "\<exists>out w' p. request_handler E ctx key req w = (out, w') \<and> out \<noteq> Hang \<and> reply p = Some out \<and>
    rtranclp (among key req R) (kv (cache w), Wanting) (kv (cache w'), p)"
proof -
  have "reached E kv key req R (kv (cache w), Wanting) Wanting w" using assms(1,3) by (simp add: reached_def)
  from tripleD [OF request_steps [OF assms(2,4)] this, of ctx]
  have "answers E kv key req R (kv (cache w), Wanting) (fst (request_handler E ctx key req w)) (snd (request_handler E ctx key req w))" .
  moreover have "fst (request_handler E ctx key req w) \<noteq> Hang"
    using returns_request [OF assms(5), of E key req] unfolding returns_def by blast
  ultimately show ?thesis unfolding answers_def reached_def by (metis prod.collapse)
qed

text \<open>The witness: another client writes the key between the lock and the read.\<close>

definition meddling_etcd :: "mem etcd" where
  "meddling_etcd = mem_etcd (\<lambda>n s. if n = 1 then (StringToBytes ''k'', [9]) # s else s) (\<lambda>_. 0)"

theorem request_takes_its_steps_witness:
  "\<exists>out w' p. request_handler meddling_etcd demo_ctx ''k'' (Update (list_append memory_codec [1])) (mem_world []) = (out, w') \<and>
    out \<noteq> Hang \<and> reply p = Some out \<and>
    rtranclp (among ''k'' (Update (list_append memory_codec [1])) (\<lambda>m m'. m' \<in> {m, m(StringToBytes ''k'' \<mapsto> [9])}))
      (map_of [], Wanting) (map_of (cache w'), p)"
proof -
  have "etcd_kv meddling_etcd map_of" by (simp add: meddling_etcd_def mem_etcd_kv)
  moreover have "plain_errors meddling_etcd" by (simp add: meddling_etcd_def plain_errors_def)
  moreover have "others_do meddling_etcd map_of (\<lambda>m m'. m' \<in> {m, m(StringToBytes ''k'' \<mapsto> [9])})"
    by (simp add: meddling_etcd_def others_do_def mem_etcd_def)
  ultimately show ?thesis
    using request_takes_its_steps [of meddling_etcd map_of "\<lambda>m m'. m' \<in> {m, m(StringToBytes ''k'' \<mapsto> [9])}" "''k''" demo_ctx
        "Update (list_append memory_codec [1])" "mem_world []"]
    by (simp only: demo_wait invalid_key_k) (simp add: mem_world_def)
qed

end
