(* ===== verification/Serial.thy ===== *)
theory Serial
  imports Update_Steps
begin

text \<open>
  Any number of clients with requests on one key, their steps interleaved in any order: the
  requests act, and are answered, as if they had been served one after the other, in an
  order that respects which of them were over before others took effect.
\<close>

section \<open>One after the other\<close>

fun effect :: "'x request \<Rightarrow> bytes option \<Rightarrow> bytes option" where
  "effect (Update decide) v = (case decide (value_read v) of Commit b x \<Rightarrow> Some b | _ \<Rightarrow> v)"
| "effect (Put b x) v = Some b"
| "effect (Erase x) v = None"
| "effect (Look f) v = v"

fun answer :: "'x request \<Rightarrow> bytes option \<Rightarrow> (go_error, 'x) outcome" where
  "answer (Update decide) v = (case decide (value_read v) of
     Commit b x \<Rightarrow> Ok x | Give_up r \<Rightarrow> outcome_of r | Leave_locked r \<Rightarrow> outcome_of r | Crash \<Rightarrow> Panic)"
| "answer (Put b x) v = Ok x"
| "answer (Erase x) v = Ok x"
| "answer (Look f) v = look_outcome (f (value_read v))"

definition serial :: "(nat \<Rightarrow> 'x request) \<Rightarrow> bytes option \<Rightarrow> nat list \<Rightarrow> bytes option" where
  "serial req v is = foldl (\<lambda>v i. effect (req i) v) v is"

lemma serial_simps [simp]: "serial req v [] = v" "serial req v (is @ [i]) = effect (req i) (serial req v is)"
  by (simp_all add: serial_def)

section \<open>All at once\<close>

text \<open>
  \<open>history\<close> is the order in which the requests took effect: a client joins it when it is
  answered, or when its write happened although etcd reported an error.
\<close>

record 'x clients =
  space :: "bytes \<rightharpoonup> bytes"
  stage :: "nat \<Rightarrow> 'x progress"
  history :: "nat list"

definition started :: "(bytes \<rightharpoonup> bytes) \<Rightarrow> 'x clients" where
  "started m = \<lparr>space = m, stage = (\<lambda>_. Wanting), history = []\<rparr>"

definition takes_effect :: "string \<Rightarrow> (bytes \<rightharpoonup> bytes) \<Rightarrow> (bytes \<rightharpoonup> bytes) \<Rightarrow> 'x progress \<Rightarrow> bool" where
  "takes_effect key m m' p' \<longleftrightarrow> (case p' of Replied _ \<Rightarrow> True | _ \<Rightarrow> m' (StringToBytes key) \<noteq> m (StringToBytes key))"

text \<open>
  Requests on other keys leave this key, its lock and the reserved key alone.  On this key the
  clients send updates, \<open>Set\<close> and \<open>Delete\<close>, which wait for the lock, and reads.  The requests that
  do not respect a lock are left out, because with them there is no order to speak of: a client
  that sends \<open>Unlock\<close>, \<open>UnlockThenSet\<close>, \<open>SetExpire\<close> or \<open>Clear\<close> in between breaks into the update of
  another.  What these do to a held lock is in \<open>Lock_Protocol\<close> and \<open>Held_Locks\<close>.  \<open>SetNX\<close>, two
  requests in one, is in \<open>Bytes_Spec\<close>.
\<close>

inductive clients_step :: "string \<Rightarrow> (nat \<Rightarrow> 'x request) \<Rightarrow> 'x clients \<Rightarrow> 'x clients \<Rightarrow> bool"
  for key req
where
  Move: "own_step key (req i) (space c) (stage c i) m' p' \<Longrightarrow>
    clients_step key req c \<lparr>space = m', stage = (stage c)(i := p'),
      history = (if takes_effect key (space c) m' p' then history c @ [i] else history c)\<rparr>"
| Elsewhere: "\<forall>k \<in> {StringToBytes key, getLockName key, ZeroByte}. m' k = space c k \<Longrightarrow>
    clients_step key req c (c\<lparr>space := m'\<rparr>)"

section \<open>What a step does to the key\<close>

fun in_section :: "'x progress \<Rightarrow> bool" where
  "in_section Holding \<longleftrightarrow> True"
| "in_section (Settled _ _) \<longleftrightarrow> True"
| "in_section _ \<longleftrightarrow> False"

text \<open>An update whose read failed writes nothing.\<close>

definition cautious :: "'x request \<Rightarrow> bool" where
  "cautious req \<longleftrightarrow> (\<forall>decide msg b x. req = Update decide \<longrightarrow> decide (Inl (Other msg)) \<noteq> Commit b x)"

text \<open>A client that has decided has decided from what the key still holds.\<close>

fun well_decided :: "'x request \<Rightarrow> bytes option \<Rightarrow> 'x progress \<Rightarrow> bool" where
  "well_decided req v (Settled ok d) \<longleftrightarrow>
     (if ok then (\<exists>decide. req = Update decide \<and> decide (value_read v) = d) else (\<forall>b x. d \<noteq> Commit b x))"
| "well_decided req v _ \<longleftrightarrow> True"

text \<open>The transactions on the three keys that matter.\<close>

lemma distinct_keys:
  assumes "\<not> invalid_key key"
  shows "StringToBytes key \<noteq> getLockName key" "getLockName key \<noteq> StringToBytes key" "StringToBytes key \<noteq> ZeroByte"
    "ZeroByte \<noteq> StringToBytes key" "getLockName key \<noteq> ZeroByte" "ZeroByte \<noteq> getLockName key"
  using assms getLockName_neq_self [of key] getLockName_not_zero [of key] by (auto simp: invalid_key_def)

lemma run_lock_at:
  "\<not> invalid_key key \<Longrightarrow> run_txn (lock_txn key) m (StringToBytes key) = m (StringToBytes key)"
  "run_txn (lock_txn key) m (getLockName key) = Some ZeroByte"
  "run_txn (lock_txn key) m ZeroByte = m ZeroByte"
  by (auto simp: run_txn_def lock_txn_def txn_branch_def distinct_keys getLockName_not_zero [THEN not_sym])

lemma run_unlock_at:
  "\<not> invalid_key key \<Longrightarrow> run_txn (unlock_txn key) m (StringToBytes key) = m (StringToBytes key)"
  "run_txn (unlock_txn key) m ZeroByte = m ZeroByte"
  by (auto simp: run_txn_def delete_txn_def txn_branch_def distinct_keys getLockName_not_zero [THEN not_sym])

lemma run_unlock_set_at:
  assumes "\<not> invalid_key key" and "m ZeroByte \<noteq> Some ZeroByte"
  shows "run_txn (unlock_set_txn key b) m (StringToBytes key) = Some b"
    "run_txn (unlock_set_txn key b) m ZeroByte = m ZeroByte"
  using distinct_keys [OF assms(1)] by (simp_all add: run_unlock_set_txn [of m, OF assms(2)])

lemma run_guarded_at:
  assumes "\<not> invalid_key key" and "guarded key req = Some (t, x)"
  shows "run_txn t m (getLockName key) = m (getLockName key)" "run_txn t m ZeroByte = m ZeroByte"
    "run_txn t m (StringToBytes key) \<in> {m (StringToBytes key), effect req (m (StringToBytes key))}"
    "\<not> compares m t \<Longrightarrow> run_txn t m (StringToBytes key) = effect req (m (StringToBytes key))"
    "answer req v = Ok x"
  using assms(2) distinct_keys [OF assms(1)]
  by (cases req; auto simp: run_txn_def set_txn_def delete_txn_def txn_branch_def)+

text \<open>The ways a client moves; one that does not hold the lock respects it.\<close>

definition calm :: "string \<Rightarrow> (bytes \<rightharpoonup> bytes) \<Rightarrow> (bytes \<rightharpoonup> bytes) \<Rightarrow> bool" where
  "calm key m m' \<longleftrightarrow> (m (getLockName key) = Some ZeroByte \<longrightarrow>
     m' (StringToBytes key) = m (StringToBytes key) \<and> m' (getLockName key) = Some ZeroByte)"

lemma calm_same [simp]: "calm key m m"
  by (simp add: calm_def)

lemma calm_lock: "\<not> invalid_key key \<Longrightarrow> calm key m (run_txn (lock_txn key) m)"
  by (simp add: calm_def run_lock_at)

lemma calm_guarded:
  assumes "guarded key req = Some (t, x)"
  shows "calm key m (run_txn t m)"
  using assms by (cases req) (auto simp: calm_def run_txn_def set_txn_def delete_txn_def txn_branch_def)

lemma own_step_kinds:
  assumes "own_step key req m p m' p'" and key: "\<not> invalid_key key" and zero: "m ZeroByte \<noteq> Some ZeroByte"
    and "cautious req" and "well_decided req (m (StringToBytes key)) p"
  obtains (enters) "p = Wanting" "p' = Holding" "m (getLockName key) \<noteq> Some ZeroByte"
      "m' (getLockName key) = Some ZeroByte" "m' (StringToBytes key) = m (StringToBytes key)" "m' ZeroByte = m ZeroByte"
    | (decides) ok d where "p = Holding" "p' = Settled ok d" "m' = m" "well_decided req (m (StringToBytes key)) p'"
    | (served) out where "p' = Replied out" "reply p = None" "out = answer req (m (StringToBytes key))"
      "m' (StringToBytes key) = effect req (m (StringToBytes key))" "in_section p \<or> calm key m m'"
      "m' ZeroByte = m ZeroByte"
    | (lost) out where "p' = Failed out" "reply p = None"
      "m' (StringToBytes key) \<in> {m (StringToBytes key), effect req (m (StringToBytes key))}"
      "in_section p \<or> calm key m m'" "m' ZeroByte = m ZeroByte"
    | (refused) "p = Wanting" "p' = Refused" "m' = m"
  using assms(1)
proof cases
  case (lock_taken decide)
  then show thesis using enters run_lock_at [of key m] key by (simp add: lock_txn_def)
next
  case (lock_failed decide msg)
  then show thesis using lost run_lock_at [of key m] calm_lock [of key m] key by auto
next
  case (read decide)
  then show thesis using decides by simp
next
  case (read_failed decide msg)
  then show thesis using decides [of False] assms(4) by (simp add: cautious_def)
next
  case (written ok b x)
  then show thesis using served lost run_unlock_set_at [OF key, of m b, OF zero] assms(5)
    by (cases ok) (auto simp: over_def)
next
  case (write_failed b ok x msg)
  then show thesis using lost run_unlock_set_at [OF key, of m b, OF zero] assms(5) by (cases ok) auto
next
  case (release ok r)
  then have "m' (StringToBytes key) = m (StringToBytes key)" "m' ZeroByte = m ZeroByte"
    using run_unlock_at [of key m] key by auto
  then show thesis using release served lost assms(5) by (cases ok) (auto simp: over_def split: decision.splits)
next
  case (leave ok r)
  then show thesis using served lost assms(5) by (cases ok) (auto simp: over_def split: decision.splits)
next
  case (crash ok)
  then show thesis using served lost assms(5) by (cases ok) (auto simp: over_def split: decision.splits)
next
  case (txn_run t x)
  then show thesis using served run_guarded_at [OF key \<open>guarded key req = Some (t, x)\<close>] calm_guarded [OF \<open>guarded key req = Some (t, x)\<close>] by simp
next
  case (txn_failed t x msg)
  then show thesis using lost run_guarded_at [OF key \<open>guarded key req = Some (t, x)\<close>] calm_guarded [OF \<open>guarded key req = Some (t, x)\<close>] by auto
next
  case (looked f)
  then show thesis using served by simp
next
  case (look_failed f msg)
  then show thesis using lost by simp
qed (use refused in auto)

section \<open>The invariant\<close>

definition clients_inv :: "string \<Rightarrow> (nat \<Rightarrow> 'x request) \<Rightarrow> bytes option \<Rightarrow> 'x clients \<Rightarrow> bool" where
  "clients_inv key req v0 c \<longleftrightarrow>
     space c ZeroByte \<noteq> Some ZeroByte \<and>
     (\<forall>i j. in_section (stage c i) \<longrightarrow> in_section (stage c j) \<longrightarrow> i = j) \<and>
     (\<forall>i. in_section (stage c i) \<longrightarrow> space c (getLockName key) = Some ZeroByte) \<and>
     (\<forall>i. well_decided (req i) (space c (StringToBytes key)) (stage c i)) \<and>
     space c (StringToBytes key) = serial req v0 (history c) \<and>
     distinct (history c) \<and>
     (\<forall>i\<in>set (history c). \<exists>out. stage c i = Replied out \<or> stage c i = Failed out) \<and>
     (\<forall>i out. stage c i = Replied out \<longrightarrow> (\<exists>before after.
        history c = before @ i # after \<and> out = answer (req i) (serial req v0 before)))"

lemma inv_started:
  "m ZeroByte \<noteq> Some ZeroByte \<Longrightarrow> clients_inv key req (m (StringToBytes key)) (started m)"
  by (simp add: clients_inv_def started_def)

lemma well_decided_outside: "\<not> in_section p \<Longrightarrow> well_decided req v p"
  by (cases p) simp_all

lemma in_section_reply: "in_section p \<Longrightarrow> reply p = None"
  by (cases p) simp_all

lemma not_in_history: "clients_inv key req v0 c \<Longrightarrow> reply (stage c i) = None \<Longrightarrow> i \<notin> set (history c)"
  unfolding clients_inv_def by (metis option.distinct(1) reply.simps(2,3))

text \<open>A client that moves without ending: it alone changes, and the key does not.\<close>

lemma inv_move:
  assumes inv: "clients_inv key req v0 c" and moves: "reply (stage c i) = None" "reply p' = None"
    and key: "m' (StringToBytes key) = space c (StringToBytes key)" "m' ZeroByte = space c ZeroByte"
    and lock: "m' (getLockName key) = Some ZeroByte" and alone: "\<And>j. in_section (stage c j) \<Longrightarrow> j = i"
    and d: "well_decided (req i) (space c (StringToBytes key)) p'"
  shows "clients_inv key req v0 \<lparr>space = m', stage = (stage c)(i := p'), history = history c\<rparr>"
proof -
  have "\<forall>out. p' \<noteq> Replied out" using moves(2) by auto
  moreover have "i \<notin> set (history c)" using not_in_history [OF inv moves(1)] .
  ultimately show ?thesis using inv key lock alone d unfolding clients_inv_def by auto
qed

text \<open>A client that ends.\<close>

lemma inv_end:
  assumes inv: "clients_inv key req v0 c" and ends: "reply (stage c i) = None" "reply p' \<noteq> None"
    and zero: "m' ZeroByte = space c ZeroByte"
    and content: "m' (StringToBytes key) = serial req v0 h" and h: "h = history c \<or> h = history c @ [i] \<and> p' \<noteq> Refused"
    and calm: "in_section (stage c i) \<or> calm key (space c) m'"
    and out: "\<And>out. p' = Replied out \<Longrightarrow> h = history c @ [i] \<and> out = answer (req i) (serial req v0 (history c))"
  shows "clients_inv key req v0 \<lparr>space = m', stage = (stage c)(i := p'), history = h\<rparr>"
proof -
  let ?k = "StringToBytes key" and ?st = "(stage c)(i := p')"
  note i = not_in_history [OF inv ends(1)]
  have out_p: "\<not> in_section p'" using in_section_reply ends(2) by metis
  then have ins: "in_section (?st j) \<longleftrightarrow> j \<noteq> i \<and> in_section (stage c j)" for j by simp
  have still: "m' (getLockName key) = Some ZeroByte \<and> m' ?k = space c ?k" if "in_section (?st j)" for j
  proof -
    from that ins have j: "j \<noteq> i" "in_section (stage c j)" by simp_all
    with inv have "\<not> in_section (stage c i)" and lock: "space c (getLockName key) = Some ZeroByte"
      unfolding clients_inv_def by blast+
    with calm show ?thesis by (simp add: calm_def)
  qed
  have decided: "well_decided (req j) (m' ?k) (?st j)" for j
  proof (cases "in_section (?st j)")
    case True
    with ins have "j \<noteq> i" by blast
    moreover have "well_decided (req j) (space c ?k) (stage c j)" using inv unfolding clients_inv_def by blast
    ultimately show ?thesis using still [OF True] by simp
  qed (rule well_decided_outside)
  have dist: "distinct h" and over: "\<forall>j\<in>set h. \<exists>out. ?st j = Replied out \<or> ?st j = Failed out"
    using inv h i ends(2) unfolding clients_inv_def by (cases p'; auto)+
  have replies: "\<exists>before after. h = before @ j # after \<and> r = answer (req j) (serial req v0 before)"
    if "?st j = Replied r" for j r
  proof (cases "j = i")
    case True
    with that out [of r] show ?thesis by auto
  next
    case False
    with that inv obtain before after where "history c = before @ j # after" "r = answer (req j) (serial req v0 before)"
      unfolding clients_inv_def by (metis fun_upd_other)
    then show ?thesis using h by (metis append.assoc append_Cons)
  qed
  have mutex: "\<forall>a b. in_section (?st a) \<longrightarrow> in_section (?st b) \<longrightarrow> a = b" and z: "m' ZeroByte \<noteq> Some ZeroByte"
    using inv unfolding ins zero clients_inv_def by blast+
  show ?thesis unfolding clients_inv_def clients.simps
    using mutex z still content decided dist over replies by blast
qed

lemma inv_step:
  assumes inv: "clients_inv key req v0 c" and key: "\<not> invalid_key key" and careful: "\<And>i. cautious (req i)"
    and step: "clients_step key req c c'"
  shows "clients_inv key req v0 c'"
  using step
proof cases
  case (Elsewhere m')
  then have same: "m' (StringToBytes key) = space c (StringToBytes key)"
      "m' (getLockName key) = space c (getLockName key)" "m' ZeroByte = space c ZeroByte" by simp_all
  show ?thesis using inv unfolding Elsewhere(1) clients_inv_def by (elim conjE, intro conjI) (simp_all add: same)
next
  case (Move i m' p')
  let ?k = "StringToBytes key"
  have zero: "space c ZeroByte \<noteq> Some ZeroByte" and content: "space c ?k = serial req v0 (history c)"
    and decided: "well_decided (req i) (space c ?k) (stage c i)"
    and locked: "\<And>j. in_section (stage c j) \<Longrightarrow> space c (getLockName key) = Some ZeroByte"
    and mutex: "\<And>j. in_section (stage c i) \<Longrightarrow> in_section (stage c j) \<Longrightarrow> j = i"
    using inv unfolding clients_inv_def by blast+
  from Move(2) key zero careful decided show ?thesis
  proof (cases rule: own_step_kinds)
    case enters
    then have t: "\<not> takes_effect key (space c) m' p'" by (simp add: takes_effect_def)
    have none: "\<not> in_section (stage c j)" for j using enters(3) locked by blast
    show ?thesis unfolding Move(1) if_not_P [OF t]
      by (rule inv_move [OF inv]) (use enters none in simp_all)
  next
    case (decides ok d)
    then have t: "\<not> takes_effect key (space c) m' p'" by (simp add: takes_effect_def)
    have i: "in_section (stage c i)" using decides(1) by simp
    show ?thesis unfolding Move(1) if_not_P [OF t]
      by (rule inv_move [OF inv]) (use decides locked [OF i] mutex [OF i] in simp_all)
  next
    case (served out)
    then have t: "takes_effect key (space c) m' p'" by (simp add: takes_effect_def)
    show ?thesis unfolding Move(1) if_P [OF t]
      by (rule inv_end [OF inv served(2)]) (use served(1,3-6) content in simp_all)
  next
    case (lost out)
    then have "m' ?k = serial req v0 (if takes_effect key (space c) m' p' then history c @ [i] else history c)"
      using content by (auto simp: takes_effect_def)
    moreover have "reply p' \<noteq> None" "p' \<noteq> Refused" "\<And>out. p' \<noteq> Replied out" using lost(1) by simp_all
    ultimately show ?thesis unfolding Move(1)
      using inv_end [OF inv lost(2), where p' = p' and m' = m' and
        h = "if takes_effect key (space c) m' p' then history c @ [i] else history c"] lost(4,5) by presburger
  next
    case refused
    then have t: "\<not> takes_effect key (space c) m' p'" by (simp add: takes_effect_def)
    show ?thesis unfolding Move(1) if_not_P [OF t]
      by (rule inv_end [OF inv]) (use refused content in simp_all)
  qed
qed

section \<open>The order of the requests\<close>

text \<open>What is in the history stays, and only clients that were not answered yet join it.\<close>

lemma history_step:
  "clients_step key req c c' \<Longrightarrow> \<exists>later. history c' = history c @ later \<and> (\<forall>j\<in>set later. reply (stage c j) = None) \<and>
     (\<forall>j. reply (stage c j) \<noteq> None \<longrightarrow> stage c' j = stage c j)"
proof (induction rule: clients_step.induct)
  case (Move i c m' p')
  from Move have "reply (stage c i) = None" by cases simp_all
  then show ?case by auto
qed auto

lemma history_steps:
  assumes "rtranclp (clients_step key req) c c'"
  shows "\<exists>later. history c' = history c @ later \<and> (\<forall>j\<in>set later. reply (stage c j) = None) \<and>
     (\<forall>j. reply (stage c j) \<noteq> None \<longrightarrow> stage c' j = stage c j)"
  using assms
proof induction
  case (step c1 c2)
  from history_step [OF step.hyps(2)] step.IH show ?case by auto (metis option.distinct(1) option.exhaust)
qed simp

lemma inv_steps:
  assumes "\<not> invalid_key key" and "\<And>i. cautious (req i)"
    and "clients_inv key req v0 c" and "rtranclp (clients_step key req) c c'"
  shows "clients_inv key req v0 c'"
  using assms(4,3) by induction (auto intro: inv_step [OF _ assms(1,2)])

text \<open>
  C1. Clients with requests on one key (the in-place updates, \<open>Set\<close>, \<open>Delete\<close> and reads),
  any number of them, their etcd calls interleaved in any order with each other and with
  requests on other keys, and etcd failing any call before or after its effect: at most one
  client is between its lock and its release; the key holds what the requests that took
  effect make of its first value one after the other; each appears once in that order; every
  answer given without an etcd error is the one its request gets at its place in the order;
  and a request answered before another took effect comes before it.
\<close>

theorem requests_are_linearizable:
  assumes "\<not> invalid_key key" and "m0 ZeroByte \<noteq> Some ZeroByte" and "\<And>i. cautious (req i)"
    and "rtranclp (clients_step key req) (started m0) c" and "rtranclp (clients_step key req) c c'"
  shows "(\<forall>i j. in_section (stage c' i) \<and> in_section (stage c' j) \<longrightarrow> i = j) \<and>
    space c' (StringToBytes key) = serial req (m0 (StringToBytes key)) (history c') \<and>
    distinct (history c') \<and> (\<forall>i\<in>set (history c'). \<exists>out. stage c' i = Replied out \<or> stage c' i = Failed out) \<and>
    (\<forall>i out. stage c' i = Replied out \<longrightarrow> (\<exists>before after. history c' = before @ i # after \<and>
       out = answer (req i) (serial req (m0 (StringToBytes key)) before))) \<and>
    (\<exists>later. history c' = history c @ later \<and> (\<forall>j\<in>set later. reply (stage c j) = None))"
proof -
  from assms(4,5) have "rtranclp (clients_step key req) (started m0) c'" by (rule rtranclp_trans)
  with inv_steps [OF assms(1,3) inv_started [of m0 key req, OF assms(2)]]
  have "clients_inv key req (m0 (StringToBytes key)) c'" by blast
  then show ?thesis using history_steps [OF assms(5)] unfolding clients_inv_def by blast
qed

text \<open>The updates of the server are cautious.\<close>

lemma cautious_requests [simp]:
  "cautious (Update (increment_int C n))" "cautious (Update (increment_float C x))"
  "cautious (Update (list_insert C i v))" "cautious (Update (list_append C v))" "cautious (Update (list_limit C i))"
  "cautious (Update (list_set C i v))" "cautious (Update (list_delete C i))" "cautious (Update (list_delete_item C v))"
  "cautious (Update (list_pop C pop))" "cautious (Update (hash_set C es))" "cautious (Update (hash_delete C f))"
  "cautious (Put b y)" "cautious (Erase y)" "cautious (Look g)"
  by (auto simp: cautious_def increment_int_def increment_float_def list_insert_def list_append_def list_limit_def list_set_def
      list_delete_def list_delete_item_def list_pop_def hash_set_def hash_delete_def if_missing_def Let_def)

text \<open>The witness: a read between the lock and the write of an update comes before it.\<close>

definition demo_requests :: "nat \<Rightarrow> unit request" where
  "demo_requests i = (if i = 0 then Update (list_append memory_codec [1]) else Look (\<lambda>r. Some (map_sum id (\<lambda>_. ()) r)))"

lemma demo_append: "\<exists>b. list_append memory_codec [1] (Inl ErrKeyNotFound) = Commit b ()"
  by (simp add: list_append_def if_missing_def newList_def enforceListLimit_def or_crash_def write_list_def memory_codec_def)

lemma three_steps: "r a b \<Longrightarrow> r b c \<Longrightarrow> r c d \<Longrightarrow> rtranclp r a d"
  by ((rule converse_rtranclp_into_rtranclp, assumption)+, rule rtranclp.rtrancl_refl)

lemma four_steps: "r a b \<Longrightarrow> r b c \<Longrightarrow> r c d \<Longrightarrow> r d e \<Longrightarrow> rtranclp r a e"
  by ((rule converse_rtranclp_into_rtranclp, assumption)+, rule rtranclp.rtrancl_refl)

lemma demo_requests_run:
  "\<exists>c. rtranclp (clients_step ''k'' demo_requests) (started Map.empty) c \<and> history c = [1, 0] \<and>
     stage c 1 = Replied (Err ErrKeyNotFound)"
proof -
  let ?S = "clients_step ''k'' demo_requests" and ?k = "StringToBytes ''k''" and ?l = "getLockName ''k''"
  let ?d = "list_append memory_codec [1] (Inl ErrKeyNotFound)"
  obtain b where d: "?d = Commit b ()" using demo_append by blast
  note keys = distinct_keys [OF invalid_key_k]
  let ?c0 = "started Map.empty :: unit clients"
  let ?c1 = "\<lparr>space = [?l \<mapsto> ZeroByte], stage = (\<lambda>_. Wanting)(0 := Holding), history = []\<rparr>"
  let ?c2 = "\<lparr>space = [?l \<mapsto> ZeroByte], stage = (\<lambda>_. Wanting)(0 := Holding, 1 := Replied (Err ErrKeyNotFound)), history = [1]\<rparr>"
  let ?c3 = "\<lparr>space = [?l \<mapsto> ZeroByte], stage = (\<lambda>_. Wanting)(0 := Holding, 1 := Replied (Err ErrKeyNotFound), 0 := Settled True ?d), history = [1]\<rparr>"
  let ?c4 = "\<lparr>space = [?k \<mapsto> b], stage = (\<lambda>_. Wanting)(0 := Holding, 1 := Replied (Err ErrKeyNotFound), 0 := Settled True ?d, 0 := Replied (Ok ())),
    history = [1, 0]\<rparr>"
  have "own_step ''k'' (demo_requests 0) Map.empty Wanting [?l \<mapsto> ZeroByte] Holding"
    using own_step.lock_taken [of "demo_requests 0" _ Map.empty "''k''"]
    by (simp add: demo_requests_def lock_txn_def run_txn_def txn_branch_def)
  then have 1: "?S ?c0 ?c1"
    using clients_step.Move [of "''k''" demo_requests 0 ?c0] by (force simp: started_def takes_effect_def keys)
  have "own_step ''k'' (demo_requests 1) [?l \<mapsto> ZeroByte] Wanting [?l \<mapsto> ZeroByte] (Replied (Err ErrKeyNotFound))"
    using own_step.looked [of "demo_requests 1" _ "''k''" "[?l \<mapsto> ZeroByte]"]
    by (simp add: demo_requests_def value_read_def outcome_of_def keys)
  then have 2: "?S ?c1 ?c2"
    using clients_step.Move [of "''k''" demo_requests 1 ?c1] by (force simp: takes_effect_def)
  have "own_step ''k'' (demo_requests 0) [?l \<mapsto> ZeroByte] Holding [?l \<mapsto> ZeroByte] (Settled True ?d)"
    using own_step.read [of "demo_requests 0" _ "''k''" "[?l \<mapsto> ZeroByte]"]
    by (simp add: demo_requests_def value_read_def keys)
  then have 3: "?S ?c2 ?c3"
    using clients_step.Move [of "''k''" demo_requests 0 ?c2] by (force simp: takes_effect_def)
  have "own_step ''k'' (demo_requests 0) [?l \<mapsto> ZeroByte] (Settled True ?d) [?k \<mapsto> b] (Replied (Ok ()))"
    using own_step.written [of "''k''" "demo_requests 0" "[?l \<mapsto> ZeroByte]" True b "()"]
    by (simp add: d over_def run_unlock_set_txn keys)
  then have 4: "?S ?c3 ?c4"
    using clients_step.Move [of "''k''" demo_requests 0 ?c3 "[?k \<mapsto> b]" "Replied (Ok ())"] by (simp add: takes_effect_def)
  have "rtranclp ?S ?c0 ?c4"
    by (rule four_steps [where r = ?S, OF 1 2 3 4])
  moreover have "history ?c4 = [1, 0]" "stage ?c4 1 = Replied (Err ErrKeyNotFound)" by simp_all
  ultimately show ?thesis by blast
qed

theorem requests_are_linearizable_witness:
  "\<exists>c :: unit clients. history c = [1, 0] \<and> stage c 1 = Replied (Err ErrKeyNotFound) \<and>
     space c (StringToBytes ''k'') = serial demo_requests None [1, 0] \<and>
     (\<exists>before after. [1, 0] = before @ 1 # after \<and> Err ErrKeyNotFound = answer (demo_requests 1) (serial demo_requests None before))"
proof -
  obtain c where c: "rtranclp (clients_step ''k'' demo_requests) (started Map.empty) c" "history c = [1, 0]"
    "stage c 1 = Replied (Err ErrKeyNotFound)" using demo_requests_run by blast
  have careful: "cautious (demo_requests i)" for i by (simp add: demo_requests_def)
  from requests_are_linearizable [OF invalid_key_k _ careful rtranclp.rtrancl_refl c(1)] c(2,3)
  have "space c (StringToBytes ''k'') = serial demo_requests None [1, 0]"
    and all: "\<forall>i out. stage c i = Replied out \<longrightarrow> (\<exists>before after. [1, 0] = before @ i # after \<and>
       out = answer (demo_requests i) (serial demo_requests None before))" by simp_all
  moreover from all [rule_format, OF c(3)] have "\<exists>before after. [1, 0] = before @ 1 # after \<and>
      Err ErrKeyNotFound = answer (demo_requests 1) (serial demo_requests None before)" .
  ultimately show ?thesis using c(2,3) by (intro exI [of _ c]) simp
qed

end
