(* ===== verification/Concurrent_Lists.thy ===== *)
theory Concurrent_Lists
  imports Serial
begin

text \<open>
  Many clients working on one list: the list operations as requests, what they keep of the
  list's type however they are interleaved, and the list as a queue between clients.
\<close>

section \<open>The list operations as requests\<close>

datatype list_answer = No_Value | Item pb_ByteValue | Position pb_IntValue | Entire pb_List

datatype list_op =
    Insert int64 bytes
  | Append bytes
  | Limit int64
  | Assign int64 bytes
  | Delete_At int64
  | Delete_Value bytes
  | Pop_Left
  | Pop_Right
  | Count
  | Replace pb_List
  | Whole
  | Item_At int64
  | Index_Of bytes

definition updating :: "('x \<Rightarrow> 'y) \<Rightarrow> 'x choice \<Rightarrow> 'y request" where
  "updating g d = Update (\<lambda>r. map_decision g (d r))"

text \<open>A look at the list that takes no lock; \<open>None\<close> is a panic.\<close>

definition looking :: "codec \<Rightarrow> (pb_List \<Rightarrow> (go_error + 'x) option) \<Rightarrow> 'x request" where
  "looking C g = Look (\<lambda>r. case typed (decode_list C) r of Inl e \<Rightarrow> Some (Inl e) | Inr lst \<Rightarrow> g lst)"

definition position :: "int64 \<Rightarrow> list_answer" where
  "position i = Position \<lparr>IntValue_Key = [], IntValue_Value = i\<rparr>"

text \<open>The item of \<open>GetListItem\<close>, with its two corrections of the index.\<close>

definition item_at :: "int64 \<Rightarrow> pb_List \<Rightarrow> (go_error + list_answer) option" where
  "item_at i lst = (let len = len64 (List_Value lst) in
     if len = 0 then Some (Inl ErrListEmpty)
     else map_option (\<lambda>b. Inr (Item (newByteValue b))) (index_item (List_Value lst) (clamp_index len i)))"

text \<open>A list that cannot be encoded is not stored; \<open>SetList\<close> reads nothing.\<close>

fun list_request :: "codec \<Rightarrow> list_op \<Rightarrow> list_answer request" where
  "list_request C (Insert i v) = updating (\<lambda>_. No_Value) (list_insert C i v)"
| "list_request C (Append v) = updating (\<lambda>_. No_Value) (list_append C v)"
| "list_request C (Limit i) = updating (\<lambda>_. No_Value) (list_limit C i)"
| "list_request C (Assign i v) = updating (\<lambda>_. No_Value) (list_set C i v)"
| "list_request C (Delete_At i) = updating (\<lambda>_. No_Value) (list_delete C i)"
| "list_request C (Delete_Value v) = updating Position (list_delete_item C v)"
| "list_request C Pop_Left = updating Item (list_pop C pop_left)"
| "list_request C Pop_Right = updating Item (list_pop C pop_right)"
| "list_request C Count = looking C (\<lambda>lst. Some (Inr (position (len64 (List_Value lst)))))"
| "list_request C (Replace lst) = (case MarshalList C (lst\<lparr>List_Key := []\<rparr>) of
     Inl msg \<Rightarrow> Look (\<lambda>_. Some (Inl (Other msg)))
   | Inr b \<Rightarrow> Put b No_Value)"
| "list_request C Whole = looking C (\<lambda>lst. Some (Inr (Entire lst)))"
| "list_request C (Item_At i) = looking C (item_at i)"
| "list_request C (Index_Of v) = Look (\<lambda>r. Some (case typed (decode_list C) r of
     Inl e \<Rightarrow> if e = ErrKeyNotFound then Inr (position (- 1)) else Inl e
   | Inr lst \<Rightarrow> Inr (position (find_index v 0 (List_Value lst)))))"

text \<open>The handlers they stand for.\<close>

definition answering :: "('x \<Rightarrow> 'y) \<Rightarrow> ('s, 'x) handler \<Rightarrow> ('s, 'y) handler" where
  "answering g m = and_then m (\<lambda>x. ret (g x))"

fun list_handler :: "'s etcd \<Rightarrow> codec \<Rightarrow> go_context \<Rightarrow> string \<Rightarrow> list_op \<Rightarrow> ('s, list_answer) handler" where
  "list_handler E C ctx k (Insert i v) =
     answering (\<lambda>_. No_Value) (ListInsert E C ctx \<lparr>ListItem_Key = k, ListItem_Index = i, ListItem_Value = v\<rparr>)"
| "list_handler E C ctx k (Append v) =
     answering (\<lambda>_. No_Value) (ListAppend E C ctx \<lparr>ListItem_Key = k, ListItem_Index = 0, ListItem_Value = v\<rparr>)"
| "list_handler E C ctx k (Limit i) =
     answering (\<lambda>_. No_Value) (ListLimit E C ctx \<lparr>ListItem_Key = k, ListItem_Index = i, ListItem_Value = []\<rparr>)"
| "list_handler E C ctx k (Assign i v) =
     answering (\<lambda>_. No_Value) (SetListItem E C ctx \<lparr>ListItem_Key = k, ListItem_Index = i, ListItem_Value = v\<rparr>)"
| "list_handler E C ctx k (Delete_At i) =
     answering (\<lambda>_. No_Value) (ListDelete E C ctx \<lparr>ListItem_Key = k, ListItem_Index = i, ListItem_Value = []\<rparr>)"
| "list_handler E C ctx k (Delete_Value v) =
     answering Position (ListDeleteItem E C ctx \<lparr>ListItem_Key = k, ListItem_Index = 0, ListItem_Value = v\<rparr>)"
| "list_handler E C ctx k Pop_Left = answering Item (ListPopLeft E C ctx (newKey k))"
| "list_handler E C ctx k Pop_Right = answering Item (ListPopRight E C ctx (newKey k))"
| "list_handler E C ctx k Count = answering Position (ListLength E C (newKey k))"
| "list_handler E C ctx k (Replace lst) = answering (\<lambda>_. No_Value) (SetList E C ctx (lst\<lparr>List_Key := k\<rparr>))"
| "list_handler E C ctx k Whole = answering Entire (GetList E C (newKey k))"
| "list_handler E C ctx k (Item_At i) =
     answering Item (GetListItem E C \<lparr>ListItem_Key = k, ListItem_Index = i, ListItem_Value = []\<rparr>)"
| "list_handler E C ctx k (Index_Of v) =
     answering Position (ListHas E C \<lparr>ListItem_Key = k, ListItem_Index = 0, ListItem_Value = v\<rparr>)"

lemma finish_map: "finish (map_sum id g r) = answering g (finish r)"
  by (cases r) (simp_all add: answering_def)

lemma conclude_map: "conclude E ctx k (map_decision g d) = answering g (conclude E ctx k d)"
  by (cases d) (simp_all add: conclude_def and_then_assoc finish_map, simp_all add: answering_def and_then_assoc)

lemma updating_handler: "request_handler E ctx k (updating g d) = answering g (update E ctx (newKey k) d)"
  by (simp add: request_handler_def updating_def update_def answering_def and_then_assoc conclude_map)

lemma looking_handler:
  "request_handler E ctx k (looking C g) = and_then (GetList E C (newKey k)) (\<lambda>lst. look_finish (g lst))"
proof -
  have "and_then (attempt m) (\<lambda>r. look_finish (case typed d r of Inl e \<Rightarrow> Some (Inl e) | Inr y \<Rightarrow> g y)) =
      and_then (and_then m (\<lambda>x. case d x of Inl e \<Rightarrow> throw e | Inr y \<Rightarrow> ret y)) (\<lambda>y. look_finish (g y))"
    for m :: "('a, pb_ByteValue) handler" and d
    by (auto simp: fun_eq_iff and_then_def attempt_def ret_def throw_def look_finish_def finish_def
        split: prod.split outcome.split sum.split)
  then show ?thesis by (simp add: request_handler_def looking_def GetList_def decode_list_def [symmetric])
qed

lemma index_of_handler:
  "and_then (attempt (Get E k)) (\<lambda>r. look_finish (Some (case typed (decode_list C) r of
      Inl e \<Rightarrow> if e = ErrKeyNotFound then Inr (position (- 1)) else Inl e
    | Inr lst \<Rightarrow> Inr (position (find_index v 0 (List_Value lst)))))) =
   answering Position (and_then (attempt (GetList E C k)) (\<lambda>r. case r of
       Inl err \<Rightarrow> if err = ErrKeyNotFound then ret \<lparr>IntValue_Key = [], IntValue_Value = - 1\<rparr> else throw err
     | Inr lst \<Rightarrow> ret \<lparr>IntValue_Key = [], IntValue_Value = find_index v 0 (List_Value lst)\<rparr>))"
  by (auto simp: fun_eq_iff GetList_def decode_list_def and_then_def attempt_def answering_def ret_def throw_def look_finish_def
      finish_def position_def split: prod.split outcome.split sum.split)

lemma item_at_finish:
  "look_finish (item_at i lst) = answering Item (let len = len64 (List_Value lst) in
     if len = 0 then throw ErrListEmpty
     else or_panic (index_item (List_Value lst) (clamp_index len i)) (\<lambda>b. ret (newByteValue b)))"
  by (auto simp: fun_eq_iff item_at_def Let_def look_finish_def answering_def and_then_def throw_def ret_def panic_def or_panic_def
      split: option.split)

text \<open>The list operations of the server are these requests.\<close>

lemma list_handler_request:
  assumes "proto_ok C"
  shows "list_handler E C ctx k op = request_handler E ctx k (list_request C op)"
proof (cases op)
  case Pop_Left
  then show ?thesis
    using pop_update [of "newKey k" E C ctx pop_left] by (simp add: updating_handler ListPopLeft_def newKey_def)
next
  case Pop_Right
  then show ?thesis
    using pop_update [of "newKey k" E C ctx pop_right] by (simp add: updating_handler ListPopRight_def newKey_def)
next
  case Count
  then show ?thesis
    by (simp add: looking_handler ListLength_def answering_def and_then_assoc look_finish_def position_def)
next
  case (Replace lst)
  obtain b where "MarshalList C (lst\<lparr>List_Key := []\<rparr>) = Inr b" using assms by (rule MarshalList_ok)
  then show ?thesis by (simp add: Replace SetList_def request_handler_def answering_def)
next
  case Whole
  then show ?thesis by (simp add: looking_handler answering_def look_finish_def)
next
  case (Item_At i)
  have "and_then m (\<lambda>lst. look_finish (item_at i lst)) = answering Item (and_then m (\<lambda>lst. let len = len64 (List_Value lst) in
     if len = 0 then throw ErrListEmpty
     else or_panic (index_item (List_Value lst) (clamp_index len i)) (\<lambda>b. ret (newByteValue b))))" for m :: "('a, pb_List) handler"
    unfolding item_at_finish by (simp add: answering_def and_then_assoc)
  then show ?thesis
    unfolding Item_At list_request.simps list_handler.simps looking_handler GetListItem_def pb_ListItem.select_convs by (rule sym)
next
  case (Index_Of v)
  show ?thesis
    unfolding Index_Of list_request.simps list_handler.simps request_handler_def request.case index_of_handler ListHas_def
      pb_ListItem.select_convs by (rule refl)
qed (simp_all add: updating_handler list_updates)

section \<open>The type of a list key\<close>

text \<open>
  A key is well typed for lists when it is missing or holds an encoded list whose limit is
  not negative.  \<open>items\<close> are the items of the list, none for a missing key.
\<close>

definition list_of :: "codec \<Rightarrow> bytes option \<Rightarrow> go_error + pb_List" where
  "list_of C v = typed (decode_list C) (value_read v)"

definition list_typed :: "codec \<Rightarrow> bytes option \<Rightarrow> bool" where
  "list_typed C v \<longleftrightarrow> (case list_of C v of Inl _ \<Rightarrow> v = None | Inr lst \<Rightarrow> 0 \<le> sint (List_Limit lst))"

definition items :: "codec \<Rightarrow> bytes option \<Rightarrow> bytes list" where
  "items C v = (case list_of C v of Inl _ \<Rightarrow> [] | Inr lst \<Rightarrow> List_Value lst)"

text \<open>
  The answers an operation may get.  Only the operations that index the list where they are
  told to may panic, and the errors are those about the list, never one about its type.
\<close>

fun answer_typed :: "list_op \<Rightarrow> list_answer \<Rightarrow> bool" where
  "answer_typed Pop_Left x \<longleftrightarrow> (\<exists>b. x = Item b)"
| "answer_typed Pop_Right x \<longleftrightarrow> (\<exists>b. x = Item b)"
| "answer_typed (Delete_Value v) x \<longleftrightarrow> (\<exists>n. x = Position n)"
| "answer_typed Count x \<longleftrightarrow> (\<exists>n. x = Position n)"
| "answer_typed Whole x \<longleftrightarrow> (\<exists>lst. x = Entire lst)"
| "answer_typed (Item_At i) x \<longleftrightarrow> (\<exists>b. x = Item b)"
| "answer_typed (Index_Of v) x \<longleftrightarrow> (\<exists>n. x = Position n)"
| "answer_typed op x \<longleftrightarrow> x = No_Value"

fun outcome_typed :: "list_op \<Rightarrow> (go_error, list_answer) outcome \<Rightarrow> bool" where
  "outcome_typed op (Ok x) \<longleftrightarrow> answer_typed op x"
| "outcome_typed op (Err e) \<longleftrightarrow> e \<in> {ErrKeyNotFound, ErrListEmpty, ErrListIndexOutOfRange}"
| "outcome_typed op Panic \<longleftrightarrow> (\<exists>i v. op = Assign i v \<or> op = Delete_At i \<or> op = Item_At i)"
| "outcome_typed op Hang \<longleftrightarrow> False"

text \<open>A list put in place of the old one, as a well-behaved client does it.\<close>

fun fair_op :: "nat \<Rightarrow> list_op \<Rightarrow> bool" where
  "fair_op n (Replace lst) \<longleftrightarrow> 0 \<le> sint (List_Limit lst) \<and> length (List_Value lst) \<le> n"
| "fair_op n _ \<longleftrightarrow> True"

text \<open>What a well-typed decision commits to and answers; \<open>n\<close> bounds the length of the list.\<close>

fun decision_typed :: "codec \<Rightarrow> list_op \<Rightarrow> nat \<Rightarrow> list_answer decision \<Rightarrow> bool" where
  "decision_typed C op n (Commit b x) \<longleftrightarrow> answer_typed op x \<and>
     (\<exists>lst. UnmarshalList C b = Inr lst \<and> 0 \<le> sint (List_Limit lst) \<and> length (List_Value lst) \<le> n)"
| "decision_typed C op n (Give_up r) \<longleftrightarrow> outcome_typed op (outcome_of r)"
| "decision_typed C op n (Leave_locked r) \<longleftrightarrow> outcome_typed op (outcome_of r)"
| "decision_typed C op n Crash \<longleftrightarrow> outcome_typed op Panic"

lemma outcome_of_simps [simp]: "outcome_of (Inl e) = Err e" "outcome_of (Inr x) = Ok x"
  by (simp_all add: outcome_of_def)

lemma write_list_typed:
  assumes "proto_ok C" and "0 \<le> sint (List_Limit lst)" and "length (List_Value lst) \<le> n" and "answer_typed op (g x)"
  shows "decision_typed C op n (map_decision g (write_list C lst x))"
proof -
  obtain b where "MarshalList C (lst\<lparr>List_Key := []\<rparr>) = Inr b" "UnmarshalList C b = Inr (lst\<lparr>List_Key := []\<rparr>)"
    using assms(1) by (rule MarshalList_ok)
  then show ?thesis using assms(2-4) by (simp add: write_list_def)
qed

text \<open>The list an operation reads, from a well-typed key.\<close>

lemma list_read_cases:
  assumes "list_typed C v"
  obtains (missing) "value_read v = Inl ErrKeyNotFound" "typed (decode_list C) (value_read v) = Inl ErrKeyNotFound" "items C v = []"
    | (present) lst where "typed (decode_list C) (value_read v) = Inr lst" "0 \<le> sint (List_Limit lst)" "items C v = List_Value lst"
proof (cases v)
  case None
  then show thesis using missing by (simp add: items_def list_of_def value_read_def)
next
  case (Some b)
  with assms show thesis using present by (auto simp: list_typed_def list_of_def items_def split: sum.splits)
qed

lemma list_or_new:
  assumes "list_typed C v"
  obtains lst where "if_missing (newList []) (list_of C v) = Inr lst" "0 \<le> sint (List_Limit lst)" "List_Value lst = items C v"
  using assms
proof (cases rule: list_read_cases)
  case missing
  then show thesis using that [of "newList []"] by (simp add: list_of_def if_missing_def newList_def)
next
  case (present lst)
  then show thesis using that [of lst] by (simp add: list_of_def if_missing_def)
qed

lemma length_keep_last: "length (keep_last n xs) \<le> length xs"
  by (simp add: keep_last_def)

lemma limited_typed:
  assumes "proto_ok C" and "go_slice vs" and "0 \<le> sint (List_Limit lst)" and "answer_typed op (g x)"
  shows "decision_typed C op (length vs)
    (map_decision g (or_crash (enforceListLimit (lst\<lparr>List_Value := vs\<rparr>)) (\<lambda>lst. write_list C lst x)))"
proof -
  have "enforceListLimit (lst\<lparr>List_Value := vs\<rparr>) = Some (lst\<lparr>List_Value := keep_last (List_Limit lst) vs\<rparr>)"
    using enforceListLimit_nonneg [of "lst\<lparr>List_Value := vs\<rparr>"] assms(2,3) by simp
  then show ?thesis
    using write_list_typed [OF assms(1), of "lst\<lparr>List_Value := keep_last (List_Limit lst) vs\<rparr>" "length vs" op g x]
      assms(3,4) length_keep_last [of "List_Limit lst" vs] by (simp add: or_crash_def)
qed

lemma slice_copy_length: "slice_copy xs d s = Some ys \<Longrightarrow> length ys = length xs"
  by (auto simp: slice_copy_def slice_from_def Let_def split: option.splits if_splits)

lemma delete_item_length: "delete_item i xs = Some ys \<Longrightarrow> length ys \<le> length xs"
  by (auto simp: delete_item_def slice_set_def slice_to_def dest!: slice_copy_length split: option.splits if_splits)

lemma shorter_le: "length (tl xs) \<le> Suc (length xs)" "length (butlast xs) \<le> Suc (length xs)"
  by (cases xs; simp)+

lemma pop_left_some: "go_slice xs \<Longrightarrow> xs \<noteq> [] \<Longrightarrow> pop_left xs = Some (hd xs, tl xs)"
  using pop_left_Cons by (cases xs) auto

lemma pop_right_some: "go_slice xs \<Longrightarrow> xs \<noteq> [] \<Longrightarrow> pop_right xs = Some (last xs, butlast xs)"
  using pop_right_snoc by (cases xs rule: rev_exhaust) auto

lemma pop_typed:
  assumes "proto_ok C" and "list_typed C v" and "op \<in> {Pop_Left, Pop_Right}"
    and "items C v \<noteq> [] \<Longrightarrow> pop (items C v) = Some (b, rest)" and "length rest \<le> n"
  shows "decision_typed C op n (map_decision Item (list_pop C pop (value_read v)))"
  using assms(2)
proof (cases rule: list_read_cases)
  case missing
  then show ?thesis by (simp add: list_pop_def)
next
  case (present lst)
  then show ?thesis
    using assms(3-5) write_list_typed [OF assms(1), of "lst\<lparr>List_Value := rest\<rparr>" n op Item "newByteValue b"]
    by (auto simp: list_pop_def or_crash_def)
qed

lemma list_op_typed:
  assumes C: "proto_ok C" and v: "list_typed C v" and size: "length (items C v) + 1 < 2 ^ 63"
    and req: "list_request C op = Update decide"
  shows "decision_typed C op (length (items C v) + 1) (decide (value_read v))"
proof (cases op)
  case (Insert i x)
  have d: "decide = (\<lambda>r. map_decision (\<lambda>_. No_Value) (list_insert C i x r))" using req Insert by (simp add: updating_def)
  obtain lst where lst: "if_missing (newList []) (list_of C v) = Inr lst" "0 \<le> sint (List_Limit lst)" "List_Value lst = items C v"
    using v by (rule list_or_new)
  let ?vs = "take (nat (sint (clip_index i))) (items C v) @ x # drop (nat (sint (clip_index i))) (items C v)"
  have "insert_item (clip_index i) x (items C v) = Some ?vs"
    by (rule insert_item_eq) (use size in \<open>simp_all add: go_slice_def clip_index_def\<close>)
  moreover have "length ?vs = length (items C v) + 1" by simp
  ultimately show ?thesis
    using limited_typed [OF C, of ?vs lst op "\<lambda>_. No_Value" "()"] lst size
    by (simp add: d Insert list_insert_def list_of_def or_crash_def go_slice_def)
next
  case (Append x)
  have d: "decide = (\<lambda>r. map_decision (\<lambda>_. No_Value) (list_append C x r))" using req Append by (simp add: updating_def)
  obtain lst where lst: "if_missing (newList []) (list_of C v) = Inr lst" "0 \<le> sint (List_Limit lst)" "List_Value lst = items C v"
    using v by (rule list_or_new)
  show ?thesis
    using limited_typed [OF C, of "items C v @ [x]" lst op "\<lambda>_. No_Value" "()"] lst size
    by (simp add: d Append list_append_def list_of_def go_slice_def)
next
  case (Limit i)
  have d: "decide = (\<lambda>r. map_decision (\<lambda>_. No_Value) (list_limit C i r))" using req Limit by (simp add: updating_def)
  from v show ?thesis
    by (cases rule: list_read_cases)
      (simp_all add: d Limit list_limit_def write_list_typed [OF C] clip_index_def)
next
  case (Assign i x)
  have d: "decide = (\<lambda>r. map_decision (\<lambda>_. No_Value) (list_set C i x r))" using req Assign by (simp add: updating_def)
  from v show ?thesis
    by (cases rule: list_read_cases)
      (auto simp: d Assign list_set_def Let_def or_crash_def slice_set_def write_list_typed [OF C] split: option.split)
next
  case (Delete_At i)
  have d: "decide = (\<lambda>r. map_decision (\<lambda>_. No_Value) (list_delete C i r))" using req Delete_At by (simp add: updating_def)
  from v show ?thesis
    by (cases rule: list_read_cases)
      (auto simp: d Delete_At list_delete_def Let_def or_crash_def write_list_typed [OF C] dest!: delete_item_length split: option.split)
next
  case (Delete_Value x)
  have d: "decide = (\<lambda>r. map_decision Position (list_delete_item C x r))" using req Delete_Value by (simp add: updating_def)
  from v show ?thesis
  proof (cases rule: list_read_cases)
    case (present lst)
    show ?thesis
    proof (cases "x \<in> set (items C v)")
      case True
      have go: "go_slice (items C v)" using size by (simp add: go_slice_def)
      obtain n where n: "find_index x 0 (items C v) = of_nat n" "n < length (items C v)"
        using find_index_first [OF go True] by blast
      have s: "sint (of_nat n :: int64) = int n" using n(2) size by (intro sint64_of_nat) simp
      have ne: "(of_nat n :: int64) \<noteq> - 1" using s by auto
      have del: "delete_item (of_nat n) (items C v) = Some (take n (items C v) @ drop (Suc n) (items C v))"
        using delete_item_eq [OF go, of "of_nat n"] n(2) by (simp add: s)
      show ?thesis using n ne del present write_list_typed [OF C, of "lst\<lparr>List_Value := take n (items C v) @ drop (Suc n) (items C v)\<rparr>"
          "length (items C v) + 1" op Position]
        by (simp add: d Delete_Value list_delete_item_def or_crash_def)
    next
      case False
      then have "find_index x 0 (items C v) = - 1" using find_index_range [of 0 "items C v" x] size by simp
      then show ?thesis using present by (simp add: d Delete_Value list_delete_item_def)
    qed
  qed (simp add: d Delete_Value list_delete_item_def)
next
  case Pop_Left
  have d: "decide = (\<lambda>r. map_decision Item (list_pop C pop_left r))" using req Pop_Left by (simp add: updating_def)
  show ?thesis unfolding d
    by (rule pop_typed [OF C v]) (use size shorter_le in \<open>simp_all add: Pop_Left pop_left_some go_slice_def del: length_tl\<close>)
next
  case Pop_Right
  have d: "decide = (\<lambda>r. map_decision Item (list_pop C pop_right r))" using req Pop_Right by (simp add: updating_def)
  show ?thesis unfolding d
    by (rule pop_typed [OF C v]) (use size shorter_le in \<open>simp_all add: Pop_Right pop_right_some go_slice_def del: length_butlast\<close>)
next
  case (Replace lst)
  with req show ?thesis by (simp split: sum.splits)
qed (use req in \<open>simp_all add: looking_def\<close>)

lemma list_of_stored: "UnmarshalList C b = Inr lst \<Longrightarrow> list_of C (Some b) = Inr lst"
  by (simp add: list_of_def value_read_def decode_list_def newByteValue_def)

lemma write_list_stored:
  assumes "proto_ok C"
  obtains b where "write_list C lst x = Commit b x" "list_of C (Some b) = Inr (lst\<lparr>List_Key := []\<rparr>)"
proof -
  obtain b where "MarshalList C (lst\<lparr>List_Key := []\<rparr>) = Inr b" "UnmarshalList C b = Inr (lst\<lparr>List_Key := []\<rparr>)"
    using assms by (rule MarshalList_ok)
  then show thesis using that by (simp add: write_list_def list_of_stored)
qed

text \<open>Served alone, a list operation keeps the type and answers with its own type.\<close>

lemma looking_serves:
  assumes "list_typed C v" and "list_request C op = looking C g"
    and "\<And>lst. outcome_typed op (look_outcome (g lst))"
  shows "effect (list_request C op) v = v" "outcome_typed op (answer (list_request C op) v)"
  using assms(1) by (cases rule: list_read_cases; simp add: assms(2,3) looking_def)+

lemma replace_serves:
  assumes "proto_ok C" and "fair_op n (Replace lst)"
  shows "list_typed C (effect (list_request C (Replace lst)) v) \<and> length (items C (effect (list_request C (Replace lst)) v)) \<le> n \<and>
    outcome_typed (Replace lst) (answer (list_request C (Replace lst)) v)"
proof -
  obtain b where "MarshalList C (lst\<lparr>List_Key := []\<rparr>) = Inr b" "UnmarshalList C b = Inr (lst\<lparr>List_Key := []\<rparr>)"
    using assms(1) by (rule MarshalList_ok)
  then show ?thesis using assms(2) by (simp add: list_typed_def items_def list_of_stored)
qed

lemma list_op_serves:
  assumes "proto_ok C" and "list_typed C v" and "fair_op N op" and "N \<le> n" and "length (items C v) \<le> n" and "n + 1 < 2 ^ 63"
  shows "list_typed C (effect (list_request C op) v) \<and> length (items C (effect (list_request C op) v)) \<le> n + 1 \<and>
    outcome_typed op (answer (list_request C op) v)"
proof (cases "list_request C op")
  case (Update decide)
  have "length (items C v) + 1 < 2 ^ 63" using assms(5,6) by simp
  from list_op_typed [OF assms(1,2) this Update] show ?thesis
    using assms(2,5) Update
    by (cases "decide (value_read v)") (auto simp: list_typed_def items_def list_of_stored)
next
  case (Put b x)
  then obtain lst where op: "op = Replace lst" by (cases op) (simp_all add: updating_def looking_def)
  with replace_serves [OF assms(1), of N lst v] assms(3,4) show ?thesis by auto
next
  case (Look f)
  have "effect (list_request C op) v = v" by (simp add: Look)
  moreover have "outcome_typed op (answer (list_request C op) v)"
  proof (cases op)
    case Count
    show ?thesis by (rule looking_serves(2) [OF assms(2)], simp add: Count, simp add: Count position_def)
  next
    case Whole
    show ?thesis by (rule looking_serves(2) [OF assms(2)], simp add: Whole, simp add: Whole)
  next
    case (Item_At i)
    show ?thesis
      by (rule looking_serves(2) [OF assms(2)], simp add: Item_At, simp add: Item_At item_at_def Let_def look_outcome_def split: option.split)
  next
    case (Index_Of x)
    from assms(2) show ?thesis by (cases rule: list_read_cases) (simp_all add: Index_Of position_def)
  next
    case (Replace lst)
    with replace_serves [OF assms(1), of N lst v] assms(3) show ?thesis by simp
  qed (use Look in \<open>simp_all add: updating_def\<close>)
  ultimately show ?thesis using assms(2,5) by simp
next
  case (Erase x)
  then show ?thesis by (cases op) (simp_all add: updating_def looking_def split: sum.splits)
qed

lemma cautious_updating:
  assumes "cautious (Update d)"
  shows "cautious (updating g d)"
proof -
  have "map_decision g (d (Inl (Other msg))) \<noteq> Commit b x" for msg b x
    using assms by (cases "d (Inl (Other msg))") (auto simp: cautious_def)
  then show ?thesis by (simp add: cautious_def updating_def)
qed

lemma cautious_list_requests: "cautious (list_request C op)"
  by (cases op) (simp_all add: cautious_updating looking_def split: sum.split)

section \<open>Any interleaving\<close>

lemma serial_typed:
  assumes "proto_ok C" and "list_typed C v0" and "\<And>i. fair_op N (ops i)" and "length (items C v0) \<le> N" and "N + length is < 2 ^ 63"
  shows "list_typed C (serial (\<lambda>i. list_request C (ops i)) v0 is) \<and>
    length (items C (serial (\<lambda>i. list_request C (ops i)) v0 is)) \<le> N + length is"
  using assms(5)
proof (induction "is" rule: rev_induct)
  case (snoc i "is")
  then have IH: "list_typed C (serial (\<lambda>i. list_request C (ops i)) v0 is)"
      "length (items C (serial (\<lambda>i. list_request C (ops i)) v0 is)) \<le> N + length is" by simp_all
  from snoc.prems have "N + length is + 1 < 2 ^ 63" by simp
  from list_op_serves [OF assms(1) IH(1) assms(3) _ IH(2) this, of i] show ?case by simp
qed (use assms(2,4) in simp)

lemma run_inv:
  assumes "\<not> invalid_key key" and "m0 ZeroByte \<noteq> Some ZeroByte" and "\<And>i. cautious (req i)"
    and "rtranclp (clients_step key req) (started m0) c"
  shows "clients_inv key req (m0 (StringToBytes key)) c"
  by (rule inv_steps [OF assms(1,3) inv_started [of m0 key req, OF assms(2)] assms(4)])

text \<open>The setting of the witnesses: one client appends an item, another pops it.\<close>

lemma solo_commit:
  assumes "req i = Update decide" and "stage c i = Wanting" and "space c (getLockName key) \<noteq> Some ZeroByte"
    and "space c ZeroByte \<noteq> Some ZeroByte" and "\<not> invalid_key key"
    and "decide (value_read (space c (StringToBytes key))) = Commit b x"
  shows "rtranclp (clients_step key req) c \<lparr>space = (space c)(getLockName key := None, StringToBytes key \<mapsto> b),
    stage = (stage c)(i := Replied (Ok x)), history = history c @ [i]\<rparr>"
proof -
  let ?S = "clients_step key req" and ?m = "(space c)(getLockName key \<mapsto> ZeroByte)"
  note keys = distinct_keys [OF assms(5)]
  let ?c1 = "\<lparr>space = ?m, stage = (stage c)(i := Holding), history = history c\<rparr>"
  let ?c2 = "\<lparr>space = ?m, stage = (stage ?c1)(i := Settled True (Commit b x)), history = history c\<rparr>"
  let ?c3 = "\<lparr>space = ?m(getLockName key := None, StringToBytes key \<mapsto> b), stage = (stage ?c2)(i := Replied (Ok x)),
    history = history c @ [i]\<rparr>"
  have free: "\<not> compares (space c) (lock_txn key)" using assms(3) by (simp add: lock_txn_def)
  have "own_step key (req i) (space c) (stage c i) ?m Holding"
    using own_step.lock_taken [OF assms(1) free] by (simp add: run_lock_txn [OF free] assms(2))
  from clients_step.Move [of key req i c, OF this] have 1: "?S c ?c1" by (simp add: takes_effect_def keys)
  have "own_step key (req i) (space ?c1) (stage ?c1 i) ?m (Settled True (Commit b x))"
    using own_step.read [OF assms(1), of key ?m] by (simp add: keys assms(6))
  from clients_step.Move [of key req i ?c1, OF this] have 2: "?S ?c1 ?c2" by (simp add: takes_effect_def)
  have "own_step key (req i) (space ?c2) (stage ?c2 i) (?m(getLockName key := None, StringToBytes key \<mapsto> b)) (Replied (Ok x))"
    using own_step.written [of key "req i" ?m True b x] assms(4)
    by (simp add: over_def run_unlock_set_txn keys)
  from clients_step.Move [of key req i ?c2, OF this] have 3: "?S ?c2 ?c3" by (simp add: takes_effect_def)
  from 1 2 3 have "rtranclp ?S c ?c3" by (rule three_steps)
  then show ?thesis by simp
qed

definition demo_ops :: "nat \<Rightarrow> list_op" where
  "demo_ops i = (if i = 0 then Append [7] else Pop_Left)"

lemma demo_ops_run:
  "\<exists>c. rtranclp (clients_step ''k'' (\<lambda>i. list_request memory_codec (demo_ops i))) (started Map.empty) c \<and>
     history c = [0, 1] \<and> stage c 1 = Replied (Ok (Item (newByteValue [7])))"
proof -
  let ?C = memory_codec and ?k = "StringToBytes ''k''" and ?l = "getLockName ''k''"
  let ?req = "\<lambda>i. list_request ?C (demo_ops i)"
  obtain b1 where b1: "write_list ?C (newList [[7]]) () = Commit b1 ()" "list_of ?C (Some b1) = Inr ((newList [[7]])\<lparr>List_Key := []\<rparr>)"
    using memory_codec_ok by (rule write_list_stored)
  obtain b2 where b2: "write_list ?C (newList []) (newByteValue [7]) = Commit b2 (newByteValue [7])"
    using memory_codec_ok by (rule write_list_stored)
  let ?c1 = "\<lparr>space = Map.empty(?l := None, ?k \<mapsto> b1), stage = (\<lambda>_. Wanting)(0 := Replied (Ok No_Value)), history = [0]\<rparr>"
  let ?c2 = "\<lparr>space = (space ?c1)(?l := None, ?k \<mapsto> b2), stage = (stage ?c1)(1 := Replied (Ok (Item (newByteValue [7])))), history = [0, 1]\<rparr>"
  have "rtranclp (clients_step ''k'' ?req) (started Map.empty) ?c1"
    using solo_commit [of ?req 0 "\<lambda>r. map_decision (\<lambda>_. No_Value) (list_append ?C [7] r)" "started Map.empty" "''k''" b1 No_Value] b1(1)
    by (simp add: demo_ops_def updating_def started_def value_read_def list_append_def if_missing_def newList_def
        enforceListLimit_def or_crash_def)
  moreover have "rtranclp (clients_step ''k'' ?req) ?c1 ?c2"
    using solo_commit [of ?req 1 "\<lambda>r. map_decision Item (list_pop ?C pop_left r)" ?c1 "''k''" b2 "Item (newByteValue [7])"] b1(2) b2
    by (simp add: demo_ops_def updating_def list_pop_def list_of_def distinct_keys newList_def pop_left_Cons go_slice_def or_crash_def)
  ultimately have "rtranclp (clients_step ''k'' ?req) (started Map.empty) ?c2" by (rule rtranclp_trans)
  moreover have "history ?c2 = [0, 1]" "stage ?c2 1 = Replied (Ok (Item (newByteValue [7])))" by simp_all
  ultimately show ?thesis by blast
qed

text \<open>
  C5. Type safety of lists under concurrency.  Clients run any of the list operations on one
  key that is missing or holds a list with a limit that is not negative, interleaved in any
  order and with any failures of etcd.  If the lists they store with \<open>SetList\<close> have limits
  that are not negative too (it does not check them, and a negative one makes a later
  \<open>ListAppend\<close> or \<open>ListInsert\<close> panic), and as long as the list cannot outgrow the size of a
  Go slice, the key stays missing or such a list, every answer has the type of its operation,
  no operation reports that the key cannot be decoded, and only \<open>SetListItem\<close>,
  \<open>ListDelete\<close> and \<open>GetListItem\<close> may panic.
\<close>

theorem concurrent_list_operations_typed:
  assumes "proto_ok C" and "\<not> invalid_key key" and "m0 ZeroByte \<noteq> Some ZeroByte"
    and "list_typed C (m0 (StringToBytes key))"
    and "\<And>i. fair_op N (ops i)"
    and "rtranclp (clients_step key (\<lambda>i. list_request C (ops i))) (started m0) c"
    and "length (items C (m0 (StringToBytes key))) \<le> N" and "N + length (history c) < 2 ^ 63"
  shows "list_typed C (space c (StringToBytes key)) \<and>
    (\<forall>i out. stage c i = Replied out \<longrightarrow> outcome_typed (ops i) out)"
proof -
  let ?req = "\<lambda>i. list_request C (ops i)" and ?v0 = "m0 (StringToBytes key)"
  have inv: "clients_inv key ?req ?v0 c" by (rule run_inv [OF assms(2,3) cautious_list_requests assms(6)])
  have "outcome_typed (ops i) out" if "stage c i = Replied out" for i out
  proof -
    from inv that obtain before after where h: "history c = before @ i # after" and out: "out = answer (?req i) (serial ?req ?v0 before)"
      unfolding clients_inv_def by blast
    have len: "N + length before + 1 < 2 ^ 63" using assms(8) h by simp
    from serial_typed [OF assms(1,4,5,7), of before] len
    have "list_typed C (serial ?req ?v0 before)" "length (items C (serial ?req ?v0 before)) \<le> N + length before" by simp_all
    from list_op_serves [OF assms(1) this(1) assms(5) _ this(2) len, of i] out show ?thesis by simp
  qed
  moreover have "space c (StringToBytes key) = serial ?req ?v0 (history c)" using inv unfolding clients_inv_def by blast
  ultimately show ?thesis using serial_typed [OF assms(1,4,5,7,8)] by simp
qed

theorem concurrent_list_operations_typed_witness:
  "\<exists>c :: list_answer clients. history c = [0, 1] \<and> list_typed memory_codec (space c (StringToBytes ''k'')) \<and>
     outcome_typed (demo_ops 1) (Ok (Item (newByteValue [7])))"
proof -
  obtain c where c: "rtranclp (clients_step ''k'' (\<lambda>i. list_request memory_codec (demo_ops i))) (started Map.empty) c"
    "history c = [0, 1]" "stage c 1 = Replied (Ok (Item (newByteValue [7])))" using demo_ops_run by blast
  have "list_typed memory_codec None" "items memory_codec None = []"
    by (simp_all add: list_typed_def items_def list_of_def value_read_def)
  moreover have "fair_op 0 (demo_ops i)" for i by (simp add: demo_ops_def)
  ultimately
  have "list_typed memory_codec (space c (StringToBytes ''k''))"
    and all: "\<forall>i out. stage c i = Replied out \<longrightarrow> outcome_typed (demo_ops i) out"
    using concurrent_list_operations_typed [OF memory_codec_ok invalid_key_k _ _ _ c(1), of 0] c(2) by simp_all
  moreover have "outcome_typed (demo_ops 1) (Ok (Item (newByteValue [7])))" using all c(3) by blast
  ultimately show ?thesis using c(2) by blast
qed

section \<open>A list as a queue\<close>

text \<open>
  The abstract queue: clients append at the back and take from the front, in the order of
  their requests.  The first component is who was handed which item.
\<close>

definition queue_step :: "(nat \<Rightarrow> list_op) \<Rightarrow> (nat \<times> bytes) list \<times> bytes list \<Rightarrow> nat \<Rightarrow> (nat \<times> bytes) list \<times> bytes list" where
  "queue_step ops = (\<lambda>(hs, q) i. case ops i of
     Append v \<Rightarrow> (hs, q @ [v])
   | Pop_Left \<Rightarrow> (case q of [] \<Rightarrow> (hs, q) | b # q' \<Rightarrow> (hs @ [(i, b)], q'))
   | _ \<Rightarrow> (hs, q))"

definition queue_run :: "(nat \<Rightarrow> list_op) \<Rightarrow> bytes list \<Rightarrow> nat list \<Rightarrow> (nat \<times> bytes) list \<times> bytes list" where
  "queue_run ops q is = foldl (queue_step ops) ([], q) is"

definition appended :: "(nat \<Rightarrow> list_op) \<Rightarrow> nat list \<Rightarrow> bytes list" where
  "appended ops is = concat (map (\<lambda>i. case ops i of Append v \<Rightarrow> [v] | _ \<Rightarrow> []) is)"

fun queue_op :: "list_op \<Rightarrow> bool" where
  "queue_op (Append v) \<longleftrightarrow> True"
| "queue_op Pop_Left \<longleftrightarrow> True"
| "queue_op Count \<longleftrightarrow> True"
| "queue_op _ \<longleftrightarrow> False"

lemma queue_op_fair: "queue_op op \<Longrightarrow> fair_op n op"
  by (cases op) simp_all

definition unlimited :: "codec \<Rightarrow> bytes option \<Rightarrow> bool" where
  "unlimited C v \<longleftrightarrow> (case list_of C v of Inl _ \<Rightarrow> v = None | Inr lst \<Rightarrow> List_Limit lst = 0)"

lemma queue_run_simps [simp]:
  "queue_run ops q [] = ([], q)" "queue_run ops q (is @ [i]) = queue_step ops (queue_run ops q is) i"
  by (simp_all add: queue_run_def)

lemma unlimited_typed: "unlimited C v \<Longrightarrow> list_typed C v"
  by (auto simp: unlimited_def list_typed_def split: sum.splits)

text \<open>Served alone, each operation acts as the queue does.\<close>

lemma append_serves:
  assumes C: "proto_ok C" and v: "unlimited C v" and size: "length (items C v) + 1 < 2 ^ 63"
  shows "unlimited C (effect (list_request C (Append x)) v) \<and> items C (effect (list_request C (Append x)) v) = items C v @ [x] \<and>
    answer (list_request C (Append x)) v = Ok No_Value"
proof -
  obtain lst where lst: "if_missing (newList []) (list_of C v) = Inr lst" "List_Value lst = items C v" "List_Limit lst = 0"
    using v by (cases rule: list_read_cases [OF unlimited_typed [OF v]])
      (auto simp: unlimited_def list_of_def if_missing_def newList_def)
  let ?lst = "lst\<lparr>List_Value := items C v @ [x]\<rparr>"
  have "enforceListLimit ?lst = Some ?lst"
    using enforceListLimit_nonneg [of ?lst] lst(3) size by (simp add: go_slice_def keep_last_def)
  moreover obtain b where "write_list C ?lst () = Commit b ()" "list_of C (Some b) = Inr (?lst\<lparr>List_Key := []\<rparr>)"
    using C by (rule write_list_stored)
  ultimately show ?thesis using lst
    by (simp add: updating_def list_append_def list_of_def [symmetric] or_crash_def unlimited_def items_def)
qed

lemma pop_serves:
  assumes C: "proto_ok C" and v: "unlimited C v" and size: "length (items C v) + 1 < 2 ^ 63"
  shows "unlimited C (effect (list_request C Pop_Left) v) \<and> items C (effect (list_request C Pop_Left) v) = tl (items C v) \<and>
    answer (list_request C Pop_Left) v = (if items C v = [] then Err ErrListEmpty else Ok (Item (newByteValue (hd (items C v)))))"
  using unlimited_typed [OF v]
proof (cases rule: list_read_cases)
  case missing
  then show ?thesis using v by (simp add: updating_def list_pop_def)
next
  case (present lst)
  have go: "go_slice (items C v)" using size by (simp add: go_slice_def)
  have lim: "List_Limit lst = 0" using v present(1) by (simp add: unlimited_def list_of_def)
  obtain b where "write_list C (lst\<lparr>List_Value := tl (items C v)\<rparr>) (newByteValue (hd (items C v))) = Commit b (newByteValue (hd (items C v)))"
      "list_of C (Some b) = Inr (lst\<lparr>List_Value := tl (items C v), List_Key := []\<rparr>)"
    using C by (rule write_list_stored)
  then show ?thesis
    using present(1) present(3) [symmetric] v lim pop_left_some [OF go]
    by (cases "items C v = []") (auto simp: updating_def list_pop_def or_crash_def unlimited_def items_def [of C "Some b"])
qed

lemma queue_serial:
  assumes "proto_ok C" and "unlimited C v0" and "\<And>i. queue_op (ops i)" and "length (items C v0) + length is < 2 ^ 63"
  shows "unlimited C (serial (\<lambda>i. list_request C (ops i)) v0 is) \<and>
    items C (serial (\<lambda>i. list_request C (ops i)) v0 is) = snd (queue_run ops (items C v0) is)"
  using assms(4)
proof (induction "is" rule: rev_induct)
  case (snoc i "is")
  let ?v = "serial (\<lambda>i. list_request C (ops i)) v0 is"
  obtain hs q where hq: "queue_run ops (items C v0) is = (hs, q)" by fastforce
  from snoc have IH: "unlimited C ?v" "items C ?v = q" by (simp_all add: hq)
  have "length (items C ?v) \<le> length (items C v0) + length is"
    using serial_typed [OF assms(1) unlimited_typed [OF assms(2)] queue_op_fair [OF assms(3)] order_refl, of "is"] snoc.prems by simp
  then have size: "length (items C ?v) + 1 < 2 ^ 63" using snoc.prems by simp
  show ?case
    using append_serves [OF assms(1) IH(1) size] pop_serves [OF assms(1) IH(1) size] IH assms(3) [of i]
    by (cases "ops i") (auto simp: hq queue_step_def looking_def simp del: list_request.simps(2,7) split: list.split)
qed (use assms(2) in simp)

text \<open>What the abstract queue does.\<close>

lemma queue_conserves: "map snd (fst (queue_run ops q is)) @ snd (queue_run ops q is) = q @ appended ops is"
proof (induction "is" rule: rev_induct)
  case (snoc i "is")
  then show ?case
    by (cases "queue_run ops q is")
      (auto simp: queue_step_def appended_def split: list_op.split list.split)
qed (simp add: appended_def)

lemma queue_hands_to_some: "set (map fst (fst (queue_run ops q is))) \<subseteq> set is"
proof (induction "is" rule: rev_induct)
  case (snoc i "is")
  then show ?case
    by (cases "queue_run ops q is") (auto simp: queue_step_def split: list_op.split list.split)
qed simp

lemma queue_hands_once: "distinct is \<Longrightarrow> distinct (map fst (fst (queue_run ops q is)))"
proof (induction "is" rule: rev_induct)
  case (snoc i "is")
  with queue_hands_to_some [of ops q "is"] show ?case
    by (cases "queue_run ops q is") (auto simp: queue_step_def split: list_op.split list.split)
qed simp

lemma split_snoc: "is @ [j] = before @ i # after \<longleftrightarrow>
    (after = [] \<and> before = is \<and> i = j) \<or> (\<exists>after'. after = after' @ [j] \<and> is = before @ i # after')"
  by (cases after rule: rev_exhaust) auto

lemma split_once:
  assumes "distinct is" and "is = before @ i # after" and "is = before' @ i # after'"
  shows "before' = before"
proof -
  have "i \<notin> set before" "i \<notin> set after" using assms(1) unfolding assms(2) by simp_all
  moreover have "before @ i # after = before' @ i # after'" using assms(2,3) by simp
  ultimately show ?thesis using append_Cons_eq_iff [of i before after before' after'] by simp
qed

lemma queue_hands:
  "(i, b) \<in> set (fst (queue_run ops q is)) \<longleftrightarrow>
     (\<exists>before after rest. is = before @ i # after \<and> ops i = Pop_Left \<and> snd (queue_run ops q before) = b # rest)"
proof (induction "is" rule: rev_induct)
  case (snoc j "is")
  have "(i, b) \<in> set (fst (queue_run ops q (is @ [j]))) \<longleftrightarrow> (i, b) \<in> set (fst (queue_run ops q is)) \<or>
      i = j \<and> ops i = Pop_Left \<and> (\<exists>rest. snd (queue_run ops q is) = b # rest)"
    by (cases "queue_run ops q is") (auto simp: queue_step_def split: list_op.split list.split)
  also have "\<dots> \<longleftrightarrow> (\<exists>before after rest. is @ [j] = before @ i # after \<and> ops i = Pop_Left \<and> snd (queue_run ops q before) = b # rest)"
    unfolding snoc.IH split_snoc by blast
  finally show ?case .
qed simp

text \<open>
  C6. A list as a queue between clients.  Any number of clients append to an unlimited list
  and pop from its left end, interleaved in any order and with any failures of etcd: what
  was handed out, in order, followed by what the list holds, is what it held at first
  followed by what was appended, in order; nobody is handed two items; the clients that got
  an answer from a pop are handed that item; and an item was handed to a client that was
  answered with it, or to one that was told of a failure of etcd.
\<close>

theorem list_is_a_queue:
  assumes "proto_ok C" and "\<not> invalid_key key" and "m0 ZeroByte \<noteq> Some ZeroByte"
    and "unlimited C (m0 (StringToBytes key))" and "\<And>i. queue_op (ops i)"
    and "rtranclp (clients_step key (\<lambda>i. list_request C (ops i))) (started m0) c"
    and "length (items C (m0 (StringToBytes key))) + length (history c) < 2 ^ 63"
    and "handed = fst (queue_run ops (items C (m0 (StringToBytes key))) (history c))"
  shows "map snd handed @ items C (space c (StringToBytes key)) =
      items C (m0 (StringToBytes key)) @ appended ops (history c) \<and>
    distinct (map fst handed) \<and>
    (\<forall>i b. stage c i = Replied (Ok (Item b)) \<longrightarrow> (i, ByteValue_Value b) \<in> set handed) \<and>
    (\<forall>i b. (i, b) \<in> set handed \<longrightarrow>
       stage c i = Replied (Ok (Item (newByteValue b))) \<or> (\<exists>out. stage c i = Failed out))"
proof -
  let ?req = "\<lambda>i. list_request C (ops i)" and ?v0 = "m0 (StringToBytes key)" and ?h = "history c"
  let ?q = "items C ?v0"
  have fair: "fair_op n (ops i)" for n i using assms(5) by (rule queue_op_fair)
  have inv: "clients_inv key ?req ?v0 c" by (rule run_inv [OF assms(2,3) cautious_list_requests assms(6)])
  then have dist: "distinct ?h" and now: "space c (StringToBytes key) = serial ?req ?v0 ?h" unfolding clients_inv_def by blast+
  have pops: "answer (?req i) (serial ?req ?v0 before) =
      (case snd (queue_run ops ?q before) of [] \<Rightarrow> Err ErrListEmpty | b # rest \<Rightarrow> Ok (Item (newByteValue b)))"
    if h: "?h = before @ i # after" and op: "ops i = Pop_Left" for i before after
  proof -
    have len: "length ?q + length before + 1 < 2 ^ 63" using assms(7) h by simp
    then have "length ?q + length before < 2 ^ 63" by simp
    from queue_serial [where ops = ops, OF assms(1,4,5) this] serial_typed [where ops = ops, OF assms(1) unlimited_typed [OF assms(4)] fair order_refl this] len
    have "unlimited C (serial ?req ?v0 before)" "items C (serial ?req ?v0 before) = snd (queue_run ops ?q before)"
      "length (items C (serial ?req ?v0 before)) + 1 < 2 ^ 63" by simp_all
    with pop_serves [OF assms(1), of "serial ?req ?v0 before"] op show ?thesis
      by (simp del: list_request.simps split: list.split)
  qed
  have replied: "\<exists>before after. ?h = before @ i # after \<and> out = answer (?req i) (serial ?req ?v0 before)"
    if "stage c i = Replied out" for i out using inv that unfolding clients_inv_def by blast
  have popped: "ops i = Pop_Left" if out: "stage c i = Replied (Ok (Item b))" for i b
  proof -
    from replied [OF out] obtain before after where h: "?h = before @ i # after"
      and ans: "answer (?req i) (serial ?req ?v0 before) = Ok (Item b)" by metis
    have len: "length ?q + length before + 1 < 2 ^ 63" using assms(7) h by simp
    from serial_typed [where ops = ops, OF assms(1) unlimited_typed [OF assms(4)] fair order_refl, of before] len
    have "list_typed C (serial ?req ?v0 before)" "length (items C (serial ?req ?v0 before)) \<le> length ?q + length before" by simp_all
    from list_op_serves [OF assms(1) this(1) fair _ this(2) len, of "length ?q" i] ans assms(5) [of i] show ?thesis
      by (cases "ops i") auto
  qed
  have 1: "map snd handed @ items C (space c (StringToBytes key)) = ?q @ appended ops ?h"
    using queue_conserves [of ops ?q ?h] queue_serial [OF assms(1,4,5,7)] by (simp add: assms(8) now)
  have 3: "(i, ByteValue_Value b) \<in> set handed" if out: "stage c i = Replied (Ok (Item b))" for i b
  proof -
    from replied [OF out] obtain before after where h: "?h = before @ i # after"
      and ans: "answer (?req i) (serial ?req ?v0 before) = Ok (Item b)" by metis
    from pops [OF h popped [OF out]] ans obtain b' rest where
      "snd (queue_run ops ?q before) = b' # rest" "b = newByteValue b'" by (auto split: list.splits)
    then show ?thesis unfolding assms(8) queue_hands using h popped [OF out] by (auto simp: newByteValue_def)
  qed
  have 4: "stage c i = Replied (Ok (Item (newByteValue b))) \<or> (\<exists>out. stage c i = Failed out)" if "(i, b) \<in> set handed" for i b
  proof -
    from that obtain before after rest where h: "?h = before @ i # after" and op: "ops i = Pop_Left"
      and q: "snd (queue_run ops ?q before) = b # rest" unfolding assms(8) queue_hands by blast
    have "i \<in> set ?h" by (simp add: h)
    then obtain out where "stage c i = Replied out \<or> stage c i = Failed out" using inv unfolding clients_inv_def by blast
    moreover have "out = Ok (Item (newByteValue b))" if out: "stage c i = Replied out"
    proof -
      from replied [OF out] obtain before' after' where h': "?h = before' @ i # after'"
        and ans: "out = answer (?req i) (serial ?req ?v0 before')" by blast
      from split_once [OF dist h h'] pops [OF h op] q ans show ?thesis by simp
    qed
    ultimately show ?thesis by blast
  qed
  show ?thesis using 1 3 4 queue_hands_once [OF dist] by (simp add: assms(8))
qed

theorem list_is_a_queue_witness:
  "\<exists>c :: list_answer clients. history c = [0, 1] \<and> (1, [7]) \<in> set (fst (queue_run demo_ops [] [0, 1])) \<and>
     [[7]] @ items memory_codec (space c (StringToBytes ''k'')) = appended demo_ops [0, 1]"
proof -
  obtain c where c: "rtranclp (clients_step ''k'' (\<lambda>i. list_request memory_codec (demo_ops i))) (started Map.empty) c"
    "history c = [0, 1]" "stage c 1 = Replied (Ok (Item (newByteValue [7])))" using demo_ops_run by blast
  have "unlimited memory_codec None" "items memory_codec None = []"
    by (simp_all add: unlimited_def items_def list_of_def value_read_def)
  moreover have "queue_op (demo_ops i)" for i by (simp add: demo_ops_def)
  moreover have run: "queue_run demo_ops [] [0, 1] = ([(1, [7])], [])"
    by (simp add: queue_run_def queue_step_def demo_ops_def)
  ultimately show ?thesis
    using list_is_a_queue [OF memory_codec_ok invalid_key_k _ _ _ c(1) _ refl] c(2) by (intro exI [of _ c]) simp
qed

end
