(* ===== verification/Concurrent_Hashes.thy ===== *)
theory Concurrent_Hashes
  imports Concurrent_Lists
begin

text \<open>
  Many clients working on one hash: the hash operations as requests, and the hash as a map
  from fields to values that the clients share, whatever order their steps come in.
\<close>

section \<open>The hash operations as requests\<close>

text \<open>
  A hash in an answer is given as the map it holds: the order of its entries is up to the
  runtime.
\<close>

datatype hash_answer = Stored | Found pb_ByteValue | Present bool | Field_List "string list"
  | Map_Found "string \<rightharpoonup> bytes" | Size pb_IntValue | Values_Found pb_List

datatype hash_op =
    Set_Field string bytes
  | Set_Fields "bytes gomap"
  | Delete_Field string
  | Get_Field string
  | Has_Field string
  | Field_Names
  | Replace_Hash pb_Hash
  | Whole_Hash
  | Get_Fields "string list" "bytes list"
  | Size_Of
  | All_Values

definition map_found :: "pb_Hash \<Rightarrow> hash_answer" where
  "map_found h = Map_Found (map_get (Hash_Value h))"

definition reading :: "codec \<Rightarrow> (pb_Hash \<Rightarrow> (go_error + 'x) option) \<Rightarrow> 'x request" where
  "reading C g = Look (\<lambda>r. case typed (decode_hash C) r of Inl e \<Rightarrow> Some (Inl e) | Inr h \<Rightarrow> g h)"

fun hash_request :: "codec \<Rightarrow> hash_op \<Rightarrow> hash_answer request" where
  "hash_request C (Set_Field f v) = updating (\<lambda>_. Stored) (hash_set C [(f, v)])"
| "hash_request C (Set_Fields fs) = updating (\<lambda>_. Stored) (hash_set C (map_entries fs))"
| "hash_request C (Delete_Field f) = updating (\<lambda>_. Stored) (hash_delete C f)"
| "hash_request C (Get_Field f) = reading C (\<lambda>h. Some (case map_get (Hash_Value h) f of
     Some b \<Rightarrow> Inr (Found (newByteValue b)) | None \<Rightarrow> Inl ErrHashFieldNotFound))"
| "hash_request C (Has_Field f) = reading C (\<lambda>h. Some (Inr (Present (map_get (Hash_Value h) f \<noteq> None))))"
| "hash_request C Field_Names = reading C (\<lambda>h. Some (Inr (Field_List (sort (map fst (map_entries (Hash_Value h)))))))"
| "hash_request C (Replace_Hash h) = (case MarshalHash C (h\<lparr>Hash_Key := []\<rparr>) of
     Inl msg \<Rightarrow> Look (\<lambda>_. Some (Inl (Other msg)))
   | Inr b \<Rightarrow> Put b Stored)"
| "hash_request C Whole_Hash = reading C (\<lambda>h. Some (Inr (map_found h)))"
| "hash_request C (Get_Fields fs vs) = reading C (\<lambda>h.
     map_option (\<lambda>nh. Inr (map_found (newHash nh))) (put_all map_put (present_fields (Hash_Value h) fs) (Some [])))"
| "hash_request C Size_Of = reading C (\<lambda>h. Some (Inr (Size \<lparr>IntValue_Key = [], IntValue_Value = len64 (map_entries (Hash_Value h))\<rparr>)))"
| "hash_request C All_Values = reading C (\<lambda>h. Some (Inr (Values_Found
     (newList (map (\<lambda>key. case map_get (Hash_Value h) key of Some b \<Rightarrow> b | None \<Rightarrow> []) (sort (map fst (map_entries (Hash_Value h)))))))))"

text \<open>The handlers they stand for.\<close>

fun hash_handler :: "'s etcd \<Rightarrow> codec \<Rightarrow> go_context \<Rightarrow> string \<Rightarrow> hash_op \<Rightarrow> ('s, hash_answer) handler" where
  "hash_handler E C ctx k (Set_Field f v) =
     answering (\<lambda>_. Stored) (SetHashField E C ctx \<lparr>HashField_Key = k, HashField_Field = f, HashField_Value = v\<rparr>)"
| "hash_handler E C ctx k (Set_Fields fs) =
     answering (\<lambda>_. Stored) (SetHashFields E C ctx \<lparr>Hash_Key = k, Hash_Value = fs\<rparr>)"
| "hash_handler E C ctx k (Delete_Field f) =
     answering (\<lambda>_. Stored) (DelHashField E C ctx \<lparr>HashField_Key = k, HashField_Field = f, HashField_Value = []\<rparr>)"
| "hash_handler E C ctx k (Get_Field f) =
     answering Found (GetHashField E C \<lparr>HashField_Key = k, HashField_Field = f, HashField_Value = []\<rparr>)"
| "hash_handler E C ctx k (Has_Field f) =
     answering Present (HashHas E C \<lparr>HashField_Key = k, HashField_Field = f, HashField_Value = []\<rparr>)"
| "hash_handler E C ctx k Field_Names = answering Field_List (HashFields E C (newKey k))"
| "hash_handler E C ctx k (Replace_Hash h) = answering (\<lambda>_. Stored) (SetHash E C ctx (h\<lparr>Hash_Key := k\<rparr>))"
| "hash_handler E C ctx k Whole_Hash = answering map_found (GetHash E C (newKey k))"
| "hash_handler E C ctx k (Get_Fields fs vs) = answering map_found
     (GetHashFields E C \<lparr>HashFieldSet_Key = k, HashFieldSet_Field = fs, HashFieldSet_Value = vs\<rparr>)"
| "hash_handler E C ctx k Size_Of = answering Size (HashLength E C (newKey k))"
| "hash_handler E C ctx k All_Values = answering Values_Found (HashValues E C (newKey k))"

lemma reading_handler:
  "request_handler E ctx k (reading C g) = and_then (GetHash E C (newKey k)) (\<lambda>h. look_finish (g h))"
proof -
  have "and_then (attempt m) (\<lambda>r. look_finish (case typed d r of Inl e \<Rightarrow> Some (Inl e) | Inr h \<Rightarrow> g h)) =
      and_then (and_then m (\<lambda>x. case d x of Inl e \<Rightarrow> throw e | Inr h \<Rightarrow> ret h)) (\<lambda>h. look_finish (g h))"
    for m :: "('a, pb_ByteValue) handler" and d
    by (auto simp: fun_eq_iff and_then_def attempt_def ret_def throw_def look_finish_def finish_def
        split: prod.split outcome.split sum.split)
  then show ?thesis by (simp add: request_handler_def reading_def GetHash_def decode_hash_def [symmetric])
qed

lemma read_handler:
  assumes "hash_request C op = reading C g" and "hash_handler E C ctx k op = answering a (and_then (GetHash E C (newKey k)) f)"
    and "\<And>h. look_finish (g h) = answering a (f h)"
  shows "hash_handler E C ctx k op = request_handler E ctx k (hash_request C op)"
  by (simp add: assms reading_handler) (simp add: answering_def and_then_assoc)

text \<open>Encoding a Go map does not fail.\<close>

fun go_op :: "hash_op \<Rightarrow> bool" where
  "go_op (Replace_Hash h) \<longleftrightarrow> map_wf (Hash_Value h)"
| "go_op _ \<longleftrightarrow> True"

lemma hash_handler_request:
  assumes "proto_ok C" and "go_op op"
  shows "hash_handler E C ctx k op = request_handler E ctx k (hash_request C op)"
proof (cases op)
  case (Get_Field f)
  show ?thesis unfolding Get_Field
    by (rule read_handler, simp, simp add: GetHashField_def) (auto simp: answering_def look_finish_def split: option.split)
next
  case (Has_Field f)
  show ?thesis unfolding Has_Field
    by (rule read_handler, simp, simp add: HashHas_def) (auto simp: answering_def look_finish_def split: option.split)
next
  case (Replace_Hash h)
  have "map_wf (Hash_Value (h\<lparr>Hash_Key := []\<rparr>))" using assms(2) Replace_Hash by simp
  with assms(1) obtain b h' where "MarshalHash C (h\<lparr>Hash_Key := []\<rparr>) = Inr b" by (rule MarshalHash_ok)
  then show ?thesis by (simp add: Replace_Hash SetHash_def request_handler_def answering_def)
next
  case (Get_Fields fs vs)
  show ?thesis unfolding Get_Fields
    by (rule read_handler, simp, simp add: GetHashFields_def)
      (auto simp: answering_def look_finish_def or_panic_def and_then_def panic_def ret_def fun_eq_iff split: option.split)
next
  case Field_Names
  show ?thesis unfolding Field_Names
    by (rule read_handler, simp, simp add: HashFields_def) (simp add: answering_def look_finish_def)
next
  case Whole_Hash
  show ?thesis unfolding Whole_Hash by (simp add: reading_handler answering_def look_finish_def)
next
  case Size_Of
  show ?thesis unfolding Size_Of
    by (rule read_handler, simp, simp add: HashLength_def) (simp add: answering_def look_finish_def)
next
  case All_Values
  show ?thesis unfolding All_Values
    by (rule read_handler, simp, simp add: HashValues_def Let_def) (simp add: answering_def look_finish_def)
qed (simp_all add: updating_handler hash_updates)

section \<open>The abstract hash\<close>

text \<open>
  A hash is missing, or a map from fields to values.  A hash that was emptied cannot be
  written any more: the code panics on its nil map.
\<close>

type_synonym hash_state = "(string \<rightharpoonup> bytes) option"

definition put_fields :: "(string \<times> bytes) list \<Rightarrow> hash_state \<Rightarrow> hash_state \<times> (go_error, hash_answer) outcome" where
  "put_fields fs s = (case s of
     None \<Rightarrow> (Some (map_of (rev fs)), Ok Stored)
   | Some f \<Rightarrow> if f = Map.empty \<and> fs \<noteq> [] then (s, Panic) else (Some (f ++ map_of (rev fs)), Ok Stored))"

fun hash_does :: "hash_op \<Rightarrow> hash_state \<Rightarrow> hash_state \<times> (go_error, hash_answer) outcome" where
  "hash_does (Set_Field f v) s = put_fields [(f, v)] s"
| "hash_does (Set_Fields fs) s = put_fields (map_entries fs) s"
| "hash_does (Replace_Hash h) s = (Some (map_get (Hash_Value h)), Ok Stored)"
| "hash_does op None = (None, Err ErrKeyNotFound)"
| "hash_does (Delete_Field f) (Some h) = (Some (h(f := None)), Ok Stored)"
| "hash_does (Get_Field f) (Some h) =
     (Some h, case h f of Some b \<Rightarrow> Ok (Found (newByteValue b)) | None \<Rightarrow> Err ErrHashFieldNotFound)"
| "hash_does (Has_Field f) (Some h) = (Some h, Ok (Present (f \<in> dom h)))"
| "hash_does Field_Names (Some h) = (Some h, Ok (Field_List (sorted_list_of_set (dom h))))"
| "hash_does Whole_Hash (Some h) = (Some h, Ok (Map_Found h))"
| "hash_does (Get_Fields fs vs) (Some h) = (Some h, Ok (Map_Found (\<lambda>f. if f \<in> set fs then h f else None)))"
| "hash_does Size_Of (Some h) = (Some h, Ok (Size \<lparr>IntValue_Key = [], IntValue_Value = of_nat (card (dom h))\<rparr>))"
| "hash_does All_Values (Some h) =
     (Some h, Ok (Values_Found (newList (map (\<lambda>f. the (h f)) (sorted_list_of_set (dom h))))))"

definition hash_run :: "(nat \<Rightarrow> hash_op) \<Rightarrow> hash_state \<Rightarrow> nat list \<Rightarrow> hash_state" where
  "hash_run ops s is = foldl (\<lambda>s i. fst (hash_does (ops i) s)) s is"

lemma hash_run_simps [simp]:
  "hash_run ops s [] = s" "hash_run ops s (is @ [i]) = fst (hash_does (ops i) (hash_run ops s is))"
  by (simp_all add: hash_run_def)

lemma hash_run_append: "hash_run ops s (is @ js) = hash_run ops (hash_run ops s is) js"
  by (simp add: hash_run_def)

text \<open>The fields an operation may change.\<close>

fun writes_field :: "string \<Rightarrow> hash_op \<Rightarrow> bool" where
  "writes_field f (Set_Field g v) \<longleftrightarrow> f = g"
| "writes_field f (Set_Fields fs) \<longleftrightarrow> f \<in> fst ` set (map_entries fs)"
| "writes_field f (Delete_Field g) \<longleftrightarrow> f = g"
| "writes_field f (Replace_Hash h) \<longleftrightarrow> True"
| "writes_field f _ \<longleftrightarrow> False"

lemma put_fields_keeps:
  assumes "f \<notin> fst ` set fs" and "h f = Some v"
  shows "\<exists>h'. fst (put_fields fs (Some h)) = Some h' \<and> h' f = Some v"
proof -
  have "map_of (rev fs) f = None" using assms(1) by (simp add: map_of_eq_None_iff)
  then show ?thesis using assms(2) by (auto simp: put_fields_def map_add_def)
qed

lemma hash_does_keeps:
  assumes "\<not> writes_field f op" and "h f = Some v"
  shows "\<exists>h'. fst (hash_does op (Some h)) = Some h' \<and> h' f = Some v"
  using assms put_fields_keeps [of f _ h v] by (cases op) auto

lemma hash_run_keeps:
  assumes "\<forall>j\<in>set is. \<not> writes_field f (ops j)" and "h f = Some v"
  shows "\<exists>h'. hash_run ops (Some h) is = Some h' \<and> h' f = Some v"
  using assms(1)
proof (induction "is" rule: rev_induct)
  case (snoc j "is")
  then obtain h' where h': "hash_run ops (Some h) is = Some h'" "h' f = Some v" by auto
  have "\<not> writes_field f (ops j)" using snoc.prems by simp
  from hash_does_keeps [of f "ops j" h' v, OF this h'(2)] show ?case by (simp add: h'(1))
qed (use assms(2) in simp)

section \<open>The key refines it\<close>

definition hash_of :: "codec \<Rightarrow> bytes option \<Rightarrow> go_error + pb_Hash" where
  "hash_of C v = typed (decode_hash C) (value_read v)"

text \<open>
  A key is well typed for hashes when it is missing or holds an encoded hash, which is
  decoded with the nil map exactly when it has no fields.
\<close>

definition hash_typed :: "codec \<Rightarrow> bytes option \<Rightarrow> bool" where
  "hash_typed C v \<longleftrightarrow> (case hash_of C v of Inl _ \<Rightarrow> v = None
     | Inr h \<Rightarrow> map_wf (Hash_Value h) \<and> (Hash_Value h = None \<longleftrightarrow> map_get (Hash_Value h) = Map.empty))"

definition hash_view :: "codec \<Rightarrow> bytes option \<Rightarrow> hash_state" where
  "hash_view C v = (case hash_of C v of Inl _ \<Rightarrow> None | Inr h \<Rightarrow> Some (map_get (Hash_Value h)))"

lemma hash_read_cases:
  assumes "hash_typed C v"
  obtains (missing) "typed (decode_hash C) (value_read v) = Inl ErrKeyNotFound" "hash_view C v = None"
    | (present) h where "typed (decode_hash C) (value_read v) = Inr h" "hash_view C v = Some (map_get (Hash_Value h))"
        "map_wf (Hash_Value h)" "Hash_Value h = None \<longleftrightarrow> map_get (Hash_Value h) = Map.empty"
proof (cases v)
  case None
  then show thesis using missing by (simp add: hash_view_def hash_of_def value_read_def)
next
  case (Some b)
  with assms show thesis using present by (auto simp: hash_typed_def hash_of_def hash_view_def split: sum.splits)
qed

text \<open>A hash written back is read as the same fields.\<close>

lemma write_hash_stored:
  assumes "proto_ok C" and "map_wf v"
  obtains b where "write_hash C (h\<lparr>Hash_Value := v\<rparr>) = Commit b ()" "hash_typed C (Some b)"
    "hash_view C (Some b) = Some (map_get v)"
proof -
  have "map_wf (Hash_Value (h\<lparr>Hash_Value := v, Hash_Key := []\<rparr>))" using assms(2) by simp
  from MarshalHash_ok [OF assms(1) this] obtain b h' where
      "MarshalHash C (h\<lparr>Hash_Value := v, Hash_Key := []\<rparr>) = Inr b" "UnmarshalHash C b = Inr h'"
      "hash_decodes (h\<lparr>Hash_Value := v, Hash_Key := []\<rparr>) h'" by blast
  then show thesis using that [of b]
    by (simp add: write_hash_def hash_typed_def hash_view_def hash_of_def value_read_def decode_hash_def
        newByteValue_def hash_decodes_def map_get_empty)
qed

text \<open>Served alone, a request does what the abstract hash does.\<close>

definition serves :: "codec \<Rightarrow> hash_op \<Rightarrow> bytes option \<Rightarrow> bool" where
  "serves C op v \<longleftrightarrow> hash_typed C (effect (hash_request C op) v) \<and>
     (hash_view C (effect (hash_request C op) v), answer (hash_request C op) v) = hash_does op (hash_view C v)"

lemma put_serves:
  assumes "proto_ok C" and "hash_typed C v" and "hash_request C op = updating (\<lambda>_. Stored) (hash_set C fs)"
    and "hash_does op = put_fields fs"
  shows "serves C op v"
  using assms(2)
proof (cases rule: hash_read_cases)
  case missing
  obtain m where m: "put_all map_put fs (Some []) = Some m" "map_get m = map_get (Some []) ++ map_of (rev fs)" "map_wf m"
    using fields.put_all_writable [of "Some []" fs] by (auto simp: map_wf_def map_entries_def)
  obtain b where "write_hash C ((newHash (Some []))\<lparr>Hash_Value := m\<rparr>) = Commit b ()" "hash_typed C (Some b)"
      "hash_view C (Some b) = Some (map_get m)"
    using assms(1) m(3) by (rule write_hash_stored)
  moreover have "map_get (Some []) = (Map.empty :: string \<rightharpoonup> bytes)" by (simp add: map_get_def [abs_def] map_entries_def)
  ultimately show ?thesis using missing m
    by (simp add: serves_def assms(3,4) updating_def hash_set_def if_missing_def or_crash_def put_fields_def)
next
  case (present h)
  show ?thesis
  proof (cases "Hash_Value h = None \<and> fs \<noteq> []")
    case True
    then have "put_all map_put fs (Hash_Value h) = None" by (simp add: fields.put_all_nil)
    with True present assms(2) show ?thesis
      by (simp add: serves_def assms(3,4) updating_def hash_set_def if_missing_def or_crash_def put_fields_def)
  next
    case False
    obtain m where m: "put_all map_put fs (Hash_Value h) = Some m" "map_get m = map_get (Hash_Value h) ++ map_of (rev fs)" "map_wf m"
    proof (cases "Hash_Value h = None")
      case True
      with False have "fs = []" by simp
      with that [of "Hash_Value h"] present(3) show thesis by simp
    next
      case False
      then show thesis using fields.put_all_writable [of "Hash_Value h" fs] present(3) that by auto
    qed
    obtain b where "write_hash C (h\<lparr>Hash_Value := m\<rparr>) = Commit b ()" "hash_typed C (Some b)"
        "hash_view C (Some b) = Some (map_get m)"
      using assms(1) m(3) by (rule write_hash_stored)
    with False present m show ?thesis
      by (auto simp: serves_def assms(3,4) updating_def hash_set_def if_missing_def or_crash_def put_fields_def)
  qed
qed

lemma delete_serves:
  assumes "proto_ok C" and "hash_typed C v"
  shows "serves C (Delete_Field f) v"
  using assms(2)
proof (cases rule: hash_read_cases)
  case missing
  then show ?thesis using assms(2) by (simp add: serves_def updating_def hash_delete_def)
next
  case (present h)
  obtain b where "write_hash C (h\<lparr>Hash_Value := map_delete f (Hash_Value h)\<rparr>) = Commit b ()" "hash_typed C (Some b)"
      "hash_view C (Some b) = Some (map_get (map_delete f (Hash_Value h)))"
    using assms(1) fields.del_wf [OF present(3)] by (rule write_hash_stored)
  then show ?thesis using present by (simp add: serves_def updating_def hash_delete_def fields.del_get)
qed

lemma replace_hash_serves:
  assumes "proto_ok C" and "hash_typed C v" and "map_wf (Hash_Value h)"
  shows "serves C (Replace_Hash h) v"
proof -
  have "map_wf (Hash_Value (h\<lparr>Hash_Key := []\<rparr>))" using assms(3) by simp
  with assms(1) obtain b h' where b: "MarshalHash C (h\<lparr>Hash_Key := []\<rparr>) = Inr b" "UnmarshalHash C b = Inr h'"
      "hash_decodes (h\<lparr>Hash_Key := []\<rparr>) h'" by (rule MarshalHash_ok)
  then show ?thesis
    by (simp add: serves_def hash_typed_def hash_view_def hash_of_def value_read_def decode_hash_def newByteValue_def
        hash_decodes_def map_get_empty)
qed

lemma read_serves:
  assumes "hash_typed C v" and "hash_request C op = reading C g"
    and "hash_does op None = (None, Err ErrKeyNotFound)"
    and "\<And>h. map_wf (Hash_Value h) \<Longrightarrow>
      hash_does op (Some (map_get (Hash_Value h))) = (Some (map_get (Hash_Value h)), look_outcome (g h))"
  shows "serves C op v"
  using assms(1) by (cases rule: hash_read_cases) (use assms in \<open>simp_all add: serves_def reading_def\<close>)

lemma sort_entries_dom:
  "map_wf h \<Longrightarrow> sort (map fst (map_entries h)) = sorted_list_of_set (dom (map_get h))" for h :: "bytes gomap"
  unfolding sorted_fields_def [symmetric] by (rule sort_entries)

lemma sorted_values:
  "map (\<lambda>key. case map_get h key of Some b \<Rightarrow> b | None \<Rightarrow> []) (sorted_list_of_set (dom (map_get h))) =
   map (\<lambda>f. the (map_get h f)) (sorted_list_of_set (dom (map_get h)))"
proof -
  have "finite (dom (map_get h))" by (simp add: map_get_def [abs_def] finite_dom_map_of)
  then have "set (sorted_list_of_set (dom (map_get h))) = dom (map_get h)" by simp
  then show ?thesis by (auto split: option.splits)
qed

lemma card_fields: "map_wf h \<Longrightarrow> card (dom (map_get h)) = length (map_entries h)"
  using card_image [of fst "set (map_entries h)"]
  by (simp add: map_wf_def map_get_def [abs_def] dom_map_of_conv_image_fst distinct_map distinct_card)

lemma present_fields_map:
  obtains nh where "put_all map_put (present_fields h fs) (Some []) = Some nh"
    "map_get nh = (\<lambda>f. if f \<in> set fs then map_get h f else None)"
proof -
  obtain nh where "put_all map_put (present_fields h fs) (Some []) = Some nh"
      "map_get nh = map_get (Some []) ++ map_of (rev (present_fields h fs))"
    using fields.put_all_writable [of "Some []" "present_fields h fs"] by (auto simp: map_wf_def map_entries_def)
  moreover from this(2) have "map_get nh = (\<lambda>f. if f \<in> set fs then map_get h f else None)"
    unfolding map_of_present_fields
    by (auto simp: map_add_def map_get_def [of "Some []"] map_entries_def fun_eq_iff split: option.splits)
  ultimately show thesis using that by blast
qed

lemma hash_op_serves:
  assumes "proto_ok C" and "hash_typed C v" and "go_op op"
  shows "serves C op v"
proof (cases op)
  case (Set_Field f x)
  show ?thesis by (rule put_serves [OF assms(1,2), of _ "[(f, x)]"]) (simp_all add: Set_Field fun_eq_iff)
next
  case (Set_Fields fs)
  show ?thesis by (rule put_serves [OF assms(1,2), of _ "map_entries fs"]) (simp_all add: Set_Fields fun_eq_iff)
next
  case (Delete_Field f)
  then show ?thesis using delete_serves [OF assms(1,2)] by simp
next
  case (Replace_Hash h)
  with replace_hash_serves [OF assms(1,2)] assms(3) show ?thesis by simp
next
  case (Get_Field f)
  show ?thesis unfolding Get_Field
    by (rule read_serves [OF assms(2)], simp, simp) (simp split: option.split)
next
  case (Has_Field f)
  show ?thesis unfolding Has_Field
    by (rule read_serves [OF assms(2)], simp, simp) auto
next
  case Field_Names
  show ?thesis unfolding Field_Names
    by (rule read_serves [OF assms(2)], simp, simp) (simp add: sort_entries_dom)
next
  case Whole_Hash
  show ?thesis unfolding Whole_Hash
    by (rule read_serves [OF assms(2)], simp, simp) (simp add: map_found_def)
next
  case (Get_Fields fs vs)
  let ?g = "\<lambda>h :: pb_Hash. map_option (\<lambda>nh. Inr (map_found (newHash nh)) :: go_error + hash_answer) (put_all map_put (present_fields (Hash_Value h) fs) (Some []))"
  have "look_outcome (?g h) = Ok (Map_Found (\<lambda>f. if f \<in> set fs then map_get (Hash_Value h) f else None))" for h
    by (rule present_fields_map [of "Hash_Value h" fs]) (simp add: map_found_def newHash_def)
  then show ?thesis unfolding Get_Fields
    by (intro read_serves [OF assms(2), where g = ?g]) simp_all
next
  case Size_Of
  show ?thesis unfolding Size_Of
    by (rule read_serves [OF assms(2)], simp, simp) (simp add: card_fields len64_def)
next
  case All_Values
  show ?thesis unfolding All_Values
    by (rule read_serves [OF assms(2)], simp, simp) (simp only: sort_entries_dom sorted_values hash_does.simps look_outcome_simps outcome_of_simps)
qed

section \<open>Any interleaving\<close>

lemma cautious_hash_requests: "cautious (hash_request C op)"
  by (cases op) (simp_all add: cautious_updating reading_def split: sum.split)

lemma hash_serial:
  assumes "proto_ok C" and "hash_typed C v0" and "\<And>i. go_op (ops i)"
  shows "hash_typed C (serial (\<lambda>i. hash_request C (ops i)) v0 is) \<and>
    hash_view C (serial (\<lambda>i. hash_request C (ops i)) v0 is) = hash_run ops (hash_view C v0) is"
proof (induction "is" rule: rev_induct)
  case (snoc i "is")
  let ?v = "serial (\<lambda>i. hash_request C (ops i)) v0 is"
  have "serves C (ops i) ?v" using assms(1,3) snoc.IH by (intro hash_op_serves) auto
  then have "hash_typed C (effect (hash_request C (ops i)) ?v)"
      "hash_view C (effect (hash_request C (ops i)) ?v) = fst (hash_does (ops i) (hash_view C ?v))"
    unfolding serves_def by (auto simp: prod_eq_iff)
  then show ?case using snoc.IH by simp
qed (use assms(2) in simp)

text \<open>
  C7. A hash as a map between clients.  Any number of clients replace one hash, set, delete,
  read and list its fields and values, interleaved in any order and with any failures of
  etcd (a hash that replaces it is a Go map, so no field is in it twice).  The key then
  holds what the requests that took effect make of its fields one after the other on an
  abstract map, and every answer given without an etcd error is the one of that map at the
  request's place in the order; a field whose setting was acknowledged keeps its value until
  a later request sets or deletes that very field.
\<close>

theorem hash_is_a_map:
  assumes "proto_ok C" and "\<not> invalid_key key" and "m0 ZeroByte \<noteq> Some ZeroByte"
    and "hash_typed C (m0 (StringToBytes key))" and "\<And>i. go_op (ops i)"
    and "rtranclp (clients_step key (\<lambda>i. hash_request C (ops i))) (started m0) c"
    and "s0 = hash_view C (m0 (StringToBytes key))"
  shows "hash_view C (space c (StringToBytes key)) = hash_run ops s0 (history c) \<and>
    (\<forall>i out. stage c i = Replied out \<longrightarrow> (\<exists>before after. history c = before @ i # after \<and>
       out = snd (hash_does (ops i) (hash_run ops s0 before)))) \<and>
    (\<forall>i f v before after. history c = before @ i # after \<and> ops i = Set_Field f v \<and>
       stage c i = Replied (Ok Stored) \<and> (\<forall>j\<in>set after. \<not> writes_field f (ops j)) \<longrightarrow>
       (\<exists>h. hash_view C (space c (StringToBytes key)) = Some h \<and> h f = Some v))"
proof -
  let ?req = "\<lambda>i. hash_request C (ops i)" and ?v0 = "m0 (StringToBytes key)"
  have inv: "clients_inv key ?req ?v0 c" by (rule run_inv [OF assms(2,3) cautious_hash_requests assms(6)])
  then have now: "space c (StringToBytes key) = serial ?req ?v0 (history c)" and dist: "distinct (history c)"
    unfolding clients_inv_def by blast+
  note runs = hash_serial [where ops = ops, OF assms(1,4,5)]
  have does: "hash_view C (space c (StringToBytes key)) = hash_run ops s0 (history c)"
    using runs [of "history c"] by (simp add: now assms(7))
  have answered: "\<exists>before after. history c = before @ i # after \<and>
      out = snd (hash_does (ops i) (hash_run ops s0 before))" if "stage c i = Replied out" for i out
  proof -
    from inv that obtain before after where h: "history c = before @ i # after"
      and out: "out = answer (?req i) (serial ?req ?v0 before)" unfolding clients_inv_def by blast
    have "serves C (ops i) (serial ?req ?v0 before)" using assms(1,5) runs [of before] by (intro hash_op_serves) auto
    then have "out = snd (hash_does (ops i) (hash_run ops s0 before))"
      using runs [of before] by (simp add: out serves_def assms(7) prod_eq_iff)
    with h show ?thesis by blast
  qed
  have kept: "\<exists>h. hash_run ops s0 (history c) = Some h \<and> h f = Some v"
    if h: "history c = before @ i # after" and op: "ops i = Set_Field f v" and ok: "stage c i = Replied (Ok Stored)"
      and later: "\<forall>j\<in>set after. \<not> writes_field f (ops j)" for i f v before after
  proof -
    from answered [OF ok] obtain before' after' where h': "history c = before' @ i # after'"
      and ok': "Ok Stored = snd (hash_does (ops i) (hash_run ops s0 before'))" by blast
    have "before' = before" by (rule split_once [OF dist h h'])
    with ok' have ok': "snd (put_fields [(f, v)] (hash_run ops s0 before)) = Ok Stored" by (simp add: op)
    then obtain g where "hash_run ops s0 (before @ [i]) = Some g" "g f = Some v"
      by (auto simp: op put_fields_def split: option.splits if_splits)
    moreover have "hash_run ops s0 (history c) = hash_run ops (hash_run ops s0 (before @ [i])) after"
      by (simp add: h hash_run_def)
    ultimately show ?thesis using hash_run_keeps [OF later, of g v] by simp
  qed
  show ?thesis using does answered kept by (simp add: does)
qed

text \<open>The witness: two clients set two fields of a missing key, and both are there.\<close>

definition demo_hash_ops :: "nat \<Rightarrow> hash_op" where
  "demo_hash_ops i = (if i = 0 then Set_Field ''a'' [1] else Set_Field ''b'' [2])"

lemma demo_hash_decodes:
  "es \<noteq> [] \<Longrightarrow> decode_hash memory_codec (newByteValue (hash_encoding es)) = Inr \<lparr>Hash_Key = [], Hash_Value = Some es\<rparr>"
  by (simp add: decode_hash_def memory_codec_def hash_encoding_def BytesToString_def pairs_concat)

lemma demo_hash_writes:
  "write_hash memory_codec \<lparr>Hash_Key = k, Hash_Value = Some es\<rparr> = Commit (hash_encoding es) ()"
  by (simp add: write_hash_def memory_codec_def hash_encoding_def map_entries_def StringToBytes_def)

lemma demo_hash_sets:
  "hash_set memory_codec [(f, v)] (value_read None) = Commit (hash_encoding [(f, v)]) ()"
  "hash_set memory_codec [(f, v)] (value_read (Some (hash_encoding [(g, w)]))) =
     Commit (hash_encoding (AList.update f v [(g, w)])) ()"
  by (simp_all add: hash_set_def value_read_def if_missing_def newHash_def or_crash_def map_put_def demo_hash_decodes
      demo_hash_writes)

lemma demo_hash_run:
  "\<exists>c. rtranclp (clients_step ''k'' (\<lambda>i. hash_request memory_codec (demo_hash_ops i))) (started Map.empty) c \<and>
     history c = [0, 1] \<and> stage c 0 = Replied (Ok Stored)"
proof -
  let ?req = "\<lambda>i. hash_request memory_codec (demo_hash_ops i)" and ?k = "StringToBytes ''k''" and ?l = "getLockName ''k''"
  let ?b1 = "hash_encoding [(''a'', [1])]" and ?b2 = "hash_encoding [(''a'', [1]), (''b'', [2])]"
  let ?c1 = "\<lparr>space = Map.empty(?l := None, ?k \<mapsto> ?b1), stage = (\<lambda>_. Wanting)(0 := Replied (Ok Stored)), history = [0]\<rparr>"
  let ?c2 = "\<lparr>space = (space ?c1)(?l := None, ?k \<mapsto> ?b2), stage = (stage ?c1)(1 := Replied (Ok Stored)), history = [0, 1]\<rparr>"
  have "rtranclp (clients_step ''k'' ?req) (started Map.empty) ?c1"
    using solo_commit [of ?req 0 _ "started Map.empty" "''k''" ?b1 Stored]
    by (simp add: demo_hash_ops_def updating_def started_def demo_hash_sets)
  moreover have "rtranclp (clients_step ''k'' ?req) ?c1 ?c2"
    using solo_commit [of ?req 1 _ ?c1 "''k''" ?b2 Stored]
    by (simp add: demo_hash_ops_def updating_def demo_hash_sets distinct_keys)
  ultimately have "rtranclp (clients_step ''k'' ?req) (started Map.empty) ?c2" by (rule rtranclp_trans)
  then show ?thesis by (intro exI [of _ ?c2]) simp
qed

theorem hash_is_a_map_witness:
  "\<exists>(c :: hash_answer clients) h. history c = [0, 1] \<and> hash_view memory_codec (space c (StringToBytes ''k'')) = Some h \<and>
     h ''a'' = Some [1] \<and> Some h = hash_run demo_hash_ops None [0, 1]"
proof -
  obtain c where c: "rtranclp (clients_step ''k'' (\<lambda>i. hash_request memory_codec (demo_hash_ops i))) (started Map.empty) c"
    "history c = [0, 1]" "stage c 0 = Replied (Ok Stored)" using demo_hash_run by blast
  have none: "hash_view memory_codec None = None" and ty: "hash_typed memory_codec (Map.empty (StringToBytes ''k''))"
    by (simp_all add: hash_typed_def hash_view_def hash_of_def value_read_def)
  have zero: "Map.empty ZeroByte \<noteq> Some ZeroByte" by simp
  have go: "go_op (demo_hash_ops i)" for i by (simp add: demo_hash_ops_def)
  note main = hash_is_a_map [OF memory_codec_ok invalid_key_k zero ty go c(1) refl]
  have "hash_view memory_codec (space c (StringToBytes ''k'')) = hash_run demo_hash_ops None [0, 1]"
    using main [THEN conjunct1] by (simp add: none c(2))
  moreover have "\<exists>h. hash_view memory_codec (space c (StringToBytes ''k'')) = Some h \<and> h ''a'' = Some [1]"
    using main [THEN conjunct2, THEN conjunct2, rule_format, of "[]" 0 "[1]" "''a''" "[1]"] c(2,3)
    by (simp add: demo_hash_ops_def)
  ultimately show ?thesis using c(2) by metis
qed

end
