(* ===== verification/Held_Locks.thy ===== *)
theory Held_Locks
  imports Server
begin

text \<open>
  What the requests of the service do to a key whose lock is held and whose holder is gone:
  all but a few leave the lock and the value alone, whatever their arguments and whatever
  etcd answers.  The few are the ones that remove a lock or a value without asking for the
  lock first: \<open>Unlock\<close>, \<open>UnlockThenSet\<close>, \<open>UnlockThenSetList\<close>, \<open>SetExpire\<close> and \<open>Clear\<close>.
\<close>

section \<open>The requests that leave a held lock alone\<close>

text \<open>The keys a request may lock or write; a request that reads has none.\<close>

fun key_targets :: "key_request \<Rightarrow> string list" where
  "key_targets (Req_SetExpire x) = [Expiration_Key x]"
| "key_targets (Req_Lock x) = [Key_Key x]"
| "key_targets (Req_LockWithTimeout x) = [Expiration_Key x]"
| "key_targets (Req_Unlock x) = [Key_Key x]"
| "key_targets (Req_UnlockThenSet x) = [ByteValue_Key x]"
| "key_targets (Req_UnlockThenSetList x) = [List_Key x]"
| "key_targets (Req_Delete x) = [Key_Key x]"
| "key_targets _ = []"

fun byte_targets :: "byte_request \<Rightarrow> string list" where
  "byte_targets (Req_Set x) = [ByteValue_Key x]"
| "byte_targets (Req_SetNX x) = [ByteValue_Key x]"
| "byte_targets (Req_SetMany x) = map fst (map_entries (Hash_Value x))"
| "byte_targets _ = []"

fun number_targets :: "number_request \<Rightarrow> string list" where
  "number_targets (Req_SetInt x) = [IntValue_Key x]"
| "number_targets (Req_SetFloat x) = [FloatValue_Key x]"
| "number_targets (Req_IncrementInt x) = [IntValue_Key x]"
| "number_targets (Req_DecrementInt x) = [IntValue_Key x]"
| "number_targets (Req_IncrementFloat x) = [FloatValue_Key x]"
| "number_targets (Req_DecrementFloat x) = [FloatValue_Key x]"
| "number_targets _ = []"

fun list_targets :: "list_request \<Rightarrow> string list" where
  "list_targets (Req_SetList x) = [List_Key x]"
| "list_targets (Req_SetListItem x) = [ListItem_Key x]"
| "list_targets (Req_ListLimit x) = [ListItem_Key x]"
| "list_targets (Req_ListInsert x) = [ListItem_Key x]"
| "list_targets (Req_ListAppend x) = [ListItem_Key x]"
| "list_targets (Req_ListPopLeft x) = [Key_Key x]"
| "list_targets (Req_ListPopRight x) = [Key_Key x]"
| "list_targets (Req_ListDelete x) = [ListItem_Key x]"
| "list_targets (Req_ListDeleteItem x) = [ListItem_Key x]"
| "list_targets _ = []"

fun hash_targets :: "hash_request \<Rightarrow> string list" where
  "hash_targets (Req_SetHash x) = [Hash_Key x]"
| "hash_targets (Req_SetHashField x) = [HashField_Key x]"
| "hash_targets (Req_SetHashFields x) = [Hash_Key x]"
| "hash_targets (Req_DelHashField x) = [HashField_Key x]"
| "hash_targets _ = []"

fun targets :: "request \<Rightarrow> string list" where
  "targets (Key_request x) = key_targets x"
| "targets (Byte_request x) = byte_targets x"
| "targets (Number_request x) = number_targets x"
| "targets (List_request x) = list_targets x"
| "targets (Hash_request x) = hash_targets x"

text \<open>The requests that do not ask for the lock of what they change.\<close>

fun by_force :: "request \<Rightarrow> bool" where
  "by_force (Key_request (Req_SetExpire x)) \<longleftrightarrow> True"
| "by_force (Key_request (Req_Unlock x)) \<longleftrightarrow> True"
| "by_force (Key_request (Req_UnlockThenSet x)) \<longleftrightarrow> True"
| "by_force (Key_request (Req_UnlockThenSetList x)) \<longleftrightarrow> True"
| "by_force (Key_request Req_Clear) \<longleftrightarrow> True"
| "by_force _ \<longleftrightarrow> False"

text \<open>A key whose name is the lock of the other: writing it is writing the lock.\<close>

definition lock_related :: "string \<Rightarrow> string \<Rightarrow> bool" where
  "lock_related key k \<longleftrightarrow> StringToBytes k = getLockName key \<or> getLockName k = StringToBytes key"

definition spares :: "string \<Rightarrow> request \<Rightarrow> bool" where
  "spares key req \<longleftrightarrow> req \<noteq> Key_request Req_Clear \<and> (\<forall>k\<in>set (targets req). \<not> lock_related key k) \<and>
     (by_force req \<longrightarrow> key \<notin> set (targets req))"

section \<open>The invariant\<close>

definition locked_with :: "string \<Rightarrow> bytes option \<Rightarrow> (bytes \<rightharpoonup> bytes) \<Rightarrow> bool" where
  "locked_with key v m \<longleftrightarrow> m (getLockName key) = Some ZeroByte \<and> m (StringToBytes key) = v"

named_theorems held_rules \<open>operations that keep a held lock and its value\<close>

text \<open>The transaction loop: refused while the lock is held.\<close>

lemma held_poll:
  assumes "\<And>m. locked_with key v m \<Longrightarrow> m (getLockName k) \<noteq> Some ZeroByte \<Longrightarrow> locked_with key v (run_ops ops m)"
  shows "keeps (always E kv (locked_with key v)) (looping (txn_poll E (if_unlocked k ops) once late))"
proof (rule keeps_txn_poll)
  show "keeps (always E kv (locked_with key v)) (call E (\<lambda>s. etcd_Txn E s (if_unlocked k ops)))"
    by (rule keeps_txn) (use assms in \<open>simp add: txn_branch_def\<close>)
qed (rule always_Sleep)

lemma held_refused_result:
  assumes "txn_poll E (if_unlocked key ops) once late w = Some (r, w')" and "always E kv (locked_with key v) w"
  shows "r \<noteq> Ok ()"
proof -
  have "always E kv (locked_with key v) w \<longrightarrow> (case p of (r, w') \<Rightarrow> r \<noteq> Ok ())"
    if "txn_poll E t once late w = Some p" "t = if_unlocked key ops" for t p
  proof (rule txn_poll.raw_induct [where P = "\<lambda>F T once late w p. F = E \<longrightarrow> T = if_unlocked key ops \<longrightarrow>
      always E kv (locked_with key v) w \<longrightarrow> (case p of (r, w') \<Rightarrow> r \<noteq> Ok ())",
      OF _ that(1), THEN mp, THEN mp, OF _ refl that(2)])
    fix f F T once late w p
    assume IH: "\<And>F T once late w p. f F T once late w = Some p \<Longrightarrow> F = E \<longrightarrow> T = if_unlocked key ops \<longrightarrow>
        always E kv (locked_with key v) w \<longrightarrow> (case p of (r, w') \<Rightarrow> r \<noteq> Ok ())"
      and eq: "(case call F (\<lambda>s. etcd_Txn F s T) w of (r, w1) \<Rightarrow>
        (case r of
           Ok res \<Rightarrow>
             (if \<not> Txn_Succeeded res then Some (Ok (), w1)
              else if once then Some (Err ErrKeyLocked, w1)
              else let w2 = Sleep F delay w1 in
                if late (clock w2) then Some (Err ErrKeyLocked, w2)
                else f F T once late w2)
         | Err e \<Rightarrow> Some (Err e, w1)
         | Panic \<Rightarrow> Some (Panic, w1)
         | Hang \<Rightarrow> Some (Hang, w1))) = Some p"
    show "F = E \<longrightarrow> T = if_unlocked key ops \<longrightarrow> always E kv (locked_with key v) w \<longrightarrow> (case p of (r, w') \<Rightarrow> r \<noteq> Ok ())"
    proof (intro impI)
      assume F: "F = E" and T: "T = if_unlocked key ops" and w: "always E kv (locked_with key v) w"
      obtain r1 w1 where c: "call E (\<lambda>s. etcd_Txn E s (if_unlocked key ops)) w = (r1, w1)" by fastforce
      have "keeps (always E kv (locked_with key v)) (call E (\<lambda>s. etcd_Txn E s (if_unlocked key ops)))"
        by (rule keeps_txn) (simp add: txn_branch_def locked_with_def)
      from keepsD [OF this w] c have w2: "always E kv (locked_with key v) (Sleep E delay w1)" by (simp add: always_Sleep)
      have "Txn_Succeeded res" if "r1 = Ok res" for res
      proof -
        let ?s = "others E (ticks w) (cache w)"
        obtain a s where a: "etcd_Txn E ?s (if_unlocked key ops) = (a, s)" by fastforce
        then have "a = Inr res" using c that by (cases a) (auto simp: call_simps)
        moreover have "locked_with key v (kv ?s)" "etcd_kv E kv" using w by (simp_all add: always_def)
        ultimately show ?thesis using etcd_txnD(2) [of E kv ?s "if_unlocked key ops" res] a by (simp add: locked_with_def)
      qed
      with eq IH [of E T once late "Sleep E delay w1" p] w2 show "case p of (r, w') \<Rightarrow> r \<noteq> Ok ()"
        unfolding F T c by (cases r1) (auto simp: Let_def split: if_splits)
    qed
  qed
  from this [OF assms(1) refl] assms(2) show ?thesis by simp
qed

lemma held_Lock [held_rules]:
  assumes "\<not> lock_related key (Key_Key k)"
  shows "keeps (always E kv (locked_with key v)) (Lock E ctx k)"
  unfolding Lock_def LockWithTimeout_def Let_def
  by (intro keep_rules held_poll) (use assms in \<open>auto simp: locked_with_def lock_related_def\<close>)

lemma held_LockWithTimeout [held_rules]:
  assumes "\<not> lock_related key (Expiration_Key ex)"
  shows "keeps (always E kv (locked_with key v)) (LockWithTimeout E ex)"
  unfolding LockWithTimeout_def Let_def
  by (intro keep_rules held_poll) (use assms in \<open>auto simp: locked_with_def lock_related_def\<close>)

text \<open>What follows a lock of the key itself does not run.\<close>

lemma held_Lock_refused:
  assumes "always E kv (locked_with (Key_Key k) v) w"
  shows "fst (Lock E ctx k w) \<noteq> Ok ()"
proof -
  let ?t = "if_unlocked (Key_Key k) [RequestPut \<lparr>Put_Key = getLockName (Key_Key k), Put_Value = ZeroByte, Put_Lease = 0\<rparr>]"
  have "fst (looping (txn_poll E ?t once late) w) \<noteq> Ok ()" for once late
  proof (cases "txn_poll E ?t once late w")
    case (Some p)
    with held_refused_result [where r = "fst p" and w' = "snd p", OF _ assms] show ?thesis by (simp add: looping_def)
  qed (simp add: looping_def)
  then show ?thesis by (simp add: Lock_def LockWithTimeout_def with_now_def Let_def)
qed

lemma held_locked:
  assumes "\<not> lock_related key (Key_Key k)"
    and "Key_Key k \<noteq> key \<Longrightarrow> keeps (always E kv (locked_with key v)) (f ())"
  shows "keeps (always E kv (locked_with key v)) (and_then (Lock E ctx k) f)"
proof (cases "Key_Key k = key")
  case True
  show ?thesis
  proof (rule keepsI)
    fix w assume w: "always E kv (locked_with key v) w"
    then have "fst (Lock E ctx k w) \<noteq> Ok ()" using held_Lock_refused True by blast
    moreover have "always E kv (locked_with key v) (snd (Lock E ctx k w))" using keepsD [OF held_Lock [OF assms(1)] w] .
    ultimately show "always E kv (locked_with key v) (snd (and_then (Lock E ctx k) f w))"
      by (auto simp: and_then_def split: prod.split outcome.split)
  qed
next
  case False
  show ?thesis
    by (rule keeps_and_then [OF held_Lock [OF assms(1)]]) (use assms(2) False in simp)
qed

section \<open>Writes\<close>

lemma held_Delete [held_rules]:
  assumes "StringToBytes (Key_Key k) \<noteq> getLockName key"
  shows "keeps (always E kv (locked_with key v)) (Delete E ctx k)"
  unfolding Delete_def Let_def
  by (intro keep_rules held_poll) (use assms in \<open>auto simp: locked_with_def\<close>)

lemma held_Unlock [held_rules]:
  assumes "\<not> lock_related key (Key_Key k)" and "Key_Key k \<noteq> key"
  shows "keeps (always E kv (locked_with key v)) (Unlock E ctx k)"
  unfolding Unlock_def Delete_def Let_def
  by (intro keep_rules held_poll) (use assms in \<open>auto simp: locked_with_def lock_related_def newKey_def\<close>)

lemma held_Set [held_rules]:
  assumes "StringToBytes (ByteValue_Key x) \<noteq> getLockName key"
  shows "keeps (always E kv (locked_with key v)) (Set E ctx x)"
  unfolding Set_def Let_def
  by (intro keep_rules held_poll) (use assms in \<open>auto simp: locked_with_def\<close>)

lemma held_UnlockThenSet [held_rules]:
  assumes "\<not> lock_related key (ByteValue_Key x)" and "ByteValue_Key x \<noteq> key"
  shows "keeps (always E kv (locked_with key v)) (UnlockThenSet E x)"
  unfolding UnlockThenSet_def
  by (intro keep_rules keeps_txn) (use assms in \<open>auto simp: locked_with_def lock_related_def txn_branch_def\<close>)

lemma held_SetExpire [held_rules]:
  assumes "\<not> lock_related key (Expiration_Key x)" and "Expiration_Key x \<noteq> key"
  shows "keeps (always E kv (locked_with key v)) (SetExpire E x)"
  unfolding SetExpire_def
  by (intro keep_rules keeps_put) (use assms in \<open>auto simp: locked_with_def lock_related_def\<close>)

lemma held_unlock_fail [held_rules]:
  assumes "\<not> lock_related key (Key_Key k)" and "Key_Key k \<noteq> key"
  shows "keeps (always E kv (locked_with key v)) (unlock_fail E ctx k err)"
  unfolding unlock_fail_def by (intro keep_rules held_Unlock assms)

lemma held_setMany_loop:
  "\<forall>k\<in>set (map fst xs). StringToBytes k \<noteq> getLockName key \<Longrightarrow>
     keeps (always E kv (locked_with key v)) (setMany_loop E ctx xs errs)"
  by (induction xs arbitrary: errs) (auto intro!: keep_rules held_Set)

section \<open>Reads\<close>

named_theorems read_rules \<open>operations that write nothing\<close>

lemma read_Get [read_rules]: "keeps (always E kv J) (Get E key)"
  unfolding Get_def Get_once_def
  by (intro keeps_Get_with_range keeps_block_poll keeps_panic always_Sleep)

lemma read_Keys [read_rules]: "keeps (always E kv J) (Keys E)"
  unfolding Keys_def by (intro keep_rules)

lemma read_KeysWithPrefix [read_rules]: "keeps (always E kv J) (KeysWithPrefix E key)"
  unfolding KeysWithPrefix_def by (intro keep_rules)

lemma read_Has [read_rules]: "keeps (always E kv J) (Has E key)"
  unfolding Has_def by (intro keep_rules)

lemma read_GetMany [read_rules]: "keeps (always E kv J) (GetMany E keys)"
proof -
  have "run_ops (map (\<lambda>key. RequestRange (f key)) keys) m = m" for f and m :: "bytes \<rightharpoonup> bytes"
    by (induction keys arbitrary: m) simp_all
  then show ?thesis
    unfolding GetMany_def by (intro keep_rules keeps_txn) (simp add: txn_branch_def)
qed

lemma read_GetWithPrefix [read_rules]: "keeps (always E kv J) (GetWithPrefix E key)"
  unfolding GetWithPrefix_def by (intro keep_rules)

lemma read_Length [read_rules]: "keeps (always E kv J) (Length E x)"
  unfolding Length_def Let_def by (intro keep_rules read_rules)

lemma read_GetInt [read_rules]: "keeps (always E kv J) (GetInt E C x)"
  unfolding GetInt_def Let_def by (intro keep_rules read_rules)

lemma read_GetFloat [read_rules]: "keeps (always E kv J) (GetFloat E C x)"
  unfolding GetFloat_def Let_def by (intro keep_rules read_rules)

lemma read_GetList [read_rules]: "keeps (always E kv J) (GetList E C x)"
  unfolding GetList_def Let_def by (intro keep_rules read_rules)

lemma read_GetListItem [read_rules]: "keeps (always E kv J) (GetListItem E C x)"
  unfolding GetListItem_def Let_def by (intro keep_rules read_rules)

lemma read_ListLength [read_rules]: "keeps (always E kv J) (ListLength E C x)"
  unfolding ListLength_def Let_def by (intro keep_rules read_rules)

lemma read_ListHas [read_rules]: "keeps (always E kv J) (ListHas E C x)"
  unfolding ListHas_def Let_def by (intro keep_rules read_rules)

lemma read_GetHash [read_rules]: "keeps (always E kv J) (GetHash E C x)"
  unfolding GetHash_def Let_def by (intro keep_rules read_rules)

lemma read_GetHashField [read_rules]: "keeps (always E kv J) (GetHashField E C x)"
  unfolding GetHashField_def Let_def by (intro keep_rules read_rules)

lemma read_GetHashFields [read_rules]: "keeps (always E kv J) (GetHashFields E C x)"
  unfolding GetHashFields_def Let_def by (intro keep_rules read_rules)

lemma read_HashHas [read_rules]: "keeps (always E kv J) (HashHas E C x)"
  unfolding HashHas_def Let_def by (intro keep_rules read_rules)

lemma read_HashLength [read_rules]: "keeps (always E kv J) (HashLength E C x)"
  unfolding HashLength_def Let_def by (intro keep_rules read_rules)

lemma read_HashFields [read_rules]: "keeps (always E kv J) (HashFields E C x)"
  unfolding HashFields_def Let_def by (intro keep_rules read_rules)

lemma read_HashValues [read_rules]: "keeps (always E kv J) (HashValues E C x)"
  unfolding HashValues_def Let_def by (intro keep_rules read_rules)

section \<open>Updates\<close>

lemma held_UnlockThenSetList [held_rules]:
  assumes "\<not> lock_related key (List_Key x)" and "List_Key x \<noteq> key"
  shows "keeps (always E kv (locked_with key v)) (UnlockThenSetList E C x)"
  unfolding UnlockThenSetList_def Let_def by (intro keep_rules held_rules) (use assms in simp_all)

lemma held_UnlockThenSetHash [held_rules]:
  assumes "\<not> lock_related key (Hash_Key x)" and "Hash_Key x \<noteq> key"
  shows "keeps (always E kv (locked_with key v)) (UnlockThenSetHash E C x)"
  unfolding UnlockThenSetHash_def Let_def by (intro keep_rules held_rules) (use assms in simp_all)

lemma limited_key: "enforceListLimit lst = Some lst' \<Longrightarrow> List_Key lst' = List_Key lst"
  by (auto simp: enforceListLimit_def Let_def split: if_splits option.splits)

lemma held_SetNX [held_rules]:
  assumes "\<not> lock_related key (ByteValue_Key x)"
  shows "keeps (always E kv (locked_with key v)) (SetNX E ctx x)"
  unfolding SetNX_def Let_def
  by (rule held_locked) (use assms in \<open>auto simp: newKey_def intro!: keep_rules held_rules read_rules\<close>)

lemma held_SetInt [held_rules]:
  assumes "StringToBytes (IntValue_Key x) \<noteq> getLockName key"
  shows "keeps (always E kv (locked_with key v)) (SetInt E C ctx x)"
  unfolding SetInt_def Let_def by (intro keep_rules held_rules) (use assms in simp_all)

lemma held_SetFloat [held_rules]:
  assumes "StringToBytes (FloatValue_Key x) \<noteq> getLockName key"
  shows "keeps (always E kv (locked_with key v)) (SetFloat E C ctx x)"
  unfolding SetFloat_def Let_def by (intro keep_rules held_rules) (use assms in simp_all)

lemma held_SetList [held_rules]:
  assumes "StringToBytes (List_Key x) \<noteq> getLockName key"
  shows "keeps (always E kv (locked_with key v)) (SetList E C ctx x)"
  unfolding SetList_def Let_def by (intro keep_rules held_rules) (use assms in simp_all)

lemma held_SetHash [held_rules]:
  assumes "StringToBytes (Hash_Key x) \<noteq> getLockName key"
  shows "keeps (always E kv (locked_with key v)) (SetHash E C ctx x)"
  unfolding SetHash_def Let_def by (intro keep_rules held_rules) (use assms in simp_all)

lemma held_IncrementInt [held_rules]:
  assumes "\<not> lock_related key (IntValue_Key x)"
  shows "keeps (always E kv (locked_with key v)) (IncrementInt E C ctx x)"
  unfolding IncrementInt_def Let_def
  by (rule held_locked, simp add: assms newKey_def)
    ((intro keep_rules held_rules read_rules)?; use assms in \<open>simp add: newKey_def limited_key\<close>)

lemma held_IncrementFloat [held_rules]:
  assumes "\<not> lock_related key (FloatValue_Key x)"
  shows "keeps (always E kv (locked_with key v)) (IncrementFloat E C ctx x)"
  unfolding IncrementFloat_def Let_def
  by (rule held_locked, simp add: assms newKey_def)
    ((intro keep_rules held_rules read_rules)?; use assms in \<open>simp add: newKey_def limited_key\<close>)

lemma held_SetListItem [held_rules]:
  assumes "\<not> lock_related key (ListItem_Key x)"
  shows "keeps (always E kv (locked_with key v)) (SetListItem E C ctx x)"
  unfolding SetListItem_def Let_def
  by (rule held_locked, simp add: assms newKey_def)
    ((intro keep_rules held_rules read_rules)?; use assms in \<open>simp add: newKey_def limited_key\<close>)

lemma held_ListLimit [held_rules]:
  assumes "\<not> lock_related key (ListItem_Key x)"
  shows "keeps (always E kv (locked_with key v)) (ListLimit E C ctx x)"
  unfolding ListLimit_def Let_def
  by (rule held_locked, simp add: assms newKey_def)
    ((intro keep_rules held_rules read_rules)?; use assms in \<open>simp add: newKey_def limited_key\<close>)

lemma held_ListInsert [held_rules]:
  assumes "\<not> lock_related key (ListItem_Key x)"
  shows "keeps (always E kv (locked_with key v)) (ListInsert E C ctx x)"
  unfolding ListInsert_def Let_def
  by (rule held_locked, simp add: assms newKey_def)
    ((intro keep_rules held_rules read_rules)?; use assms in \<open>simp add: newKey_def limited_key\<close>)

lemma held_ListAppend [held_rules]:
  assumes "\<not> lock_related key (ListItem_Key x)"
  shows "keeps (always E kv (locked_with key v)) (ListAppend E C ctx x)"
  unfolding ListAppend_def Let_def
  by (rule held_locked, simp add: assms newKey_def)
    ((intro keep_rules held_rules read_rules)?; use assms in \<open>simp add: newKey_def limited_key\<close>)

lemma held_ListDelete [held_rules]:
  assumes "\<not> lock_related key (ListItem_Key x)"
  shows "keeps (always E kv (locked_with key v)) (ListDelete E C ctx x)"
  unfolding ListDelete_def Let_def
  by (rule held_locked, simp add: assms newKey_def)
    ((intro keep_rules held_rules read_rules)?; use assms in \<open>simp add: newKey_def limited_key\<close>)

lemma held_ListDeleteItem [held_rules]:
  assumes "\<not> lock_related key (ListItem_Key x)"
  shows "keeps (always E kv (locked_with key v)) (ListDeleteItem E C ctx x)"
  unfolding ListDeleteItem_def Let_def
  by (rule held_locked, simp add: assms newKey_def)
    ((intro keep_rules held_rules read_rules)?; use assms in \<open>simp add: newKey_def limited_key\<close>)

lemma held_SetHashField [held_rules]:
  assumes "\<not> lock_related key (HashField_Key x)"
  shows "keeps (always E kv (locked_with key v)) (SetHashField E C ctx x)"
  unfolding SetHashField_def Let_def
  by (rule held_locked, simp add: assms newKey_def)
    ((intro keep_rules held_rules read_rules)?; use assms in \<open>simp add: newKey_def limited_key\<close>)

lemma held_SetHashFields [held_rules]:
  assumes "\<not> lock_related key (Hash_Key x)"
  shows "keeps (always E kv (locked_with key v)) (SetHashFields E C ctx x)"
  unfolding SetHashFields_def Let_def
  by (rule held_locked, simp add: assms newKey_def)
    ((intro keep_rules held_rules read_rules)?; use assms in \<open>simp add: newKey_def limited_key\<close>)

lemma held_DelHashField [held_rules]:
  assumes "\<not> lock_related key (HashField_Key x)"
  shows "keeps (always E kv (locked_with key v)) (DelHashField E C ctx x)"
  unfolding DelHashField_def Let_def
  by (rule held_locked, simp add: assms newKey_def)
    ((intro keep_rules held_rules read_rules)?; use assms in \<open>simp add: newKey_def limited_key\<close>)

lemma held_DecrementInt [held_rules]:
  assumes "\<not> lock_related key (IntValue_Key x)"
  shows "keeps (always E kv (locked_with key v)) (DecrementInt E C ctx x)"
  unfolding DecrementInt_def by (intro held_rules) (use assms in simp)

lemma held_DecrementFloat [held_rules]:
  assumes "\<not> lock_related key (FloatValue_Key x)"
  shows "keeps (always E kv (locked_with key v)) (DecrementFloat E C ctx x)"
  unfolding DecrementFloat_def by (intro held_rules) (use assms in simp)

lemma held_pop_with:
  assumes "\<not> lock_related key (Key_Key k)" and "keeps (always E kv (locked_with key v)) blocked"
  shows "keeps (always E kv (locked_with key v)) (pop_with E C ctx pop blocked k)"
  unfolding pop_with_def Let_def
  by (rule held_locked, simp add: assms) ((intro keep_rules held_rules read_rules assms(2))?; use assms in simp)

lemma held_pop_blocking:
  assumes "\<not> lock_related key (Key_Key k)"
  shows "keeps (always E kv (locked_with key v)) (pop_blocking E C ctx pop k)"
  unfolding pop_blocking_def
  by (intro held_pop_with keeps_block_poll keeps_panic always_Sleep) (use assms in simp_all)

lemma held_ListPopLeft [held_rules]:
  "\<not> lock_related key (Key_Key k) \<Longrightarrow> keeps (always E kv (locked_with key v)) (ListPopLeft E C ctx k)"
  unfolding ListPopLeft_def by (rule held_pop_blocking)

lemma held_ListPopRight [held_rules]:
  "\<not> lock_related key (Key_Key k) \<Longrightarrow> keeps (always E kv (locked_with key v)) (ListPopRight E C ctx k)"
  unfolding ListPopRight_def by (rule held_pop_blocking)

section \<open>The requests\<close>

lemma not_lock_related: "\<not> lock_related key k \<Longrightarrow> StringToBytes k \<noteq> getLockName key"
  by (simp add: lock_related_def)

text \<open>A request that spares the key keeps its lock and its value.\<close>

lemma held_serve_key:
  assumes "spares key (Key_request x)"
  shows "keeps (always E kv (locked_with key v)) (serve_key E C ctx x)"
  using assms by (cases x) (auto simp: spares_def erase_def intro!: keep_rules held_rules read_rules not_lock_related)

lemma held_serve_byte:
  assumes "spares key (Byte_request x)"
  shows "keeps (always E kv (locked_with key v)) (serve_byte E C ctx x)"
proof (cases x)
  case (Req_SetMany h)
  then show ?thesis using assms
    by (simp add: spares_def erase_def SetMany_def) (intro keep_rules held_setMany_loop, simp add: not_lock_related)
qed (use assms in \<open>auto simp: spares_def erase_def intro!: keep_rules held_rules read_rules not_lock_related\<close>)

lemma held_serve_number:
  assumes "spares key (Number_request x)"
  shows "keeps (always E kv (locked_with key v)) (serve_number E C ctx x)"
  using assms by (cases x) (auto simp: spares_def erase_def intro!: keep_rules held_rules read_rules not_lock_related)

lemma held_serve_list:
  assumes "spares key (List_request x)"
  shows "keeps (always E kv (locked_with key v)) (serve_list E C ctx x)"
  using assms by (cases x) (auto simp: spares_def erase_def intro!: keep_rules held_rules read_rules not_lock_related)

lemma held_serve_hash:
  assumes "spares key (Hash_request x)"
  shows "keeps (always E kv (locked_with key v)) (serve_hash E C ctx x)"
  using assms by (cases x) (auto simp: spares_def erase_def intro!: keep_rules held_rules read_rules not_lock_related)

lemma held_serve:
  assumes "spares key req"
  shows "keeps (always E kv (locked_with key v)) (serve E C ctx req)"
  using assms
  by (cases req) (simp_all add: held_serve_key held_serve_byte held_serve_number held_serve_list held_serve_hash)

lemma held_serve_all:
  "\<forall>x\<in>set reqs. spares key (snd x) \<Longrightarrow> keeps (always E kv (locked_with key v)) (serve_all E C reqs)"
  by (induction reqs) (auto intro!: keep_rules held_serve)

end
