(* ===== verification/Abandoned_Locks.thy ===== *)
theory Abandoned_Locks
  imports Concurrent_Hashes Held_Locks
begin

text \<open>
  What becomes of a key when a request on it ends without releasing its lock, by a panic or
  by forgetting to: the key is locked, and stays so until a client removes the lock or the
  value on purpose, by a command that does not ask for the lock.
\<close>

section \<open>A lock nobody will release\<close>

text \<open>The updates that end with the lock held.\<close>

fun abandons :: "'x request \<Rightarrow> bytes option \<Rightarrow> bool" where
  "abandons (Update decide) v \<longleftrightarrow> (case decide (value_read v) of Leave_locked r \<Rightarrow> True | Crash \<Rightarrow> True | _ \<Rightarrow> False)"
| "abandons req v \<longleftrightarrow> False"

fun is_look :: "'x request \<Rightarrow> bool" where
  "is_look (Look f) \<longleftrightarrow> True"
| "is_look req \<longleftrightarrow> False"

definition stuck :: "string \<Rightarrow> 'x clients \<Rightarrow> bool" where
  "stuck key c \<longleftrightarrow> space c (getLockName key) = Some ZeroByte \<and> (\<forall>j. \<not> in_section (stage c j))"

lemma guarded_lock: "guarded key req = Some (t, x) \<Longrightarrow> compares m t \<longleftrightarrow> m (getLockName key) = Some ZeroByte"
  by (cases req) (auto simp: set_txn_def delete_txn_def)

lemma guarded_held: "guarded key req = Some (t, x) \<Longrightarrow> m (getLockName key) = Some ZeroByte \<Longrightarrow> run_txn t m = m"
  by (cases req) (auto simp: set_txn_def delete_txn_def run_txn_def txn_branch_def)

text \<open>Under such a lock a request can only be refused, fail, or look.\<close>

lemma stuck_own_step:
  assumes "own_step key req m p m' p'" and "m (getLockName key) = Some ZeroByte" and "\<not> in_section p"
  shows "m' = m \<and> \<not> in_section p' \<and> (\<forall>out. p' = Replied out \<longrightarrow> is_look req)"
  using assms(1)
proof cases
  case (lock_failed decide msg)
  have "run_txn (lock_txn key) m = m" using assms(2) by (simp add: lock_txn_def run_txn_def txn_branch_def)
  then show ?thesis using lock_failed by auto
next
  case (txn_run t x)
  then show ?thesis using guarded_lock [of key req t x m] assms(2) by simp
next
  case (txn_failed t x msg)
  then show ?thesis using guarded_held [of key req t x m] assms(2) by auto
qed (use assms(2,3) in \<open>auto simp: lock_txn_def\<close>)

lemma stuck_step:
  assumes "stuck key c" and "clients_step key req c c'"
  shows "stuck key c' \<and> space c' (StringToBytes key) = space c (StringToBytes key) \<and>
    (\<exists>later. history c' = history c @ later \<and> (\<forall>j\<in>set later. is_look (req j)))"
  using assms(2)
proof cases
  case (Move i m' p')
  then have "m' = space c \<and> \<not> in_section p' \<and> (\<forall>out. p' = Replied out \<longrightarrow> is_look (req i))"
    using assms(1) stuck_own_step [of key "req i" "space c" "stage c i" m' p'] by (simp add: stuck_def)
  then show ?thesis using assms(1) Move by (auto simp: stuck_def takes_effect_def split: progress.splits)
next
  case (Elsewhere m')
  then show ?thesis using assms(1) by (simp add: stuck_def)
qed

lemma stuck_steps:
  assumes "rtranclp (clients_step key req) c c'" and "stuck key c"
  shows "stuck key c' \<and> space c' (StringToBytes key) = space c (StringToBytes key) \<and>
    (\<exists>later. history c' = history c @ later \<and> (\<forall>j\<in>set later. is_look (req j)))"
  using assms(1)
proof induction
  case (step c1 c2)
  then show ?case using stuck_step [of key c1 req c2] by fastforce
qed (use assms(2) in simp)

text \<open>A request that abandons its lock leaves the key stuck.\<close>

lemma abandoning_step:
  assumes inv: "clients_inv key req v0 c" and step: "own_step key (req i) (space c) (stage c i) m' (Replied out)"
    and abandons: "abandons (req i) (space c (StringToBytes key))"
  shows "stuck key \<lparr>space = m', stage = (stage c)(i := Replied out), history = h\<rparr> \<and> m' = space c"
proof -
  obtain decide where req: "req i = Update decide" using abandons by (cases "req i") simp_all
  have decided: "well_decided (req i) (space c (StringToBytes key)) (stage c i)"
    using inv unfolding clients_inv_def by blast
  from step obtain d where settled: "stage c i = Settled True d" and "m' = space c"
  proof cases
    case (written ok b x)
    then show thesis using that decided abandons by (cases ok) (auto simp: req over_def)
  next
    case (release ok r)
    then show thesis using that decided abandons by (cases ok) (auto simp: req over_def)
  next
    case (leave ok r)
    then show thesis using that by (cases ok) (auto simp: over_def)
  next
    case (crash ok)
    then show thesis using that by (cases ok) (auto simp: over_def)
  qed (use req in simp_all)
  moreover have "in_section (stage c i)" by (simp add: settled)
  then have "space c (getLockName key) = Some ZeroByte" and "\<And>j. in_section (stage c j) \<Longrightarrow> j = i"
    using inv unfolding clients_inv_def by blast+
  ultimately show ?thesis by (auto simp: stuck_def)
qed

lemma abandoned_stuck:
  assumes "\<not> invalid_key key" and "m0 ZeroByte \<noteq> Some ZeroByte" and "\<And>i. cautious (req i)"
    and "rtranclp (clients_step key req) (started m0) c" and "v0 = m0 (StringToBytes key)"
    and "history c = before @ i # after" and "stage c i = Replied out" and "abandons (req i) (serial req v0 before)"
  shows "stuck key c \<and> space c (StringToBytes key) = serial req v0 before \<and> (\<forall>j\<in>set after. is_look (req j))"
  using assms(4,6-8)
proof (induction arbitrary: after rule: rtranclp_induct)
  case (step c1 c2)
  have inv: "clients_inv key req v0 c1" by (rule run_inv [OF assms(1-3) step.hyps(1), folded assms(5)])
  show ?case
  proof (cases "i \<in> set (history c1)")
    case True
    then obtain before1 after1 where h1: "history c1 = before1 @ i # after1" by (meson split_list)
    have replied: "reply (stage c1 i) \<noteq> None" using inv True unfolding clients_inv_def by (metis option.distinct(1) reply.simps(2,3))
    obtain later where h2: "history c2 = history c1 @ later" and same: "stage c2 i = stage c1 i"
      using history_step [OF step.hyps(2)] replied by blast
    have dist: "distinct (history c2)" using inv_step [OF inv assms(1,3) step.hyps(2)] unfolding clients_inv_def by blast
    have "before1 = before" by (rule split_once [OF dist step.prems(1)]) (simp add: h2 h1)
    with h1 step.IH [of after1] step.prems(2,3) same
    have IH: "stuck key c1" "space c1 (StringToBytes key) = serial req v0 before" "\<forall>j\<in>set after1. is_look (req j)" by simp_all
    from stuck_step [OF IH(1) step.hyps(2)] obtain later where
      "stuck key c2" "space c2 (StringToBytes key) = space c1 (StringToBytes key)"
      "history c2 = history c1 @ later" "\<forall>j\<in>set later. is_look (req j)" by blast
    moreover from this have "after = after1 @ later" using h1 \<open>before1 = before\<close> step.prems(1) by simp
    ultimately show ?thesis using IH by auto
  next
    case False
    from step.hyps(2) show ?thesis
    proof cases
      case (Move j m' p')
      have "i \<in> set (history c2)" by (simp add: step.prems(1))
      with False Move(1) have j: "j = i" and h: "history c2 = history c1 @ [i]" by (auto split: if_splits)
      then have "before @ i # after = history c1 @ [i]" using step.prems(1) by simp
      with False have split: "history c1 = before \<and> after = []" by (cases after rule: rev_exhaust) (auto, metis in_set_conv_decomp)
      have now: "space c1 (StringToBytes key) = serial req v0 before" using inv split unfolding clients_inv_def by simp
      have "p' = Replied out" using step.prems(2) Move(1) j by simp
      with abandoning_step [OF inv, of i m' out "history c2"] Move j step.prems(3) now split h
      show ?thesis by auto
    next
      case (Elsewhere m')
      then show ?thesis using False step.prems(1) by auto
    qed
  qed
qed (simp add: started_def)

text \<open>
  Requests that abandon their lock: a field set in a hash that was emptied, an item deleted
  that is not in the list, an item set just past the end of the list.
\<close>

lemma emptied_hash_abandons:
  assumes "hash_typed C v" and "hash_view C v = Some Map.empty"
  shows "abandons (hash_request C (Set_Field f x)) v"
  using assms(1)
proof (cases rule: hash_read_cases)
  case (present h)
  then have "Hash_Value h = None" using assms(2) by simp
  with present(1) show ?thesis
    by (simp add: updating_def hash_set_def if_missing_def or_crash_def fields.put_nil)
qed (use assms(2) in simp)

lemma missing_item_abandons:
  assumes "list_typed C v" and "v \<noteq> None" and "x \<notin> set (items C v)" and "go_slice (items C v)"
  shows "abandons (list_request C (Delete_Value x)) v"
  using assms(1)
proof (cases rule: list_read_cases)
  case missing
  then show ?thesis using assms(1,2) by (cases v) (auto simp: list_typed_def list_of_def)
next
  case (present lst)
  have "find_index x 0 (items C v) = - 1"
    using find_index_range [of 0 "items C v" x] assms(3,4) by (simp add: go_slice_def)
  with present show ?thesis by (simp add: updating_def list_delete_item_def)
qed

lemma past_end_abandons:
  assumes "list_typed C v" and "items C v \<noteq> []" and "go_slice (items C v)" and "i = len64 (items C v)"
  shows "abandons (list_request C (Assign i x)) v"
  using assms(1)
proof (cases rule: list_read_cases)
  case missing
  then show ?thesis using assms(2) by simp
next
  case (present lst)
  have l: "sint (len64 (items C v)) = int (length (items C v))" using assms(3) by (rule sint_len64)
  have "len64 (items C v) \<noteq> 0" using l assms(2) by auto
  moreover have "sint (len64 (items C v) - 1) = int (length (items C v)) - 1" using l by (subst sint_minus_one) simp_all
  moreover have "slice_set (items C v) (len64 (items C v)) x = None" by (simp add: slice_set_def l)
  ultimately show ?thesis using present l
    by (simp add: updating_def list_set_def Let_def assms(4) or_crash_def)
qed

lemma Unlock_key:
  "getLockName (BytesToString (getLockName key)) \<in> K \<Longrightarrow>
   m (getLockName (BytesToString (getLockName key))) \<noteq> Some ZeroByte \<Longrightarrow>
   runs (stores E kv K m) (Unlock E ctx (newKey key)) (Ok ()) (stores E kv K (m(getLockName key := None)))"
  using Unlock_free [of "newKey key" K m E kv ctx] by (simp add: newKey_def)

text \<open>
  C8. An abandoned lock stays.  Clients run any updates, \<open>Set\<close>s, \<open>Delete\<close>s and reads on one
  key, interleaved in any order and with any failures of etcd.  Once one of them was answered
  by an update that panicked, or returned without releasing the lock it took, the key is
  locked though nobody is between lock and release: its value is the one that request found,
  and of the requests after it only those that merely look are answered.  From there on no
  sequence of requests of the whole service, beside whatever others do that keeps the lock
  and the value, changes either, except for \<open>Clear\<close>, for \<open>Unlock\<close>, \<open>UnlockThenSet\<close>,
  \<open>UnlockThenSetList\<close> and \<open>SetExpire\<close> of this very key, and for requests that address the
  lock by its own name (or a key whose lock this key is); \<open>Unlock\<close> of the key does release it,
  with the value as it was.
\<close>

theorem abandoned_lock_stays:
  assumes "\<not> invalid_key key" and "m0 ZeroByte \<noteq> Some ZeroByte" and "\<And>i. cautious (req i)"
    and "rtranclp (clients_step key req) (started m0) c"
    and "history c = before @ i # after" and "stage c i = Replied out"
    and "abandons (req i) (serial req (m0 (StringToBytes key)) before)"
    and "etcd_kv E kv" and "\<And>n s. locked_with key (space c (StringToBytes key)) (kv s) \<Longrightarrow>
      locked_with key (space c (StringToBytes key)) (kv (others E n s))"
    and "kv (cache w) = space c" and "\<forall>x\<in>set reqs. spares key (snd x)"
  shows "space c (getLockName key) = Some ZeroByte \<and>
    space c (StringToBytes key) = serial req (m0 (StringToBytes key)) before \<and>
    (\<forall>j. \<not> in_section (stage c j)) \<and> (\<forall>j\<in>set after. is_look (req j)) \<and>
    (\<forall>j out. stage c j = Replied out \<and> \<not> is_look (req j) \<longrightarrow> j = i \<or> j \<in> set before) \<and>
    kv (cache (snd (serve_all E C reqs w))) (getLockName key) = Some ZeroByte \<and>
    kv (cache (snd (serve_all E C reqs w))) (StringToBytes key) = space c (StringToBytes key) \<and>
    (\<forall>K ctx. getLockName (BytesToString (getLockName key)) \<in> K \<and>
         space c (getLockName (BytesToString (getLockName key))) \<noteq> Some ZeroByte \<longrightarrow>
       runs (stores E kv K (space c)) (Unlock E ctx (newKey key)) (Ok ())
         (stores E kv K ((space c)(getLockName key := None))))"
proof -
  have stuck: "stuck key c" "space c (StringToBytes key) = serial req (m0 (StringToBytes key)) before"
    and looks: "\<forall>j\<in>set after. is_look (req j)"
    using abandoned_stuck [OF assms(1-4) refl assms(5-7)] by blast+
  have "j = i \<or> j \<in> set before" if reply: "stage c j = Replied out'" and change: "\<not> is_look (req j)" for j out'
  proof -
    obtain b a where "history c = b @ j # a" using run_inv [OF assms(1-4)] reply unfolding clients_inv_def by blast
    then have "j \<in> set (history c)" by simp
    with change looks show ?thesis by (auto simp: assms(5))
  qed
  moreover have "kv (cache (snd (serve_all E C reqs w))) (getLockName key) = Some ZeroByte \<and>
      kv (cache (snd (serve_all E C reqs w))) (StringToBytes key) = space c (StringToBytes key)"
  proof -
    have "always E kv (locked_with key (space c (StringToBytes key))) w"
      using assms(8-10) stuck(1) by (simp add: always_def stuck_def) (simp add: locked_with_def)
    from keepsD [OF held_serve_all [OF assms(11)] this, of C] show ?thesis by (simp add: always_def locked_with_def)
  qed
  moreover have "\<forall>K ctx. getLockName (BytesToString (getLockName key)) \<in> K \<and>
         space c (getLockName (BytesToString (getLockName key))) \<noteq> Some ZeroByte \<longrightarrow>
       runs (stores E kv K (space c)) (Unlock E ctx (newKey key)) (Ok ())
         (stores E kv K ((space c)(getLockName key := None)))"
    using Unlock_key by blast
  ultimately show ?thesis using stuck looks unfolding stuck_def by blast
qed

text \<open>The witness: a client empties the hash, and the next one that sets a field panics.\<close>

definition demo_emptying :: "nat \<Rightarrow> hash_op" where
  "demo_emptying i = (if i = 0 then Delete_Field ''a'' else Set_Field ''b'' [2])"

abbreviation one_field :: "bytes \<rightharpoonup> bytes" where
  "one_field \<equiv> [StringToBytes ''k'' \<mapsto> hash_encoding [(''a'', [1])]]"

lemma demo_empty_decodes: "decode_hash memory_codec (newByteValue (hash_encoding [])) = Inr \<lparr>Hash_Key = [], Hash_Value = None\<rparr>"
  by (simp add: decode_hash_def memory_codec_def hash_encoding_def BytesToString_def)

lemma demo_emptied:
  "hash_delete memory_codec ''a'' (value_read (Some (hash_encoding [(''a'', [1])]))) = Commit (hash_encoding []) ()"
  "hash_set memory_codec [(f, v)] (value_read (Some (hash_encoding []))) = Crash"
  by (simp_all add: hash_delete_def hash_set_def value_read_def map_delete_def demo_hash_decodes demo_hash_writes
      demo_empty_decodes if_missing_def or_crash_def fields.put_nil)

lemma solo_crash:
  assumes "req i = Update decide" and "stage c i = Wanting" and "space c (getLockName key) \<noteq> Some ZeroByte"
    and "\<not> invalid_key key" and "decide (value_read (space c (StringToBytes key))) = Crash"
  shows "rtranclp (clients_step key req) c \<lparr>space = (space c)(getLockName key \<mapsto> ZeroByte),
    stage = (stage c)(i := Replied Panic), history = history c @ [i]\<rparr>"
proof -
  let ?S = "clients_step key req" and ?m = "(space c)(getLockName key \<mapsto> ZeroByte)"
  note keys = distinct_keys [OF assms(4)]
  let ?c1 = "\<lparr>space = ?m, stage = (stage c)(i := Holding), history = history c\<rparr>"
  let ?c2 = "\<lparr>space = ?m, stage = (stage ?c1)(i := Settled True Crash), history = history c\<rparr>"
  let ?c3 = "\<lparr>space = ?m, stage = (stage ?c2)(i := Replied Panic), history = history c @ [i]\<rparr>"
  have free: "\<not> compares (space c) (lock_txn key)" using assms(3) by (simp add: lock_txn_def)
  have "own_step key (req i) (space c) (stage c i) ?m Holding"
    using own_step.lock_taken [OF assms(1) free] by (simp add: run_lock_txn [OF free] assms(2))
  from clients_step.Move [of key req i c, OF this] have 1: "?S c ?c1" by (simp add: takes_effect_def keys)
  have "own_step key (req i) (space ?c1) (stage ?c1 i) ?m (Settled True Crash)"
    using own_step.read [OF assms(1), of key ?m] by (simp add: keys assms(5))
  from clients_step.Move [of key req i ?c1, OF this] have 2: "?S ?c1 ?c2" by (simp add: takes_effect_def)
  have "own_step key (req i) (space ?c2) (stage ?c2 i) ?m (Replied Panic)"
    using own_step.crash [of key "req i" ?m True] by (simp add: over_def)
  from clients_step.Move [of key req i ?c2, OF this] have 3: "?S ?c2 ?c3" by (simp add: takes_effect_def)
  from 1 2 3 have "rtranclp ?S c ?c3" by (rule three_steps)
  then show ?thesis by simp
qed

lemma demo_emptying_run:
  "\<exists>c. rtranclp (clients_step ''k'' (\<lambda>i. hash_request memory_codec (demo_emptying i))) (started one_field) c \<and>
     history c = [0, 1] \<and> stage c 1 = Replied Panic \<and>
     space c = map_of [(getLockName ''k'', ZeroByte), (StringToBytes ''k'', hash_encoding [])]"
proof -
  let ?req = "\<lambda>i. hash_request memory_codec (demo_emptying i)" and ?k = "StringToBytes ''k''" and ?l = "getLockName ''k''"
  let ?c1 = "\<lparr>space = one_field(?l := None, ?k \<mapsto> hash_encoding []), stage = (\<lambda>_. Wanting)(0 := Replied (Ok Stored)), history = [0]\<rparr>"
  let ?c2 = "\<lparr>space = (space ?c1)(?l \<mapsto> ZeroByte), stage = (stage ?c1)(1 := Replied Panic), history = [0, 1]\<rparr>"
  have "rtranclp (clients_step ''k'' ?req) (started one_field) ?c1"
    using solo_commit [of ?req 0 _ "started one_field" "''k''" "hash_encoding []" Stored] distinct_keys [OF invalid_key_k]
    by (simp add: demo_emptying_def updating_def started_def demo_emptied)
  moreover have "rtranclp (clients_step ''k'' ?req) ?c1 ?c2"
    using solo_crash [of ?req 1 _ ?c1 "''k''"]
    by (simp add: demo_emptying_def updating_def demo_emptied distinct_keys)
  ultimately have "rtranclp (clients_step ''k'' ?req) (started one_field) ?c2" by (rule rtranclp_trans)
  moreover have "history ?c2 = [0, 1]" "stage ?c2 1 = Replied Panic" by simp_all
  moreover have "space ?c2 = map_of [(?l, ZeroByte), (?k, hash_encoding [])]" by (simp add: fun_eq_iff)
  ultimately show ?thesis by blast
qed

abbreviation demo_later :: "(go_context \<times> Server.request) list" where
  "demo_later \<equiv> [(demo_ctx, Hash_request (Req_SetHashField \<lparr>HashField_Key = ''k'', HashField_Field = ''b'', HashField_Value = [3]\<rparr>)),
    (demo_ctx, Key_request (Req_Delete (newKey ''k''))), (demo_ctx, Key_request (Req_Unlock (newKey ''j'')))]"

theorem abandoned_lock_stays_witness:
  "\<exists>(c :: hash_answer clients) w. stage c 1 = Replied Panic \<and> space c (getLockName ''k'') = Some ZeroByte \<and>
     space c (StringToBytes ''k'') = Some (hash_encoding []) \<and> map_of (cache w) = space c \<and>
     map_of (cache (snd (serve_all quiet_etcd memory_codec demo_later w))) (StringToBytes ''k'') = Some (hash_encoding [])"
proof -
  obtain c where c: "rtranclp (clients_step ''k'' (\<lambda>i. hash_request memory_codec (demo_emptying i))) (started one_field) c"
    "history c = [0, 1]" "stage c 1 = Replied Panic"
    and space: "space c = map_of [(getLockName ''k'', ZeroByte), (StringToBytes ''k'', hash_encoding [])]"
    using demo_emptying_run by blast
  let ?w = "mem_world [(getLockName ''k'', ZeroByte), (StringToBytes ''k'', hash_encoding [])]"
  have zero: "one_field ZeroByte \<noteq> Some ZeroByte" by (simp add: distinct_keys)
  have first: "serial (\<lambda>i. hash_request memory_codec (demo_emptying i)) (one_field (StringToBytes ''k'')) [0] = Some (hash_encoding [])"
    by (simp add: serial_def demo_emptying_def updating_def demo_emptied)
  have split: "history c = [0] @ 1 # []" using c(2) by simp
  have abandons: "abandons (hash_request memory_codec (demo_emptying 1))
      (serial (\<lambda>i. hash_request memory_codec (demo_emptying i)) (one_field (StringToBytes ''k'')) [0])"
    unfolding first by (simp add: demo_emptying_def updating_def demo_emptied)
  have w: "map_of (cache ?w) = space c" by (simp only: space mem_world_def world.simps)
  have quiet_kv: "etcd_kv quiet_etcd map_of" by (simp add: quiet_etcd_def mem_etcd_kv)
  have quiet: "others quiet_etcd n s = s" for n s by (simp add: quiet_etcd_def)
  have calm: "\<forall>x\<in>set demo_later. spares ''k'' (snd x)"
    by (simp add: spares_def lock_related_def newKey_def getLockName_def suffixForLocks_def)
  from abandoned_lock_stays [OF invalid_key_k zero cautious_hash_requests c(1) split c(3) abandons _ _ _ calm,
      where E = quiet_etcd and kv = map_of and C = memory_codec and w = ?w] quiet w first
  have "space c (getLockName ''k'') = Some ZeroByte \<and> space c (StringToBytes ''k'') = Some (hash_encoding []) \<and>
      map_of (cache (snd (serve_all quiet_etcd memory_codec demo_later ?w))) (StringToBytes ''k'') = space c (StringToBytes ''k'')"
    by (simp add: quiet_kv)
  with c(3) w show ?thesis by (intro exI [of _ c] exI [of _ ?w]) simp
qed

end
