(* ===== verification/Waiting_Pop.thy ===== *)
theory Waiting_Pop
  imports Concurrent_Lists
begin

text \<open>
  A pop that waits for an item, among clients that work on the list at the same time: once
  the others keep the list from staying empty it returns an item.
\<close>

section \<open>The other clients\<close>

abbreviation lock_of_lock :: "string \<Rightarrow> bytes" where
  "lock_of_lock key \<equiv> getLockName (BytesToString (getLockName key))"

definition good_list :: "codec \<Rightarrow> bytes option \<Rightarrow> bool" where
  "good_list C v \<longleftrightarrow> list_typed C v \<and> go_slice (items C v)"

text \<open>
  At every scheduling point the others may change the list as they like, as long as it stays
  a list, but not while it is locked; they complete their operations, so that they leave no
  lock behind; and from the \<open>n0\<close>-th point on they leave an item in it.
\<close>

definition others_feed :: "'s etcd \<Rightarrow> ('s \<Rightarrow> (bytes \<rightharpoonup> bytes)) \<Rightarrow> codec \<Rightarrow> string \<Rightarrow> nat \<Rightarrow> bool" where
  "others_feed E kv C key n0 \<longleftrightarrow> (\<forall>n s. let m = kv s; m' = kv (others E n s) in
     (\<forall>k\<in>{getLockName key, lock_of_lock key, ZeroByte}. m' k = m k) \<and>
     (if m (getLockName key) = Some ZeroByte then m' (StringToBytes key) = m (StringToBytes key)
      else (good_list C (m (StringToBytes key)) \<longrightarrow> good_list C (m' (StringToBytes key))) \<and>
        (n0 \<le> n \<longrightarrow> items C (m' (StringToBytes key)) \<noteq> [])))"

definition pop_setting :: "'s etcd \<Rightarrow> ('s \<Rightarrow> (bytes \<rightharpoonup> bytes)) \<Rightarrow> codec \<Rightarrow> string \<Rightarrow> nat \<Rightarrow> bool" where
  "pop_setting E kv C key n0 \<longleftrightarrow> etcd_kv E kv \<and> etcd_up E \<and> proto_ok C \<and> \<not> invalid_key key \<and> others_feed E kv C key n0"

text \<open>The key space at a call: a list, locked or not, with the reserved key and the lock's lock free.\<close>

definition list_at :: "('s \<Rightarrow> (bytes \<rightharpoonup> bytes)) \<Rightarrow> codec \<Rightarrow> string \<Rightarrow> bool \<Rightarrow> 's world \<Rightarrow> bool" where
  "list_at kv C key l w \<longleftrightarrow> (kv (cache w) (getLockName key) = Some ZeroByte \<longleftrightarrow> l) \<and>
     kv (cache w) (lock_of_lock key) \<noteq> Some ZeroByte \<and> kv (cache w) ZeroByte \<noteq> Some ZeroByte \<and>
     good_list C (kv (cache w) (StringToBytes key))"

lemma schedule_free:
  assumes "pop_setting E kv C key n0" and "list_at kv C key False w"
  shows "list_at kv C key False (schedule E w)"
    "n0 \<le> ticks w \<Longrightarrow> items C (kv (cache (schedule E w)) (StringToBytes key)) \<noteq> []"
  using assms by (auto simp: pop_setting_def others_feed_def list_at_def Let_def)

lemma list_at_good:
  assumes "list_at kv C key l w"
  shows "list_typed C (kv (cache w) (StringToBytes key))" "go_slice (items C (kv (cache w) (StringToBytes key)))"
  using assms by (simp_all add: list_at_def good_list_def)

lemma schedule_held:
  assumes "pop_setting E kv C key n0" and "list_at kv C key True w"
  shows "list_at kv C key True (schedule E w)"
    "kv (cache (schedule E w)) (StringToBytes key) = kv (cache w) (StringToBytes key)"
  using assms by (auto simp: pop_setting_def others_feed_def list_at_def good_list_def Let_def)

section \<open>The calls of a pop\<close>

lemma txn_up:
  assumes "pop_setting E kv C key n0"
  obtains res w1 where "call E (\<lambda>s. etcd_Txn E s t) w = (Ok res, w1)" "ticks w1 = Suc (ticks w)"
    "Txn_Succeeded res \<longleftrightarrow> compares (kv (cache (schedule E w))) t" "kv (cache w1) = run_txn t (kv (cache (schedule E w)))"
proof -
  have "etcd_kv E kv" "\<exists>r. fst (etcd_Txn E (others E (ticks w) (cache w)) t) = Inr r"
    using assms unfolding pop_setting_def etcd_up_def by metis+
  then show thesis by (rule txn_answered) (rule that)
qed

lemma poll_up:
  assumes "pop_setting E kv C key n0" and "\<not> compares (kv (cache (schedule E w))) t"
  obtains w1 where "looping (txn_poll E t once late) w = (Ok (), w1)" "ticks w1 = Suc (ticks w)"
    "kv (cache w1) = run_txn t (kv (cache (schedule E w)))"
proof -
  from assms(1) obtain res w1 where "call E (\<lambda>s. etcd_Txn E s t) w = (Ok res, w1)" "ticks w1 = Suc (ticks w)"
    "\<not> Txn_Succeeded res" "kv (cache w1) = run_txn t (kv (cache (schedule E w)))"
    by (rule txn_up [where t = t and w = w]) (use assms(2) in auto)
  then show thesis using that txn_poll_done [of E t w res w1 once late] by (simp add: looping_def)
qed

lemma lock_call:
  assumes "pop_setting E kv C key n0" and "list_at kv C key False w" and "Key_Key k = key"
  obtains w1 where "Lock E ctx k w = (Ok (), w1)" "ticks w1 = Suc (ticks w)" "list_at kv C key True w1"
    "kv (cache w1) (StringToBytes key) = kv (cache (schedule E w)) (StringToBytes key)"
proof -
  note at = schedule_free [OF assms(1,2)]
  have valid: "\<not> invalid_key key" using assms(1) by (simp add: pop_setting_def)
  have free: "\<not> compares (kv (cache (schedule E w))) (lock_txn key)" using at(1) by (simp add: lock_txn_def list_at_def)
  from assms(1) free obtain w1 where w1: "looping (txn_poll E (lock_txn key) (getMaxWait ctx = 0)
      (\<lambda>t. clock w + seconds (getMaxWait ctx) < t \<and> 0 \<le> sint (getMaxWait ctx))) w = (Ok (), w1)" "ticks w1 = Suc (ticks w)"
      "kv (cache w1) = run_txn (lock_txn key) (kv (cache (schedule E w)))" by (rule poll_up)
  have "list_at kv C key True w1" "kv (cache w1) (StringToBytes key) = kv (cache (schedule E w)) (StringToBytes key)"
    using w1(3) [unfolded run_lock_txn [OF free]] at(1) distinct_keys [OF valid] by (simp_all add: list_at_def)
  with w1 show thesis using that assms(3) by (simp add: Lock_def LockWithTimeout_txn with_now_def)
qed

lemma get_call:
  assumes "pop_setting E kv C key n0" and "list_at kv C key True w"
  obtains w1 where "attempt (Get E (newKey key)) w = (Ok (value_read (kv (cache w) (StringToBytes key))), w1)"
    "ticks w1 = Suc (ticks w)" "list_at kv C key True w1" "kv (cache w1) (StringToBytes key) = kv (cache w) (StringToBytes key)"
proof -
  let ?q = "getRangeRequestFromKey (newKey key)" and ?s = "others E (ticks w) (cache w)"
  have law: "etcd_kv E kv" and "\<exists>r. fst (etcd_Range E ?s ?q) = Inr r"
    using assms(1) unfolding pop_setting_def etcd_up_def by metis+
  then obtain x where "etcd_Range E ?s ?q = (Inr x, snd (etcd_Range E ?s ?q))" by (metis prod.collapse)
  from get_answered [OF law this] schedule_held [OF assms] show thesis using that by (simp add: list_at_def)
qed

lemma unlock_call:
  assumes "pop_setting E kv C key n0" and "list_at kv C key True w" and "Key_Key k = key"
  obtains w1 where "discard (Unlock E ctx k) w = (Ok (), w1)" "ticks w < ticks w1" "list_at kv C key False w1"
proof -
  let ?t = "unlock_txn key"
  note at = schedule_held(1) [OF assms(1,2)]
  have free: "\<not> compares (kv (cache (schedule E w))) ?t" using at by (simp add: delete_txn_def list_at_def)
  from assms(1) free obtain w1 where w1: "looping (txn_poll E ?t False (\<lambda>t. clock w + seconds (getMaxWait ctx) < t)) w = (Ok (), w1)"
      "ticks w1 = Suc (ticks w)" "kv (cache w1) = run_txn ?t (kv (cache (schedule E w)))" by (rule poll_up)
  have "run_txn ?t (kv (cache (schedule E w))) = (kv (cache (schedule E w)))(getLockName key := None)"
    using free by (simp add: delete_txn_def run_txn_def txn_branch_def)
  then have "list_at kv C key False w1" using w1(3) at by (simp add: list_at_def)
  with w1 show thesis using that assms(3)
    by (simp add: Unlock_txn with_now_def discard_def and_then_def attempt_def ret_def)
qed

lemma commit_call:
  assumes "pop_setting E kv C key n0" and "list_at kv C key True w"
  obtains w1 where "UnlockThenSet E \<lparr>ByteValue_Key = key, ByteValue_Value = b\<rparr> w = (Ok (), w1)"
    "kv (cache w1) (StringToBytes key) = Some b" "kv (cache w1) (getLockName key) = None"
proof -
  let ?t = "unlock_set_txn key b"
  note at = schedule_held [OF assms]
  have valid: "\<not> invalid_key key" using assms(1) by (simp add: pop_setting_def)
  from assms(1) obtain res w1 where w1: "call E (\<lambda>s. etcd_Txn E s ?t) w = (Ok res, w1)"
      "kv (cache w1) = run_txn ?t (kv (cache (schedule E w)))" by (rule txn_up)
  have "kv (cache (schedule E w)) ZeroByte \<noteq> Some ZeroByte" using at(1) by (simp add: list_at_def)
  then have "kv (cache w1) (StringToBytes key) = Some b" "kv (cache w1) (getLockName key) = None"
    using w1(2) at(1) distinct_keys [OF valid] by (simp_all add: run_unlock_set_txn list_at_def)
  with w1(1) show thesis using that by (simp add: UnlockThenSet_txn [OF valid] and_then_def ret_def)
qed

section \<open>One attempt\<close>

text \<open>
  What an attempt finds is the list when it takes the lock.  If it is empty the attempt goes
  on waiting, or reports it; otherwise it takes an item off.  An idle attempt finds the list
  empty: it takes the lock, reads, releases the lock and may sleep.
\<close>

definition idle_attempt :: "'s etcd \<Rightarrow> ('s \<Rightarrow> (bytes \<rightharpoonup> bytes)) \<Rightarrow> codec \<Rightarrow> go_context \<Rightarrow> string \<Rightarrow> 's world \<Rightarrow> 's world \<Rightarrow> bool" where
  "idle_attempt E kv C ctx key w w' \<longleftrightarrow> (\<exists>w1 r w2 w3. Lock E ctx (newKey key) w = (Ok (), w1) \<and>
     items C (kv (cache w1) (StringToBytes key)) = [] \<and> attempt (GetList E C (newKey key)) w1 = (Ok r, w2) \<and>
     discard (Unlock E ctx (newKey key)) w2 = (Ok (), w3) \<and> w' \<in> {w3, Sleep E (sint block_sleep) w3})"

definition finds :: "'s etcd \<Rightarrow> ('s \<Rightarrow> (bytes \<rightharpoonup> bytes)) \<Rightarrow> codec \<Rightarrow> go_context \<Rightarrow> string \<Rightarrow> 's world \<Rightarrow> bytes list \<Rightarrow> bool" where
  "finds E kv C ctx key w xs \<longleftrightarrow> (\<exists>w1. Lock E ctx (newKey key) w = (Ok (), w1) \<and> items C (kv (cache w1) (StringToBytes key)) = xs)"

lemma Lock_newKey: "Key_Key k = key \<Longrightarrow> Lock E ctx k = Lock E ctx (newKey key)"
  by (simp add: Lock_def newKey_def)

lemma list_call:
  assumes "pop_setting E kv C key n0" and "list_at kv C key False w" and "Key_Key k = key"
  obtains w1 w2 where "Lock E ctx k w = (Ok (), w1)"
    "attempt (GetList E C (newKey key)) w1 = (Ok (typed (decode_list C) (value_read (kv (cache (schedule E w)) (StringToBytes key)))), w2)"
    "ticks w < ticks w2" "list_at kv C key True w2"
    "kv (cache w1) (StringToBytes key) = kv (cache (schedule E w)) (StringToBytes key)"
proof -
  obtain w1 where 1: "Lock E ctx k w = (Ok (), w1)" "ticks w1 = Suc (ticks w)" "list_at kv C key True w1"
    "kv (cache w1) (StringToBytes key) = kv (cache (schedule E w)) (StringToBytes key)"
    using assms by (rule lock_call)
  obtain w2 where "attempt (Get E (newKey key)) w1 = (Ok (value_read (kv (cache w1) (StringToBytes key))), w2)"
    "ticks w2 = Suc (ticks w1)" "list_at kv C key True w2"
    using assms(1) 1(3) by (rule get_call)
  then show thesis using that 1 by (simp add: attempt_GetList and_then_def ret_def)
qed

lemma empty_attempt:
  assumes "pop_setting E kv C key n0" and "list_at kv C key False w" and "k\<lparr>Key_Block := False\<rparr> = newKey key"
    and "items C (kv (cache (schedule E w)) (StringToBytes key)) = []"
  obtains w1 where "pop_with E C ctx pop blocked k w = (if Key_Block k then blocked w1 else (Err ErrListEmpty, w1))"
    "ticks w < ticks w1" "list_at kv C key False w1" "idle_attempt E kv C ctx key w w1"
    "idle_attempt E kv C ctx key w (Sleep E (sint block_sleep) w1)"
proof -
  let ?v = "kv (cache (schedule E w)) (StringToBytes key)"
  have k: "Key_Key k = key" "Key_Key (newKey key) = key" using arg_cong [where f = Key_Key, OF assms(3)] by simp_all
  from assms(1,2) k(1) obtain w1 w2 where call: "Lock E ctx k w = (Ok (), w1)"
      "attempt (GetList E C (newKey key)) w1 = (Ok (typed (decode_list C) (value_read ?v)), w2)"
      "ticks w < ticks w2" "list_at kv C key True w2" "kv (cache w1) (StringToBytes key) = ?v" by (rule list_call)
  obtain w3 where unlock: "discard (Unlock E ctx (newKey key)) w2 = (Ok (), w3)" "ticks w2 < ticks w3" "list_at kv C key False w3"
    using assms(1) call(4) k(2) by (rule unlock_call)
  from list_at_good(1) [OF schedule_free(1) [OF assms(1,2)]]
  have "pop_with E C ctx pop blocked k w = (if Key_Block k then blocked w3 else (Err ErrListEmpty, w3))"
  proof (cases rule: list_read_cases)
    case missing
    then show ?thesis using call(1,2) unlock(1)
      by (simp add: pop_with_def and_then_def Let_def assms(3) if_missing_def unlock_fail_def throw_def newList_def)
  next
    case (present lst)
    then show ?thesis using call(1,2) unlock(1) assms(4)
      by (simp add: pop_with_def and_then_def Let_def assms(3) if_missing_def unlock_fail_def throw_def)
  qed
  moreover have "idle_attempt E kv C ctx key w w'" if "w' \<in> {w3, Sleep E (sint block_sleep) w3}" for w'
    unfolding idle_attempt_def using call unlock(1) assms(4) that by (simp add: Lock_newKey [OF k(1)])
  ultimately show thesis using that call(3) unlock(2,3) by simp
qed

lemma full_attempt:
  assumes "pop_setting E kv C key n0" and "list_at kv C key False w" and "k\<lparr>Key_Block := False\<rparr> = newKey key"
    and "pop (items C (kv (cache (schedule E w)) (StringToBytes key))) = Some (b, rest)"
    and "items C (kv (cache (schedule E w)) (StringToBytes key)) \<noteq> []"
  obtains w1 where "pop_with E C ctx pop blocked k w = (Ok (newByteValue b), w1)"
    "items C (kv (cache w1) (StringToBytes key)) = rest" "kv (cache w1) (getLockName key) = None"
    "finds E kv C ctx key w (items C (kv (cache (schedule E w)) (StringToBytes key)))"
proof -
  let ?v = "kv (cache (schedule E w)) (StringToBytes key)"
  have C: "proto_ok C" using assms(1) by (simp add: pop_setting_def)
  have k: "Key_Key k = key" "Key_Key (newKey key) = key" using arg_cong [where f = Key_Key, OF assms(3)] by simp_all
  from assms(1,2) k(1) obtain w1 w2 where call: "Lock E ctx k w = (Ok (), w1)"
      "attempt (GetList E C (newKey key)) w1 = (Ok (typed (decode_list C) (value_read ?v)), w2)"
      "ticks w < ticks w2" "list_at kv C key True w2" "kv (cache w1) (StringToBytes key) = ?v" by (rule list_call)
  have found: "finds E kv C ctx key w (items C ?v)"
    unfolding finds_def using call(1,5) by (simp add: Lock_newKey [OF k(1)])
  from list_at_good(1) [OF schedule_free(1) [OF assms(1,2)]] show thesis
  proof (cases rule: list_read_cases)
    case (present lst)
    obtain e where e: "MarshalList C (lst\<lparr>List_Key := [], List_Value := rest\<rparr>) = Inr e"
        "UnmarshalList C e = Inr (lst\<lparr>List_Key := [], List_Value := rest\<rparr>)"
      using C by (rule MarshalList_ok)
    obtain w3 where "UnlockThenSet E \<lparr>ByteValue_Key = key, ByteValue_Value = e\<rparr> w2 = (Ok (), w3)"
        "kv (cache w3) (StringToBytes key) = Some e" "kv (cache w3) (getLockName key) = None"
      using assms(1) call(4) by (rule commit_call)
    then show thesis using that [of w3] found call(1,2) present assms(4,5) e
      by (simp add: pop_with_def and_then_def Let_def assms(3) if_missing_def UnlockThenSetList_def or_panic_def ret_def
          items_def [of C "Some e"] list_of_stored)
  qed (use assms(5) in simp)
qed

section \<open>The waiting loop\<close>

text \<open>\<open>first xs\<close> is the item a pop takes off, \<open>remain xs\<close> the list it leaves.\<close>

definition takes_off :: "(bytes list \<Rightarrow> (bytes \<times> bytes list) option) \<Rightarrow> (bytes list \<Rightarrow> bytes) \<Rightarrow> (bytes list \<Rightarrow> bytes list) \<Rightarrow> bool" where
  "takes_off pop first remain \<longleftrightarrow> (\<forall>xs. go_slice xs \<and> xs \<noteq> [] \<longrightarrow> pop xs = Some (first xs, remain xs))"

lemma takes_off_ends: "takes_off pop_left hd tl" "takes_off pop_right last butlast"
  by (simp_all add: takes_off_def pop_left_some pop_right_some)

lemma attempt_cases:
  assumes "pop_setting E kv C key n0" and "list_at kv C key False w" and "takes_off pop first remain"
    and "k\<lparr>Key_Block := False\<rparr> = newKey key"
  obtains (empty) w1 where "pop_with E C ctx pop blocked k w = (if Key_Block k then blocked w1 else (Err ErrListEmpty, w1))"
      "ticks w < ticks w1" "list_at kv C key False w1" "ticks w < n0" "idle_attempt E kv C ctx key w w1"
      "idle_attempt E kv C ctx key w (Sleep E (sint block_sleep) w1)"
    | (full) w1 xs where "pop_with E C ctx pop blocked k w = (Ok (newByteValue (first xs)), w1)" "xs \<noteq> []"
      "items C (kv (cache w1) (StringToBytes key)) = remain xs" "kv (cache w1) (getLockName key) = None"
      "finds E kv C ctx key w xs"
proof (cases "items C (kv (cache (schedule E w)) (StringToBytes key)) = []")
  case True
  obtain w1 where "pop_with E C ctx pop blocked k w = (if Key_Block k then blocked w1 else (Err ErrListEmpty, w1))"
      "ticks w < ticks w1" "list_at kv C key False w1" "idle_attempt E kv C ctx key w w1"
      "idle_attempt E kv C ctx key w (Sleep E (sint block_sleep) w1)"
    using assms(1,2,4) True by (rule empty_attempt)
  moreover have "ticks w < n0" using schedule_free(2) [OF assms(1,2)] True by (meson not_le)
  ultimately show thesis using empty by blast
next
  case False
  let ?xs = "items C (kv (cache (schedule E w)) (StringToBytes key))"
  have "pop ?xs = Some (first ?xs, remain ?xs)"
    using assms(3) False list_at_good(2) [OF schedule_free(1) [OF assms(1,2)]] by (simp add: takes_off_def)
  then obtain w1 where "pop_with E C ctx pop blocked k w = (Ok (newByteValue (first ?xs)), w1)"
      "items C (kv (cache w1) (StringToBytes key)) = remain ?xs" "kv (cache w1) (getLockName key) = None"
      "finds E kv C ctx key w ?xs"
    by (rule full_attempt [OF assms(1,2,4) _ False])
  then show thesis using full False by blast
qed

lemma loop_served:
  assumes "pop_setting E kv C key n0" and "takes_off pop first remain" and "list_at kv C key False w"
    and "\<not> 0 < sint timeout"
  shows "\<exists>w0 w' xs. rtranclp (idle_attempt E kv C ctx key) w w0 \<and> finds E kv C ctx key w0 xs \<and> xs \<noteq> [] \<and>
      block_poll E [ErrKeyNotFound, ErrListEmpty] (pop_with E C ctx pop panic (newKey key)) timeout waited w =
      Some (Ok (newByteValue (first xs)), w') \<and> items C (kv (cache w') (StringToBytes key)) = remain xs \<and>
      kv (cache w') (getLockName key) = None"
  using assms(3)
proof (induction "n0 - ticks w" arbitrary: w waited rule: less_induct)
  case less
  have k: "(newKey key)\<lparr>Key_Block := False\<rparr> = newKey key" by (simp add: newKey_def)
  let ?op = "pop_with E C ctx pop panic (newKey key)"
  from assms(1) less.prems assms(2) k show ?case
  proof (cases rule: attempt_cases [where ctx = ctx and blocked = panic])
    case (empty w1)
    then have op: "?op w = (Err ErrListEmpty, w1)" by simp
    let ?w2 = "Sleep E (sint block_sleep) w1"
    have "list_at kv C key False ?w2" using schedule_free(1) [OF assms(1) empty(3)] by (simp add: list_at_def)
    moreover have "n0 - ticks ?w2 < n0 - ticks w" using empty(2,4) by simp
    ultimately obtain w0 w' xs where rest: "rtranclp (idle_attempt E kv C ctx key) ?w2 w0" "finds E kv C ctx key w0 xs" "xs \<noteq> []"
        "block_poll E [ErrKeyNotFound, ErrListEmpty] ?op timeout (waited + block_sleep) ?w2 = Some (Ok (newByteValue (first xs)), w')"
        "items C (kv (cache w') (StringToBytes key)) = remain xs" "kv (cache w') (getLockName key) = None"
      using less.hyps [of ?w2 "waited + block_sleep"] by blast
    have "rtranclp (idle_attempt E kv C ctx key) w w0"
      using empty(6) rest(1) by (rule converse_rtranclp_into_rtranclp)
    with rest show ?thesis
      using block_poll_step(2) [of ?op w, OF op, of "[ErrKeyNotFound, ErrListEmpty]" E timeout waited] assms(4)
      by (intro exI [of _ w0] exI [of _ w'] exI [of _ xs]) simp
  next
    case (full w1 xs)
    then show ?thesis using block_poll_step(1) [of ?op w, OF full(1), of "[ErrKeyNotFound, ErrListEmpty]" E timeout waited]
      by (intro exI [of _ w] exI [of _ w1] exI [of _ xs]) simp
  qed
qed

lemma pop_served:
  assumes "pop_setting E kv C key n0" and "takes_off pop first remain" and "list_at kv C key False w"
  shows "\<exists>w0 w' xs. rtranclp (idle_attempt E kv C ctx key) w w0 \<and> finds E kv C ctx key w0 xs \<and> xs \<noteq> [] \<and>
    pop_blocking E C ctx pop ((newKey key)\<lparr>Key_Block := True\<rparr>) w = (Ok (newByteValue (first xs)), w') \<and>
    items C (kv (cache w') (StringToBytes key)) = remain xs \<and> kv (cache w') (getLockName key) = None"
proof -
  let ?k = "(newKey key)\<lparr>Key_Block := True\<rparr>"
  let ?loop = "looping (block_poll E [ErrKeyNotFound, ErrListEmpty] (pop_with E C ctx pop panic (newKey key)) 0 0)"
  have k: "?k\<lparr>Key_Block := False\<rparr> = newKey key" by (simp add: newKey_def)
  have pop: "pop_blocking E C ctx pop ?k = pop_with E C ctx pop ?loop ?k"
    by (simp add: pop_blocking_def k)
  from assms(1,3,2) k show ?thesis
  proof (cases rule: attempt_cases [where ctx = ctx and blocked = ?loop])
    case (empty w1)
    obtain w0 w' xs where rest: "rtranclp (idle_attempt E kv C ctx key) w1 w0" "finds E kv C ctx key w0 xs" "xs \<noteq> []"
        "block_poll E [ErrKeyNotFound, ErrListEmpty] (pop_with E C ctx pop panic (newKey key)) 0 0 w1 = Some (Ok (newByteValue (first xs)), w')"
        "items C (kv (cache w') (StringToBytes key)) = remain xs" "kv (cache w') (getLockName key) = None"
      using loop_served [OF assms(1,2) empty(3), of 0 ctx 0] by auto
    have "rtranclp (idle_attempt E kv C ctx key) w w0"
      using empty(5) rest(1) by (rule converse_rtranclp_into_rtranclp)
    with rest show ?thesis using empty(1)
      by (intro exI [of _ w0] exI [of _ w'] exI [of _ xs]) (simp add: pop looping_def)
  next
    case (full w1 xs)
    then show ?thesis by (intro exI [of _ w] exI [of _ w1] exI [of _ xs]) (simp add: pop)
  qed
qed

text \<open>
  C11. A waiting pop is served.  A client calls \<open>ListPopLeft\<close> or \<open>ListPopRight\<close> with \<open>Block\<close>
  and no timeout on a key that is not locked, while other clients change the list between
  its calls of etcd, respecting its lock and leaving none of their own.  If from some point
  on they leave an item in the list, however they changed it before, the pop returns.  After
  attempts that found the list empty under its lock, it takes the lock once more and finds
  the items \<open>xs\<close> in the store, not empty; it answers with the first or the last of exactly
  these, the key then holds the others, and the lock is released.
\<close>

theorem waiting_pop_is_served:
  assumes "pop_setting E kv C key n0" and "list_at kv C key False w"
  shows "(\<exists>w0 w' xs. rtranclp (idle_attempt E kv C ctx key) w w0 \<and> finds E kv C ctx key w0 xs \<and> xs \<noteq> [] \<and>
      ListPopLeft E C ctx ((newKey key)\<lparr>Key_Block := True\<rparr>) w = (Ok (newByteValue (hd xs)), w') \<and>
      items C (kv (cache w') (StringToBytes key)) = tl xs \<and> kv (cache w') (getLockName key) = None) \<and>
    (\<exists>w0 w' xs. rtranclp (idle_attempt E kv C ctx key) w w0 \<and> finds E kv C ctx key w0 xs \<and> xs \<noteq> [] \<and>
      ListPopRight E C ctx ((newKey key)\<lparr>Key_Block := True\<rparr>) w = (Ok (newByteValue (last xs)), w') \<and>
      items C (kv (cache w') (StringToBytes key)) = butlast xs \<and> kv (cache w') (getLockName key) = None)"
  unfolding ListPopLeft_def ListPopRight_def
  using pop_served [OF assms(1) takes_off_ends(1) assms(2)] pop_served [OF assms(1) takes_off_ends(2) assms(2)] by blast

text \<open>The witness: a producer that starts at the fourth point and puts an item whenever the list is free.\<close>

definition producer :: "nat \<Rightarrow> mem \<Rightarrow> mem" where
  "producer n s = (if map_of s (getLockName ''k'') = Some ZeroByte \<or> n < 4 then s
     else AList.update (StringToBytes ''k'') (list_encoding 0 [[7]]) s)"

lemma producer_setting: "pop_setting (mem_etcd producer (\<lambda>_. 0)) map_of memory_codec ''k'' 4"
proof -
  have keys: "StringToBytes ''k'' \<noteq> ZeroByte" using distinct_keys [OF invalid_key_k] by simp
  have "list_of memory_codec (Some (list_encoding 0 [[7]])) = Inr \<lparr>List_Key = [], List_Value = [[7]], List_Limit = 0\<rparr>"
    by (simp add: list_of_def value_read_def decode_list_def memory_codec_def list_encoding_def BytesToString_def)
  then have "good_list memory_codec (Some (list_encoding 0 [[7]]))" "items memory_codec (Some (list_encoding 0 [[7]])) = [[7]]"
    by (simp_all add: good_list_def list_typed_def items_def go_slice_def)
  then show ?thesis
    by (simp add: pop_setting_def others_feed_def mem_etcd_kv mem_etcd_up memory_codec_ok producer_def update_conv' keys
        keys [THEN not_sym] Let_def)
qed

theorem waiting_pop_is_served_witness:
  "\<exists>w0 w' xs. finds (mem_etcd producer (\<lambda>_. 0)) map_of memory_codec demo_ctx ''k'' w0 xs \<and> xs \<noteq> [] \<and>
    ListPopLeft (mem_etcd producer (\<lambda>_. 0)) memory_codec demo_ctx ((newKey ''k'')\<lparr>Key_Block := True\<rparr>) (mem_world []) =
      (Ok (newByteValue (hd xs)), w') \<and> items memory_codec (map_of (cache w') (StringToBytes ''k'')) = tl xs"
proof -
  have "list_at map_of memory_codec ''k'' False (mem_world [])"
    by (simp add: list_at_def mem_world_def good_list_def list_typed_def items_def list_of_def value_read_def go_slice_def)
  from waiting_pop_is_served [OF producer_setting this, of demo_ctx] show ?thesis by blast
qed

end
