(* ===== verification/Permissions.thy ===== *)
theory Permissions
  imports Cli_Spec Concurrent_Lists
begin

text \<open>
  Permissions: which keys one that \<open>GetPermission\<close> makes reaches, and what a user whose role
  has it can do with the operations of the server.
\<close>

section \<open>Access\<close>

datatype access = Reads | Writes

fun covers :: "authpb_PermissionType \<Rightarrow> access \<Rightarrow> bool" where
  "covers authpb_READ a \<longleftrightarrow> a = Reads"
| "covers authpb_WRITE a \<longleftrightarrow> a = Writes"
| "covers authpb_READWRITE a \<longleftrightarrow> True"

text \<open>
  A permission allows its accesses to the keys of its range; the ranges are those of etcd's
  requests (\<open>in_range\<close>).
\<close>

definition permits :: "authpb_Permission \<Rightarrow> access \<Rightarrow> bytes \<Rightarrow> bool" where
  "permits p a x \<longleftrightarrow> covers (authpb_PermType p) a \<and> in_range (authpb_Key p) (authpb_RangeEnd p) x"

text \<open>The ranges of \<open>GetPermission\<close>.\<close>

definition reaches :: "string \<Rightarrow> bytes \<Rightarrow> bool" where
  "reaches key x \<longleftrightarrow>
     (if HasSuffix key ''*'' then prefix (StringToBytes (TrimSuffix key ''*'')) x else StringToBytes key \<le> x)"

lemma GetKeyPrefix_reaches: "in_range (fst (GetKeyPrefix key)) (snd (GetKeyPrefix key)) x \<longleftrightarrow> reaches key x"
  by (simp add: reaches_def GetKeyPrefix_def Let_def in_prefix_range) (simp add: in_range_def ZeroByte_def)

lemma GetPermission_permits:
  assumes "GetPermission key permName = Some perm"
  shows "permits (convertPermission perm) a x \<longleftrightarrow> covers (to_authpb_type (Permission_PermType perm)) a \<and> reaches key x"
  using assms
  by (auto simp: permits_def convertPermission_def GetPermission_def GetKeyPrefix_reaches [symmetric]
      split: prod.splits option.splits)

lemma reaches_star [simp]: "reaches (p @ ''*'') x \<longleftrightarrow> prefix (StringToBytes p) x"
  by (simp add: reaches_def HasSuffix_iff)

section \<open>A user with one permission\<close>

text \<open>
  Etcd checks a request of a user against the permissions of the user's roles: a range needs
  read access, a put or a deletion write access, and a transaction needs read access to
  every key it compares and the access of the operations of both of its branches.  A request
  that is not allowed is answered with an error and does nothing.
\<close>

fun op_allowed :: "(access \<Rightarrow> bytes \<Rightarrow> bytes \<Rightarrow> bool) \<Rightarrow> RequestOp \<Rightarrow> bool" where
  "op_allowed may (RequestRange q) \<longleftrightarrow> may Reads (Range_Key q) (Range_RangeEnd q)"
| "op_allowed may (RequestPut p) \<longleftrightarrow> may Writes (Put_Key p) []"
| "op_allowed may (RequestDeleteRange d) \<longleftrightarrow> may Writes (Delete_Key d) (Delete_RangeEnd d)"

definition txn_allowed :: "(access \<Rightarrow> bytes \<Rightarrow> bytes \<Rightarrow> bool) \<Rightarrow> TxnRequest \<Rightarrow> bool" where
  "txn_allowed may t \<longleftrightarrow> list_all (\<lambda>c. may Reads (Compare_Key c) []) (Txn_Compare t) \<and>
     list_all (op_allowed may) (Txn_Success t) \<and> list_all (op_allowed may) (Txn_Failure t)"

definition enforces :: "'s etcd \<Rightarrow> ('s \<Rightarrow> (bytes \<rightharpoonup> bytes)) \<Rightarrow> (access \<Rightarrow> bytes \<Rightarrow> bytes \<Rightarrow> bool) \<Rightarrow> string \<Rightarrow> bool" where
  "enforces E kv may denied \<longleftrightarrow>
     (\<forall>s q. if op_allowed may (RequestRange q) then \<exists>r. fst (etcd_Range E s q) = Inr r
        else fst (etcd_Range E s q) = Inl denied) \<and>
     (\<forall>s t. if txn_allowed may t then \<exists>r. fst (etcd_Txn E s t) = Inr r
        else fst (etcd_Txn E s t) = Inl denied \<and> kv (snd (etcd_Txn E s t)) = kv s)"

text \<open>The ranges inside that of a permission; a single key is the range without an end.\<close>

definition spans :: "authpb_Permission \<Rightarrow> access \<Rightarrow> bytes \<Rightarrow> bytes \<Rightarrow> bool" where
  "spans p a k e \<longleftrightarrow> covers (authpb_PermType p) a \<and> in_range (authpb_Key p) (authpb_RangeEnd p) k \<and>
     (e = [] \<or> authpb_RangeEnd p = ZeroByte \<or> authpb_RangeEnd p \<noteq> [] \<and> e \<noteq> ZeroByte \<and> e \<le> authpb_RangeEnd p)"

lemma spans_key [simp]: "spans p a k [] \<longleftrightarrow> permits p a k"
  by (simp add: spans_def permits_def)

text \<open>The key space a user's handler sees, while the other users leave the key and its lock alone.\<close>

definition user_at :: "'s etcd \<Rightarrow> ('s \<Rightarrow> (bytes \<rightharpoonup> bytes)) \<Rightarrow> (access \<Rightarrow> bytes \<Rightarrow> bytes \<Rightarrow> bool) \<Rightarrow> string \<Rightarrow>
    string \<Rightarrow> bytes option \<Rightarrow> bytes option \<Rightarrow> 's world \<Rightarrow> bool" where
  "user_at E kv may denied key v l w \<longleftrightarrow> etcd_kv E kv \<and> enforces E kv may denied \<and>
     undisturbed E kv {StringToBytes key, getLockName key} \<and>
     kv (cache w) (StringToBytes key) = v \<and> kv (cache w) (getLockName key) = l"

lemma user_at_schedule:
  "user_at E kv may denied key v l w \<Longrightarrow> user_at E kv may denied key v l (schedule E w)"
  by (simp add: user_at_def undisturbed_def)

lemma allowed_txn:
  assumes "user_at E kv may denied key v l w" and "txn_allowed may t"
  obtains res w1 where "call E (\<lambda>s. etcd_Txn E s t) w = (Ok res, w1)"
    "Txn_Succeeded res \<longleftrightarrow> compares (kv (cache (schedule E w))) t" "kv (cache w1) = run_txn t (kv (cache (schedule E w)))"
proof -
  have "etcd_kv E kv" "\<exists>r. fst (etcd_Txn E (others E (ticks w) (cache w)) t) = Inr r"
    using assms unfolding user_at_def enforces_def by metis+
  then show thesis by (rule txn_answered) (rule that)
qed

lemma denied_txn:
  assumes "user_at E kv may denied key v l w" and "\<not> txn_allowed may t"
  obtains w1 where "call E (\<lambda>s. etcd_Txn E s t) w = (Err (Other denied), w1)" "user_at E kv may denied key v l w1"
proof -
  let ?s = "others E (ticks w) (cache w)"
  have r: "fst (etcd_Txn E ?s t) = Inl denied" "kv (snd (etcd_Txn E ?s t)) = kv ?s"
    using assms unfolding user_at_def enforces_def by metis+
  then have "etcd_Txn E ?s t = (Inl denied, snd (etcd_Txn E ?s t))" by (metis prod.collapse)
  from call_simps(2) [of "\<lambda>s. etcd_Txn E s t", OF this] user_at_schedule [OF assms(1)] r(2) show thesis
    using that by (simp add: user_at_def)
qed

section \<open>What the operations of such a user do\<close>

lemma poll_by_user:
  assumes "user_at E kv may denied key v l w" and "txn_allowed may (if_unlocked key ops)" and "l \<noteq> Some ZeroByte"
  shows "\<exists>w1. looping (txn_poll E (if_unlocked key ops) once late) w = (Ok (), w1) \<and>
    kv (cache w1) = run_ops ops (kv (cache (schedule E w)))"
proof -
  have free: "\<not> compares (kv (cache (schedule E w))) (if_unlocked key ops)"
    using user_at_schedule [OF assms(1)] assms(3) by (simp add: user_at_def)
  from assms(1,2) obtain res w1 where "call E (\<lambda>s. etcd_Txn E s (if_unlocked key ops)) w = (Ok res, w1)"
    "\<not> Txn_Succeeded res" "kv (cache w1) = run_txn (if_unlocked key ops) (kv (cache (schedule E w)))"
    by (rule allowed_txn) (use free in auto)
  with free show ?thesis using txn_poll_done [of E _ w res w1 once late]
    by (simp add: looping_def run_txn_def txn_branch_def)
qed

lemma lock_by_user:
  assumes "user_at E kv may denied key v l w" and "l \<noteq> Some ZeroByte" and "\<not> invalid_key key"
    and "may Reads (getLockName key) []" and "may Writes (getLockName key) []"
  shows "\<exists>w1. Lock E ctx (newKey key) w = (Ok (), w1) \<and> user_at E kv may denied key v (Some ZeroByte) w1"
proof -
  let ?ops = "[RequestPut \<lparr>Put_Key = getLockName key, Put_Value = ZeroByte, Put_Lease = 0\<rparr>]"
  have ok: "txn_allowed may (if_unlocked key ?ops)" using assms(4,5) by (simp add: txn_allowed_def)
  from poll_by_user [OF assms(1) ok assms(2), of "getMaxWait ctx = 0"
      "\<lambda>t. clock w + seconds (getMaxWait ctx) < t \<and> 0 \<le> sint (getMaxWait ctx)"] show ?thesis
    using user_at_schedule [OF assms(1)] distinct_keys [OF assms(3)]
    by (auto simp: Lock_def LockWithTimeout_def with_now_def Let_def user_at_def)
qed

lemma set_by_user:
  assumes "user_at E kv may denied key v l w" and "l \<noteq> Some ZeroByte" and "\<not> invalid_key key"
    and "may Reads (getLockName key) []" and "may Writes (StringToBytes key) []"
  shows "\<exists>w1. Set E ctx \<lparr>ByteValue_Key = key, ByteValue_Value = b\<rparr> w = (Ok (), w1) \<and> kv (cache w1) (StringToBytes key) = Some b"
proof -
  let ?ops = "[RequestPut \<lparr>Put_Key = StringToBytes key, Put_Value = b, Put_Lease = 0\<rparr>]"
  have ok: "txn_allowed may (if_unlocked key ?ops)" using assms(4,5) by (simp add: txn_allowed_def)
  from poll_by_user [OF assms(1) ok assms(2), of False "\<lambda>t. clock w + seconds (getMaxWait ctx) < t"] show ?thesis
    using assms(3) by (auto simp: Set_def with_now_def Let_def)
qed

lemma get_by_user:
  assumes "user_at E kv may denied key v l w" and "may Reads (StringToBytes key) []"
  shows "\<exists>w1. attempt (Get E (newKey key)) w = (Ok (value_read v), w1) \<and> user_at E kv may denied key v l w1"
proof -
  let ?q = "getRangeRequestFromKey (newKey key)" and ?s = "others E (ticks w) (cache w)"
  have law: "etcd_kv E kv" using assms(1) by (simp add: user_at_def)
  have "op_allowed may (RequestRange ?q)" using assms(2) by simp
  then obtain x where "fst (etcd_Range E ?s ?q) = Inr x" using assms(1) unfolding user_at_def enforces_def by metis
  then have "etcd_Range E ?s ?q = (Inr x, snd (etcd_Range E ?s ?q))" by (metis prod.collapse)
  from get_answered [OF law this] user_at_schedule [OF assms(1)] show ?thesis by (simp add: user_at_def)
qed

text \<open>
  The write that releases the lock compares the reserved key, which the role may not read.
\<close>

lemma commit_by_user:
  assumes "user_at E kv may denied key v l w" and "\<not> invalid_key key" and "\<not> may Reads ZeroByte []"
  shows "\<exists>w1. UnlockThenSet E \<lparr>ByteValue_Key = key, ByteValue_Value = b\<rparr> w = (Err (Other denied), w1) \<and>
    user_at E kv may denied key v l w1"
proof -
  have no: "\<not> txn_allowed may (unlock_set_txn key b)" using assms(3) by (simp add: txn_allowed_def unlock_set_txn_def)
  from assms(1) no obtain w1 where "call E (\<lambda>s. etcd_Txn E s (unlock_set_txn key b)) w = (Err (Other denied), w1)"
      "user_at E kv may denied key v l w1"
    by (rule denied_txn)
  then show ?thesis by (simp add: UnlockThenSet_txn [OF assms(2)] and_then_def)
qed

lemma get_many_by_user:
  assumes "user_at E kv may denied key v l w" and "\<not> may Reads ZeroByte []" and "keys \<noteq> []"
  shows "\<exists>w1. GetMany E keys w = (Err (Other denied), w1)"
proof -
  let ?t = "\<lparr>Txn_Compare = [always_fails], Txn_Success = [],
    Txn_Failure = map (\<lambda>key. RequestRange \<lparr>Range_Key = StringToBytes key, Range_RangeEnd = [],
      Range_Limit = 0, Range_Revision = 0, Range_KeysOnly = False\<rparr>) keys\<rparr>"
  have "\<not> txn_allowed may ?t" using assms(2) by (simp add: txn_allowed_def)
  with assms(1) obtain w1 where "call E (\<lambda>s. etcd_Txn E s ?t) w = (Err (Other denied), w1)" by (rule denied_txn)
  then show ?thesis using assms(3) by (simp add: GetMany_def and_then_def)
qed

lemma update_by_user:
  assumes "user_at E kv may denied key v l w" and "l \<noteq> Some ZeroByte" and "\<not> invalid_key key"
    and "\<And>a. may a (getLockName key) []" and "may Reads (StringToBytes key) []" and "\<not> may Reads ZeroByte []"
    and "decide (value_read v) = Commit b x"
  shows "\<exists>w1. update E ctx (newKey key) decide w = (Err (Other denied), w1) \<and> user_at E kv may denied key v (Some ZeroByte) w1"
proof -
  from lock_by_user [OF assms(1-3) assms(4) assms(4), of ctx] obtain w1 where
      1: "Lock E ctx (newKey key) w = (Ok (), w1)" "user_at E kv may denied key v (Some ZeroByte) w1" by blast
  from get_by_user [OF 1(2) assms(5)] obtain w2 where
      2: "attempt (Get E (newKey key)) w1 = (Ok (value_read v), w2)" "user_at E kv may denied key v (Some ZeroByte) w2" by blast
  from commit_by_user [OF 2(2) assms(3,6), of b] obtain w3 where
      "UnlockThenSet E \<lparr>ByteValue_Key = key, ByteValue_Value = b\<rparr> w2 = (Err (Other denied), w3)"
      "user_at E kv may denied key v (Some ZeroByte) w3" by blast
  then show ?thesis by (simp add: update_def and_then_def 1(1) 2(1) assms(7))
qed

lemma reaches_lock: "reaches spec (StringToBytes key) \<Longrightarrow> reaches spec (getLockName key)"
proof -
  have lock: "getLockName key = StringToBytes key @ StringToBytes suffixForLocks"
    by (simp add: getLockName_def StringToBytes_append)
  have "xs \<le> xs @ ys" for xs ys :: bytes by (induction xs) simp_all
  with lock show "reaches spec (StringToBytes key) \<Longrightarrow> reaches spec (getLockName key)"
    by (auto simp: reaches_def intro: order_trans)
qed

text \<open>
  C12. A role with read and write access to some keys.  Its permission is the one that
  \<open>GetPermission\<close> makes of a key or a prefix, and it does not reach the reserved key.  On an
  unlocked key that it reaches, the user of the role can \<open>Set\<close>; but every operation that
  changes the key in place (numbers, lists, hashes: an update whose decision is to write)
  takes the lock, is then denied the write that would release it, because that write
  compares the reserved key, and returns the error with the key unchanged and locked.  For the
  same reason \<open>GetMany\<close> is denied whatever keys it is asked for.
\<close>

theorem limited_role_leaves_locks:
  assumes "GetPermission spec permName = Some perm" and "Permission_PermType perm = Permission_READWRITE"
    and "reaches spec (StringToBytes key)" and "\<not> reaches spec ZeroByte" and "\<not> invalid_key key"
    and "user_at E kv (spans (convertPermission perm)) denied key v l w" and "l \<noteq> Some ZeroByte"
    and "decide (value_read v) = Commit b x" and "keys \<noteq> []"
  shows "(\<exists>w1. Set E ctx \<lparr>ByteValue_Key = key, ByteValue_Value = b\<rparr> w = (Ok (), w1) \<and>
      kv (cache w1) (StringToBytes key) = Some b) \<and>
    (\<exists>w1. update E ctx (newKey key) decide w = (Err (Other denied), w1) \<and>
      kv (cache w1) (StringToBytes key) = v \<and> kv (cache w1) (getLockName key) = Some ZeroByte) \<and>
    (\<exists>w1. GetMany E keys w = (Err (Other denied), w1))"
proof -
  note may = GetPermission_permits [OF assms(1), unfolded assms(2)]
  have lock: "spans (convertPermission perm) a (getLockName key) []" for a
    using reaches_lock [OF assms(3)] by (simp add: may)
  have own: "spans (convertPermission perm) a (StringToBytes key) []" for a using assms(3) by (simp add: may)
  have zero: "\<not> spans (convertPermission perm) Reads ZeroByte []" using assms(4) by (simp add: may)
  show ?thesis
    using set_by_user [OF assms(6,7,5) lock own, of ctx b] update_by_user [OF assms(6,7,5) lock own zero, of decide b x ctx]
      get_many_by_user [OF assms(6) zero assms(9)] assms(8)
    by (auto simp: user_at_def)
qed

text \<open>The witness: etcd in memory that checks the requests of one user.\<close>

definition guarded_mem :: "(access \<Rightarrow> bytes \<Rightarrow> bytes \<Rightarrow> bool) \<Rightarrow> mem etcd" where
  "guarded_mem may = quiet_etcd\<lparr>
     etcd_Range := \<lambda>s q. if op_allowed may (RequestRange q) then etcd_Range quiet_etcd s q else (Inl ''auth: permission denied'', s),
     etcd_Txn := \<lambda>s t. if txn_allowed may t then etcd_Txn quiet_etcd s t else (Inl ''auth: permission denied'', s)\<rparr>"

lemma guarded_mem_at:
  "user_at (guarded_mem may) map_of may ''auth: permission denied'' key (map_of s (StringToBytes key)) (map_of s (getLockName key)) (mem_world s)"
proof -
  have law: "etcd_kv quiet_etcd map_of" and up: "etcd_up quiet_etcd" by (simp_all add: quiet_etcd_def mem_etcd_kv mem_etcd_up)
  have "etcd_kv (guarded_mem may) map_of"
    using law by (simp add: etcd_kv_def range_law_def txn_law_def put_law_def delete_law_def lease_law_def guarded_mem_def)
  moreover have "enforces (guarded_mem may) map_of may ''auth: permission denied''"
    using up by (simp add: enforces_def guarded_mem_def etcd_up_def)
  ultimately show ?thesis
    by (simp add: user_at_def undisturbed_def guarded_mem_def quiet_etcd_def mem_etcd_fields mem_world_def)
qed

definition writer_permission :: pb_Permission where
  "writer_permission = \<lparr>Permission_PermType = Permission_READWRITE, Permission_Key = StringToBytes ''key'',
     Permission_RangeEnd = StringToBytes ''kez''\<rparr>"

lemma writer_permission: "GetPermission ''key*'' ''readwrite '' = Some writer_permission"
  by code_simp

theorem limited_role_leaves_locks_witness:
  "\<exists>w1. IncrementInt (guarded_mem (spans (convertPermission writer_permission))) memory_codec demo_ctx
      \<lparr>IntValue_Key = ''key5'', IntValue_Value = 1\<rparr> (mem_world []) = (Err (Other ''auth: permission denied''), w1) \<and>
    map_of (cache w1) (StringToBytes ''key5'') = None \<and> map_of (cache w1) (getLockName ''key5'') = Some ZeroByte"
proof -
  have spec: "''key*'' = ''key'' @ ''*''" by simp
  have reach: "reaches ''key*'' (StringToBytes ''key5'')" "\<not> reaches ''key*'' ZeroByte"
    unfolding spec reaches_star by (simp_all add: StringToBytes_def ZeroByte_def)
  have valid: "\<not> invalid_key ''key5''" by (simp add: invalid_key_def StringToBytes_def ZeroByte_def)
  have rw: "Permission_PermType writer_permission = Permission_READWRITE" by (simp add: writer_permission_def)
  let ?new = "\<lparr>IntValue_Key = [], IntValue_Value = 1\<rparr> :: pb_IntValue"
  obtain b where "MarshalInt memory_codec ?new = Inr b" by (simp add: memory_codec_def)
  then have d: "increment_int memory_codec 1 (value_read (map_of [] (StringToBytes ''key5''))) = Commit b ?new"
    by (simp add: increment_int_def value_read_def if_missing_def)
  have free: "map_of [] (getLockName ''key5'') \<noteq> Some ZeroByte" by simp
  from limited_role_leaves_locks [where decide = "increment_int memory_codec 1" and keys = "[''key5'']" and ctx = demo_ctx,
      OF writer_permission rw reach valid guarded_mem_at [of _ "''key5''" "[]"] free d]
  show ?thesis unfolding IncrementInt_update by simp
qed

end
