(* ===== verification/Role_Commands.thy ===== *)
theory Role_Commands
  imports Permissions
begin

text \<open>
  The commands that grant, revoke and show the permissions of a role, down to the roles that
  etcd keeps.
\<close>

section \<open>The commands for the permissions of a role\<close>

text \<open>
  What etcd's authentication service documents: a role that exists has a set of permissions,
  at most one for each range; granting one replaces the permission for the same range,
  revoking a range removes it, and reading a role answers its permissions.  A call that
  fails is not constrained.
\<close>

type_synonym roles = "string \<rightharpoonup> authpb_Permission set"

definition without_range :: "bytes \<Rightarrow> bytes \<Rightarrow> authpb_Permission set \<Rightarrow> authpb_Permission set" where
  "without_range k e ps = {q \<in> ps. \<not> (authpb_Key q = k \<and> authpb_RangeEnd q = e)}"

definition keeps_roles :: "'s etcd \<Rightarrow> 's etcd_auth \<Rightarrow> ('s \<Rightarrow> roles) \<Rightarrow> bool" where
  "keeps_roles E A roles \<longleftrightarrow>
     (\<forall>n s. roles (others E n s) = roles s) \<and>
     (\<forall>s role p h x. fst (auth_RoleGrantPermission A role p s) = Inr (h, x) \<longrightarrow> (\<exists>ps. roles s role = Some ps \<and>
        roles (snd (auth_RoleGrantPermission A role p s)) =
          (roles s)(role \<mapsto> insert p (without_range (authpb_Key p) (authpb_RangeEnd p) ps)))) \<and>
     (\<forall>s role k e h x. fst (auth_RoleRevokePermission A role k e s) = Inr (h, x) \<longrightarrow> (\<exists>ps. roles s role = Some ps \<and>
        roles (snd (auth_RoleRevokePermission A role k e s)) =
          (roles s)(role \<mapsto> without_range (StringToBytes k) (StringToBytes e) ps))) \<and>
     (\<forall>s role h x. fst (auth_RoleGet A role s) = Inr (h, x) \<longrightarrow>
        (\<exists>ps. roles s role = Some ps \<and> set (case_option [] (\<lambda>ps. ps) x) = ps \<and> distinct (case_option [] (\<lambda>ps. ps) x)))"

text \<open>The three commands.\<close>

lemmas command_defs = command_def find_command_def key_command_def value_command_def list_command_def hash_command_def
  user_command_def role_command_def need1_def need3_def

lemma role_commands:
  "command E C A c ''ROLEGRANTPERM'' [role, spec, permName] =
     with_perm c spec permName (\<lambda>perm. return_call c (client_RoleGrantPermission E A role (Some perm)))"
  "command E C A c ''ROLEREVOKEPERM'' [role, spec, permName] =
     with_perm c spec permName (\<lambda>perm. return_call c (client_RoleRevokePermission E A role (Some perm)))"
  "command E C A c ''ROLEGET'' [role] = print_call c displayPerms (client_RoleGet E A role)"
  by (simp_all add: command_defs)

text \<open>A command that ends without an error had its call answered.\<close>

lemma returned_call:
  assumes "return_call c (and_then (rpc (and_then (call E op) (\<lambda>(h, x). ret (g h x)))) (\<lambda>_. ret ())) w = (Ok (lines, None, c'), w')"
  obtains h x where "fst (op (others E (ticks w) (cache w))) = Inr (h, x)" "cache w' = snd (op (others E (ticks w) (cache w)))"
proof (cases "op (others E (ticks w) (cache w))")
  case (Pair r s)
  show thesis
  proof (cases r)
    case (Inl msg)
    with Pair assms show thesis
      by (simp add: return_call_def rpc_def and_then_def attempt_def call_simps(2) ret_def throw_def)
  next
    case (Inr hx)
    with Pair assms show thesis using that [of "fst hx" "snd hx"]
      by (auto simp: return_call_def rpc_def and_then_def attempt_def call_simps(1) ret_def split: prod.splits)
  qed
qed

lemma printed_call:
  assumes "print_call c display (and_then (rpc (and_then (call E op) (\<lambda>(h, x). ret (g h x)))) (\<lambda>y. ret (f y))) w = (Ok (lines, None, c'), w')"
  obtains h x where "fst (op (others E (ticks w) (cache w))) = Inr (h, x)" "lines = display (f (g h x))"
proof (cases "op (others E (ticks w) (cache w))")
  case (Pair r s)
  show thesis
  proof (cases r)
    case (Inl msg)
    with Pair assms show thesis
      by (simp add: print_call_def rpc_def and_then_def attempt_def call_simps(2) ret_def throw_def)
  next
    case (Inr hx)
    with Pair assms show thesis using that [of "fst hx" "snd hx"]
      by (auto simp: print_call_def rpc_def and_then_def attempt_def call_simps(1) ret_def split: prod.splits)
  qed
qed

lemma with_perm_done:
  assumes "with_perm c spec permName f w = (Ok (lines, None, c'), w')"
  obtains perm where "GetPermission spec permName = Some perm" "f perm w = (Ok (lines, None, c'), w')"
  using assms by (auto simp: with_perm_def return_err_def ret_def split: option.splits)

lemma GetPermission_range:
  "GetPermission spec permName = Some perm \<Longrightarrow>
     (Permission_Key perm, Permission_RangeEnd perm) = GetKeyPrefix spec"
  by (auto simp: GetPermission_def split: prod.splits option.splits)

text \<open>How the one permission of a role is shown: the star stands for the range that has no end.\<close>

definition shown :: "string \<Rightarrow> string" where
  "shown spec = (if HasSuffix spec ''*''
     then TrimSuffix spec ''*'' @ (if getPrefix (TrimSuffix spec ''*'') = ZeroByte then ''*'' else '' '')
     else spec @ ''*'')"

lemma displayPerms_one:
  assumes "GetPermission spec permName = Some perm"
  shows "displayPerms [perm] = [[PStr (shown spec), PStr '':'', PStr (Permission_Type_name (Permission_PermType perm))]]"
proof -
  have range: "(Permission_Key perm, Permission_RangeEnd perm) = GetKeyPrefix spec"
    using GetPermission_range [OF assms] .
  have "getPrefix [] = ZeroByte" by (simp add: getPrefix_def Let_def StringToBytes_def)
  then have "Permission_Key perm = [] \<Longrightarrow> Permission_RangeEnd perm = ZeroByte"
    using range by (auto simp: GetKeyPrefix_def Let_def dest!: sym [of "[]"] split: if_splits)
  then have "displayPerms [perm] = [[PStr (BytesToString (Permission_Key perm) @
      (if Permission_RangeEnd perm = ZeroByte then ''*'' else '' '')), PStr '':'', PStr (Permission_Type_name (Permission_PermType perm))]]"
    by (auto simp: displayPerms_def max_perm_len_def BytesToString_def)
  then show ?thesis using range by (simp add: shown_def GetKeyPrefix_def Let_def split: if_splits)
qed

text \<open>What the two changing commands do to the roles when they succeed.\<close>

lemma granted_role:
  assumes "keeps_roles E A roles"
    and "command E C A c ''ROLEGRANTPERM'' [role, spec, permName] w = (Ok (l1, None, c1), w1)"
  obtains perm ps where "GetPermission spec permName = Some perm" "roles (cache w) role = Some ps"
    "roles (cache w1) = (roles (cache w))(role \<mapsto> insert (convertPermission perm)
       (without_range (Permission_Key perm) (Permission_RangeEnd perm) ps))"
proof -
  have quiet: "roles (others E n s) = roles s" for n s using assms(1) by (simp add: keeps_roles_def)
  obtain perm where perm: "GetPermission spec permName = Some perm"
    and call: "return_call c (client_RoleGrantPermission E A role (Some perm)) w = (Ok (l1, None, c1), w1)"
    using assms(2) unfolding role_commands by (rule with_perm_done)
  let ?p = "convertPermission perm"
  obtain h x where ok: "fst (auth_RoleGrantPermission A role ?p (others E (ticks w) (cache w))) = Inr (h, x)"
    and w1: "cache w1 = snd (auth_RoleGrantPermission A role ?p (others E (ticks w) (cache w)))"
    using call unfolding client_RoleGrantPermission_def RoleGrantPermission_def
    by (auto elim!: returned_call)
  then obtain ps where "roles (cache w) role = Some ps"
      "roles (cache w1) = (roles (cache w))(role \<mapsto> insert ?p (without_range (authpb_Key ?p) (authpb_RangeEnd ?p) ps))"
    using assms(1) unfolding keeps_roles_def by (metis quiet)
  then show thesis using that [OF perm] by (simp add: convertPermission_def)
qed

lemma revoked_role:
  assumes "keeps_roles E A roles"
    and "command E C A c ''ROLEREVOKEPERM'' [role, spec, permName] w = (Ok (l1, None, c1), w1)"
  obtains perm ps where "GetPermission spec permName = Some perm" "roles (cache w) role = Some ps"
    "roles (cache w1) = (roles (cache w))(role \<mapsto> without_range (Permission_Key perm) (Permission_RangeEnd perm) ps)"
proof -
  have quiet: "roles (others E n s) = roles s" for n s using assms(1) by (simp add: keeps_roles_def)
  obtain perm where perm: "GetPermission spec permName = Some perm"
    and call: "return_call c (client_RoleRevokePermission E A role (Some perm)) w = (Ok (l1, None, c1), w1)"
    using assms(2) unfolding role_commands by (rule with_perm_done)
  let ?k = "BytesToString (Permission_Key perm)" and ?e = "BytesToString (Permission_RangeEnd perm)"
  obtain h x where ok: "fst (auth_RoleRevokePermission A role ?k ?e (others E (ticks w) (cache w))) = Inr (h, x)"
    and w1: "cache w1 = snd (auth_RoleRevokePermission A role ?k ?e (others E (ticks w) (cache w)))"
    using call unfolding client_RoleRevokePermission_def RoleRevokePermission_def
    by (auto elim!: returned_call)
  then obtain ps where "roles (cache w) role = Some ps"
      "roles (cache w1) = (roles (cache w))(role \<mapsto> without_range (StringToBytes ?k) (StringToBytes ?e) ps)"
    using assms(1) unfolding keeps_roles_def by (metis quiet)
  then show thesis using that [OF perm] by simp
qed

lemma shown_role:
  assumes "keeps_roles E A roles" and "roles (cache w) role = Some {convertPermission perm}"
    and "GetPermission spec permName = Some perm" and "command E C A c ''ROLEGET'' [role] w = (Ok (l1, None, c1), w1)"
  shows "l1 = [[PStr (shown spec), PStr '':'', PStr (Permission_Type_name (Permission_PermType perm))]]"
proof -
  have quiet: "roles (others E n s) = roles s" for n s using assms(1) by (simp add: keeps_roles_def)
  obtain h x where ok: "fst (auth_RoleGet A role (others E (ticks w) (cache w))) = Inr (h, x)"
    and l1: "l1 = displayPerms (convertPermissions x)"
    using assms(4) unfolding role_commands client_RoleGet_def RoleGet_def by (auto elim!: printed_call)
  let ?ps = "case_option [] (\<lambda>ps. ps) x"
  have "set ?ps = {convertPermission perm} \<and> distinct ?ps"
    using assms(1,2) ok unfolding keeps_roles_def by (metis quiet option.inject)
  moreover from this have "length ?ps = 1" using distinct_card [of ?ps] by simp
  ultimately have "?ps = [convertPermission perm]" by (cases ?ps) auto
  then have "x = Some [convertPermission perm]" by (cases x) simp_all
  then show ?thesis using l1 convertPermissions_granted [of "[perm]"] displayPerms_one [OF assms(3)] by simp
qed

lemma same_argument:
  "GetPermission spec n1 = Some p1 \<Longrightarrow> GetPermission spec n2 = Some p2 \<Longrightarrow>
     Permission_Key p2 = Permission_Key p1 \<and> Permission_RangeEnd p2 = Permission_RangeEnd p1"
  by (metis GetPermission_range prod.inject)

lemma regranted: "without_range k e (insert (convertPermission p) (without_range k e ps)) = without_range k e ps"
  if "Permission_Key p = k" "Permission_RangeEnd p = e"
  using that by (auto simp: without_range_def convertPermission_def)

text \<open>
  C13. The life of a permission, from the commands to etcd's roles.  When \<open>ROLEGRANTPERM\<close>
  with a key or a prefix succeeds, the role has exactly one permission more or one replaced:
  it gives the accesses of its type to the keys with the prefix if the argument ends in a
  star, and otherwise to every key from the named one on, not to that key only.
  \<open>ROLEREVOKEPERM\<close> with the same argument, whatever type it names, takes it away again and
  leaves the others.  \<open>ROLEGET\<close> shows it the wrong way round: a prefix without its star, and
  a key that was granted without one with a star.
\<close>

theorem granted_permission_lives:
  assumes "keeps_roles E A roles"
    and "command E C A c ''ROLEGRANTPERM'' [role, spec, permName] w = (Ok (l1, None, c1), w1)"
  shows "\<exists>perm ps rest. GetPermission spec permName = Some perm \<and> roles (cache w) role = Some ps \<and>
    rest = without_range (Permission_Key perm) (Permission_RangeEnd perm) ps \<and>
    roles (cache w1) = (roles (cache w))(role \<mapsto> insert (convertPermission perm) rest) \<and>
    (\<forall>a x. permits (convertPermission perm) a x \<longleftrightarrow>
       covers (to_authpb_type (Permission_PermType perm)) a \<and> reaches spec x) \<and>
    (\<forall>c' anyName l2 c2 w2. command E C A c' ''ROLEREVOKEPERM'' [role, spec, anyName] w1 = (Ok (l2, None, c2), w2) \<longrightarrow>
       roles (cache w2) = (roles (cache w))(role \<mapsto> rest)) \<and>
    (\<forall>c' l2 c2 w2. rest = {} \<and> command E C A c' ''ROLEGET'' [role] w1 = (Ok (l2, None, c2), w2) \<longrightarrow>
       l2 = [[PStr (shown spec), PStr '':'', PStr (Permission_Type_name (Permission_PermType perm))]])"
proof -
  obtain perm ps where perm: "GetPermission spec permName = Some perm" and ps: "roles (cache w) role = Some ps"
    and now: "roles (cache w1) = (roles (cache w))(role \<mapsto> insert (convertPermission perm)
       (without_range (Permission_Key perm) (Permission_RangeEnd perm) ps))"
    using assms by (rule granted_role)
  let ?rest = "without_range (Permission_Key perm) (Permission_RangeEnd perm) ps"
  have revoked: "roles (cache w2) = (roles (cache w))(role \<mapsto> ?rest)"
    if revoke: "command E C A c' ''ROLEREVOKEPERM'' [role, spec, anyName] w1 = (Ok (l2, None, c2), w2)" for c' anyName l2 c2 w2
  proof -
    obtain perm' ps' where perm': "GetPermission spec anyName = Some perm'" and ps': "roles (cache w1) role = Some ps'"
      and then2: "roles (cache w2) = (roles (cache w1))(role \<mapsto> without_range (Permission_Key perm') (Permission_RangeEnd perm') ps')"
      using assms(1) revoke by (rule revoked_role)
    from ps' have "ps' = insert (convertPermission perm) ?rest" by (simp add: now)
    with then2 show ?thesis using same_argument [OF perm perm'] by (simp add: now regranted)
  qed
  have listed: "l2 = [[PStr (shown spec), PStr '':'', PStr (Permission_Type_name (Permission_PermType perm))]]"
    if "?rest = {}" and get: "command E C A c' ''ROLEGET'' [role] w1 = (Ok (l2, None, c2), w2)" for c' l2 c2 w2
    using that shown_role [OF assms(1) _ perm get] by (simp add: now)
  show ?thesis
    by (intro exI conjI allI impI, rule perm, rule ps, rule refl, rule now, rule GetPermission_permits [OF perm],
      erule revoked, elim conjE, erule (1) listed)
qed

text \<open>The witness: an authentication service that keeps the permissions of each role in a list.\<close>

type_synonym role_store = "(string \<times> authpb_Permission list) list"

definition role_perms :: "role_store \<Rightarrow> roles" where
  "role_perms s = (\<lambda>role. map_option set (map_of s role))"

definition change_role :: "string \<Rightarrow> (authpb_Permission list \<Rightarrow> authpb_Permission list) \<Rightarrow> (role_store, unit) auth_call" where
  "change_role role f s = (case map_of s role of
     None \<Rightarrow> (Inl ''etcdserver: role name not found'', s)
   | Some ps \<Rightarrow> (Inr (None, ()), AList.update role (f ps) s))"

definition drop_range :: "bytes \<Rightarrow> bytes \<Rightarrow> authpb_Permission list \<Rightarrow> authpb_Permission list" where
  "drop_range k e = filter (\<lambda>q. \<not> (authpb_Key q = k \<and> authpb_RangeEnd q = e))"

definition role_auth :: "role_store etcd_auth" where
  "role_auth =
     (let no = (\<lambda>s. (Inl ''not supported'', s)) in
      \<lparr>auth_AuthEnable = no, auth_AuthDisable = no, auth_Authenticate = (\<lambda>_ _ s. (Inl ''not supported'', s)),
       auth_UserAdd = (\<lambda>_ _. no), auth_UserGet = (\<lambda>_ s. (Inl ''not supported'', s)),
       auth_UserList = (\<lambda>s. (Inl ''not supported'', s)), auth_UserDelete = (\<lambda>_. no),
       auth_UserChangePassword = (\<lambda>_ _. no), auth_UserGrantRole = (\<lambda>_ _. no), auth_UserRevokeRole = (\<lambda>_ _. no),
       auth_RoleAdd = (\<lambda>_. no),
       auth_RoleGet = (\<lambda>role s. (case map_of s role of None \<Rightarrow> Inl ''etcdserver: role name not found''
         | Some ps \<Rightarrow> Inr (None, Some (remdups ps)), s)),
       auth_RoleList = (\<lambda>s. (Inl ''not supported'', s)), auth_RoleDelete = (\<lambda>_. no),
       auth_RoleGrantPermission = (\<lambda>role p. change_role role (\<lambda>ps. p # drop_range (authpb_Key p) (authpb_RangeEnd p) ps)),
       auth_RoleRevokePermission = (\<lambda>role k e. change_role role (drop_range (StringToBytes k) (StringToBytes e)))\<rparr>)"

definition idle_etcd :: "role_store etcd" where
  "idle_etcd = \<lparr>etcd_Range = (\<lambda>s q. (Inl [], s)), etcd_Txn = (\<lambda>s t. (Inl [], s)), etcd_Put = (\<lambda>s p. (Inl [], s)),
     etcd_DeleteRange = (\<lambda>s d. (Inl [], s)), etcd_LeaseGrant = (\<lambda>s ttl. (Inl [], s)), others = (\<lambda>_ s. s), lag = (\<lambda>_. 0)\<rparr>"

lemma change_role_law:
  assumes "fst (change_role role f s) = Inr hx" and "\<And>ps. set (f ps) = F (set ps)"
  shows "\<exists>ps. role_perms s role = Some ps \<and> role_perms (snd (change_role role f s)) = (role_perms s)(role \<mapsto> F ps)"
  using assms by (auto simp: change_role_def role_perms_def update_conv' split: option.splits)

lemma role_auth_keeps: "keeps_roles idle_etcd role_auth role_perms"
proof -
  have grant: "set (p # drop_range k e ps) = insert p (without_range k e (set ps))"
    and revoke: "set (drop_range k e ps) = without_range k e (set ps)" for p k e ps
    by (auto simp: drop_range_def without_range_def)
  show ?thesis
    unfolding keeps_roles_def role_auth_def Let_def
    using change_role_law [where F = "\<lambda>ps. insert p (without_range k e ps)" for p k e, OF _ grant]
      change_role_law [where F = "\<lambda>ps. without_range k e ps" for k e, OF _ revoke]
    by (auto simp: idle_etcd_def role_perms_def split: option.splits)
qed

definition from_key :: pb_Permission where
  "from_key = \<lparr>Permission_PermType = Permission_WRITE, Permission_Key = StringToBytes ''key'', Permission_RangeEnd = ZeroByte\<rparr>"

abbreviation role_world :: "authpb_Permission list \<Rightarrow> nat \<Rightarrow> role_store world" where
  "role_world ps n \<equiv> \<lparr>cache = [(''writer'', ps)], clock = 0, ticks = n\<rparr>"

lemma from_key: "GetPermission ''key'' ''WRITE'' = Some from_key" "shown ''key'' = ''key*''"
  by code_simp+

lemma role_runs:
  "command idle_etcd memory_codec role_auth demo_cli ''ROLEGRANTPERM'' [''writer'', ''key'', ''WRITE''] (role_world [] 0) =
     (Ok ([], None, demo_cli), role_world [convertPermission from_key] 1)"
  "command idle_etcd memory_codec role_auth demo_cli ''ROLEGET'' [''writer''] (role_world [p] n) =
     (Ok (displayPerms (convertPermissions (Some [p])), None, demo_cli), role_world [p] (Suc n))"
  by (simp_all add: role_commands with_perm_def from_key return_call_def print_call_def client_RoleGrantPermission_def
      RoleGrantPermission_def client_RoleGet_def RoleGet_def rpc_def and_then_def attempt_def ret_def call_def Let_def
      schedule_def idle_etcd_def role_auth_def change_role_def drop_range_def)

theorem granted_permission_lives_witness:
  "\<exists>w1 w2. command idle_etcd memory_codec role_auth demo_cli ''ROLEGRANTPERM'' [''writer'', ''key'', ''WRITE''] (role_world [] 0) =
      (Ok ([], None, demo_cli), w1) \<and>
    command idle_etcd memory_codec role_auth demo_cli ''ROLEGET'' [''writer''] w1 =
      (Ok ([[PStr ''key*'', PStr '':'', PStr ''WRITE'']], None, demo_cli), w2)"
proof -
  obtain perm ps rest where "GetPermission ''key'' ''WRITE'' = Some perm" "role_perms (cache (role_world [] 0)) ''writer'' = Some ps"
    "rest = without_range (Permission_Key perm) (Permission_RangeEnd perm) ps"
    "\<And>c' l2 c2 w2. rest = {} \<and> command idle_etcd memory_codec role_auth c' ''ROLEGET'' [''writer'']
         (role_world [convertPermission from_key] 1) = (Ok (l2, None, c2), w2) \<Longrightarrow>
       l2 = [[PStr (shown ''key''), PStr '':'', PStr (Permission_Type_name (Permission_PermType perm))]]"
    using granted_permission_lives [OF role_auth_keeps role_runs(1)] by metis
  then have "displayPerms (convertPermissions (Some [convertPermission from_key])) =
      [[PStr (shown ''key''), PStr '':'', PStr (Permission_Type_name (Permission_PermType from_key))]]"
    using role_runs(2) [of "convertPermission from_key" 1] by (simp add: from_key role_perms_def without_range_def)
  then have "displayPerms (convertPermissions (Some [convertPermission from_key])) = [[PStr ''key*'', PStr '':'', PStr ''WRITE'']]"
    by (simp add: from_key from_key_def)
  then show ?thesis using role_runs by (simp add: from_key)
qed

end
