(* ===== verification/Remote_Calls.thy ===== *)
theory Remote_Calls
  imports Client_State Updates
begin

text \<open>
  The calls between client and server as the generated code makes them (\<open>pb/mydis.pb.go\<close>):
  a stub per operation that encodes its message and decodes the answer, and the table of the
  service, by which gRPC finds the handler that decodes the message and calls the operation.
  The wire format and gRPC are libraries: parameters.
\<close>

section \<open>The wire\<close>

text \<open>
  The two directions of the protobuf library for one type of message; \<open>'b\<close> are the bytes on
  the wire, an error is its text.
\<close>

record ('b, 'm) proto =
  Marshal :: "'m \<Rightarrow> 'b"
  Unmarshal :: "'b \<Rightarrow> string + 'm"

record 'b wire =
  Null_proto :: "('b, unit) proto"
  Key_proto :: "('b, pb_Key) proto"
  Bool_proto :: "('b, bool) proto"
  Expiration_proto :: "('b, pb_Expiration) proto"
  ByteValue_proto :: "('b, pb_ByteValue) proto"
  KeysList_proto :: "('b, pb_KeysList) proto"
  IntValue_proto :: "('b, pb_IntValue) proto"
  FloatValue_proto :: "('b, pb_FloatValue) proto"
  List_proto :: "('b, pb_List) proto"
  ListItem_proto :: "('b, pb_ListItem) proto"
  ErrorHash_proto :: "('b, pb_ErrorHash) proto"
  Hash_proto :: "('b, pb_Hash) proto"
  HashField_proto :: "('b, pb_HashField) proto"
  HashFieldSet_proto :: "('b, pb_HashFieldSet) proto"

text \<open>The messages of authentication.\<close>

record 'b auth_wire =
  AuthEnableRequest_proto :: "('b, unit) proto"
  AuthDisableRequest_proto :: "('b, unit) proto"
  AuthenticateRequest_proto :: "('b, AuthenticateRequest) proto"
  AuthUserAddRequest_proto :: "('b, AuthUserAddRequest) proto"
  AuthUserGetRequest_proto :: "('b, string) proto"
  AuthUserListRequest_proto :: "('b, unit) proto"
  AuthUserDeleteRequest_proto :: "('b, string) proto"
  AuthUserChangePasswordRequest_proto :: "('b, AuthUserChangePasswordRequest) proto"
  AuthUserGrantRoleRequest_proto :: "('b, AuthUserGrantRoleRequest) proto"
  AuthUserRevokeRoleRequest_proto :: "('b, AuthUserRevokeRoleRequest) proto"
  AuthRoleAddRequest_proto :: "('b, string) proto"
  AuthRoleGetRequest_proto :: "('b, string) proto"
  AuthRoleListRequest_proto :: "('b, unit) proto"
  AuthRoleDeleteRequest_proto :: "('b, string) proto"
  AuthRoleGrantPermissionRequest_proto :: "('b, AuthRoleGrantPermissionRequest) proto"
  AuthRoleRevokePermissionRequest_proto :: "('b, AuthRoleRevokePermissionRequest) proto"
  AuthEnableResponse_proto :: "('b, pb_ResponseHeader) proto"
  AuthDisableResponse_proto :: "('b, pb_ResponseHeader) proto"
  AuthenticateResponse_proto :: "('b, AuthenticateResponse) proto"
  AuthUserAddResponse_proto :: "('b, pb_ResponseHeader) proto"
  AuthUserGetResponse_proto :: "('b, AuthNamesResponse) proto"
  AuthUserListResponse_proto :: "('b, AuthNamesResponse) proto"
  AuthUserDeleteResponse_proto :: "('b, pb_ResponseHeader) proto"
  AuthUserChangePasswordResponse_proto :: "('b, pb_ResponseHeader) proto"
  AuthUserGrantRoleResponse_proto :: "('b, pb_ResponseHeader) proto"
  AuthUserRevokeRoleResponse_proto :: "('b, pb_ResponseHeader) proto"
  AuthRoleAddResponse_proto :: "('b, pb_ResponseHeader) proto"
  AuthRoleGetResponse_proto :: "('b, AuthRoleGetResponse) proto"
  AuthRoleListResponse_proto :: "('b, AuthNamesResponse) proto"
  AuthRoleDeleteResponse_proto :: "('b, pb_ResponseHeader) proto"
  AuthRoleGrantPermissionResponse_proto :: "('b, pb_ResponseHeader) proto"
  AuthRoleRevokePermissionResponse_proto :: "('b, pb_ResponseHeader) proto"

text \<open>The message that arrives when one is sent.\<close>

definition arrived :: "('b, 'm) proto \<Rightarrow> 'm \<Rightarrow> 'm" where
  "arrived p m = (case Unmarshal p (Marshal p m) of Inr m' \<Rightarrow> m' | Inl e \<Rightarrow> m)"

text \<open>
  What the protobuf documentation promises: a message survives the wire.  A message with a
  map arrives with the same entries, in any order, and as the nil map when it has none.
\<close>

definition lossless :: "('b, 'm) proto \<Rightarrow> bool" where
  "lossless p \<longleftrightarrow> (\<forall>m. Unmarshal p (Marshal p m) = Inr m)"

definition keeps_entries :: "('b, 'm) proto \<Rightarrow> ('m \<Rightarrow> 'v gomap) \<Rightarrow> ('m \<Rightarrow> string) \<Rightarrow> bool" where
  "keeps_entries p entries name \<longleftrightarrow> (\<forall>m. \<exists>m'. Unmarshal p (Marshal p m) = Inr m' \<and>
     (map_wf (entries m) \<longrightarrow> name m' = name m \<and> map_wf (entries m') \<and> map_get (entries m') = map_get (entries m) \<and>
       (entries m' = None \<longleftrightarrow> map_entries (entries m) = [])))"

definition wire_ok :: "'b wire \<Rightarrow> bool" where
  "wire_ok W \<longleftrightarrow>
     lossless (Null_proto W) \<and> lossless (Key_proto W) \<and> lossless (Bool_proto W) \<and>
     lossless (Expiration_proto W) \<and> lossless (ByteValue_proto W) \<and> lossless (KeysList_proto W) \<and>
     lossless (IntValue_proto W) \<and> lossless (FloatValue_proto W) \<and> lossless (List_proto W) \<and>
     lossless (ListItem_proto W) \<and> lossless (HashField_proto W) \<and> lossless (HashFieldSet_proto W) \<and>
     keeps_entries (Hash_proto W) Hash_Value Hash_Key \<and> keeps_entries (ErrorHash_proto W) id (\<lambda>_. [])"

definition auth_wire_ok :: "'b auth_wire \<Rightarrow> bool" where
  "auth_wire_ok V \<longleftrightarrow>
     lossless (AuthEnableRequest_proto V) \<and> lossless (AuthDisableRequest_proto V) \<and>
     lossless (AuthenticateRequest_proto V) \<and> lossless (AuthUserAddRequest_proto V) \<and>
     lossless (AuthUserGetRequest_proto V) \<and> lossless (AuthUserListRequest_proto V) \<and>
     lossless (AuthUserDeleteRequest_proto V) \<and> lossless (AuthUserChangePasswordRequest_proto V) \<and>
     lossless (AuthUserGrantRoleRequest_proto V) \<and> lossless (AuthUserRevokeRoleRequest_proto V) \<and>
     lossless (AuthRoleAddRequest_proto V) \<and> lossless (AuthRoleGetRequest_proto V) \<and>
     lossless (AuthRoleListRequest_proto V) \<and> lossless (AuthRoleDeleteRequest_proto V) \<and>
     lossless (AuthRoleGrantPermissionRequest_proto V) \<and> lossless (AuthRoleRevokePermissionRequest_proto V) \<and>
     lossless (AuthEnableResponse_proto V) \<and> lossless (AuthDisableResponse_proto V) \<and>
     lossless (AuthenticateResponse_proto V) \<and> lossless (AuthUserAddResponse_proto V) \<and>
     lossless (AuthUserGetResponse_proto V) \<and> lossless (AuthUserListResponse_proto V) \<and>
     lossless (AuthUserDeleteResponse_proto V) \<and> lossless (AuthUserChangePasswordResponse_proto V) \<and>
     lossless (AuthUserGrantRoleResponse_proto V) \<and> lossless (AuthUserRevokeRoleResponse_proto V) \<and>
     lossless (AuthRoleAddResponse_proto V) \<and> lossless (AuthRoleGetResponse_proto V) \<and>
     lossless (AuthRoleListResponse_proto V) \<and> lossless (AuthRoleDeleteResponse_proto V) \<and>
     lossless (AuthRoleGrantPermissionResponse_proto V) \<and> lossless (AuthRoleRevokePermissionResponse_proto V)"

section \<open>The stubs\<close>

text \<open>
  \<open>grpc.Invoke(ctx, path, in, out, c.cc)\<close>: the connection is a parameter, which answers a path
  and the bytes of a message with the bytes of the answer; these are decoded into \<open>out\<close>.
\<close>

type_synonym ('s, 'b) conn = "go_context \<Rightarrow> string \<Rightarrow> 'b \<Rightarrow> ('s, 'b) handler"

definition Invoke :: "('s, 'b) conn \<Rightarrow> ('b, 'm) proto \<Rightarrow> ('b, 'r) proto \<Rightarrow> string \<Rightarrow> go_context \<Rightarrow> 'm \<Rightarrow> ('s, 'r) handler" where
  "Invoke conn into outof path ctx msg = and_then (conn ctx path (Marshal into msg))
     (\<lambda>b. case Unmarshal outof b of Inl e \<Rightarrow> throw (Other e) | Inr r \<Rightarrow> ret r)"

definition stub_Keys :: "'b wire \<Rightarrow> ('s, 'b) conn \<Rightarrow> go_context \<Rightarrow> unit \<Rightarrow> ('s, pb_KeysList) handler" where
  "stub_Keys W conn = Invoke conn (Null_proto W) (KeysList_proto W) ''/pb.Mydis/Keys''"

definition stub_KeysWithPrefix :: "'b wire \<Rightarrow> ('s, 'b) conn \<Rightarrow> go_context \<Rightarrow> pb_Key \<Rightarrow> ('s, pb_KeysList) handler" where
  "stub_KeysWithPrefix W conn = Invoke conn (Key_proto W) (KeysList_proto W) ''/pb.Mydis/KeysWithPrefix''"

definition stub_Has :: "'b wire \<Rightarrow> ('s, 'b) conn \<Rightarrow> go_context \<Rightarrow> pb_Key \<Rightarrow> ('s, bool) handler" where
  "stub_Has W conn = Invoke conn (Key_proto W) (Bool_proto W) ''/pb.Mydis/Has''"

definition stub_SetExpire :: "'b wire \<Rightarrow> ('s, 'b) conn \<Rightarrow> go_context \<Rightarrow> pb_Expiration \<Rightarrow> ('s, unit) handler" where
  "stub_SetExpire W conn = Invoke conn (Expiration_proto W) (Null_proto W) ''/pb.Mydis/SetExpire''"

definition stub_Lock :: "'b wire \<Rightarrow> ('s, 'b) conn \<Rightarrow> go_context \<Rightarrow> pb_Key \<Rightarrow> ('s, unit) handler" where
  "stub_Lock W conn = Invoke conn (Key_proto W) (Null_proto W) ''/pb.Mydis/Lock''"

definition stub_LockWithTimeout :: "'b wire \<Rightarrow> ('s, 'b) conn \<Rightarrow> go_context \<Rightarrow> pb_Expiration \<Rightarrow> ('s, unit) handler" where
  "stub_LockWithTimeout W conn = Invoke conn (Expiration_proto W) (Null_proto W) ''/pb.Mydis/LockWithTimeout''"

definition stub_Unlock :: "'b wire \<Rightarrow> ('s, 'b) conn \<Rightarrow> go_context \<Rightarrow> pb_Key \<Rightarrow> ('s, unit) handler" where
  "stub_Unlock W conn = Invoke conn (Key_proto W) (Null_proto W) ''/pb.Mydis/Unlock''"

definition stub_UnlockThenSet :: "'b wire \<Rightarrow> ('s, 'b) conn \<Rightarrow> go_context \<Rightarrow> pb_ByteValue \<Rightarrow> ('s, unit) handler" where
  "stub_UnlockThenSet W conn = Invoke conn (ByteValue_proto W) (Null_proto W) ''/pb.Mydis/UnlockThenSet''"

definition stub_UnlockThenSetList :: "'b wire \<Rightarrow> ('s, 'b) conn \<Rightarrow> go_context \<Rightarrow> pb_List \<Rightarrow> ('s, unit) handler" where
  "stub_UnlockThenSetList W conn = Invoke conn (List_proto W) (Null_proto W) ''/pb.Mydis/UnlockThenSetList''"

definition stub_Delete :: "'b wire \<Rightarrow> ('s, 'b) conn \<Rightarrow> go_context \<Rightarrow> pb_Key \<Rightarrow> ('s, unit) handler" where
  "stub_Delete W conn = Invoke conn (Key_proto W) (Null_proto W) ''/pb.Mydis/Delete''"

definition stub_Clear :: "'b wire \<Rightarrow> ('s, 'b) conn \<Rightarrow> go_context \<Rightarrow> unit \<Rightarrow> ('s, unit) handler" where
  "stub_Clear W conn = Invoke conn (Null_proto W) (Null_proto W) ''/pb.Mydis/Clear''"

definition stub_Get :: "'b wire \<Rightarrow> ('s, 'b) conn \<Rightarrow> go_context \<Rightarrow> pb_Key \<Rightarrow> ('s, pb_ByteValue) handler" where
  "stub_Get W conn = Invoke conn (Key_proto W) (ByteValue_proto W) ''/pb.Mydis/Get''"

definition stub_GetMany :: "'b wire \<Rightarrow> ('s, 'b) conn \<Rightarrow> go_context \<Rightarrow> pb_KeysList \<Rightarrow> ('s, pb_Hash) handler" where
  "stub_GetMany W conn = Invoke conn (KeysList_proto W) (Hash_proto W) ''/pb.Mydis/GetMany''"

definition stub_GetWithPrefix :: "'b wire \<Rightarrow> ('s, 'b) conn \<Rightarrow> go_context \<Rightarrow> pb_Key \<Rightarrow> ('s, pb_Hash) handler" where
  "stub_GetWithPrefix W conn = Invoke conn (Key_proto W) (Hash_proto W) ''/pb.Mydis/GetWithPrefix''"

definition stub_Set :: "'b wire \<Rightarrow> ('s, 'b) conn \<Rightarrow> go_context \<Rightarrow> pb_ByteValue \<Rightarrow> ('s, unit) handler" where
  "stub_Set W conn = Invoke conn (ByteValue_proto W) (Null_proto W) ''/pb.Mydis/Set''"

definition stub_SetNX :: "'b wire \<Rightarrow> ('s, 'b) conn \<Rightarrow> go_context \<Rightarrow> pb_ByteValue \<Rightarrow> ('s, bool) handler" where
  "stub_SetNX W conn = Invoke conn (ByteValue_proto W) (Bool_proto W) ''/pb.Mydis/SetNX''"

definition stub_SetMany :: "'b wire \<Rightarrow> ('s, 'b) conn \<Rightarrow> go_context \<Rightarrow> pb_Hash \<Rightarrow> ('s, pb_ErrorHash) handler" where
  "stub_SetMany W conn = Invoke conn (Hash_proto W) (ErrorHash_proto W) ''/pb.Mydis/SetMany''"

definition stub_Length :: "'b wire \<Rightarrow> ('s, 'b) conn \<Rightarrow> go_context \<Rightarrow> pb_Key \<Rightarrow> ('s, pb_IntValue) handler" where
  "stub_Length W conn = Invoke conn (Key_proto W) (IntValue_proto W) ''/pb.Mydis/Length''"

definition stub_GetInt :: "'b wire \<Rightarrow> ('s, 'b) conn \<Rightarrow> go_context \<Rightarrow> pb_Key \<Rightarrow> ('s, pb_IntValue) handler" where
  "stub_GetInt W conn = Invoke conn (Key_proto W) (IntValue_proto W) ''/pb.Mydis/GetInt''"

definition stub_GetFloat :: "'b wire \<Rightarrow> ('s, 'b) conn \<Rightarrow> go_context \<Rightarrow> pb_Key \<Rightarrow> ('s, pb_FloatValue) handler" where
  "stub_GetFloat W conn = Invoke conn (Key_proto W) (FloatValue_proto W) ''/pb.Mydis/GetFloat''"

definition stub_SetInt :: "'b wire \<Rightarrow> ('s, 'b) conn \<Rightarrow> go_context \<Rightarrow> pb_IntValue \<Rightarrow> ('s, unit) handler" where
  "stub_SetInt W conn = Invoke conn (IntValue_proto W) (Null_proto W) ''/pb.Mydis/SetInt''"

definition stub_SetFloat :: "'b wire \<Rightarrow> ('s, 'b) conn \<Rightarrow> go_context \<Rightarrow> pb_FloatValue \<Rightarrow> ('s, unit) handler" where
  "stub_SetFloat W conn = Invoke conn (FloatValue_proto W) (Null_proto W) ''/pb.Mydis/SetFloat''"

definition stub_IncrementInt :: "'b wire \<Rightarrow> ('s, 'b) conn \<Rightarrow> go_context \<Rightarrow> pb_IntValue \<Rightarrow> ('s, pb_IntValue) handler" where
  "stub_IncrementInt W conn = Invoke conn (IntValue_proto W) (IntValue_proto W) ''/pb.Mydis/IncrementInt''"

definition stub_DecrementInt :: "'b wire \<Rightarrow> ('s, 'b) conn \<Rightarrow> go_context \<Rightarrow> pb_IntValue \<Rightarrow> ('s, pb_IntValue) handler" where
  "stub_DecrementInt W conn = Invoke conn (IntValue_proto W) (IntValue_proto W) ''/pb.Mydis/DecrementInt''"

definition stub_IncrementFloat :: "'b wire \<Rightarrow> ('s, 'b) conn \<Rightarrow> go_context \<Rightarrow> pb_FloatValue \<Rightarrow> ('s, pb_FloatValue) handler" where
  "stub_IncrementFloat W conn = Invoke conn (FloatValue_proto W) (FloatValue_proto W) ''/pb.Mydis/IncrementFloat''"

definition stub_DecrementFloat :: "'b wire \<Rightarrow> ('s, 'b) conn \<Rightarrow> go_context \<Rightarrow> pb_FloatValue \<Rightarrow> ('s, pb_FloatValue) handler" where
  "stub_DecrementFloat W conn = Invoke conn (FloatValue_proto W) (FloatValue_proto W) ''/pb.Mydis/DecrementFloat''"

definition stub_GetList :: "'b wire \<Rightarrow> ('s, 'b) conn \<Rightarrow> go_context \<Rightarrow> pb_Key \<Rightarrow> ('s, pb_List) handler" where
  "stub_GetList W conn = Invoke conn (Key_proto W) (List_proto W) ''/pb.Mydis/GetList''"

definition stub_GetListItem :: "'b wire \<Rightarrow> ('s, 'b) conn \<Rightarrow> go_context \<Rightarrow> pb_ListItem \<Rightarrow> ('s, pb_ByteValue) handler" where
  "stub_GetListItem W conn = Invoke conn (ListItem_proto W) (ByteValue_proto W) ''/pb.Mydis/GetListItem''"

definition stub_SetList :: "'b wire \<Rightarrow> ('s, 'b) conn \<Rightarrow> go_context \<Rightarrow> pb_List \<Rightarrow> ('s, unit) handler" where
  "stub_SetList W conn = Invoke conn (List_proto W) (Null_proto W) ''/pb.Mydis/SetList''"

definition stub_SetListItem :: "'b wire \<Rightarrow> ('s, 'b) conn \<Rightarrow> go_context \<Rightarrow> pb_ListItem \<Rightarrow> ('s, unit) handler" where
  "stub_SetListItem W conn = Invoke conn (ListItem_proto W) (Null_proto W) ''/pb.Mydis/SetListItem''"

definition stub_ListLength :: "'b wire \<Rightarrow> ('s, 'b) conn \<Rightarrow> go_context \<Rightarrow> pb_Key \<Rightarrow> ('s, pb_IntValue) handler" where
  "stub_ListLength W conn = Invoke conn (Key_proto W) (IntValue_proto W) ''/pb.Mydis/ListLength''"

definition stub_ListLimit :: "'b wire \<Rightarrow> ('s, 'b) conn \<Rightarrow> go_context \<Rightarrow> pb_ListItem \<Rightarrow> ('s, unit) handler" where
  "stub_ListLimit W conn = Invoke conn (ListItem_proto W) (Null_proto W) ''/pb.Mydis/ListLimit''"

definition stub_ListInsert :: "'b wire \<Rightarrow> ('s, 'b) conn \<Rightarrow> go_context \<Rightarrow> pb_ListItem \<Rightarrow> ('s, unit) handler" where
  "stub_ListInsert W conn = Invoke conn (ListItem_proto W) (Null_proto W) ''/pb.Mydis/ListInsert''"

definition stub_ListAppend :: "'b wire \<Rightarrow> ('s, 'b) conn \<Rightarrow> go_context \<Rightarrow> pb_ListItem \<Rightarrow> ('s, unit) handler" where
  "stub_ListAppend W conn = Invoke conn (ListItem_proto W) (Null_proto W) ''/pb.Mydis/ListAppend''"

definition stub_ListPopLeft :: "'b wire \<Rightarrow> ('s, 'b) conn \<Rightarrow> go_context \<Rightarrow> pb_Key \<Rightarrow> ('s, pb_ByteValue) handler" where
  "stub_ListPopLeft W conn = Invoke conn (Key_proto W) (ByteValue_proto W) ''/pb.Mydis/ListPopLeft''"

definition stub_ListPopRight :: "'b wire \<Rightarrow> ('s, 'b) conn \<Rightarrow> go_context \<Rightarrow> pb_Key \<Rightarrow> ('s, pb_ByteValue) handler" where
  "stub_ListPopRight W conn = Invoke conn (Key_proto W) (ByteValue_proto W) ''/pb.Mydis/ListPopRight''"

definition stub_ListHas :: "'b wire \<Rightarrow> ('s, 'b) conn \<Rightarrow> go_context \<Rightarrow> pb_ListItem \<Rightarrow> ('s, pb_IntValue) handler" where
  "stub_ListHas W conn = Invoke conn (ListItem_proto W) (IntValue_proto W) ''/pb.Mydis/ListHas''"

definition stub_ListDelete :: "'b wire \<Rightarrow> ('s, 'b) conn \<Rightarrow> go_context \<Rightarrow> pb_ListItem \<Rightarrow> ('s, unit) handler" where
  "stub_ListDelete W conn = Invoke conn (ListItem_proto W) (Null_proto W) ''/pb.Mydis/ListDelete''"

definition stub_ListDeleteItem :: "'b wire \<Rightarrow> ('s, 'b) conn \<Rightarrow> go_context \<Rightarrow> pb_ListItem \<Rightarrow> ('s, pb_IntValue) handler" where
  "stub_ListDeleteItem W conn = Invoke conn (ListItem_proto W) (IntValue_proto W) ''/pb.Mydis/ListDeleteItem''"

definition stub_GetHash :: "'b wire \<Rightarrow> ('s, 'b) conn \<Rightarrow> go_context \<Rightarrow> pb_Key \<Rightarrow> ('s, pb_Hash) handler" where
  "stub_GetHash W conn = Invoke conn (Key_proto W) (Hash_proto W) ''/pb.Mydis/GetHash''"

definition stub_GetHashField :: "'b wire \<Rightarrow> ('s, 'b) conn \<Rightarrow> go_context \<Rightarrow> pb_HashField \<Rightarrow> ('s, pb_ByteValue) handler" where
  "stub_GetHashField W conn = Invoke conn (HashField_proto W) (ByteValue_proto W) ''/pb.Mydis/GetHashField''"

definition stub_GetHashFields :: "'b wire \<Rightarrow> ('s, 'b) conn \<Rightarrow> go_context \<Rightarrow> pb_HashFieldSet \<Rightarrow> ('s, pb_Hash) handler" where
  "stub_GetHashFields W conn = Invoke conn (HashFieldSet_proto W) (Hash_proto W) ''/pb.Mydis/GetHashFields''"

definition stub_HashHas :: "'b wire \<Rightarrow> ('s, 'b) conn \<Rightarrow> go_context \<Rightarrow> pb_HashField \<Rightarrow> ('s, bool) handler" where
  "stub_HashHas W conn = Invoke conn (HashField_proto W) (Bool_proto W) ''/pb.Mydis/HashHas''"

definition stub_HashLength :: "'b wire \<Rightarrow> ('s, 'b) conn \<Rightarrow> go_context \<Rightarrow> pb_Key \<Rightarrow> ('s, pb_IntValue) handler" where
  "stub_HashLength W conn = Invoke conn (Key_proto W) (IntValue_proto W) ''/pb.Mydis/HashLength''"

definition stub_HashFields :: "'b wire \<Rightarrow> ('s, 'b) conn \<Rightarrow> go_context \<Rightarrow> pb_Key \<Rightarrow> ('s, pb_KeysList) handler" where
  "stub_HashFields W conn = Invoke conn (Key_proto W) (KeysList_proto W) ''/pb.Mydis/HashFields''"

definition stub_HashValues :: "'b wire \<Rightarrow> ('s, 'b) conn \<Rightarrow> go_context \<Rightarrow> pb_Key \<Rightarrow> ('s, pb_List) handler" where
  "stub_HashValues W conn = Invoke conn (Key_proto W) (List_proto W) ''/pb.Mydis/HashValues''"

definition stub_SetHash :: "'b wire \<Rightarrow> ('s, 'b) conn \<Rightarrow> go_context \<Rightarrow> pb_Hash \<Rightarrow> ('s, unit) handler" where
  "stub_SetHash W conn = Invoke conn (Hash_proto W) (Null_proto W) ''/pb.Mydis/SetHash''"

definition stub_SetHashField :: "'b wire \<Rightarrow> ('s, 'b) conn \<Rightarrow> go_context \<Rightarrow> pb_HashField \<Rightarrow> ('s, unit) handler" where
  "stub_SetHashField W conn = Invoke conn (HashField_proto W) (Null_proto W) ''/pb.Mydis/SetHashField''"

definition stub_SetHashFields :: "'b wire \<Rightarrow> ('s, 'b) conn \<Rightarrow> go_context \<Rightarrow> pb_Hash \<Rightarrow> ('s, unit) handler" where
  "stub_SetHashFields W conn = Invoke conn (Hash_proto W) (Null_proto W) ''/pb.Mydis/SetHashFields''"

definition stub_DelHashField :: "'b wire \<Rightarrow> ('s, 'b) conn \<Rightarrow> go_context \<Rightarrow> pb_HashField \<Rightarrow> ('s, unit) handler" where
  "stub_DelHashField W conn = Invoke conn (HashField_proto W) (Null_proto W) ''/pb.Mydis/DelHashField''"

definition stub_AuthEnable :: "'b auth_wire \<Rightarrow> ('s, 'b) conn \<Rightarrow> go_context \<Rightarrow> unit \<Rightarrow> ('s, pb_ResponseHeader) handler" where
  "stub_AuthEnable V conn = Invoke conn (AuthEnableRequest_proto V) (AuthEnableResponse_proto V) ''/pb.Mydis/AuthEnable''"

definition stub_AuthDisable :: "'b auth_wire \<Rightarrow> ('s, 'b) conn \<Rightarrow> go_context \<Rightarrow> unit \<Rightarrow> ('s, pb_ResponseHeader) handler" where
  "stub_AuthDisable V conn = Invoke conn (AuthDisableRequest_proto V) (AuthDisableResponse_proto V) ''/pb.Mydis/AuthDisable''"

definition stub_Authenticate :: "'b auth_wire \<Rightarrow> ('s, 'b) conn \<Rightarrow> go_context \<Rightarrow> AuthenticateRequest \<Rightarrow> ('s, AuthenticateResponse) handler" where
  "stub_Authenticate V conn = Invoke conn (AuthenticateRequest_proto V) (AuthenticateResponse_proto V) ''/pb.Mydis/Authenticate''"

definition stub_UserAdd :: "'b auth_wire \<Rightarrow> ('s, 'b) conn \<Rightarrow> go_context \<Rightarrow> AuthUserAddRequest \<Rightarrow> ('s, pb_ResponseHeader) handler" where
  "stub_UserAdd V conn = Invoke conn (AuthUserAddRequest_proto V) (AuthUserAddResponse_proto V) ''/pb.Mydis/UserAdd''"

definition stub_UserGet :: "'b auth_wire \<Rightarrow> ('s, 'b) conn \<Rightarrow> go_context \<Rightarrow> string \<Rightarrow> ('s, AuthNamesResponse) handler" where
  "stub_UserGet V conn = Invoke conn (AuthUserGetRequest_proto V) (AuthUserGetResponse_proto V) ''/pb.Mydis/UserGet''"

definition stub_UserList :: "'b auth_wire \<Rightarrow> ('s, 'b) conn \<Rightarrow> go_context \<Rightarrow> unit \<Rightarrow> ('s, AuthNamesResponse) handler" where
  "stub_UserList V conn = Invoke conn (AuthUserListRequest_proto V) (AuthUserListResponse_proto V) ''/pb.Mydis/UserList''"

definition stub_UserDelete :: "'b auth_wire \<Rightarrow> ('s, 'b) conn \<Rightarrow> go_context \<Rightarrow> string \<Rightarrow> ('s, pb_ResponseHeader) handler" where
  "stub_UserDelete V conn = Invoke conn (AuthUserDeleteRequest_proto V) (AuthUserDeleteResponse_proto V) ''/pb.Mydis/UserDelete''"

definition stub_UserChangePassword :: "'b auth_wire \<Rightarrow> ('s, 'b) conn \<Rightarrow> go_context \<Rightarrow> AuthUserChangePasswordRequest \<Rightarrow> ('s, pb_ResponseHeader) handler" where
  "stub_UserChangePassword V conn = Invoke conn (AuthUserChangePasswordRequest_proto V) (AuthUserChangePasswordResponse_proto V) ''/pb.Mydis/UserChangePassword''"

definition stub_UserGrantRole :: "'b auth_wire \<Rightarrow> ('s, 'b) conn \<Rightarrow> go_context \<Rightarrow> AuthUserGrantRoleRequest \<Rightarrow> ('s, pb_ResponseHeader) handler" where
  "stub_UserGrantRole V conn = Invoke conn (AuthUserGrantRoleRequest_proto V) (AuthUserGrantRoleResponse_proto V) ''/pb.Mydis/UserGrantRole''"

definition stub_UserRevokeRole :: "'b auth_wire \<Rightarrow> ('s, 'b) conn \<Rightarrow> go_context \<Rightarrow> AuthUserRevokeRoleRequest \<Rightarrow> ('s, pb_ResponseHeader) handler" where
  "stub_UserRevokeRole V conn = Invoke conn (AuthUserRevokeRoleRequest_proto V) (AuthUserRevokeRoleResponse_proto V) ''/pb.Mydis/UserRevokeRole''"

definition stub_RoleAdd :: "'b auth_wire \<Rightarrow> ('s, 'b) conn \<Rightarrow> go_context \<Rightarrow> string \<Rightarrow> ('s, pb_ResponseHeader) handler" where
  "stub_RoleAdd V conn = Invoke conn (AuthRoleAddRequest_proto V) (AuthRoleAddResponse_proto V) ''/pb.Mydis/RoleAdd''"

definition stub_RoleGet :: "'b auth_wire \<Rightarrow> ('s, 'b) conn \<Rightarrow> go_context \<Rightarrow> string \<Rightarrow> ('s, AuthRoleGetResponse) handler" where
  "stub_RoleGet V conn = Invoke conn (AuthRoleGetRequest_proto V) (AuthRoleGetResponse_proto V) ''/pb.Mydis/RoleGet''"

definition stub_RoleList :: "'b auth_wire \<Rightarrow> ('s, 'b) conn \<Rightarrow> go_context \<Rightarrow> unit \<Rightarrow> ('s, AuthNamesResponse) handler" where
  "stub_RoleList V conn = Invoke conn (AuthRoleListRequest_proto V) (AuthRoleListResponse_proto V) ''/pb.Mydis/RoleList''"

definition stub_RoleDelete :: "'b auth_wire \<Rightarrow> ('s, 'b) conn \<Rightarrow> go_context \<Rightarrow> string \<Rightarrow> ('s, pb_ResponseHeader) handler" where
  "stub_RoleDelete V conn = Invoke conn (AuthRoleDeleteRequest_proto V) (AuthRoleDeleteResponse_proto V) ''/pb.Mydis/RoleDelete''"

definition stub_RoleGrantPermission :: "'b auth_wire \<Rightarrow> ('s, 'b) conn \<Rightarrow> go_context \<Rightarrow> AuthRoleGrantPermissionRequest \<Rightarrow> ('s, pb_ResponseHeader) handler" where
  "stub_RoleGrantPermission V conn = Invoke conn (AuthRoleGrantPermissionRequest_proto V) (AuthRoleGrantPermissionResponse_proto V) ''/pb.Mydis/RoleGrantPermission''"

definition stub_RoleRevokePermission :: "'b auth_wire \<Rightarrow> ('s, 'b) conn \<Rightarrow> go_context \<Rightarrow> AuthRoleRevokePermissionRequest \<Rightarrow> ('s, pb_ResponseHeader) handler" where
  "stub_RoleRevokePermission V conn = Invoke conn (AuthRoleRevokePermissionRequest_proto V) (AuthRoleRevokePermissionResponse_proto V) ''/pb.Mydis/RoleRevokePermission''"

section \<open>The service\<close>

text \<open>
  The functions \<open>_Mydis_..._Handler\<close>: the message is decoded and the operation called; the
  server has no interceptor.
\<close>

type_synonym ('s, 'b) served = "go_context \<Rightarrow> 'b \<Rightarrow> ('s, 'b) handler"

definition unary_handler :: "('b, 'm) proto \<Rightarrow> ('b, 'r) proto \<Rightarrow> (go_context \<Rightarrow> 'm \<Rightarrow> ('s, 'r) handler) \<Rightarrow> ('s, 'b) served" where
  "unary_handler into outof f ctx b = (case Unmarshal into b of
     Inl e \<Rightarrow> throw (Other e)
   | Inr msg \<Rightarrow> and_then (f ctx msg) (\<lambda>r. ret (Marshal outof r)))"

text \<open>The table \<open>_Mydis_serviceDesc\<close>.\<close>

definition key_methods :: "'s etcd \<Rightarrow> codec \<Rightarrow> 'b wire \<Rightarrow> (string \<times> ('s, 'b) served) list" where
  "key_methods E C W =
    [(''Keys'', unary_handler (Null_proto W) (KeysList_proto W) (\<lambda>_ _. Keys E)),
     (''KeysWithPrefix'', unary_handler (Key_proto W) (KeysList_proto W) (\<lambda>_ x. KeysWithPrefix E x)),
     (''Has'', unary_handler (Key_proto W) (Bool_proto W) (\<lambda>_ x. Has E x)),
     (''SetExpire'', unary_handler (Expiration_proto W) (Null_proto W) (\<lambda>_ x. SetExpire E x)),
     (''Lock'', unary_handler (Key_proto W) (Null_proto W) (\<lambda>ctx x. Lock E ctx x)),
     (''LockWithTimeout'', unary_handler (Expiration_proto W) (Null_proto W) (\<lambda>_ x. LockWithTimeout E x)),
     (''Unlock'', unary_handler (Key_proto W) (Null_proto W) (\<lambda>ctx x. Unlock E ctx x)),
     (''UnlockThenSet'', unary_handler (ByteValue_proto W) (Null_proto W) (\<lambda>_ x. UnlockThenSet E x)),
     (''UnlockThenSetList'', unary_handler (List_proto W) (Null_proto W) (\<lambda>_ x. UnlockThenSetList E C x)),
     (''Delete'', unary_handler (Key_proto W) (Null_proto W) (\<lambda>ctx x. Delete E ctx x)),
     (''Clear'', unary_handler (Null_proto W) (Null_proto W) (\<lambda>_ _. Clear E))]"

definition byte_methods :: "'s etcd \<Rightarrow> codec \<Rightarrow> 'b wire \<Rightarrow> (string \<times> ('s, 'b) served) list" where
  "byte_methods E C W =
    [(''Get'', unary_handler (Key_proto W) (ByteValue_proto W) (\<lambda>_ x. Get E x)),
     (''GetMany'', unary_handler (KeysList_proto W) (Hash_proto W) (\<lambda>_ x. GetMany E x)),
     (''GetWithPrefix'', unary_handler (Key_proto W) (Hash_proto W) (\<lambda>_ x. GetWithPrefix E x)),
     (''Set'', unary_handler (ByteValue_proto W) (Null_proto W) (\<lambda>ctx x. Set E ctx x)),
     (''SetNX'', unary_handler (ByteValue_proto W) (Bool_proto W) (\<lambda>ctx x. SetNX E ctx x)),
     (''SetMany'', unary_handler (Hash_proto W) (ErrorHash_proto W) (\<lambda>ctx x. SetMany E ctx x)),
     (''Length'', unary_handler (Key_proto W) (IntValue_proto W) (\<lambda>_ x. Length E x))]"

definition number_methods :: "'s etcd \<Rightarrow> codec \<Rightarrow> 'b wire \<Rightarrow> (string \<times> ('s, 'b) served) list" where
  "number_methods E C W =
    [(''GetInt'', unary_handler (Key_proto W) (IntValue_proto W) (\<lambda>_ x. GetInt E C x)),
     (''GetFloat'', unary_handler (Key_proto W) (FloatValue_proto W) (\<lambda>_ x. GetFloat E C x)),
     (''SetInt'', unary_handler (IntValue_proto W) (Null_proto W) (\<lambda>ctx x. SetInt E C ctx x)),
     (''SetFloat'', unary_handler (FloatValue_proto W) (Null_proto W) (\<lambda>ctx x. SetFloat E C ctx x)),
     (''IncrementInt'', unary_handler (IntValue_proto W) (IntValue_proto W) (\<lambda>ctx x. IncrementInt E C ctx x)),
     (''DecrementInt'', unary_handler (IntValue_proto W) (IntValue_proto W) (\<lambda>ctx x. DecrementInt E C ctx x)),
     (''IncrementFloat'', unary_handler (FloatValue_proto W) (FloatValue_proto W) (\<lambda>ctx x. IncrementFloat E C ctx x)),
     (''DecrementFloat'', unary_handler (FloatValue_proto W) (FloatValue_proto W) (\<lambda>ctx x. DecrementFloat E C ctx x))]"

definition list_methods :: "'s etcd \<Rightarrow> codec \<Rightarrow> 'b wire \<Rightarrow> (string \<times> ('s, 'b) served) list" where
  "list_methods E C W =
    [(''GetList'', unary_handler (Key_proto W) (List_proto W) (\<lambda>_ x. GetList E C x)),
     (''GetListItem'', unary_handler (ListItem_proto W) (ByteValue_proto W) (\<lambda>_ x. GetListItem E C x)),
     (''SetList'', unary_handler (List_proto W) (Null_proto W) (\<lambda>ctx x. SetList E C ctx x)),
     (''SetListItem'', unary_handler (ListItem_proto W) (Null_proto W) (\<lambda>ctx x. SetListItem E C ctx x)),
     (''ListLength'', unary_handler (Key_proto W) (IntValue_proto W) (\<lambda>_ x. ListLength E C x)),
     (''ListLimit'', unary_handler (ListItem_proto W) (Null_proto W) (\<lambda>ctx x. ListLimit E C ctx x)),
     (''ListInsert'', unary_handler (ListItem_proto W) (Null_proto W) (\<lambda>ctx x. ListInsert E C ctx x)),
     (''ListAppend'', unary_handler (ListItem_proto W) (Null_proto W) (\<lambda>ctx x. ListAppend E C ctx x)),
     (''ListPopLeft'', unary_handler (Key_proto W) (ByteValue_proto W) (\<lambda>ctx x. ListPopLeft E C ctx x)),
     (''ListPopRight'', unary_handler (Key_proto W) (ByteValue_proto W) (\<lambda>ctx x. ListPopRight E C ctx x)),
     (''ListHas'', unary_handler (ListItem_proto W) (IntValue_proto W) (\<lambda>_ x. ListHas E C x)),
     (''ListDelete'', unary_handler (ListItem_proto W) (Null_proto W) (\<lambda>ctx x. ListDelete E C ctx x)),
     (''ListDeleteItem'', unary_handler (ListItem_proto W) (IntValue_proto W) (\<lambda>ctx x. ListDeleteItem E C ctx x))]"

definition hash_methods :: "'s etcd \<Rightarrow> codec \<Rightarrow> 'b wire \<Rightarrow> (string \<times> ('s, 'b) served) list" where
  "hash_methods E C W =
    [(''GetHash'', unary_handler (Key_proto W) (Hash_proto W) (\<lambda>_ x. GetHash E C x)),
     (''GetHashField'', unary_handler (HashField_proto W) (ByteValue_proto W) (\<lambda>_ x. GetHashField E C x)),
     (''GetHashFields'', unary_handler (HashFieldSet_proto W) (Hash_proto W) (\<lambda>_ x. GetHashFields E C x)),
     (''HashHas'', unary_handler (HashField_proto W) (Bool_proto W) (\<lambda>_ x. HashHas E C x)),
     (''HashLength'', unary_handler (Key_proto W) (IntValue_proto W) (\<lambda>_ x. HashLength E C x)),
     (''HashFields'', unary_handler (Key_proto W) (KeysList_proto W) (\<lambda>_ x. HashFields E C x)),
     (''HashValues'', unary_handler (Key_proto W) (List_proto W) (\<lambda>_ x. HashValues E C x)),
     (''SetHash'', unary_handler (Hash_proto W) (Null_proto W) (\<lambda>ctx x. SetHash E C ctx x)),
     (''SetHashField'', unary_handler (HashField_proto W) (Null_proto W) (\<lambda>ctx x. SetHashField E C ctx x)),
     (''SetHashFields'', unary_handler (Hash_proto W) (Null_proto W) (\<lambda>ctx x. SetHashFields E C ctx x)),
     (''DelHashField'', unary_handler (HashField_proto W) (Null_proto W) (\<lambda>ctx x. DelHashField E C ctx x))]"

definition user_methods :: "'s etcd \<Rightarrow> 's etcd_auth \<Rightarrow> 'b auth_wire \<Rightarrow> (string \<times> ('s, 'b) served) list" where
  "user_methods E A V =
    [(''AuthEnable'', unary_handler (AuthEnableRequest_proto V) (AuthEnableResponse_proto V) (\<lambda>_ x. AuthEnable E A x)),
     (''AuthDisable'', unary_handler (AuthDisableRequest_proto V) (AuthDisableResponse_proto V) (\<lambda>_ x. AuthDisable E A x)),
     (''Authenticate'', unary_handler (AuthenticateRequest_proto V) (AuthenticateResponse_proto V) (\<lambda>_ x. Authenticate E A x)),
     (''UserAdd'', unary_handler (AuthUserAddRequest_proto V) (AuthUserAddResponse_proto V) (\<lambda>_ x. UserAdd E A x)),
     (''UserGet'', unary_handler (AuthUserGetRequest_proto V) (AuthUserGetResponse_proto V) (\<lambda>_ x. UserGet E A x)),
     (''UserList'', unary_handler (AuthUserListRequest_proto V) (AuthUserListResponse_proto V) (\<lambda>_ x. UserList E A x)),
     (''UserDelete'', unary_handler (AuthUserDeleteRequest_proto V) (AuthUserDeleteResponse_proto V) (\<lambda>_ x. UserDelete E A (Some x))),
     (''UserChangePassword'', unary_handler (AuthUserChangePasswordRequest_proto V) (AuthUserChangePasswordResponse_proto V) (\<lambda>_ x. UserChangePassword E A x)),
     (''UserGrantRole'', unary_handler (AuthUserGrantRoleRequest_proto V) (AuthUserGrantRoleResponse_proto V) (\<lambda>_ x. UserGrantRole E A x)),
     (''UserRevokeRole'', unary_handler (AuthUserRevokeRoleRequest_proto V) (AuthUserRevokeRoleResponse_proto V) (\<lambda>_ x. UserRevokeRole E A x))]"

definition role_methods :: "'s etcd \<Rightarrow> 's etcd_auth \<Rightarrow> 'b auth_wire \<Rightarrow> (string \<times> ('s, 'b) served) list" where
  "role_methods E A V =
    [(''RoleAdd'', unary_handler (AuthRoleAddRequest_proto V) (AuthRoleAddResponse_proto V) (\<lambda>_ x. RoleAdd E A x)),
     (''RoleGet'', unary_handler (AuthRoleGetRequest_proto V) (AuthRoleGetResponse_proto V) (\<lambda>_ x. RoleGet E A x)),
     (''RoleList'', unary_handler (AuthRoleListRequest_proto V) (AuthRoleListResponse_proto V) (\<lambda>_ x. RoleList E A x)),
     (''RoleDelete'', unary_handler (AuthRoleDeleteRequest_proto V) (AuthRoleDeleteResponse_proto V) (\<lambda>_ x. RoleDelete E A x)),
     (''RoleGrantPermission'', unary_handler (AuthRoleGrantPermissionRequest_proto V) (AuthRoleGrantPermissionResponse_proto V) (\<lambda>_ x. RoleGrantPermission E A x)),
     (''RoleRevokePermission'', unary_handler (AuthRoleRevokePermissionRequest_proto V) (AuthRoleRevokePermissionResponse_proto V) (\<lambda>_ x. RoleRevokePermission E A x))]"

definition service_methods :: "'s etcd \<Rightarrow> codec \<Rightarrow> 's etcd_auth \<Rightarrow> 'b wire \<Rightarrow> 'b auth_wire \<Rightarrow> (string \<times> ('s, 'b) served) list" where
  "service_methods E C A W V = key_methods E C W @ byte_methods E C W @ number_methods E C W @ list_methods E C W @
     hash_methods E C W @ user_methods E A V @ role_methods E A V"

definition ServiceName :: string where
  "ServiceName = ''pb.Mydis''"

text \<open>
  What gRPC documents of a connection to a server with such a table, while it works: the path
  is the service's name and the method's, the handler of the method gets the context's
  metadata and the bytes, and an error of the handler arrives as its text.
\<close>

definition connects :: "('s, 'b) conn \<Rightarrow> (string \<times> ('s, 'b) served) list \<Rightarrow> bool" where
  "connects conn methods \<longleftrightarrow> (\<forall>name f ctx b. map_of methods name = Some f \<longrightarrow>
     conn ctx (''/'' @ ServiceName @ ''/'' @ name) b = rpc (f ctx b))"

section \<open>What a stub does\<close>

lemma rpc_then_ret: "rpc (and_then m (\<lambda>x. ret (g x))) = and_then (rpc m) (\<lambda>x. ret (g x))"
  by (auto simp: rpc_def fun_eq_iff and_then_def attempt_def ret_def throw_def split: prod.splits outcome.splits)

lemma lossless_simps: "lossless p \<Longrightarrow> Unmarshal p (Marshal p m) = Inr m"
  by (simp add: lossless_def)

lemma keeps_entries_simps: "keeps_entries p entries name \<Longrightarrow> Unmarshal p (Marshal p m) = Inr (arrived p m)"
  unfolding keeps_entries_def arrived_def by (metis sum.simps(6))

lemma wire_maps:
  assumes "wire_ok W"
  shows "Unmarshal (Hash_proto W) (Marshal (Hash_proto W) h) = Inr (arrived (Hash_proto W) h)"
    and "Unmarshal (ErrorHash_proto W) (Marshal (ErrorHash_proto W) e) = Inr (arrived (ErrorHash_proto W) e)"
  using assms unfolding wire_ok_def by (blast intro: keeps_entries_simps)+

lemma arrived_entries:
  "keeps_entries p entries name \<Longrightarrow> map_wf (entries m) \<Longrightarrow> name (arrived p m) = name m \<and> map_wf (entries (arrived p m)) \<and>
     map_get (entries (arrived p m)) = map_get (entries m) \<and> (entries (arrived p m) = None \<longleftrightarrow> map_entries (entries m) = [])"
  using keeps_entries_simps [of p entries name m] unfolding keeps_entries_def by (metis sum.inject(2))

lemma service_names: "distinct (map fst (service_methods E C A W V))"
proof -
  let ?names = "[''Keys'', ''KeysWithPrefix'', ''Has'', ''SetExpire'', ''Lock'',
      ''LockWithTimeout'', ''Unlock'', ''UnlockThenSet'', ''UnlockThenSetList'', ''Delete'',
      ''Clear'', ''Get'', ''GetMany'', ''GetWithPrefix'', ''Set'',
      ''SetNX'', ''SetMany'', ''Length'', ''GetInt'', ''GetFloat'',
      ''SetInt'', ''SetFloat'', ''IncrementInt'', ''DecrementInt'', ''IncrementFloat'',
      ''DecrementFloat'', ''GetList'', ''GetListItem'', ''SetList'', ''SetListItem'',
      ''ListLength'', ''ListLimit'', ''ListInsert'', ''ListAppend'', ''ListPopLeft'',
      ''ListPopRight'', ''ListHas'', ''ListDelete'', ''ListDeleteItem'', ''GetHash'',
      ''GetHashField'', ''GetHashFields'', ''HashHas'', ''HashLength'', ''HashFields'',
      ''HashValues'', ''SetHash'', ''SetHashField'', ''SetHashFields'', ''DelHashField'',
      ''AuthEnable'', ''AuthDisable'', ''Authenticate'', ''UserAdd'', ''UserGet'',
      ''UserList'', ''UserDelete'', ''UserChangePassword'', ''UserGrantRole'', ''UserRevokeRole'',
      ''RoleAdd'', ''RoleGet'', ''RoleList'', ''RoleDelete'', ''RoleGrantPermission'',
      ''RoleRevokePermission'']"
  have "map fst (service_methods E C A W V) = ?names"
    by (simp add: service_methods_def key_methods_def byte_methods_def number_methods_def list_methods_def hash_methods_def
        user_methods_def role_methods_def)
  moreover have "distinct ?names" by code_simp
  ultimately show ?thesis by (simp only:)
qed

lemma connected_method:
  assumes "connects conn (service_methods E C A W V)" and "(name, f) \<in> set (service_methods E C A W V)"
  shows "conn ctx (''/pb.Mydis/'' @ name) b = rpc (f ctx b)"
proof -
  have "map_of (service_methods E C A W V) name = Some f" by (rule map_of_is_SomeI [OF service_names assms(2)])
  then have "conn ctx (''/'' @ ServiceName @ ''/'' @ name) b = rpc (f ctx b)" using assms(1) unfolding connects_def by blast
  then show ?thesis by (simp add: ServiceName_def)
qed

lemma connected_methods:
  assumes "connects conn (service_methods E C A W V)" and "set methods \<subseteq> set (service_methods E C A W V)"
  shows "list_all (\<lambda>x. \<forall>ctx b. conn ctx (''/pb.Mydis/'' @ fst x) b = rpc (snd x ctx b)) methods"
  unfolding list_all_iff
proof (intro ballI allI)
  fix x ctx b assume "x \<in> set methods"
  then have "(fst x, snd x) \<in> set (service_methods E C A W V)" using assms(2) by auto
  then show "conn ctx (''/pb.Mydis/'' @ fst x) b = rpc (snd x ctx b)" by (rule connected_method [OF assms(1)])
qed

lemmas key_stubs = stub_Keys_def stub_KeysWithPrefix_def stub_Has_def stub_SetExpire_def
  stub_Lock_def stub_LockWithTimeout_def stub_Unlock_def stub_UnlockThenSet_def
  stub_UnlockThenSetList_def stub_Delete_def stub_Clear_def
lemmas byte_stubs = stub_Get_def stub_GetMany_def stub_GetWithPrefix_def stub_Set_def stub_SetNX_def
  stub_SetMany_def stub_Length_def
lemmas number_stubs = stub_GetInt_def stub_GetFloat_def stub_SetInt_def stub_SetFloat_def
  stub_IncrementInt_def stub_DecrementInt_def stub_IncrementFloat_def stub_DecrementFloat_def
lemmas list_stubs = stub_GetList_def stub_GetListItem_def stub_SetList_def stub_SetListItem_def
  stub_ListLength_def stub_ListLimit_def stub_ListInsert_def stub_ListAppend_def
  stub_ListPopLeft_def stub_ListPopRight_def stub_ListHas_def stub_ListDelete_def
  stub_ListDeleteItem_def
lemmas hash_stubs = stub_GetHash_def stub_GetHashField_def stub_GetHashFields_def stub_HashHas_def
  stub_HashLength_def stub_HashFields_def stub_HashValues_def stub_SetHash_def stub_SetHashField_def
  stub_SetHashFields_def stub_DelHashField_def
lemmas user_stubs = stub_AuthEnable_def stub_AuthDisable_def stub_Authenticate_def stub_UserAdd_def
  stub_UserGet_def stub_UserList_def stub_UserDelete_def stub_UserChangePassword_def
  stub_UserGrantRole_def stub_UserRevokeRole_def
lemmas role_stubs = stub_RoleAdd_def stub_RoleGet_def stub_RoleList_def stub_RoleDelete_def
  stub_RoleGrantPermission_def stub_RoleRevokePermission_def

lemmas answered = Invoke_def unary_handler_def rpc_then_ret and_then_assoc lossless_simps wire_maps

lemma key_calls:
  assumes "wire_ok W" and "connects conn (service_methods E C A W V)"
  shows "stub_Keys W conn ctx u = rpc (Keys E)"
    "stub_KeysWithPrefix W conn ctx k = rpc (KeysWithPrefix E k)"
    "stub_Has W conn ctx k = rpc (Has E k)"
    "stub_SetExpire W conn ctx ex = rpc (SetExpire E ex)"
    "stub_Lock W conn ctx k = rpc (Lock E ctx k)"
    "stub_LockWithTimeout W conn ctx ex = rpc (LockWithTimeout E ex)"
    "stub_Unlock W conn ctx k = rpc (Unlock E ctx k)"
    "stub_UnlockThenSet W conn ctx bv = rpc (UnlockThenSet E bv)"
    "stub_UnlockThenSetList W conn ctx l = rpc (UnlockThenSetList E C l)"
    "stub_Delete W conn ctx k = rpc (Delete E ctx k)"
    "stub_Clear W conn ctx u = rpc (Clear E)"
proof -
  have "set (key_methods E C W) \<subseteq> set (service_methods E C A W V)" by (auto simp: service_methods_def)
  note at = connected_methods [OF assms(2) this, unfolded key_methods_def, simplified]
  note ok = assms(1) [unfolded wire_ok_def]
  show "stub_Keys W conn ctx u = rpc (Keys E)"
    "stub_KeysWithPrefix W conn ctx k = rpc (KeysWithPrefix E k)"
    "stub_Has W conn ctx k = rpc (Has E k)"
    "stub_SetExpire W conn ctx ex = rpc (SetExpire E ex)"
    "stub_Lock W conn ctx k = rpc (Lock E ctx k)"
    "stub_LockWithTimeout W conn ctx ex = rpc (LockWithTimeout E ex)"
    "stub_Unlock W conn ctx k = rpc (Unlock E ctx k)"
    "stub_UnlockThenSet W conn ctx bv = rpc (UnlockThenSet E bv)"
    "stub_UnlockThenSetList W conn ctx l = rpc (UnlockThenSetList E C l)"
    "stub_Delete W conn ctx k = rpc (Delete E ctx k)"
    "stub_Clear W conn ctx u = rpc (Clear E)"
    by (simp_all add: key_stubs answered at ok assms(1))
qed

lemma byte_calls:
  assumes "wire_ok W" and "connects conn (service_methods E C A W V)"
  shows "stub_Get W conn ctx k = rpc (Get E k)"
    "stub_GetMany W conn ctx ks = and_then (rpc (GetMany E ks)) (\<lambda>r. ret (arrived (Hash_proto W) r))"
    "stub_GetWithPrefix W conn ctx k = and_then (rpc (GetWithPrefix E k)) (\<lambda>r. ret (arrived (Hash_proto W) r))"
    "stub_Set W conn ctx bv = rpc (Set E ctx bv)"
    "stub_SetNX W conn ctx bv = rpc (SetNX E ctx bv)"
    "stub_SetMany W conn ctx h = and_then (rpc (SetMany E ctx (arrived (Hash_proto W) h))) (\<lambda>r. ret (arrived (ErrorHash_proto W) r))"
    "stub_Length W conn ctx k = rpc (Length E k)"
proof -
  have "set (byte_methods E C W) \<subseteq> set (service_methods E C A W V)" by (auto simp: service_methods_def)
  note at = connected_methods [OF assms(2) this, unfolded byte_methods_def, simplified]
  note ok = assms(1) [unfolded wire_ok_def]
  show "stub_Get W conn ctx k = rpc (Get E k)"
    "stub_GetMany W conn ctx ks = and_then (rpc (GetMany E ks)) (\<lambda>r. ret (arrived (Hash_proto W) r))"
    "stub_GetWithPrefix W conn ctx k = and_then (rpc (GetWithPrefix E k)) (\<lambda>r. ret (arrived (Hash_proto W) r))"
    "stub_Set W conn ctx bv = rpc (Set E ctx bv)"
    "stub_SetNX W conn ctx bv = rpc (SetNX E ctx bv)"
    "stub_SetMany W conn ctx h = and_then (rpc (SetMany E ctx (arrived (Hash_proto W) h))) (\<lambda>r. ret (arrived (ErrorHash_proto W) r))"
    "stub_Length W conn ctx k = rpc (Length E k)"
    by (simp_all add: byte_stubs answered at ok assms(1))
qed

lemma number_calls:
  assumes "wire_ok W" and "connects conn (service_methods E C A W V)"
  shows "stub_GetInt W conn ctx k = rpc (GetInt E C k)"
    "stub_GetFloat W conn ctx k = rpc (GetFloat E C k)"
    "stub_SetInt W conn ctx iv = rpc (SetInt E C ctx iv)"
    "stub_SetFloat W conn ctx fv = rpc (SetFloat E C ctx fv)"
    "stub_IncrementInt W conn ctx iv = rpc (IncrementInt E C ctx iv)"
    "stub_DecrementInt W conn ctx iv = rpc (DecrementInt E C ctx iv)"
    "stub_IncrementFloat W conn ctx fv = rpc (IncrementFloat E C ctx fv)"
    "stub_DecrementFloat W conn ctx fv = rpc (DecrementFloat E C ctx fv)"
proof -
  have "set (number_methods E C W) \<subseteq> set (service_methods E C A W V)" by (auto simp: service_methods_def)
  note at = connected_methods [OF assms(2) this, unfolded number_methods_def, simplified]
  note ok = assms(1) [unfolded wire_ok_def]
  show "stub_GetInt W conn ctx k = rpc (GetInt E C k)"
    "stub_GetFloat W conn ctx k = rpc (GetFloat E C k)"
    "stub_SetInt W conn ctx iv = rpc (SetInt E C ctx iv)"
    "stub_SetFloat W conn ctx fv = rpc (SetFloat E C ctx fv)"
    "stub_IncrementInt W conn ctx iv = rpc (IncrementInt E C ctx iv)"
    "stub_DecrementInt W conn ctx iv = rpc (DecrementInt E C ctx iv)"
    "stub_IncrementFloat W conn ctx fv = rpc (IncrementFloat E C ctx fv)"
    "stub_DecrementFloat W conn ctx fv = rpc (DecrementFloat E C ctx fv)"
    by (simp_all add: number_stubs answered at ok assms(1))
qed

lemma list_calls:
  assumes "wire_ok W" and "connects conn (service_methods E C A W V)"
  shows "stub_GetList W conn ctx k = rpc (GetList E C k)"
    "stub_GetListItem W conn ctx li = rpc (GetListItem E C li)"
    "stub_SetList W conn ctx l = rpc (SetList E C ctx l)"
    "stub_SetListItem W conn ctx li = rpc (SetListItem E C ctx li)"
    "stub_ListLength W conn ctx k = rpc (ListLength E C k)"
    "stub_ListLimit W conn ctx li = rpc (ListLimit E C ctx li)"
    "stub_ListInsert W conn ctx li = rpc (ListInsert E C ctx li)"
    "stub_ListAppend W conn ctx li = rpc (ListAppend E C ctx li)"
    "stub_ListPopLeft W conn ctx k = rpc (ListPopLeft E C ctx k)"
    "stub_ListPopRight W conn ctx k = rpc (ListPopRight E C ctx k)"
    "stub_ListHas W conn ctx li = rpc (ListHas E C li)"
    "stub_ListDelete W conn ctx li = rpc (ListDelete E C ctx li)"
    "stub_ListDeleteItem W conn ctx li = rpc (ListDeleteItem E C ctx li)"
proof -
  have "set (list_methods E C W) \<subseteq> set (service_methods E C A W V)" by (auto simp: service_methods_def)
  note at = connected_methods [OF assms(2) this, unfolded list_methods_def, simplified]
  note ok = assms(1) [unfolded wire_ok_def]
  show "stub_GetList W conn ctx k = rpc (GetList E C k)"
    "stub_GetListItem W conn ctx li = rpc (GetListItem E C li)"
    "stub_SetList W conn ctx l = rpc (SetList E C ctx l)"
    "stub_SetListItem W conn ctx li = rpc (SetListItem E C ctx li)"
    "stub_ListLength W conn ctx k = rpc (ListLength E C k)"
    "stub_ListLimit W conn ctx li = rpc (ListLimit E C ctx li)"
    "stub_ListInsert W conn ctx li = rpc (ListInsert E C ctx li)"
    "stub_ListAppend W conn ctx li = rpc (ListAppend E C ctx li)"
    "stub_ListPopLeft W conn ctx k = rpc (ListPopLeft E C ctx k)"
    "stub_ListPopRight W conn ctx k = rpc (ListPopRight E C ctx k)"
    "stub_ListHas W conn ctx li = rpc (ListHas E C li)"
    "stub_ListDelete W conn ctx li = rpc (ListDelete E C ctx li)"
    "stub_ListDeleteItem W conn ctx li = rpc (ListDeleteItem E C ctx li)"
    by (simp_all add: list_stubs answered at ok assms(1))
qed

lemma hash_calls:
  assumes "wire_ok W" and "connects conn (service_methods E C A W V)"
  shows "stub_GetHash W conn ctx k = and_then (rpc (GetHash E C k)) (\<lambda>r. ret (arrived (Hash_proto W) r))"
    "stub_GetHashField W conn ctx hf = rpc (GetHashField E C hf)"
    "stub_GetHashFields W conn ctx hs = and_then (rpc (GetHashFields E C hs)) (\<lambda>r. ret (arrived (Hash_proto W) r))"
    "stub_HashHas W conn ctx hf = rpc (HashHas E C hf)"
    "stub_HashLength W conn ctx k = rpc (HashLength E C k)"
    "stub_HashFields W conn ctx k = rpc (HashFields E C k)"
    "stub_HashValues W conn ctx k = rpc (HashValues E C k)"
    "stub_SetHash W conn ctx h = rpc (SetHash E C ctx (arrived (Hash_proto W) h))"
    "stub_SetHashField W conn ctx hf = rpc (SetHashField E C ctx hf)"
    "stub_SetHashFields W conn ctx h = rpc (SetHashFields E C ctx (arrived (Hash_proto W) h))"
    "stub_DelHashField W conn ctx hf = rpc (DelHashField E C ctx hf)"
proof -
  have "set (hash_methods E C W) \<subseteq> set (service_methods E C A W V)" by (auto simp: service_methods_def)
  note at = connected_methods [OF assms(2) this, unfolded hash_methods_def, simplified]
  note ok = assms(1) [unfolded wire_ok_def]
  show "stub_GetHash W conn ctx k = and_then (rpc (GetHash E C k)) (\<lambda>r. ret (arrived (Hash_proto W) r))"
    "stub_GetHashField W conn ctx hf = rpc (GetHashField E C hf)"
    "stub_GetHashFields W conn ctx hs = and_then (rpc (GetHashFields E C hs)) (\<lambda>r. ret (arrived (Hash_proto W) r))"
    "stub_HashHas W conn ctx hf = rpc (HashHas E C hf)"
    "stub_HashLength W conn ctx k = rpc (HashLength E C k)"
    "stub_HashFields W conn ctx k = rpc (HashFields E C k)"
    "stub_HashValues W conn ctx k = rpc (HashValues E C k)"
    "stub_SetHash W conn ctx h = rpc (SetHash E C ctx (arrived (Hash_proto W) h))"
    "stub_SetHashField W conn ctx hf = rpc (SetHashField E C ctx hf)"
    "stub_SetHashFields W conn ctx h = rpc (SetHashFields E C ctx (arrived (Hash_proto W) h))"
    "stub_DelHashField W conn ctx hf = rpc (DelHashField E C ctx hf)"
    by (simp_all add: hash_stubs answered at ok assms(1))
qed

lemma user_calls:
  assumes "auth_wire_ok V" and "connects conn (service_methods E C A W V)"
  shows "stub_AuthEnable V conn ctx u = rpc (AuthEnable E A u)"
    "stub_AuthDisable V conn ctx u = rpc (AuthDisable E A u)"
    "stub_Authenticate V conn ctx credentials = rpc (Authenticate E A credentials)"
    "stub_UserAdd V conn ctx account = rpc (UserAdd E A account)"
    "stub_UserGet V conn ctx name = rpc (UserGet E A name)"
    "stub_UserList V conn ctx u = rpc (UserList E A u)"
    "stub_UserDelete V conn ctx name = rpc (UserDelete E A (Some name))"
    "stub_UserChangePassword V conn ctx change = rpc (UserChangePassword E A change)"
    "stub_UserGrantRole V conn ctx given = rpc (UserGrantRole E A given)"
    "stub_UserRevokeRole V conn ctx taken = rpc (UserRevokeRole E A taken)"
proof -
  have "set (user_methods E A V) \<subseteq> set (service_methods E C A W V)" by (auto simp: service_methods_def)
  note at = connected_methods [OF assms(2) this, unfolded user_methods_def, simplified]
  note ok = assms(1) [unfolded auth_wire_ok_def]
  show "stub_AuthEnable V conn ctx u = rpc (AuthEnable E A u)"
    "stub_AuthDisable V conn ctx u = rpc (AuthDisable E A u)"
    "stub_Authenticate V conn ctx credentials = rpc (Authenticate E A credentials)"
    "stub_UserAdd V conn ctx account = rpc (UserAdd E A account)"
    "stub_UserGet V conn ctx name = rpc (UserGet E A name)"
    "stub_UserList V conn ctx u = rpc (UserList E A u)"
    "stub_UserDelete V conn ctx name = rpc (UserDelete E A (Some name))"
    "stub_UserChangePassword V conn ctx change = rpc (UserChangePassword E A change)"
    "stub_UserGrantRole V conn ctx given = rpc (UserGrantRole E A given)"
    "stub_UserRevokeRole V conn ctx taken = rpc (UserRevokeRole E A taken)"
    by (simp_all add: user_stubs answered at ok assms(1))
qed

lemma role_calls:
  assumes "auth_wire_ok V" and "connects conn (service_methods E C A W V)"
  shows "stub_RoleAdd V conn ctx name = rpc (RoleAdd E A name)"
    "stub_RoleGet V conn ctx name = rpc (RoleGet E A name)"
    "stub_RoleList V conn ctx u = rpc (RoleList E A u)"
    "stub_RoleDelete V conn ctx name = rpc (RoleDelete E A name)"
    "stub_RoleGrantPermission V conn ctx granted = rpc (RoleGrantPermission E A granted)"
    "stub_RoleRevokePermission V conn ctx revoked = rpc (RoleRevokePermission E A revoked)"
proof -
  have "set (role_methods E A V) \<subseteq> set (service_methods E C A W V)" by (auto simp: service_methods_def)
  note at = connected_methods [OF assms(2) this, unfolded role_methods_def, simplified]
  note ok = assms(1) [unfolded auth_wire_ok_def]
  show "stub_RoleAdd V conn ctx name = rpc (RoleAdd E A name)"
    "stub_RoleGet V conn ctx name = rpc (RoleGet E A name)"
    "stub_RoleList V conn ctx u = rpc (RoleList E A u)"
    "stub_RoleDelete V conn ctx name = rpc (RoleDelete E A name)"
    "stub_RoleGrantPermission V conn ctx granted = rpc (RoleGrantPermission E A granted)"
    "stub_RoleRevokePermission V conn ctx revoked = rpc (RoleRevokePermission E A revoked)"
    by (simp_all add: role_stubs answered at ok assms(1))
qed

text \<open>
  C28. A call over the wire is the operation.  When gRPC connects the client to the table of the
  service and the wire keeps messages, every stub of the client calls the operation of its
  own name with the message given and hands back its answer, an error as its text: what the
  client's model assumes of each of its calls.  Of a message with a map, sent or answered, the
  entries arrive; an empty map arrives as the nil map.
\<close>

theorem stubs_call_their_operations:
  assumes "wire_ok W" and "auth_wire_ok V" and "connects conn (service_methods E C A W V)"
  shows
   "(stub_Keys W conn ctx u = rpc (Keys E) \<and>
    stub_KeysWithPrefix W conn ctx k = rpc (KeysWithPrefix E k) \<and>
    stub_Has W conn ctx k = rpc (Has E k) \<and>
    stub_SetExpire W conn ctx ex = rpc (SetExpire E ex) \<and>
    stub_Lock W conn ctx k = rpc (Lock E ctx k) \<and>
    stub_LockWithTimeout W conn ctx ex = rpc (LockWithTimeout E ex) \<and>
    stub_Unlock W conn ctx k = rpc (Unlock E ctx k) \<and>
    stub_UnlockThenSet W conn ctx bv = rpc (UnlockThenSet E bv) \<and>
    stub_UnlockThenSetList W conn ctx l = rpc (UnlockThenSetList E C l) \<and>
    stub_Delete W conn ctx k = rpc (Delete E ctx k) \<and>
    stub_Clear W conn ctx u = rpc (Clear E)) \<and>
   (stub_Get W conn ctx k = rpc (Get E k) \<and>
    stub_GetMany W conn ctx ks = and_then (rpc (GetMany E ks)) (\<lambda>r. ret (arrived (Hash_proto W) r)) \<and>
    stub_GetWithPrefix W conn ctx k = and_then (rpc (GetWithPrefix E k)) (\<lambda>r. ret (arrived (Hash_proto W) r)) \<and>
    stub_Set W conn ctx bv = rpc (Set E ctx bv) \<and>
    stub_SetNX W conn ctx bv = rpc (SetNX E ctx bv) \<and>
    stub_SetMany W conn ctx h = and_then (rpc (SetMany E ctx (arrived (Hash_proto W) h))) (\<lambda>r. ret (arrived (ErrorHash_proto W) r)) \<and>
    stub_Length W conn ctx k = rpc (Length E k)) \<and>
   (stub_GetInt W conn ctx k = rpc (GetInt E C k) \<and>
    stub_GetFloat W conn ctx k = rpc (GetFloat E C k) \<and>
    stub_SetInt W conn ctx iv = rpc (SetInt E C ctx iv) \<and>
    stub_SetFloat W conn ctx fv = rpc (SetFloat E C ctx fv) \<and>
    stub_IncrementInt W conn ctx iv = rpc (IncrementInt E C ctx iv) \<and>
    stub_DecrementInt W conn ctx iv = rpc (DecrementInt E C ctx iv) \<and>
    stub_IncrementFloat W conn ctx fv = rpc (IncrementFloat E C ctx fv) \<and>
    stub_DecrementFloat W conn ctx fv = rpc (DecrementFloat E C ctx fv)) \<and>
   (stub_GetList W conn ctx k = rpc (GetList E C k) \<and>
    stub_GetListItem W conn ctx li = rpc (GetListItem E C li) \<and>
    stub_SetList W conn ctx l = rpc (SetList E C ctx l) \<and>
    stub_SetListItem W conn ctx li = rpc (SetListItem E C ctx li) \<and>
    stub_ListLength W conn ctx k = rpc (ListLength E C k) \<and>
    stub_ListLimit W conn ctx li = rpc (ListLimit E C ctx li) \<and>
    stub_ListInsert W conn ctx li = rpc (ListInsert E C ctx li) \<and>
    stub_ListAppend W conn ctx li = rpc (ListAppend E C ctx li) \<and>
    stub_ListPopLeft W conn ctx k = rpc (ListPopLeft E C ctx k) \<and>
    stub_ListPopRight W conn ctx k = rpc (ListPopRight E C ctx k) \<and>
    stub_ListHas W conn ctx li = rpc (ListHas E C li) \<and>
    stub_ListDelete W conn ctx li = rpc (ListDelete E C ctx li) \<and>
    stub_ListDeleteItem W conn ctx li = rpc (ListDeleteItem E C ctx li)) \<and>
   (stub_GetHash W conn ctx k = and_then (rpc (GetHash E C k)) (\<lambda>r. ret (arrived (Hash_proto W) r)) \<and>
    stub_GetHashField W conn ctx hf = rpc (GetHashField E C hf) \<and>
    stub_GetHashFields W conn ctx hs = and_then (rpc (GetHashFields E C hs)) (\<lambda>r. ret (arrived (Hash_proto W) r)) \<and>
    stub_HashHas W conn ctx hf = rpc (HashHas E C hf) \<and>
    stub_HashLength W conn ctx k = rpc (HashLength E C k) \<and>
    stub_HashFields W conn ctx k = rpc (HashFields E C k) \<and>
    stub_HashValues W conn ctx k = rpc (HashValues E C k) \<and>
    stub_SetHash W conn ctx h = rpc (SetHash E C ctx (arrived (Hash_proto W) h)) \<and>
    stub_SetHashField W conn ctx hf = rpc (SetHashField E C ctx hf) \<and>
    stub_SetHashFields W conn ctx h = rpc (SetHashFields E C ctx (arrived (Hash_proto W) h)) \<and>
    stub_DelHashField W conn ctx hf = rpc (DelHashField E C ctx hf)) \<and>
   (stub_AuthEnable V conn ctx u = rpc (AuthEnable E A u) \<and>
    stub_AuthDisable V conn ctx u = rpc (AuthDisable E A u) \<and>
    stub_Authenticate V conn ctx credentials = rpc (Authenticate E A credentials) \<and>
    stub_UserAdd V conn ctx account = rpc (UserAdd E A account) \<and>
    stub_UserGet V conn ctx name = rpc (UserGet E A name) \<and>
    stub_UserList V conn ctx u = rpc (UserList E A u) \<and>
    stub_UserDelete V conn ctx name = rpc (UserDelete E A (Some name)) \<and>
    stub_UserChangePassword V conn ctx change = rpc (UserChangePassword E A change) \<and>
    stub_UserGrantRole V conn ctx given = rpc (UserGrantRole E A given) \<and>
    stub_UserRevokeRole V conn ctx taken = rpc (UserRevokeRole E A taken)) \<and>
   (stub_RoleAdd V conn ctx name = rpc (RoleAdd E A name) \<and>
    stub_RoleGet V conn ctx name = rpc (RoleGet E A name) \<and>
    stub_RoleList V conn ctx u = rpc (RoleList E A u) \<and>
    stub_RoleDelete V conn ctx name = rpc (RoleDelete E A name) \<and>
    stub_RoleGrantPermission V conn ctx granted = rpc (RoleGrantPermission E A granted) \<and>
    stub_RoleRevokePermission V conn ctx revoked = rpc (RoleRevokePermission E A revoked)) \<and>
   (map_wf (Hash_Value h) \<longrightarrow> hash_decodes h (arrived (Hash_proto W) h)) \<and>
   (map_wf e \<longrightarrow> map_get (arrived (ErrorHash_proto W) e) = map_get e)"
proof -
  note calls = key_calls byte_calls number_calls list_calls hash_calls
  have map1: "map_wf (Hash_Value h) \<Longrightarrow> hash_decodes h (arrived (Hash_proto W) h)" and
      map2: "map_wf e \<Longrightarrow> map_get (arrived (ErrorHash_proto W) e) = map_get e"
    using assms(1) arrived_entries [of "Hash_proto W" Hash_Value Hash_Key h] arrived_entries [of "ErrorHash_proto W" id "\<lambda>_. []" e]
    unfolding wire_ok_def hash_decodes_def by simp_all
  show ?thesis
    by (intro conjI impI calls [OF assms(1,3)] user_calls [OF assms(2,3)] role_calls [OF assms(2,3)] map1 map2)
qed

text \<open>A wire that carries the messages themselves, and a connection that looks up the method.\<close>

datatype frame =
    Frame_unit unit
  | Frame_Key pb_Key
  | Frame_bool bool
  | Frame_Expiration pb_Expiration
  | Frame_ByteValue pb_ByteValue
  | Frame_KeysList pb_KeysList
  | Frame_IntValue pb_IntValue
  | Frame_FloatValue pb_FloatValue
  | Frame_List pb_List
  | Frame_ListItem pb_ListItem
  | Frame_ErrorHash pb_ErrorHash
  | Frame_Hash pb_Hash
  | Frame_HashField pb_HashField
  | Frame_HashFieldSet pb_HashFieldSet
  | Frame_AuthenticateRequest AuthenticateRequest
  | Frame_AuthUserAddRequest AuthUserAddRequest
  | Frame_string string
  | Frame_AuthUserChangePasswordRequest AuthUserChangePasswordRequest
  | Frame_AuthUserGrantRoleRequest AuthUserGrantRoleRequest
  | Frame_AuthUserRevokeRoleRequest AuthUserRevokeRoleRequest
  | Frame_AuthRoleGrantPermissionRequest AuthRoleGrantPermissionRequest
  | Frame_AuthRoleRevokePermissionRequest AuthRoleRevokePermissionRequest
  | Frame_ResponseHeader pb_ResponseHeader
  | Frame_AuthenticateResponse AuthenticateResponse
  | Frame_AuthNamesResponse AuthNamesResponse
  | Frame_AuthRoleGetResponse AuthRoleGetResponse

definition carry_unit :: "(frame, unit) proto" where
  "carry_unit = \<lparr>Marshal = Frame_unit, Unmarshal = (\<lambda>f. case f of Frame_unit m \<Rightarrow> Inr m | _ \<Rightarrow> Inl ''wrong message'')\<rparr>"

definition carry_Key :: "(frame, pb_Key) proto" where
  "carry_Key = \<lparr>Marshal = Frame_Key, Unmarshal = (\<lambda>f. case f of Frame_Key m \<Rightarrow> Inr m | _ \<Rightarrow> Inl ''wrong message'')\<rparr>"

definition carry_bool :: "(frame, bool) proto" where
  "carry_bool = \<lparr>Marshal = Frame_bool, Unmarshal = (\<lambda>f. case f of Frame_bool m \<Rightarrow> Inr m | _ \<Rightarrow> Inl ''wrong message'')\<rparr>"

definition carry_Expiration :: "(frame, pb_Expiration) proto" where
  "carry_Expiration = \<lparr>Marshal = Frame_Expiration, Unmarshal = (\<lambda>f. case f of Frame_Expiration m \<Rightarrow> Inr m | _ \<Rightarrow> Inl ''wrong message'')\<rparr>"

definition carry_ByteValue :: "(frame, pb_ByteValue) proto" where
  "carry_ByteValue = \<lparr>Marshal = Frame_ByteValue, Unmarshal = (\<lambda>f. case f of Frame_ByteValue m \<Rightarrow> Inr m | _ \<Rightarrow> Inl ''wrong message'')\<rparr>"

definition carry_KeysList :: "(frame, pb_KeysList) proto" where
  "carry_KeysList = \<lparr>Marshal = Frame_KeysList, Unmarshal = (\<lambda>f. case f of Frame_KeysList m \<Rightarrow> Inr m | _ \<Rightarrow> Inl ''wrong message'')\<rparr>"

definition carry_IntValue :: "(frame, pb_IntValue) proto" where
  "carry_IntValue = \<lparr>Marshal = Frame_IntValue, Unmarshal = (\<lambda>f. case f of Frame_IntValue m \<Rightarrow> Inr m | _ \<Rightarrow> Inl ''wrong message'')\<rparr>"

definition carry_FloatValue :: "(frame, pb_FloatValue) proto" where
  "carry_FloatValue = \<lparr>Marshal = Frame_FloatValue, Unmarshal = (\<lambda>f. case f of Frame_FloatValue m \<Rightarrow> Inr m | _ \<Rightarrow> Inl ''wrong message'')\<rparr>"

definition carry_List :: "(frame, pb_List) proto" where
  "carry_List = \<lparr>Marshal = Frame_List, Unmarshal = (\<lambda>f. case f of Frame_List m \<Rightarrow> Inr m | _ \<Rightarrow> Inl ''wrong message'')\<rparr>"

definition carry_ListItem :: "(frame, pb_ListItem) proto" where
  "carry_ListItem = \<lparr>Marshal = Frame_ListItem, Unmarshal = (\<lambda>f. case f of Frame_ListItem m \<Rightarrow> Inr m | _ \<Rightarrow> Inl ''wrong message'')\<rparr>"

definition carry_ErrorHash :: "(frame, pb_ErrorHash) proto" where
  "carry_ErrorHash = \<lparr>Marshal = Frame_ErrorHash, Unmarshal = (\<lambda>f. case f of Frame_ErrorHash m \<Rightarrow> Inr m | _ \<Rightarrow> Inl ''wrong message'')\<rparr>"

definition carry_Hash :: "(frame, pb_Hash) proto" where
  "carry_Hash = \<lparr>Marshal = Frame_Hash, Unmarshal = (\<lambda>f. case f of Frame_Hash m \<Rightarrow> Inr m | _ \<Rightarrow> Inl ''wrong message'')\<rparr>"

definition carry_HashField :: "(frame, pb_HashField) proto" where
  "carry_HashField = \<lparr>Marshal = Frame_HashField, Unmarshal = (\<lambda>f. case f of Frame_HashField m \<Rightarrow> Inr m | _ \<Rightarrow> Inl ''wrong message'')\<rparr>"

definition carry_HashFieldSet :: "(frame, pb_HashFieldSet) proto" where
  "carry_HashFieldSet = \<lparr>Marshal = Frame_HashFieldSet, Unmarshal = (\<lambda>f. case f of Frame_HashFieldSet m \<Rightarrow> Inr m | _ \<Rightarrow> Inl ''wrong message'')\<rparr>"

definition carry_AuthenticateRequest :: "(frame, AuthenticateRequest) proto" where
  "carry_AuthenticateRequest = \<lparr>Marshal = Frame_AuthenticateRequest, Unmarshal = (\<lambda>f. case f of Frame_AuthenticateRequest m \<Rightarrow> Inr m | _ \<Rightarrow> Inl ''wrong message'')\<rparr>"

definition carry_AuthUserAddRequest :: "(frame, AuthUserAddRequest) proto" where
  "carry_AuthUserAddRequest = \<lparr>Marshal = Frame_AuthUserAddRequest, Unmarshal = (\<lambda>f. case f of Frame_AuthUserAddRequest m \<Rightarrow> Inr m | _ \<Rightarrow> Inl ''wrong message'')\<rparr>"

definition carry_string :: "(frame, string) proto" where
  "carry_string = \<lparr>Marshal = Frame_string, Unmarshal = (\<lambda>f. case f of Frame_string m \<Rightarrow> Inr m | _ \<Rightarrow> Inl ''wrong message'')\<rparr>"

definition carry_AuthUserChangePasswordRequest :: "(frame, AuthUserChangePasswordRequest) proto" where
  "carry_AuthUserChangePasswordRequest = \<lparr>Marshal = Frame_AuthUserChangePasswordRequest, Unmarshal = (\<lambda>f. case f of Frame_AuthUserChangePasswordRequest m \<Rightarrow> Inr m | _ \<Rightarrow> Inl ''wrong message'')\<rparr>"

definition carry_AuthUserGrantRoleRequest :: "(frame, AuthUserGrantRoleRequest) proto" where
  "carry_AuthUserGrantRoleRequest = \<lparr>Marshal = Frame_AuthUserGrantRoleRequest, Unmarshal = (\<lambda>f. case f of Frame_AuthUserGrantRoleRequest m \<Rightarrow> Inr m | _ \<Rightarrow> Inl ''wrong message'')\<rparr>"

definition carry_AuthUserRevokeRoleRequest :: "(frame, AuthUserRevokeRoleRequest) proto" where
  "carry_AuthUserRevokeRoleRequest = \<lparr>Marshal = Frame_AuthUserRevokeRoleRequest, Unmarshal = (\<lambda>f. case f of Frame_AuthUserRevokeRoleRequest m \<Rightarrow> Inr m | _ \<Rightarrow> Inl ''wrong message'')\<rparr>"

definition carry_AuthRoleGrantPermissionRequest :: "(frame, AuthRoleGrantPermissionRequest) proto" where
  "carry_AuthRoleGrantPermissionRequest = \<lparr>Marshal = Frame_AuthRoleGrantPermissionRequest, Unmarshal = (\<lambda>f. case f of Frame_AuthRoleGrantPermissionRequest m \<Rightarrow> Inr m | _ \<Rightarrow> Inl ''wrong message'')\<rparr>"

definition carry_AuthRoleRevokePermissionRequest :: "(frame, AuthRoleRevokePermissionRequest) proto" where
  "carry_AuthRoleRevokePermissionRequest = \<lparr>Marshal = Frame_AuthRoleRevokePermissionRequest, Unmarshal = (\<lambda>f. case f of Frame_AuthRoleRevokePermissionRequest m \<Rightarrow> Inr m | _ \<Rightarrow> Inl ''wrong message'')\<rparr>"

definition carry_ResponseHeader :: "(frame, pb_ResponseHeader) proto" where
  "carry_ResponseHeader = \<lparr>Marshal = Frame_ResponseHeader, Unmarshal = (\<lambda>f. case f of Frame_ResponseHeader m \<Rightarrow> Inr m | _ \<Rightarrow> Inl ''wrong message'')\<rparr>"

definition carry_AuthenticateResponse :: "(frame, AuthenticateResponse) proto" where
  "carry_AuthenticateResponse = \<lparr>Marshal = Frame_AuthenticateResponse, Unmarshal = (\<lambda>f. case f of Frame_AuthenticateResponse m \<Rightarrow> Inr m | _ \<Rightarrow> Inl ''wrong message'')\<rparr>"

definition carry_AuthNamesResponse :: "(frame, AuthNamesResponse) proto" where
  "carry_AuthNamesResponse = \<lparr>Marshal = Frame_AuthNamesResponse, Unmarshal = (\<lambda>f. case f of Frame_AuthNamesResponse m \<Rightarrow> Inr m | _ \<Rightarrow> Inl ''wrong message'')\<rparr>"

definition carry_AuthRoleGetResponse :: "(frame, AuthRoleGetResponse) proto" where
  "carry_AuthRoleGetResponse = \<lparr>Marshal = Frame_AuthRoleGetResponse, Unmarshal = (\<lambda>f. case f of Frame_AuthRoleGetResponse m \<Rightarrow> Inr m | _ \<Rightarrow> Inl ''wrong message'')\<rparr>"

text \<open>An empty map leaves nothing on the wire.\<close>

definition on_wire :: "'v gomap \<Rightarrow> 'v gomap" where
  "on_wire m = (if map_entries m = [] then None else m)"

definition frame_wire :: "frame wire" where
  "frame_wire = \<lparr>Null_proto = carry_unit,
     Key_proto = carry_Key,
     Bool_proto = carry_bool,
     Expiration_proto = carry_Expiration,
     ByteValue_proto = carry_ByteValue,
     KeysList_proto = carry_KeysList,
     IntValue_proto = carry_IntValue,
     FloatValue_proto = carry_FloatValue,
     List_proto = carry_List,
     ListItem_proto = carry_ListItem,
     ErrorHash_proto = carry_ErrorHash\<lparr>Marshal := (\<lambda>e. Frame_ErrorHash (on_wire e))\<rparr>,
     Hash_proto = carry_Hash\<lparr>Marshal := (\<lambda>h. Frame_Hash (h\<lparr>Hash_Value := on_wire (Hash_Value h)\<rparr>))\<rparr>,
     HashField_proto = carry_HashField,
     HashFieldSet_proto = carry_HashFieldSet\<rparr>"

definition frame_auth_wire :: "frame auth_wire" where
  "frame_auth_wire = \<lparr>AuthEnableRequest_proto = carry_unit,
     AuthDisableRequest_proto = carry_unit,
     AuthenticateRequest_proto = carry_AuthenticateRequest,
     AuthUserAddRequest_proto = carry_AuthUserAddRequest,
     AuthUserGetRequest_proto = carry_string,
     AuthUserListRequest_proto = carry_unit,
     AuthUserDeleteRequest_proto = carry_string,
     AuthUserChangePasswordRequest_proto = carry_AuthUserChangePasswordRequest,
     AuthUserGrantRoleRequest_proto = carry_AuthUserGrantRoleRequest,
     AuthUserRevokeRoleRequest_proto = carry_AuthUserRevokeRoleRequest,
     AuthRoleAddRequest_proto = carry_string,
     AuthRoleGetRequest_proto = carry_string,
     AuthRoleListRequest_proto = carry_unit,
     AuthRoleDeleteRequest_proto = carry_string,
     AuthRoleGrantPermissionRequest_proto = carry_AuthRoleGrantPermissionRequest,
     AuthRoleRevokePermissionRequest_proto = carry_AuthRoleRevokePermissionRequest,
     AuthEnableResponse_proto = carry_ResponseHeader,
     AuthDisableResponse_proto = carry_ResponseHeader,
     AuthenticateResponse_proto = carry_AuthenticateResponse,
     AuthUserAddResponse_proto = carry_ResponseHeader,
     AuthUserGetResponse_proto = carry_AuthNamesResponse,
     AuthUserListResponse_proto = carry_AuthNamesResponse,
     AuthUserDeleteResponse_proto = carry_ResponseHeader,
     AuthUserChangePasswordResponse_proto = carry_ResponseHeader,
     AuthUserGrantRoleResponse_proto = carry_ResponseHeader,
     AuthUserRevokeRoleResponse_proto = carry_ResponseHeader,
     AuthRoleAddResponse_proto = carry_ResponseHeader,
     AuthRoleGetResponse_proto = carry_AuthRoleGetResponse,
     AuthRoleListResponse_proto = carry_AuthNamesResponse,
     AuthRoleDeleteResponse_proto = carry_ResponseHeader,
     AuthRoleGrantPermissionResponse_proto = carry_ResponseHeader,
     AuthRoleRevokePermissionResponse_proto = carry_ResponseHeader\<rparr>"

lemmas carry_defs = carry_unit_def carry_Key_def carry_bool_def carry_Expiration_def carry_ByteValue_def carry_KeysList_def carry_IntValue_def carry_FloatValue_def carry_List_def carry_ListItem_def carry_ErrorHash_def carry_Hash_def carry_HashField_def carry_HashFieldSet_def carry_AuthenticateRequest_def carry_AuthUserAddRequest_def carry_string_def carry_AuthUserChangePasswordRequest_def carry_AuthUserGrantRoleRequest_def carry_AuthUserRevokeRoleRequest_def carry_AuthRoleGrantPermissionRequest_def carry_AuthRoleRevokePermissionRequest_def carry_ResponseHeader_def carry_AuthenticateResponse_def carry_AuthNamesResponse_def carry_AuthRoleGetResponse_def

lemma frame_wire_ok: "wire_ok frame_wire"
  by (auto simp: wire_ok_def frame_wire_def lossless_def keeps_entries_def carry_defs on_wire_def map_wf_def map_get_def map_entries_def
      fun_eq_iff split: option.splits)

lemma frame_auth_wire_ok: "auth_wire_ok frame_auth_wire"
  by (simp add: auth_wire_ok_def frame_auth_wire_def lossless_def carry_defs)

definition direct_conn :: "(string \<times> ('s, 'b) served) list \<Rightarrow> ('s, 'b) conn" where
  "direct_conn methods ctx path b = (case map_of methods (drop 10 path) of
     Some f \<Rightarrow> rpc (f ctx b) | None \<Rightarrow> throw (Other ''unknown method''))"

lemma direct_conn_connects: "connects (direct_conn methods) methods"
  by (simp add: connects_def direct_conn_def ServiceName_def)

theorem stubs_call_their_operations_witness:
  "\<forall>E C A ctx iv. stub_IncrementInt frame_wire (direct_conn (service_methods E C A frame_wire frame_auth_wire)) ctx iv =
     rpc (IncrementInt E C ctx iv)"
proof -
  note all = stubs_call_their_operations [OF frame_wire_ok frame_auth_wire_ok direct_conn_connects]
  show ?thesis
    by (intro allI) (rule all [THEN conjunct2, THEN conjunct2, THEN conjunct1, THEN conjunct2, THEN conjunct2,
      THEN conjunct2, THEN conjunct2, THEN conjunct1])
qed

end
