(* ===== verification/Websocket.thy ===== *)
theory Websocket
  imports Naming
begin

text \<open>
  The websocket proxy in front of the HTTP gateway (\<open>mydis/websocket_proxy.go\<close>): the request
  it prepares, and its two loops, which carry messages of the socket as lines of the request
  and lines of the response as messages.  Sockets and pipes are byte and message sequences;
  where one of them fails is a parameter of the loop.
\<close>

section \<open>The request\<close>

text \<open>
  What the proxy reads of the websocket request: whether it asks for an upgrade, the header
  \<open>Sec-WebSocket-Protocol\<close> and the query parameter \<open>method\<close>, empty when absent.
\<close>

record ws_request =
  ws_upgrade :: bool
  ws_protocol :: string
  ws_method :: string

text \<open>\<open>strings.Replace(s, old, new, 1)\<close> for a non-empty \<open>old\<close>.\<close>

fun replace_first :: "string \<Rightarrow> string \<Rightarrow> string \<Rightarrow> string" where
  "replace_first from_s to_s [] = []"
| "replace_first from_s to_s (c # s) =
     (if HasPrefix (c # s) from_s then to_s @ drop (length from_s) (c # s)
      else c # replace_first from_s to_s s)"

text \<open>The header of the answer, and the method and \<open>Authorization\<close> header of the request upstream.\<close>

definition response_protocol :: "ws_request \<Rightarrow> string option" where
  "response_protocol r = (if HasPrefix (ws_protocol r) ''Bearer'' then Some ''Bearer'' else None)"

definition upstream_authorization :: "ws_request \<Rightarrow> string option" where
  "upstream_authorization r = (let swsp = ws_protocol r in
     if swsp \<noteq> [] then Some (replace_first ''Bearer, '' ''Bearer '' swsp) else None)"

definition upstream_method :: "ws_request \<Rightarrow> string" where
  "upstream_method r = (let m = ws_method r in if m \<noteq> [] then m else ''POST'')"

datatype proxied = Passed_On | Upgraded "string option" "string option" string

definition WebsocketProxy :: "ws_request \<Rightarrow> proxied" where
  "WebsocketProxy r = (if \<not> ws_upgrade r then Passed_On
     else Upgraded (response_protocol r) (upstream_authorization r) (upstream_method r))"

section \<open>The loops\<close>

text \<open>
  The read loop: each message goes to the request's body with a newline after it, until the
  socket fails (the end of the list) or the body has been closed (after \<open>n\<close> messages).
\<close>

fun read_loop :: "nat \<Rightarrow> bytes list \<Rightarrow> bytes" where
  "read_loop n [] = []"
| "read_loop 0 (p # ps) = []"
| "read_loop (Suc n) (p # ps) = p @ [10] @ read_loop n ps"

text \<open>
  \<open>bufio.Scanner\<close> on lines: the newline and a carriage return before it are dropped; a line
  that does not fit the buffer ends the scan with an error.
\<close>

definition MaxScanTokenSize :: nat where
  "MaxScanTokenSize = 65536"

definition dropCR :: "bytes \<Rightarrow> bytes" where
  "dropCR l = (if l \<noteq> [] \<and> last l = 13 then butlast l else l)"

function scan_lines :: "bytes \<Rightarrow> bytes list \<times> bool" where
  "scan_lines b =
     (if b = [] then ([], True)
      else let l = takeWhile (\<lambda>x. x \<noteq> 10) b; rest = dropWhile (\<lambda>x. x \<noteq> 10) b in
        if MaxScanTokenSize \<le> length l then ([], False)
        else let (ls, ok) = scan_lines (tl rest) in (dropCR l # ls, ok))"
  by pat_completeness auto
termination
proof (relation "measure length", simp)
  fix b :: bytes and l rest
  assume "b \<noteq> []" and "rest = dropWhile (\<lambda>x. x \<noteq> 10) b"
  then have "length (tl rest) < length b"
    using length_dropWhile_le [of "\<lambda>x. x \<noteq> 10" b] length_greater_0_conv [of b] by (simp del: length_greater_0_conv)
  then show "(tl rest, b) \<in> measure length" by simp
qed

declare scan_lines.simps [simp del]

text \<open>
  The write loop: every line that is not empty becomes a message, until one cannot be sent
  (after \<open>n\<close> messages).
\<close>

fun write_loop :: "nat \<Rightarrow> bytes list \<Rightarrow> bytes list" where
  "write_loop n [] = []"
| "write_loop n (l # ls) =
     (if l = [] then write_loop n ls
      else case n of 0 \<Rightarrow> [] | Suc n \<Rightarrow> l # write_loop n ls)"

definition websocket_messages :: "nat \<Rightarrow> bytes \<Rightarrow> bytes list" where
  "websocket_messages n response = write_loop n (fst (scan_lines response))"

section \<open>Messages as lines\<close>

text \<open>A message that is one line: no newline in it, not empty, no carriage return at its end, and short enough.\<close>

definition one_line :: "bytes \<Rightarrow> bool" where
  "one_line p \<longleftrightarrow> p \<noteq> [] \<and> 10 \<notin> set p \<and> last p \<noteq> 13 \<and> length p < MaxScanTokenSize"

lemma scan_one_line:
  assumes "one_line p"
  shows "scan_lines (p @ 10 # b) = (p # fst (scan_lines b), snd (scan_lines b))"
proof -
  have "\<forall>x\<in>set p. x \<noteq> 10" using assms by (auto simp: one_line_def)
  then have "takeWhile (\<lambda>x. x \<noteq> 10) (p @ 10 # b) = p" "dropWhile (\<lambda>x. x \<noteq> 10) (p @ 10 # b) = 10 # b"
    by (simp_all add: takeWhile_append2 dropWhile_append2 takeWhile_tail)
  then show ?thesis
    using assms by (subst scan_lines.simps) (simp add: one_line_def dropCR_def Let_def split_beta)
qed

lemma scan_read_loop:
  "\<forall>p\<in>set ps. one_line p \<Longrightarrow> scan_lines (read_loop n ps) = (take n ps, True)"
proof (induction n ps rule: read_loop.induct)
  case (1 n)
  show ?case by (simp add: scan_lines.simps)
next
  case (2 p ps)
  show ?case by (simp add: scan_lines.simps)
next
  case (3 n p ps)
  then show ?case using scan_one_line [of p "read_loop n ps"] by simp
qed

lemma write_loop_lines: "\<forall>p\<in>set ps. p \<noteq> [] \<Longrightarrow> write_loop n ps = take n ps"
  by (induction n ps rule: write_loop.induct) (auto simp: take_Cons split: nat.split)

section \<open>Property\<close>

text \<open>
  The proxy carries messages that are single lines unchanged, in both directions: what it
  writes to the request, read line by line, are the messages of the socket up to the first
  failure, and the lines of a response arrive as messages; a bearer token of the websocket
  protocol becomes the token of the authorization.
\<close>

theorem websocket_carries_messages:
  assumes "\<forall>p\<in>set ps. one_line p"
  shows "scan_lines (read_loop n ps) = (take n ps, True) \<and>
    websocket_messages n (read_loop (length ps) ps) = take n ps \<and>
    WebsocketProxy \<lparr>ws_upgrade = True, ws_protocol = ''Bearer, '' @ token, ws_method = meth\<rparr> =
      Upgraded (Some ''Bearer'') (Some (''Bearer '' @ token)) (if meth = [] then ''POST'' else meth)"
proof (intro conjI)
  show "scan_lines (read_loop n ps) = (take n ps, True)" by (rule scan_read_loop [OF assms])
  have "\<forall>p\<in>set ps. p \<noteq> []" using assms by (auto simp: one_line_def)
  then show "websocket_messages n (read_loop (length ps) ps) = take n ps"
    by (simp add: websocket_messages_def scan_read_loop [OF assms] write_loop_lines)
  show "WebsocketProxy \<lparr>ws_upgrade = True, ws_protocol = ''Bearer, '' @ token, ws_method = meth\<rparr> =
      Upgraded (Some ''Bearer'') (Some (''Bearer '' @ token)) (if meth = [] then ''POST'' else meth)"
    by (simp add: WebsocketProxy_def response_protocol_def upstream_authorization_def upstream_method_def HasPrefix_def)
qed

theorem websocket_carries_messages_witness:
  "websocket_messages 5 (read_loop 2 [[123, 125], [49]]) = [[123, 125], [49]]"
proof -
  have "\<forall>p\<in>set [[123, 125], [49 :: byte]]. one_line p" by (simp add: one_line_def MaxScanTokenSize_def)
  from websocket_carries_messages [OF this, of 5 "[]" "[]"]
  have "websocket_messages 5 (read_loop (length [[123, 125], [49 :: byte]]) [[123, 125], [49]]) = [[123, 125], [49]]" by simp
  moreover have "length [[123, 125], [49 :: byte]] = 2" by simp
  ultimately show ?thesis by metis
qed

text \<open>A carriage return at the end of a message is lost.\<close>

lemma carriage_return_lost: "scan_lines [65, 13, 10] = ([[65]], True)"
  by (simp add: scan_lines.simps dropCR_def MaxScanTokenSize_def)

end
