(* ===== verification/Websocket_Session.thy ===== *)
theory Websocket_Session
  imports Websocket "HOL-Library.Sublist"
begin

text \<open>
  The goroutines of one websocket session (\<open>websocketProxy\<close> of \<open>mydis/websocket_proxy.go\<close>):
  the read loop, the handler that serves the request, the goroutine that closes the pipes, and
  the write loop of the function itself.  They share the context, the two pipes and the
  socket; their steps interleave in any order.  What the handler does with its request, what
  arrives at the socket, and when sending or receiving fails is up to the environment.
\<close>

section \<open>State\<close>

text \<open>
  The read loop checks the context, reads a message, writes it to the request's pipe (what is
  left of it; a pipe passes bytes on as they are read), then the newline; \<open>Ending err\<close> is the
  write of the newline after a write that failed or not.
\<close>

datatype read_state = Selecting | Reading | Passing bytes | Ending bool | Read_Over

datatype write_state = Scanning | Sending bytes | Write_Over

text \<open>
  \<open>received\<close>, \<open>body\<close>, \<open>written\<close> and \<open>sent\<close> are what came from the socket, what the handler
  has read of its request and written of its response, and what went to the socket.
  \<open>pending\<close> is the scanner's buffer and \<open>scanned\<close> the lines it has taken off it; \<open>rest\<close> is
  the last line, when the response ended without a newline.
\<close>

record ws_session =
  cancelled :: bool
  pipes_closed :: bool
  conn_open :: bool
  read_at :: read_state
  write_at :: write_state
  handler_runs :: bool
  received :: "bytes list"
  body :: bytes
  response :: bytes
  pending :: bytes
  scanned :: "bytes list"
  rest :: "bytes list"
  sent :: "bytes list"

definition ws_start :: ws_session where
  "ws_start = \<lparr>cancelled = False, pipes_closed = False, conn_open = True, read_at = Selecting, write_at = Scanning,
     handler_runs = True, received = [], body = [], response = [], pending = [], scanned = [], rest = [], sent = []\<rparr>"

text \<open>Upgrading the connection or preparing the request can fail; both end the call and close what was opened.\<close>

datatype ws_opened = Not_Upgraded | No_Request | Opened ws_session

definition websocket_open :: "bool \<Rightarrow> bool \<Rightarrow> ws_opened" where
  "websocket_open upgrade_ok request_ok =
     (if \<not> upgrade_ok then Not_Upgraded else if \<not> request_ok then No_Request else Opened ws_start)"

text \<open>
  The response the handler is given: what it writes goes to the pipe, the header and the
  status code are kept and read by nobody, and flushing does nothing.
\<close>

record responseWriter =
  rw_pipe :: bytes
  rw_header :: "string \<rightharpoonup> string list"
  rw_code :: int

definition newResponseWriter :: responseWriter where
  "newResponseWriter = \<lparr>rw_pipe = [], rw_header = Map.empty, rw_code = 0\<rparr>"

definition rw_Write :: "bytes \<Rightarrow> responseWriter \<Rightarrow> responseWriter" where
  "rw_Write b w = w\<lparr>rw_pipe := rw_pipe w @ b\<rparr>"

definition rw_WriteHeader :: "int \<Rightarrow> responseWriter \<Rightarrow> responseWriter" where
  "rw_WriteHeader code w = w\<lparr>rw_code := code\<rparr>"

definition rw_Flush :: "responseWriter \<Rightarrow> responseWriter" where
  "rw_Flush w = w"

lemma status_stays_out: "rw_pipe (rw_WriteHeader code w) = rw_pipe w" "rw_pipe (rw_Flush w) = rw_pipe w"
  by (simp_all add: rw_WriteHeader_def rw_Flush_def)

section \<open>Steps\<close>

text \<open>
  The deferred calls: the read loop and the handler cancel the context when they end, the
  function itself also closes the socket.
\<close>

definition end_read :: "ws_session \<Rightarrow> ws_session" where
  "end_read s = s\<lparr>read_at := Read_Over, cancelled := True\<rparr>"

definition end_handler :: "ws_session \<Rightarrow> ws_session" where
  "end_handler s = s\<lparr>handler_runs := False, cancelled := True\<rparr>"

definition end_write :: "ws_session \<Rightarrow> ws_session" where
  "end_write s = s\<lparr>write_at := Write_Over, cancelled := True, conn_open := False\<rparr>"

text \<open>A scanned line: an empty one is skipped, another becomes a message.\<close>

definition take_line :: "bytes \<Rightarrow> ws_session \<Rightarrow> ws_session" where
  "take_line l s = (if dropCR l = [] then s\<lparr>write_at := Scanning\<rparr> else s\<lparr>write_at := Sending (dropCR l)\<rparr>)"

inductive ws_step :: "ws_session \<Rightarrow> ws_session \<Rightarrow> bool" where
  Select_Done: "read_at s = Selecting \<Longrightarrow> cancelled s \<Longrightarrow> ws_step s (end_read s)"
| Select: "read_at s = Selecting \<Longrightarrow> \<not> cancelled s \<Longrightarrow> ws_step s (s\<lparr>read_at := Reading\<rparr>)"
| Receive: "read_at s = Reading \<Longrightarrow> conn_open s \<Longrightarrow> ws_step s (s\<lparr>read_at := Passing p, received := received s @ [p]\<rparr>)"
| Receive_Fails: "read_at s = Reading \<Longrightarrow> ws_step s (end_read s)"
| Pass: "read_at s = Passing (q @ r) \<Longrightarrow> q \<noteq> [] \<Longrightarrow> handler_runs s \<Longrightarrow> \<not> pipes_closed s \<Longrightarrow>
    ws_step s (s\<lparr>read_at := Passing r, body := body s @ q\<rparr>)"
| Passed: "read_at s = Passing [] \<Longrightarrow> ws_step s (s\<lparr>read_at := Ending False\<rparr>)"
| Pass_Fails: "read_at s = Passing p \<Longrightarrow> pipes_closed s \<Longrightarrow> ws_step s (s\<lparr>read_at := Ending True\<rparr>)"
| Newline: "read_at s = Ending err \<Longrightarrow> handler_runs s \<Longrightarrow> \<not> pipes_closed s \<Longrightarrow>
    ws_step s (if err then end_read (s\<lparr>body := body s @ [10]\<rparr>) else s\<lparr>read_at := Selecting, body := body s @ [10]\<rparr>)"
| Newline_Fails: "read_at s = Ending err \<Longrightarrow> pipes_closed s \<Longrightarrow>
    ws_step s (if err then end_read s else s\<lparr>read_at := Selecting\<rparr>)"
| Handler_Ends: "handler_runs s \<Longrightarrow> ws_step s (end_handler s)"
| Close_Pipes: "cancelled s \<Longrightarrow> \<not> pipes_closed s \<Longrightarrow> ws_step s (s\<lparr>pipes_closed := True\<rparr>)"
| Respond: "write_at s = Scanning \<Longrightarrow> handler_runs s \<Longrightarrow> \<not> pipes_closed s \<Longrightarrow> 10 \<notin> set (pending s) \<Longrightarrow>
    length (pending s) < MaxScanTokenSize \<Longrightarrow> b \<noteq> [] \<Longrightarrow>
    ws_step s (s\<lparr>response := response s @ b, pending := pending s @ b\<rparr>)"
| Scan_Line: "write_at s = Scanning \<Longrightarrow> pending s = l @ 10 # p \<Longrightarrow> 10 \<notin> set l \<Longrightarrow> length l < MaxScanTokenSize \<Longrightarrow>
    ws_step s (take_line l (s\<lparr>pending := p, scanned := scanned s @ [l]\<rparr>))"
| Scan_Too_Long: "write_at s = Scanning \<Longrightarrow> MaxScanTokenSize \<le> length (takeWhile (\<lambda>x. x \<noteq> 10) (pending s)) \<Longrightarrow>
    ws_step s (end_write s)"
| Scan_Rest: "write_at s = Scanning \<Longrightarrow> pipes_closed s \<Longrightarrow> pending s \<noteq> [] \<Longrightarrow> 10 \<notin> set (pending s) \<Longrightarrow>
    length (pending s) < MaxScanTokenSize \<Longrightarrow> ws_step s (take_line (pending s) (s\<lparr>pending := [], rest := [pending s]\<rparr>))"
| Scan_End: "write_at s = Scanning \<Longrightarrow> pipes_closed s \<Longrightarrow> pending s = [] \<Longrightarrow> ws_step s (end_write s)"
| Send: "write_at s = Sending l \<Longrightarrow> ws_step s (s\<lparr>write_at := Scanning, sent := sent s @ [l]\<rparr>)"
| Send_Fails: "write_at s = Sending l \<Longrightarrow> ws_step s (end_write s)"

definition ws_reachable :: "ws_session \<Rightarrow> bool" where
  "ws_reachable s \<longleftrightarrow> rtranclp ws_step ws_start s"

text \<open>
  The steps that are the session's own: the goroutines of \<open>websocketProxy\<close> take them without
  waiting for anybody else.  Not among them are what the handler does (it may wait in a call for
  as long as it likes: its request carries no context of the session, so nothing tells it to
  stop), what the peer decides, a message arriving or a message being taken, and what needs the
  handler, which reads the request's pipe.  Receiving from a socket that is closed fails at once.
\<close>

inductive ws_own :: "ws_session \<Rightarrow> ws_session \<Rightarrow> bool" where
  Own_Select_Done: "read_at s = Selecting \<Longrightarrow> cancelled s \<Longrightarrow> ws_own s (end_read s)"
| Own_Select: "read_at s = Selecting \<Longrightarrow> \<not> cancelled s \<Longrightarrow> ws_own s (s\<lparr>read_at := Reading\<rparr>)"
| Own_Receive: "read_at s = Reading \<Longrightarrow> \<not> conn_open s \<Longrightarrow> ws_own s (end_read s)"
| Own_Passed: "read_at s = Passing [] \<Longrightarrow> ws_own s (s\<lparr>read_at := Ending False\<rparr>)"
| Own_Pass: "read_at s = Passing p \<Longrightarrow> pipes_closed s \<Longrightarrow> ws_own s (s\<lparr>read_at := Ending True\<rparr>)"
| Own_Newline: "read_at s = Ending err \<Longrightarrow> pipes_closed s \<Longrightarrow>
    ws_own s (if err then end_read s else s\<lparr>read_at := Selecting\<rparr>)"
| Own_Close: "cancelled s \<Longrightarrow> \<not> pipes_closed s \<Longrightarrow> ws_own s (s\<lparr>pipes_closed := True\<rparr>)"
| Own_Line: "write_at s = Scanning \<Longrightarrow> pending s = l @ 10 # p \<Longrightarrow> 10 \<notin> set l \<Longrightarrow> length l < MaxScanTokenSize \<Longrightarrow>
    ws_own s (take_line l (s\<lparr>pending := p, scanned := scanned s @ [l]\<rparr>))"
| Own_Too_Long: "write_at s = Scanning \<Longrightarrow> MaxScanTokenSize \<le> length (takeWhile (\<lambda>x. x \<noteq> 10) (pending s)) \<Longrightarrow>
    ws_own s (end_write s)"
| Own_Rest: "write_at s = Scanning \<Longrightarrow> pipes_closed s \<Longrightarrow> pending s \<noteq> [] \<Longrightarrow> 10 \<notin> set (pending s) \<Longrightarrow>
    length (pending s) < MaxScanTokenSize \<Longrightarrow> ws_own s (take_line (pending s) (s\<lparr>pending := [], rest := [pending s]\<rparr>))"
| Own_End: "write_at s = Scanning \<Longrightarrow> pipes_closed s \<Longrightarrow> pending s = [] \<Longrightarrow> ws_own s (end_write s)"

text \<open>Everything of the session that does not depend on the handler is over.\<close>

definition session_over :: "ws_session \<Rightarrow> bool" where
  "session_over s \<longleftrightarrow> cancelled s \<and> pipes_closed s \<and> \<not> conn_open s \<and> read_at s = Read_Over \<and> write_at s = Write_Over"

section \<open>Who has ended, and what follows\<close>

definition ws_inv :: "ws_session \<Rightarrow> bool" where
  "ws_inv s \<longleftrightarrow> (pipes_closed s \<longrightarrow> cancelled s) \<and> (read_at s = Read_Over \<longrightarrow> cancelled s) \<and>
     (\<not> handler_runs s \<longrightarrow> cancelled s) \<and> (write_at s = Write_Over \<longrightarrow> cancelled s) \<and>
     (conn_open s \<longleftrightarrow> write_at s \<noteq> Write_Over) \<and> (read_at s = Ending True \<longrightarrow> pipes_closed s)"

lemmas end_defs = end_read_def end_handler_def end_write_def take_line_def

lemma ws_inv_step: "ws_step s s' \<Longrightarrow> ws_inv s \<Longrightarrow> ws_inv s'"
  by (induction rule: ws_step.induct) (simp_all add: ws_inv_def end_defs)

lemma ws_inv_start: "ws_inv ws_start"
  by (simp add: ws_inv_def ws_start_def)

lemma ws_inv_reachable: "ws_reachable s \<Longrightarrow> ws_inv s"
  unfolding ws_reachable_def
  by (induction rule: rtranclp_induct) (use ws_inv_start ws_inv_step in blast)+

text \<open>How many steps a session whose pipes are closed can still take.\<close>

fun read_left :: "read_state \<Rightarrow> nat" where
  "read_left Reading = 4"
| "read_left (Passing p) = 3"
| "read_left (Ending err) = 2"
| "read_left Selecting = 1"
| "read_left Read_Over = 0"

fun write_left :: "write_state \<Rightarrow> nat" where
  "write_left Scanning = 1"
| "write_left (Sending l) = 2"
| "write_left Write_Over = 0"

definition ws_left :: "ws_session \<Rightarrow> nat" where
  "ws_left s = read_left (read_at s) + (2 * length (pending s) + write_left (write_at s)) + (if handler_runs s then 1 else 0)"

lemma twice_length: "xs \<noteq> [] \<Longrightarrow> Suc 0 < 2 * length xs"
  by (cases xs) simp_all

lemma closed_step:
  assumes "ws_step s s'" and "ws_inv s" and "pipes_closed s"
  shows "pipes_closed s' \<and> ws_left s' < ws_left s"
  using assms by (induction rule: ws_step.induct) (simp_all add: ws_inv_def end_defs ws_left_def twice_length)

lemma closed_steps:
  assumes "(ws_step ^^ n) s s'" and "ws_inv s" and "pipes_closed s"
  shows "pipes_closed s' \<and> ws_inv s' \<and> n + ws_left s' \<le> ws_left s"
  using assms
proof (induction n arbitrary: s')
  case (Suc n)
  then obtain t where t: "(ws_step ^^ n) s t" "ws_step t s'" by auto
  with Suc have "pipes_closed t" "ws_inv t" "n + ws_left t \<le> ws_left s" by blast+
  with closed_step [OF t(2)] ws_inv_step [OF t(2)] show ?case by auto
qed simp

lemma takeWhile_line: "10 \<notin> set l \<Longrightarrow> takeWhile (\<lambda>x. x \<noteq> 10) (l @ 10 # p) = l"
  by (induction l) auto

lemma own_is_step: "ws_own s s' \<Longrightarrow> ws_step s s'"
proof (induction rule: ws_own.induct)
  case (Own_Newline s err)
  then show ?case by (rule ws_step.Newline_Fails)
qed (blast intro: ws_step.intros)+

text \<open>No step of the session's own ends the handler, and nothing but it needs to.\<close>

lemma own_keeps_handler: "ws_own s s' \<Longrightarrow> handler_runs s' = handler_runs s"
  by (induction rule: ws_own.induct) (simp_all add: end_defs)

lemma closed_stuck:
  assumes "ws_inv s" and "pipes_closed s" and stuck: "\<And>s'. \<not> ws_own s s'"
  shows "(\<exists>l. write_at s = Sending l \<and> (read_at s = Reading \<or> read_at s = Read_Over)) \<or> session_over s"
proof (cases "write_at s")
  case Scanning
  have False
  proof (cases "MaxScanTokenSize \<le> length (takeWhile (\<lambda>x. x \<noteq> 10) (pending s))")
    case False
    show ?thesis
    proof (cases "10 \<in> set (pending s)")
      case True
      then obtain l p where l: "pending s = l @ 10 # p" "10 \<notin> set l" using split_list_first by fast
      have "takeWhile (\<lambda>x. x \<noteq> 10) (pending s) = l" unfolding l(1) by (rule takeWhile_line [OF l(2)])
      with False have "length l < MaxScanTokenSize" by simp
      from stuck ws_own.Own_Line [OF Scanning l this] show ?thesis by blast
    next
      case no: False
      then have "takeWhile (\<lambda>x. x \<noteq> 10) (pending s) = pending s" by (simp add: takeWhile_eq_all_conv) blast
      with False have "length (pending s) < MaxScanTokenSize" by simp
      with stuck ws_own.Own_Rest [OF Scanning assms(2) _ no] ws_own.Own_End [OF Scanning assms(2)] show ?thesis by blast
    qed
  qed (use Scanning stuck ws_own.Own_Too_Long in blast)
  then show ?thesis ..
next
  case Write_Over
  have c: "cancelled s" "\<not> conn_open s" using assms(1,2) Write_Over by (simp_all add: ws_inv_def)
  have "read_at s = Read_Over"
    by (cases "read_at s") (use stuck c assms(2) in \<open>blast intro: ws_own.intros\<close>)+
  with c Write_Over assms(2) show ?thesis by (simp add: session_over_def)
next
  case (Sending l)
  have c: "cancelled s" using assms(1,2) by (simp add: ws_inv_def)
  have "read_at s = Reading \<or> read_at s = Read_Over"
    by (cases "read_at s") (use stuck c assms(2) in \<open>blast intro: ws_own.intros\<close>)+
  with Sending show ?thesis by blast
qed

lemma waiting_stuck:
  assumes "ws_inv s" and "pipes_closed s" and "write_at s = Sending l" and "read_at s = Reading \<or> read_at s = Read_Over"
  shows "\<not> ws_own s t"
  using assms by (auto simp: ws_inv_def elim: ws_own.cases)

lemma over_takes_no_step: "session_over s \<Longrightarrow> \<not> ws_own s t"
  by (auto simp: session_over_def elim: ws_own.cases)

section \<open>What is carried\<close>

definition lines :: "bytes list \<Rightarrow> bytes" where
  "lines ps = concat (map (\<lambda>p. p @ [10]) ps)"

text \<open>What of the messages the pipe has not passed on yet.\<close>

fun read_behind :: "read_state \<Rightarrow> bytes" where
  "read_behind (Passing r) = r @ [10]"
| "read_behind (Ending err) = [10]"
| "read_behind _ = []"

fun in_flight :: "write_state \<Rightarrow> bytes list" where
  "in_flight (Sending l) = [l]"
| "in_flight _ = []"

definition request_carried :: "ws_session \<Rightarrow> bool" where
  "request_carried s \<longleftrightarrow> prefix (body s) (lines (received s)) \<and>
     (\<not> pipes_closed s \<longrightarrow> body s @ read_behind (read_at s) = lines (received s))"

definition messages_of :: "bytes list \<Rightarrow> bytes list" where
  "messages_of ls = filter (\<lambda>l. l \<noteq> []) (map dropCR ls)"

lemma messages_of_snoc: "messages_of (ls @ [l]) = messages_of ls @ (if dropCR l = [] then [] else [dropCR l])"
  by (simp add: messages_of_def)

definition response_carried :: "ws_session \<Rightarrow> bool" where
  "response_carried s \<longleftrightarrow> (\<forall>l\<in>set (scanned s). 10 \<notin> set l \<and> length l < MaxScanTokenSize) \<and>
     (rest s = [] \<or> (\<exists>r. rest s = [r] \<and> r \<noteq> [] \<and> 10 \<notin> set r \<and> length r < MaxScanTokenSize \<and> pending s = [] \<and> pipes_closed s)) \<and>
     response s = lines (scanned s) @ concat (rest s) @ pending s \<and>
     prefix (sent s) (messages_of (scanned s @ rest s)) \<and>
     (write_at s \<noteq> Write_Over \<longrightarrow> sent s @ in_flight (write_at s) = messages_of (scanned s @ rest s))"

lemma lines_simps [simp]: "lines [] = []" "lines (ps @ [p]) = lines ps @ p @ [10]"
  by (simp_all add: lines_def)

lemma carried_start: "request_carried ws_start" "response_carried ws_start"
  by (simp_all add: request_carried_def response_carried_def ws_start_def messages_of_def)

lemma request_carried_step: "ws_step s s' \<Longrightarrow> ws_inv s \<Longrightarrow> request_carried s \<Longrightarrow> request_carried s'"
proof (induction rule: ws_step.induct)
  case (Receive s p)
  then show ?case by (auto simp: request_carried_def)
next
  case (Pass s q r)
  then have "(body s @ q) @ r @ [10] = lines (received s)" by (simp add: request_carried_def)
  then show ?case by (simp add: request_carried_def) (metis prefixI append.assoc)
next
  case (Newline s err)
  then have "\<not> err" "body s @ [10] = lines (received s)" by (auto simp: request_carried_def ws_inv_def)
  then show ?case by (simp add: request_carried_def)
qed (simp_all add: request_carried_def ws_inv_def end_defs)

lemma response_carried_step: "ws_step s s' \<Longrightarrow> ws_inv s \<Longrightarrow> response_carried s \<Longrightarrow> response_carried s'"
proof (induction rule: ws_step.induct)
  case (Scan_Line s l p)
  then have "rest s = []" by (auto simp: response_carried_def)
  with Scan_Line show ?case by (auto simp: response_carried_def end_defs messages_of_snoc)
next
  case (Scan_Rest s)
  then have "rest s = []" by (auto simp: response_carried_def)
  with Scan_Rest show ?case by (auto simp: response_carried_def end_defs messages_of_snoc)
next
  case (Send s l)
  then show ?case by (simp add: response_carried_def)
qed (auto simp: response_carried_def ws_inv_def end_defs)

lemma reachable_invs:
  assumes "ws_reachable s"
  shows "request_carried s \<and> response_carried s"
proof -
  have "ws_inv s \<and> request_carried s \<and> response_carried s"
    using assms unfolding ws_reachable_def
    by (induction rule: rtranclp_induct)
      (use ws_inv_start carried_start ws_inv_step request_carried_step response_carried_step in blast)+
  then show ?thesis by blast
qed

text \<open>In terms of the loops of the theory \<open>Websocket\<close>.\<close>

lemma read_loop_lines: "read_loop (length ps) ps = lines ps"
  by (induction ps) (simp_all add: lines_def)

lemma write_loop_take: "write_loop n ls = take n (filter (\<lambda>l. l \<noteq> []) ls)"
  by (induction n ls rule: write_loop.induct) (auto split: nat.split)

lemma scan_line:
  assumes "10 \<notin> set l" and "length l < MaxScanTokenSize"
  shows "scan_lines (l @ 10 # b) = (dropCR l # fst (scan_lines b), snd (scan_lines b))"
proof -
  have "dropWhile (\<lambda>x. x \<noteq> 10) (l @ 10 # b) = 10 # b" using assms(1) by (induction l) auto
  then show ?thesis
    using assms(2) takeWhile_line [OF assms(1), of b] by (subst scan_lines.simps) (simp add: Let_def split_beta)
qed

lemma scan_rest:
  assumes "10 \<notin> set r" and "length r < MaxScanTokenSize" and "r \<noteq> []"
  shows "fst (scan_lines r) = [dropCR r]"
proof -
  have w: "takeWhile (\<lambda>x. x \<noteq> 10) r = r" "dropWhile (\<lambda>x. x \<noteq> 10) r = []"
    using assms(1) by (auto simp: takeWhile_eq_all_conv dropWhile_eq_Nil_conv)
  have "scan_lines [] = ([], True)" by (simp add: scan_lines.simps)
  then show ?thesis using assms(2,3) by (subst scan_lines.simps) (simp add: w Let_def split_beta)
qed

lemma scan_lines_of:
  "\<forall>l\<in>set ls. 10 \<notin> set l \<and> length l < MaxScanTokenSize \<Longrightarrow> fst (scan_lines (lines ls @ b)) = map dropCR ls @ fst (scan_lines b)"
  by (induction ls) (simp_all add: lines_def scan_line)

lemma response_messages:
  assumes "response_carried s"
  shows "sent s = websocket_messages (length (sent s)) (response s)"
proof -
  have "fst (scan_lines (response s)) = map dropCR (scanned s) @ fst (scan_lines (concat (rest s) @ pending s))"
    using assms scan_lines_of by (simp add: response_carried_def)
  moreover have "\<exists>more_lines. fst (scan_lines (concat (rest s) @ pending s)) = map dropCR (rest s) @ more_lines"
    using assms scan_rest by (fastforce simp: response_carried_def)
  ultimately obtain more_lines where "fst (scan_lines (response s)) = map dropCR (scanned s @ rest s) @ more_lines" by auto
  moreover obtain unsent where "messages_of (scanned s @ rest s) = sent s @ unsent"
    using assms by (auto simp: response_carried_def prefix_def)
  ultimately have "filter (\<lambda>l. l \<noteq> []) (fst (scan_lines (response s))) = sent s @ unsent @ filter (\<lambda>l. l \<noteq> []) more_lines"
    by (simp add: messages_of_def)
  then show ?thesis by (simp add: websocket_messages_def write_loop_take)
qed

section \<open>Properties\<close>

text \<open>
  C35. However the goroutines of a websocket session interleave and whatever fails: what the
  handler has read of its request is a beginning of the messages received, each followed by a
  newline, and what was sent to the socket are the first non-empty lines of the response the
  handler has written, in order.
\<close>

theorem websocket_session_carries:
  assumes "ws_reachable s"
  shows "prefix (body s) (read_loop (length (received s)) (received s)) \<and>
    sent s = websocket_messages (length (sent s)) (response s)"
  using reachable_invs [OF assms] response_messages [of s] by (simp add: request_carried_def read_loop_lines)

text \<open>The setting of the witness: one message each way.\<close>

lemma demo_session: "\<exists>s. ws_reachable s \<and> body s = [65, 10] \<and> received s = [[65]] \<and> sent s = [[66]] \<and> response s = [66, 10]"
proof -
  let ?R = "rtranclp ws_step ws_start"
  let ?s1 = "ws_start\<lparr>read_at := Reading\<rparr>"
  let ?s2 = "?s1\<lparr>read_at := Passing [65], received := [[65]]\<rparr>"
  let ?s3 = "?s2\<lparr>read_at := Passing [], body := [65]\<rparr>"
  let ?s4 = "?s3\<lparr>read_at := Ending False\<rparr>"
  let ?s5 = "?s4\<lparr>read_at := Selecting, body := [65, 10]\<rparr>"
  let ?s6 = "?s5\<lparr>response := [66, 10], pending := [66, 10]\<rparr>"
  let ?s7 = "?s6\<lparr>pending := [], scanned := [[66]], write_at := Sending [66]\<rparr>"
  let ?s8 = "?s7\<lparr>write_at := Scanning, sent := [[66]]\<rparr>"
  note start = ws_start_def
  have "?R ?s1" using ws_step.Select [of ws_start] by (auto simp: start)
  moreover have "ws_step ?s1 ?s2" using ws_step.Receive [of ?s1 "[65]"] by (simp add: start)
  moreover have "ws_step ?s2 ?s3" using ws_step.Pass [of ?s2 "[65]" "[]"] by (simp add: start)
  moreover have "ws_step ?s3 ?s4" using ws_step.Passed [of ?s3] by (simp add: start)
  moreover have "ws_step ?s4 ?s5" using ws_step.Newline [of ?s4 False] by (simp add: start)
  moreover have "ws_step ?s5 ?s6" using ws_step.Respond [of ?s5 "[66, 10]"] by (simp add: start MaxScanTokenSize_def)
  moreover have "ws_step ?s6 ?s7" using ws_step.Scan_Line [of ?s6 "[66]" "[]"]
    by (simp add: start take_line_def dropCR_def MaxScanTokenSize_def)
  moreover have "ws_step ?s7 ?s8" using ws_step.Send [of ?s7 "[66]"] by (simp add: start)
  ultimately have "?R ?s8" by (meson rtranclp.rtrancl_into_rtrancl)
  then show ?thesis unfolding ws_reachable_def by (intro exI [of _ ?s8]) simp
qed

theorem websocket_session_carries_witness:
  "\<exists>s. ws_reachable s \<and> body s = [65, 10] \<and> sent s = [[66]] \<and> prefix (body s) (read_loop 1 [[65]]) \<and>
     [[66]] = websocket_messages 1 [66, 10]"
proof -
  obtain s where s: "ws_reachable s" "body s = [65, 10]" "received s = [[65]]" "sent s = [[66]]" "response s = [66, 10]"
    using demo_session by blast
  from websocket_session_carries [OF s(1)] have "prefix (body s) (read_loop 1 [[65]])" "[[66]] = websocket_messages 1 [66, 10]"
    unfolding s(3-5) by simp_all
  with s(1,2,4) show ?thesis by blast
qed

text \<open>
  A handler that is left behind: the write loop gives up on a line that is too long, or the
  client goes away; here the socket fails to take a message.
\<close>

lemma handler_left: "\<exists>s. ws_reachable s \<and> session_over s \<and> handler_runs s"
proof -
  let ?R = "rtranclp ws_step ws_start"
  let ?s1 = "ws_start\<lparr>response := [66, 10], pending := [66, 10]\<rparr>"
  let ?s2 = "?s1\<lparr>pending := [], scanned := [[66]], write_at := Sending [66]\<rparr>"
  let ?s3 = "end_write ?s2"
  let ?s4 = "end_read ?s3"
  let ?s5 = "?s4\<lparr>pipes_closed := True\<rparr>"
  note start = ws_start_def
  have "?R ?s1" using ws_step.Respond [of ws_start "[66, 10]"] by (auto simp: start MaxScanTokenSize_def)
  moreover have "ws_step ?s1 ?s2" using ws_step.Scan_Line [of ?s1 "[66]" "[]"]
    by (simp add: start take_line_def dropCR_def MaxScanTokenSize_def)
  moreover have "ws_step ?s2 ?s3" using ws_step.Send_Fails [of ?s2 "[66]"] by (simp add: start)
  moreover have "ws_step ?s3 ?s4" using ws_step.Select_Done [of ?s3] by (simp add: start end_write_def)
  moreover have "ws_step ?s4 ?s5" using ws_step.Close_Pipes [of ?s4] by (simp add: start end_write_def end_read_def)
  ultimately have "?R ?s5" by (meson rtranclp.rtrancl_into_rtrancl)
  then show ?thesis unfolding ws_reachable_def
    by (intro exI [of _ ?s5]) (simp add: session_over_def start end_write_def end_read_def)
qed

text \<open>
  C36. How a websocket session comes to its end, and what it leaves behind.  As soon as the read
  loop, the handler or the write loop has ended the context is cancelled; once it is, the
  session itself can close the pipes; from then on it takes at most \<open>ws_left\<close> more steps, of
  whatever kind; and when it has none of its own to take, either the write loop waits for the
  socket to take a message, or both loops have ended, and pipes and socket are closed.  The
  handler is not part of that: no step of the session ends it, because the request it serves
  carries no context of the session, and a session can be over with its handler still running,
  in a call that waits.
\<close>

theorem websocket_session_ends:
  assumes "ws_reachable s"
  shows "(read_at s = Read_Over \<or> write_at s = Write_Over \<or> \<not> handler_runs s \<longrightarrow> cancelled s) \<and>
    (cancelled s \<and> \<not> pipes_closed s \<longrightarrow> ws_own s (s\<lparr>pipes_closed := True\<rparr>)) \<and>
    (pipes_closed s \<longrightarrow> (\<forall>n s'. (ws_step ^^ n) s s' \<longrightarrow> n \<le> ws_left s \<and>
      ((\<nexists>t. ws_own s' t) \<longleftrightarrow> (\<exists>l. write_at s' = Sending l \<and> (read_at s' = Reading \<or> read_at s' = Read_Over)) \<or> session_over s'))) \<and>
    (\<forall>t. ws_own s t \<longrightarrow> handler_runs t = handler_runs s) \<and>
    (\<exists>left. ws_reachable left \<and> session_over left \<and> handler_runs left \<and> (\<nexists>t. ws_own left t))"
proof (intro conjI impI allI)
  have inv: "ws_inv s" by (rule ws_inv_reachable [OF assms])
  then show "read_at s = Read_Over \<or> write_at s = Write_Over \<or> \<not> handler_runs s \<Longrightarrow> cancelled s" by (auto simp: ws_inv_def)
  show "cancelled s \<and> \<not> pipes_closed s \<Longrightarrow> ws_own s (s\<lparr>pipes_closed := True\<rparr>)" using ws_own.Own_Close by blast
  show "ws_own s t \<Longrightarrow> handler_runs t = handler_runs s" for t by (rule own_keeps_handler)
  show "\<exists>left. ws_reachable left \<and> session_over left \<and> handler_runs left \<and> (\<nexists>t. ws_own left t)"
    using handler_left over_takes_no_step by blast
  fix n s' assume closed: "pipes_closed s" and run: "(ws_step ^^ n) s s'"
  from closed_steps [OF run inv closed] have after: "pipes_closed s'" "ws_inv s'" "n + ws_left s' \<le> ws_left s" by blast+
  then show "n \<le> ws_left s" by simp
  from closed_stuck [OF after(2,1)] waiting_stuck [OF after(2,1)] over_takes_no_step
  show "(\<nexists>t. ws_own s' t) \<longleftrightarrow> (\<exists>l. write_at s' = Sending l \<and> (read_at s' = Reading \<or> read_at s' = Read_Over)) \<or> session_over s'"
    by blast
qed

theorem websocket_session_ends_witness:
  "\<exists>s. ws_reachable s \<and> \<not> handler_runs s \<and> cancelled s \<and> ws_own s (s\<lparr>pipes_closed := True\<rparr>)"
proof -
  have r: "ws_reachable (end_handler ws_start)"
    unfolding ws_reachable_def using ws_step.Handler_Ends [of ws_start] by (auto simp: ws_start_def)
  have h: "\<not> handler_runs (end_handler ws_start)" "\<not> pipes_closed (end_handler ws_start)"
    by (simp_all add: end_handler_def ws_start_def)
  from websocket_session_ends [OF r] h r show ?thesis by blast
qed

end
