(* ===== verification/Certs.thy ===== *)
theory Certs
  imports Server_Main
begin

text \<open>
  The self-signed certificates of server and client (\<open>util/certs.go\<close>).  Random numbers, keys,
  signatures, the network interfaces and the host name are the machine's, parameters with
  their errors; which of the host's addresses enter the certificate, and as what, is the
  code's.  \<open>net.ParseIP\<close> is modelled as the standard library has it.
\<close>

section \<open>Texts of addresses\<close>

definition is_digit :: "char \<Rightarrow> bool" where
  "is_digit c \<longleftrightarrow> CHR ''0'' \<le> c \<and> c \<le> CHR ''9''"

definition hex_value :: "char \<Rightarrow> nat option" where
  "hex_value c = (if is_digit c then Some (of_char c - 48)
     else if CHR ''a'' \<le> c \<and> c \<le> CHR ''f'' then Some (of_char c - 87)
     else if CHR ''A'' \<le> c \<and> c \<le> CHR ''F'' then Some (of_char c - 55) else None)"

definition big :: nat where
  "big = 0xFFFFFF"

text \<open>A number at the start of a text, in decimal or hexadecimal, and the rest of the text.\<close>

fun dtoi :: "nat \<Rightarrow> string \<Rightarrow> (nat \<times> string) option" where
  "dtoi n [] = Some (n, [])"
| "dtoi n (c # s) = (if is_digit c
     then if big \<le> 10 * n + (of_char c - 48) then None else dtoi (10 * n + (of_char c - 48)) s
     else Some (n, c # s))"

fun xtoi :: "nat \<Rightarrow> string \<Rightarrow> (nat \<times> string) option" where
  "xtoi n [] = Some (n, [])"
| "xtoi n (c # s) = (case hex_value c of
     None \<Rightarrow> Some (n, c # s)
   | Some d \<Rightarrow> if big \<le> 16 * n + d then None else xtoi (16 * n + d) s)"

text \<open>\<open>k\<close> more bytes of an IPv4 address, each but the first of all after a dot.\<close>

fun parseIPv4 :: "nat \<Rightarrow> bool \<Rightarrow> string \<Rightarrow> bytes option" where
  "parseIPv4 0 first s = (if s = [] then Some [] else None)"
| "parseIPv4 (Suc k) first s =
     (let t = (if first then Some s else case s of c # t \<Rightarrow> (if c = CHR ''.'' then Some t else None) | [] \<Rightarrow> None) in
      case t of
        None \<Rightarrow> None
      | Some t \<Rightarrow> (case dtoi 0 t of
          None \<Rightarrow> None
        | Some (n, rest) \<Rightarrow>
            if length rest = length t \<or> 0xFF < n then None
            else map_option (\<lambda>bs. of_nat n # bs) (parseIPv4 k False rest)))"

definition IPv4 :: "bytes \<Rightarrow> bytes" where
  "IPv4 b = replicate 10 0 @ [0xFF, 0xFF] @ b"

text \<open>
  The groups of an IPv6 address: the bytes before and after the ellipsis, if there is one.
  \<open>k\<close> is the number of bytes still to come when there is no ellipsis.
\<close>

fun groups :: "nat \<Rightarrow> bytes \<Rightarrow> bytes option \<Rightarrow> string \<Rightarrow> (bytes \<times> bytes option) option" where
  "groups k front rear s =
     (if k < 2 then (if s = [] then Some (front, rear) else None)
      else case xtoi 0 s of
        None \<Rightarrow> None
      | Some (n, rest) \<Rightarrow>
          if length rest = length s \<or> 0xFFFF < n then None
          else
            let add = (\<lambda>bs. case rear of None \<Rightarrow> (front @ bs, None) | Some a \<Rightarrow> (front, Some (a @ bs)));
                two = [of_nat (n div 256), of_nat n] in
            (case rest of
              [] \<Rightarrow> Some (add two)
            | c # t \<Rightarrow>
                if c = CHR ''.'' then
                  (if rear = None \<and> k \<noteq> 4 \<or> k < 4 then None
                   else map_option add (parseIPv4 4 True s))
                else if c \<noteq> CHR '':'' \<or> t = [] then None
                else if hd t = CHR '':'' then
                  (if rear \<noteq> None then None
                   else if tl t = [] then Some (front @ two, Some [])
                   else groups (k - 2) (front @ two) (Some []) (tl t))
                else (case add two of (front, rear) \<Rightarrow> groups (k - 2) front rear t)))"

declare groups.simps [simp del]

definition parseIPv6 :: "string \<Rightarrow> bytes option" where
  "parseIPv6 s =
     (let parsed = (if take 2 s = ''::'' then
             (if drop 2 s = [] then Some ([], Some []) else groups 16 [] (Some []) (drop 2 s))
           else groups 16 [] None s) in
      case parsed of
        None \<Rightarrow> None
      | Some (front, None) \<Rightarrow> if length front = 16 then Some front else None
      | Some (front, Some rear) \<Rightarrow>
          if length front + length rear < 16
          then Some (front @ replicate (16 - length front - length rear) 0 @ rear) else None)"

text \<open>The first dot or colon says which of the two it is.\<close>

fun ParseIP_from :: "string \<Rightarrow> string \<Rightarrow> bytes option" where
  "ParseIP_from s [] = None"
| "ParseIP_from s (c # cs) =
     (if c = CHR ''.'' then map_option IPv4 (parseIPv4 4 True s)
      else if c = CHR '':'' then parseIPv6 s
      else ParseIP_from s cs)"

definition ParseIP :: "string \<Rightarrow> bytes option" where
  "ParseIP s = ParseIP_from s s"

section \<open>What is not an address\<close>

lemma dtoi_rest: "dtoi n s = Some (m, rest) \<Longrightarrow> CHR ''/'' \<in> set s \<longleftrightarrow> CHR ''/'' \<in> set rest"
  by (induction n s rule: dtoi.induct) (auto simp: is_digit_def split: if_splits)

lemma xtoi_rest: "xtoi n s = Some (m, rest) \<Longrightarrow> CHR ''/'' \<in> set s \<longleftrightarrow> CHR ''/'' \<in> set rest"
  by (induction n s rule: xtoi.induct) (auto simp: hex_value_def is_digit_def split: if_splits option.splits)

lemma parseIPv4_Suc:
  "parseIPv4 (Suc k) first s = Some b \<Longrightarrow>
     \<exists>t n rest b'. (t = s \<or> s = CHR ''.'' # t) \<and> dtoi 0 t = Some (n, rest) \<and> parseIPv4 k False rest = Some b'"
  by (force simp: Let_def split: option.splits if_splits list.splits)

lemma parseIPv4_no_slash: "parseIPv4 k first s = Some b \<Longrightarrow> CHR ''/'' \<notin> set s"
proof (induction k arbitrary: first s b)
  case (Suc k)
  from parseIPv4_Suc [OF Suc.prems] obtain t n rest b' where t: "t = s \<or> s = CHR ''.'' # t"
    and d: "dtoi 0 t = Some (n, rest)" and r: "parseIPv4 k False rest = Some b'" by blast
  have "CHR ''/'' \<notin> set rest" by (rule Suc.IH [OF r])
  with dtoi_rest [OF d] t show ?case by auto
qed (simp split: if_splits)

lemma groups_step:
  assumes "groups k front rear s = Some r"
  shows "s = [] \<or> 2 \<le> k \<and> (\<exists>n rest. xtoi 0 s = Some (n, rest) \<and>
    (rest = [] \<or> parseIPv4 4 True s \<noteq> None \<or>
     (\<exists>t front' rear'. rest = CHR '':'' # t \<and> (groups (k - 2) front' rear' t = Some r \<or>
       (\<exists>u. t = CHR '':'' # u \<and> (u = [] \<or> groups (k - 2) front' rear' u = Some r))))))"
proof (cases "k < 2")
  case True
  then show ?thesis using assms by (subst (asm) groups.simps) (simp split: if_splits)
next
  case False
  with assms obtain n rest where x: "xtoi 0 s = Some (n, rest)"
    by (subst (asm) groups.simps) (auto split: option.splits)
  have "rest = [] \<or> parseIPv4 4 True s \<noteq> None \<or>
     (\<exists>t front' rear'. rest = CHR '':'' # t \<and> (groups (k - 2) front' rear' t = Some r \<or>
       (\<exists>u. t = CHR '':'' # u \<and> (u = [] \<or> groups (k - 2) front' rear' u = Some r))))"
  proof (cases rest)
    case (Cons c t)
    then show ?thesis
      using assms False x
      by (cases t; subst (asm) groups.simps; cases rear;
          auto simp: Let_def split: if_splits)
  qed simp
  with x False show ?thesis by auto
qed

lemma groups_no_slash: "groups k front rear s = Some r \<Longrightarrow> CHR ''/'' \<notin> set s"
proof (induction k arbitrary: front rear s rule: less_induct)
  case (less k)
  from groups_step [OF less.prems] show ?case
  proof (elim disjE conjE exE)
    fix n rest
    assume x: "xtoi 0 s = Some (n, rest)" and "rest = []"
    then show ?thesis using xtoi_rest [OF x] by simp
  next
    assume "parseIPv4 4 True s \<noteq> None"
    then show ?thesis using parseIPv4_no_slash by blast
  next
    fix n rest t front' rear'
    assume k: "2 \<le> k" and x: "xtoi 0 s = Some (n, rest)" and r: "rest = CHR '':'' # t"
      and g: "groups (k - 2) front' rear' t = Some r"
    from less.IH [OF _ g] k have "CHR ''/'' \<notin> set t" by simp
    then show ?thesis using xtoi_rest [OF x] r by simp
  next
    fix n rest t u
    assume x: "xtoi 0 s = Some (n, rest)" and r: "rest = CHR '':'' # t" "t = CHR '':'' # u" "u = []"
    then show ?thesis using xtoi_rest [OF x] by simp
  next
    fix n rest t front' rear' u
    assume k: "2 \<le> k" and x: "xtoi 0 s = Some (n, rest)" and r: "rest = CHR '':'' # t" "t = CHR '':'' # u"
      and g: "groups (k - 2) front' rear' u = Some r"
    from less.IH [OF _ g] k have "CHR ''/'' \<notin> set u" by simp
    then show ?thesis using xtoi_rest [OF x] r by simp
  qed simp
qed

lemma parseIPv6_no_slash: "parseIPv6 s = Some b \<Longrightarrow> CHR ''/'' \<notin> set s"
proof (cases "take 2 s = ''::''")
  case True
  then have s: "set s = insert CHR '':'' (set (drop 2 s))"
    by (metis append_take_drop_id insert_absorb2 list.simps(15) set_append Un_insert_left Un_empty_left set_empty2)
  assume "parseIPv6 s = Some b"
  then have "drop 2 s = [] \<or> (\<exists>r. groups 16 [] (Some []) (drop 2 s) = Some r)"
    by (auto simp: parseIPv6_def True Let_def split: if_splits option.splits)
  then show ?thesis using groups_no_slash unfolding s by auto
next
  case False
  assume "parseIPv6 s = Some b"
  then have "\<exists>r. groups 16 [] None s = Some r"
    by (auto simp: parseIPv6_def False Let_def split: option.splits)
  then show ?thesis using groups_no_slash by blast
qed

lemma ParseIP_from_no_slash: "ParseIP_from s t = Some b \<Longrightarrow> CHR ''/'' \<notin> set s"
  by (induction t) (auto dest: parseIPv4_no_slash parseIPv6_no_slash split: if_splits)

text \<open>A text with a slash is not an address, so the CIDR notation of one is not.\<close>

lemma ParseIP_slash: "CHR ''/'' \<in> set s \<Longrightarrow> ParseIP s = None"
  using ParseIP_from_no_slash [of s s] by (cases "ParseIP s") (auto simp: ParseIP_def)

text \<open>What is one.\<close>

lemma parseIPv4_four: "parseIPv4 4 first s = parseIPv4 (Suc (Suc (Suc (Suc 0)))) first s"
  by (simp add: eval_nat_numeral)

lemma ParseIP_examples:
  "ParseIP ''192.168.1.10'' = Some (IPv4 [192, 168, 1, 10])"
  "ParseIP ''192.168.1.256'' = None"
  "ParseIP ''localhost'' = None"
  "ParseIP ''::1'' = Some (replicate 14 0 @ [0, 1])"
  by (simp_all add: ParseIP_def parseIPv4_four parseIPv6_def groups.simps [of _ _ _ "''1''"] is_digit_def hex_value_def big_def)

section \<open>The certificate\<close>

text \<open>
  An address of an interface is an IP network: the text of its IP and the text of its mask
  (the number of leading ones, or hexadecimal digits).
\<close>

record net_addr =
  addr_IP :: string
  addr_Mask :: string

definition addr_String :: "net_addr \<Rightarrow> string" where
  "addr_String a = addr_IP a @ CHR ''/'' # addr_Mask a"

datatype key_usage = KeyEncipherment | DigitalSignature

record x509_template =
  SerialNumber :: int
  Organization :: "string list"
  NotBefore :: int
  NotAfter :: int
  KeyUsage :: "key_usage list"
  ServerAuth :: bool
  BasicConstraintsValid :: bool
  IPAddresses :: "bytes list"
  DNSNames :: "string list"

record 'cert tls_config =
  tls_Certificates :: "'cert list"
  tls_MinVersion :: string
  tls_InsecureSkipVerify :: bool
  tls_NextProtos :: "string list"
  tls_ServerName :: string

text \<open>
  What the machine gives: a random number below a bound, the interfaces (each with its
  addresses, or an error), the time in nanoseconds, keys, signed certificates, encodings, and
  the host name.  \<open>PEM\<close> is the text block of a type and its bytes.
\<close>

record ('key, 'cert) cert_machine =
  rand_Int :: "int \<Rightarrow> string + int"
  net_Interfaces :: "string + (string + net_addr list) list"
  time_Now :: int
  GenerateKey :: "string + 'key"
  CreateCertificate :: "x509_template \<Rightarrow> 'key \<Rightarrow> string + bytes"
  MarshalECPrivateKey :: "'key \<Rightarrow> string + bytes"
  PEM :: "string \<Rightarrow> bytes \<Rightarrow> bytes"
  X509KeyPair :: "bytes \<Rightarrow> bytes \<Rightarrow> string + 'cert"
  Hostname :: "string + string"

text \<open>An interface whose addresses cannot be read is left out.\<close>

definition getAllInterfaceAddresses :: "('key, 'cert) cert_machine \<Rightarrow> string + string list" where
  "getAllInterfaceAddresses M = (case net_Interfaces M of
     Inl err \<Rightarrow> Inl err
   | Inr ifs \<Rightarrow> Inr (concat (map (\<lambda>i. case i of Inl err \<Rightarrow> [] | Inr as \<Rightarrow> map addr_String as) ifs)))"

text \<open>\<open>strings.Split(host, ":")[0]\<close> is what comes before the first colon.\<close>

definition add_host :: "string \<Rightarrow> x509_template \<Rightarrow> x509_template" where
  "add_host host tmpl = (case ParseIP host of
     Some ip \<Rightarrow> tmpl\<lparr>IPAddresses := IPAddresses tmpl @ [ip]\<rparr>
   | None \<Rightarrow> tmpl\<lparr>DNSNames := DNSNames tmpl @ [takeWhile (\<lambda>c. c \<noteq> CHR '':'') host]\<rparr>)"

definition year :: int where
  "year = 365 * (24 * 3600000000000)"

definition cert_template :: "string \<Rightarrow> int \<Rightarrow> int \<Rightarrow> string list \<Rightarrow> x509_template" where
  "cert_template orgName serial now hosts = fold add_host hosts
     \<lparr>SerialNumber = serial, Organization = [orgName], NotBefore = now, NotAfter = now + year,
      KeyUsage = [KeyEncipherment, DigitalSignature], ServerAuth = True, BasicConstraintsValid = True,
      IPAddresses = [], DNSNames = []\<rparr>"

text \<open>The first step that fails ends it with its error.\<close>

definition on_success :: "string + 'a \<Rightarrow> ('a \<Rightarrow> string + 'b) \<Rightarrow> string + 'b" where
  "on_success r f = (case r of Inl err \<Rightarrow> Inl err | Inr x \<Rightarrow> f x)"

definition NewSelfCerts :: "('key, 'cert) cert_machine \<Rightarrow> string \<Rightarrow> string + 'cert tls_config" where
  "NewSelfCerts M orgName =
     on_success (rand_Int M (2 ^ 128)) (\<lambda>serialNumber.
     on_success (getAllInterfaceAddresses M) (\<lambda>hosts.
     let tmpl = cert_template orgName serialNumber (time_Now M) hosts in
     on_success (GenerateKey M) (\<lambda>privKey.
     on_success (CreateCertificate M tmpl privKey) (\<lambda>certBytes.
     on_success (MarshalECPrivateKey M privKey) (\<lambda>keyBytes.
     on_success (X509KeyPair M (PEM M ''CERTIFICATE'' certBytes) (PEM M ''EC PRIVATE KEY'' keyBytes)) (\<lambda>cert.
     on_success (Hostname M) (\<lambda>hostname.
     Inr \<lparr>tls_Certificates = [cert], tls_MinVersion = ''TLS1.2'', tls_InsecureSkipVerify = True,
          tls_NextProtos = [''h2''], tls_ServerName = hostname\<rparr>)))))))"

lemma on_success_simps [simp]: "on_success (Inl err) f = Inl err" "on_success (Inr x) f = f x"
  by (simp_all add: on_success_def)

lemma on_success_Inr: "on_success r f = Inr y \<longleftrightarrow> (\<exists>x. r = Inr x \<and> f x = Inr y)"
  by (cases r) simp_all

lemma add_host_slash:
  "CHR ''/'' \<in> set host \<Longrightarrow> add_host host tmpl = tmpl\<lparr>DNSNames := DNSNames tmpl @ [takeWhile (\<lambda>c. c \<noteq> CHR '':'') host]\<rparr>"
  by (simp add: add_host_def ParseIP_slash)

lemma fold_add_host:
  assumes "\<forall>h\<in>set hosts. CHR ''/'' \<in> set h"
  shows "fold add_host hosts tmpl =
    tmpl\<lparr>DNSNames := DNSNames tmpl @ map (takeWhile (\<lambda>c. c \<noteq> CHR '':'')) hosts\<rparr>"
  using assms by (induction hosts arbitrary: tmpl) (simp_all add: add_host_slash)

lemma interface_hosts:
  "getAllInterfaceAddresses M = Inr hosts \<Longrightarrow> \<forall>h\<in>set hosts. \<exists>a. h = addr_String a"
  by (auto simp: getAllInterfaceAddresses_def split: sum.splits)

text \<open>
  C30. A self-signed certificate comes out exactly when every step of the machine succeeds; it
  is offered for HTTP/2 from TLS 1.2 on under the host's name.  But the certificate names no
  address: the texts of interface addresses are networks (\<open>192.168.1.10/24\<close>), which
  \<open>net.ParseIP\<close> refuses, so whatever the interfaces are the certificate has no IP address,
  and its DNS names are the texts of the networks up to the first colon.
\<close>

theorem self_certs_name_no_address:
  "(\<forall>cfg. NewSelfCerts M org = Inr cfg \<longleftrightarrow> (\<exists>serial hosts key cb kb cert name.
      rand_Int M (2 ^ 128) = Inr serial \<and> getAllInterfaceAddresses M = Inr hosts \<and> GenerateKey M = Inr key \<and>
      CreateCertificate M (cert_template org serial (time_Now M) hosts) key = Inr cb \<and> MarshalECPrivateKey M key = Inr kb \<and>
      X509KeyPair M (PEM M ''CERTIFICATE'' cb) (PEM M ''EC PRIVATE KEY'' kb) = Inr cert \<and> Hostname M = Inr name \<and>
      cfg = \<lparr>tls_Certificates = [cert], tls_MinVersion = ''TLS1.2'', tls_InsecureSkipVerify = True,
        tls_NextProtos = [''h2''], tls_ServerName = name\<rparr>)) \<and>
   (\<forall>ifs serial now. net_Interfaces M = Inr ifs \<longrightarrow>
      (\<exists>hosts. getAllInterfaceAddresses M = Inr hosts \<and>
        hosts = [addr_String a. Inr as \<leftarrow> ifs, a \<leftarrow> as] \<and>
        IPAddresses (cert_template org serial now hosts) = [] \<and>
        DNSNames (cert_template org serial now hosts) = map (takeWhile (\<lambda>c. c \<noteq> CHR '':'')) hosts))"
proof (intro conjI allI impI)
  show "NewSelfCerts M org = Inr cfg \<longleftrightarrow> (\<exists>serial hosts key cb kb cert name.
      rand_Int M (2 ^ 128) = Inr serial \<and> getAllInterfaceAddresses M = Inr hosts \<and> GenerateKey M = Inr key \<and>
      CreateCertificate M (cert_template org serial (time_Now M) hosts) key = Inr cb \<and> MarshalECPrivateKey M key = Inr kb \<and>
      X509KeyPair M (PEM M ''CERTIFICATE'' cb) (PEM M ''EC PRIVATE KEY'' kb) = Inr cert \<and> Hostname M = Inr name \<and>
      cfg = \<lparr>tls_Certificates = [cert], tls_MinVersion = ''TLS1.2'', tls_InsecureSkipVerify = True,
        tls_NextProtos = [''h2''], tls_ServerName = name\<rparr>)" for cfg
    by (auto simp: NewSelfCerts_def on_success_Inr Let_def)
  fix ifs serial now
  assume ifs: "net_Interfaces M = Inr ifs"
  let ?hosts = "[addr_String a. Inr as \<leftarrow> ifs, a \<leftarrow> as]"
  have h: "getAllInterfaceAddresses M = Inr ?hosts"
    unfolding getAllInterfaceAddresses_def ifs by (auto intro!: arg_cong [where f = concat] split: sum.split)
  have "\<forall>h\<in>set ?hosts. CHR ''/'' \<in> set h" using interface_hosts [OF h] by (auto simp: addr_String_def)
  from fold_add_host [OF this] h
  show "\<exists>hosts. getAllInterfaceAddresses M = Inr hosts \<and> hosts = ?hosts \<and>
      IPAddresses (cert_template org serial now hosts) = [] \<and>
      DNSNames (cert_template org serial now hosts) = map (takeWhile (\<lambda>c. c \<noteq> CHR '':'')) hosts"
    by (simp add: cert_template_def)
qed

definition demo_cert_machine :: "(unit, bytes) cert_machine" where
  "demo_cert_machine = \<lparr>rand_Int = (\<lambda>b. Inr 7),
     net_Interfaces = Inr [Inl ''no such device'', Inr [\<lparr>addr_IP = ''192.168.1.10'', addr_Mask = ''24''\<rparr>, \<lparr>addr_IP = ''fe80::1'', addr_Mask = ''64''\<rparr>]],
     time_Now = 0, GenerateKey = Inr (), CreateCertificate = (\<lambda>t k. Inr [1]), MarshalECPrivateKey = (\<lambda>k. Inr [2]),
     PEM = (\<lambda>t b. b), X509KeyPair = (\<lambda>c k. Inr (c @ k)), Hostname = Inr ''host''\<rparr>"

theorem self_certs_name_no_address_witness:
  "(\<exists>cfg. NewSelfCerts demo_cert_machine ''Mydis'' = Inr cfg) \<and>
   IPAddresses (cert_template ''Mydis'' 7 0 [''192.168.1.10/24'', ''fe80::1/64'']) = [] \<and>
   DNSNames (cert_template ''Mydis'' 7 0 [''192.168.1.10/24'', ''fe80::1/64'']) = [''192.168.1.10/24'', ''fe80'']"
proof -
  have ifs: "net_Interfaces demo_cert_machine = Inr [Inl ''no such device'',
      Inr [\<lparr>addr_IP = ''192.168.1.10'', addr_Mask = ''24''\<rparr>, \<lparr>addr_IP = ''fe80::1'', addr_Mask = ''64''\<rparr>]]"
    by (simp add: demo_cert_machine_def)
  note claim = self_certs_name_no_address [of demo_cert_machine "''Mydis''"]
  from claim [THEN conjunct2, rule_format, OF ifs, of 7 0]
  have 2: "IPAddresses (cert_template ''Mydis'' 7 0 [''192.168.1.10/24'', ''fe80::1/64'']) = []"
    "DNSNames (cert_template ''Mydis'' 7 0 [''192.168.1.10/24'', ''fe80::1/64'']) = [''192.168.1.10/24'', ''fe80'']"
    by (simp_all add: addr_String_def)
  have "\<exists>cfg. NewSelfCerts demo_cert_machine ''Mydis'' = Inr cfg"
    by (simp add: NewSelfCerts_def getAllInterfaceAddresses_def demo_cert_machine_def Let_def)
  with 2 show ?thesis by blast
qed

end
