(* ===== verification/Server_Life.thy ===== *)
theory Server_Life
  imports Certs Client_Connect Naming
begin

text \<open>
  The rest of a server's life and who can talk to it: copies of its configuration
  (\<open>mydis/util.go\<close>), the goroutines that serve, the registration of the gateway
  (\<open>RegisterMydisHandlerFromEndpoint\<close> of \<open>pb/mydis.pb.gw.go\<close>), and \<open>Close\<close>
  (\<open>mydis/server.go\<close>).
\<close>

section \<open>Configurations as YAML\<close>

text \<open>The YAML library and etcd's validation are parameters; an error is its text.\<close>

record 'c yaml =
  yaml_Unmarshal :: "bytes \<Rightarrow> string + 'c"
  yaml_Marshal :: "'c \<Rightarrow> string + bytes"
  Validate :: "'c \<Rightarrow> string option"

definition ConfigFromYAML :: "'c yaml \<Rightarrow> bytes \<Rightarrow> 'c option \<times> string option" where
  "ConfigFromYAML Y b = (case yaml_Unmarshal Y b of
     Inl err \<Rightarrow> (None, Some err) | Inr config \<Rightarrow> (Some config, Validate Y config))"

definition ConfigToYAML :: "'c yaml \<Rightarrow> 'c \<Rightarrow> string + bytes" where
  "ConfigToYAML Y config = yaml_Marshal Y config"

definition CopyConfig :: "'c yaml \<Rightarrow> 'c \<Rightarrow> 'c option" where
  "CopyConfig Y config =
     (let b = (case ConfigToYAML Y config of Inl err \<Rightarrow> [] | Inr b \<Rightarrow> b) in fst (ConfigFromYAML Y b))"

lemma CopyConfig_copies:
  "yaml_Marshal Y config = Inr b \<Longrightarrow> yaml_Unmarshal Y b = Inr config \<Longrightarrow> CopyConfig Y config = Some config"
  by (simp add: CopyConfig_def ConfigToYAML_def ConfigFromYAML_def)

text \<open>Errors of either direction are dropped: a configuration that cannot be read back is copied to nil.\<close>

lemma CopyConfig_fails:
  "yaml_Marshal Y config = Inr b \<Longrightarrow> yaml_Unmarshal Y b = Inl err \<Longrightarrow> CopyConfig Y config = None"
  by (simp add: CopyConfig_def ConfigToYAML_def ConfigFromYAML_def)

section \<open>Credentials\<close>

text \<open>
  A gRPC endpoint is insecure or uses TLS with a configuration (\<open>credentials.NewTLS(nil)\<close>
  stands for the default one).  Both sides of a connection must agree on TLS; a client that
  does not skip the verification also has to verify the server, which is a parameter.
\<close>

datatype 'cert creds = Insecure | TLS "'cert tls_config option"

definition server_creds :: "('r, 'cert tls_config) server \<Rightarrow> 'cert creds" where
  "server_creds s = (case s_tc s of None \<Rightarrow> Insecure | Some tc \<Rightarrow> TLS (Some tc))"

definition gateway_creds :: "('r, 'cert tls_config) server \<Rightarrow> 'cert creds" where
  "gateway_creds s = TLS (s_tc s)"

definition client_creds :: "'cert tls_config option \<Rightarrow> 'cert creds" where
  "client_creds tls = (case tls of None \<Rightarrow> Insecure | Some t \<Rightarrow> TLS (Some t))"

definition skips_verify :: "'cert tls_config option \<Rightarrow> bool" where
  "skips_verify c = (case c of None \<Rightarrow> False | Some c \<Rightarrow> tls_InsecureSkipVerify c)"

fun handshake :: "('cert tls_config option \<Rightarrow> 'cert tls_config option \<Rightarrow> bool) \<Rightarrow> 'cert creds \<Rightarrow> 'cert creds \<Rightarrow> bool" where
  "handshake verified Insecure Insecure = True"
| "handshake verified (TLS c) (TLS s) = (skips_verify c \<or> verified c s)"
| "handshake verified _ _ = False"

section \<open>Serving\<close>

text \<open>
  The gateway dials the server; \<open>ctx_done\<close> is whether the context of the registration has
  ended.  The answer is the error and the connection, unless it has been closed.
\<close>

definition RegisterMydisHandlerFromEndpoint ::
    "(string \<Rightarrow> 'cert creds \<Rightarrow> string + 'conn) \<Rightarrow> string \<Rightarrow> 'cert creds \<Rightarrow> bool \<Rightarrow> string option \<times> 'conn option" where
  "RegisterMydisHandlerFromEndpoint dial endpoint opts ctx_done = (case dial endpoint opts of
     Inl err \<Rightarrow> (Some err, None)
   | Inr conn \<Rightarrow> (None, if ctx_done then None else Some conn))"

text \<open>\<open>Start\<close> registers with the background context, which never ends, and ignores the error.\<close>

definition register_gateway :: "(string \<Rightarrow> 'cert creds \<Rightarrow> string + 'conn) \<Rightarrow> string \<Rightarrow> ('r, 'cert tls_config) server \<Rightarrow> 'conn option" where
  "register_gateway dial http2 s = snd (RegisterMydisHandlerFromEndpoint dial http2 (gateway_creds s) False)"

text \<open>
  How the two serving goroutines end, by the error of \<open>Serve\<close>: the first calls \<open>err.Error()\<close>
  on whatever it got.
\<close>

datatype serve_end = Serve_Panics | Serve_Ends | Serve_Logs string

definition serve_grpc :: "string option \<Rightarrow> serve_end" where
  "serve_grpc err = (case err of
     None \<Rightarrow> Serve_Panics
   | Some msg \<Rightarrow> if HasSuffix msg ''use of closed network connection'' then Serve_Ends else Serve_Logs msg)"

definition serve_gateway :: "string option \<Rightarrow> serve_end" where
  "serve_gateway err = (case err of None \<Rightarrow> Serve_Ends | Some msg \<Rightarrow> Serve_Logs msg)"

text \<open>
  \<open>GracefulStop\<close> closes the listener it serves and waits for the calls in progress; then etcd
  is closed.  \<open>calls_end\<close> is whether all of them end (a client that watches holds one).  On a
  server that was not started both are nil pointers.  Neither pointer is cleared: a second call
  stops a gRPC server that is stopped, which returns at once, and then closes etcd again, whose
  answer is etcd's.  So for a server that has been started \<open>s_server\<close> stays, and \<open>s_cache\<close> says
  whether etcd runs.
\<close>

datatype 'server close_result = Close_Panics | Close_Waits 'server | Closed 'server | Closes_Etcd_Again 'server

definition Close :: "bool \<Rightarrow> ('r, 'tls) server \<Rightarrow> ('r, 'tls) server close_result" where
  "Close calls_end s = (if \<not> s_server s then Close_Panics
     else let stopped = s\<lparr>s_socket := None\<rparr> in
       if \<not> s_cache s then Closes_Etcd_Again stopped
       else if \<not> calls_end then Close_Waits stopped
       else Closed (stopped\<lparr>s_cache := False\<rparr>))"

text \<open>A first and a second \<open>Close\<close> of a server whose calls end.\<close>

lemma Close_twice:
  assumes "s_server s" and "s_cache s"
  shows "\<exists>s'. Close True s = Closed s' \<and> Close calls_end s' = Closes_Etcd_Again s'"
  using assms by (simp add: Close_def)

lemma Close_not_started: "Close calls_end (the (NewServer (Some config))) = Close_Panics"
  by (simp add: Close_def NewServer_def)

text \<open>A start that fails late leaves etcd running and the first address taken.\<close>

lemma failed_Start_leaves_etcd:
  assumes "m_StartEtcd M (s_config s) = None" and "m_Listen M http2 = None" and "m_Listen M http1 = Some err"
    and "generateTLSInfo M (s_config s) = Inr tc"
  shows "fst (Start M http1 http2 s) = Some err \<and> s_cache (snd (Start M http1 http2 s)) \<and>
    s_socket (snd (Start M http1 http2 s)) = Some http2"
  using assms by (simp add: Start_def applyTLS_def Let_def)

section \<open>Properties\<close>

lemma NewSelfCerts_skips: "NewSelfCerts K org = Inr tc \<Longrightarrow> tls_InsecureSkipVerify tc"
  by (auto simp: NewSelfCerts_def on_success_Inr Let_def)

lemma Start_tc:
  assumes "Start M http1 http2 s = (None, s')" and "m_NewSelfCerts M = NewSelfCerts K"
  shows "(s_tc s' = None \<longleftrightarrow> \<not> (Config_ClientAutoTLS (s_config s) \<and> Config_ClientTLSInfo_Empty (s_config s))) \<and>
    (\<forall>tc. s_tc s' = Some tc \<longrightarrow> tls_InsecureSkipVerify tc)"
  using assms NewSelfCerts_skips [of K]
  by (auto simp: Start_def applyTLS_def generateTLSInfo_def map_sum_def Let_def split: option.splits sum.splits prod.splits if_splits)

lemma NewClient_tls:
  assumes "NewClient N (NewClientConfig address) = Connected a tls r" and "n_NewSelfCerts N = NewSelfCerts K"
  shows "\<exists>t. tls = Some t \<and> tls_InsecureSkipVerify t"
  using assms NewSelfCerts_skips [of K]
  by (auto simp: NewClient_def NewClientConfig_def Let_def map_sum_def split: sum.splits option.splits if_splits)

text \<open>
  C31. Who can talk to a server that has started.  With the self-signed certificates of
  \<open>util.NewSelfCerts\<close> the server's own HTTP gateway and a client with the default
  configuration always can; a server whose configuration brings certificates of its own (or
  does without) serves in plain text, and then neither can: both insist on TLS.  \<open>Close\<close>
  stops etcd unless a call in progress does not end; the HTTP address stays in use in any
  case, so while addresses in use are refused no server starts on it again.
\<close>

theorem gateway_needs_self_certs:
  assumes "Start M http1 http2 s = (None, s')"
    and "m_NewSelfCerts M = NewSelfCerts K" and "n_NewSelfCerts N = NewSelfCerts K'"
    and "NewClient N (NewClientConfig http2) = Connected a tls r"
  shows "(handshake verified (gateway_creds s') (server_creds s') \<longleftrightarrow>
      Config_ClientAutoTLS (s_config s) \<and> Config_ClientTLSInfo_Empty (s_config s)) \<and>
    (handshake verified (client_creds tls) (server_creds s') \<longleftrightarrow>
      Config_ClientAutoTLS (s_config s) \<and> Config_ClientTLSInfo_Empty (s_config s)) \<and>
    (\<exists>s''. Close calls_end s' = (if calls_end then Closed s'' else Close_Waits s'') \<and>
      s_cache s'' = (\<not> calls_end) \<and> s_socket s'' = None \<and> s_gwsock s'' = Some http1 \<and>
      (\<forall>M' http2' t err. (\<forall>addr. s_gwsock s'' = Some addr \<longrightarrow> m_Listen M' addr = Some err) \<longrightarrow>
         fst (Start M' http1 http2' t) \<noteq> None))"
proof -
  from Start_tc [OF assms(1,2)] have tc: "s_tc s' = None \<longleftrightarrow> \<not> (Config_ClientAutoTLS (s_config s) \<and> Config_ClientTLSInfo_Empty (s_config s))"
    and skip: "\<And>tc. s_tc s' = Some tc \<Longrightarrow> tls_InsecureSkipVerify tc" by blast+
  from NewClient_tls [OF assms(4,3)] obtain t where t: "tls = Some t" "tls_InsecureSkipVerify t" by blast
  have 1: "handshake verified (gateway_creds s') (server_creds s') \<longleftrightarrow> s_tc s' \<noteq> None"
    using skip by (cases "s_tc s'") (simp_all add: gateway_creds_def server_creds_def skips_verify_def)
  have 2: "handshake verified (client_creds tls) (server_creds s') \<longleftrightarrow> s_tc s' \<noteq> None"
    using t by (cases "s_tc s'") (simp_all add: client_creds_def server_creds_def skips_verify_def)
  have up: "s_server s'" "s_cache s'" "s_gwsock s' = Some http1"
    using assms(1) by (auto simp: Start_def applyTLS_def Let_def split: option.splits sum.splits prod.splits)
  have again: "fst (Start M' http1 http2' t) \<noteq> None" if "m_Listen M' http1 = Some err" for M' http2' t err
    using that by (auto simp: Start_def applyTLS_def Let_def split: option.splits sum.splits prod.splits)
  show ?thesis using tc 1 2 up again by (cases calls_end) (auto simp: Close_def)
qed

text \<open>The witness: a server with certificates of its own, and a client with the default configuration.\<close>

definition demo_start_machine :: "(unit, bytes tls_config) machine" where
  "demo_start_machine = \<lparr>m_StartEtcd = (\<lambda>_. None), m_Listen = (\<lambda>_. None), m_NewSelfCerts = NewSelfCerts demo_cert_machine\<rparr>"

definition demo_network :: "bytes tls_config network" where
  "demo_network = \<lparr>n_NewSelfCerts = NewSelfCerts demo_cert_machine, n_Dial = (\<lambda>_ _ _. None)\<rparr>"

definition own_certs :: "(unit, bytes tls_config) server" where
  "own_certs = the (NewServer (Some (demo_config\<lparr>Config_ClientAutoTLS := True, Config_ClientTLSInfo_Empty := False\<rparr>)))"

theorem gateway_needs_self_certs_witness:
  "\<exists>s' a tls r s''. Start demo_start_machine ''a'' ''b'' own_certs = (None, s') \<and>
     NewClient demo_network (NewClientConfig ''b'') = Connected a tls r \<and>
     \<not> handshake (\<lambda>_ _. True) (gateway_creds s') (server_creds s') \<and>
     \<not> handshake (\<lambda>_ _. True) (client_creds tls) (server_creds s') \<and>
     Close True s' = Closed s'' \<and> s_gwsock s'' = Some ''a''"
proof -
  have tls: "\<not> (Config_ClientAutoTLS (s_config own_certs) \<and> Config_ClientTLSInfo_Empty (s_config own_certs))"
    by (simp add: own_certs_def NewServer_def)
  obtain s' where s: "Start demo_start_machine ''a'' ''b'' own_certs = (None, s')"
    using tls by (simp add: Start_def applyTLS_def generateTLSInfo_def demo_start_machine_def Let_def)
  have m: "m_NewSelfCerts demo_start_machine = NewSelfCerts demo_cert_machine"
    and n: "n_NewSelfCerts demo_network = NewSelfCerts demo_cert_machine"
    by (simp_all add: demo_start_machine_def demo_network_def)
  obtain a t r where c: "NewClient demo_network (NewClientConfig ''b'') = Connected a t r"
    by (simp add: NewClient_def NewClientConfig_def demo_network_def NewSelfCerts_def getAllInterfaceAddresses_def demo_cert_machine_def Let_def)
  from gateway_needs_self_certs [OF s m n c, of "\<lambda>_ _. True" True] s c tls show ?thesis by (simp only: if_True) blast
qed

end
