(* ===== verification/Client_Errors.thy ===== *)
theory Client_Errors
  imports Client Demo
begin

text \<open>
  Errors over the wire, operation by operation: the client's operations on values
  (\<open>client/client.go\<close>) bring a package error of the server back as the same error value, all
  but one of them.
\<close>

lemma known_not_other: "e \<in> snd ` set knownErrors \<Longrightarrow> e \<noteq> Other msg"
  by (auto simp: knownErrors_def)

lemma known_normalized:
  "runs P m (Err e) Q \<Longrightarrow> e \<in> snd ` set knownErrors \<Longrightarrow> runs P (normalized (rpc m)) (Err e) Q"
  using known_not_other by (auto intro: normalized_rpc_runs)

lemma known_normalized_then:
  "runs P m (Err e) Q \<Longrightarrow> e \<in> snd ` set knownErrors \<Longrightarrow> runs P (and_then (normalized (rpc m)) f) (Err e) Q"
  by (rule runs_and_then_Err) (rule known_normalized)

lemma known_value:
  "runs P m (Err e) Q \<Longrightarrow> e \<in> snd ` set knownErrors \<Longrightarrow> runs P (value_of m) (Ok (newValue_err e)) Q"
  using known_not_other by (auto intro: value_of_err)

lemma rpc_err: "runs P m (Err e) Q \<Longrightarrow> runs P (rpc m) (Err (Other (Error e))) Q"
  using rpc_runs [of P m "Err e" Q] by simp

lemmas client_operations =
  client_Keys_def client_KeysWithPrefix_def client_Has_def client_SetExpire_def client_Lock_def
  client_LockWithTimeout_def client_Unlock_def client_UnlockThenSet_def client_Delete_def
  client_Clear_def client_Get_def client_GetMany_def client_GetWithPrefix_def client_Set_def
  client_SetNX_def client_SetMany_def client_Length_def client_IncrementInt_def
  client_DecrementInt_def client_IncrementFloat_def client_DecrementFloat_def client_GetListItem_def
  client_SetListItem_def client_ListLength_def client_ListLimit_def client_ListInsert_def
  client_ListAppend_def client_ListPopLeft_def client_ListPopLeftBlock_def client_ListPopRight_def
  client_ListPopRightBlock_def client_ListHas_def client_ListDelete_def client_ListDeleteItem_def
  client_GetHashField_def client_GetHashFields_def client_HashHas_def client_HashLength_def
  client_HashFields_def client_HashValues_def client_SetHashField_def client_SetHashFields_def
  client_DelHashField_def

text \<open>
  C27. Errors keep their identity across the wire.  When the server's handler of an operation
  on values reports one of the package's errors, the client's operation reports the same
  error value although gRPC transmits only a text: as its error, or in the value it returns.
  \<open>SetHashField\<close> is the exception: it hands on an error that has the text and is not the
  package's value, so that comparing it with the package's value fails.
\<close>

theorem known_errors_survive_rpc:
  assumes "e \<in> snd ` set knownErrors" and "Value_Bytes (NewValue C v) = Inr b"
  shows "(runs P (Get E (newKey key)) (Err e) Q \<longrightarrow> runs P (client_Get E key) (Ok (newValue_err e)) Q) \<and>
    (runs P (GetListItem E C \<lparr>ListItem_Key = key, ListItem_Index = i, ListItem_Value = []\<rparr>) (Err e) Q \<longrightarrow> runs P (client_GetListItem E C key i) (Ok (newValue_err e)) Q) \<and>
    (runs P (ListPopLeft E C (client_ctx c) (newKey key)) (Err e) Q \<longrightarrow> runs P (client_ListPopLeft E C c key) (Ok (newValue_err e)) Q) \<and>
    (runs P (ListPopLeft E C (client_ctx c) ((newKey key)\<lparr>Key_Block := True, Key_BlockTimeout := i\<rparr>)) (Err e) Q \<longrightarrow> runs P (client_ListPopLeftBlock E C c key i) (Ok (newValue_err e)) Q) \<and>
    (runs P (ListPopRight E C (client_ctx c) (newKey key)) (Err e) Q \<longrightarrow> runs P (client_ListPopRight E C c key) (Ok (newValue_err e)) Q) \<and>
    (runs P (ListPopRight E C (client_ctx c) ((newKey key)\<lparr>Key_Block := True, Key_BlockTimeout := i\<rparr>)) (Err e) Q \<longrightarrow> runs P (client_ListPopRightBlock E C c key i) (Ok (newValue_err e)) Q) \<and>
    (runs P (GetHashField E C \<lparr>HashField_Key = key, HashField_Field = f, HashField_Value = []\<rparr>) (Err e) Q \<longrightarrow> runs P (client_GetHashField E C key f) (Ok (newValue_err e)) Q) \<and>
    (runs P (Keys E) (Err e) Q \<longrightarrow> runs P (client_Keys E) (Err e) Q) \<and>
    (runs P (KeysWithPrefix E (newKey pre)) (Err e) Q \<longrightarrow> runs P (client_KeysWithPrefix E pre) (Err e) Q) \<and>
    (runs P (Has E (newKey key)) (Err e) Q \<longrightarrow> runs P (client_Has E key) (Err e) Q) \<and>
    (runs P (SetExpire E \<lparr>Expiration_Key = key, Expiration_Exp = i\<rparr>) (Err e) Q \<longrightarrow> runs P (client_SetExpire E key i) (Err e) Q) \<and>
    (runs P (Lock E (client_ctx c) (newKey key)) (Err e) Q \<longrightarrow> runs P (client_Lock E c key) (Err e) Q) \<and>
    (runs P (LockWithTimeout E \<lparr>Expiration_Key = key, Expiration_Exp = i\<rparr>) (Err e) Q \<longrightarrow> runs P (client_LockWithTimeout E key i) (Err e) Q) \<and>
    (runs P (Unlock E (client_ctx c) (newKey key)) (Err e) Q \<longrightarrow> runs P (client_Unlock E c key) (Err e) Q) \<and>
    (runs P (UnlockThenSet E \<lparr>ByteValue_Key = key, ByteValue_Value = Value_RawBytes val\<rparr>) (Err e) Q \<longrightarrow> runs P (client_UnlockThenSet E key val) (Err e) Q) \<and>
    (runs P (Delete E (client_ctx c) (newKey key)) (Err e) Q \<longrightarrow> runs P (client_Delete E c key) (Err e) Q) \<and>
    (runs P (Clear E) (Err e) Q \<longrightarrow> runs P (client_Clear E) (Err e) Q) \<and>
    (runs P (GetMany E keys) (Err e) Q \<longrightarrow> runs P (client_GetMany E keys) (Err e) Q) \<and>
    (runs P (GetWithPrefix E (newKey pre)) (Err e) Q \<longrightarrow> runs P (client_GetWithPrefix E pre) (Err e) Q) \<and>
    (runs P (Set E (client_ctx c) \<lparr>ByteValue_Key = key, ByteValue_Value = b\<rparr>) (Err e) Q \<longrightarrow> runs P (client_Set E C c key v) (Err e) Q) \<and>
    (runs P (SetNX E (client_ctx c) \<lparr>ByteValue_Key = key, ByteValue_Value = b\<rparr>) (Err e) Q \<longrightarrow> runs P (client_SetNX E C c key v) (Err e) Q) \<and>
    (runs P (SetMany E (client_ctx c) (newHash (MapValueToMapBytes vals))) (Err e) Q \<longrightarrow> runs P (client_SetMany E c vals) (Err e) Q) \<and>
    (runs P (Length E (newKey key)) (Err e) Q \<longrightarrow> runs P (client_Length E key) (Err e) Q) \<and>
    (runs P (IncrementInt E C (client_ctx c) \<lparr>IntValue_Key = key, IntValue_Value = i\<rparr>) (Err e) Q \<longrightarrow> runs P (client_IncrementInt E C c key i) (Err e) Q) \<and>
    (runs P (DecrementInt E C (client_ctx c) \<lparr>IntValue_Key = key, IntValue_Value = i\<rparr>) (Err e) Q \<longrightarrow> runs P (client_DecrementInt E C c key i) (Err e) Q) \<and>
    (runs P (IncrementFloat E C (client_ctx c) \<lparr>FloatValue_Key = key, FloatValue_Value = x\<rparr>) (Err e) Q \<longrightarrow> runs P (client_IncrementFloat E C c key x) (Err e) Q) \<and>
    (runs P (DecrementFloat E C (client_ctx c) \<lparr>FloatValue_Key = key, FloatValue_Value = x\<rparr>) (Err e) Q \<longrightarrow> runs P (client_DecrementFloat E C c key x) (Err e) Q) \<and>
    (runs P (SetListItem E C (client_ctx c) \<lparr>ListItem_Key = key, ListItem_Index = i, ListItem_Value = b\<rparr>) (Err e) Q \<longrightarrow> runs P (client_SetListItem E C c key i v) (Err e) Q) \<and>
    (runs P (ListLength E C (newKey key)) (Err e) Q \<longrightarrow> runs P (client_ListLength E C key) (Err e) Q) \<and>
    (runs P (ListLimit E C (client_ctx c) \<lparr>ListItem_Key = key, ListItem_Index = i, ListItem_Value = []\<rparr>) (Err e) Q \<longrightarrow> runs P (client_ListLimit E C c key i) (Err e) Q) \<and>
    (runs P (ListInsert E C (client_ctx c) \<lparr>ListItem_Key = key, ListItem_Index = i, ListItem_Value = b\<rparr>) (Err e) Q \<longrightarrow> runs P (client_ListInsert E C c key i v) (Err e) Q) \<and>
    (runs P (ListAppend E C (client_ctx c) \<lparr>ListItem_Key = key, ListItem_Index = 0, ListItem_Value = b\<rparr>) (Err e) Q \<longrightarrow> runs P (client_ListAppend E C c key v) (Err e) Q) \<and>
    (runs P (ListHas E C \<lparr>ListItem_Key = key, ListItem_Index = 0, ListItem_Value = b\<rparr>) (Err e) Q \<longrightarrow> runs P (client_ListHas E C key v) (Err e) Q) \<and>
    (runs P (ListDelete E C (client_ctx c) \<lparr>ListItem_Key = key, ListItem_Index = i, ListItem_Value = []\<rparr>) (Err e) Q \<longrightarrow> runs P (client_ListDelete E C c key i) (Err e) Q) \<and>
    (runs P (ListDeleteItem E C (client_ctx c) \<lparr>ListItem_Key = key, ListItem_Index = 0, ListItem_Value = b\<rparr>) (Err e) Q \<longrightarrow> runs P (client_ListDeleteItem E C c key v) (Err e) Q) \<and>
    (runs P (GetHashFields E C \<lparr>HashFieldSet_Key = key, HashFieldSet_Field = fs, HashFieldSet_Value = []\<rparr>) (Err e) Q \<longrightarrow> runs P (client_GetHashFields E C key fs) (Err e) Q) \<and>
    (runs P (HashHas E C \<lparr>HashField_Key = key, HashField_Field = f, HashField_Value = []\<rparr>) (Err e) Q \<longrightarrow> runs P (client_HashHas E C key f) (Err e) Q) \<and>
    (runs P (HashLength E C (newKey key)) (Err e) Q \<longrightarrow> runs P (client_HashLength E C key) (Err e) Q) \<and>
    (runs P (HashFields E C (newKey key)) (Err e) Q \<longrightarrow> runs P (client_HashFields E C key) (Err e) Q) \<and>
    (runs P (HashValues E C (newKey key)) (Err e) Q \<longrightarrow> runs P (client_HashValues E C key) (Err e) Q) \<and>
    (runs P (SetHashFields E C (client_ctx c) \<lparr>Hash_Key = key, Hash_Value = MapValueToMapBytes vals\<rparr>) (Err e) Q \<longrightarrow> runs P (client_SetHashFields E C c key vals) (Err e) Q) \<and>
    (runs P (DelHashField E C (client_ctx c) \<lparr>HashField_Key = key, HashField_Field = f, HashField_Value = []\<rparr>) (Err e) Q \<longrightarrow> runs P (client_DelHashField E C c key f) (Err e) Q) \<and>
    (runs P (SetHashField E C (client_ctx c) \<lparr>HashField_Key = key, HashField_Field = f, HashField_Value = b\<rparr>) (Err e) Q \<longrightarrow>
      runs P (client_SetHashField E C c key f v) (Err (Other (Error e))) Q \<and> Other (Error e) \<noteq> e)"
  using assms known_not_other [OF assms(1), of "Error e", THEN not_sym]
  by (intro conjI impI) (simp_all add: client_operations known_normalized known_normalized_then known_value rpc_err)

theorem known_errors_survive_rpc_witness:
  "\<exists>w. client_Get quiet_etcd ''k'' (mem_world []) = (Ok (newValue_err ErrKeyNotFound), w)"
proof -
  have get: "runs (stores quiet_etcd map_of UNIV (map_of [])) (Get quiet_etcd (newKey ''k'')) (Err ErrKeyNotFound)
      (stores quiet_etcd map_of UNIV (map_of []))"
    using Get_runs [of "newKey ''k''" UNIV "map_of []" quiet_etcd map_of] by simp
  have known: "ErrKeyNotFound \<in> snd ` set knownErrors" by (simp add: knownErrors_def)
  have b: "Value_Bytes (NewValue memory_codec (AnyBool True)) = Inr [1]" by (simp add: Value_Bytes_def bool_bytes_def)
  from known_errors_survive_rpc [THEN conjunct1, OF known b, THEN mp, OF get]
  have "runs (stores quiet_etcd map_of UNIV (map_of [])) (client_Get quiet_etcd ''k'')
      (Ok (newValue_err ErrKeyNotFound)) (stores quiet_etcd map_of UNIV (map_of []))" .
  then show ?thesis using demo_run by blast
qed

end
