(* ===== verification/Client_Closing.thy ===== *)
theory Client_Closing
  imports Client_Process
begin

text \<open>
  When a call of \<open>Close\<close> (\<open>client/client.go\<close>) returns, in the step relation of the whole client:
  with the lock, the readers of the event channels and the rewatching goroutines, which
  \<open>Client_Close\<close> leaves out.
\<close>

section \<open>Who waits for an answer\<close>

fun is_waiting :: "rewatcher \<Rightarrow> bool" where
  "is_waiting (Rw_Wait ks) = True"
| "is_waiting _ = False"

fun answers :: "client_goroutine \<Rightarrow> nat" where
  "answers (P_Answer _ _) = 1"
| "answers _ = 0"

text \<open>The sender answers one request at a time, to the only one who waits; a crash comes after its end.\<close>

definition closing_inv :: "client_proc \<Rightarrow> bool" where
  "closing_inv s \<longleftrightarrow> cp_asked s + size (filter_mset is_waiting (cp_rewatchers s)) = answers (cp_process s) \<and>
     (cp_crash s \<noteq> No_Crash \<longrightarrow> cp_process s \<in> {P_Exit, P_Gone})"

lemma closing_inv_step:
  assumes "client_step s s'" and "closing_inv s"
  shows "closing_inv s'"
proof -
  have "client_live s s'" and "cp_crash s = No_Crash" using assms(1) by (simp_all add: client_step_def)
  then show ?thesis using assms(2)
    by (cases rule: client_live.cases) (auto simp: closing_inv_def take_request_def answered_def)
qed

lemma closing_inv_new: "closing_inv new_client"
  by (simp add: closing_inv_def new_client_def)

lemma closing_inv_steps: "client_steps s s' \<Longrightarrow> closing_inv s \<Longrightarrow> closing_inv s'"
  by (induction rule: rtranclp_induct) (auto intro: closing_inv_step)

lemma nobody_waits: "filter_mset P M = {#} \<Longrightarrow> x \<in># M \<Longrightarrow> \<not> P x"
  by (induction M) (auto split: if_splits)

section \<open>Runs in which it does not return\<close>

text \<open>
  The sender has a request to record while a rewatching goroutine holds the read lock and has
  keys left for the sender: neither can go on.
\<close>

definition has_keys :: "rewatcher \<Rightarrow> bool" where
  "has_keys x \<longleftrightarrow> needs_sender x \<and> x \<noteq> Rw_Wait []"

definition sender_jammed :: "client_proc \<Rightarrow> bool" where
  "sender_jammed s \<longleftrightarrow> (\<exists>r. cp_process s = P_Answer r True \<or> cp_process s = P_Record r) \<and>
     (\<exists>x\<in>#cp_rewatchers s. has_keys x)"

lemma has_keys_simps [simp]:
  "has_keys (Rw_Send (k # ks))" "\<not> has_keys (Rw_Send [])" "\<not> has_keys Rw_Start" "has_keys (Rw_Wait ks) \<longleftrightarrow> ks \<noteq> []"
  by (simp_all add: has_keys_def)

lemma has_keys_sent: "ks \<noteq> [] \<Longrightarrow> has_keys (Rw_Send ks)"
  by (cases ks) simp_all

lemma sender_jammed_locked: "sender_jammed s \<Longrightarrow> read_locked s"
  unfolding sender_jammed_def read_locked_def has_keys_def by (blast dest: needs_sender_reads)

lemma sender_jammed_step:
  assumes "client_step s s'" and "sender_jammed s"
  shows "sender_jammed s'"
proof -
  have "client_live s s'" using assms(1) by (simp add: client_step_def)
  then show ?thesis using assms(2) sender_jammed_locked [OF assms(2)]
    by (cases rule: client_live.cases)
      (auto simp: sender_jammed_def take_request_def answered_def has_keys_sent)
qed

lemma sender_jammed_close:
  assumes "client_step s s'" and "sender_jammed s" and "cp_close s \<noteq> C_Returned"
  shows "cp_close s' \<noteq> C_Returned"
proof -
  have "client_live s s'" using assms(1) by (simp add: client_step_def)
  then show ?thesis using assms(2,3)
    by (cases rule: client_live.cases) (auto simp: sender_jammed_def take_request_def)
qed

lemma sender_jammed_steps:
  assumes "client_steps s s'" and "sender_jammed s" and "cp_close s \<noteq> C_Returned"
  shows "sender_jammed s' \<and> cp_close s' \<noteq> C_Returned"
  using assms(1)
  by (induction rule: rtranclp_induct) (use assms(2,3) sender_jammed_step sender_jammed_close in blast)+

text \<open>The process has left its loop, or leaves it when it has answered, while \<open>Close\<close> waits for it.\<close>

definition sender_leaves :: "client_proc \<Rightarrow> bool" where
  "sender_leaves s \<longleftrightarrow> cp_closing s \<and> cp_close s = C_Send \<and>
     (cp_process s = P_Exit \<or> cp_process s = P_Gone \<or> (\<exists>r. cp_process s = P_Answer r False))"

lemma sender_leaves_step:
  assumes "client_step s s'" and "sender_leaves s"
  shows "sender_leaves s'"
proof -
  have "client_live s s'" using assms(1) by (simp add: client_step_def)
  then show ?thesis using assms(2)
    by (cases rule: client_live.cases) (auto simp: sender_leaves_def take_request_def answered_def)
qed

lemma sender_leaves_steps: "client_steps s s' \<Longrightarrow> sender_leaves s \<Longrightarrow> sender_leaves s'"
  by (induction rule: rtranclp_induct) (auto intro: sender_leaves_step)

section \<open>Runs in which it returns\<close>

lemma client_stepI: "cp_crash s = No_Crash \<Longrightarrow> client_live s s' \<Longrightarrow> client_step s s'"
  by (simp add: client_step_def)

lemma select_returns:
  assumes "cp_crash s = No_Crash" and "cp_process s = P_Select" and "cp_close s = C_Send"
  shows "\<exists>s'. client_steps s s' \<and> cp_close s' = C_Returned"
  using client_stepI [OF assms(1) client_live.Take_Closer [OF assms(2,3)]]
  by (intro exI [where x = "s\<lparr>cp_process := P_Exit, cp_close := C_Returned\<rparr>"]) auto

text \<open>What stays while the readers finish.\<close>

definition same_call :: "client_proc \<Rightarrow> client_proc \<Rightarrow> bool" where
  "same_call s s' \<longleftrightarrow> cp_process s' = cp_process s \<and> cp_close s' = cp_close s \<and> cp_crash s' = cp_crash s"

lemma make_room:
  assumes "cp_crash s = No_Crash"
  shows "\<exists>s'. client_steps s s' \<and> same_call s s' \<and> cp_rewatchers s' = cp_rewatchers s \<and> cp_receivers s' = cp_receivers s \<and>
    length (cp_buffer s' ch) < channel_capacity"
  using assms
proof (induction "length (cp_buffer s ch)" arbitrary: s)
  case 0
  then show ?case by (intro exI [where x = s]) (simp add: same_call_def channel_capacity_def)
next
  case (Suc n)
  then obtain ev evs where buf: "cp_buffer s ch = ev # evs" by (cases "cp_buffer s ch") auto
  let ?t = "s\<lparr>cp_buffer := (cp_buffer s)(ch := evs), cp_read := (cp_read s)(ch := cp_read s ch @ [ev])\<rparr>"
  have step: "client_step s ?t" using client_stepI [OF Suc(3) client_live.Consume [OF buf]] .
  have "n = length (cp_buffer ?t ch)" "cp_crash ?t = No_Crash" using Suc(2,3) buf by simp_all
  from Suc(1) [OF this] obtain s' where s': "client_steps ?t s'" "same_call ?t s'" "cp_rewatchers s' = cp_rewatchers ?t"
      "cp_receivers s' = cp_receivers ?t" "length (cp_buffer s' ch) < channel_capacity" by blast
  from converse_rtranclp_into_rtranclp [of client_step, OF step s'(1)] s'(2-5)
  show ?case by (intro exI [where x = s']) (simp add: same_call_def)
qed

text \<open>How much the readers still have to do.\<close>

fun reader_left :: "receiver_state \<Rightarrow> nat" where
  "reader_left (R_Deliver ev chs) = Suc (length chs)"
| "reader_left _ = 0"

definition readers_left :: "client_proc \<Rightarrow> nat" where
  "readers_left s = size (filter_mset rewatcher_reads (cp_rewatchers s)) + (\<Sum>x\<in>#cp_receivers s. reader_left x)"

lemma reader_moves:
  assumes "cp_crash s = No_Crash" and "\<forall>x\<in>#cp_rewatchers s. \<not> needs_sender x" and "read_locked s"
  shows "\<exists>s'. client_steps s s' \<and> same_call s s' \<and> (\<forall>x\<in>#cp_rewatchers s'. \<not> needs_sender x) \<and> readers_left s' < readers_left s"
proof -
  from assms(3) consider (rewatcher) x where "x \<in># cp_rewatchers s" "rewatcher_reads x"
    | (receiver) x where "x \<in># cp_receivers s" "receiver_reads x" unfolding read_locked_def by blast
  then show ?thesis
  proof cases
    case rewatcher
    moreover have "\<not> needs_sender x" using assms(2) rewatcher(1) by blast
    ultimately have "x = Rw_Send []" by (cases x rule: needs_sender.cases) simp_all
    then obtain xs where xs: "cp_rewatchers s = add_mset (Rw_Send []) xs" using rewatcher(1) by (metis mset_add)
    then have "client_step s (s\<lparr>cp_rewatchers := xs\<rparr>)" by (intro client_stepI assms(1) client_live.Rewatch_RUnlock)
    then show ?thesis using assms(2) xs
      by (intro exI [where x = "s\<lparr>cp_rewatchers := xs\<rparr>"]) (auto simp: same_call_def readers_left_def)
  next
    case receiver
    then obtain ev chs where "R_Deliver ev chs \<in># cp_receivers s" by (cases x) auto
    then obtain xs where xs: "cp_receivers s = add_mset (R_Deliver ev chs) xs" by (metis mset_add)
    show ?thesis
    proof (cases chs)
      case Nil
      let ?t = "s\<lparr>cp_receivers := add_mset R_Recv xs\<rparr>"
      have "client_step s ?t" using xs Nil by (intro client_stepI assms(1) client_live.Receiver_RUnlock) simp
      then show ?thesis using assms(2) xs Nil by (intro exI [where x = ?t]) (auto simp: same_call_def readers_left_def)
    next
      case (Cons ch rest)
      from make_room [OF assms(1), of ch] obtain t where t: "client_steps s t" "same_call s t" "cp_rewatchers t = cp_rewatchers s"
          "cp_receivers t = cp_receivers s" "length (cp_buffer t ch) < channel_capacity" by blast
      let ?t = "t\<lparr>cp_receivers := add_mset (R_Deliver ev rest) xs, cp_buffer := (cp_buffer t)(ch := cp_buffer t ch @ [ev])\<rparr>"
      have "client_step t ?t" using t(2,4,5) xs Cons assms(1)
        by (intro client_stepI client_live.Deliver [where chs = rest]) (simp_all add: same_call_def)
      with t(1) have "client_steps s ?t" by (rule rtranclp.rtrancl_into_rtrancl)
      then show ?thesis using assms(2) t(2,3) xs Cons by (intro exI [where x = ?t]) (auto simp: same_call_def readers_left_def)
    qed
  qed
qed

lemma readers_finish:
  assumes "cp_crash s = No_Crash" and "\<forall>x\<in>#cp_rewatchers s. \<not> needs_sender x"
  shows "\<exists>s'. client_steps s s' \<and> same_call s s' \<and> \<not> read_locked s'"
  using assms
proof (induction "readers_left s" arbitrary: s rule: less_induct)
  case less
  show ?case
  proof (cases "read_locked s")
    case True
    from reader_moves [OF less(2,3) this] obtain t where t: "client_steps s t" "same_call s t"
        "\<forall>x\<in>#cp_rewatchers t. \<not> needs_sender x" "readers_left t < readers_left s" by blast
    have "cp_crash t = No_Crash" using t(2) less(2) by (simp add: same_call_def)
    from less(1) [OF t(4) this t(3)] t(1,2) show ?thesis by (auto simp: same_call_def intro: rtranclp_trans)
  qed (auto simp: same_call_def)
qed

lemma record_returns:
  assumes "cp_crash s = No_Crash" and "cp_process s = P_Record r" and "\<forall>x\<in>#cp_rewatchers s. \<not> needs_sender x" and "cp_close s = C_Send"
  shows "\<exists>s'. client_steps s s' \<and> cp_close s' = C_Returned"
proof -
  from readers_finish [OF assms(1,3)] obtain t where t: "client_steps s t" "same_call s t" "\<not> read_locked t" by blast
  let ?t = "t\<lparr>cp_process := P_Select, cp_watching := recorded r (cp_watching t)\<rparr>"
  have "client_step t ?t" using t(2,3) assms(1,2) by (intro client_stepI client_live.Record) (simp_all add: same_call_def)
  with t(1) have run: "client_steps s ?t" by (rule rtranclp.rtrancl_into_rtrancl)
  have "\<exists>s'. client_steps ?t s' \<and> cp_close s' = C_Returned"
    using t(2) assms(1,4) by (intro select_returns) (simp_all add: same_call_def)
  with run show ?thesis by (blast intro: rtranclp_trans)
qed

lemma answer_returns:
  assumes "cp_crash s = No_Crash" and "cp_process s = P_Answer r True" and "closing_inv s"
    and "\<forall>x\<in>#cp_rewatchers s. \<not> has_keys x" and "cp_close s = C_Send"
  shows "\<exists>s'. client_steps s s' \<and> cp_close s' = C_Returned"
proof -
  have one: "cp_asked s + size (filter_mset is_waiting (cp_rewatchers s)) = 1" using assms(2,3) by (simp add: closing_inv_def)
  have "\<exists>t. client_step s t \<and> cp_process t = P_Record r \<and> (\<forall>x\<in>#cp_rewatchers t. \<not> needs_sender x) \<and> cp_close t = C_Send \<and> cp_crash t = No_Crash"
  proof (cases "cp_asked s")
    case (Suc n)
    have "\<not> needs_sender x" if "x \<in># cp_rewatchers s" for x
    proof -
      have "\<not> is_waiting x" using one Suc nobody_waits [OF _ that, of is_waiting] by simp
      then show ?thesis using assms(4) that by (auto simp: has_keys_def)
    qed
    then show ?thesis using client_stepI [OF assms(1) client_live.Answer_Request [OF assms(2) Suc]] assms(1,5)
      by (intro exI [where x = "s\<lparr>cp_process := answered r True, cp_asked := n\<rparr>"]) (simp add: answered_def)
  next
    case 0
    with one have "size (filter_mset is_waiting (cp_rewatchers s)) = 1" by simp
    from size_1_singleton_mset [OF this] obtain x where single: "filter_mset is_waiting (cp_rewatchers s) = {#x#}" by blast
    have "x \<in># filter_mset is_waiting (cp_rewatchers s)" unfolding single by simp
    then have x: "x \<in># cp_rewatchers s" "is_waiting x" by simp_all
    have "x = Rw_Wait []" using x assms(4) by (cases x rule: is_waiting.cases) auto
    then obtain xs where xs: "cp_rewatchers s = add_mset (Rw_Wait []) xs" using x(1) by (metis mset_add)
    have "filter_mset is_waiting xs = {#}" using single by (simp add: xs)
    then have "\<not> needs_sender y" if "y \<in># xs" for y using nobody_waits [OF _ that] that assms(4)
      by (simp add: xs) (metis has_keys_def is_waiting.simps(1))
    then show ?thesis using client_stepI [OF assms(1) client_live.Answer_Rewatch [OF assms(2) xs]] assms(1,5)
      by (intro exI [where x = "s\<lparr>cp_process := answered r True, cp_rewatchers := add_mset (Rw_Send []) xs\<rparr>"])
        (simp add: answered_def)
  qed
  then obtain t where t: "client_step s t" "cp_process t = P_Record r" "\<forall>x\<in>#cp_rewatchers t. \<not> needs_sender x"
    "cp_close t = C_Send" "cp_crash t = No_Crash" by blast
  from record_returns [OF t(5,2,3,4)] t(1) show ?thesis by (blast intro: converse_rtranclp_into_rtranclp)
qed

lemma open_returns:
  assumes "cp_crash s = No_Crash" and "cp_process s = P_Open" and "cp_close s = C_Send"
  shows "\<exists>s'. client_steps s s' \<and> cp_close s' = C_Returned"
proof -
  let ?t = "s\<lparr>cp_process := P_Select, cp_stream := True,
      cp_receivers := add_mset R_Recv (cp_receivers s), cp_rewatchers := add_mset Rw_Start (cp_rewatchers s)\<rparr>"
  have "client_step s ?t" by (rule client_stepI [OF assms(1) client_live.Open_Stream [OF assms(2)]])
  moreover have "\<exists>s'. client_steps ?t s' \<and> cp_close s' = C_Returned" using assms by (intro select_returns) simp_all
  ultimately show ?thesis by (blast intro: converse_rtranclp_into_rtranclp)
qed

section \<open>Properties\<close>

text \<open>
  C40. When \<open>Close\<close> returns, with everything that runs in the client.  A call that has set the
  flag and waits for the background process can return exactly when the process opens a stream,
  or is in its \<open>select\<close>, or has a request to answer or to record that was sent and no
  rewatching goroutine is left with keys for it (to record it the process needs the lock, so the
  event channels have to be read until it has it).  Otherwise no run gets it to return: the
  process has left its loop, or is about to after a failed \<open>Send\<close>, or waits for the write lock
  while a rewatching goroutine holds the read lock and waits for the process.  When \<open>Close\<close> has
  returned, the process no longer serves.
\<close>

theorem Close_returns_when_served:
  assumes "client_steps new_client s" and "cp_close s = C_Send"
  shows "((\<exists>s'. client_steps s s' \<and> cp_close s' = C_Returned) \<longleftrightarrow>
      cp_process s = P_Open \<or> cp_process s = P_Select \<or>
      (\<exists>r. cp_process s = P_Answer r True \<or> cp_process s = P_Record r) \<and>
        (\<forall>x\<in>#cp_rewatchers s. \<not> (\<exists>k ks. x = Rw_Send (k # ks) \<or> x = Rw_Wait (k # ks)))) \<and>
    (\<forall>s'. client_steps s s' \<and> cp_close s' = C_Returned \<longrightarrow> cp_process s' = P_Exit \<or> cp_process s' = P_Gone)"
proof -
  have inv: "closing_inv s" using closing_inv_steps [OF assms(1) closing_inv_new] .
  have conn: "conn_inv (conn_of t)" if "client_steps s t" for t
    using conn_inv_steps [OF conn_of_steps [OF rtranclp_trans [OF assms(1) that]]] by (simp add: conn_of_new conn_inv_dialled)
  have keys: "has_keys x \<longleftrightarrow> (\<exists>k ks. x = Rw_Send (k # ks) \<or> x = Rw_Wait (k # ks))" for x
    by (cases x rule: needs_sender.cases) (auto simp: neq_Nil_conv)
  have gone: "cp_process s' = P_Exit \<or> cp_process s' = P_Gone" if "client_steps s s' \<and> cp_close s' = C_Returned" for s'
    using conn [of s'] that by (cases "cp_process s'") (auto simp: conn_inv_def conn_of_def)
  have closing: "cp_closing s" using conn [of s] assms(2) by (simp add: conn_inv_def conn_of_def)
  have left: "False" if "client_steps s s'" "cp_close s' = C_Returned" "sender_leaves s" for s'
    using sender_leaves_steps [OF that(1,3)] that(2) by (simp add: sender_leaves_def)
  have jammed: "False" if "client_steps s s'" "cp_close s' = C_Returned" "sender_jammed s" for s'
    using sender_jammed_steps [OF that(1,3)] that(2) assms(2) by simp
  have idle: "\<not> needs_sender x" if "cp_process s = P_Record r" "\<forall>x\<in>#cp_rewatchers s. \<not> has_keys x" "x \<in># cp_rewatchers s" for r x
  proof -
    have "filter_mset is_waiting (cp_rewatchers s) = {#}" using inv that(1) by (simp add: closing_inv_def)
    from nobody_waits [OF this that(3)] that(2,3) show ?thesis by (metis has_keys_def is_waiting.simps(1))
  qed
  have "(\<exists>s'. client_steps s s' \<and> cp_close s' = C_Returned) \<longleftrightarrow> cp_process s = P_Open \<or> cp_process s = P_Select \<or>
      (\<exists>r. cp_process s = P_Answer r True \<or> cp_process s = P_Record r) \<and> (\<forall>x\<in>#cp_rewatchers s. \<not> has_keys x)" (is "?l \<longleftrightarrow> ?r")
  proof
    assume ?l
    then show ?r using left jammed closing assms(2)
      by (cases "cp_process s") (auto simp: sender_leaves_def sender_jammed_def)
  next
    assume r: ?r
    then have "cp_crash s = No_Crash" using inv by (auto simp: closing_inv_def)
    with r show ?l using open_returns select_returns answer_returns record_returns inv idle assms(2) by metis
  qed
  with gone show ?thesis by (simp only: keys) blast
qed

text \<open>The witness: \<open>Close\<close> is called while the process serves its first stream.\<close>

theorem Close_returns_when_served_witness:
  "\<exists>s. client_steps new_client s \<and> cp_close s = C_Send \<and> cp_process s = P_Select \<and> (\<exists>s'. client_steps s s' \<and> cp_close s' = C_Returned)"
proof -
  let ?b = "demo_client\<lparr>cp_close := C_Lock\<rparr>"
  let ?c = "demo_client\<lparr>cp_closing := True, cp_close := C_Send\<rparr>"
  have "client_live demo_client ?b" using client_live.Call_Close [of demo_client] by (simp add: demo_client_def new_client_def)
  moreover have "client_live ?b ?c" using client_live.Close_Locked [of ?b]
    by (simp add: demo_client_def new_client_def read_locked_def)
  ultimately have "client_step demo_client ?b" "client_step ?b ?c" by (simp_all add: client_step_def demo_client_def new_client_def)
  then have run: "client_steps new_client ?c"
    using demo_client_step by (meson rtranclp.rtrancl_into_rtrancl rtranclp.rtrancl_refl)
  have c: "cp_close ?c = C_Send" "cp_process ?c = P_Select" by (simp_all add: demo_client_def)
  from Close_returns_when_served [OF run c(1)] c run show ?thesis by blast
qed

end
