(* ===== verification/Spec2Isabelle.thy ===== *)
theory Spec2Isabelle
  imports Lock_Spec Bytes_Spec Numbers_Spec Lists_Spec Hashes_Spec Lock_Protocol Returns Client_Util
    Cli_Main Server_Main Gateway_Spec Gateway_Watch Watch_End
    Abandoned_Locks Waiting_Pop Role_Commands Remote_Calls Websocket_Session Server_Life
    Client_Errors Client_Closing
begin

text \<open>
  Mydis is a cache server: keys hold byte values, numbers, lists and hashes, clients lock
  keys, watch them, and use the server over gRPC.  The server keeps everything in an
  embedded etcd; each value is one key of etcd, lists and hashes are protobuf messages.

  The parts of the program and the theories that model them:

  \<^item> \<open>Prelude\<close>: the results of a Go call (a value, an error, a panic, a loop that does not
    end), computations over a state, and triples about them.
  \<^item> \<open>Go_Util\<close> (\<open>util/util.go\<close>, \<open>util/errors.go\<close>): strings as bytes, the error values, Go maps
    as association lists or nil.  \<open>Messages\<close> (\<open>pb/mydis.pb.go\<close>): the messages as records; the
    protobuf codec is a parameter, \<open>proto_ok\<close> states what its documentation promises.
  \<^item> \<open>Etcd\<close>, \<open>Etcd_Rules\<close>: etcd is a parameter too, a record of its calls over an unknown
    state.  \<open>etcd_kv\<close> states the documented effect of each call on the key space; \<open>others\<close> is
    what other clients do before each call; \<open>stores E kv K m w\<close> says that etcd holds the map \<open>m\<close>
    on keys \<open>K\<close>, which the others leave alone.  Time is a clock that calls and sleeps move on.
    \<open>Etcd_Memory\<close> and \<open>Memory_Codec\<close> are an etcd and a codec that satisfy the hypotheses,
    \<open>Demo\<close> the setting of the witnesses.
  \<^item> \<open>Naming\<close> (\<open>mydis/util.go\<close>): names of locks, prefix ranges, permissions,
    list limits.
  \<^item> \<open>Server_Lock\<close>, \<open>Lock_Rules\<close> (\<open>mydis/type_lock.go\<close>): the polling transaction shared by
    \<open>LockWithTimeout\<close>, \<open>Set\<close> and \<open>Delete\<close>, as a partial function so that waiting for ever is a
    result; \<open>Server_Keys\<close> (\<open>mydis/type_keys.go\<close>); \<open>Blocking\<close>, the waiting loop of \<open>Get\<close> and
    of the pops; \<open>Server_Bytes\<close>, \<open>Server_Ints\<close>, \<open>Server_Floats\<close> (on \<open>Float64\<close>), \<open>Server_Lists\<close>,
    \<open>Server_Hashes\<close> (\<open>mydis/type_*.go\<close>): every operation on values, from \<open>Lock\<close> to the write
    that releases the lock.
  \<^item> \<open>Store_Interface\<close>: the contract between these operations and the store as locales
    (\<open>locked_store\<close>, and \<open>typed_store\<close> for a decoding view).  \<open>Server_Bytes\<close> interprets the first
    on the server's own \<open>Lock\<close>, \<open>Unlock\<close>, \<open>Get\<close> and \<open>UnlockThenSet\<close>; the typed theories
    interpret the second on \<open>GetInt\<close>, \<open>GetFloat\<close>, \<open>GetList\<close> and \<open>GetHash\<close>, and their
    read-modify-write operations are instances of its \<open>update_...\<close> lemmas.
  \<^item> \<open>Server\<close>: a request of the service as a datatype and what serving it does.
    \<open>Returns\<close>: which requests always return.
  \<^item> \<open>Updates\<close>: every in-place operation on numbers, lists and hashes in one form, lock, read,
    decide, conclude, with its decision as a function without effects.  \<open>Update_Steps\<close>: what a
    request on a key does to the key space, one call of etcd at a time, while others use it
    and calls fail; the handlers take exactly these steps.  \<open>Serial\<close>: any number of such
    requests interleaved, and the order in which they act.  \<open>Concurrent_Lists\<close>: the list
    operations among them, their types, and the list as a queue.  \<open>Concurrent_Hashes\<close>: the hash
    operations among them, and the hash as a map the clients share.  The requests of these
    theories are the ones that take the lock, write under it or just read: updates, \<open>Set\<close>,
    \<open>SetInt\<close> and the like, \<open>Delete\<close>, and reads.  \<open>Unlock\<close>, \<open>UnlockThenSet\<close>, \<open>SetExpire\<close> and \<open>Clear\<close>,
    with which a client can break into the update of another, are not among them;
    \<open>Lock_Protocol\<close> and \<open>Held_Locks\<close> are about them.  \<open>Held_Locks\<close>: which requests of the whole
    service leave a held lock and its value alone, and which do not.  \<open>Abandoned_Locks\<close>: what
    becomes of a key once a request has panicked or returned with its lock.
    \<open>Waiting_Pop\<close>: a pop that waits, while other clients change the list.
  \<^item> \<open>Concurrency\<close>: the three etcd calls of \<open>IncrementInt\<close> interleaved for any number of clients.
    \<open>Lock_Protocol\<close>: the locks seen as an abstract lock table that the transactions refine.
  \<^item> \<open>Watch\<close> (\<open>mydis/watch.go\<close>): a watcher as a state machine over requests and events, and
    the controller that numbers the watchers.  \<open>Watch_Session\<close>: the three goroutines of a call
    of \<open>Server.Watch\<close>, their channels and how they close, refining that state machine.
  \<^item> \<open>Auth\<close> (\<open>mydis/auth.go\<close>), over etcd's own authentication as a parameter.
    \<open>Permissions\<close>: which keys a permission reaches, etcd's check of a user's requests
    (\<open>enforces\<close>), and what such a user can do.  \<open>Role_Commands\<close>: the permissions of a role
    (\<open>keeps_roles\<close>) from the commands that grant, revoke and show them to etcd.
  \<^item> \<open>Values\<close> (\<open>util/value.go\<close>), \<open>Client\<close>, \<open>Client_State\<close> (\<open>client/client.go\<close>): the client's
    values, one definition per operation, the token, the event channels and recorded watches.
    \<open>Client_Process\<close>: everything that runs in a client as one step relation, the goroutines of
    each kind a multiset of their states, with the read-write lock, the channels, errors of
    the stream and closing; \<open>Client_Close\<close> keeps only the life of the connection and is refined
    by it; \<open>Client_Closing\<close>: when a call of \<open>Close\<close> returns.  \<open>Watch_End\<close> joins a client to the session that serves its stream.
    \<open>Client_Connect\<close>: the configuration, the resolver of its addresses and \<open>NewClient\<close>.
  \<^item> \<open>Remote_Calls\<close> (\<open>pb/mydis.pb.go\<close>): the client's stubs and the server's table of methods, between
    which gRPC and the wire are parameters; the client's model calls the operations directly.
  \<^item> \<open>Client_Util\<close> (\<open>client/util.go\<close>): the client's copies of the naming helpers, equal to the
    server's.
  \<^item> \<open>Parse_Float\<close>, \<open>Cli\<close>, \<open>Cli_Auth\<close>, \<open>Cli_Main\<close> (\<open>cli/cli.go\<close>): the command interpreter on the
    client's operations, what it prints, the prompt with its reader, the choice of mode and
    address, and the program from its arguments to its exit status.
  \<^item> \<open>Server_Main\<close> (\<open>server/server.go\<close>, \<open>mydis/server.go\<close>): the choice of configuration and
    addresses, and the steps of the start with the error each can end in.  \<open>Certs\<close>
    (\<open>util/certs.go\<close>): the self-signed certificate and the addresses that enter it; random
    numbers, keys, signatures and interfaces are a machine, a parameter.  \<open>Server_Life\<close>
    (\<open>mydis/util.go\<close>, \<open>mydis/server.go\<close>): copies of the configuration, the credentials of server,
    gateway and client, how the serving goroutines end, and \<open>Close\<close>.
  \<^item> \<open>Gateway\<close> (\<open>pb/mydis.pb.gw.go\<close>): the routes of the HTTP gateway, each a pattern, a request
    function and a handler that calls the service; \<open>Gateway_Watch\<close>: its streaming request,
    with the variable its goroutine and its caller share, and the route that answers it.
  \<^item> \<open>Websocket\<close> (\<open>mydis/websocket_proxy.go\<close>): the request the proxy prepares and its loops
    between messages and lines; \<open>Websocket_Session\<close>: the goroutines of a session over the two
    pipes and the socket as a step relation.

  Locales: \<open>locked_store\<close> and \<open>typed_store\<close> (\<open>Store_Interface\<close>) are described above;
  \<open>lock_service\<close> (\<open>Lock_Protocol\<close>) is the contract of a service that refines the lock table,
  interpreted on the transactions of the server; \<open>field_map\<close> (\<open>Go_Util\<close>) is the contract of a
  map with insert, delete and lookup, interpreted on the model of Go's maps.

  The properties stand in the theory of their component and, where they span components,
  below.  In short:
  \<^item> Concurrency: whatever requests on one key are interleaved however, and whichever calls of
    etcd fail, they act and are answered as if served one after the other (\<open>Serial\<close>), because
    every handler takes the steps of its request (\<open>Update_Steps\<close>, \<open>Updates\<close>); so no increment
    is lost, a list stays a list and serves as a queue (\<open>Concurrent_Lists\<close>), a hash is a map
    (\<open>Concurrent_Hashes\<close>), and the lock operations implement a table of locks
    (\<open>Lock_Protocol\<close>).  A waiting pop is served once there are items (\<open>Waiting_Pop\<close>).  A lock
    that its holder leaves behind stays until somebody unlocks the key by hand or clears the
    server (\<open>Abandoned_Locks\<close>, \<open>Held_Locks\<close>).
  \<^item> Operations: what each answers and stores on every branch (\<open>Lock_Spec\<close>, \<open>Bytes_Spec\<close>,
    \<open>Numbers_Spec\<close>, \<open>Lists_Spec\<close>, \<open>Hashes_Spec\<close>), and that requests with bounded waits return.
  \<^item> Watching: a client gets its events in order, from etcd through watcher and session
    (\<open>Watch_Session\<close>) to its event channels (\<open>Client_Process\<close>, \<open>Watch_End\<close>), and its
    disconnection ends its watcher.
  \<^item> Permissions: what \<open>GetPermission\<close> and the commands grant is exactly what revoking takes
    away, and a user limited to some keys cannot update in place (\<open>Role_Commands\<close>,
    \<open>Permissions\<close>).
  \<^item> Surfaces: a stub is its operation (\<open>Remote_Calls\<close>), the server's errors reach the caller of
    each operation of the client (\<open>Client_Errors\<close>), values other than times survive encoding
    and the trip over the wire, from the command line
    (\<open>Cli_Main\<close>), over HTTP (\<open>Gateway_Spec\<close>) and through a websocket (\<open>Websocket_Session\<close>,
    which also shows what a session leaves behind).
  \<^item> Where the code panics, deadlocks, leaves a lock behind or loses a value, as statements
    that it does.

  Bounds: integers are 64-bit words, lists have fewer than \<open>2^63\<close> items, timeouts in seconds
  are exact up to \<open>9223372036\<close> (beyond, the conversion to nanoseconds wraps), ids of watches
  and watchers are unique for \<open>2^64\<close> requests.  There is no fuel: the loops that may not end are
  partial functions whose end is proved, or the steps of a relation; the interactive prompt,
  which reads until \<open>QUIT\<close>, is run for any given number of lines.  Strings are their bytes:
  \<open>TrimSpace\<close> trims the UTF-8 encodings of all of Go's white space, \<open>ToUpper\<close> is exact on ASCII
  and on the two other letters whose capital is ASCII, and statements about it say \<open>ascii\<close>.

  Not modelled: of the generated \<open>mydis.pb.go\<close> the methods of its messages (\<open>Reset\<close>, the getters and
  descriptors, which only the protobuf library calls) with the wire format, which that
  library computes by reflection on struct tags; and what is left to libraries and therefore
  a parameter: etcd and its leases, gRPC and its streams, TLS handshakes and cryptography, the
  sockets, YAML and JSON, the HTTP router and the forwarding of responses, and the logging.
\<close>

section \<open>Concurrent clients\<close>

text \<open>
  C14. No increment is lost.  However the calls of \<open>n\<close> clients that each run \<open>IncrementInt\<close> on
  one key interleave, with each other and with requests on other keys, at most one of them
  is between its lock and its write, and the counter is its start value plus the amounts of
  exactly the clients that are done; when all are, it is the start value plus all amounts.
\<close>

theorem concurrent_increments_lose_nothing:
  assumes "proto_ok C" and "\<not> invalid_key key" and "m0 ZeroByte \<noteq> Some ZeroByte"
    and "m0 (getLockName key) \<noteq> Some ZeroByte" and "counter C key m0 = Inr v0"
    and "increment_reachable C key amount n m0 c"
  shows "(\<forall>i j. inside (phase_of c i) \<and> inside (phase_of c j) \<longrightarrow> i = j) \<and>
    counter C key (store c) = Inr (v0 + (\<Sum>i | i < n \<and> finished (phase_of c i). amount i)) \<and>
    ((\<forall>i<n. finished (phase_of c i)) \<longrightarrow> counter C key (store c) = Inr (v0 + (\<Sum>i<n. amount i)))"
proof -
  have inv: "counter_inv C key amount n v0 c" using assms by (rule counter_inv_reachable)
  have one: "\<forall>i j. inside (phase_of c i) \<and> inside (phase_of c j) \<longrightarrow> i = j"
    using inv unfolding counter_inv_def by blast
  have sum: "counter C key (store c) = Inr (v0 + (\<Sum>i | i < n \<and> finished (phase_of c i). amount i))"
    using inv by (simp only: counter_inv_def total_def)
  show ?thesis
  proof (intro conjI impI)
    assume "\<forall>i<n. finished (phase_of c i)"
    then have "{i. i < n \<and> finished (phase_of c i)} = {..<n}" by auto
    then show "counter C key (store c) = Inr (v0 + (\<Sum>i<n. amount i))" using sum by simp
  qed (rule one, rule sum)
qed

theorem concurrent_increments_lose_nothing_witness:
  "\<exists>c. increment_reachable memory_codec ''k'' (\<lambda>_. 5) 1 Map.empty c \<and> finished (phase_of c 0) \<and>
    counter memory_codec ''k'' (store c) = Inr 5"
proof -
  let ?c0 = "\<lparr>store = Map.empty, phase_of = (\<lambda>_. Waiting)\<rparr>"
  let ?c1 = "?c0\<lparr>store := run_txn (lock_txn ''k'') (store ?c0), phase_of := (phase_of ?c0)(0 := Locked)\<rparr>"
  let ?c2 = "?c1\<lparr>phase_of := (phase_of ?c1)(0 := Computed (0 + 5))\<rparr>"
  obtain b where b: "MarshalInt memory_codec \<lparr>IntValue_Key = [], IntValue_Value = 0 + 5\<rparr> = Inr b"
    using memory_codec_ok unfolding proto_ok_def by blast
  let ?c3 = "?c2\<lparr>store := run_txn (unlock_set_txn ''k'' b) (store ?c2), phase_of := (phase_of ?c2)(0 := Finished (0 + 5))\<rparr>"
  have zero: "counter memory_codec ''k'' Map.empty = Inr 0"
    by (simp add: counter_def demo_int_missing if_missing_def)
  have free: "\<not> compares (store ?c0) (lock_txn ''k'')" by (simp add: lock_txn_def)
  have "store ?c1 (StringToBytes ''k'') = Map.empty (StringToBytes ''k'')"
    using run_lock_txn [OF free] by simp
  then have one: "counter memory_codec ''k'' (store ?c1) = Inr 0" by (rule trans [OF counter_local zero])
  have s1: "increment_step memory_codec ''k'' (\<lambda>_. 5) 1 ?c0 ?c1"
    by (rule increment_step.Acquire) (use free in simp_all)
  have s2: "increment_step memory_codec ''k'' (\<lambda>_. 5) 1 ?c1 ?c2"
    by (rule increment_step.Read [OF _ _ one]) simp_all
  have s3: "increment_step memory_codec ''k'' (\<lambda>_. 5) 1 ?c2 ?c3"
    by (rule increment_step.Commit [OF _ _ b]) simp_all
  have r: "increment_reachable memory_codec ''k'' (\<lambda>_. 5) 1 Map.empty ?c3"
    by (rule increment_reachable.Step [OF increment_reachable.Step [OF increment_reachable.Step
        [OF increment_reachable.Start s1] s2] s3])
  have fin: "finished (phase_of ?c3 0)" by simp
  have empty: "Map.empty ZeroByte \<noteq> Some ZeroByte" "Map.empty (getLockName ''k'') \<noteq> Some ZeroByte" by simp_all
  from concurrent_increments_lose_nothing [OF memory_codec_ok invalid_key_k empty zero r]
  have "(\<forall>i<1. finished (phase_of ?c3 i)) \<longrightarrow> counter memory_codec ''k'' (store ?c3) = Inr (0 + (\<Sum>i<(1::nat). 5))"
    by (elim conjE)
  with fin have "counter memory_codec ''k'' (store ?c3) = Inr 5" by (simp only: less_one) simp
  with r fin show ?thesis by blast
qed

section \<open>The service\<close>

text \<open>
  C16. The transactions that unlock are written to fail their comparison, and they always do:
  if the reserved key \<open>ZeroByte\<close> does not hold the reserved value at the start and the other
  clients of etcd do not put it there, no sequence of requests, with whatever arguments and
  results, ever stores it.
\<close>

theorem requests_keep_reserved_key:
  assumes "etcd_kv E kv" and "\<And>n s. kv s ZeroByte \<noteq> Some ZeroByte \<Longrightarrow> kv (others E n s) ZeroByte \<noteq> Some ZeroByte"
    and "kv (cache w) ZeroByte \<noteq> Some ZeroByte"
  shows "kv (cache (snd (serve_all E C reqs w))) ZeroByte \<noteq> Some ZeroByte"
proof -
  have "always E kv reserved w" using assms by (simp add: always_def reserved_def)
  then have "always E kv reserved (snd (serve_all E C reqs w))" by (rule keepsD [OF reserved_serve_all])
  then show ?thesis by (simp add: always_def reserved_def)
qed

theorem requests_keep_reserved_key_witness:
  "map_of (cache (snd (serve_all quiet_etcd memory_codec
    [(demo_ctx, Key_request (Req_UnlockThenSet \<lparr>ByteValue_Key = ''k'', ByteValue_Value = ZeroByte\<rparr>)),
     (demo_ctx, Byte_request (Req_Get (newKey ''k'')))] (mem_world [])))) ZeroByte \<noteq> Some ZeroByte"
  by (rule requests_keep_reserved_key [of quiet_etcd map_of "mem_world []"])
    (simp_all add: mem_etcd_kv mem_world_def quiet_etcd_def)

section \<open>Returning\<close>

text \<open>
  C17. A request whose waits are bounded always returns, with an answer, an error or a panic:
  the metadata asks for no negative wait, a lock request has no negative timeout, and a
  blocking read has a positive timeout in the range of a duration.  This holds whatever etcd
  answers, however long its calls take and whatever other clients do, for every codec.
\<close>

theorem bounded_requests_return:
  assumes "bounded_request ctx req"
  shows "\<exists>r w'. serve E C ctx req w = (r, w') \<and> r \<noteq> Hang"
  using returns_serve [OF assms, of E C] unfolding returns_def by (metis prod.collapse)

theorem bounded_requests_return_witness:
  "\<exists>r w'. serve quiet_etcd memory_codec demo_ctx (List_request (Req_ListPopLeft
      ((newKey ''k'')\<lparr>Key_Block := True, Key_BlockTimeout := 3\<rparr>))) (mem_world []) = (r, w') \<and> r \<noteq> Hang"
  by (rule bounded_requests_return) (simp add: bounded_request_def bounded_key_def demo_wait)

section \<open>Watching\<close>

text \<open>
  C22. In every state a watcher can reach within \<open>2^64\<close> requests, whatever requests and events
  came in, each watched key or prefix is recorded once under its request id, no two share an
  etcd watch, and the recorded watches are exactly the ones active in etcd's stream: none
  is leaked and none is lost.
\<close>

theorem watcher_tracks_active_watches:
  assumes "stream_law M active" and "active s = {}" and "watcher_reachable M s w" and "w_answered w < 2 ^ 64"
  shows "distinct (map fst (w_watching w)) \<and> (\<forall>(name, r)\<in>set (w_watching w). name = RequestID r) \<and>
    distinct (map (\<lambda>x. WatchRequest_Id (snd x)) (w_watching w)) \<and>
    (\<lambda>x. WatchRequest_Id (snd x)) ` set (w_watching w) = active (w_stream w)"
  using watcher_inv_reachable [OF assms] by (auto simp: watcher_inv_def watched_ids_def)

text \<open>A stream that hands out the first id that is not in use.\<close>

definition demo_stream :: "int64 list watch_stream" where
  "demo_stream = \<lparr>
     stream_Watch = (\<lambda>s k e rv. case find (\<lambda>i. i \<notin> set s) (map of_nat [0..<2 ^ 64]) of
        Some i \<Rightarrow> (i, i # s) | None \<Rightarrow> (0, s)),
     stream_Cancel = (\<lambda>s i. removeAll i s)\<rparr>"

lemma demo_stream_law: "stream_law demo_stream set"
proof -
  have "\<exists>i. find (\<lambda>i. i \<notin> set s) (map of_nat [0..<2 ^ 64]) = Some i \<and> i \<notin> set s"
    if "set s \<noteq> UNIV" for s :: "int64 list"
  proof -
    obtain j where j: "j \<notin> set s" using \<open>set s \<noteq> UNIV\<close> by blast
    have "unat j < 2 ^ 64" using unsigned_less [of j] by simp
    then have "j \<in> set (map of_nat [0..<2 ^ 64])" by (auto intro!: image_eqI [where x = "unat j"])
    with j have "find (\<lambda>i. i \<notin> set s) (map of_nat [0..<2 ^ 64]) \<noteq> None" by (auto simp: find_None_iff)
    then show ?thesis by (auto simp: find_Some_iff)
  qed
  then show ?thesis by (fastforce simp: stream_law_def demo_stream_def split: option.split)
qed

theorem watcher_tracks_active_watches_witness:
  "\<exists>w. watcher_reachable demo_stream [] w \<and> w_answered w = 1 \<and>
    (\<lambda>x. WatchRequest_Id (snd x)) ` set (w_watching w) = set (w_stream w)"
proof -
  let ?w = "handle_request demo_stream (client_Watch ''k'' True) (new_watcher [])"
  have r: "watcher_reachable demo_stream [] ?w"
    by (rule watcher_reachable.Step [OF watcher_reachable.Start watcher_step.Request])
  have a: "w_answered ?w = 1" by (simp add: handle_request_answered new_watcher_def)
  with watcher_tracks_active_watches [OF demo_stream_law _ r] show ?thesis
    by (intro exI [where x = ?w]) (simp add: r)
qed

text \<open>
  Events reach the client in order, and an event is sent once for every recorded request
  that watches its key: the key itself, or a prefix of it.  So a key under two overlapping
  watches is reported twice.
\<close>

theorem events_sent_per_watch:
  assumes "\<forall>e\<in>set es. mvcc_Kv e \<noteq> None"
  shows "handle_events es w = Some (w\<lparr>w_sent := w_sent w @ concat (map (\<lambda>e.
     replicate (length (filter (\<lambda>x. WatchRequest_Key (snd x) = BytesToString (KV_Key (the (mvcc_Kv e))) \<or>
          WatchRequest_Prefix (snd x) \<and> prefix (WatchRequest_Key (snd x)) (BytesToString (KV_Key (the (mvcc_Kv e)))))
        (w_watching w)))
       (convert_event e)) es)\<rparr>)"
  unfolding handle_events_sent [OF assms] watches_key_def HasPrefix_iff ..

theorem events_sent_per_watch_witness:
  "\<exists>w' ev. handle_events [\<lparr>mvcc_Type = Event_PUT, mvcc_Kv = Some \<lparr>KV_Key = StringToBytes ''ab'', KV_Value = [7]\<rparr>, mvcc_PrevKv = None\<rparr>]
      \<lparr>w_stream = (), w_watching = [(''ab'', client_Watch ''ab'' False), (''x'', client_Watch ''a'' True)],
        w_sent = [], w_answered = 2\<rparr> = Some w' \<and> w_sent w' = [ev, ev]"
  by (subst events_sent_per_watch) (simp_all add: client_Watch_def)

text \<open>
  C25. A request to end a watch that does not exist starts it: etcd gets a new watch, the events
  of the key are sent to the client, and the client, which asked for the end, does not record
  the watch.
\<close>

theorem unwatch_starts_watch:
  assumes "WatchRequest_Cancel r" and "RequestID r \<notin> fst ` set (w_watching w)"
    and "stream_law M active" and "active (w_stream w) \<noteq> UNIV"
    and "mvcc_Kv e = Some kv" and "BytesToString (KV_Key kv) = WatchRequest_Key r"
  shows "\<exists>i w'. i \<notin> active (w_stream w) \<and> active (w_stream (handle_request M r w)) = insert i (active (w_stream w)) \<and>
    handle_events [e] (handle_request M r w) = Some w' \<and> convert_event e \<in> set (w_sent w') \<and>
    RequestID r \<notin> set (cw_watching (record_request r c))"
proof -
  let ?range = "if WatchRequest_Prefix r then getPrefix (WatchRequest_Key r) else []"
  obtain i s where st: "stream_Watch M (w_stream w) (StringToBytes (WatchRequest_Key r)) ?range (WatchRequest_Rev r) = (i, s)"
    by fastforce
  have new: "i \<notin> active (w_stream w)" "active s = insert i (active (w_stream w))"
    using assms(3,4) st unfolding stream_law_def by (metis fst_conv, metis fst_conv snd_conv)
  have none: "map_of (w_watching w) (RequestID r) = None" using assms(2) by (simp add: map_of_eq_None_iff)
  let ?w = "handle_request M r w"
  have w: "w_stream ?w = s" "w_watching ?w = w_watching w @ [(RequestID r, r\<lparr>WatchRequest_Id := i\<rparr>)]"
    using none by (simp_all add: handle_request_def st update_absent)
  have "\<forall>e'\<in>set [e]. mvcc_Kv e' \<noteq> None" using assms(5) by simp
  from handle_events_sent [OF this, of ?w] obtain w' where
      "handle_events [e] ?w = Some w'" and "convert_event e \<in> set (w_sent w')"
    using assms(5,6) by (auto simp: w watches_key_def)
  moreover have "RequestID r \<notin> set (cw_watching (record_request r c))"
    by (simp add: record_request_RequestID assms(1))
  ultimately show ?thesis using new w(1) by blast
qed

theorem unwatch_starts_watch_witness:
  "\<exists>w'. handle_events [\<lparr>mvcc_Type = Event_PUT, mvcc_Kv = Some \<lparr>KV_Key = StringToBytes ''k'', KV_Value = [7]\<rparr>, mvcc_PrevKv = None\<rparr>]
      (handle_request demo_stream (client_Unwatch ''k'' False) (new_watcher [])) = Some w' \<and> w_sent w' \<noteq> []"
proof -
  let ?e = "\<lparr>mvcc_Type = Event_PUT, mvcc_Kv = Some \<lparr>KV_Key = StringToBytes ''k'', KV_Value = [7]\<rparr>, mvcc_PrevKv = None\<rparr>"
  have "\<exists>i w'. i \<notin> set (w_stream (new_watcher [])) \<and>
      set (w_stream (handle_request demo_stream (client_Unwatch ''k'' False) (new_watcher []))) = insert i (set (w_stream (new_watcher []))) \<and>
      handle_events [?e] (handle_request demo_stream (client_Unwatch ''k'' False) (new_watcher [])) = Some w' \<and>
      convert_event ?e \<in> set (w_sent w') \<and>
      RequestID (client_Unwatch ''k'' False) \<notin>
        set (cw_watching (record_request (client_Unwatch ''k'' False) \<lparr>cw_newID = 0, cw_watchers = [], cw_watching = []\<rparr>))"
    by (rule unwatch_starts_watch [OF _ _ demo_stream_law, where kv = "\<lparr>KV_Key = StringToBytes ''k'', KV_Value = [7]\<rparr>"])
      (simp_all add: client_Unwatch_def new_watcher_def)
  then show ?thesis by fastforce
qed

text \<open>
  The watchers of a controller have different ids, and a new watcher takes the id of no
  other, whatever the order in which watchers are opened, end and are closed, as long as
  fewer than \<open>2^64\<close> such events happened; closing the controller ends them all.
\<close>

theorem controller_ids_unique:
  assumes "length es < 2 ^ 64" and "c = fold controller_step es NewWatchController"
  shows "distinct (c_watchers c) \<and> c_nextID c \<notin> set (c_watchers c) \<and>
    c_watchers (controller_step CloseAll c) = []"
  using controller_inv_run [OF assms(1)] unfolding assms(2)
  by (auto simp: controller_inv_def close_all_empty)

theorem controller_ids_unique_witness:
  "distinct (c_watchers (fold controller_step [Open, Open, Done 0, Open] NewWatchController)) \<and>
   c_watchers (fold controller_step [Open, Open, Done 0, Open] NewWatchController) = [2, 1]"
proof -
  have "distinct (c_watchers (fold controller_step [Open, Open, Done 0, Open] NewWatchController))"
    using controller_ids_unique [of "[Open, Open, Done 0, Open]", OF _ refl] by simp
  then show ?thesis by (simp add: NewWatchController_def NewWatcher_def watcher_done_def List.insert_def)
qed

section \<open>The client\<close>

text \<open>
  A value set through the client is the value the client gets: \<open>Set\<close> of any Go value that
  converts without error, and then \<open>Get\<close> of the key, answers with the bytes the value was
  converted to.
\<close>

theorem client_Set_then_Get:
  assumes "usable K (client_ctx c) (newKey key) m" and "\<not> key_held (newKey key) m"
    and "Value_err (NewValue C v) = None"
  shows "runs (stores E kv K m) (and_then (client_Set E C c key v) (\<lambda>_. client_Get E key)) (Ok (NewValue C v))
    (stores E kv K (m(StringToBytes key \<mapsto> Value_b (NewValue C v))))"
proof -
  let ?m = "m(StringToBytes key \<mapsto> Value_b (NewValue C v))"
  have "newValue_b (Value_b (NewValue C v)) = NewValue C v"
    using assms(3) by (cases "NewValue C v") (simp add: newValue_b_def)
  moreover have "StringToBytes key \<in> K" using assms(1) by (simp add: usable_def)
  ultimately have "runs (stores E kv K ?m) (client_Get E key) (Ok (NewValue C v)) (stores E kv K ?m)"
    using client_Get_runs [of key K ?m "Value_b (NewValue C v)" E kv] by simp
  with client_Set_runs [OF assms, of E kv] show ?thesis by (rule runs_and_then)
qed

theorem client_Set_then_Get_witness:
  "\<exists>w. and_then (client_Set quiet_etcd memory_codec \<lparr>cl_MD = None, cl_authToken = []\<rparr> ''k'' (AnyBool True))
      (\<lambda>_. client_Get quiet_etcd ''k'') (mem_world []) = (Ok (newValue_b [1]), w)"
proof -
  have "client_ctx \<lparr>cl_MD = None, cl_authToken = []\<rparr> = demo_ctx" by (simp add: client_ctx_def demo_ctx_def)
  then have "runs (stores quiet_etcd map_of UNIV (map_of []))
      (and_then (client_Set quiet_etcd memory_codec \<lparr>cl_MD = None, cl_authToken = []\<rparr> ''k'' (AnyBool True))
        (\<lambda>_. client_Get quiet_etcd ''k'')) (Ok (NewValue memory_codec (AnyBool True)))
      (stores quiet_etcd map_of UNIV ((map_of [])(StringToBytes ''k'' \<mapsto> Value_b (NewValue memory_codec (AnyBool True)))))"
    by (intro client_Set_then_Get) (simp_all add: demo_setting)
  from demo_run [OF this] show ?thesis by (auto simp: bool_bytes_def)
qed

text \<open>
  Of a time \<open>NewValue\<close> stores only the nanoseconds within the second, and \<open>Time\<close> reads them
  as nanoseconds since 1970.
\<close>

lemma time_read_back:
  assumes "proto_ok C" and "0 \<le> Time_nsec t" and "Time_nsec t < 1000000000"
  shows "Value_Time C (NewValue C (AnyTime t)) = Inr \<lparr>Time_sec = 0, Time_nsec = Time_nsec t\<rparr>"
proof -
  have "sint (word_of_int (Time_nsec t) :: int64) = Time_nsec t"
    using assms(2,3) by (simp add: sint_sbintrunc' signed_take_bit_63_eq)
  then have "time_Unix_nano (word_of_int (Time_nsec t)) = \<lparr>Time_sec = 0, Time_nsec = Time_nsec t\<rparr>"
    using assms(2,3) by (simp add: time_Unix_nano_def)
  then show ?thesis
    using int_bytes_read [OF assms(1), of "word_of_int (Time_nsec t)"]
    by (auto simp: Value_Time_def Value_Int_def map_sum_def split: sum.splits)
qed

text \<open>
  C26. For any codec that round trips, what a value was made from is read back with the
  accessor of its type if it is a string, a boolean, an integer, a float, a duration, a list
  of strings or a map of strings.  A time is not: it comes back as an instant in the first
  second of 1970, so that only the times of that second survive.
\<close>

theorem values_round_trip:
  assumes "proto_ok C" and "map_wf h" and "0 \<le> Time_nsec t1" and "Time_nsec t1 < 1000000000"
  shows "Value_String (NewValue C (AnyString s)) = Inr s \<and> Value_Bool (NewValue C (AnyBool t)) = Inr t \<and>
    Value_Int C (NewValue C (AnyInt i)) = Inr i \<and> Value_Float C (NewValue C (AnyFloat64 x)) = Inr x \<and>
    Value_Duration C (NewValue C (AnyDuration d)) = Inr d \<and>
    Value_List C (NewValue C (AnyStrings ss)) = Inr (map (\<lambda>s. newValue_b (StringToBytes s)) ss) \<and>
    (\<exists>m. Value_Map C (NewValue C (AnyMapString h)) = Inr m \<and>
      map_get m = (\<lambda>k. map_option (\<lambda>s. newValue_b (StringToBytes s)) (map_get h k))) \<and>
    Value_Time C (NewValue C (AnyTime t1)) = Inr \<lparr>Time_sec = 0, Time_nsec = Time_nsec t1\<rparr> \<and>
    (Value_Time C (NewValue C (AnyTime t1)) = Inr t1 \<longleftrightarrow> Time_sec t1 = 0)"
proof -
  obtain m where "Value_Map C (NewValue C (AnyMapString h)) = Inr m"
      and "map_get m = (\<lambda>k. map_option newValue_b (map_get (convert_map StringToBytes h) k))"
    using map_bytes_read [OF assms(1) convert_map_get(2) [OF assms(2)], of StringToBytes]
    by (auto simp: MapStringToMapBytes_def)
  then have "\<exists>m. Value_Map C (NewValue C (AnyMapString h)) = Inr m \<and>
      map_get m = (\<lambda>k. map_option (\<lambda>s. newValue_b (StringToBytes s)) (map_get h k))"
    by (auto simp: convert_map_get(1) [OF assms(2)] option.map_comp comp_def)
  then show ?thesis
    using int_bytes_read [OF assms(1)] float_bytes_read [OF assms(1)] list_bytes_read [OF assms(1)]
      time_read_back [OF assms(1,3,4)] by (cases t1) (simp add: Value_String_def Value_Bool_def bool_bytes_def ZeroByte_def Value_Int_def Value_Duration_def
        ListStringToBytes_def ListToValues_def comp_def)
qed

theorem values_round_trip_witness:
  "Value_Int memory_codec (NewValue memory_codec (AnyInt (- 7))) = Inr (- 7) \<and>
   Value_Time memory_codec (NewValue memory_codec (AnyTime \<lparr>Time_sec = 1500000000, Time_nsec = 42\<rparr>)) =
     Inr \<lparr>Time_sec = 0, Time_nsec = 42\<rparr>"
proof -
  have "map_wf (Some [])" by (simp add: map_wf_def map_entries_def)
  from values_round_trip [OF memory_codec_ok this, of "\<lparr>Time_sec = 1500000000, Time_nsec = 42\<rparr>"] show ?thesis by simp
qed

text \<open>
  The lock timeout a client sets is the one the server waits for, at least a second, but
  setting it replaces the client's metadata, so a client that had logged in is not
  authenticated any more.
\<close>

theorem SetLockTimeout_reaches_server:
  "sint (getMaxWait (client_ctx (SetLockTimeout secs c))) = max 1 (sint secs) \<and>
   the (cl_MD (logged_in token c)) ''token'' = Some [token] \<and>
   the (cl_MD (SetLockTimeout secs (logged_in token c))) ''token'' = None"
proof (intro conjI)
  show "sint (getMaxWait (client_ctx (SetLockTimeout secs c))) = max 1 (sint secs)" by (rule SetLockTimeout_wait)
qed (simp_all add: logged_in_def SetLockTimeout_def Let_def)

text \<open>
  After a reconnect a watch of a prefix is not restored: the request sent again watches
  the name with the internal suffix, and no key that the prefix covers is watched by it
  unless it continues with that suffix.
\<close>

theorem prefix_watch_lost_on_reconnect:
  assumes "prefix pre key" and "\<not> prefix (pre @ suffixForKeysUsingPrefix) key"
  shows "watches_key key (client_Watch pre True) \<and>
    (\<forall>r\<in>set (rewatch (record_request (client_Watch pre True) (c\<lparr>cw_watching := []\<rparr>))). \<not> watches_key key r)"
proof -
  have "record_request (client_Watch pre True) (c\<lparr>cw_watching := []\<rparr>) =
      c\<lparr>cw_watching := [RequestID (client_Watch pre True)]\<rparr>"
    by (simp add: record_request_RequestID client_Watch_def)
  then show ?thesis
    using assms rewatch_prefix [of pre c] rewatch_prefix_lost [of key pre]
    by (auto simp: HasPrefix_iff watches_key_def client_Watch_def)
qed

theorem prefix_watch_lost_on_reconnect_witness:
  "\<exists>r. rewatch (record_request (client_Watch ''a'' True) \<lparr>cw_newID = 0, cw_watchers = [], cw_watching = []\<rparr>) = [r] \<and>
    \<not> watches_key ''ab'' r"
proof -
  let ?c = "\<lparr>cw_newID = 0, cw_watchers = [], cw_watching = []\<rparr> :: client_watch"
  have "\<forall>r\<in>set (rewatch (record_request (client_Watch ''a'' True) ?c)). \<not> watches_key ''ab'' r"
    using prefix_watch_lost_on_reconnect [of "''a''" "''ab''" ?c] by (simp add: suffixForKeysUsingPrefix_def)
  moreover have "rewatch (record_request (client_Watch ''a'' True) ?c) = [client_Watch (''a'' @ suffixForKeysUsingPrefix) True]"
    using rewatch_prefix [of "''a''" ?c] by (simp add: record_request_RequestID client_Watch_def)
  ultimately show ?thesis by simp
qed

end
